(* ===== verification/Rec_Prelude.thy ===== *)
theory Rec_Prelude
  imports Main "HOL-Library.Word"
begin

text \<open>
  Shared vocabulary of the development: C memory as character lists with checked access, the
  C strings and the \<open>sprintf\<close> conversions the server uses, error values for the behaviours the
  C standard leaves undefined, and the generic lemmas the component theories share.
\<close>

unbundle bit_operations_syntax

named_theorems res_simps \<open>evaluation of the error results\<close>
named_theorems cstr_simps \<open>C strings, buffers and sprintf\<close>

section \<open>Types\<close>

type_synonym byte = char
type_synonym u32 = "32 word"

text \<open>
  What the C program does when an access is out of bounds, a pointer is NULL or an object is
  read before it is written is undefined behaviour: the model stops with one of these values.
  \<open>Blocked\<close> is a call that waits on a condition variable that nothing has signalled.
\<close>

datatype c_error =
    Out_Of_Bounds      \<comment> \<open>a read past the end of a buffer\<close>
  | Buffer_Overflow    \<comment> \<open>a write past the end of a buffer\<close>
  | Null_Deref
  | Uninitialised
  | Blocked
  | Diverged

type_synonym 'a res = "c_error + 'a"

section \<open>Sequencing of results\<close>

fun bind_res :: "'a res \<Rightarrow> ('a \<Rightarrow> 'b res) \<Rightarrow> 'b res" where
  "bind_res (Inl e) f = Inl e"
| "bind_res (Inr x) f = f x"

lemma bind_res_Inr [res_simps]: "bind_res m f = Inr y \<longleftrightarrow> (\<exists>x. m = Inr x \<and> f x = Inr y)"
  by (cases m) auto

lemma bind_res_assoc: "bind_res (bind_res m f) g = bind_res m (\<lambda>x. bind_res (f x) g)"
  by (cases m) auto

lemma bind_res_right [simp]: "bind_res m Inr = m"
  by (cases m) auto

lemma bind_res_cong [fundef_cong]:
  "m = m' \<Longrightarrow> (\<And>x. m' = Inr x \<Longrightarrow> f x = f' x) \<Longrightarrow> bind_res m f = bind_res m' f'"
  by (cases m') auto

lemma split_bind_res:
  "P (bind_res m f) \<longleftrightarrow> (\<forall>e. m = Inl e \<longrightarrow> P (Inl e)) \<and> (\<forall>x. m = Inr x \<longrightarrow> P (f x))"
  by (cases m) auto

fun fold_res :: "('s \<Rightarrow> 'x \<Rightarrow> 's res) \<Rightarrow> 's \<Rightarrow> 'x list \<Rightarrow> 's res" where
  "fold_res f s [] = Inr s"
| "fold_res f s (x # xs) = bind_res (f s x) (\<lambda>s'. fold_res f s' xs)"

lemma fold_res_append:
  "fold_res f s (xs @ ys) = bind_res (fold_res f s xs) (\<lambda>s'. fold_res f s' ys)"
  by (induction xs arbitrary: s) (auto simp: bind_res_assoc)

lemma fold_res_invariant:
  assumes "fold_res f s xs = Inr s'" and "I s"
    and "\<And>s x s'. x \<in> set xs \<Longrightarrow> I s \<Longrightarrow> f s x = Inr s' \<Longrightarrow> I s'"
  shows "I s'"
  using assms
proof (induction xs arbitrary: s)
  case Nil
  then show ?case by simp
next
  case (Cons x xs)
  then obtain t where t: "f s x = Inr t" "fold_res f t xs = Inr s'"
    by (auto simp: res_simps)
  with Cons.prems(2,3) have "I t" by (meson list.set_intros(1))
  with t(2) Cons.IH Cons.prems(3) show ?case by (meson list.set_intros(2))
qed

lemma fold_res_cong:
  "(\<And>s x. x \<in> set xs \<Longrightarrow> f s x = g s x) \<Longrightarrow> fold_res f s xs = fold_res g s xs"
proof (induction xs arbitrary: s)
  case (Cons x xs)
  then show ?case by (cases "g s x") auto
qed simp

text \<open>Two nested loops are one loop over the pairs.\<close>

lemma fold_res_pairs:
  "fold_res (\<lambda>s i. fold_res (\<lambda>s j. f s (i, j)) s (g i)) s us = fold_res f s (concat (map (\<lambda>i. map (Pair i) (g i)) us))"
proof (induction us arbitrary: s)
  case (Cons i us)
  have "fold_res (\<lambda>s j. f s (i, j)) s ys = fold_res f s (map (Pair i) ys)" for s ys by (induction ys arbitrary: s) simp_all
  then show ?case using Cons.IH by (simp add: fold_res_append)
qed simp

lemma fold_res_total:
  assumes "\<And>s x. x \<in> set xs \<Longrightarrow> f s x = Inr (g s x)"
  shows "fold_res f s xs = Inr (foldl g s xs)"
  using assms by (induction xs arbitrary: s) auto

section \<open>C memory\<close>

definition mem_read :: "byte list \<Rightarrow> nat \<Rightarrow> nat \<Rightarrow> byte list res" where
  "mem_read buf off n =
     (if off + n \<le> length buf then Inr (take n (drop off buf)) else Inl Out_Of_Bounds)"

definition mem_write :: "byte list \<Rightarrow> nat \<Rightarrow> byte list \<Rightarrow> byte list res" where
  "mem_write buf off data =
     (if off + length data \<le> length buf
      then Inr (take off buf @ data @ drop (off + length data) buf)
      else Inl Buffer_Overflow)"

lemma mem_write_length:
  "mem_write buf off data = Inr buf' \<Longrightarrow> length buf' = length buf"
  by (auto simp: mem_write_def split: if_splits)

lemma mem_read_length: "mem_read buf off n = Inr xs \<Longrightarrow> length xs = n"
  by (auto simp: mem_read_def split: if_splits)

lemma mem_read_append:
  "length xs = off \<Longrightarrow> length ys = n \<Longrightarrow> mem_read (xs @ ys @ zs) off n = Inr ys"
  by (auto simp: mem_read_def)

lemma mem_write_append:
  "length xs = off \<Longrightarrow> length ys = length data \<Longrightarrow>
   mem_write (xs @ ys @ zs) off data = Inr (xs @ data @ zs)"
  by (auto simp: mem_write_def)

text \<open>Arrays of other types, one element at a time.\<close>

definition arr_get :: "'a list \<Rightarrow> nat \<Rightarrow> 'a res" where
  "arr_get a k = (if k < length a then Inr (a ! k) else Inl Out_Of_Bounds)"

definition arr_put :: "'a list \<Rightarrow> nat \<Rightarrow> 'a \<Rightarrow> 'a list res" where
  "arr_put a k v = (if k < length a then Inr (a[k := v]) else Inl Buffer_Overflow)"

text \<open>Filling an array from the left.\<close>

lemma list_fill: "length xs = n \<Longrightarrow> n < length a \<Longrightarrow> (xs @ drop n a)[n := v] = xs @ v # drop (Suc n) a"
  by (simp add: list_update_append Cons_nth_drop_Suc [symmetric])

section \<open>C strings\<close>

abbreviation NUL :: byte where "NUL \<equiv> CHR 0x00"

text \<open>The string a \<open>char*\<close> into this memory denotes: everything up to the first NUL.\<close>

definition c_str :: "byte list \<Rightarrow> string" where
  "c_str xs = takeWhile (\<lambda>c. c \<noteq> NUL) xs"

lemma c_str_no_NUL [cstr_simps]: "NUL \<notin> set xs \<Longrightarrow> c_str xs = xs"
  by (auto simp: c_str_def takeWhile_eq_all_conv)

lemma NUL_notin_c_str [cstr_simps]: "NUL \<notin> set (c_str xs)"
  by (auto simp: c_str_def dest: set_takeWhileD)

lemma length_c_str_le: "length (c_str xs) \<le> length xs"
  by (simp add: c_str_def length_takeWhile_le)

section \<open>The %x conversion of sprintf\<close>

definition hex_char :: "nat \<Rightarrow> byte" where
  "hex_char d = ''0123456789abcdef'' ! d"

fun hex_string :: "nat \<Rightarrow> string" where
  "hex_string n = (if n < 16 then [hex_char n] else hex_string (n div 16) @ [hex_char (n mod 16)])"

declare hex_string.simps [simp del]

text \<open>\<open>sprintf("%0wx", n)\<close>: at least \<open>w\<close> digits, padded with zeros.\<close>

definition sprintf_x :: "nat \<Rightarrow> nat \<Rightarrow> string" where
  "sprintf_x w n = (let s = hex_string n in replicate (w - length s) (CHR ''0'') @ s)"

lemma hex_char_not_NUL: "d < 16 \<Longrightarrow> hex_char d \<noteq> NUL"
  by (auto simp: hex_char_def numeral_eq_Suc less_Suc_eq)

lemma hex_string_no_NUL [cstr_simps]: "NUL \<notin> set (hex_string n)"
proof (induction n rule: hex_string.induct)
  case (1 n)
  show ?case
  proof (cases "n < 16")
    case True
    then show ?thesis using hex_char_not_NUL [of n] by (subst hex_string.simps) auto
  next
    case False
    then show ?thesis
      using 1 hex_char_not_NUL [of "n mod 16"] by (subst hex_string.simps) auto
  qed
qed

lemma length_hex_string_le: "0 < k \<Longrightarrow> n < 16 ^ k \<Longrightarrow> length (hex_string n) \<le> k"
proof (induction n arbitrary: k rule: hex_string.induct)
  case (1 n)
  show ?case
  proof (cases "n < 16")
    case True
    then show ?thesis using "1.prems" by (subst hex_string.simps) auto
  next
    case False
    then obtain j where j: "k = Suc j" "0 < j"
      using "1.prems" by (cases k; cases "k - 1") auto
    have "n div 16 < 16 ^ j"
      using "1.prems"(2) j by (simp add: less_mult_imp_div_less mult.commute)
    then have "length (hex_string (n div 16)) \<le> j"
      using "1.IH" False j by blast
    then show ?thesis using False j by (subst hex_string.simps) auto
  qed
qed

lemma length_hex_string_pos: "0 < length (hex_string n)"
  by (subst hex_string.simps) auto

lemma length_sprintf_x [cstr_simps]:
  "0 < w \<Longrightarrow> n < 16 ^ w \<Longrightarrow> length (sprintf_x w n) = w"
  using length_hex_string_le [of w n] by (simp add: sprintf_x_def Let_def)

lemma sprintf_x_no_NUL [cstr_simps]: "NUL \<notin> set (sprintf_x w n)"
  by (auto simp: sprintf_x_def Let_def cstr_simps)

section \<open>Frames handed to a fifo\<close>

text \<open>The flags of \<^verbatim>\<open>datafifo.h\<close>, and one call of \<^verbatim>\<open>datafifo_producer_data_add\<close> as a value.\<close>

abbreviation (input) FRAME_FLAG_NEWFRAME :: u32 where "FRAME_FLAG_NEWFRAME \<equiv> 0x1"
abbreviation (input) FRAME_FLAG_FRAMEEND :: u32 where "FRAME_FLAG_FRAMEEND \<equiv> 0x2"
abbreviation (input) FRAME_FLAG_FIRSTFRAME :: u32 where "FRAME_FLAG_FIRSTFRAME \<equiv> 0x4"
abbreviation (input) FRAME_FLAG_KEYFRAME :: u32 where "FRAME_FLAG_KEYFRAME \<equiv> 0x8"
abbreviation (input) FRAME_FLAG_AUDIOFRM :: u32 where "FRAME_FLAG_AUDIOFRM \<equiv> 0x10"
abbreviation (input) FRAME_FLAG_USERDATA :: u32 where "FRAME_FLAG_USERDATA \<equiv> 0x20"

abbreviation (input) WHOLE_FRAME :: u32 where
  "WHOLE_FRAME \<equiv> FRAME_FLAG_NEWFRAME OR FRAME_FLAG_FRAMEEND"

record fifo_add =
  fa_data :: "byte list"
  fa_flags :: u32
  fa_timestamp :: u32

end
