(* ===== verification/Msg_Codec.thy ===== *)
theory Msg_Codec
  imports Rec_Prelude
begin

text \<open>
  The wire format of the recording server (\<^verbatim>\<open>recbcsrv/recbc_srv.c\<close>): a frame is a two character
  version, a four character command, the total attribute length as four hexadecimal characters,
  and the attributes; an attribute is a one character name length, a four character value
  length, the name and the value. Here are the hexadecimal reader \<^verbatim>\<open>char2hex\<close>, the writers
  \<^verbatim>\<open>fill_cmd_header\<close> and \<^verbatim>\<open>add_attr_*\<close> over the command buffer \<^verbatim>\<open>t_cmd\<close>, the attribute loop every
  message handler repeats, \<^verbatim>\<open>MsgDump\<close> and the socket reader \<^verbatim>\<open>getMsg\<close>; and the round trip
  between what the writers build and what the loop reads.
\<close>

section \<open>Constants\<close>

abbreviation (input) CMD_BUFSIZE :: nat where "CMD_BUFSIZE \<equiv> 1536"
abbreviation (input) VERSION_SIZE :: nat where "VERSION_SIZE \<equiv> 2"
abbreviation (input) CMD_SIZE :: nat where "CMD_SIZE \<equiv> 4"
abbreviation (input) DATA_LEN_SIZE :: nat where "DATA_LEN_SIZE \<equiv> 4"
abbreviation (input) ARG_NAME_LEN_SIZE :: nat where "ARG_NAME_LEN_SIZE \<equiv> 1"
abbreviation (input) ARG_LEN_SIZE :: nat where "ARG_LEN_SIZE \<equiv> 4"
abbreviation (input) PACKET_HEADER_SIZE :: nat where "PACKET_HEADER_SIZE \<equiv> 10"
abbreviation (input) COMMAND_VERSION :: string where "COMMAND_VERSION \<equiv> ''01''"

abbreviation (input) COMMAND_SERVER :: string where "COMMAND_SERVER \<equiv> ''ffff''"
abbreviation (input) COMMAND_CONFIG :: string where "COMMAND_CONFIG \<equiv> ''0006''"
abbreviation (input) COMMAND_SWITCHCTRL :: string where "COMMAND_SWITCHCTRL \<equiv> ''0008''"
abbreviation (input) COMMAND_GETDATA :: string where "COMMAND_GETDATA \<equiv> ''0010''"
abbreviation (input) COMMAND_GETDATA_ACK :: string where "COMMAND_GETDATA_ACK \<equiv> ''0011''"
abbreviation (input) COMMAND_EVENT_VID :: string where "COMMAND_EVENT_VID \<equiv> ''0021''"
abbreviation (input) COMMAND_EVENT_VGA :: string where "COMMAND_EVENT_VGA \<equiv> ''0023''"
abbreviation (input) COMMAND_EVENT_AUX :: string where "COMMAND_EVENT_AUX \<equiv> ''0025''"
abbreviation (input) COMMAND_CAMHLD_BYPASS :: string where "COMMAND_CAMHLD_BYPASS \<equiv> ''0012''"
abbreviation (input) COMMAND_BYP_RSP :: string where "COMMAND_BYP_RSP \<equiv> ''0013''"
abbreviation (input) COMMAND_EVENT_UCI :: string where "COMMAND_EVENT_UCI \<equiv> ''0027''"
abbreviation (input) COMMAND_EVENT_JPEG :: string where "COMMAND_EVENT_JPEG \<equiv> ''0029''"
abbreviation (input) COMMAND_EVENT_PIP :: string where "COMMAND_EVENT_PIP \<equiv> ''0031''"
abbreviation (input) COMMAND_INTERNAL :: string where "COMMAND_INTERNAL \<equiv> ''0000''"
abbreviation (input) COMMAND_SET_LED :: string where "COMMAND_SET_LED \<equiv> ''0014''"

section \<open>Reading hexadecimal characters\<close>

text \<open>
  The digit of a character as \<^verbatim>\<open>char2hex\<close> takes it: all of \<open>a..z\<close> and \<open>A..Z\<close> are accepted, so a
  "digit" can be as large as 35; any other character leaves the nibble zero.
\<close>

definition hex_digit :: "byte \<Rightarrow> u32 option" where
  "hex_digit c = (let n = of_char c :: nat in
     if 0x30 \<le> n \<and> n \<le> 0x39 then Some (of_nat (n - 0x30))
     else if 0x61 \<le> n \<and> n \<le> 0x7a then Some (of_nat (n - 0x57))
     else if 0x41 \<le> n \<and> n \<le> 0x5a then Some (of_nat (n - 0x37))
     else None)"

fun char2hex_loop :: "byte list \<Rightarrow> u32 \<Rightarrow> u32" where
  "char2hex_loop [] hex = hex"
| "char2hex_loop (c # cs) hex =
     (let j = length cs; hex1 = hex AND NOT (push_bit (j * 4) 0xf)
      in char2hex_loop cs
           (case hex_digit c of None \<Rightarrow> hex1 | Some d \<Rightarrow> hex1 OR push_bit (j * 4) d))"

text \<open>\<open>None\<close>: the call returned -1 and did not write \<open>*hex\<close>.\<close>

definition char2hex :: "byte list \<Rightarrow> nat \<Rightarrow> u32 option res" where
  "char2hex src len =
     (if 8 < len then Inr None
      else bind_res (mem_read src 0 len) (\<lambda>xs. Inr (Some (char2hex_loop xs 0))))"

definition digit_val :: "byte \<Rightarrow> u32" where
  "digit_val c = (case hex_digit c of None \<Rightarrow> 0 | Some d \<Rightarrow> d)"

text \<open>The value in Horner form, most significant character first.\<close>

definition hex_value :: "byte list \<Rightarrow> u32 \<Rightarrow> u32" where
  "hex_value cs h = foldl (\<lambda>a c. push_bit 4 a OR digit_val c) h cs"

lemma hex_value_append: "hex_value (xs @ ys) h = hex_value ys (hex_value xs h)"
  by (simp add: hex_value_def)

lemma nibble_mask: "(0xf :: u32) = mask 4"
  by (simp add: mask_eq_exp_minus_1)

lemma push_nibble_clear:
  "push_bit k (push_bit 4 (h :: u32)) AND NOT (push_bit k 0xf) = push_bit k (push_bit 4 h)"
  unfolding nibble_mask by (intro bit_word_eqI) (auto simp: bit_simps)

lemma push_bit_or_u32: "push_bit k (a :: u32) OR push_bit k b = push_bit k (a OR b)"
  by (intro bit_word_eqI) (auto simp: bit_simps)

text \<open>Whatever the characters are, the loop computes the Horner value: no digit reaches a lower one.\<close>

lemma char2hex_loop_horner:
  "char2hex_loop cs (push_bit (length cs * 4) h) = hex_value cs h"
proof (induction cs arbitrary: h)
  case Nil
  then show ?case by (simp add: hex_value_def)
next
  case (Cons c cs)
  have clear: "push_bit (length (c # cs) * 4) h AND NOT (push_bit (length cs * 4) 0xf)
      = push_bit (length cs * 4) (push_bit 4 h)"
    using push_nibble_clear [of "length cs * 4" h] by (simp add: add.commute)
  have "char2hex_loop (c # cs) (push_bit (length (c # cs) * 4) h)
      = char2hex_loop cs (push_bit (length cs * 4) (push_bit 4 h)
          OR push_bit (length cs * 4) (digit_val c))"
    unfolding char2hex_loop.simps Let_def clear digit_val_def by (cases "hex_digit c") simp_all
  also have "\<dots> = hex_value cs (push_bit 4 h OR digit_val c)"
    unfolding push_bit_or_u32 by (rule Cons.IH)
  finally show ?case by (simp add: hex_value_def)
qed

lemma char2hex_eq:
  "len \<le> 8 \<Longrightarrow> len \<le> length src \<Longrightarrow>
   char2hex src len = Inr (Some (hex_value (take len src) 0))"
  using char2hex_loop_horner [of "take len src" 0]
  by (simp add: char2hex_def mem_read_def)

lemma char2hex_short: "len \<le> 8 \<Longrightarrow> length src < len \<Longrightarrow> char2hex src len = Inl Out_Of_Bounds"
  by (simp add: char2hex_def mem_read_def)

lemma char2hex_Some:
  "char2hex src len = Inr (Some v) \<Longrightarrow> len \<le> length src \<and> v = hex_value (take len src) 0"
  using char2hex_eq [of len src] char2hex_short [of len src]
  by (cases "len \<le> 8"; cases "len \<le> length src") (auto simp: char2hex_def)

lemma digit_val_hex_char: "d < 16 \<Longrightarrow> digit_val (hex_char d) = of_nat d"
  by (auto simp: digit_val_def hex_digit_def hex_char_def numeral_eq_Suc less_Suc_eq)

lemma horner_step:
  assumes "d < 16"
  shows "push_bit 4 (of_nat m :: u32) OR of_nat d = of_nat (16 * m + d)"
proof -
  have "take_bit 4 (of_nat d :: u32) = of_nat (take_bit 4 d)"
    by (rule take_bit_of_nat)
  also have "take_bit 4 d = d"
    using assms by (simp add: take_bit_nat_eq_self)
  finally have "take_bit 4 (of_nat d :: u32) = of_nat d" .
  then have "\<not> bit (of_nat d :: u32) n" if "4 \<le> n" for n
    using that by (metis bit_take_bit_iff not_less)
  then have "push_bit 4 (of_nat m :: u32) + of_nat d = push_bit 4 (of_nat m) OR of_nat d"
    by (intro disjunctive_add) (auto simp: bit_simps not_less)
  then show ?thesis by (simp add: push_bit_eq_mult mult.commute)
qed

lemma hex_value_hex_string: "hex_value (hex_string n) 0 = of_nat n"
proof (induction n rule: hex_string.induct)
  case (1 n)
  show ?case
  proof (cases "n < 16")
    case True
    then show ?thesis
      by (subst hex_string.simps) (simp add: hex_value_def digit_val_hex_char)
  next
    case False
    then have "hex_value (hex_string n) 0 = push_bit 4 (of_nat (n div 16)) OR digit_val (hex_char (n mod 16))"
      using 1 by (subst hex_string.simps) (simp add: hex_value_def)
    also have "\<dots> = of_nat (16 * (n div 16) + n mod 16)"
      by (subst digit_val_hex_char) (simp_all only: horner_step mod_less_divisor zero_less_numeral)
    finally show ?thesis by simp
  qed
qed

lemma hex_value_zeros: "hex_value (replicate k (CHR ''0'')) 0 = 0"
  by (induction k) (auto simp: hex_value_def digit_val_def hex_digit_def)

lemma hex_value_sprintf: "hex_value (sprintf_x w n) 0 = of_nat n"
  by (simp add: sprintf_x_def Let_def hex_value_append hex_value_zeros hex_value_hex_string)

lemma char2hex_sprintf:
  "0 < w \<Longrightarrow> w \<le> 8 \<Longrightarrow> n < 16 ^ w \<Longrightarrow>
   char2hex (sprintf_x w n @ rest) w = Inr (Some (of_nat n))"
  by (simp add: char2hex_eq length_sprintf_x hex_value_sprintf)


text \<open>The local that \<open>char2hex(src, &local, len)\<close> has just set, and that is read next.\<close>

definition read_hex :: "byte list \<Rightarrow> nat \<Rightarrow> u32 res" where
  "read_hex src len = bind_res (char2hex src len)
     (\<lambda>h. case h of None \<Rightarrow> Inl Uninitialised | Some n \<Rightarrow> Inr n)"

lemma read_hex_eq:
  "len \<le> 8 \<Longrightarrow> read_hex src len =
     (if len \<le> length src then Inr (hex_value (take len src) 0) else Inl Out_Of_Bounds)"
  by (simp add: read_hex_def char2hex_eq char2hex_short)

lemma read_hex_sprintf:
  "0 < w \<Longrightarrow> w \<le> 8 \<Longrightarrow> n < 16 ^ w \<Longrightarrow> read_hex (sprintf_x w n @ rest) w = Inr (of_nat n)"
  by (simp add: read_hex_def char2hex_sprintf)

section \<open>The command buffer\<close>

text \<open>
  \<^verbatim>\<open>t_cmd\<close>: the buffer and the write pointer \<open>cmd_p\<close>, as an offset into it. The other pointers
  of the struct are set by \<^verbatim>\<open>fill_cmd_header\<close> to the fixed offsets 0, 2, 6 and 10.
\<close>

record t_cmd =
  fullbuf :: "byte list"
  cmd_p :: nat

text \<open>
  \<open>memset(cmd, 0, sizeof(cmd))\<close> clears the first four bytes (the size of the pointer on the 32 bit target, not of the
  struct); the three copies that follow write all ten header bytes.
\<close>

definition fill_cmd_header :: "t_cmd \<Rightarrow> string \<Rightarrow> t_cmd res" where
  "fill_cmd_header cmd c =
     bind_res (mem_write (fullbuf cmd) 0 (replicate 4 NUL)) (\<lambda>b0.
     bind_res (mem_write b0 0 COMMAND_VERSION) (\<lambda>b1.
     bind_res (mem_read c 0 CMD_SIZE) (\<lambda>c4.
     bind_res (mem_write b1 2 c4) (\<lambda>b2.
     bind_res (mem_write b2 6 ''0000'') (\<lambda>b3.
     Inr \<lparr>fullbuf = b3, cmd_p = PACKET_HEADER_SIZE\<rparr>)))))"

text \<open>\<open>sprintf(datalen, "%04x", cmd->cmd_p - cmd->data)\<close> into \<open>char datalen[5]\<close>, then \<open>memcpy\<close>.\<close>

definition put_data_len :: "byte list \<Rightarrow> nat \<Rightarrow> byte list res" where
  "put_data_len buf p =
     (let s = sprintf_x 4 (p - PACKET_HEADER_SIZE)
      in if DATA_LEN_SIZE + 1 < length s + 1 then Inl Buffer_Overflow
         else mem_write buf 6 (take DATA_LEN_SIZE s))"

definition add_attr_char :: "t_cmd \<Rightarrow> string \<Rightarrow> string \<Rightarrow> t_cmd res" where
  "add_attr_char cmd name value =
     (let text = sprintf_x 1 (length name) @ sprintf_x 4 (length value) @ name @ value;
          p = cmd_p cmd + (ARG_NAME_LEN_SIZE + ARG_LEN_SIZE + length name + length value)
      in bind_res (mem_write (fullbuf cmd) (cmd_p cmd) (text @ [NUL])) (\<lambda>b.
         bind_res (put_data_len b p) (\<lambda>b'. Inr \<lparr>fullbuf = b', cmd_p = p\<rparr>)))"

definition add_attr_int :: "t_cmd \<Rightarrow> string \<Rightarrow> u32 \<Rightarrow> t_cmd res" where
  "add_attr_int cmd name value = add_attr_char cmd name (sprintf_x 1 (unat value))"

definition add_attr_bin :: "t_cmd \<Rightarrow> string \<Rightarrow> byte list \<Rightarrow> t_cmd res" where
  "add_attr_bin cmd name value =
     (let text = sprintf_x 1 (length name) @ sprintf_x 4 (length value) @ name;
          p = cmd_p cmd + (ARG_NAME_LEN_SIZE + ARG_LEN_SIZE + length name);
          q = p + length value
      in bind_res (mem_write (fullbuf cmd) (cmd_p cmd) (text @ [NUL])) (\<lambda>b.
         bind_res (mem_write b p value) (\<lambda>b'.
         bind_res (put_data_len b' q) (\<lambda>b''. Inr \<lparr>fullbuf = b'', cmd_p = q\<rparr>))))"

text \<open>
  A message is built by one \<open>fill_cmd_header\<close> and a sequence of \<open>add_attr_*\<close> calls on an
  uninitialised \<open>t_cmd\<close> of the caller's frame; \<open>g\<close> is what that stack memory holds.
\<close>

datatype attr_call =
    Attr_Char string string
  | Attr_Int string u32
  | Attr_Bin string "byte list"

fun add_attr :: "t_cmd \<Rightarrow> attr_call \<Rightarrow> t_cmd res" where
  "add_attr cmd (Attr_Char n v) = add_attr_char cmd n v"
| "add_attr cmd (Attr_Int n v) = add_attr_int cmd n v"
| "add_attr cmd (Attr_Bin n v) = add_attr_bin cmd n v"

definition build_cmd :: "byte list \<Rightarrow> string \<Rightarrow> attr_call list \<Rightarrow> t_cmd res" where
  "build_cmd g c calls =
     bind_res (fill_cmd_header \<lparr>fullbuf = g, cmd_p = 0\<rparr> c) (\<lambda>cmd. fold_res add_attr cmd calls)"

text \<open>
  The bytes handed to the fifo: \<open>char2hex(cmd.data_len, &size, 4); size += PACKET_HEADER_SIZE\<close>
  and then \<open>size\<close> bytes from \<open>fullbuf\<close>.
\<close>

definition cmd_bytes :: "t_cmd \<Rightarrow> byte list res" where
  "cmd_bytes cmd =
     bind_res (read_hex (drop 6 (fullbuf cmd)) DATA_LEN_SIZE) (\<lambda>size.
     mem_read (fullbuf cmd) 0 (unat (size + of_nat PACKET_HEADER_SIZE)))"

section \<open>The abstract frame\<close>

text \<open>What a frame with command \<open>c\<close> and a list of (name, value) attributes is on the wire.\<close>

fun encode_attr :: "string \<times> byte list \<Rightarrow> byte list" where
  "encode_attr (n, v) = sprintf_x 1 (length n) @ sprintf_x 4 (length v) @ n @ v"

definition encode_attrs :: "(string \<times> byte list) list \<Rightarrow> byte list" where
  "encode_attrs as = concat (map encode_attr as)"

definition make_msg :: "string \<Rightarrow> (string \<times> byte list) list \<Rightarrow> byte list" where
  "make_msg c as = COMMAND_VERSION @ c @ sprintf_x 4 (length (encode_attrs as)) @ encode_attrs as"

fun call_attr :: "attr_call \<Rightarrow> string \<times> byte list" where
  "call_attr (Attr_Char n v) = (n, v)"
| "call_attr (Attr_Int n v) = (n, sprintf_x 1 (unat v))"
| "call_attr (Attr_Bin n v) = (n, v)"

definition short_attr :: "string \<times> byte list \<Rightarrow> bool" where
  "short_attr a = (length (fst a) < 16 \<and> length (snd a) < 65536)"

lemma length_encode_attr [cstr_simps]:
  "short_attr a \<Longrightarrow> length (encode_attr a) = 5 + length (fst a) + length (snd a)"
  by (cases a) (simp add: short_attr_def length_sprintf_x)

lemma encode_attrs_simps [simp]:
  "encode_attrs [] = []"
  "encode_attrs (a # as) = encode_attr a @ encode_attrs as"
  "encode_attrs (as @ bs) = encode_attrs as @ encode_attrs bs"
  by (simp_all add: encode_attrs_def)

definition cmd_of :: "string \<Rightarrow> (string \<times> byte list) list \<Rightarrow> byte list \<Rightarrow> t_cmd" where
  "cmd_of c as rest =
     \<lparr>fullbuf = make_msg c as @ rest, cmd_p = PACKET_HEADER_SIZE + length (encode_attrs as)\<rparr>"

lemma sprintf_x_0000: "sprintf_x 4 0 = ''0000''"
  by (simp add: sprintf_x_def hex_string.simps hex_char_def numeral_eq_Suc)

lemma fill_cmd_header_correct:
  assumes "length c = 4" and "10 \<le> length g"
  shows "fill_cmd_header \<lparr>fullbuf = g, cmd_p = p\<rparr> c = Inr (cmd_of c [] (drop 10 g))"
proof -
  obtain c0 c1 c2 c3 where c: "c = [c0, c1, c2, c3]"
    using assms(1) by (auto simp: length_Suc_conv numeral_eq_Suc)
  have m: "make_msg c [] = ''01'' @ c @ ''0000''"
    by (simp add: make_msg_def sprintf_x_0000)
  from assms(2) show ?thesis
    by (auto simp: fill_cmd_header_def mem_write_def mem_read_def c cmd_of_def m [unfolded c]
        take_Cons' drop_Cons' numeral_eq_Suc)
qed

text \<open>Writing the length field of a buffer that starts with a version and a command.\<close>

lemma put_data_len_correct:
  assumes "length c = 4" and "length l = 4" and "n < 65536"
  shows "put_data_len (COMMAND_VERSION @ c @ l @ body) (PACKET_HEADER_SIZE + n)
       = Inr (COMMAND_VERSION @ c @ sprintf_x 4 n @ body)"
proof -
  have len: "length (sprintf_x 4 n) = 4"
    using assms(3) by (simp add: length_sprintf_x)
  have "mem_write ((COMMAND_VERSION @ c) @ l @ body) 6 (sprintf_x 4 n)
      = Inr ((COMMAND_VERSION @ c) @ sprintf_x 4 n @ body)"
    using assms len by (intro mem_write_append) auto
  then show ?thesis using len by (simp add: put_data_len_def Let_def)
qed

lemma add_attr_char_correct:
  assumes "length c = 4" and "short_attr (n, v)" and "length (encode_attrs (as @ [(n, v)])) < 65536"
    and "length (encode_attr (n, v)) < length rest"
  shows "\<exists>rest'. add_attr_char (cmd_of c as rest) n v = Inr (cmd_of c (as @ [(n, v)]) rest')
            \<and> length rest' = length rest - length (encode_attr (n, v))"
proof -
  let ?e = "encode_attr (n, v)" and ?b = "encode_attrs as"
  obtain r z rest' where rest: "rest = r @ z # rest'" and r: "length r = length ?e"
  proof
    show "rest = take (length ?e) rest @ rest ! length ?e # drop (Suc (length ?e)) rest"
      using assms(4) by (rule id_take_nth_drop)
    show "length (take (length ?e) rest) = length ?e" using assms(4) by simp
  qed
  have e: "?e = sprintf_x 1 (length n) @ sprintf_x 4 (length v) @ n @ v" by simp
  have le: "length ?e = 5 + length n + length v"
    using length_encode_attr [OF assms(2)] by simp
  have sp: "length (sprintf_x 4 (length ?b)) = 4"
    using assms(3) by (intro length_sprintf_x) auto
  have "mem_write ((make_msg c as) @ (r @ [z]) @ rest') (10 + length ?b) (?e @ [NUL])
      = Inr (make_msg c as @ (?e @ [NUL]) @ rest')"
    using assms(1) r sp by (intro mem_write_append) (auto simp: make_msg_def)
  then have w: "mem_write (make_msg c as @ rest) (10 + length ?b) (?e @ [NUL])
      = Inr (COMMAND_VERSION @ c @ sprintf_x 4 (length ?b) @ ?b @ ?e @ NUL # rest')"
    by (simp add: rest make_msg_def)
  have p: "put_data_len (COMMAND_VERSION @ c @ sprintf_x 4 (length ?b) @ ?b @ ?e @ NUL # rest')
        (10 + length (?b @ ?e))
      = Inr (make_msg c (as @ [(n, v)]) @ NUL # rest')"
    using put_data_len_correct [OF assms(1) sp, of "length (?b @ ?e)" "?b @ ?e @ NUL # rest'"] assms(3)
    by (simp add: make_msg_def)
  have "add_attr_char (cmd_of c as rest) n v = Inr (cmd_of c (as @ [(n, v)]) (NUL # rest'))"
    using w p le unfolding add_attr_char_def Let_def cmd_of_def e [symmetric] append_assoc [symmetric]
    by (simp add: add.assoc add.commute add.left_commute)
  moreover have "length (NUL # rest') = length rest - length ?e"
    using r by (simp add: rest)
  ultimately show ?thesis by blast
qed

lemma add_attr_bin_correct:
  assumes "length c = 4" and "short_attr (n, v)" and "length (encode_attrs (as @ [(n, v)])) < 65536"
    and "length (encode_attr (n, v)) < length rest"
  shows "\<exists>rest'. add_attr_bin (cmd_of c as rest) n v = Inr (cmd_of c (as @ [(n, v)]) rest')
            \<and> length rest' = length rest - length (encode_attr (n, v))"
proof -
  let ?h = "sprintf_x 1 (length n) @ sprintf_x 4 (length v) @ n" and ?b = "encode_attrs as"
  have e: "encode_attr (n, v) = ?h @ v" by simp
  have l1: "length (sprintf_x 1 (length n)) = 1" and l4: "length (sprintf_x 4 (length v)) = 4"
    using assms(2) by (simp_all add: short_attr_def length_sprintf_x)
  then have lh: "length ?h = 5 + length n" by simp
  have "length ?h < length rest" using assms(4) unfolding e by simp
  then have rest: "rest = take (length ?h) rest @ [rest ! length ?h] @ drop (Suc (length ?h)) rest"
    by (simp add: id_take_nth_drop)
  define tl where "tl = NUL # drop (Suc (length ?h)) rest"
  have ltl: "length v \<le> length tl" "length tl = length rest - length ?h"
    using assms(4) unfolding e tl_def by auto
  have sp: "length (sprintf_x 4 (length ?b)) = 4"
    using assms(3) by (intro length_sprintf_x) auto
  have w1: "mem_write (make_msg c as @ rest) (10 + length ?b) (?h @ [NUL])
      = Inr (make_msg c as @ ?h @ tl)"
    using mem_write_append [of "make_msg c as" "10 + length ?b"
        "take (length ?h) rest @ [rest ! length ?h]" "?h @ [NUL]" "drop (Suc (length ?h)) rest"]
      assms(1) sp \<open>length ?h < length rest\<close>
    by (subst rest) (simp add: make_msg_def tl_def)
  have w2: "mem_write (make_msg c as @ ?h @ tl) (10 + length ?b + (5 + length n)) v
      = Inr (make_msg c as @ ?h @ v @ drop (length v) tl)"
    using mem_write_append [of "make_msg c as @ ?h" "10 + length ?b + (5 + length n)"
        "take (length v) tl" v "drop (length v) tl"] assms(1) sp lh ltl
    by (simp add: make_msg_def)
  have p: "put_data_len (make_msg c as @ ?h @ v @ drop (length v) tl)
        (10 + length ?b + (5 + length n) + length v)
      = Inr (make_msg c (as @ [(n, v)]) @ drop (length v) tl)"
    using put_data_len_correct [OF assms(1) sp, of "length (?b @ ?h @ v)" "?b @ ?h @ v @ drop (length v) tl"]
      assms(3) l1 l4 by (simp add: make_msg_def add.assoc)
  have "add_attr_bin (cmd_of c as rest) n v = Inr (cmd_of c (as @ [(n, v)]) (drop (length v) tl))"
    using w1 w2 p lh by (simp add: add_attr_bin_def Let_def cmd_of_def add.assoc)
  moreover have "length (drop (length v) tl) = length rest - length (encode_attr (n, v))"
    using ltl unfolding e by simp
  ultimately show ?thesis by blast
qed

lemma add_attr_correct:
  assumes "length c = 4" and "short_attr (call_attr a)"
    and "length (encode_attrs (as @ [call_attr a])) < 65536"
    and "length (encode_attr (call_attr a)) < length rest"
  shows "\<exists>rest'. add_attr (cmd_of c as rest) a = Inr (cmd_of c (as @ [call_attr a]) rest')
            \<and> length rest' = length rest - length (encode_attr (call_attr a))"
proof (cases a)
  case (Attr_Char n v)
  then show ?thesis using assms add_attr_char_correct [of c n v as rest] by simp
next
  case (Attr_Int n v)
  then show ?thesis
    using assms add_attr_char_correct [of c n "sprintf_x 1 (unat v)" as rest]
    by (simp add: add_attr_int_def)
next
  case (Attr_Bin n v)
  then show ?thesis using assms add_attr_bin_correct [of c n v as rest] by simp
qed

lemma fold_add_attr_correct:
  assumes "length c = 4" and "\<forall>a\<in>set calls. short_attr (call_attr a)"
    and "length (encode_attrs (as @ map call_attr calls)) < 65536"
    and "length (encode_attrs (map call_attr calls)) < length rest"
  shows "\<exists>rest'. fold_res add_attr (cmd_of c as rest) calls
                = Inr (cmd_of c (as @ map call_attr calls) rest')"
  using assms
proof (induction calls arbitrary: as rest)
  case Nil
  then show ?case by auto
next
  case (Cons a calls)
  then obtain rest' where
      step: "add_attr (cmd_of c as rest) a = Inr (cmd_of c (as @ [call_attr a]) rest')"
    and len: "length rest' = length rest - length (encode_attr (call_attr a))"
    using add_attr_correct [of c a as rest] by auto
  have "\<exists>rest''. fold_res add_attr (cmd_of c (as @ [call_attr a]) rest') calls
        = Inr (cmd_of c ((as @ [call_attr a]) @ map call_attr calls) rest'')"
    using Cons.prems len by (intro Cons.IH) auto
  with step show ?case by simp
qed

lemma length_encode_attrs_msg:
  "length c = 4 \<Longrightarrow> length (encode_attrs as) < 65536 \<Longrightarrow>
   length (make_msg c as) = 10 + length (encode_attrs as)"
  by (simp add: make_msg_def length_sprintf_x)

lemma unat_of_nat_small: "n < 65546 \<Longrightarrow> unat (of_nat n :: u32) = n"
  unfolding unat_of_nat by simp

lemma unat_len10: "n < 65536 \<Longrightarrow> unat ((of_nat n :: u32) + 10) = n + 10"
  using unat_of_nat_small [of "n + 10"] by (simp add: add.commute)

lemma cmd_bytes_correct:
  assumes "length c = 4" and "length (encode_attrs as) < 65536"
  shows "cmd_bytes (cmd_of c as rest) = Inr (make_msg c as)"
proof -
  let ?n = "length (encode_attrs as)"
  have d: "drop 6 (make_msg c as @ rest) = sprintf_x 4 ?n @ encode_attrs as @ rest"
    using assms(1) by (simp add: make_msg_def)
  have "unat ((of_nat ?n :: u32) + 10) = ?n + 10"
    using assms(2) by (rule unat_len10)
  moreover have "read_hex (drop 6 (make_msg c as @ rest)) 4 = Inr (of_nat ?n)"
    unfolding d using assms(2) by (intro read_hex_sprintf) auto
  ultimately show ?thesis
    using length_encode_attrs_msg [OF assms]
    by (simp add: cmd_bytes_def cmd_of_def mem_read_def del: drop_append)
qed

text \<open>
  The frame a handler sends is exactly the encoding of its attributes, whatever the stack memory
  held before: no uninitialised byte leaves the process.
\<close>

lemma build_cmd_correct:
  assumes "length c = 4" and "length g = CMD_BUFSIZE"
    and "\<forall>a\<in>set calls. short_attr (call_attr a)"
    and "length (encode_attrs (map call_attr calls)) < CMD_BUFSIZE - PACKET_HEADER_SIZE"
  shows "bind_res (build_cmd g c calls) cmd_bytes = Inr (make_msg c (map call_attr calls))"
proof -
  obtain rest' where "build_cmd g c calls = Inr (cmd_of c (map call_attr calls) rest')"
    using fold_add_attr_correct [of c calls "[]" "drop 10 g"] assms
    by (auto simp: build_cmd_def fill_cmd_header_correct)
  then show ?thesis using assms by (simp add: cmd_bytes_correct)
qed

section \<open>The attribute loop\<close>

text \<open>
  One turn of the loop every handler repeats, with its local buffers \<open>attr_name[ncap]\<close> and
  \<open>attr_value[vcap]\<close>: both lengths are read from the message, \<open>memcpy\<close> copies that many bytes
  and a NUL is stored behind them, with no check against the buffers. The result is the name and
  the value as copied, and the new \<open>ptr\<close>.
\<close>

definition next_attr ::
    "nat \<Rightarrow> nat \<Rightarrow> byte list \<Rightarrow> nat \<Rightarrow> (byte list \<times> byte list \<times> nat) res" where
  "next_attr ncap vcap msg ptr =
     bind_res (read_hex (drop ptr msg) 1) (\<lambda>name_len.
     bind_res (read_hex (drop (ptr + 1) msg) 4) (\<lambda>value_len.
     bind_res (mem_read msg (ptr + 5) (unat name_len)) (\<lambda>name.
     if ncap < unat name_len + 1 then Inl Buffer_Overflow else
     bind_res (mem_read msg (ptr + 5 + unat name_len) (unat value_len)) (\<lambda>value.
     if vcap < unat value_len + 1 then Inl Buffer_Overflow
     else Inr (name, value, ptr + 5 + unat name_len + unat value_len)))))"

lemma next_attr_progress:
  assumes "next_attr ncap vcap msg ptr = Inr (name, value, ptr')"
  shows "ptr' = ptr + 5 + length name + length value" and "ptr' \<le> length msg"
    and "length name < ncap" and "length value < vcap"
    and "name = take (length name) (drop (ptr + 5) msg)"
    and "value = take (length value) (drop (ptr + 5 + length name) msg)"
  using assms by (auto simp: next_attr_def res_simps mem_read_def split: if_splits)

text \<open>
  \<open>while(len){ ...; len -= 5 + name_len + value_len; body }\<close>: \<open>len\<close> is unsigned, so a length
  field that the attributes do not add up to wraps around and the loop reads on.
\<close>

function scan_attrs ::
    "nat \<Rightarrow> nat \<Rightarrow> byte list \<Rightarrow> ('s \<Rightarrow> byte list \<Rightarrow> byte list \<Rightarrow> 's res) \<Rightarrow> u32 \<Rightarrow> nat \<Rightarrow> 's \<Rightarrow> 's res"
where
  "scan_attrs ncap vcap msg body len ptr s =
     (if len = 0 then Inr s
      else case next_attr ncap vcap msg ptr of
             Inl e \<Rightarrow> Inl e
           | Inr (name, value, ptr') \<Rightarrow>
               (case body s name value of
                  Inl e \<Rightarrow> Inl e
                | Inr s' \<Rightarrow>
                    scan_attrs ncap vcap msg body
                      (len - of_nat (5 + length name + length value)) ptr' s'))"
  by pat_completeness auto
termination
  by (relation "measure (\<lambda>(ncap, vcap, msg, body, len, ptr, s). length msg - ptr)")
     (use next_attr_progress(1,2) in fastforce)+

declare scan_attrs.simps [simp del]

text \<open>The length field and the loop over a whole message, from the first attribute on.\<close>

definition msg_command :: "byte list \<Rightarrow> string res" where
  "msg_command msg = bind_res (mem_read msg VERSION_SIZE CMD_SIZE) (\<lambda>c. Inr (c_str c))"

definition msg_len :: "byte list \<Rightarrow> u32 res" where
  "msg_len msg = read_hex (drop (VERSION_SIZE + CMD_SIZE) msg) DATA_LEN_SIZE"

definition scan_msg ::
    "nat \<Rightarrow> nat \<Rightarrow> byte list \<Rightarrow> ('s \<Rightarrow> byte list \<Rightarrow> byte list \<Rightarrow> 's res) \<Rightarrow> 's \<Rightarrow> 's res" where
  "scan_msg ncap vcap msg body s =
     bind_res (msg_len msg) (\<lambda>len. scan_attrs ncap vcap msg body len PACKET_HEADER_SIZE s)"

text \<open>What every body of the loop keeps holds at its end, whatever the message is.\<close>

lemma scan_attrs_invariant:
  assumes "scan_attrs ncap vcap msg body len ptr s = Inr s'" and "I s"
    and "\<And>s n v s'. I s \<Longrightarrow> length n < ncap \<Longrightarrow> length v < vcap \<Longrightarrow> body s n v = Inr s' \<Longrightarrow> I s'"
  shows "I s'"
  using assms
proof (induction ncap vcap msg body len ptr s rule: scan_attrs.induct)
  case (1 ncap vcap msg body len ptr s)
  show ?case
  proof (cases "len = 0")
    case True
    then show ?thesis using "1.prems" by (simp add: scan_attrs.simps)
  next
    case False
    then obtain n v ptr' t where
      st: "next_attr ncap vcap msg ptr = Inr (n, v, ptr')" "body s n v = Inr t"
      using "1.prems"(1) by (subst (asm) scan_attrs.simps) (auto split: sum.splits)
    have rec: "scan_attrs ncap vcap msg body (len - of_nat (5 + length n + length v)) ptr' t = Inr s'"
      using "1.prems"(1) False st by (subst (asm) scan_attrs.simps) simp
    have "I t"
      using "1.prems"(2,3) st next_attr_progress(3,4) [OF st(1)] by blast
    then show ?thesis
      using "1.IH" [OF False st(1) refl refl st(2) rec] "1.prems"(3) by blast
  qed
qed

section \<open>Reading back what was written\<close>

definition fits :: "nat \<Rightarrow> nat \<Rightarrow> string \<times> byte list \<Rightarrow> bool" where
  "fits ncap vcap a \<longleftrightarrow> short_attr a \<and> length (fst a) < ncap \<and> length (snd a) < vcap"

lemma next_attr_encoded:
  assumes "fits ncap vcap (n, v)"
  shows "next_attr ncap vcap (pre @ encode_attr (n, v) @ rest) (length pre)
       = Inr (n, v, length pre + length (encode_attr (n, v)))"
proof -
  have sh: "length n < 16" "length v < 65536" "length n < ncap" "length v < vcap"
    using assms by (auto simp: fits_def short_attr_def)
  let ?m = "pre @ encode_attr (n, v) @ rest" and ?p = "length pre"
  have l1: "length (sprintf_x 1 (length n)) = 1" and l4: "length (sprintf_x 4 (length v)) = 4"
    using sh by (simp_all add: length_sprintf_x)
  have d1: "drop (?p + 1) ?m = sprintf_x 4 (length v) @ n @ v @ rest"
    using l1 by simp
  have h1: "read_hex (drop ?p ?m) 1 = Inr (of_nat (length n))"
    using sh read_hex_sprintf [of 1 "length n" "sprintf_x 4 (length v) @ n @ v @ rest"] by simp
  have h4: "read_hex (drop (?p + 1) ?m) 4 = Inr (of_nat (length v))"
    unfolding d1 using sh by (intro read_hex_sprintf) auto
  have r1: "mem_read ?m (?p + 5) (length n) = Inr n"
    using mem_read_append [of "pre @ sprintf_x 1 (length n) @ sprintf_x 4 (length v)" "?p + 5" n
        "length n" "v @ rest"] l1 l4 by simp
  have r2: "mem_read ?m (?p + 5 + length n) (length v) = Inr v"
    using mem_read_append [of "pre @ sprintf_x 1 (length n) @ sprintf_x 4 (length v) @ n"
        "?p + 5 + length n" v "length v" rest] l1 l4 by simp
  have u: "unat (of_nat (length n) :: u32) = length n" "unat (of_nat (length v) :: u32) = length v"
    using sh by (simp_all add: unat_of_nat_small)
  have le: "length (encode_attr (n, v)) = 5 + length n + length v"
    using sh by (intro trans [OF length_encode_attr]) (simp_all add: short_attr_def)
  show ?thesis
    unfolding next_attr_def h1 bind_res.simps h4 u r1 r2 using sh le by simp
qed

lemma scan_attrs_encoded:
  assumes "\<forall>a\<in>set as. fits ncap vcap a" and "length (encode_attrs as) < 65536"
  shows "scan_attrs ncap vcap (pre @ encode_attrs as @ rest) body
           (of_nat (length (encode_attrs as))) (length pre) s
       = fold_res (\<lambda>s (n, v). body s n v) s as"
  using assms
proof (induction as arbitrary: pre s)
  case Nil
  then show ?case by (simp add: scan_attrs.simps)
next
  case (Cons a as)
  obtain n v where a: "a = (n, v)" by (cases a)
  let ?e = "encode_attr (n, v)" and ?L = "length (encode_attrs as)"
  from Cons.prems have f: "fits ncap vcap (n, v)" and small: "length ?e + ?L < 65536"
    by (simp_all add: a del: encode_attr.simps)
  have le: "length ?e = 5 + length n + length v"
    using f by (intro trans [OF length_encode_attr]) (auto simp: fits_def)
  have nz: "(of_nat (length ?e + ?L) :: u32) \<noteq> 0"
  proof
    assume "(of_nat (length ?e + ?L) :: u32) = 0"
    then have "unat (of_nat (length ?e + ?L) :: u32) = 0" by (simp only: unat_0)
    then have "length ?e + ?L = 0" using unat_of_nat_small [of "length ?e + ?L"] small by linarith
    with le show False by (simp del: encode_attr.simps)
  qed
  have sub: "(of_nat (length ?e + ?L) :: u32) - of_nat (5 + length n + length v) = of_nat ?L"
    unfolding le by simp
  have na: "next_attr ncap vcap (pre @ ?e @ encode_attrs as @ rest) (length pre)
      = Inr (n, v, length pre + length ?e)"
    using next_attr_encoded [OF f] by simp
  have IH: "scan_attrs ncap vcap (pre @ ?e @ encode_attrs as @ rest) body (of_nat ?L)
        (length pre + length ?e) s' = fold_res (\<lambda>s (n, v). body s n v) s' as" for s'
    using Cons.IH [of "pre @ ?e" s'] Cons.prems by (simp del: encode_attr.simps)
  have step: "scan_attrs ncap vcap (pre @ ?e @ encode_attrs as @ rest) body
        (of_nat (length ?e + ?L)) (length pre) s
      = (case body s n v of Inl e \<Rightarrow> Inl e
         | Inr s' \<Rightarrow> scan_attrs ncap vcap (pre @ ?e @ encode_attrs as @ rest) body (of_nat ?L)
             (length pre + length ?e) s')"
    by (subst scan_attrs.simps) (simp only: nz na sub if_False sum.case prod.case)
  show ?case
    using step IH by (cases "body s n v") (simp_all add: a del: encode_attr.simps)
qed

lemma msg_len_make_msg:
  assumes "length c = 4" and "length (encode_attrs as) < 65536"
  shows "msg_len (make_msg c as @ rest) = Inr (of_nat (length (encode_attrs as)))"
proof -
  have d: "drop (VERSION_SIZE + CMD_SIZE) (make_msg c as @ rest)
      = sprintf_x 4 (length (encode_attrs as)) @ encode_attrs as @ rest"
    using assms(1) by (simp add: make_msg_def)
  show ?thesis
    unfolding msg_len_def d using assms(2) by (intro read_hex_sprintf) auto
qed

lemma msg_command_make_msg:
  "length c = 4 \<Longrightarrow> msg_command (make_msg c as @ rest) = Inr (c_str c)"
  by (simp add: msg_command_def make_msg_def mem_read_def)

lemma scan_make_msg:
  assumes "length c = 4" and "\<forall>a\<in>set as. fits ncap vcap a" and "length (encode_attrs as) < 65536"
  shows "scan_msg ncap vcap (make_msg c as @ rest) body s = fold_res (\<lambda>s (n, v). body s n v) s as"
proof -
  let ?pre = "COMMAND_VERSION @ c @ sprintf_x 4 (length (encode_attrs as))"
  have "length ?pre = 10" using assms(1,3) by (simp add: length_sprintf_x)
  then show ?thesis
    using scan_attrs_encoded [OF assms(2,3), of ?pre rest body s] msg_len_make_msg [OF assms(1,3)]
    by (simp add: scan_msg_def make_msg_def)
qed

section \<open>Sending a built message\<close>

text \<open>
  The idiom that ends every message the server builds: read the length back with \<^verbatim>\<open>char2hex\<close>, add
  the header size and call \<^verbatim>\<open>datafifo_producer_data_add\<close> with one whole frame and timestamp 0.
  \<open>g\<close> is the stack memory of the local \<^verbatim>\<open>t_cmd\<close>.
\<close>

definition cmd_add :: "byte list \<Rightarrow> string \<Rightarrow> attr_call list \<Rightarrow> fifo_add res" where
  "cmd_add g c calls =
     bind_res (build_cmd g c calls) (\<lambda>cmd.
     bind_res (cmd_bytes cmd) (\<lambda>bytes.
     Inr \<lparr>fa_data = bytes, fa_flags = WHOLE_FRAME, fa_timestamp = 0\<rparr>))"

definition msg_add :: "string \<Rightarrow> (string \<times> byte list) list \<Rightarrow> fifo_add" where
  "msg_add c as = \<lparr>fa_data = make_msg c as, fa_flags = WHOLE_FRAME, fa_timestamp = 0\<rparr>"

lemma cmd_add_correct:
  assumes "length c = 4" and "length g = CMD_BUFSIZE"
    and "\<forall>a\<in>set calls. short_attr (call_attr a)"
    and "length (encode_attrs (map call_attr calls)) < CMD_BUFSIZE - PACKET_HEADER_SIZE"
  shows "cmd_add g c calls = Inr (msg_add c (map call_attr calls))"
  using build_cmd_correct [OF assms]
  by (auto simp: cmd_add_def msg_add_def res_simps)

text \<open>A handler that sends several messages in a row.\<close>

definition cmd_adds :: "byte list \<Rightarrow> (string \<times> attr_call list) list \<Rightarrow> fifo_add list res" where
  "cmd_adds g ms =
     fold_res (\<lambda>out (c, calls). bind_res (cmd_add g c calls) (\<lambda>f. Inr (out @ [f]))) [] ms"

definition short_msg :: "string \<times> attr_call list \<Rightarrow> bool" where
  "short_msg m \<longleftrightarrow> length (fst m) = 4 \<and> (\<forall>a\<in>set (snd m). short_attr (call_attr a)) \<and>
     length (encode_attrs (map call_attr (snd m))) < CMD_BUFSIZE - PACKET_HEADER_SIZE"

definition msg_of :: "string \<times> attr_call list \<Rightarrow> fifo_add" where
  "msg_of m = msg_add (fst m) (map call_attr (snd m))"

lemma cmd_add_short:
  "length g = CMD_BUFSIZE \<Longrightarrow> short_msg (c, calls) \<Longrightarrow> cmd_add g c calls = Inr (msg_of (c, calls))"
  by (simp add: cmd_add_correct short_msg_def msg_of_def)

lemma cmd_adds_short:
  assumes "length g = CMD_BUFSIZE" and "\<forall>m\<in>set ms. short_msg m"
  shows "cmd_adds g ms = Inr (map msg_of ms)"
proof -
  have "fold_res (\<lambda>out (c, calls). bind_res (cmd_add g c calls) (\<lambda>f. Inr (out @ [f]))) acc ms
      = Inr (acc @ map msg_of ms)" for acc
    using assms(2)
    by (induction ms arbitrary: acc) (auto simp: cmd_add_short assms(1) split: prod.splits)
  then show ?thesis by (simp add: cmd_adds_def)
qed

section \<open>MsgDump\<close>

text \<open>
  The debug printer, as the values it prints: \<open>None\<close> for "Wrong msg format", otherwise the
  command, the total length and the attributes as the strings \<open>%s\<close> prints. One buffer of
  \<open>CMD_BUFSIZE\<close> bytes holds the name and then the value.
\<close>

definition MsgDump :: "byte list \<Rightarrow> (string \<times> u32 \<times> (string \<times> string) list) option res" where
  "MsgDump msg =
     bind_res (mem_read msg 0 VERSION_SIZE) (\<lambda>version.
     if c_str version \<noteq> ''01'' then Inr None
     else bind_res (msg_command msg) (\<lambda>command.
          bind_res (msg_len msg) (\<lambda>len.
          bind_res (scan_attrs CMD_BUFSIZE CMD_BUFSIZE msg
                      (\<lambda>out name value. Inr (out @ [(c_str name, c_str value)])) len PACKET_HEADER_SIZE [])
            (\<lambda>out. Inr (Some (command, len, out))))))"

lemma fold_collect: "fold_res (\<lambda>out (n, v). Inr (out @ [f n v])) acc as = Inr (acc @ map (\<lambda>(n, v). f n v) as)"
  by (induction as arbitrary: acc) auto

lemma MsgDump_make_msg:
  assumes "length c = 4" and "\<forall>a\<in>set as. fits CMD_BUFSIZE CMD_BUFSIZE a"
    and "length (encode_attrs as) < 65536"
  shows "MsgDump (make_msg c as @ rest)
       = Inr (Some (c_str c, of_nat (length (encode_attrs as)), map (\<lambda>(n, v). (c_str n, c_str v)) as))"
proof -
  have v: "mem_read (make_msg c as @ rest) 0 VERSION_SIZE = Inr ''01''"
    by (simp add: mem_read_def make_msg_def numeral_2_eq_2)
  have "scan_attrs CMD_BUFSIZE CMD_BUFSIZE (make_msg c as @ rest)
          (\<lambda>out name value. Inr (out @ [(c_str name, c_str value)]))
          (of_nat (length (encode_attrs as))) PACKET_HEADER_SIZE []
      = Inr (map (\<lambda>(n, v). (c_str n, c_str v)) as)"
    using scan_make_msg [OF assms, of rest "\<lambda>out name value. Inr (out @ [(c_str name, c_str value)])" "[]"]
      msg_len_make_msg [OF assms(1,3), of rest]
      fold_collect [of "\<lambda>n v. (c_str n, c_str v)" "[]" as]
    by (simp add: scan_msg_def)
  then show ?thesis
    unfolding MsgDump_def v bind_res.simps msg_command_make_msg [OF assms(1)]
      msg_len_make_msg [OF assms(1,3)] by (simp add: c_str_def)
qed

text \<open>A message that was built in a command buffer is dumped attribute by attribute.\<close>

lemma encode_attr_le: "a \<in> set as \<Longrightarrow> length (encode_attr a) \<le> length (encode_attrs as)"
  by (induction as) (auto simp del: encode_attr.simps)

lemma MsgDump_msg_of:
  assumes "short_msg m"
  shows "MsgDump (fa_data (msg_of m))
       = Inr (Some (c_str (fst m), of_nat (length (encode_attrs (map call_attr (snd m)))),
           map (\<lambda>(n, v). (c_str n, c_str v)) (map call_attr (snd m))))"
proof -
  let ?as = "map call_attr (snd m)"
  have len: "length (encode_attrs ?as) < 1526" and sh: "\<forall>a\<in>set ?as. short_attr a"
    using assms by (auto simp: short_msg_def)
  have "fits CMD_BUFSIZE CMD_BUFSIZE a" if a: "a \<in> set ?as" for a
  proof -
    have "length (encode_attr a) = 5 + length (fst a) + length (snd a)"
      using sh a by (intro length_encode_attr) auto
    then show ?thesis
      using encode_attr_le [OF a] len sh a by (auto simp: fits_def)
  qed
  then show ?thesis
    using MsgDump_make_msg [of "fst m" ?as "[]"] assms len
    by (simp add: msg_of_def msg_add_def short_msg_def del: map_map)
qed

section \<open>getMsg\<close>

text \<open>
  A connected stream socket as the receiver sees it: the bytes that have arrived and whether the
  peer has closed (or reset) the connection. \<open>recv\<close> with \<open>MSG_PEEK\<close> copies at most \<open>n\<close> of them
  and leaves them; on an empty open socket it would wait. The return value and the bytes are the
  result.
\<close>

record sock_rx =
  rx :: "byte list"
  rx_closed :: bool

definition recv_peek :: "sock_rx \<Rightarrow> nat \<Rightarrow> (int \<times> byte list) res" where
  "recv_peek s n =
     (if rx s = [] then (if rx_closed s then Inr (0, []) else Inl Blocked)
      else Inr (int (min n (length (rx s))), take n (rx s)))"

text \<open>
  \<open>getMsg(sock, buf)\<close>: the return value, the buffer and the socket. The length in the header is
  the peer's; nothing compares it with the size of \<open>buf\<close>.
\<close>

definition getMsg :: "sock_rx \<Rightarrow> byte list \<Rightarrow> (int \<times> byte list \<times> sock_rx) res" where
  "getMsg sock buf =
     bind_res (recv_peek sock 10) (\<lambda>(ret, bs).
     bind_res (mem_write buf 0 bs) (\<lambda>buf1.
     if ret \<le> 0 then Inr (-1, buf1, sock)
     else if ret < 10 then Inr (0, buf1, sock)
     else bind_res (read_hex (drop 6 buf1) DATA_LEN_SIZE) (\<lambda>l.
          let len = unat (l + of_nat PACKET_HEADER_SIZE) in
          bind_res (recv_peek sock len) (\<lambda>(ret2, bs2).
          bind_res (mem_write buf1 0 bs2) (\<lambda>buf2.
          if ret2 < int len then Inr (0, buf2, sock)
          else Inr (int len, buf2, sock\<lparr>rx := drop len (rx sock)\<rparr>))))))"

text \<open>A complete frame at the head of the stream is taken out whole, and nothing behind it.\<close>

lemma getMsg_frame:
  assumes "length c = 4" and "length (encode_attrs as) < 65536"
    and "rx sock = make_msg c as @ tl_bytes"
    and "length (make_msg c as) \<le> length buf"
  shows "getMsg sock buf = Inr (int (length (make_msg c as)),
           make_msg c as @ drop (length (make_msg c as)) buf, sock\<lparr>rx := tl_bytes\<rparr>)"
proof -
  let ?m = "make_msg c as"
  have lm: "length ?m = 10 + length (encode_attrs as)"
    using assms by (intro length_encode_attrs_msg)
  have ne: "rx sock \<noteq> []" using lm assms(3) by auto
  define hd10 where "hd10 = COMMAND_VERSION @ c @ sprintf_x 4 (length (encode_attrs as))"
  have m: "?m = hd10 @ encode_attrs as" by (simp add: make_msg_def hd10_def)
  have lh: "length hd10 = 10" using assms(1,2) by (simp add: hd10_def length_sprintf_x)
  have p1: "recv_peek sock 10 = Inr (10, hd10)"
    using ne lm lh by (simp add: recv_peek_def assms(3) m)
  have lb: "10 \<le> length buf" using assms(4) lm by simp
  have w1: "mem_write buf 0 hd10 = Inr (hd10 @ drop 10 buf)"
    using lb lh by (simp add: mem_write_def)
  have d: "drop 6 (hd10 @ drop 10 buf) = sprintf_x 4 (length (encode_attrs as)) @ drop 10 buf"
    using assms(1) by (simp add: hd10_def)
  have h: "read_hex (drop 6 (hd10 @ drop 10 buf)) 4 = Inr (of_nat (length (encode_attrs as)))"
    unfolding d using assms(2) by (intro read_hex_sprintf) auto
  have u: "unat ((of_nat (length (encode_attrs as)) :: u32) + of_nat 10) = length ?m"
    using assms(2) lm unat_len10 by simp
  have p2: "recv_peek sock (length ?m) = Inr (int (length ?m), ?m)"
    using ne by (simp add: recv_peek_def assms(3))
  have w2: "mem_write (hd10 @ drop 10 buf) 0 ?m = Inr (?m @ drop (length ?m) buf)"
    using assms(4) lb lh lm by (simp add: mem_write_def drop_drop add.commute)
  show ?thesis
    unfolding getMsg_def p1 bind_res.simps prod.case w1 h Let_def u p2 w2
    by (simp add: assms(3))
qed

text \<open>A frame of which a part is missing, however long the part, stays on the stream.\<close>

lemma getMsg_part:
  assumes "length c = 4" and "length (encode_attrs as) < 65536"
    and "part @ missing = make_msg c as" and "missing \<noteq> []" and "10 \<le> length part" and "length part \<le> length buf"
    and "rx sock = part"
  shows "getMsg sock buf = Inr (0, part @ drop (length part) buf, sock)"
proof -
  define hd10 where "hd10 = COMMAND_VERSION @ c @ sprintf_x 4 (length (encode_attrs as))"
  have lh: "length hd10 = 10" using assms(1,2) by (simp add: hd10_def length_sprintf_x)
  have "take 10 part = take 10 (make_msg c as)" unfolding assms(3) [symmetric] using assms(5) by simp
  then have t10: "take 10 part = hd10" using lh by (simp add: make_msg_def hd10_def)
  have ne: "part \<noteq> []" and lb: "10 \<le> length buf" using assms(5,6) by auto
  have p1: "recv_peek sock 10 = Inr (10, hd10)"
    using ne assms(5,7) by (simp add: recv_peek_def t10)
  have w1: "mem_write buf 0 hd10 = Inr (hd10 @ drop 10 buf)"
    using lb lh by (simp add: mem_write_def)
  have d: "drop 6 (hd10 @ drop 10 buf) = sprintf_x 4 (length (encode_attrs as)) @ drop 10 buf"
    using assms(1) by (simp add: hd10_def)
  have h: "read_hex (drop 6 (hd10 @ drop 10 buf)) 4 = Inr (of_nat (length (encode_attrs as)))"
    unfolding d using assms(2) by (intro read_hex_sprintf) auto
  have lm: "length (make_msg c as) = 10 + length (encode_attrs as)"
    using assms(1,2) by (intro length_encode_attrs_msg)
  then have u: "unat ((of_nat (length (encode_attrs as)) :: u32) + of_nat 10) = length (make_msg c as)"
    using assms(2) unat_len10 by simp
  have lp: "length part < length (make_msg c as)" using assms(4) by (simp flip: assms(3))
  then have p2: "recv_peek sock (length (make_msg c as)) = Inr (int (length part), part)"
    using ne by (simp add: recv_peek_def assms(7))
  have w2: "mem_write (hd10 @ drop 10 buf) 0 part = Inr (part @ drop (length part) buf)"
    using assms(5,6) lb lh by (simp add: mem_write_def)
  show ?thesis
    unfolding getMsg_def p1 bind_res.simps prod.case w1 h Let_def u p2 w2
    using lp by simp
qed

lemma length_sprintf_u32: "length (sprintf_x 1 (unat (v :: u32))) \<le> 8"
proof -
  have "unat v < 16 ^ 8" using unsigned_less [of v] by simp
  then have "length (hex_string (unat v)) \<le> 8" by (intro length_hex_string_le) auto
  then show ?thesis using length_hex_string_pos [of "unat v"] by (simp add: sprintf_x_def Let_def)
qed

end
