(* ===== verification/Msg_Properties.thy ===== *)
theory Msg_Properties
  imports Msg_Codec
begin

text \<open>
  The properties of the wire format: what is built is what is read, frames are taken off a stream
  one by one, and what the missing checks let a peer do.
\<close>

section \<open>Messages\<close>

text \<open>
  C35. Round trip of a message: the bytes that \<^verbatim>\<open>fill_cmd_header\<close> and a sequence of
  \<^verbatim>\<open>add_attr_char/int/bin\<close> calls leave in the command buffer, whatever the buffer contained
  and whatever follows them, make every attribute loop run its body on exactly the attributes that
  were added, in order, and then stop.
\<close>

theorem message_roundtrip:
  assumes "length c = 4" and "length g = CMD_BUFSIZE"
    and "\<forall>a\<in>set calls. fits ncap vcap (call_attr a)"
    and "length (encode_attrs (map call_attr calls)) < CMD_BUFSIZE - PACKET_HEADER_SIZE"
  shows "\<exists>m. bind_res (build_cmd g c calls) cmd_bytes = Inr m \<and> take 4 (drop 2 m) = c \<and>
    scan_msg ncap vcap (m @ rest) body s = fold_res (\<lambda>s (n, v). body s n v) s (map call_attr calls)"
proof -
  have short: "\<forall>a\<in>set calls. short_attr (call_attr a)" using assms(3) by (auto simp: fits_def)
  have f: "\<forall>a\<in>set (map call_attr calls). fits ncap vcap a" using assms(3) by auto
  have "take 4 (drop 2 (make_msg c (map call_attr calls))) = c" using assms(1) by (simp add: make_msg_def)
  moreover have "length (encode_attrs (map call_attr calls)) < 65536" using assms(4) by simp
  ultimately show ?thesis
    using build_cmd_correct [OF assms(1,2) short assms(4)] scan_make_msg [OF assms(1) f, of rest body s] by blast
qed

theorem message_roundtrip_witness:
  "\<exists>m. bind_res (build_cmd (replicate 1536 (CHR ''?'')) ''0029'' [Attr_Int ''StreamId'' 2, Attr_Bin ''Data'' [NUL, CHR ''x'']])
       cmd_bytes = Inr m \<and> take 4 (drop 2 m) = ''0029'' \<and>
     scan_msg 16 1536 (m @ ''tail'') (\<lambda>s n v. Inr (s @ [(n, v)])) [] = Inr [(''StreamId'', ''2''), (''Data'', [NUL, CHR ''x''])]"
proof -
  let ?calls = "[Attr_Int ''StreamId'' 2, Attr_Bin ''Data'' [NUL, CHR ''x'']]"
  have two: "sprintf_x (Suc 0) 2 = ''2''" by (simp add: sprintf_x_def hex_string.simps hex_char_def)
  have "\<forall>a\<in>set ?calls. fits 16 1536 (call_attr a)" by (simp add: fits_def short_attr_def two)
  moreover have "length (encode_attrs (map call_attr ?calls)) < CMD_BUFSIZE - PACKET_HEADER_SIZE"
    by (simp add: two length_sprintf_x del: One_nat_def)
  ultimately show ?thesis
    using message_roundtrip [of "''0029''" "replicate 1536 (CHR ''?'')" ?calls 16 1536 "''tail''" "\<lambda>s n v. Inr (s @ [(n, v)])" "[]"]
    by (simp add: two)
qed

text \<open>
  C36. \<^verbatim>\<open>getMsg\<close> takes exactly one complete frame off the stream, so that two frames that have
  arrived together are read one after the other; of what follows, fewer bytes than a header, or any
  longer piece of a frame of which at least one byte is still missing, 0 is returned and all of it is
  left on the stream.
\<close>

theorem stream_framing:
  assumes "length c = 4" and "length (encode_attrs as) < 65536" and "length (make_msg c as) \<le> length buf"
    and "length d = 4" and "length (encode_attrs bs) < 65536" and "length (make_msg d bs) \<le> length buf"
    and "part \<noteq> []" and "length part \<le> length buf"
    and "length part < 10 \<or> (\<exists>k cs missing. length k = 4 \<and> length (encode_attrs cs) < 65536 \<and> missing \<noteq> [] \<and>
      part @ missing = make_msg k cs)"
  shows "\<exists>buf1 buf2 buf3.
    getMsg \<lparr>rx = make_msg c as @ make_msg d bs @ part, rx_closed = e\<rparr> buf
      = Inr (int (length (make_msg c as)), buf1, \<lparr>rx = make_msg d bs @ part, rx_closed = e\<rparr>) \<and>
    take (length (make_msg c as)) buf1 = make_msg c as \<and>
    getMsg \<lparr>rx = make_msg d bs @ part, rx_closed = e\<rparr> buf1
      = Inr (int (length (make_msg d bs)), buf2, \<lparr>rx = part, rx_closed = e\<rparr>) \<and>
    take (length (make_msg d bs)) buf2 = make_msg d bs \<and>
    getMsg \<lparr>rx = part, rx_closed = e\<rparr> buf2 = Inr (0, buf3, \<lparr>rx = part, rx_closed = e\<rparr>)"
proof -
  define buf1 where "buf1 = make_msg c as @ drop (length (make_msg c as)) buf"
  define buf2 where "buf2 = make_msg d bs @ drop (length (make_msg d bs)) buf1"
  have l: "length buf1 = length buf" "length buf2 = length buf"
    using assms(3,6) by (simp_all add: buf1_def buf2_def)
  have lb: "length part \<le> length buf2" using assms(8) l by simp
  have 1: "getMsg \<lparr>rx = make_msg c as @ make_msg d bs @ part, rx_closed = e\<rparr> buf
      = Inr (int (length (make_msg c as)), buf1, \<lparr>rx = make_msg d bs @ part, rx_closed = e\<rparr>)"
    using getMsg_frame [OF assms(1,2) _ assms(3), of "\<lparr>rx = make_msg c as @ make_msg d bs @ part, rx_closed = e\<rparr>"]
    by (simp add: buf1_def)
  have 2: "getMsg \<lparr>rx = make_msg d bs @ part, rx_closed = e\<rparr> buf1
      = Inr (int (length (make_msg d bs)), buf2, \<lparr>rx = part, rx_closed = e\<rparr>)"
    using getMsg_frame [OF assms(4,5), of "\<lparr>rx = make_msg d bs @ part, rx_closed = e\<rparr>" part buf1] assms(6) l
    by (simp add: buf2_def)
  have 3: "getMsg \<lparr>rx = part, rx_closed = e\<rparr> buf2
      = Inr (0, part @ drop (length part) buf2, \<lparr>rx = part, rx_closed = e\<rparr>)"
  proof (cases "length part < 10")
    case True
    then show ?thesis using assms(7) lb by (simp add: getMsg_def recv_peek_def mem_write_def)
  next
    case False
    then obtain k cs missing where "length k = 4" "length (encode_attrs cs) < 65536" "part @ missing = make_msg k cs" "missing \<noteq> []"
      using assms(9) by blast
    then show ?thesis by (rule getMsg_part) (use False lb in simp_all)
  qed
  show ?thesis
    using 1 2 3 by (intro exI [of _ buf1] exI [of _ buf2] exI) (simp add: buf1_def buf2_def)
qed

lemma demo_msg_length: "length (make_msg ''0023'' [(''Event'', ''07'')]) = 22" "length (make_msg ''0021'' []) = 10"
  "length (encode_attrs [(''Event'', ''07'')]) = 12"
  by (simp_all add: make_msg_def length_sprintf_x)

text \<open>Two frames, and the first 17 of the 22 bytes of a third one.\<close>

theorem stream_framing_witness:
  "\<exists>buf1 buf2 buf3. let part = take 17 (make_msg ''0023'' [(''Event'', ''07'')]) in
     getMsg \<lparr>rx = make_msg ''0023'' [(''Event'', ''07'')] @ make_msg ''0021'' [] @ part, rx_closed = False\<rparr>
       (replicate 1536 NUL) = Inr (22, buf1, \<lparr>rx = make_msg ''0021'' [] @ part, rx_closed = False\<rparr>) \<and>
     getMsg \<lparr>rx = make_msg ''0021'' [] @ part, rx_closed = False\<rparr> buf1 = Inr (10, buf2, \<lparr>rx = part, rx_closed = False\<rparr>) \<and>
     getMsg \<lparr>rx = part, rx_closed = False\<rparr> buf2 = Inr (0, buf3, \<lparr>rx = part, rx_closed = False\<rparr>)"
proof -
  let ?m = "make_msg ''0023'' [(''Event'', ''07'')]"
  have l: "length ''0023'' = 4" "length (encode_attrs [(''Event'', ''07'')]) < 65536" "length ''0021'' = 4"
    "length ?m \<le> length (replicate 1536 NUL)"
    "length (encode_attrs []) < 65536" "length (make_msg ''0021'' []) \<le> length (replicate 1536 NUL)"
    "length (take 17 ?m) \<le> length (replicate 1536 NUL)"
    by (simp_all add: demo_msg_length del: encode_attrs_simps(2) encode_attr.simps)
  have n: "take 17 ?m \<noteq> []" "drop 17 ?m \<noteq> []"
    using demo_msg_length(1) by (auto simp del: encode_attrs_simps(2) encode_attr.simps)
  have "\<exists>k cs missing. length k = 4 \<and> length (encode_attrs cs) < 65536 \<and> missing \<noteq> [] \<and> take 17 ?m @ missing = make_msg k cs"
    using l(1,2) n(2) append_take_drop_id [of 17 ?m] by blast
  from stream_framing [OF l(1,2,4,3,5,6) n(1) l(7) disjI2 [OF this], of False] show ?thesis
    unfolding demo_msg_length(1,2) of_nat_numeral Let_def by blast
qed

text \<open>
  The peer's length field is trusted: once a frame longer than the caller's buffer has arrived,
  \<^verbatim>\<open>getMsg\<close> writes past its end, and an attribute whose value is as long as \<open>attr_value\<close>
  (1536 bytes in the handlers of the core boards) makes the attribute loop write past that.
\<close>

theorem oversized_frame_overflows:
  "length c = 4 \<Longrightarrow> length (encode_attrs as) < 65536 \<Longrightarrow> rx sock = make_msg c as @ rest \<Longrightarrow>
   10 \<le> length buf \<Longrightarrow> length buf < length (make_msg c as) \<Longrightarrow>
   getMsg sock buf = Inl Buffer_Overflow \<and>
   (length (n :: string) < 16 \<longrightarrow> length v < 60000 \<longrightarrow> vcap \<le> length v \<longrightarrow>
      scan_msg 16 vcap (make_msg c [(n, v)] @ rest) body s = Inl Buffer_Overflow)"
proof (intro conjI impI)
  assume c: "length c = 4" and as: "length (encode_attrs as) < 65536" and rx: "rx sock = make_msg c as @ rest"
    and b10: "10 \<le> length buf" and big: "length buf < length (make_msg c as)"
  let ?m = "make_msg c as"
  define hd10 where "hd10 = COMMAND_VERSION @ c @ sprintf_x 4 (length (encode_attrs as))"
  have m: "?m = hd10 @ encode_attrs as" by (simp add: make_msg_def hd10_def)
  have lh: "length hd10 = 10" using c as by (simp add: hd10_def length_sprintf_x)
  have lm: "length ?m = 10 + length (encode_attrs as)" using c as by (intro length_encode_attrs_msg)
  have ne: "rx sock \<noteq> []" using lm rx by auto
  have p1: "recv_peek sock 10 = Inr (10, hd10)" using ne lm lh by (simp add: recv_peek_def rx m)
  have w1: "mem_write buf 0 hd10 = Inr (hd10 @ drop 10 buf)" using b10 lh by (simp add: mem_write_def)
  have d: "drop 6 (hd10 @ drop 10 buf) = sprintf_x 4 (length (encode_attrs as)) @ drop 10 buf"
    using c by (simp add: hd10_def)
  have len: "read_hex (drop 6 (hd10 @ drop 10 buf)) DATA_LEN_SIZE = Inr (of_nat (length (encode_attrs as)))"
    unfolding d by (rule read_hex_sprintf) (use as in simp_all)
  have u: "unat ((of_nat (length (encode_attrs as)) :: u32) + 10) = length ?m"
    using unat_len10 [OF as] lm by simp
  have p2: "recv_peek sock (length ?m) = Inr (int (length ?m), ?m)" using ne by (simp add: recv_peek_def rx)
  show "getMsg sock buf = Inl Buffer_Overflow"
    using p1 w1 len u p2 big b10 lh by (simp add: getMsg_def mem_write_def Let_def)
next
  assume c: "length c = 4" and n: "length n < 16" and v: "length v < 60000" "vcap \<le> length v"
  let ?e = "encode_attrs [(n, v)]"
  have e: "length ?e < 65536" using n v length_encode_attr [of "(n, v)"] by (simp add: short_attr_def)
  have ml: "msg_len (make_msg c [(n, v)] @ rest) = Inr (of_nat (length ?e))" by (rule msg_len_make_msg [OF c e])
  have dr: "drop 10 (make_msg c [(n, v)] @ rest) = sprintf_x 1 (length n) @ sprintf_x 4 (length v) @ n @ v @ rest"
  proof -
    have "length (COMMAND_VERSION @ c @ sprintf_x 4 (length ?e)) = 10" using c e
      by (simp add: length_sprintf_x del: encode_attrs_simps encode_attr.simps)
    then show ?thesis by (simp add: make_msg_def encode_attrs_def)
  qed
  define X where "X = make_msg c [(n, v)] @ rest"
  note dr = dr [folded X_def]
  have le: "length ?e = 5 + length n + length v"
    using length_encode_attr [of "(n, v)"] n v by (simp add: short_attr_def encode_attrs_def del: encode_attr.simps)
  then have lx: "15 + length n + length v \<le> length X"
    using length_encode_attrs_msg [OF c e] by (simp add: X_def)
  have dr11: "drop 11 X = sprintf_x 4 (length v) @ n @ v @ rest"
    using arg_cong [OF dr, of "drop 1"] n by (simp add: length_sprintf_x)
  have dr15: "drop 15 X = n @ v @ rest"
    using arg_cong [OF dr11, of "drop 4"] v by (simp add: length_sprintf_x)
  have drn: "drop (15 + length n) X = v @ rest"
    using arg_cong [OF dr15, of "drop (length n)"] by (simp add: add.commute)
  have r1: "read_hex (drop 10 X) 1 = Inr (of_nat (length n))"
    unfolding dr by (rule read_hex_sprintf) (use n in simp_all)
  have r2: "read_hex (drop 11 X) 4 = Inr (of_nat (length v))"
    unfolding dr11 by (rule read_hex_sprintf) (use v in simp_all)
  have un: "unat (of_nat (length n) :: u32) = length n" "unat (of_nat (length v) :: u32) = length v"
    using n v by (simp_all add: unat_of_nat_small)
  have m15: "mem_read X 15 (length n) = Inr n"
    using lx by (simp add: mem_read_def dr15)
  have mn: "mem_read X (15 + length n) (length v) = Inr v"
    using lx by (simp add: mem_read_def drn)
  have "next_attr 16 vcap X 10 = Inl Buffer_Overflow"
    unfolding next_attr_def using r1 r2 un m15 mn n v(2) by simp
  moreover have "(of_nat (length ?e) :: u32) \<noteq> 0"
  proof -
    have "unat (of_nat (5 + length n + length v) :: u32) = 5 + length n + length v"
      by (rule unat_of_nat_small) (use n v in simp)
    then show ?thesis unfolding le by force
  qed
  ultimately show "scan_msg 16 vcap (make_msg c [(n, v)] @ rest) body s = Inl Buffer_Overflow"
    unfolding X_def [symmetric] scan_msg_def ml [folded X_def] bind_res.simps
    by (subst scan_attrs.simps) (simp del: encode_attrs_simps)
qed

theorem oversized_frame_overflows_witness:
  "getMsg \<lparr>rx = make_msg ''0023'' [(''Event'', ''07'')], rx_closed = False\<rparr> (replicate 16 NUL) = Inl Buffer_Overflow \<and>
   scan_msg 16 1536 (make_msg ''0023'' [(''Data'', replicate 1536 NUL)]) (\<lambda>s n v. Inr (s :: nat)) 0 = Inl Buffer_Overflow"
  using oversized_frame_overflows [of "''0023''" "[(''Event'', ''07'')]" "\<lparr>rx = make_msg ''0023'' [(''Event'', ''07'')], rx_closed = False\<rparr>"
      "[]" "replicate 16 NUL" "''Data''" "replicate 1536 NUL" 1536 "\<lambda>s n v. Inr (s :: nat)" 0]
  by (simp add: demo_msg_length del: encode_attrs_simps encode_attr.simps)

section \<open>Hexadecimal numbers\<close>

text \<open>
  \<^verbatim>\<open>char2hex\<close> reads back what \<open>sprintf("%0wx")\<close> writes, for every width up to eight
  digits; but every letter is taken as a digit, so that \<open>z\<close> counts 35 and spills into the next digit.
\<close>

theorem char2hex_reads_sprintf:
  "0 < w \<Longrightarrow> w \<le> 8 \<Longrightarrow> n < 16 ^ w \<Longrightarrow>
   char2hex (sprintf_x w n @ rest) w = Inr (Some (of_nat n)) \<and>
   char2hex ''000z'' 4 = Inr (Some 35) \<and> char2hex ''00zz'' 4 = char2hex ''0233'' 4"
  using char2hex_sprintf by (simp add: char2hex_eq hex_value_def digit_val_def hex_digit_def)

theorem char2hex_reads_sprintf_witness: "char2hex (sprintf_x 4 51966 @ ''!'') 4 = Inr (Some 51966)"
  using char2hex_reads_sprintf [of 4 51966 "''!''"] by simp

end
