(* ===== verification/Switch_Fsm.thy ===== *)
theory Switch_Fsm
  imports Rec_Prelude
begin

text \<open>
  The switching state machine of the director (\<^verbatim>\<open>recbcsrv/recbc_srv.c\<close>): the truth table of
  element conditions and their combinations, the transition table with its built-in rows, and the
  machine that looks for the first condition that holds and has a transition. The lemmas show that
  the set-up fills the truth table completely, that setting and resetting element conditions keeps
  every combination equal to the conjunction of its elements, and what the next state is.
\<close>

section \<open>Conditions and states\<close>

abbreviation (input) "COND_VGA_UNCHG \<equiv> 0 :: nat"
abbreviation (input) "COND_VGA_CHG \<equiv> 1 :: nat"
abbreviation (input) "COND_TEACHER_DETECTED_NONE \<equiv> 2 :: nat"
abbreviation (input) "COND_TEACHER_DETECTED_ONE \<equiv> 3 :: nat"
abbreviation (input) "COND_TEACHER_DETECTED_MULTIPLE \<equiv> 4 :: nat"
abbreviation (input) "COND_STUDENT_STAND_NONE \<equiv> 5 :: nat"
abbreviation (input) "COND_STUDENT_STAND_ONE \<equiv> 6 :: nat"
abbreviation (input) "COND_STUDENT_STAND_MULTIPLE \<equiv> 7 :: nat"
abbreviation (input) "COND_BOARD_NOTWRITE \<equiv> 8 :: nat"
abbreviation (input) "COND_BOARD_WRITE \<equiv> 9 :: nat"
abbreviation (input) "COND_COMBINATION_1 \<equiv> 10 :: nat"
abbreviation (input) "COND_COMBINATION_2 \<equiv> 11 :: nat"
abbreviation (input) "COND_COMBINATION_3 \<equiv> 12 :: nat"
abbreviation (input) "COND_COMBINATION_4 \<equiv> 13 :: nat"
abbreviation (input) "COND_COMBINATION_5 \<equiv> 14 :: nat"
abbreviation (input) "COND_COMBINATION_6 \<equiv> 15 :: nat"
abbreviation (input) "COND_COMBINATION_7 \<equiv> 16 :: nat"
abbreviation (input) "COND_COMBINATION_8 \<equiv> 17 :: nat"
abbreviation (input) "COND_COMBINATION_9 \<equiv> 18 :: nat"
abbreviation (input) "COND_COMBINATION_10 \<equiv> 19 :: nat"
abbreviation (input) "COND_COMBINATION_11 \<equiv> 20 :: nat"
abbreviation (input) "COND_COMBINATION_12 \<equiv> 21 :: nat"
abbreviation (input) "COND_COMBINATION_13 \<equiv> 22 :: nat"
abbreviation (input) "COND_COMBINATION_14 \<equiv> 23 :: nat"
abbreviation (input) "COND_COMBINATION_15 \<equiv> 24 :: nat"
abbreviation (input) "COND_COMBINATION_16 \<equiv> 25 :: nat"
abbreviation (input) "COND_COMBINATION_17 \<equiv> 26 :: nat"
abbreviation (input) "COND_COMBINATION_18 \<equiv> 27 :: nat"
abbreviation (input) "COND_COMBINATION_19 \<equiv> 28 :: nat"
abbreviation (input) "COND_COMBINATION_20 \<equiv> 29 :: nat"
abbreviation (input) "COND_COMBINATION_21 \<equiv> 30 :: nat"
abbreviation (input) "COND_COMBINATION_22 \<equiv> 31 :: nat"
abbreviation (input) "COND_COMBINATION_23 \<equiv> 32 :: nat"
abbreviation (input) "COND_COMBINATION_24 \<equiv> 33 :: nat"
abbreviation (input) "COND_COMBINATION_25 \<equiv> 34 :: nat"
abbreviation (input) "COND_COMBINATION_26 \<equiv> 35 :: nat"
abbreviation (input) "COND_COMBINATION_27 \<equiv> 36 :: nat"
abbreviation (input) "COND_COMBINATION_28 \<equiv> 37 :: nat"
abbreviation (input) "COND_COMBINATION_29 \<equiv> 38 :: nat"
abbreviation (input) "COND_COMBINATION_30 \<equiv> 39 :: nat"
abbreviation (input) "COND_COMBINATION_31 \<equiv> 40 :: nat"
abbreviation (input) "COND_COMBINATION_32 \<equiv> 41 :: nat"
abbreviation (input) "COND_COMBINATION_33 \<equiv> 42 :: nat"
abbreviation (input) "COND_COMBINATION_34 \<equiv> 43 :: nat"
abbreviation (input) "COND_COMBINATION_35 \<equiv> 44 :: nat"
abbreviation (input) "COND_COMBINATION_36 \<equiv> 45 :: nat"
abbreviation (input) "COND_MAX \<equiv> 46 :: nat"

datatype e_fsm_state =
    FSM_NOTRANSITION
  | FSM_VGA
  | FSM_TEACHER_CLOSEUP
  | FSM_STUDENT_CLOSEUP
  | FSM_TEACHER_PANORAMA
  | FSM_STUDENT_PANORAMA
  | FSM_BOARD_CLOSEUP
  | FSM_VGA_PIP_TEACHER_CLOSEUP
  | FSM_TEACHER_CLOSEUP_PIP_STUDENT_CLOSEUP
  | FSM_BLACKBOARD_PIP_STUDENT_CLOSEUP

text \<open>The number of a state, -1 for \<open>FSM_NOTRANSITION\<close>.\<close>

fun fsm_state_num :: "e_fsm_state \<Rightarrow> int" where
  "fsm_state_num FSM_NOTRANSITION = -1"
| "fsm_state_num FSM_VGA = 0"
| "fsm_state_num FSM_TEACHER_CLOSEUP = 1"
| "fsm_state_num FSM_STUDENT_CLOSEUP = 2"
| "fsm_state_num FSM_TEACHER_PANORAMA = 3"
| "fsm_state_num FSM_STUDENT_PANORAMA = 4"
| "fsm_state_num FSM_BOARD_CLOSEUP = 5"
| "fsm_state_num FSM_VGA_PIP_TEACHER_CLOSEUP = 6"
| "fsm_state_num FSM_TEACHER_CLOSEUP_PIP_STUDENT_CLOSEUP = 7"
| "fsm_state_num FSM_BLACKBOARD_PIP_STUDENT_CLOSEUP = 8"

section \<open>The truth table\<close>

text \<open>An element pointer is the index of the slot it points to; \<open>element\<close> has \<open>num_of_combined_element\<close> entries.\<close>

record t_cond_item =
  valid :: bool
  cond_idx :: nat
  cond_value :: bool
  cond_type :: nat
  element :: "nat list"

abbreviation (input) cond_zero :: t_cond_item where
  "cond_zero \<equiv> \<lparr>valid = False, cond_idx = 0, cond_value = False, cond_type = 0, element = []\<rparr>"

type_synonym t_truth_table = "t_cond_item list"

definition truth_table_init :: "nat \<Rightarrow> t_truth_table" where
  "truth_table_init item_num = replicate item_num cond_zero"

definition truth_table_find_condition :: "nat \<Rightarrow> t_truth_table \<Rightarrow> nat option" where
  "truth_table_find_condition c tt = find (\<lambda>i. valid (tt ! i) \<and> cond_idx (tt ! i) = c) [0 ..< length tt]"

definition truth_table_alloc_conditon_item :: "t_truth_table \<Rightarrow> nat option" where
  "truth_table_alloc_conditon_item tt = find (\<lambda>i. \<not> valid (tt ! i)) [0 ..< length tt]"

definition truth_table_add_element_condition :: "nat \<Rightarrow> t_truth_table \<Rightarrow> nat option \<times> t_truth_table" where
  "truth_table_add_element_condition c tt =
     (case truth_table_find_condition c tt of
        Some i \<Rightarrow> (Some i, tt)
      | None \<Rightarrow>
          (case truth_table_alloc_conditon_item tt of
             None \<Rightarrow> (None, tt)
           | Some i \<Rightarrow> (Some i, tt[i := (tt ! i)\<lparr>cond_idx := c, cond_type := 0, cond_value := False, valid := True\<rparr>])))"

text \<open>The slots of the elements, \<open>None\<close> as soon as one is not in the table.\<close>

fun find_elements :: "nat list \<Rightarrow> t_truth_table \<Rightarrow> nat list option" where
  "find_elements [] tt = Some []"
| "find_elements (e # es) tt =
     (case truth_table_find_condition e tt of
        None \<Rightarrow> None
      | Some i \<Rightarrow> (case find_elements es tt of None \<Rightarrow> None | Some js \<Rightarrow> Some (i # js)))"

definition truth_table_add_combination_condition ::
    "nat \<Rightarrow> nat list \<Rightarrow> t_truth_table \<Rightarrow> nat option \<times> t_truth_table" where
  "truth_table_add_combination_condition c es tt =
     (case truth_table_find_condition c tt of
        Some i \<Rightarrow> (Some i, tt)
      | None \<Rightarrow>
          (case find_elements es tt of
             None \<Rightarrow> (None, tt)
           | Some js \<Rightarrow>
               (case truth_table_alloc_conditon_item tt of
                  None \<Rightarrow> (None, tt)
                | Some i \<Rightarrow> (Some i, tt[i := \<lparr>valid = True, cond_idx = c, cond_value = False,
                                           cond_type = 1, element = js\<rparr>]))))"

definition update_slot :: "t_truth_table \<Rightarrow> nat \<Rightarrow> t_truth_table" where
  "update_slot tt i =
     (if valid (tt ! i) \<and> cond_type (tt ! i) \<noteq> 0
      then tt[i := (tt ! i)\<lparr>cond_value := list_all (\<lambda>j. cond_value (tt ! j)) (element (tt ! i))\<rparr>]
      else tt)"

definition truth_table_update_combination_condition :: "t_truth_table \<Rightarrow> t_truth_table" where
  "truth_table_update_combination_condition tt = foldl update_slot tt [0 ..< length tt]"

definition set_condition :: "bool \<Rightarrow> nat \<Rightarrow> t_truth_table \<Rightarrow> int \<times> t_truth_table" where
  "set_condition b c tt =
     (case truth_table_find_condition c tt of
        Some i \<Rightarrow> (0, truth_table_update_combination_condition (tt[i := (tt ! i)\<lparr>cond_value := b\<rparr>]))
      | None \<Rightarrow> (-1, truth_table_update_combination_condition tt))"

definition truth_table_element_condition_set :: "nat \<Rightarrow> t_truth_table \<Rightarrow> int \<times> t_truth_table" where
  "truth_table_element_condition_set = set_condition True"

definition truth_table_element_condition_reset :: "nat \<Rightarrow> t_truth_table \<Rightarrow> int \<times> t_truth_table" where
  "truth_table_element_condition_reset = set_condition False"

definition truth_table_condition_test :: "nat \<Rightarrow> t_truth_table \<Rightarrow> bool" where
  "truth_table_condition_test c tt =
     (case truth_table_find_condition c tt of Some i \<Rightarrow> cond_value (tt ! i) | None \<Rightarrow> False)"

section \<open>Setting up the truth table\<close>

definition element_conditions :: "nat list" where
  "element_conditions =
     [COND_VGA_UNCHG, COND_VGA_CHG,
      COND_TEACHER_DETECTED_NONE, COND_TEACHER_DETECTED_ONE, COND_TEACHER_DETECTED_MULTIPLE,
      COND_STUDENT_STAND_NONE, COND_STUDENT_STAND_ONE, COND_STUDENT_STAND_MULTIPLE,
      COND_BOARD_WRITE, COND_BOARD_NOTWRITE]"

definition combinations_1 :: "(nat \<times> nat list) list" where
  "combinations_1 = [
    (COND_COMBINATION_1, [COND_VGA_UNCHG, COND_TEACHER_DETECTED_NONE, COND_STUDENT_STAND_NONE, COND_BOARD_NOTWRITE]),
    (COND_COMBINATION_2, [COND_VGA_CHG, COND_TEACHER_DETECTED_NONE, COND_STUDENT_STAND_NONE, COND_BOARD_NOTWRITE]),
    (COND_COMBINATION_3, [COND_VGA_UNCHG, COND_TEACHER_DETECTED_ONE, COND_STUDENT_STAND_NONE, COND_BOARD_NOTWRITE]),
    (COND_COMBINATION_4, [COND_VGA_CHG, COND_TEACHER_DETECTED_ONE, COND_STUDENT_STAND_NONE, COND_BOARD_NOTWRITE]),
    (COND_COMBINATION_5, [COND_VGA_UNCHG, COND_TEACHER_DETECTED_MULTIPLE, COND_STUDENT_STAND_NONE, COND_BOARD_NOTWRITE]),
    (COND_COMBINATION_6, [COND_VGA_CHG, COND_TEACHER_DETECTED_MULTIPLE, COND_STUDENT_STAND_NONE, COND_BOARD_NOTWRITE]),
    (COND_COMBINATION_7, [COND_VGA_UNCHG, COND_TEACHER_DETECTED_NONE, COND_STUDENT_STAND_ONE, COND_BOARD_NOTWRITE]),
    (COND_COMBINATION_8, [COND_VGA_CHG, COND_TEACHER_DETECTED_NONE, COND_STUDENT_STAND_ONE, COND_BOARD_NOTWRITE]),
    (COND_COMBINATION_9, [COND_VGA_UNCHG, COND_TEACHER_DETECTED_ONE, COND_STUDENT_STAND_ONE, COND_BOARD_NOTWRITE]),
    (COND_COMBINATION_10, [COND_VGA_CHG, COND_TEACHER_DETECTED_ONE, COND_STUDENT_STAND_ONE, COND_BOARD_NOTWRITE]),
    (COND_COMBINATION_11, [COND_VGA_UNCHG, COND_TEACHER_DETECTED_MULTIPLE, COND_STUDENT_STAND_ONE, COND_BOARD_NOTWRITE]),
    (COND_COMBINATION_12, [COND_VGA_CHG, COND_TEACHER_DETECTED_MULTIPLE, COND_STUDENT_STAND_ONE, COND_BOARD_NOTWRITE]),
    (COND_COMBINATION_13, [COND_VGA_UNCHG, COND_TEACHER_DETECTED_NONE, COND_STUDENT_STAND_MULTIPLE, COND_BOARD_NOTWRITE]),
    (COND_COMBINATION_14, [COND_VGA_CHG, COND_TEACHER_DETECTED_NONE, COND_STUDENT_STAND_MULTIPLE, COND_BOARD_NOTWRITE]),
    (COND_COMBINATION_15, [COND_VGA_UNCHG, COND_TEACHER_DETECTED_ONE, COND_STUDENT_STAND_MULTIPLE, COND_BOARD_NOTWRITE]),
    (COND_COMBINATION_16, [COND_VGA_CHG, COND_TEACHER_DETECTED_ONE, COND_STUDENT_STAND_MULTIPLE, COND_BOARD_NOTWRITE]),
    (COND_COMBINATION_17, [COND_VGA_UNCHG, COND_TEACHER_DETECTED_MULTIPLE, COND_STUDENT_STAND_MULTIPLE, COND_BOARD_NOTWRITE]),
    (COND_COMBINATION_18, [COND_VGA_CHG, COND_TEACHER_DETECTED_MULTIPLE, COND_STUDENT_STAND_MULTIPLE, COND_BOARD_NOTWRITE])]"

definition combinations_2 :: "(nat \<times> nat list) list" where
  "combinations_2 = [
    (COND_COMBINATION_19, [COND_VGA_UNCHG, COND_TEACHER_DETECTED_NONE, COND_STUDENT_STAND_NONE, COND_BOARD_WRITE]),
    (COND_COMBINATION_20, [COND_VGA_CHG, COND_TEACHER_DETECTED_NONE, COND_STUDENT_STAND_NONE, COND_BOARD_WRITE]),
    (COND_COMBINATION_21, [COND_VGA_UNCHG, COND_TEACHER_DETECTED_ONE, COND_STUDENT_STAND_NONE, COND_BOARD_WRITE]),
    (COND_COMBINATION_22, [COND_VGA_CHG, COND_TEACHER_DETECTED_ONE, COND_STUDENT_STAND_NONE, COND_BOARD_WRITE]),
    (COND_COMBINATION_23, [COND_VGA_UNCHG, COND_TEACHER_DETECTED_MULTIPLE, COND_STUDENT_STAND_NONE, COND_BOARD_WRITE]),
    (COND_COMBINATION_24, [COND_VGA_CHG, COND_TEACHER_DETECTED_MULTIPLE, COND_STUDENT_STAND_NONE, COND_BOARD_WRITE]),
    (COND_COMBINATION_25, [COND_VGA_UNCHG, COND_TEACHER_DETECTED_NONE, COND_STUDENT_STAND_ONE, COND_BOARD_WRITE]),
    (COND_COMBINATION_26, [COND_VGA_CHG, COND_TEACHER_DETECTED_NONE, COND_STUDENT_STAND_ONE, COND_BOARD_WRITE]),
    (COND_COMBINATION_27, [COND_VGA_UNCHG, COND_TEACHER_DETECTED_ONE, COND_STUDENT_STAND_ONE, COND_BOARD_WRITE]),
    (COND_COMBINATION_28, [COND_VGA_CHG, COND_TEACHER_DETECTED_ONE, COND_STUDENT_STAND_ONE, COND_BOARD_WRITE]),
    (COND_COMBINATION_29, [COND_VGA_UNCHG, COND_TEACHER_DETECTED_MULTIPLE, COND_STUDENT_STAND_ONE, COND_BOARD_WRITE]),
    (COND_COMBINATION_30, [COND_VGA_CHG, COND_TEACHER_DETECTED_MULTIPLE, COND_STUDENT_STAND_ONE, COND_BOARD_WRITE]),
    (COND_COMBINATION_31, [COND_VGA_UNCHG, COND_TEACHER_DETECTED_NONE, COND_STUDENT_STAND_MULTIPLE, COND_BOARD_WRITE]),
    (COND_COMBINATION_32, [COND_VGA_CHG, COND_TEACHER_DETECTED_NONE, COND_STUDENT_STAND_MULTIPLE, COND_BOARD_WRITE]),
    (COND_COMBINATION_33, [COND_VGA_UNCHG, COND_TEACHER_DETECTED_ONE, COND_STUDENT_STAND_MULTIPLE, COND_BOARD_WRITE]),
    (COND_COMBINATION_34, [COND_VGA_CHG, COND_TEACHER_DETECTED_ONE, COND_STUDENT_STAND_MULTIPLE, COND_BOARD_WRITE]),
    (COND_COMBINATION_35, [COND_VGA_UNCHG, COND_TEACHER_DETECTED_MULTIPLE, COND_STUDENT_STAND_MULTIPLE, COND_BOARD_WRITE]),
    (COND_COMBINATION_36, [COND_VGA_CHG, COND_TEACHER_DETECTED_MULTIPLE, COND_STUDENT_STAND_MULTIPLE, COND_BOARD_WRITE])]"

text \<open>What holds when the thread starts, and again at each start of a recording.\<close>

definition initial_conditions :: "(bool \<times> nat) list" where
  "initial_conditions =
     [(True, COND_VGA_UNCHG), (False, COND_VGA_CHG), (True, COND_TEACHER_DETECTED_NONE),
      (False, COND_TEACHER_DETECTED_ONE), (False, COND_TEACHER_DETECTED_MULTIPLE),
      (True, COND_STUDENT_STAND_NONE), (False, COND_STUDENT_STAND_ONE), (False, COND_STUDENT_STAND_MULTIPLE),
      (True, COND_BOARD_NOTWRITE), (False, COND_BOARD_WRITE)]"

definition set_conditions :: "(bool \<times> nat) list \<Rightarrow> t_truth_table \<Rightarrow> t_truth_table" where
  "set_conditions bcs tt = foldl (\<lambda>tt (b, c). snd (set_condition b c tt)) tt bcs"

definition setup_truth_table :: t_truth_table where
  "setup_truth_table =
     (let t0 = truth_table_init COND_MAX;
          t1 = foldl (\<lambda>tt c. snd (truth_table_add_element_condition c tt)) t0 element_conditions;
          t2 = foldl (\<lambda>tt (c, es). snd (truth_table_add_combination_condition c es tt)) t1
                 (combinations_1 @ combinations_2)
      in set_conditions initial_conditions t2)"

section \<open>The transition table\<close>

text \<open>The assignments of \<^verbatim>\<open>transition_table_init\<close>, one block for each current state.\<close>

definition assign_FSM_VGA :: "(nat \<times> e_fsm_state) list" where
  "assign_FSM_VGA = [
    (COND_VGA_UNCHG, FSM_NOTRANSITION),
    (COND_VGA_CHG, FSM_NOTRANSITION),
    (COND_TEACHER_DETECTED_NONE, FSM_NOTRANSITION),
    (COND_TEACHER_DETECTED_ONE, FSM_NOTRANSITION),
    (COND_TEACHER_DETECTED_MULTIPLE, FSM_NOTRANSITION),
    (COND_STUDENT_STAND_NONE, FSM_NOTRANSITION),
    (COND_STUDENT_STAND_ONE, FSM_NOTRANSITION),
    (COND_STUDENT_STAND_MULTIPLE, FSM_NOTRANSITION),
    (COND_BOARD_WRITE, FSM_NOTRANSITION),
    (COND_BOARD_NOTWRITE, FSM_NOTRANSITION),
    (COND_COMBINATION_1, FSM_STUDENT_PANORAMA),
    (COND_COMBINATION_2, FSM_NOTRANSITION),
    (COND_COMBINATION_3, FSM_TEACHER_CLOSEUP),
    (COND_COMBINATION_4, FSM_NOTRANSITION),
    (COND_COMBINATION_5, FSM_TEACHER_PANORAMA),
    (COND_COMBINATION_6, FSM_NOTRANSITION),
    (COND_COMBINATION_7, FSM_STUDENT_CLOSEUP),
    (COND_COMBINATION_8, FSM_NOTRANSITION),
    (COND_COMBINATION_9, FSM_TEACHER_CLOSEUP_PIP_STUDENT_CLOSEUP),
    (COND_COMBINATION_10, FSM_NOTRANSITION),
    (COND_COMBINATION_11, FSM_TEACHER_PANORAMA),
    (COND_COMBINATION_12, FSM_NOTRANSITION),
    (COND_COMBINATION_13, FSM_STUDENT_PANORAMA),
    (COND_COMBINATION_14, FSM_NOTRANSITION),
    (COND_COMBINATION_15, FSM_TEACHER_PANORAMA),
    (COND_COMBINATION_16, FSM_NOTRANSITION),
    (COND_COMBINATION_17, FSM_TEACHER_PANORAMA),
    (COND_COMBINATION_18, FSM_NOTRANSITION),
    (COND_COMBINATION_19, FSM_BOARD_CLOSEUP),
    (COND_COMBINATION_20, FSM_NOTRANSITION),
    (COND_COMBINATION_21, FSM_BOARD_CLOSEUP),
    (COND_COMBINATION_22, FSM_NOTRANSITION),
    (COND_COMBINATION_23, FSM_BOARD_CLOSEUP),
    (COND_COMBINATION_24, FSM_NOTRANSITION),
    (COND_COMBINATION_25, FSM_BLACKBOARD_PIP_STUDENT_CLOSEUP),
    (COND_COMBINATION_26, FSM_NOTRANSITION),
    (COND_COMBINATION_27, FSM_BLACKBOARD_PIP_STUDENT_CLOSEUP),
    (COND_COMBINATION_28, FSM_NOTRANSITION),
    (COND_COMBINATION_29, FSM_BLACKBOARD_PIP_STUDENT_CLOSEUP),
    (COND_COMBINATION_30, FSM_NOTRANSITION),
    (COND_COMBINATION_31, FSM_TEACHER_PANORAMA),
    (COND_COMBINATION_32, FSM_NOTRANSITION),
    (COND_COMBINATION_33, FSM_TEACHER_PANORAMA),
    (COND_COMBINATION_34, FSM_NOTRANSITION),
    (COND_COMBINATION_35, FSM_TEACHER_PANORAMA),
    (COND_COMBINATION_36, FSM_NOTRANSITION)]"

definition assign_FSM_TEACHER_CLOSEUP :: "(nat \<times> e_fsm_state) list" where
  "assign_FSM_TEACHER_CLOSEUP = [
    (COND_VGA_UNCHG, FSM_NOTRANSITION),
    (COND_VGA_CHG, FSM_VGA_PIP_TEACHER_CLOSEUP),
    (COND_TEACHER_DETECTED_NONE, FSM_NOTRANSITION),
    (COND_TEACHER_DETECTED_ONE, FSM_NOTRANSITION),
    (COND_TEACHER_DETECTED_MULTIPLE, FSM_NOTRANSITION),
    (COND_STUDENT_STAND_NONE, FSM_NOTRANSITION),
    (COND_STUDENT_STAND_ONE, FSM_NOTRANSITION),
    (COND_STUDENT_STAND_MULTIPLE, FSM_NOTRANSITION),
    (COND_BOARD_WRITE, FSM_NOTRANSITION),
    (COND_BOARD_NOTWRITE, FSM_NOTRANSITION),
    (COND_COMBINATION_1, FSM_STUDENT_PANORAMA),
    (COND_COMBINATION_2, FSM_NOTRANSITION),
    (COND_COMBINATION_3, FSM_NOTRANSITION),
    (COND_COMBINATION_4, FSM_NOTRANSITION),
    (COND_COMBINATION_5, FSM_TEACHER_PANORAMA),
    (COND_COMBINATION_6, FSM_NOTRANSITION),
    (COND_COMBINATION_7, FSM_STUDENT_CLOSEUP),
    (COND_COMBINATION_8, FSM_NOTRANSITION),
    (COND_COMBINATION_9, FSM_TEACHER_CLOSEUP_PIP_STUDENT_CLOSEUP),
    (COND_COMBINATION_10, FSM_NOTRANSITION),
    (COND_COMBINATION_11, FSM_TEACHER_PANORAMA),
    (COND_COMBINATION_12, FSM_NOTRANSITION),
    (COND_COMBINATION_13, FSM_STUDENT_PANORAMA),
    (COND_COMBINATION_14, FSM_NOTRANSITION),
    (COND_COMBINATION_15, FSM_TEACHER_PANORAMA),
    (COND_COMBINATION_16, FSM_NOTRANSITION),
    (COND_COMBINATION_17, FSM_TEACHER_PANORAMA),
    (COND_COMBINATION_18, FSM_NOTRANSITION),
    (COND_COMBINATION_19, FSM_BOARD_CLOSEUP),
    (COND_COMBINATION_20, FSM_NOTRANSITION),
    (COND_COMBINATION_21, FSM_BOARD_CLOSEUP),
    (COND_COMBINATION_22, FSM_NOTRANSITION),
    (COND_COMBINATION_23, FSM_BOARD_CLOSEUP),
    (COND_COMBINATION_24, FSM_NOTRANSITION),
    (COND_COMBINATION_25, FSM_BLACKBOARD_PIP_STUDENT_CLOSEUP),
    (COND_COMBINATION_26, FSM_NOTRANSITION),
    (COND_COMBINATION_27, FSM_BLACKBOARD_PIP_STUDENT_CLOSEUP),
    (COND_COMBINATION_28, FSM_NOTRANSITION),
    (COND_COMBINATION_29, FSM_BLACKBOARD_PIP_STUDENT_CLOSEUP),
    (COND_COMBINATION_30, FSM_NOTRANSITION),
    (COND_COMBINATION_31, FSM_TEACHER_PANORAMA),
    (COND_COMBINATION_32, FSM_NOTRANSITION),
    (COND_COMBINATION_33, FSM_TEACHER_PANORAMA),
    (COND_COMBINATION_34, FSM_NOTRANSITION),
    (COND_COMBINATION_35, FSM_TEACHER_PANORAMA),
    (COND_COMBINATION_36, FSM_NOTRANSITION)]"

definition assign_FSM_STUDENT_CLOSEUP :: "(nat \<times> e_fsm_state) list" where
  "assign_FSM_STUDENT_CLOSEUP = [
    (COND_VGA_UNCHG, FSM_NOTRANSITION),
    (COND_VGA_CHG, FSM_VGA),
    (COND_TEACHER_DETECTED_NONE, FSM_NOTRANSITION),
    (COND_TEACHER_DETECTED_ONE, FSM_NOTRANSITION),
    (COND_TEACHER_DETECTED_MULTIPLE, FSM_NOTRANSITION),
    (COND_STUDENT_STAND_NONE, FSM_NOTRANSITION),
    (COND_STUDENT_STAND_ONE, FSM_NOTRANSITION),
    (COND_STUDENT_STAND_MULTIPLE, FSM_NOTRANSITION),
    (COND_BOARD_WRITE, FSM_NOTRANSITION),
    (COND_BOARD_NOTWRITE, FSM_NOTRANSITION),
    (COND_COMBINATION_1, FSM_STUDENT_PANORAMA),
    (COND_COMBINATION_2, FSM_NOTRANSITION),
    (COND_COMBINATION_3, FSM_TEACHER_CLOSEUP),
    (COND_COMBINATION_4, FSM_NOTRANSITION),
    (COND_COMBINATION_5, FSM_TEACHER_PANORAMA),
    (COND_COMBINATION_6, FSM_NOTRANSITION),
    (COND_COMBINATION_7, FSM_NOTRANSITION),
    (COND_COMBINATION_8, FSM_NOTRANSITION),
    (COND_COMBINATION_9, FSM_TEACHER_CLOSEUP_PIP_STUDENT_CLOSEUP),
    (COND_COMBINATION_10, FSM_NOTRANSITION),
    (COND_COMBINATION_11, FSM_TEACHER_PANORAMA),
    (COND_COMBINATION_12, FSM_NOTRANSITION),
    (COND_COMBINATION_13, FSM_STUDENT_PANORAMA),
    (COND_COMBINATION_14, FSM_NOTRANSITION),
    (COND_COMBINATION_15, FSM_STUDENT_PANORAMA),
    (COND_COMBINATION_16, FSM_NOTRANSITION),
    (COND_COMBINATION_17, FSM_STUDENT_PANORAMA),
    (COND_COMBINATION_18, FSM_NOTRANSITION),
    (COND_COMBINATION_19, FSM_BOARD_CLOSEUP),
    (COND_COMBINATION_20, FSM_NOTRANSITION),
    (COND_COMBINATION_21, FSM_BOARD_CLOSEUP),
    (COND_COMBINATION_22, FSM_NOTRANSITION),
    (COND_COMBINATION_23, FSM_BOARD_CLOSEUP),
    (COND_COMBINATION_24, FSM_NOTRANSITION),
    (COND_COMBINATION_25, FSM_BLACKBOARD_PIP_STUDENT_CLOSEUP),
    (COND_COMBINATION_26, FSM_NOTRANSITION),
    (COND_COMBINATION_27, FSM_BLACKBOARD_PIP_STUDENT_CLOSEUP),
    (COND_COMBINATION_28, FSM_NOTRANSITION),
    (COND_COMBINATION_29, FSM_BLACKBOARD_PIP_STUDENT_CLOSEUP),
    (COND_COMBINATION_30, FSM_NOTRANSITION),
    (COND_COMBINATION_31, FSM_TEACHER_PANORAMA),
    (COND_COMBINATION_32, FSM_NOTRANSITION),
    (COND_COMBINATION_33, FSM_TEACHER_PANORAMA),
    (COND_COMBINATION_34, FSM_NOTRANSITION),
    (COND_COMBINATION_35, FSM_TEACHER_PANORAMA),
    (COND_COMBINATION_36, FSM_NOTRANSITION)]"

definition assign_FSM_TEACHER_PANORAMA :: "(nat \<times> e_fsm_state) list" where
  "assign_FSM_TEACHER_PANORAMA = [
    (COND_VGA_UNCHG, FSM_NOTRANSITION),
    (COND_VGA_CHG, FSM_VGA),
    (COND_TEACHER_DETECTED_NONE, FSM_NOTRANSITION),
    (COND_TEACHER_DETECTED_ONE, FSM_NOTRANSITION),
    (COND_TEACHER_DETECTED_MULTIPLE, FSM_NOTRANSITION),
    (COND_STUDENT_STAND_NONE, FSM_NOTRANSITION),
    (COND_STUDENT_STAND_ONE, FSM_NOTRANSITION),
    (COND_STUDENT_STAND_MULTIPLE, FSM_NOTRANSITION),
    (COND_BOARD_WRITE, FSM_NOTRANSITION),
    (COND_BOARD_NOTWRITE, FSM_NOTRANSITION),
    (COND_COMBINATION_1, FSM_STUDENT_PANORAMA),
    (COND_COMBINATION_2, FSM_NOTRANSITION),
    (COND_COMBINATION_3, FSM_TEACHER_CLOSEUP),
    (COND_COMBINATION_4, FSM_NOTRANSITION),
    (COND_COMBINATION_5, FSM_NOTRANSITION),
    (COND_COMBINATION_6, FSM_NOTRANSITION),
    (COND_COMBINATION_7, FSM_STUDENT_CLOSEUP),
    (COND_COMBINATION_8, FSM_NOTRANSITION),
    (COND_COMBINATION_9, FSM_TEACHER_CLOSEUP_PIP_STUDENT_CLOSEUP),
    (COND_COMBINATION_10, FSM_NOTRANSITION),
    (COND_COMBINATION_11, FSM_NOTRANSITION),
    (COND_COMBINATION_12, FSM_NOTRANSITION),
    (COND_COMBINATION_13, FSM_STUDENT_PANORAMA),
    (COND_COMBINATION_14, FSM_NOTRANSITION),
    (COND_COMBINATION_15, FSM_NOTRANSITION),
    (COND_COMBINATION_16, FSM_NOTRANSITION),
    (COND_COMBINATION_17, FSM_NOTRANSITION),
    (COND_COMBINATION_18, FSM_NOTRANSITION),
    (COND_COMBINATION_19, FSM_BOARD_CLOSEUP),
    (COND_COMBINATION_20, FSM_NOTRANSITION),
    (COND_COMBINATION_21, FSM_BOARD_CLOSEUP),
    (COND_COMBINATION_22, FSM_NOTRANSITION),
    (COND_COMBINATION_23, FSM_BOARD_CLOSEUP),
    (COND_COMBINATION_24, FSM_NOTRANSITION),
    (COND_COMBINATION_25, FSM_BLACKBOARD_PIP_STUDENT_CLOSEUP),
    (COND_COMBINATION_26, FSM_NOTRANSITION),
    (COND_COMBINATION_27, FSM_BLACKBOARD_PIP_STUDENT_CLOSEUP),
    (COND_COMBINATION_28, FSM_NOTRANSITION),
    (COND_COMBINATION_29, FSM_BLACKBOARD_PIP_STUDENT_CLOSEUP),
    (COND_COMBINATION_30, FSM_NOTRANSITION),
    (COND_COMBINATION_31, FSM_NOTRANSITION),
    (COND_COMBINATION_32, FSM_NOTRANSITION),
    (COND_COMBINATION_33, FSM_NOTRANSITION),
    (COND_COMBINATION_34, FSM_NOTRANSITION),
    (COND_COMBINATION_35, FSM_NOTRANSITION),
    (COND_COMBINATION_36, FSM_NOTRANSITION)]"

definition assign_FSM_STUDENT_PANORAMA :: "(nat \<times> e_fsm_state) list" where
  "assign_FSM_STUDENT_PANORAMA = [
    (COND_VGA_UNCHG, FSM_NOTRANSITION),
    (COND_VGA_CHG, FSM_VGA),
    (COND_TEACHER_DETECTED_NONE, FSM_NOTRANSITION),
    (COND_TEACHER_DETECTED_ONE, FSM_NOTRANSITION),
    (COND_TEACHER_DETECTED_MULTIPLE, FSM_NOTRANSITION),
    (COND_STUDENT_STAND_NONE, FSM_NOTRANSITION),
    (COND_STUDENT_STAND_ONE, FSM_NOTRANSITION),
    (COND_STUDENT_STAND_MULTIPLE, FSM_NOTRANSITION),
    (COND_BOARD_WRITE, FSM_NOTRANSITION),
    (COND_BOARD_NOTWRITE, FSM_NOTRANSITION),
    (COND_COMBINATION_1, FSM_NOTRANSITION),
    (COND_COMBINATION_2, FSM_NOTRANSITION),
    (COND_COMBINATION_3, FSM_TEACHER_CLOSEUP),
    (COND_COMBINATION_4, FSM_NOTRANSITION),
    (COND_COMBINATION_5, FSM_TEACHER_PANORAMA),
    (COND_COMBINATION_6, FSM_NOTRANSITION),
    (COND_COMBINATION_7, FSM_STUDENT_CLOSEUP),
    (COND_COMBINATION_8, FSM_NOTRANSITION),
    (COND_COMBINATION_9, FSM_TEACHER_CLOSEUP_PIP_STUDENT_CLOSEUP),
    (COND_COMBINATION_10, FSM_NOTRANSITION),
    (COND_COMBINATION_11, FSM_TEACHER_PANORAMA),
    (COND_COMBINATION_12, FSM_NOTRANSITION),
    (COND_COMBINATION_13, FSM_NOTRANSITION),
    (COND_COMBINATION_14, FSM_NOTRANSITION),
    (COND_COMBINATION_15, FSM_NOTRANSITION),
    (COND_COMBINATION_16, FSM_NOTRANSITION),
    (COND_COMBINATION_17, FSM_NOTRANSITION),
    (COND_COMBINATION_18, FSM_NOTRANSITION),
    (COND_COMBINATION_19, FSM_BOARD_CLOSEUP),
    (COND_COMBINATION_20, FSM_NOTRANSITION),
    (COND_COMBINATION_21, FSM_BOARD_CLOSEUP),
    (COND_COMBINATION_22, FSM_NOTRANSITION),
    (COND_COMBINATION_23, FSM_BOARD_CLOSEUP),
    (COND_COMBINATION_24, FSM_NOTRANSITION),
    (COND_COMBINATION_25, FSM_BLACKBOARD_PIP_STUDENT_CLOSEUP),
    (COND_COMBINATION_26, FSM_NOTRANSITION),
    (COND_COMBINATION_27, FSM_BLACKBOARD_PIP_STUDENT_CLOSEUP),
    (COND_COMBINATION_28, FSM_NOTRANSITION),
    (COND_COMBINATION_29, FSM_BLACKBOARD_PIP_STUDENT_CLOSEUP),
    (COND_COMBINATION_30, FSM_NOTRANSITION),
    (COND_COMBINATION_31, FSM_NOTRANSITION),
    (COND_COMBINATION_32, FSM_NOTRANSITION),
    (COND_COMBINATION_33, FSM_NOTRANSITION),
    (COND_COMBINATION_34, FSM_NOTRANSITION),
    (COND_COMBINATION_35, FSM_NOTRANSITION),
    (COND_COMBINATION_36, FSM_NOTRANSITION)]"

definition assign_FSM_BOARD_CLOSEUP :: "(nat \<times> e_fsm_state) list" where
  "assign_FSM_BOARD_CLOSEUP = [
    (COND_VGA_UNCHG, FSM_NOTRANSITION),
    (COND_VGA_CHG, FSM_VGA_PIP_TEACHER_CLOSEUP),
    (COND_TEACHER_DETECTED_NONE, FSM_NOTRANSITION),
    (COND_TEACHER_DETECTED_ONE, FSM_NOTRANSITION),
    (COND_TEACHER_DETECTED_MULTIPLE, FSM_NOTRANSITION),
    (COND_STUDENT_STAND_NONE, FSM_NOTRANSITION),
    (COND_STUDENT_STAND_ONE, FSM_NOTRANSITION),
    (COND_STUDENT_STAND_MULTIPLE, FSM_NOTRANSITION),
    (COND_BOARD_WRITE, FSM_NOTRANSITION),
    (COND_BOARD_NOTWRITE, FSM_NOTRANSITION),
    (COND_COMBINATION_1, FSM_STUDENT_PANORAMA),
    (COND_COMBINATION_2, FSM_NOTRANSITION),
    (COND_COMBINATION_3, FSM_TEACHER_CLOSEUP),
    (COND_COMBINATION_4, FSM_NOTRANSITION),
    (COND_COMBINATION_5, FSM_TEACHER_PANORAMA),
    (COND_COMBINATION_6, FSM_NOTRANSITION),
    (COND_COMBINATION_7, FSM_STUDENT_CLOSEUP),
    (COND_COMBINATION_8, FSM_NOTRANSITION),
    (COND_COMBINATION_9, FSM_TEACHER_CLOSEUP_PIP_STUDENT_CLOSEUP),
    (COND_COMBINATION_10, FSM_NOTRANSITION),
    (COND_COMBINATION_11, FSM_TEACHER_PANORAMA),
    (COND_COMBINATION_12, FSM_NOTRANSITION),
    (COND_COMBINATION_13, FSM_STUDENT_PANORAMA),
    (COND_COMBINATION_14, FSM_NOTRANSITION),
    (COND_COMBINATION_15, FSM_TEACHER_PANORAMA),
    (COND_COMBINATION_16, FSM_NOTRANSITION),
    (COND_COMBINATION_17, FSM_TEACHER_PANORAMA),
    (COND_COMBINATION_18, FSM_NOTRANSITION),
    (COND_COMBINATION_19, FSM_NOTRANSITION),
    (COND_COMBINATION_20, FSM_NOTRANSITION),
    (COND_COMBINATION_21, FSM_NOTRANSITION),
    (COND_COMBINATION_22, FSM_NOTRANSITION),
    (COND_COMBINATION_23, FSM_NOTRANSITION),
    (COND_COMBINATION_24, FSM_NOTRANSITION),
    (COND_COMBINATION_25, FSM_BLACKBOARD_PIP_STUDENT_CLOSEUP),
    (COND_COMBINATION_26, FSM_NOTRANSITION),
    (COND_COMBINATION_27, FSM_BLACKBOARD_PIP_STUDENT_CLOSEUP),
    (COND_COMBINATION_28, FSM_NOTRANSITION),
    (COND_COMBINATION_29, FSM_BLACKBOARD_PIP_STUDENT_CLOSEUP),
    (COND_COMBINATION_30, FSM_NOTRANSITION),
    (COND_COMBINATION_31, FSM_TEACHER_PANORAMA),
    (COND_COMBINATION_32, FSM_NOTRANSITION),
    (COND_COMBINATION_33, FSM_TEACHER_PANORAMA),
    (COND_COMBINATION_34, FSM_NOTRANSITION),
    (COND_COMBINATION_35, FSM_TEACHER_PANORAMA),
    (COND_COMBINATION_36, FSM_NOTRANSITION)]"

definition assign_FSM_VGA_PIP_TEACHER_CLOSEUP :: "(nat \<times> e_fsm_state) list" where
  "assign_FSM_VGA_PIP_TEACHER_CLOSEUP = [
    (COND_VGA_UNCHG, FSM_NOTRANSITION),
    (COND_VGA_CHG, FSM_NOTRANSITION),
    (COND_TEACHER_DETECTED_NONE, FSM_NOTRANSITION),
    (COND_TEACHER_DETECTED_ONE, FSM_NOTRANSITION),
    (COND_TEACHER_DETECTED_MULTIPLE, FSM_NOTRANSITION),
    (COND_STUDENT_STAND_NONE, FSM_NOTRANSITION),
    (COND_STUDENT_STAND_ONE, FSM_NOTRANSITION),
    (COND_STUDENT_STAND_MULTIPLE, FSM_NOTRANSITION),
    (COND_BOARD_WRITE, FSM_NOTRANSITION),
    (COND_BOARD_NOTWRITE, FSM_NOTRANSITION),
    (COND_COMBINATION_1, FSM_STUDENT_PANORAMA),
    (COND_COMBINATION_2, FSM_NOTRANSITION),
    (COND_COMBINATION_3, FSM_TEACHER_CLOSEUP),
    (COND_COMBINATION_4, FSM_NOTRANSITION),
    (COND_COMBINATION_5, FSM_TEACHER_PANORAMA),
    (COND_COMBINATION_6, FSM_NOTRANSITION),
    (COND_COMBINATION_7, FSM_STUDENT_CLOSEUP),
    (COND_COMBINATION_8, FSM_NOTRANSITION),
    (COND_COMBINATION_9, FSM_TEACHER_CLOSEUP_PIP_STUDENT_CLOSEUP),
    (COND_COMBINATION_10, FSM_NOTRANSITION),
    (COND_COMBINATION_11, FSM_TEACHER_PANORAMA),
    (COND_COMBINATION_12, FSM_NOTRANSITION),
    (COND_COMBINATION_13, FSM_STUDENT_PANORAMA),
    (COND_COMBINATION_14, FSM_NOTRANSITION),
    (COND_COMBINATION_15, FSM_TEACHER_PANORAMA),
    (COND_COMBINATION_16, FSM_NOTRANSITION),
    (COND_COMBINATION_17, FSM_TEACHER_PANORAMA),
    (COND_COMBINATION_18, FSM_NOTRANSITION),
    (COND_COMBINATION_19, FSM_BOARD_CLOSEUP),
    (COND_COMBINATION_20, FSM_NOTRANSITION),
    (COND_COMBINATION_21, FSM_BOARD_CLOSEUP),
    (COND_COMBINATION_22, FSM_NOTRANSITION),
    (COND_COMBINATION_23, FSM_BOARD_CLOSEUP),
    (COND_COMBINATION_24, FSM_NOTRANSITION),
    (COND_COMBINATION_25, FSM_BLACKBOARD_PIP_STUDENT_CLOSEUP),
    (COND_COMBINATION_26, FSM_NOTRANSITION),
    (COND_COMBINATION_27, FSM_BLACKBOARD_PIP_STUDENT_CLOSEUP),
    (COND_COMBINATION_28, FSM_NOTRANSITION),
    (COND_COMBINATION_29, FSM_BLACKBOARD_PIP_STUDENT_CLOSEUP),
    (COND_COMBINATION_30, FSM_NOTRANSITION),
    (COND_COMBINATION_31, FSM_TEACHER_PANORAMA),
    (COND_COMBINATION_32, FSM_NOTRANSITION),
    (COND_COMBINATION_33, FSM_TEACHER_PANORAMA),
    (COND_COMBINATION_34, FSM_NOTRANSITION),
    (COND_COMBINATION_35, FSM_TEACHER_PANORAMA),
    (COND_COMBINATION_36, FSM_NOTRANSITION)]"

definition assign_FSM_TEACHER_CLOSEUP_PIP_STUDENT_CLOSEUP :: "(nat \<times> e_fsm_state) list" where
  "assign_FSM_TEACHER_CLOSEUP_PIP_STUDENT_CLOSEUP = [
    (COND_VGA_UNCHG, FSM_NOTRANSITION),
    (COND_VGA_CHG, FSM_VGA_PIP_TEACHER_CLOSEUP),
    (COND_TEACHER_DETECTED_NONE, FSM_NOTRANSITION),
    (COND_TEACHER_DETECTED_ONE, FSM_NOTRANSITION),
    (COND_TEACHER_DETECTED_MULTIPLE, FSM_NOTRANSITION),
    (COND_STUDENT_STAND_NONE, FSM_NOTRANSITION),
    (COND_STUDENT_STAND_ONE, FSM_NOTRANSITION),
    (COND_STUDENT_STAND_MULTIPLE, FSM_NOTRANSITION),
    (COND_BOARD_WRITE, FSM_NOTRANSITION),
    (COND_BOARD_NOTWRITE, FSM_NOTRANSITION),
    (COND_COMBINATION_1, FSM_STUDENT_PANORAMA),
    (COND_COMBINATION_2, FSM_NOTRANSITION),
    (COND_COMBINATION_3, FSM_TEACHER_CLOSEUP),
    (COND_COMBINATION_4, FSM_NOTRANSITION),
    (COND_COMBINATION_5, FSM_TEACHER_PANORAMA),
    (COND_COMBINATION_6, FSM_NOTRANSITION),
    (COND_COMBINATION_7, FSM_STUDENT_CLOSEUP),
    (COND_COMBINATION_8, FSM_NOTRANSITION),
    (COND_COMBINATION_9, FSM_NOTRANSITION),
    (COND_COMBINATION_10, FSM_NOTRANSITION),
    (COND_COMBINATION_11, FSM_TEACHER_PANORAMA),
    (COND_COMBINATION_12, FSM_NOTRANSITION),
    (COND_COMBINATION_13, FSM_STUDENT_PANORAMA),
    (COND_COMBINATION_14, FSM_NOTRANSITION),
    (COND_COMBINATION_15, FSM_TEACHER_PANORAMA),
    (COND_COMBINATION_16, FSM_NOTRANSITION),
    (COND_COMBINATION_17, FSM_TEACHER_PANORAMA),
    (COND_COMBINATION_18, FSM_NOTRANSITION),
    (COND_COMBINATION_19, FSM_BOARD_CLOSEUP),
    (COND_COMBINATION_20, FSM_NOTRANSITION),
    (COND_COMBINATION_21, FSM_BOARD_CLOSEUP),
    (COND_COMBINATION_22, FSM_NOTRANSITION),
    (COND_COMBINATION_23, FSM_BOARD_CLOSEUP),
    (COND_COMBINATION_24, FSM_NOTRANSITION),
    (COND_COMBINATION_25, FSM_BLACKBOARD_PIP_STUDENT_CLOSEUP),
    (COND_COMBINATION_26, FSM_NOTRANSITION),
    (COND_COMBINATION_27, FSM_BLACKBOARD_PIP_STUDENT_CLOSEUP),
    (COND_COMBINATION_28, FSM_NOTRANSITION),
    (COND_COMBINATION_29, FSM_BLACKBOARD_PIP_STUDENT_CLOSEUP),
    (COND_COMBINATION_30, FSM_NOTRANSITION),
    (COND_COMBINATION_31, FSM_TEACHER_PANORAMA),
    (COND_COMBINATION_32, FSM_NOTRANSITION),
    (COND_COMBINATION_33, FSM_TEACHER_PANORAMA),
    (COND_COMBINATION_34, FSM_NOTRANSITION),
    (COND_COMBINATION_35, FSM_TEACHER_PANORAMA),
    (COND_COMBINATION_36, FSM_NOTRANSITION)]"

definition assign_FSM_BLACKBOARD_PIP_STUDENT_CLOSEUP :: "(nat \<times> e_fsm_state) list" where
  "assign_FSM_BLACKBOARD_PIP_STUDENT_CLOSEUP = [
    (COND_VGA_UNCHG, FSM_NOTRANSITION),
    (COND_VGA_CHG, FSM_VGA_PIP_TEACHER_CLOSEUP),
    (COND_TEACHER_DETECTED_NONE, FSM_NOTRANSITION),
    (COND_TEACHER_DETECTED_ONE, FSM_NOTRANSITION),
    (COND_TEACHER_DETECTED_MULTIPLE, FSM_NOTRANSITION),
    (COND_STUDENT_STAND_NONE, FSM_NOTRANSITION),
    (COND_STUDENT_STAND_ONE, FSM_NOTRANSITION),
    (COND_STUDENT_STAND_MULTIPLE, FSM_NOTRANSITION),
    (COND_BOARD_WRITE, FSM_NOTRANSITION),
    (COND_BOARD_NOTWRITE, FSM_NOTRANSITION),
    (COND_COMBINATION_1, FSM_STUDENT_PANORAMA),
    (COND_COMBINATION_2, FSM_NOTRANSITION),
    (COND_COMBINATION_3, FSM_TEACHER_CLOSEUP),
    (COND_COMBINATION_4, FSM_NOTRANSITION),
    (COND_COMBINATION_5, FSM_TEACHER_PANORAMA),
    (COND_COMBINATION_6, FSM_NOTRANSITION),
    (COND_COMBINATION_7, FSM_STUDENT_CLOSEUP),
    (COND_COMBINATION_8, FSM_NOTRANSITION),
    (COND_COMBINATION_9, FSM_TEACHER_CLOSEUP_PIP_STUDENT_CLOSEUP),
    (COND_COMBINATION_10, FSM_NOTRANSITION),
    (COND_COMBINATION_11, FSM_TEACHER_PANORAMA),
    (COND_COMBINATION_12, FSM_NOTRANSITION),
    (COND_COMBINATION_13, FSM_STUDENT_PANORAMA),
    (COND_COMBINATION_14, FSM_NOTRANSITION),
    (COND_COMBINATION_15, FSM_TEACHER_PANORAMA),
    (COND_COMBINATION_16, FSM_NOTRANSITION),
    (COND_COMBINATION_17, FSM_TEACHER_PANORAMA),
    (COND_COMBINATION_18, FSM_NOTRANSITION),
    (COND_COMBINATION_19, FSM_BOARD_CLOSEUP),
    (COND_COMBINATION_20, FSM_NOTRANSITION),
    (COND_COMBINATION_21, FSM_BOARD_CLOSEUP),
    (COND_COMBINATION_22, FSM_NOTRANSITION),
    (COND_COMBINATION_23, FSM_BOARD_CLOSEUP),
    (COND_COMBINATION_24, FSM_NOTRANSITION),
    (COND_COMBINATION_25, FSM_NOTRANSITION),
    (COND_COMBINATION_26, FSM_NOTRANSITION),
    (COND_COMBINATION_27, FSM_NOTRANSITION),
    (COND_COMBINATION_28, FSM_NOTRANSITION),
    (COND_COMBINATION_29, FSM_NOTRANSITION),
    (COND_COMBINATION_30, FSM_NOTRANSITION),
    (COND_COMBINATION_31, FSM_TEACHER_PANORAMA),
    (COND_COMBINATION_32, FSM_NOTRANSITION),
    (COND_COMBINATION_33, FSM_TEACHER_PANORAMA),
    (COND_COMBINATION_34, FSM_NOTRANSITION),
    (COND_COMBINATION_35, FSM_TEACHER_PANORAMA),
    (COND_COMBINATION_36, FSM_NOTRANSITION)]"

type_synonym t_transition_table = "e_fsm_state \<Rightarrow> e_fsm_state list"

text \<open>\<open>memset(transition_table, -1, ...)\<close>, then the assignments of a row.\<close>

definition assign_row :: "(nat \<times> e_fsm_state) list \<Rightarrow> e_fsm_state list" where
  "assign_row as = foldl (\<lambda>row (c, n). row[c := n]) (replicate COND_MAX FSM_NOTRANSITION) as"

fun transition_table_init :: t_transition_table where
  "transition_table_init FSM_NOTRANSITION = []"
| "transition_table_init FSM_VGA = assign_row assign_FSM_VGA"
| "transition_table_init FSM_TEACHER_CLOSEUP = assign_row assign_FSM_TEACHER_CLOSEUP"
| "transition_table_init FSM_STUDENT_CLOSEUP = assign_row assign_FSM_STUDENT_CLOSEUP"
| "transition_table_init FSM_TEACHER_PANORAMA = assign_row assign_FSM_TEACHER_PANORAMA"
| "transition_table_init FSM_STUDENT_PANORAMA = assign_row assign_FSM_STUDENT_PANORAMA"
| "transition_table_init FSM_BOARD_CLOSEUP = assign_row assign_FSM_BOARD_CLOSEUP"
| "transition_table_init FSM_VGA_PIP_TEACHER_CLOSEUP = assign_row assign_FSM_VGA_PIP_TEACHER_CLOSEUP"
| "transition_table_init FSM_TEACHER_CLOSEUP_PIP_STUDENT_CLOSEUP = assign_row assign_FSM_TEACHER_CLOSEUP_PIP_STUDENT_CLOSEUP"
| "transition_table_init FSM_BLACKBOARD_PIP_STUDENT_CLOSEUP = assign_row assign_FSM_BLACKBOARD_PIP_STUDENT_CLOSEUP"

section \<open>The machine\<close>

record t_finite_state_machine =
  initial_state :: e_fsm_state
  current_state :: e_fsm_state
  fsm_truth_table :: t_truth_table
  fsm_transition_table :: t_transition_table

definition fsm_init :: "t_truth_table \<Rightarrow> t_transition_table \<Rightarrow> t_finite_state_machine" where
  "fsm_init tt table = \<lparr>initial_state = FSM_TEACHER_PANORAMA, current_state = FSM_TEACHER_PANORAMA,
     fsm_truth_table = tt, fsm_transition_table = table\<rparr>"

definition fsm_set_state :: "t_finite_state_machine \<Rightarrow> e_fsm_state \<Rightarrow> t_finite_state_machine" where
  "fsm_set_state fsm state = fsm\<lparr>current_state := state\<rparr>"

definition fsm_get_state :: "t_finite_state_machine \<Rightarrow> e_fsm_state" where
  "fsm_get_state fsm = current_state fsm"

fun fsm_scan :: "e_fsm_state list \<Rightarrow> t_truth_table \<Rightarrow> nat list \<Rightarrow> e_fsm_state" where
  "fsm_scan row tt [] = FSM_NOTRANSITION"
| "fsm_scan row tt (i # js) =
     (if row ! i \<noteq> FSM_NOTRANSITION \<and> truth_table_condition_test i tt then row ! i else fsm_scan row tt js)"

text \<open>A negative current state would index outside the table.\<close>

definition fsm_state_update :: "t_finite_state_machine \<Rightarrow> (e_fsm_state \<times> t_finite_state_machine) res" where
  "fsm_state_update fsm =
     (if fsm_state_num (current_state fsm) < 0 then Inl Out_Of_Bounds
      else let ret = fsm_scan (fsm_transition_table fsm (current_state fsm)) (fsm_truth_table fsm) [0 ..< COND_MAX]
           in Inr (ret, if ret = FSM_NOTRANSITION then fsm else fsm\<lparr>current_state := ret\<rparr>))"

end
