(* ===== verification/Switch_Decision.thy ===== *)
theory Switch_Decision
  imports Switch_Fsm
begin

text \<open>
  What the director's machine decides. The truth table always has a canonical form that is determined
  by the truth of the ten element conditions; the thread sets and resets them so that exactly one
  condition of each of the four groups holds, and then the next state is a function of the current
  state and the situation.
\<close>

section \<open>The canonical table\<close>

text \<open>Slots 8 and 9 hold \<open>BOARD_WRITE\<close> and \<open>BOARD_NOTWRITE\<close>, in the order they are added.\<close>

definition elem_slot :: "nat \<Rightarrow> nat" where
  "elem_slot c = (if c = 8 then 9 else if c = 9 then 8 else c)"

lemma elem_slot_simps [simp]:
  "elem_slot (elem_slot c) = c" "elem_slot c < 10 \<longleftrightarrow> c < 10" "elem_slot c = elem_slot d \<longleftrightarrow> c = d"
  by (auto simp: elem_slot_def)

definition comb_elems :: "nat \<Rightarrow> nat list" where
  "comb_elems k = [k mod 2, 2 + k div 2 mod 3, 5 + k div 6 mod 3, 8 + k div 18]"

lemma comb_elems_bound: "k < 36 \<Longrightarrow> e \<in> set (comb_elems k) \<Longrightarrow> e < 10"
  by (auto simp: comb_elems_def)

definition slot :: "(nat \<Rightarrow> bool) \<Rightarrow> nat \<Rightarrow> t_cond_item" where
  "slot v i =
     (if i < 10 then \<lparr>valid = True, cond_idx = elem_slot i, cond_value = v (elem_slot i), cond_type = 0, element = []\<rparr>
      else \<lparr>valid = True, cond_idx = i, cond_value = list_all v (comb_elems (i - 10)), cond_type = 1,
             element = map elem_slot (comb_elems (i - 10))\<rparr>)"

definition canon :: "(nat \<Rightarrow> bool) \<Rightarrow> t_truth_table" where
  "canon v = map (slot v) [0 ..< COND_MAX]"

lemma length_canon [simp]: "length (canon v) = 46"
  by (simp add: canon_def)

lemma nth_canon [simp]: "i < 46 \<Longrightarrow> canon v ! i = slot v i"
  by (simp add: canon_def del: upt_Suc)

lemma slot_fields [simp]:
  "valid (slot v i)" "cond_idx (slot v i) = (if i < 10 then elem_slot i else i)"
  "cond_type (slot v i) = (if i < 10 then 0 else 1)"
  by (simp_all add: slot_def)

text \<open>The slot of a condition.\<close>

definition cond_slot :: "nat \<Rightarrow> nat" where
  "cond_slot c = (if c < 10 then elem_slot c else c)"

lemma cond_slot_idx: "cond_idx (slot v i) = c \<longleftrightarrow> i = cond_slot c"
  by (auto simp: cond_slot_def elem_slot_def)

lemma cond_slot_bounds: "c < 46 \<Longrightarrow> cond_slot c < 46" "c < 10 \<Longrightarrow> cond_slot c < 10"
  by (auto simp: cond_slot_def elem_slot_def)

lemma find_upt_first: "i < n \<Longrightarrow> P i \<Longrightarrow> (\<And>j. j < i \<Longrightarrow> \<not> P j) \<Longrightarrow> find P [0 ..< n] = Some i"
  by (simp add: find_Some_iff) (metis add_0 diff_zero length_upt less_trans nth_upt)

lemma find_canon: "c < 46 \<Longrightarrow> truth_table_find_condition c (canon v) = Some (cond_slot c)"
  unfolding truth_table_find_condition_def
  by (rule find_upt_first) (use cond_slot_bounds(1) [of c] cond_slot_idx in auto)

lemma test_canon:
  "c < 46 \<Longrightarrow> truth_table_condition_test c (canon v) = (if c < 10 then v c else list_all v (comb_elems (c - 10)))"
  using cond_slot_bounds(1) [of c]
  by (simp add: truth_table_condition_test_def find_canon) (simp add: slot_def cond_slot_def)

section \<open>Updating the combinations\<close>

definition fresh_slot :: "t_truth_table \<Rightarrow> nat \<Rightarrow> t_cond_item" where
  "fresh_slot tt i =
     (if valid (tt ! i) \<and> cond_type (tt ! i) \<noteq> 0
      then (tt ! i)\<lparr>cond_value := list_all (\<lambda>j. cond_value (tt ! j)) (element (tt ! i))\<rparr> else tt ! i)"

definition flat :: "t_truth_table \<Rightarrow> bool" where
  "flat tt \<longleftrightarrow> (\<forall>i<length tt. cond_type (tt ! i) \<noteq> 0 \<longrightarrow>
     (\<forall>j\<in>set (element (tt ! i)). j < length tt \<and> cond_type (tt ! j) = 0))"

lemma update_slots:
  assumes "flat tt" and "n \<le> length tt"
  shows "foldl update_slot tt [0 ..< n] = map (fresh_slot tt) [0 ..< n] @ drop n tt"
  using assms(2)
proof (induction n)
  case (Suc n)
  let ?t = "map (fresh_slot tt) [0 ..< n] @ drop n tt"
  have l: "length ?t = length tt" "n < length tt" using Suc.prems by simp_all
  have n: "?t ! n = tt ! n" using l by (simp add: nth_append)
  have old: "cond_value (?t ! j) = cond_value (tt ! j)" if "j < length tt" "cond_type (tt ! j) = 0" for j
    using that l by (cases "j < n") (simp_all add: nth_append fresh_slot_def)
  have d: "drop n tt = tt ! n # drop (Suc n) tt" using l(2) by (simp add: Cons_nth_drop_Suc)
  have upd: "?t[n := x] = map (fresh_slot tt) [0 ..< n] @ x # drop (Suc n) tt" for x
    unfolding d by (simp add: list_update_append)
  have "update_slot ?t n = map (fresh_slot tt) [0 ..< Suc n] @ drop (Suc n) tt"
  proof (cases "valid (tt ! n) \<and> cond_type (tt ! n) \<noteq> 0")
    case True
    then have "\<forall>j\<in>set (element (tt ! n)). j < length tt \<and> cond_type (tt ! j) = 0"
      using assms(1) l(2) unfolding flat_def by blast
    then have "list_all (\<lambda>j. cond_value (?t ! j)) (element (tt ! n)) =
        list_all (\<lambda>j. cond_value (tt ! j)) (element (tt ! n))"
      using old by (auto simp: list_all_iff)
    then have "update_slot ?t n = ?t[n := fresh_slot tt n]"
      unfolding update_slot_def n fresh_slot_def using True by simp
    then show ?thesis unfolding upd by simp
  next
    case False
    have "fresh_slot tt n = tt ! n" using False by (auto simp: fresh_slot_def)
    moreover have "update_slot ?t n = ?t" unfolding update_slot_def n using False by auto
    ultimately show ?thesis using d by simp
  qed
  then show ?case using Suc by simp
qed simp

lemma update_all:
  "flat tt \<Longrightarrow> truth_table_update_combination_condition tt = map (fresh_slot tt) [0 ..< length tt]"
  using update_slots [of tt "length tt"] by (simp add: truth_table_update_combination_condition_def)

lemma set_condition_canon:
  assumes "c < 10"
  shows "set_condition b c (canon v) = (0, canon (v(c := b)))"
proof -
  define s where "s = cond_slot c"
  have s: "s < 10" "elem_slot s = c" using assms by (simp_all add: s_def cond_slot_def)
  define tt where "tt = (canon v)[s := (canon v ! s)\<lparr>cond_value := b\<rparr>]"
  have l: "length tt = 46" by (simp add: tt_def)
  have nth: "tt ! i = (if i = s then (slot v i)\<lparr>cond_value := b\<rparr> else slot v i)" if "i < 46" for i
    using that s(1) by (auto simp: tt_def)
  have val: "cond_value (tt ! i) = (v(c := b)) (elem_slot i)" if "i < 10" for i
    using that nth [of i] s by (auto simp: slot_def)
  have elems: "j < 10" if "i < 46" "j \<in> set (element (slot v i))" for i j
    using that comb_elems_bound [of "i - 10"] by (auto simp: slot_def split: if_splits)
  have "flat tt"
    unfolding flat_def l
  proof (intro allI impI ballI)
    fix i j assume i: "i < 46" "cond_type (tt ! i) \<noteq> 0" and j: "j \<in> set (element (tt ! i))"
    have "j < 10" using elems [of i j] i(1) j nth [of i] by (auto split: if_splits)
    then show "j < 46 \<and> cond_type (tt ! j) = 0" using nth [of j] by auto
  qed
  moreover have "fresh_slot tt i = slot (v(c := b)) i" if i: "i < 46" for i
  proof (cases "i < 10")
    case True
    then show ?thesis using nth [OF i] s by (auto simp: fresh_slot_def) (auto simp: slot_def)
  next
    case False
    have "list_all (\<lambda>j. cond_value (tt ! j)) (map elem_slot (comb_elems (i - 10))) =
        list_all (v(c := b)) (comb_elems (i - 10))"
      using comb_elems_bound [of "i - 10"] val False i by (auto simp: list_all_iff)
    moreover have "tt ! i = slot v i" using nth [OF i] s(1) False by auto
    ultimately show ?thesis using False by (simp add: fresh_slot_def) (simp add: slot_def)
  qed
  ultimately have "truth_table_update_combination_condition tt = canon (v(c := b))"
    using update_all [of tt] l unfolding canon_def by (auto intro!: map_cong simp del: upt_Suc)
  moreover have "set_condition b c (canon v) = (0, truth_table_update_combination_condition tt)"
    using find_canon [of c v] assms s(1) by (simp add: set_condition_def tt_def s_def)
  ultimately show ?thesis by simp
qed

lemma set_conditions_canon:
  "\<forall>bc\<in>set bcs. snd bc < 10 \<Longrightarrow>
   set_conditions bcs (canon v) = canon (foldl (\<lambda>v bc. v(snd bc := fst bc)) v bcs)"
proof (induction bcs arbitrary: v)
  case (Cons bc bcs)
  then have "set_conditions (bc # bcs) (canon v) = set_conditions bcs (canon (v(snd bc := fst bc)))"
    using set_condition_canon [of "snd bc" "fst bc" v] by (simp add: set_conditions_def split_beta)
  then show ?case using Cons by simp
qed (simp add: set_conditions_def)

section \<open>The set-up\<close>

definition part :: "nat \<Rightarrow> t_truth_table" where
  "part n = map (slot (\<lambda>_. False)) [0 ..< n] @ replicate (46 - n) cond_zero"

lemma part_simps:
  assumes "n \<le> 46"
  shows "length (part n) = 46" and "i < n \<Longrightarrow> part n ! i = slot (\<lambda>_. False) i"
    and "n \<le> i \<Longrightarrow> i < 46 \<Longrightarrow> part n ! i = cond_zero"
  using assms by (simp_all add: part_def nth_append)

lemma part_find:
  assumes "n \<le> 46" and "c < 46"
  shows "truth_table_find_condition c (part n) = (if cond_slot c < n then Some (cond_slot c) else None)"
proof (cases "cond_slot c < n")
  case True
  then show ?thesis
    unfolding truth_table_find_condition_def part_simps(1) [OF assms(1)]
    using part_simps(2) [OF assms(1)] cond_slot_idx [of "\<lambda>_. False" _ c] assms
    by (subst find_upt_first [of "cond_slot c"]) auto
next
  case False
  have "\<not> (valid (part n ! i) \<and> cond_idx (part n ! i) = c)" if "i < 46" for i
    using False part_simps(2,3) [OF assms(1), of i] that cond_slot_idx [of "\<lambda>_. False" i c]
    by (cases "i < n") auto
  then show ?thesis
    using False unfolding truth_table_find_condition_def part_simps(1) [OF assms(1)]
    by (auto simp: find_None_iff)
qed

lemma part_alloc: "n < 46 \<Longrightarrow> truth_table_alloc_conditon_item (part n) = Some n"
  unfolding truth_table_alloc_conditon_item_def
  using part_simps [of n] by (subst find_upt_first [of n]) auto

lemma part_Suc: "n < 46 \<Longrightarrow> (part n)[n := slot (\<lambda>_. False) n] = part (Suc n)"
proof -
  assume n: "n < 46"
  then have "replicate (46 - n) cond_zero = cond_zero # replicate (46 - Suc n) cond_zero"
    by (simp flip: replicate_Suc add: Suc_diff_Suc)
  then show ?thesis unfolding part_def by (simp add: list_update_append)
qed

lemma part_element:
  assumes "n < 10"
  shows "truth_table_add_element_condition (elem_slot n) (part n) = (Some n, part (Suc n))"
proof -
  have c: "elem_slot n < 10" "cond_slot (elem_slot n) = n" using assms by (simp_all add: cond_slot_def)
  have "truth_table_find_condition (elem_slot n) (part n) = None" using part_find [of n "elem_slot n"] assms c by simp
  moreover have "(part n ! n)\<lparr>cond_idx := elem_slot n, cond_type := 0, cond_value := False, valid := True\<rparr> =
      slot (\<lambda>_. False) n"
    using part_simps(3) [of n n] assms by (simp add: slot_def)
  ultimately show ?thesis
    using part_alloc [of n] part_Suc [of n] assms by (simp add: truth_table_add_element_condition_def)
qed

lemma part_find_elements:
  "n \<le> 46 \<Longrightarrow> 10 \<le> n \<Longrightarrow> \<forall>e\<in>set es. e < 10 \<Longrightarrow> find_elements es (part n) = Some (map elem_slot es)"
proof (induction es)
  case (Cons e es)
  then have "truth_table_find_condition e (part n) = Some (elem_slot e)"
    using part_find [of n e] by (auto simp: cond_slot_def elem_slot_def)
  then show ?case using Cons by simp
qed simp

lemma part_combination:
  assumes "k < 36"
  shows "truth_table_add_combination_condition (10 + k) (comb_elems k) (part (10 + k)) =
    (Some (10 + k), part (Suc (10 + k)))"
proof -
  have "truth_table_find_condition (10 + k) (part (10 + k)) = None"
    using part_find [of "10 + k" "10 + k"] assms by (simp add: cond_slot_def)
  moreover have "find_elements (comb_elems k) (part (10 + k)) = Some (map elem_slot (comb_elems k))"
    using part_find_elements [of "10 + k"] comb_elems_bound [OF assms] assms by simp
  moreover have "\<lparr>valid = True, cond_idx = 10 + k, cond_value = False, cond_type = 1,
      element = map elem_slot (comb_elems k)\<rparr> = slot (\<lambda>_. False) (10 + k)"
    by (simp add: slot_def comb_elems_def)
  ultimately show ?thesis
    using part_alloc [of "10 + k"] part_Suc [of "10 + k"] assms
    by (simp add: truth_table_add_combination_condition_def)
qed

lemma element_conditions_eq: "element_conditions = map elem_slot [0 ..< 10]"
  by (simp add: element_conditions_def elem_slot_def upt_rec)

lemma combinations_eq: "combinations_1 @ combinations_2 = map (\<lambda>k. (10 + k, comb_elems k)) [0 ..< 36]"
  by (simp add: combinations_1_def combinations_2_def comb_elems_def upt_rec)

lemma setup_elements:
  "n \<le> 10 \<Longrightarrow> foldl (\<lambda>tt c. snd (truth_table_add_element_condition c tt)) (part 0) (map elem_slot [0 ..< n]) = part n"
  by (induction n) (simp_all add: part_element)

lemma setup_combinations:
  "n \<le> 36 \<Longrightarrow> foldl (\<lambda>tt (c, es). snd (truth_table_add_combination_condition c es tt)) (part 10)
     (map (\<lambda>k. (10 + k, comb_elems k)) [0 ..< n]) = part (10 + n)"
  by (induction n) (simp_all add: part_combination)

text \<open>The situation: the VGA changes, how many teachers and standing students, writing on the board.\<close>

definition situation :: "nat \<Rightarrow> nat \<Rightarrow> nat \<Rightarrow> nat \<Rightarrow> nat \<Rightarrow> bool" where
  "situation v t s b c \<longleftrightarrow> c = v \<or> c = 2 + t \<or> c = 5 + s \<or> c = 8 + b"

lemma set_initial:
  "set_conditions initial_conditions (canon v) = canon (\<lambda>c. if c < 10 then situation 0 0 0 0 c else v c)"
proof -
  have "foldl (\<lambda>v bc. v(snd bc := fst bc)) v initial_conditions = (\<lambda>c. if c < 10 then situation 0 0 0 0 c else v c)"
    by (auto simp: initial_conditions_def situation_def fun_eq_iff)
  then show ?thesis using set_conditions_canon [of initial_conditions v] by (simp add: initial_conditions_def)
qed

lemma canon_cong: "(\<And>c. c < 10 \<Longrightarrow> v c = w c) \<Longrightarrow> canon v = canon w"
proof -
  assume vw: "\<And>c. c < 10 \<Longrightarrow> v c = w c"
  have "slot v i = slot w i" if i: "i < 46" for i
  proof (cases "i < 10")
    case True
    then show ?thesis using vw [of "elem_slot i"] by (simp add: slot_def)
  next
    case False
    then have "list_all v (comb_elems (i - 10)) = list_all w (comb_elems (i - 10))"
      using comb_elems_bound [of "i - 10"] vw i by (intro list.pred_cong) auto
    then show ?thesis using False by (simp add: slot_def)
  qed
  then show ?thesis unfolding canon_def by (simp del: upt_Suc)
qed

lemma setup_canon: "setup_truth_table = canon (situation 0 0 0 0)"
proof -
  have "truth_table_init COND_MAX = part 0" by (simp add: truth_table_init_def part_def)
  moreover have "part (10 + 36) = canon (\<lambda>_. False)" by (simp add: part_def canon_def del: upt_Suc)
  ultimately have "setup_truth_table = set_conditions initial_conditions (canon (\<lambda>_. False))"
    unfolding setup_truth_table_def Let_def element_conditions_eq combinations_eq
    using setup_elements [of 10] setup_combinations [of 36] by simp
  moreover have "set_conditions initial_conditions (canon (\<lambda>_. False)) = canon (situation 0 0 0 0)"
    unfolding set_initial by (rule canon_cong) simp
  ultimately show ?thesis by simp
qed

section \<open>The decision\<close>

text \<open>
  The specification: the conditions of the situation are tried in the order VGA, teacher, student,
  board, and the combination of the four last; the first one with a transition decides.
\<close>

definition comb_index :: "nat \<Rightarrow> nat \<Rightarrow> nat \<Rightarrow> nat \<Rightarrow> nat" where
  "comb_index v t s b = 10 + (v + 2 * t + 6 * s + 18 * b)"

fun first_transition :: "e_fsm_state list \<Rightarrow> nat list \<Rightarrow> e_fsm_state" where
  "first_transition row [] = FSM_NOTRANSITION"
| "first_transition row (c # cs) = (if row ! c \<noteq> FSM_NOTRANSITION then row ! c else first_transition row cs)"

definition decide :: "e_fsm_state list \<Rightarrow> nat \<Rightarrow> nat \<Rightarrow> nat \<Rightarrow> nat \<Rightarrow> e_fsm_state" where
  "decide row v t s b = first_transition row [v, 2 + t, 5 + s, 8 + b, comb_index v t s b]"

lemma fsm_scan_filter: "fsm_scan row tt cs = first_transition row (filter (\<lambda>c. truth_table_condition_test c tt) cs)"
  by (induction cs) auto

lemma low_digit: "v < m \<Longrightarrow> (v + m * x) mod m = v" "v < m \<Longrightarrow> (v + m * x) div m = x" for v m x :: nat
  by simp_all

lemma comb_elems_digits:
  assumes "v < 2" and "t < 3" and "s < 3" and "b < 2"
  shows "comb_elems (v + 2 * t + 6 * s + 18 * b) = [v, 2 + t, 5 + s, 8 + b]"
proof -
  define k where "k = v + 2 * (t + 3 * (s + 3 * b))"
  have "k mod 2 = v" "k div 2 = t + 3 * (s + 3 * b)"
    unfolding k_def using low_digit [OF assms(1)] by blast+
  moreover have "k div 6 = k div 2 div 3" "k div 18 = k div 2 div 3 div 3" by (simp_all add: div_mult2_eq [symmetric])
  moreover have "(t + 3 * (s + 3 * b)) mod 3 = t" "(t + 3 * (s + 3 * b)) div 3 = s + 3 * b"
    "(s + 3 * b) mod 3 = s" "(s + 3 * b) div 3 = b"
    using low_digit [OF assms(2)] low_digit [OF assms(3)] by blast+
  moreover have "v + 2 * t + 6 * s + 18 * b = k" by (simp add: k_def)
  ultimately show ?thesis by (simp only: comb_elems_def)
qed

lemma digits_of: "k = k mod 2 + 2 * (k div 2 mod 3) + 6 * (k div 6 mod 3) + 18 * (k div 18)" for k :: nat
proof -
  have "k div 6 = k div 2 div 3" "k div 18 = k div 6 div 3" by (simp_all add: div_mult2_eq [symmetric])
  moreover have "k = k mod 2 + 2 * (k div 2)" "k div 2 = k div 2 mod 3 + 3 * (k div 2 div 3)"
    "k div 6 = k div 6 mod 3 + 3 * (k div 6 div 3)" by simp_all
  ultimately show ?thesis by linarith
qed

lemma filter_one: "distinct xs \<Longrightarrow> x \<in> set xs \<Longrightarrow> \<forall>c\<in>set xs. P c \<longleftrightarrow> c = x \<Longrightarrow> filter P xs = [x]"
  by (induction xs) (auto simp: filter_empty_conv)

lemma situation_comb:
  assumes "v < 2" and "t < 3" and "s < 3" and "b < 2" and "k < 36"
  shows "list_all (situation v t s b) (comb_elems k) \<longleftrightarrow> k = v + 2 * t + 6 * s + 18 * b"
proof
  assume "list_all (situation v t s b) (comb_elems k)"
  then have "k mod 2 = v" "k div 2 mod 3 = t" "k div 6 mod 3 = s" "k div 18 = b"
    using assms by (auto simp: comb_elems_def situation_def)
  then show "k = v + 2 * t + 6 * s + 18 * b" using digits_of [of k] by simp
next
  assume "k = v + 2 * t + 6 * s + 18 * b"
  then show "list_all (situation v t s b) (comb_elems k)"
    using comb_elems_digits [OF assms(1-4)] by (simp add: situation_def)
qed

lemma test_situation:
  assumes "v < 2" and "t < 3" and "s < 3" and "b < 2" and "c < 46"
  shows "truth_table_condition_test c (canon (situation v t s b)) \<longleftrightarrow>
    (if c < 10 then situation v t s b c else c = comb_index v t s b)"
  using test_canon [of c] situation_comb [OF assms(1-4), of "c - 10"] assms(5) by (auto simp: comb_index_def)

lemma filter_situation:
  assumes "v < 2" and "t < 3" and "s < 3" and "b < 2"
  shows "filter (\<lambda>c. truth_table_condition_test c (canon (situation v t s b))) [0 ..< 46] =
    [v, 2 + t, 5 + s, 8 + b, comb_index v t s b]"
proof -
  note test = test_situation [OF assms]
  define P where "P = (\<lambda>c. truth_table_condition_test c (canon (situation v t s b)))"
  have P: "P c \<longleftrightarrow> (if c < 10 then situation v t s b c else c = comb_index v t s b)" if "c < 46" for c
    using test [OF that] by (simp add: P_def)
  have low: "P c \<longleftrightarrow> situation v t s b c" if "c < 10" for c using P [of c] that by simp
  have "[0 ..< 46] = [0 ..< 2] @ [2 ..< 5] @ [5 ..< 8] @ [8 ..< 10] @ [10 ..< (46 :: nat)]"
    by (simp add: upt_rec)
  moreover have "filter P [0 ..< 2] = [v]" using assms low by (intro filter_one) (auto simp: situation_def)
  moreover have "filter P [2 ..< 5] = [2 + t]" using assms low by (intro filter_one) (auto simp: situation_def)
  moreover have "filter P [5 ..< 8] = [5 + s]" using assms low by (intro filter_one) (auto simp: situation_def)
  moreover have "filter P [8 ..< 10] = [8 + b]" using assms low by (intro filter_one) (auto simp: situation_def)
  moreover have "filter P [10 ..< 46] = [comb_index v t s b]"
  proof (rule filter_one)
    show "comb_index v t s b \<in> set [10 ..< 46]"
      using assms unfolding comb_index_def set_upt atLeastLessThan_iff by linarith
    show "\<forall>c\<in>set [10 ..< 46]. P c \<longleftrightarrow> c = comb_index v t s b" using P by (simp del: upt_Suc)
  qed simp
  ultimately have "filter P [0 ..< 46] = [v, 2 + t, 5 + s, 8 + b, comb_index v t s b]"
    by (simp only: filter_append append_Cons append_Nil)
  then show ?thesis by (simp only: P_def)
qed

lemma scan_situation:
  assumes "v < 2" and "t < 3" and "s < 3" and "b < 2"
  shows "fsm_scan row (canon (situation v t s b)) [0 ..< 46] = decide row v t s b"
  unfolding fsm_scan_filter filter_situation [OF assms] decide_def by (rule refl)

end
