(* ===== verification/Video_Map.thy ===== *)
theory Video_Map
  imports Rec_Prelude
begin

text \<open>
  The table that maps the functions of the videos (close-up of the teacher, panorama of the students,
  ...) to the capture inputs (\<^verbatim>\<open>g_vmap_table\<close> of \<^verbatim>\<open>recbcsrv/recbc_srv.c\<close>): its defaults, the
  look-ups by function and the marks of the picture-in-picture video.
\<close>

abbreviation (input) "VIDEO_FUNCTION_VGA \<equiv> 0 :: int"
abbreviation (input) "VIDEO_FUNCTION_TEACHER_CLOSEUP \<equiv> 1 :: int"
abbreviation (input) "VIDEO_FUNCTION_STUDENT_CLOSEUP \<equiv> 2 :: int"
abbreviation (input) "VIDEO_FUNCTION_TEACHER_PANORAMA \<equiv> 3 :: int"
abbreviation (input) "VIDEO_FUNCTION_STUDENT_PANORAMA \<equiv> 4 :: int"
abbreviation (input) "VIDEO_FUNCTION_BOARD_CLOSEUP \<equiv> 5 :: int"

record t_video_map =
  vm_index :: int
  vm_function :: int
  vm_uart_channel :: int
  vm_pip :: int
  vm_cap_id :: int
  cam_vendor :: string
  cam_model :: string

type_synonym vmap_table = "t_video_map list"

text \<open>The table is a global, so the names of the cameras start empty.\<close>

definition vmap_entry :: "nat \<Rightarrow> t_video_map" where
  "vmap_entry i =
     (let f = int i + 1
      in \<lparr>vm_index = int i + 1, vm_function = f,
          vm_uart_channel = (if f = 2 then 3 else if f = 1 then 1 else 0), vm_pip = 0, vm_cap_id = int i + 1, cam_vendor = '''', cam_model = ''''\<rparr>)"

definition vmap_table_init :: vmap_table where
  "vmap_table_init = (let t = map vmap_entry [0 ..< 6] in t[5 := (t ! 5)\<lparr>vm_cap_id := 0xB\<rparr>])"

definition vmap_table_get_capid_by_function :: "vmap_table \<Rightarrow> int \<Rightarrow> int" where
  "vmap_table_get_capid_by_function t f =
     (case find (\<lambda>v. vm_function v = f) t of Some v \<Rightarrow> vm_cap_id v AND 0xf | None \<Rightarrow> -1)"

definition vmap_table_get_index_by_function :: "vmap_table \<Rightarrow> int \<Rightarrow> int" where
  "vmap_table_get_index_by_function t f =
     (case find (\<lambda>i. vm_function (t ! i) = f) [0 ..< length t] of Some i \<Rightarrow> int i | None \<Rightarrow> -1)"

definition vmap_table_reset_pip :: "vmap_table \<Rightarrow> vmap_table" where
  "vmap_table_reset_pip t = map (\<lambda>v. if vm_pip v \<noteq> 0 then v\<lparr>vm_pip := 0\<rparr> else v) t"

fun set_first_pip :: "int \<Rightarrow> vmap_table \<Rightarrow> vmap_table" where
  "set_first_pip f [] = []"
| "set_first_pip f (v # t) = (if vm_function v = f then v\<lparr>vm_pip := 1\<rparr> # t else v # set_first_pip f t)"

definition vmap_table_set_pip_by_function :: "vmap_table \<Rightarrow> int \<Rightarrow> vmap_table" where
  "vmap_table_set_pip_by_function t f = set_first_pip f (vmap_table_reset_pip t)"

text \<open>The register word of the board: bit \<open>i\<close> is set when input \<open>i\<close> of the first five is not an SDI input.\<close>

definition make_reg09_int :: "vmap_table \<Rightarrow> u32" where
  "make_reg09_int t =
     foldl (\<lambda>value i. if vm_cap_id (t ! i) AND 0x10 = 0 then value OR push_bit i 1 else value) 0 [0 ..< 5]"

section \<open>Which videos are marked\<close>

definition pip_marks :: "vmap_table \<Rightarrow> int list" where
  "pip_marks t = map vm_function (filter (\<lambda>v. vm_pip v \<noteq> 0) t)"

lemma reset_pip_fields [simp]:
  "map vm_function (vmap_table_reset_pip t) = map vm_function t"
  "map vm_cap_id (vmap_table_reset_pip t) = map vm_cap_id t" "pip_marks (vmap_table_reset_pip t) = []"
  by (auto simp: vmap_table_reset_pip_def pip_marks_def filter_empty_conv)

lemma set_first_pip_fields:
  "map vm_function (set_first_pip f t) = map vm_function t"
  "map vm_cap_id (set_first_pip f t) = map vm_cap_id t"
  by (induction t) auto

lemma set_first_pip_marks:
  "pip_marks t = [] \<Longrightarrow> pip_marks (set_first_pip f t) = (if f \<in> set (map vm_function t) then [f] else [])"
  by (induction t) (auto simp: pip_marks_def split: if_splits)

lemma set_pip_fields [simp]:
  "map vm_function (vmap_table_set_pip_by_function t f) = map vm_function t"
  "map vm_cap_id (vmap_table_set_pip_by_function t f) = map vm_cap_id t"
  "pip_marks (vmap_table_set_pip_by_function t f) = (if f \<in> set (map vm_function t) then [f] else [])"
  unfolding vmap_table_set_pip_by_function_def
  by (simp_all only: set_first_pip_fields set_first_pip_marks reset_pip_fields)

text \<open>The look-up depends on the functions and the inputs only.\<close>

lemma capid_cong:
  "map vm_function t = map vm_function t' \<Longrightarrow> map vm_cap_id t = map vm_cap_id t' \<Longrightarrow>
   vmap_table_get_capid_by_function t f = vmap_table_get_capid_by_function t' f"
proof (induction t t' rule: list_induct2')
  case (4 x xs y ys)
  then show ?case by (auto simp: vmap_table_get_capid_by_function_def)
qed auto

lemma vmap_init_capids:
  "vmap_table_get_capid_by_function vmap_table_init 1 = 1" "vmap_table_get_capid_by_function vmap_table_init 2 = 2"
  "vmap_table_get_capid_by_function vmap_table_init 3 = 3" "vmap_table_get_capid_by_function vmap_table_init 4 = 4"
  "vmap_table_get_capid_by_function vmap_table_init 5 = 5" "vmap_table_get_capid_by_function vmap_table_init 6 = 11"
  by (simp_all add: vmap_table_get_capid_by_function_def vmap_table_init_def vmap_entry_def upt_rec)

end
