(* ===== verification/Switch_Events.thy ===== *)
theory Switch_Events
  imports Switch_Decision Video_Map Msg_Codec
begin

text \<open>
  How the thread \<^verbatim>\<open>thread_SwitchTracking\<close> (\<^verbatim>\<open>recbcsrv/recbc_srv.c\<close>) drives the director's
  machine: detection events set and reset the element conditions, a tick of the machine may change
  the state, and entering a state sends a switch command to the boards and marks the
  picture-in-picture video. The tracking arithmetic in between is a parameter of the events.
\<close>

section \<open>Events\<close>

text \<open>The counters of the thread and the machine. \<open>vga_duration\<close> is \<^verbatim>\<open>g_cfg.VGADuration\<close>.\<close>

record director =
  fsm :: t_finite_state_machine
  acc_student_lost :: u32
  acc_of_unchange :: u32

definition set_fsm_conditions :: "(bool \<times> nat) list \<Rightarrow> director \<Rightarrow> director" where
  "set_fsm_conditions bcs d = d\<lparr>fsm := (fsm d)\<lparr>fsm_truth_table := set_conditions bcs (fsm_truth_table (fsm d))\<rparr>\<rparr>"

text \<open>A video event, after the tracking has computed how long the teacher has been lost.\<close>

definition vid_conditions :: "bool \<Rightarrow> bool \<Rightarrow> u32 \<Rightarrow> (bool \<times> nat) list" where
  "vid_conditions need_hiden IsMultipleTeacher acc_of_lost =
     (if acc_of_lost = 0 then
        (if \<not> need_hiden then
           (if IsMultipleTeacher
            then [(True, COND_TEACHER_DETECTED_MULTIPLE), (False, COND_TEACHER_DETECTED_ONE)]
            else [(False, COND_TEACHER_DETECTED_MULTIPLE), (True, COND_TEACHER_DETECTED_ONE)])
           @ [(False, COND_TEACHER_DETECTED_NONE)]
         else [(True, COND_TEACHER_DETECTED_NONE), (False, COND_TEACHER_DETECTED_ONE),
               (False, COND_TEACHER_DETECTED_MULTIPLE)])
      else if 3 \<le> acc_of_lost
      then [(True, COND_TEACHER_DETECTED_NONE), (False, COND_TEACHER_DETECTED_ONE),
            (False, COND_TEACHER_DETECTED_MULTIPLE)]
      else [])"

text \<open>An auxiliary event, after the correction of \<open>student_in_standing\<close>.\<close>

definition aux_event :: "u32 \<Rightarrow> director \<Rightarrow> director" where
  "aux_event student_in_standing d =
     (if student_in_standing = 0 then
        (let acc = acc_student_lost d + 1; d1 = d\<lparr>acc_student_lost := acc\<rparr>
         in if acc = 6
            then set_fsm_conditions [(True, COND_STUDENT_STAND_NONE), (False, COND_STUDENT_STAND_ONE),
                   (False, COND_STUDENT_STAND_MULTIPLE)] d1
            else d1)
      else if student_in_standing = 1 then
        set_fsm_conditions [(False, COND_STUDENT_STAND_NONE), (True, COND_STUDENT_STAND_ONE),
          (False, COND_STUDENT_STAND_MULTIPLE)] (d\<lparr>acc_student_lost := 0\<rparr>)
      else
        set_fsm_conditions [(False, COND_STUDENT_STAND_NONE), (False, COND_STUDENT_STAND_ONE),
          (True, COND_STUDENT_STAND_MULTIPLE)] (d\<lparr>acc_student_lost := 0\<rparr>))"

definition vga_event :: "u32 \<Rightarrow> u32 \<Rightarrow> director \<Rightarrow> director" where
  "vga_event vga_duration changed d =
     (if changed = 1 then
        (set_fsm_conditions [(True, COND_VGA_CHG), (False, COND_VGA_UNCHG)] d)\<lparr>acc_of_unchange := 0\<rparr>
      else if changed = 2 then
        set_fsm_conditions [(True, COND_VGA_UNCHG), (False, COND_VGA_CHG)] (d\<lparr>acc_of_unchange := vga_duration\<rparr>)
      else
        (let acc = acc_of_unchange d + 1; d1 = d\<lparr>acc_of_unchange := acc\<rparr>
         in if acc = vga_duration
            then set_fsm_conditions [(True, COND_VGA_UNCHG), (False, COND_VGA_CHG)] d1 else d1))"

text \<open>The thread's set-up, and a \<open>Start\<close> command.\<close>

definition director_init :: "t_transition_table \<Rightarrow> director" where
  "director_init table = \<lparr>fsm = fsm_init setup_truth_table table, acc_student_lost = 0, acc_of_unchange = 0\<rparr>"

definition director_start :: "director \<Rightarrow> director" where
  "director_start d =
     (let d1 = set_fsm_conditions initial_conditions (d\<lparr>acc_student_lost := 0\<rparr>)
      in d1\<lparr>fsm := fsm_set_state (fsm d1) (initial_state (fsm d1))\<rparr>)"

text \<open>A tick, in automatic mode and three seconds after the last transition.\<close>

definition director_tick :: "director \<Rightarrow> (e_fsm_state \<times> director) res" where
  "director_tick d = bind_res (fsm_state_update (fsm d)) (\<lambda>(ret, m). Inr (ret, d\<lparr>fsm := m\<rparr>))"

section \<open>Entering a state\<close>

definition switch_cmd :: "byte list \<Rightarrow> int \<Rightarrow> u32 \<Rightarrow> fifo_add res" where
  "switch_cmd g cap_id pip =
     cmd_add g COMMAND_SWITCHCTRL [Attr_Int ''CaptureId'' (word_of_int cap_id), Attr_Int ''PIP'' pip]"

text \<open>One block of the thread: the message, then the marks; \<open>None\<close> resets them.\<close>

definition switch_to :: "byte list \<Rightarrow> int \<Rightarrow> int option \<Rightarrow> vmap_table \<Rightarrow> (fifo_add list \<times> vmap_table) res" where
  "switch_to g cap_id pip t =
     bind_res (switch_cmd g cap_id (case pip of None \<Rightarrow> 0 | Some _ \<Rightarrow> 1)) (\<lambda>m.
     Inr ([m], case pip of None \<Rightarrow> vmap_table_reset_pip t | Some f \<Rightarrow> vmap_table_set_pip_by_function t f))"

definition enter_state :: "byte list \<Rightarrow> vmap_table \<Rightarrow> e_fsm_state \<Rightarrow> (fifo_add list \<times> vmap_table) res" where
  "enter_state g t ret = (let cap_id = vmap_table_get_capid_by_function t in
     case ret of
       FSM_NOTRANSITION \<Rightarrow> Inr ([], t)
     | FSM_VGA \<Rightarrow> switch_to g VIDEO_FUNCTION_VGA None t
     | FSM_TEACHER_CLOSEUP \<Rightarrow> switch_to g (cap_id VIDEO_FUNCTION_TEACHER_CLOSEUP) None t
     | FSM_STUDENT_CLOSEUP \<Rightarrow> switch_to g (cap_id VIDEO_FUNCTION_STUDENT_CLOSEUP) None t
     | FSM_TEACHER_PANORAMA \<Rightarrow> switch_to g (cap_id VIDEO_FUNCTION_TEACHER_PANORAMA) None t
     | FSM_STUDENT_PANORAMA \<Rightarrow> switch_to g (cap_id VIDEO_FUNCTION_STUDENT_PANORAMA) None t
     | FSM_BOARD_CLOSEUP \<Rightarrow> switch_to g (cap_id VIDEO_FUNCTION_BOARD_CLOSEUP) None t
     | FSM_VGA_PIP_TEACHER_CLOSEUP \<Rightarrow>
         switch_to g VIDEO_FUNCTION_VGA (Some VIDEO_FUNCTION_TEACHER_CLOSEUP) t
     | FSM_TEACHER_CLOSEUP_PIP_STUDENT_CLOSEUP \<Rightarrow>
         switch_to g (cap_id VIDEO_FUNCTION_TEACHER_CLOSEUP) (Some VIDEO_FUNCTION_STUDENT_CLOSEUP) t
     | FSM_BLACKBOARD_PIP_STUDENT_CLOSEUP \<Rightarrow>
         switch_to g (cap_id VIDEO_FUNCTION_BOARD_CLOSEUP) (Some VIDEO_FUNCTION_STUDENT_CLOSEUP) t)"

text \<open>After a \<open>Start\<close> the same for the initial state, but only for the states without picture-in-picture.\<close>

definition enter_start :: "byte list \<Rightarrow> vmap_table \<Rightarrow> e_fsm_state \<Rightarrow> (fifo_add list \<times> vmap_table) res" where
  "enter_start g t ret = (let cap_id = vmap_table_get_capid_by_function t in
     case ret of
       FSM_VGA \<Rightarrow> switch_to g VIDEO_FUNCTION_VGA None t
     | FSM_TEACHER_CLOSEUP \<Rightarrow> switch_to g (cap_id VIDEO_FUNCTION_TEACHER_CLOSEUP) None t
     | FSM_STUDENT_CLOSEUP \<Rightarrow> switch_to g (cap_id VIDEO_FUNCTION_STUDENT_CLOSEUP) None t
     | FSM_TEACHER_PANORAMA \<Rightarrow> switch_to g (cap_id VIDEO_FUNCTION_TEACHER_PANORAMA) None t
     | FSM_STUDENT_PANORAMA \<Rightarrow> switch_to g (cap_id VIDEO_FUNCTION_STUDENT_PANORAMA) None t
     | FSM_BOARD_CLOSEUP \<Rightarrow> switch_to g (cap_id VIDEO_FUNCTION_BOARD_CLOSEUP) None t
     | _ \<Rightarrow> Inr ([], t))"

text \<open>The operator's \<open>SwitchVideo\<close> command.\<close>

definition switch_video :: "byte list \<Rightarrow> vmap_table \<Rightarrow> string \<Rightarrow> (fifo_add list \<times> vmap_table) res" where
  "switch_video g t attr_value = (let cap_id = vmap_table_get_capid_by_function t in
     if attr_value = ''VGA'' then switch_to g VIDEO_FUNCTION_VGA None t
     else if attr_value = ''TeacherSpecial'' then switch_to g (cap_id VIDEO_FUNCTION_TEACHER_CLOSEUP) None t
     else if attr_value = ''StudentSpecial'' then switch_to g (cap_id VIDEO_FUNCTION_STUDENT_CLOSEUP) None t
     else if attr_value = ''TeacherFull'' then switch_to g (cap_id VIDEO_FUNCTION_TEACHER_PANORAMA) None t
     else if attr_value = ''StudentFull'' then switch_to g (cap_id VIDEO_FUNCTION_STUDENT_PANORAMA) None t
     else if attr_value = ''Blackboard'' then switch_to g (cap_id VIDEO_FUNCTION_BOARD_CLOSEUP) None t
     else if attr_value = ''VGAWithTeacherSpecial'' then
       switch_to g VIDEO_FUNCTION_VGA (Some VIDEO_FUNCTION_TEACHER_CLOSEUP) t
     else if attr_value = ''TeacherSpecialWithStudentSpecial'' then
       switch_to g (cap_id VIDEO_FUNCTION_TEACHER_CLOSEUP) (Some VIDEO_FUNCTION_STUDENT_CLOSEUP) t
     else Inr ([], t))"

end
