(* ===== verification/Switch_Director.thy ===== *)
theory Switch_Director
  imports Switch_Events
begin

text \<open>
  The director at work: every run of detection events, starts and ticks keeps exactly one condition of
  each of the four groups true, so a tick is the decision function applied to the situation. With the
  built-in transition table some states cannot be entered, and a change of the VGA signal is shown.
\<close>

section \<open>The runs of the director\<close>

inductive director_step :: "director \<Rightarrow> director \<Rightarrow> bool" where
  vid: "director_step d (set_fsm_conditions (vid_conditions need_hiden IsMultipleTeacher acc_of_lost) d)"
| aux: "director_step d (aux_event student_in_standing d)"
| vga: "director_step d (vga_event vga_duration changed d)"
| start: "director_step d (director_start d)"
| tick: "director_tick d = Inr (ret, d') \<Longrightarrow> director_step d d'"

inductive_cases director_step_elim: "director_step d d'"

definition director_runs :: "t_transition_table \<Rightarrow> director \<Rightarrow> bool" where
  "director_runs table d \<longleftrightarrow> director_step\<^sup>*\<^sup>* (director_init table) d"

text \<open>Nobody writes on the board: the fourth component of the situation is always 0.\<close>

definition in_situation :: "nat \<Rightarrow> nat \<Rightarrow> nat \<Rightarrow> director \<Rightarrow> bool" where
  "in_situation v t s d \<longleftrightarrow> v < 2 \<and> t < 3 \<and> s < 3 \<and> fsm_truth_table (fsm d) = canon (situation v t s 0)"

definition director_inv :: "e_fsm_state \<Rightarrow> t_transition_table \<Rightarrow> director \<Rightarrow> bool" where
  "director_inv i table d \<longleftrightarrow> (\<exists>v t s. in_situation v t s d) \<and> current_state (fsm d) \<noteq> FSM_NOTRANSITION \<and>
     i \<noteq> FSM_NOTRANSITION \<and> initial_state (fsm d) = i \<and> fsm_transition_table (fsm d) = table"

abbreviation director_ok :: "t_transition_table \<Rightarrow> director \<Rightarrow> bool" where
  "director_ok \<equiv> director_inv FSM_TEACHER_PANORAMA"

lemmas director_ok_def = director_inv_def [of FSM_TEACHER_PANORAMA]

section \<open>The events change one group\<close>

lemma set_fsm_fields [simp]:
  "fsm_truth_table (fsm (set_fsm_conditions bcs d)) = set_conditions bcs (fsm_truth_table (fsm d))"
  "current_state (fsm (set_fsm_conditions bcs d)) = current_state (fsm d)"
  "initial_state (fsm (set_fsm_conditions bcs d)) = initial_state (fsm d)"
  "fsm_transition_table (fsm (set_fsm_conditions bcs d)) = fsm_transition_table (fsm d)"
  by (simp_all add: set_fsm_conditions_def)

lemma situation_update:
  assumes "\<forall>bc\<in>set bcs. snd bc < 10"
    and "\<forall>c<10. foldl (\<lambda>v bc. v(snd bc := fst bc)) (situation v t s 0) bcs c = situation v' t' s' 0 c"
  shows "set_conditions bcs (canon (situation v t s 0)) = canon (situation v' t' s' 0)"
  unfolding set_conditions_canon [OF assms(1)] by (rule canon_cong) (use assms(2) in blast)

lemma one_of_2: "(v :: nat) < 2 \<Longrightarrow> v = 0 \<or> v = 1" and one_of_3: "(t :: nat) < 3 \<Longrightarrow> t = 0 \<or> t = 1 \<or> t = 2"
  by linarith+

lemma vga_update:
  assumes "v < 2" and "t < 3" and "s < 3"
  shows "set_conditions [(True, COND_VGA_CHG), (False, COND_VGA_UNCHG)] (canon (situation v t s 0)) = canon (situation 1 t s 0)"
    and "set_conditions [(True, COND_VGA_UNCHG), (False, COND_VGA_CHG)] (canon (situation v t s 0)) = canon (situation 0 t s 0)"
  using assms by (auto intro!: situation_update simp: situation_def split: if_splits)

lemma teacher_update:
  assumes "v < 2" and "t < 3" and "s < 3"
  shows "set_conditions [(True, COND_TEACHER_DETECTED_MULTIPLE), (False, COND_TEACHER_DETECTED_ONE),
           (False, COND_TEACHER_DETECTED_NONE)] (canon (situation v t s 0)) = canon (situation v 2 s 0)"
    and "set_conditions [(False, COND_TEACHER_DETECTED_MULTIPLE), (True, COND_TEACHER_DETECTED_ONE),
           (False, COND_TEACHER_DETECTED_NONE)] (canon (situation v t s 0)) = canon (situation v 1 s 0)"
    and "set_conditions [(True, COND_TEACHER_DETECTED_NONE), (False, COND_TEACHER_DETECTED_ONE),
           (False, COND_TEACHER_DETECTED_MULTIPLE)] (canon (situation v t s 0)) = canon (situation v 0 s 0)"
  using assms by (auto intro!: situation_update simp: situation_def split: if_splits)

lemma student_update:
  assumes "v < 2" and "t < 3" and "s < 3"
  shows "set_conditions [(True, COND_STUDENT_STAND_NONE), (False, COND_STUDENT_STAND_ONE),
           (False, COND_STUDENT_STAND_MULTIPLE)] (canon (situation v t s 0)) = canon (situation v t 0 0)"
    and "set_conditions [(False, COND_STUDENT_STAND_NONE), (True, COND_STUDENT_STAND_ONE),
           (False, COND_STUDENT_STAND_MULTIPLE)] (canon (situation v t s 0)) = canon (situation v t 1 0)"
    and "set_conditions [(False, COND_STUDENT_STAND_NONE), (False, COND_STUDENT_STAND_ONE),
           (True, COND_STUDENT_STAND_MULTIPLE)] (canon (situation v t s 0)) = canon (situation v t 2 0)"
  using assms by (auto intro!: situation_update simp: situation_def split: if_splits)

text \<open>What each event does to the situation.\<close>

lemma vid_situation:
  assumes "in_situation v t s d"
  shows "in_situation v (if lost = 0 then (if hide then 0 else if many then 2 else 1) else if 3 \<le> lost then 0 else t) s
    (set_fsm_conditions (vid_conditions hide many lost) d)"
  using assms teacher_update [of v t s] by (simp add: in_situation_def vid_conditions_def set_conditions_def)

lemma aux_situation:
  assumes "in_situation v t s d"
  shows "in_situation v t (if n = 0 then (if acc_student_lost d + 1 = 6 then 0 else s) else if n = 1 then 1 else 2)
    (aux_event n d)"
  using assms student_update [of v t s] by (simp add: in_situation_def aux_event_def Let_def)

lemma vga_situation:
  assumes "in_situation v t s d"
  shows "in_situation (if ch = 1 then 1 else if ch = 2 \<or> acc_of_unchange d + 1 = dur then 0 else v) t s (vga_event dur ch d)"
  using assms vga_update [of v t s] by (simp add: in_situation_def vga_event_def Let_def)

lemma start_situation:
  assumes "in_situation v t s d"
  shows "in_situation 0 0 0 (director_start d)"
  using assms set_initial [of "situation v t s 0"] canon_cong [of "\<lambda>c. if c < 10 then situation 0 0 0 0 c else _ c"]
  by (simp add: in_situation_def director_start_def Let_def fsm_set_state_def)

lemma tick_situation:
  assumes "in_situation v t s d" and "current_state (fsm d) \<noteq> FSM_NOTRANSITION"
  shows "director_tick d = Inr (let ret = decide (fsm_transition_table (fsm d) (current_state (fsm d))) v t s 0
     in (ret, if ret = FSM_NOTRANSITION then d else d\<lparr>fsm := (fsm d)\<lparr>current_state := ret\<rparr>\<rparr>))"
proof -
  have "\<not> fsm_state_num (current_state (fsm d)) < 0" using assms(2) by (cases "current_state (fsm d)") simp_all
  moreover have "d\<lparr>fsm := fsm d\<rparr> = d" by simp
  ultimately show ?thesis
    using assms(1) scan_situation [of v t s 0]
    by (simp add: director_tick_def fsm_state_update_def in_situation_def Let_def del: upt_Suc upt_rec_numeral)
qed

section \<open>The invariant\<close>

lemma init_situation: "in_situation 0 0 0 (director_init table)"
  by (simp add: in_situation_def director_init_def fsm_init_def setup_canon)

lemma aux_event_fields [simp]:
  "current_state (fsm (aux_event n d)) = current_state (fsm d)"
  "initial_state (fsm (aux_event n d)) = initial_state (fsm d)"
  "fsm_transition_table (fsm (aux_event n d)) = fsm_transition_table (fsm d)"
  by (simp_all add: aux_event_def Let_def)

lemma vga_event_fields [simp]:
  "current_state (fsm (vga_event dur ch d)) = current_state (fsm d)"
  "initial_state (fsm (vga_event dur ch d)) = initial_state (fsm d)"
  "fsm_transition_table (fsm (vga_event dur ch d)) = fsm_transition_table (fsm d)"
  by (simp_all add: vga_event_def Let_def)

lemma start_fields [simp]:
  "current_state (fsm (director_start d)) = initial_state (fsm d)"
  "initial_state (fsm (director_start d)) = initial_state (fsm d)"
  "fsm_transition_table (fsm (director_start d)) = fsm_transition_table (fsm d)"
  by (simp_all add: director_start_def Let_def fsm_set_state_def)

lemma director_invI:
  "in_situation v t s d \<Longrightarrow> current_state (fsm d) \<noteq> FSM_NOTRANSITION \<Longrightarrow>
   i \<noteq> FSM_NOTRANSITION \<Longrightarrow> initial_state (fsm d) = i \<Longrightarrow> fsm_transition_table (fsm d) = table \<Longrightarrow> director_inv i table d"
  unfolding director_inv_def by blast

lemma tick_inv:
  assumes "director_inv i table d" and "director_tick d = Inr (ret, d')"
  obtains v t s where "in_situation v t s d" "in_situation v t s d'"
    "ret = decide (table (current_state (fsm d))) v t s 0"
    "current_state (fsm d') = (if ret = FSM_NOTRANSITION then current_state (fsm d) else ret)"
    "initial_state (fsm d') = i" "fsm_transition_table (fsm d') = table"
proof -
  obtain v t s where S: "in_situation v t s d" "current_state (fsm d) \<noteq> FSM_NOTRANSITION"
    "i \<noteq> FSM_NOTRANSITION" "initial_state (fsm d) = i" "fsm_transition_table (fsm d) = table"
    using assms(1) unfolding director_inv_def by blast
  have "ret = decide (table (current_state (fsm d))) v t s 0"
    and d': "d' = (if ret = FSM_NOTRANSITION then d else d\<lparr>fsm := (fsm d)\<lparr>current_state := ret\<rparr>\<rparr>)"
    using tick_situation [OF S(1,2)] assms(2) S(5) by (simp_all add: Let_def)
  then show thesis using S by (intro that [of v t s]) (auto simp: in_situation_def)
qed

lemma director_step_inv:
  assumes "director_step d d'" and "director_inv i table d"
  shows "director_inv i table d'"
proof -
  obtain v t s where S: "in_situation v t s d" "current_state (fsm d) \<noteq> FSM_NOTRANSITION"
    "i \<noteq> FSM_NOTRANSITION" "initial_state (fsm d) = i" "fsm_transition_table (fsm d) = table"
    using assms(2) unfolding director_inv_def by blast
  show ?thesis using assms(1)
  proof cases
    case (vid hide many lost)
    show ?thesis unfolding vid by (rule director_invI [OF vid_situation [OF S(1)]]) (simp_all add: S)
  next
    case (aux n)
    show ?thesis unfolding aux by (rule director_invI [OF aux_situation [OF S(1)]]) (simp_all add: S)
  next
    case (vga dur ch)
    show ?thesis unfolding vga by (rule director_invI [OF vga_situation [OF S(1)]]) (simp_all add: S)
  next
    case start
    show ?thesis unfolding start by (rule director_invI [OF start_situation [OF S(1)]]) (simp_all add: S)
  next
    case (tick ret)
    obtain v t s where "in_situation v t s d'"
      "current_state (fsm d') = (if ret = FSM_NOTRANSITION then current_state (fsm d) else ret)"
      "initial_state (fsm d') = i" "fsm_transition_table (fsm d') = table"
      by (rule tick_inv [OF assms(2) tick])
    then show ?thesis using S(2,3) by (intro director_invI) (auto split: if_splits)
  qed
qed

lemmas director_okI = director_invI [of _ _ _ _ FSM_TEACHER_PANORAMA, simplified]
lemmas tick_ok = tick_inv [of FSM_TEACHER_PANORAMA]
lemmas director_step_ok = director_step_inv [of _ _ FSM_TEACHER_PANORAMA]

lemma runs_induct [consumes 1, case_names init step]:
  assumes "director_runs table d" and "P (director_init table)"
    and "\<And>d d'. director_runs table d \<Longrightarrow> P d \<Longrightarrow> director_step d d' \<Longrightarrow> P d'"
  shows "P d"
  using assms(1) unfolding director_runs_def
proof (induction rule: rtranclp_induct)
  case (step d d')
  then show ?case using assms(3) [of d d'] by (simp add: director_runs_def)
qed (rule assms(2))

lemma runs_ok: "director_runs table d \<Longrightarrow> director_ok table d"
proof (induction rule: runs_induct)
  case init
  show ?case by (rule director_okI [OF init_situation]) (simp_all add: director_init_def fsm_init_def)
qed (rule director_step_ok)

section \<open>The built-in transition table\<close>

definition situations :: "(nat \<times> nat \<times> nat) list" where
  "situations = List.product [0, 1] (List.product [0, 1, 2] [0, 1, 2])"

lemma in_situations: "v < 2 \<Longrightarrow> t < 3 \<Longrightarrow> s < 3 \<Longrightarrow> (v, t, s) \<in> set situations"
  unfolding situations_def set_product by (intro SigmaI) auto

definition check_row :: "(e_fsm_state \<Rightarrow> nat \<Rightarrow> nat \<Rightarrow> nat \<Rightarrow> e_fsm_state \<Rightarrow> bool) \<Rightarrow> e_fsm_state \<Rightarrow> bool" where
  "check_row P st = (let row = transition_table_init st
     in list_all (\<lambda>(v, t, s). P st v t s (decide row v t s 0)) situations)"

lemma check_rowD:
  assumes "check_row P st" and "v < 2" and "t < 3" and "s < 3"
  shows "P st v t s (decide (transition_table_init st) v t s 0)"
proof -
  have "\<forall>x\<in>set situations. case x of (v, t, s) \<Rightarrow> P st v t s (decide (transition_table_init st) v t s 0)"
    using assms(1) unfolding check_row_def Let_def list_all_iff .
  then show ?thesis using bspec [OF _ in_situations [OF assms(2-4)]] by blast
qed

text \<open>Does the state show the VGA signal, and does it show the board?\<close>

definition shows_vga :: "e_fsm_state \<Rightarrow> bool" where
  "shows_vga st \<longleftrightarrow> st = FSM_VGA \<or> st = FSM_VGA_PIP_TEACHER_CLOSEUP"

definition shows_board :: "e_fsm_state \<Rightarrow> bool" where
  "shows_board st \<longleftrightarrow> st = FSM_BOARD_CLOSEUP \<or> st = FSM_BLACKBOARD_PIP_STUDENT_CLOSEUP"

definition row_ok :: "e_fsm_state \<Rightarrow> nat \<Rightarrow> nat \<Rightarrow> nat \<Rightarrow> e_fsm_state \<Rightarrow> bool" where
  "row_ok st v t s n \<longleftrightarrow> n \<noteq> st \<and> \<not> shows_board n \<and>
     (v = 1 \<longrightarrow> shows_vga (if n = FSM_NOTRANSITION then st else n))"

text \<open>A row as a finite map.\<close>

definition look :: "(nat \<times> e_fsm_state) list \<Rightarrow> nat \<Rightarrow> e_fsm_state" where
  "look as c = (case map_of as c of None \<Rightarrow> FSM_NOTRANSITION | Some n \<Rightarrow> n)"

lemma assign_row_nth:
  "c < COND_MAX \<Longrightarrow> assign_row as ! c = (case map_of (rev as) c of None \<Rightarrow> FSM_NOTRANSITION | Some n \<Rightarrow> n)"
proof -
  assume c: "c < COND_MAX"
  have "length (foldl (\<lambda>row (c, n). row[c := n]) row as) = length row" for row :: "e_fsm_state list"
    by (induction as arbitrary: row) auto
  then show ?thesis
    using c unfolding assign_row_def
    by (induction as rule: rev_induct) (auto simp: nth_list_update split: option.splits)
qed

lemma map_of_rev: "distinct (map fst as) \<Longrightarrow> map_of (rev as) = map_of as"
  by (rule map_of_eqI) (auto simp: rev_map [symmetric] map_of_eq_Some_iff)

lemma assign_row_look: "distinct (map fst as) \<Longrightarrow> assign_row as = map (look as) [0 ..< COND_MAX]"
proof (rule nth_equalityI)
  have "length (foldl (\<lambda>row (c, n). row[c := n]) row as) = length row" for row :: "e_fsm_state list"
    by (induction as arbitrary: row) auto
  then show l: "length (assign_row as) = length (map (look as) [0 ..< COND_MAX])"
    by (simp add: assign_row_def)
  fix c assume "distinct (map fst as)" "c < length (assign_row as)"
  then show "assign_row as ! c = map (look as) [0 ..< COND_MAX] ! c"
    using assign_row_nth [of c as] l by (simp add: look_def map_of_rev del: upt_rec_numeral)
qed

lemmas row_defs = check_row_def transition_table_init.simps Let_def

lemmas row_eval = situations_def decide_def comb_index_def row_ok_def shows_vga_def shows_board_def

lemma row_vga: "check_row row_ok FSM_VGA"
proof -
  obtain row where row: "row = map (look assign_FSM_VGA) [0 ..< COND_MAX]" by blast
  note lit = row [unfolded look_def assign_FSM_VGA_def, simplified]
  have "assign_row assign_FSM_VGA = row"
    unfolding row by (rule assign_row_look) (simp add: assign_FSM_VGA_def)
  then show ?thesis unfolding row_defs by (simp add: lit row_eval)
qed

lemma row_teacher_closeup: "check_row row_ok FSM_TEACHER_CLOSEUP"
proof -
  obtain row where row: "row = map (look assign_FSM_TEACHER_CLOSEUP) [0 ..< COND_MAX]" by blast
  note lit = row [unfolded look_def assign_FSM_TEACHER_CLOSEUP_def, simplified]
  have "assign_row assign_FSM_TEACHER_CLOSEUP = row"
    unfolding row by (rule assign_row_look) (simp add: assign_FSM_TEACHER_CLOSEUP_def)
  then show ?thesis unfolding row_defs by (simp add: lit row_eval)
qed

lemma row_student_closeup: "check_row row_ok FSM_STUDENT_CLOSEUP"
proof -
  obtain row where row: "row = map (look assign_FSM_STUDENT_CLOSEUP) [0 ..< COND_MAX]" by blast
  note lit = row [unfolded look_def assign_FSM_STUDENT_CLOSEUP_def, simplified]
  have "assign_row assign_FSM_STUDENT_CLOSEUP = row"
    unfolding row by (rule assign_row_look) (simp add: assign_FSM_STUDENT_CLOSEUP_def)
  then show ?thesis unfolding row_defs by (simp add: lit row_eval)
qed

lemma row_teacher_panorama: "check_row row_ok FSM_TEACHER_PANORAMA"
proof -
  obtain row where row: "row = map (look assign_FSM_TEACHER_PANORAMA) [0 ..< COND_MAX]" by blast
  note lit = row [unfolded look_def assign_FSM_TEACHER_PANORAMA_def, simplified]
  have "assign_row assign_FSM_TEACHER_PANORAMA = row"
    unfolding row by (rule assign_row_look) (simp add: assign_FSM_TEACHER_PANORAMA_def)
  then show ?thesis unfolding row_defs by (simp add: lit row_eval)
qed

lemma row_student_panorama: "check_row row_ok FSM_STUDENT_PANORAMA"
proof -
  obtain row where row: "row = map (look assign_FSM_STUDENT_PANORAMA) [0 ..< COND_MAX]" by blast
  note lit = row [unfolded look_def assign_FSM_STUDENT_PANORAMA_def, simplified]
  have "assign_row assign_FSM_STUDENT_PANORAMA = row"
    unfolding row by (rule assign_row_look) (simp add: assign_FSM_STUDENT_PANORAMA_def)
  then show ?thesis unfolding row_defs by (simp add: lit row_eval)
qed

lemma row_vga_pip_teacher_closeup: "check_row row_ok FSM_VGA_PIP_TEACHER_CLOSEUP"
proof -
  obtain row where row: "row = map (look assign_FSM_VGA_PIP_TEACHER_CLOSEUP) [0 ..< COND_MAX]" by blast
  note lit = row [unfolded look_def assign_FSM_VGA_PIP_TEACHER_CLOSEUP_def, simplified]
  have "assign_row assign_FSM_VGA_PIP_TEACHER_CLOSEUP = row"
    unfolding row by (rule assign_row_look) (simp add: assign_FSM_VGA_PIP_TEACHER_CLOSEUP_def)
  then show ?thesis unfolding row_defs by (simp add: lit row_eval)
qed

lemma row_teacher_closeup_pip_student_closeup: "check_row row_ok FSM_TEACHER_CLOSEUP_PIP_STUDENT_CLOSEUP"
proof -
  obtain row where row: "row = map (look assign_FSM_TEACHER_CLOSEUP_PIP_STUDENT_CLOSEUP) [0 ..< COND_MAX]" by blast
  note lit = row [unfolded look_def assign_FSM_TEACHER_CLOSEUP_PIP_STUDENT_CLOSEUP_def, simplified]
  have "assign_row assign_FSM_TEACHER_CLOSEUP_PIP_STUDENT_CLOSEUP = row"
    unfolding row by (rule assign_row_look) (simp add: assign_FSM_TEACHER_CLOSEUP_PIP_STUDENT_CLOSEUP_def)
  then show ?thesis unfolding row_defs by (simp add: lit row_eval)
qed

lemma all_rows: "st \<noteq> FSM_NOTRANSITION \<Longrightarrow> \<not> shows_board st \<Longrightarrow> check_row row_ok st"
  using row_vga row_teacher_closeup row_student_closeup row_teacher_panorama row_student_panorama
    row_vga_pip_teacher_closeup row_teacher_closeup_pip_student_closeup
  by (cases st) (simp_all add: shows_board_def)

lemma runs_no_board: "director_runs transition_table_init d \<Longrightarrow> \<not> shows_board (current_state (fsm d))"
proof (induction rule: runs_induct)
  case init
  show ?case by (simp add: director_init_def fsm_init_def shows_board_def)
next
  case (step d d')
  have ok: "director_ok transition_table_init d" using step.hyps(1) by (rule runs_ok)
  show ?case using step.hyps(2)
  proof cases
    case (tick ret)
    obtain v t s where S: "in_situation v t s d" "ret = decide (transition_table_init (current_state (fsm d))) v t s 0"
      "current_state (fsm d') = (if ret = FSM_NOTRANSITION then current_state (fsm d) else ret)"
      by (rule tick_ok [OF ok tick])
    have "row_ok (current_state (fsm d)) v t s ret"
      unfolding S(2) using ok step.IH S(1)
      by (intro check_rowD [OF all_rows]) (auto simp: director_ok_def in_situation_def)
    then show ?thesis using step.IH S(3) by (simp add: row_ok_def)
  next
    case start
    then show ?thesis using ok by (simp add: director_ok_def shows_board_def)
  qed (use step.IH in simp_all)
qed

end
