(* ===== verification/Detect_Result.thy ===== *)
theory Detect_Result
  imports Msg_Codec
begin

text \<open>
  The analysis results (\<^verbatim>\<open>recbcsrv/recbc_srv.c\<close>): \<^verbatim>\<open>EventVID2df\<close> encodes what the image analysis
  found, \<^verbatim>\<open>GetDetectResult\<close>, \<^verbatim>\<open>GetVGAResult\<close> and \<^verbatim>\<open>GetAuxResult\<close> decode the events of the core
  boards, \<^verbatim>\<open>byte2int\<close> reads a camera position. The lemmas state the round trip of the detection
  event and what each decoder returns for every well formed event.
\<close>

section \<open>byte2int\<close>

text \<open>\<open>char\<close> is a signed type of the target: each byte is sign extended before it is or-ed in.\<close>

definition schar :: "byte \<Rightarrow> u32" where
  "schar b = (let n = of_char b :: nat in if n < 128 then of_nat n else of_nat n - 256)"

definition byte2int :: "byte list \<Rightarrow> u32 res" where
  "byte2int buf =
     bind_res (mem_read buf 0 4) (\<lambda>bs.
     let result = foldl (\<lambda>r b. push_bit 4 r OR schar b) 0 bs
     in Inr (if result AND 0x8000 \<noteq> 0 then result OR 0xffff0000 else result))"

text \<open>The low sixteen bits of a position as four nibble bytes, as the camera sends them.\<close>

definition nibbles :: "nat \<Rightarrow> byte list" where
  "nibbles n = map (\<lambda>d. char_of (d mod 16)) [n div 4096, n div 256, n div 16, n]"

lemma schar_nibble: "d < 16 \<Longrightarrow> schar (char_of d) = of_nat d"
  by (simp add: schar_def Let_def)

lemma schar_mod: "schar (char_of (d mod 16)) = of_nat (d mod 16)"
  by (rule schar_nibble) simp

lemma foldl_nibbles:
  assumes "n < 65536"
  shows "foldl (\<lambda>r b. push_bit 4 r OR schar b) 0 (nibbles n) = of_nat n"
proof -
  have step: "push_bit 4 (of_nat (n div (16 * k)) :: u32) OR of_nat (n div k mod 16) = of_nat (n div k)"
    for k :: nat
  proof -
    have "16 * (n div (16 * k)) + n div k mod 16 = n div k"
      using mult_div_mod_eq [of 16 "n div k"] by (simp add: div_mult2_eq mult.commute)
    then show ?thesis by (simp only: horner_step mod_less_divisor zero_less_numeral)
  qed
  have t: "schar (char_of (n div 4096)) = of_nat (n div 4096)"
    using assms by (intro schar_nibble) simp
  show ?thesis
    using step [of 256] step [of 16] step [of 1]
    by (simp add: nibbles_def schar_mod t push_bit_or_u32 [symmetric] less_mult_imp_div_less assms
        flip: push_bit_push_bit)
qed

lemma bit15: "m < 65536 \<Longrightarrow> ((of_nat m :: u32) AND 0x8000 \<noteq> 0) = (32768 \<le> m)"
proof -
  assume m: "m < 65536"
  have "(0x8000 :: u32) = push_bit 15 1" by simp
  then have "((of_nat m :: u32) AND 0x8000 \<noteq> 0) = bit (of_nat m :: u32) 15"
    by (metis and_exp_eq_0_iff_not_bit push_bit_of_1)
  also have "\<dots> = bit m 15" by (simp add: bit_simps)
  also have "m div 32768 = (if 32768 \<le> m then 1 else 0)"
    using m by (auto intro!: div_nat_eqI)
  then have "bit m 15 = (32768 \<le> m)" by (simp add: bit_iff_odd)
  finally show ?thesis .
qed

lemma or_high: "m < 65536 \<Longrightarrow> (of_nat m :: u32) OR 0xffff0000 = of_nat m - 65536"
proof -
  assume m: "m < 65536"
  have h: "(0xffff0000 :: u32) = push_bit 16 (mask 16)"
    by (simp add: mask_eq_exp_minus_1 push_bit_eq_mult)
  have "\<not> bit (of_nat m :: u32) k \<or> \<not> bit (0xffff0000 :: u32) k" for k
  proof (cases "16 \<le> k")
    case True
    then have "\<not> bit m k"
      using m bit_take_bit_iff [of 16 m k] take_bit_nat_eq_self [of m 16] by simp
    then show ?thesis by (simp only: bit_of_nat_iff) simp
  next
    case False
    then show ?thesis by (simp only: h bit_push_bit_iff) simp
  qed
  then have "(of_nat m :: u32) + 0xffff0000 = of_nat m OR 0xffff0000"
    by (rule disjunctive_add)
  then have "(of_nat m :: u32) OR 0xffff0000 = of_nat m + 0xffff0000"
    by (rule sym)
  then show ?thesis by simp
qed

text \<open>Every position of a 16 bit signed encoder is read back as itself.\<close>

lemma byte2int_nibbles:
  assumes "-32768 \<le> v" and "v < 32768"
  shows "byte2int (nibbles (nat (v mod 65536)) @ rest) = Inr (word_of_int v)"
proof -
  define m where "m = nat (v mod 65536)"
  have m: "m < 65536" by (simp add: m_def nat_less_iff)
  have r: "mem_read (nibbles m @ rest) 0 4 = Inr (nibbles m)"
    by (simp add: mem_read_def nibbles_def)
  have e: "byte2int (nibbles m @ rest)
      = Inr (if 32768 \<le> m then of_nat m - 65536 else of_nat m)"
    unfolding byte2int_def r bind_res.simps foldl_nibbles [OF m] Let_def
    by (simp only: bit15 [OF m] or_high [OF m])
  have "word_of_int v = (if 32768 \<le> m then of_nat m - 65536 else (of_nat m :: u32))"
  proof (cases "0 \<le> v")
    case True
    then have "v mod 65536 = v" using assms by simp
    then have "int m = v" using True by (simp add: m_def)
    then have v: "v = int m" by simp
    have "m < 32768" using v assms(2) by linarith
    then show ?thesis by (simp add: v)
  next
    case False
    then have "v mod 65536 = v + 65536"
      using assms mod_pos_pos_trivial [of "v + 65536" 65536] by simp
    then have "int m = v + 65536" using assms by (simp add: m_def)
    then have v: "v = int m - 65536" by simp
    have "32768 \<le> m" using v assms(1) by linarith
    then show ?thesis by (simp add: v)
  qed
  then show ?thesis using e unfolding m_def by simp
qed

section \<open>The detection event\<close>

record t_DetectResult =
  detected :: u32
  avg_top :: u32
  avg_left :: u32
  avg_bottom :: u32
  avg_right :: u32
  max_top :: u32
  max_left :: u32
  max_bottom :: u32
  max_right :: u32

text \<open>\<open>EventVID2df(df, PtrInt)\<close>: the nine \<open>int\<close>s of the analyser, the frame added to \<open>df\<close>.\<close>

fun event_vid_calls :: "u32 list \<Rightarrow> attr_call list" where
  "event_vid_calls [rect, AvgTop, AvgLeft, AvgBottom, AvgRight, MaxTop, MaxLeft, MaxBottom, MaxRight] =
     (if 0 <s rect then
        [Attr_Int ''Detected'' 1,
         Attr_Int ''AvgTop'' AvgTop, Attr_Int ''AvgLeft'' AvgLeft,
         Attr_Int ''AvgBottom'' AvgBottom, Attr_Int ''AvgRight'' AvgRight,
         Attr_Int ''MaxTop'' MaxTop, Attr_Int ''MaxLeft'' MaxLeft,
         Attr_Int ''MaxBottom'' MaxBottom, Attr_Int ''MaxRight'' MaxRight]
      else [Attr_Int ''Detected'' 0])"
| "event_vid_calls _ = []"

definition EventVID2df :: "byte list \<Rightarrow> u32 list \<Rightarrow> fifo_add res" where
  "EventVID2df g PtrInt =
     (if length PtrInt < 9 then Inl Out_Of_Bounds
      else cmd_add g COMMAND_EVENT_VID (event_vid_calls (take 9 PtrInt)))"

text \<open>
  \<open>char2hex(attr_value, &field, value_len)\<close>: a value of more than eight characters leaves the
  field as it was.
\<close>

definition hex_field :: "byte list \<Rightarrow> u32 \<Rightarrow> u32" where
  "hex_field value old = (if 8 < length value then old else hex_value value 0)"

lemma hex_field_char2hex:
  "char2hex (value @ NUL # junk) (length value) = Inr (if 8 < length value then None
     else Some (hex_field value old))"
  using char2hex_eq [of "length value" "value @ NUL # junk"]
  by (simp add: hex_field_def char2hex_def)

definition detect_attr :: "t_DetectResult \<Rightarrow> byte list \<Rightarrow> byte list \<Rightarrow> t_DetectResult res" where
  "detect_attr r name value = (let attr_name = c_str name in Inr
     (if attr_name = ''Detected'' then r\<lparr>detected := hex_field value (detected r)\<rparr>
      else if attr_name = ''AvgTop'' then r\<lparr>avg_top := hex_field value (avg_top r)\<rparr>
      else if attr_name = ''AvgLeft'' then r\<lparr>avg_left := hex_field value (avg_left r)\<rparr>
      else if attr_name = ''AvgBottom'' then r\<lparr>avg_bottom := hex_field value (avg_bottom r)\<rparr>
      else if attr_name = ''AvgRight'' then r\<lparr>avg_right := hex_field value (avg_right r)\<rparr>
      else if attr_name = ''MaxTop'' then r\<lparr>max_top := hex_field value (max_top r)\<rparr>
      else if attr_name = ''MaxLeft'' then r\<lparr>max_left := hex_field value (max_left r)\<rparr>
      else if attr_name = ''MaxBottom'' then r\<lparr>max_bottom := hex_field value (max_bottom r)\<rparr>
      else if attr_name = ''MaxRight'' then r\<lparr>max_right := hex_field value (max_right r)\<rparr>
      else r))"

abbreviation (input) detect_zero :: t_DetectResult where
  "detect_zero \<equiv> \<lparr>detected = 0, avg_top = 0, avg_left = 0, avg_bottom = 0, avg_right = 0,
     max_top = 0, max_left = 0, max_bottom = 0, max_right = 0\<rparr>"

definition GetDetectResult :: "byte list \<Rightarrow> t_DetectResult res" where
  "GetDetectResult Msg = scan_msg 16 16 Msg detect_attr detect_zero"

text \<open>The \<open>%x\<close> text of an \<open>int\<close> has one to eight digits and is read back as the same bits.\<close>

lemma hex_field_sprintf [simp]: "hex_field (sprintf_x 1 (unat v)) old = v"
  using length_sprintf_u32 [of v] by (simp add: hex_field_def hex_value_sprintf)

lemmas hex_field_sprintf_Suc [simp] = hex_field_sprintf [unfolded One_nat_def]

text \<open>The attributes the analysis events carry: short names, values of at most eight characters.\<close>

definition int_attr :: "string \<times> byte list \<Rightarrow> bool" where
  "int_attr a \<longleftrightarrow> length (fst a) \<le> 9 \<and> length (snd a) \<le> 8"

lemma int_attr_call [simp]: "int_attr (call_attr (Attr_Int n v)) \<longleftrightarrow> length n \<le> 9"
  using length_sprintf_u32 [of v] by (simp add: int_attr_def)

lemma int_attr_fits: "int_attr a \<Longrightarrow> fits 16 16 a"
  by (simp add: int_attr_def fits_def short_attr_def)

lemma int_attr_length: "int_attr a \<Longrightarrow> length (encode_attr a) \<le> 22"
  by (subst length_encode_attr) (simp_all add: int_attr_def short_attr_def)

lemma length_encode_int:
  "length n < 16 \<Longrightarrow> length (encode_attr (n, sprintf_x 1 (unat (v :: u32)))) \<le> 13 + length n"
  using length_sprintf_u32 [of v]
  by (subst length_encode_attr) (simp_all add: short_attr_def)

lemma length_encode_attrs_le:
  "\<forall>a\<in>set as. length (encode_attr a) \<le> k \<Longrightarrow> length (encode_attrs as) \<le> k * length as"
  by (induction as) (auto simp del: encode_attr.simps)

lemma event_vid_int: "\<forall>a\<in>set (map call_attr (event_vid_calls xs)). int_attr a"
  by (cases xs rule: event_vid_calls.cases) (auto simp del: call_attr.simps)

lemma event_vid_short: "length (encode_attrs (map call_attr (event_vid_calls xs))) \<le> 198"
proof -
  have "length (event_vid_calls xs) \<le> 9"
    by (cases xs rule: event_vid_calls.cases) auto
  then show ?thesis
    using length_encode_attrs_le [of "map call_attr (event_vid_calls xs)" 22]
      event_vid_int [of xs] int_attr_length by fastforce
qed

lemma EventVID2df_correct:
  assumes "length g = CMD_BUFSIZE" and "length xs = 9"
  shows "EventVID2df g xs = Inr (msg_add COMMAND_EVENT_VID (map call_attr (event_vid_calls xs)))"
proof -
  have "cmd_add g COMMAND_EVENT_VID (event_vid_calls xs)
      = Inr (msg_add COMMAND_EVENT_VID (map call_attr (event_vid_calls xs)))"
    using assms event_vid_short [of xs] event_vid_int [of xs] int_attr_fits
    by (intro cmd_add_correct) (auto simp: fits_def)
  then show ?thesis using assms by (simp add: EventVID2df_def)
qed

lemma GetDetectResult_msg:
  "GetDetectResult (make_msg COMMAND_EVENT_VID (map call_attr (event_vid_calls xs)) @ rest)
     = fold_res (\<lambda>s (n, v). detect_attr s n v) detect_zero (map call_attr (event_vid_calls xs))"
  unfolding GetDetectResult_def
  using event_vid_short [of xs] event_vid_int [of xs] int_attr_fits by (intro scan_make_msg) auto

section \<open>The VGA event\<close>

definition vga_attr :: "u32 \<Rightarrow> byte list \<Rightarrow> byte list \<Rightarrow> u32 res" where
  "vga_attr changed name value =
     (let attr_value = c_str value in
      Inr (if attr_value = ''1'' then 1 else if attr_value = ''2'' then 2 else 0))"

definition GetVGAResult :: "u32 \<Rightarrow> byte list \<Rightarrow> u32 res" where
  "GetVGAResult changed Msg = scan_msg 16 2 Msg vga_attr changed"

section \<open>The student standing event\<close>

record t_aux_camera_param =
  target_num :: u32
  aux_top :: u32
  aux_left :: u32
  aux_bottom :: u32
  aux_right :: u32

record t_aux_result =
  aux :: "t_aux_camera_param list"
  student_in_standing :: u32

text \<open>\<open>char2hex(attr_value, &result->aux[channel].f, value_len)\<close> with the array bounds.\<close>

definition aux_field ::
    "((u32 \<Rightarrow> u32) \<Rightarrow> t_aux_camera_param \<Rightarrow> t_aux_camera_param) \<Rightarrow> byte list \<Rightarrow>
     u32 \<times> t_aux_result \<Rightarrow> (u32 \<times> t_aux_result) res" where
  "aux_field upd value = (\<lambda>(channel, r).
     if 8 < length value then Inr (channel, r)
     else if unat channel < length (aux r)
       then Inr (channel, r\<lparr>aux := (aux r)[unat channel :=
              upd (\<lambda>_. hex_value value 0) (aux r ! unat channel)]\<rparr>)
       else Inl Buffer_Overflow)"

definition aux_attr ::
    "u32 \<times> t_aux_result \<Rightarrow> byte list \<Rightarrow> byte list \<Rightarrow> (u32 \<times> t_aux_result) res" where
  "aux_attr s name value = (let attr_name = c_str name in
     if attr_name = ''Channel'' then Inr (hex_field value (fst s), snd s)
     else if attr_name = ''Targets'' then aux_field target_num_update value s
     else if attr_name = ''MaxTop'' then aux_field aux_top_update value s
     else if attr_name = ''MaxLeft'' then aux_field aux_left_update value s
     else if attr_name = ''MaxBottom'' then aux_field aux_bottom_update value s
     else if attr_name = ''MaxRight'' then aux_field aux_right_update value s
     else Inr s)"

definition aux_standing :: "t_aux_camera_param \<Rightarrow> t_aux_camera_param \<Rightarrow> u32" where
  "aux_standing a b =
     (if target_num a * target_num b = 0 then 0
      else if target_num a * target_num b = 1 then
        (if 240 <s aux_right a - aux_left a \<and> 240 <s aux_right b - aux_left b then 2 else 1)
      else 2)"

abbreviation (input) aux_zero :: t_aux_camera_param where
  "aux_zero \<equiv> \<lparr>target_num = 0, aux_top = 0, aux_left = 0, aux_bottom = 0, aux_right = 0\<rparr>"

definition GetAuxResult :: "byte list \<Rightarrow> t_aux_result res" where
  "GetAuxResult Msg =
     bind_res (scan_msg 16 16 Msg aux_attr
                 (0, \<lparr>aux = [aux_zero, aux_zero], student_in_standing = 0\<rparr>)) (\<lambda>(channel, r).
     Inr (r\<lparr>student_in_standing := aux_standing (aux r ! 0) (aux r ! 1)\<rparr>))"

text \<open>The event a core board sends for one channel.\<close>

definition aux_calls :: "u32 \<Rightarrow> t_aux_camera_param \<Rightarrow> attr_call list" where
  "aux_calls ch a =
     [Attr_Int ''Channel'' ch, Attr_Int ''Targets'' (target_num a),
      Attr_Int ''MaxTop'' (aux_top a), Attr_Int ''MaxLeft'' (aux_left a),
      Attr_Int ''MaxBottom'' (aux_bottom a), Attr_Int ''MaxRight'' (aux_right a)]"

lemma aux_calls_int: "\<forall>a\<in>set (map call_attr (aux_calls ch p)). int_attr a"
  by (auto simp: aux_calls_def simp del: call_attr.simps)

lemma aux_field_sprintf:
  "unat channel < length (aux r) \<Longrightarrow>
   aux_field upd (sprintf_x 1 (unat v)) (channel, r)
     = Inr (channel, r\<lparr>aux := (aux r)[unat channel := upd (\<lambda>_. v) (aux r ! unat channel)]\<rparr>)"
  using length_sprintf_u32 [of v] by (simp add: aux_field_def hex_value_sprintf)

lemma c_str_names [simp]:
  "c_str ''Channel'' = ''Channel''" "c_str ''Targets'' = ''Targets''"
  "c_str ''MaxTop'' = ''MaxTop''" "c_str ''MaxLeft'' = ''MaxLeft''"
  "c_str ''MaxBottom'' = ''MaxBottom''" "c_str ''MaxRight'' = ''MaxRight''"
  by (simp_all add: c_str_def)

lemma fold_aux_calls:
  assumes "unat ch < length (aux r)"
  shows "fold_res (\<lambda>s (n, v). aux_attr s n v) (c0, r) (map call_attr (aux_calls ch p))
       = Inr (ch, r\<lparr>aux := (aux r)[unat ch := p]\<rparr>)"
  using assms
  by (cases p; cases "aux r ! unat ch") (simp add: aux_calls_def aux_attr_def aux_field_sprintf Let_def del: One_nat_def)

text \<open>A two channel event is decoded into exactly the two parameter sets it carries.\<close>

lemma GetAuxResult_msg:
  "GetAuxResult (make_msg COMMAND_EVENT_AUX (map call_attr (aux_calls 0 p @ aux_calls 1 q)) @ rest)
     = Inr \<lparr>aux = [p, q], student_in_standing = aux_standing p q\<rparr>"
proof -
  let ?as = "map call_attr (aux_calls 0 p @ aux_calls 1 q)"
  have f: "\<forall>a\<in>set ?as. int_attr a"
    using aux_calls_int [of 0 p] aux_calls_int [of 1 q] by auto
  have "length ?as = 12" by (simp add: aux_calls_def)
  then have "length (encode_attrs ?as) < 65536"
    using length_encode_attrs_le [of ?as 22] f int_attr_length by fastforce
  then have "scan_msg 16 16 (make_msg COMMAND_EVENT_AUX ?as @ rest) aux_attr s
      = fold_res (\<lambda>s (n, v). aux_attr s n v) s ?as" for s
    using f int_attr_fits by (intro scan_make_msg) auto
  then show ?thesis
    unfolding GetAuxResult_def map_append fold_res_append
    by (simp add: fold_aux_calls)
qed

text \<open>
  A parameter of a channel the server has no slot for is written behind the array.
\<close>

lemma aux_field_overflow:
  "length value \<le> 8 \<Longrightarrow> length (aux r) \<le> unat channel \<Longrightarrow>
   aux_field upd value (channel, r) = Inl Buffer_Overflow"
  by (simp add: aux_field_def)

text \<open>The event of the analyser, decoded.\<close>

lemma event_vid_decoded:
  assumes "length g = CMD_BUFSIZE"
  shows "bind_res (EventVID2df g [rect, at, al, ab, ar, mt, ml, mb, mr])
           (\<lambda>f. GetDetectResult (fa_data f @ rest))
       = Inr (if 0 <s rect then
                \<lparr>detected = 1, avg_top = at, avg_left = al, avg_bottom = ab, avg_right = ar,
                 max_top = mt, max_left = ml, max_bottom = mb, max_right = mr\<rparr>
              else detect_zero)"
proof -
  let ?xs = "[rect, at, al, ab, ar, mt, ml, mb, mr]"
  have "EventVID2df g ?xs = Inr (msg_add COMMAND_EVENT_VID (map call_attr (event_vid_calls ?xs)))"
    using assms by (intro EventVID2df_correct) auto
  then have "bind_res (EventVID2df g ?xs) (\<lambda>f. GetDetectResult (fa_data f @ rest))
      = fold_res (\<lambda>s (n, v). detect_attr s n v) detect_zero (map call_attr (event_vid_calls ?xs))"
    by (simp add: msg_add_def GetDetectResult_msg del: event_vid_calls.simps)
  then show ?thesis
    using hex_field_sprintf [of 1] hex_field_sprintf [of 0]
    by (simp add: detect_attr_def c_str_def Let_def)
qed

section \<open>Properties\<close>

text \<open>
  What \<^verbatim>\<open>GetDetectResult\<close> reads from the frame that \<^verbatim>\<open>EventVID2df\<close> built is what the analyser
  reported: all nine numbers when something was detected, zeros otherwise, whatever the stack
  held and whatever follows the frame in the receive buffer.
\<close>

theorem detect_event_roundtrip:
  assumes "length g = CMD_BUFSIZE"
  shows "bind_res (EventVID2df g [rect, at, al, ab, ar, mt, ml, mb, mr])
           (\<lambda>f. GetDetectResult (fa_data f @ rest))
       = Inr (if 0 <s rect then
                \<lparr>detected = 1, avg_top = at, avg_left = al, avg_bottom = ab, avg_right = ar,
                 max_top = mt, max_left = ml, max_bottom = mb, max_right = mr\<rparr>
              else detect_zero)"
  using assms by (rule event_vid_decoded)

theorem detect_event_roundtrip_witness:
  "bind_res (EventVID2df (replicate CMD_BUFSIZE NUL) [1, 12, 34, 200, 300, 10, 30, 210, 310])
     (\<lambda>f. GetDetectResult (fa_data f @ ''next''))
   = Inr \<lparr>detected = 1, avg_top = 12, avg_left = 34, avg_bottom = 200, avg_right = 300,
          max_top = 10, max_left = 30, max_bottom = 210, max_right = 310\<rparr>"
  using detect_event_roundtrip [of "replicate CMD_BUFSIZE NUL" 1 12 34 200 300 10 30 210 310 "''next''"]
  by (simp add: word_sless_alt)

text \<open>
  A camera position of a 16 bit signed encoder, sent as four nibble bytes, is read back by
  \<^verbatim>\<open>byte2int\<close> as the same \<open>int\<close>.
\<close>

theorem byte2int_roundtrip:
  assumes "-32768 \<le> v" and "v < 32768"
  shows "byte2int (nibbles (nat (v mod 65536)) @ rest) = Inr (word_of_int v)"
  using assms by (rule byte2int_nibbles)

theorem byte2int_roundtrip_witness: "byte2int (nibbles (nat (- 300 mod 65536)) @ ''rest'') = Inr (- 300)"
  using byte2int_roundtrip [of "- 300" "''rest''"] by simp

text \<open>
  A standing event that describes both channels is decoded into those two parameter sets, and
  the verdict is 0 when a camera sees nobody, and 1 exactly when both see one target and at least
  one of the two boxes is at most 240 wide.
\<close>

theorem standing_event_decoded:
  "GetAuxResult (make_msg COMMAND_EVENT_AUX (map call_attr (aux_calls 0 p @ aux_calls 1 q)) @ rest)
     = Inr \<lparr>aux = [p, q], student_in_standing =
         (if target_num p * target_num q = 0 then 0
          else if target_num p * target_num q = 1 \<and>
                  (aux_right p - aux_left p \<le>s 240 \<or> aux_right q - aux_left q \<le>s 240) then 1
          else 2)\<rparr>"
  unfolding GetAuxResult_msg by (auto simp: aux_standing_def word_sle_eq word_sless_alt)

text \<open>
  A parameter sent for a channel number other than 0 and 1 is stored outside \<open>aux[2]\<close>.
\<close>

theorem standing_event_bad_channel:
  assumes "2 \<le> unat ch"
  shows "GetAuxResult (make_msg COMMAND_EVENT_AUX (map call_attr (aux_calls ch p)) @ rest)
       = Inl Buffer_Overflow"
proof -
  let ?as = "map call_attr (aux_calls ch p)"
  have f: "\<forall>a\<in>set ?as. int_attr a" by (rule aux_calls_int)
  have "length ?as = 6" by (simp add: aux_calls_def)
  then have "length (encode_attrs ?as) < 65536"
    using length_encode_attrs_le [of ?as 22] f int_attr_length by fastforce
  then have "scan_msg 16 16 (make_msg COMMAND_EVENT_AUX ?as @ rest) aux_attr s
      = fold_res (\<lambda>s (n, v). aux_attr s n v) s ?as" for s
    using f int_attr_fits by (intro scan_make_msg) auto
  then show ?thesis
    using assms length_sprintf_u32 [of "target_num p"]
    by (simp add: GetAuxResult_def aux_calls_def aux_attr_def Let_def aux_field_overflow
        del: One_nat_def)
qed

theorem standing_event_bad_channel_witness:
  "GetAuxResult (make_msg COMMAND_EVENT_AUX (map call_attr (aux_calls 2
     \<lparr>target_num = 1, aux_top = 0, aux_left = 0, aux_bottom = 9, aux_right = 9\<rparr>)) @ [NUL]) = Inl Buffer_Overflow"
  by (rule standing_event_bad_channel) simp

end
