(* ===== verification/C_Float.thy ===== *)
theory C_Float
  imports Rec_Prelude Complex_Main
begin

text \<open>
  The floating point arithmetic of the server. Nothing in the correctness of the tracking depends on
  how the target rounds, so the arithmetic is a parameter: a record of the operations the code uses,
  with the library functions of \<^verbatim>\<open>math.h\<close>. The lemmas hold for every such record; a concrete one on
  the rational numbers evaluates examples.
\<close>

record 'f fp =
  f_lit :: "rat \<Rightarrow> 'f"               \<comment> \<open>literals and converted integers\<close>
  f_add :: "'f \<Rightarrow> 'f \<Rightarrow> 'f"
  f_sub :: "'f \<Rightarrow> 'f \<Rightarrow> 'f"
  f_mul :: "'f \<Rightarrow> 'f \<Rightarrow> 'f"
  f_div :: "'f \<Rightarrow> 'f \<Rightarrow> 'f"
  f_neg :: "'f \<Rightarrow> 'f"
  f_atan :: "'f \<Rightarrow> 'f"
  f_tan :: "'f \<Rightarrow> 'f"
  f_sqrt :: "'f \<Rightarrow> 'f"
  f_exp :: "'f \<Rightarrow> 'f"
  f_float :: "'f \<Rightarrow> 'f"              \<comment> \<open>rounding when a value is stored in a \<open>float\<close>\<close>
  f_trunc :: "'f \<Rightarrow> u32"             \<comment> \<open>conversion to \<open>int\<close>\<close>
  f_less :: "'f \<Rightarrow> 'f \<Rightarrow> bool"
  f_le :: "'f \<Rightarrow> 'f \<Rightarrow> bool"

text \<open>An \<open>int\<close> operand.\<close>

definition f_int :: "'f fp \<Rightarrow> u32 \<Rightarrow> 'f" where
  "f_int F i = f_lit F (of_int (sint i))"

definition M_PI :: "'f fp \<Rightarrow> 'f" where
  "M_PI F = f_lit F 3.14159265358979323846"

text \<open>Exact arithmetic on the rationals, with the identity for the library functions.\<close>

definition rat_fp :: "rat fp" where
  "rat_fp = \<lparr>f_lit = id, f_add = (+), f_sub = (-), f_mul = (*), f_div = (/), f_neg = uminus,
     f_atan = id, f_tan = id, f_sqrt = id, f_exp = id, f_float = id,
     f_trunc = (\<lambda>x. word_of_int (if x < 0 then - \<lfloor>- x\<rfloor> else \<lfloor>x\<rfloor>)), f_less = (<), f_le = (\<le>)\<rparr>"

end
