(* ===== verification/Camera_Holder.thy ===== *)
theory Camera_Holder
  imports Detect_Result C_Float "HOL-Library.Signed_Division"
begin

text \<open>
  The camera holders (\<^verbatim>\<open>t_camera_holder\<close> of \<^verbatim>\<open>recbcsrv/recbc_srv.h\<close> and the functions from
  \<^verbatim>\<open>CamhldCmdSend\<close> to \<^verbatim>\<open>camera_holder_init\<close> of \<^verbatim>\<open>recbc_srv.c\<close>): pan, tilt and zoom cameras that are
  steered by byte commands over a serial line behind a core board. Each command sets a pending flag
  and the answer of the camera clears it. Positions are \<open>int\<close>s, kept as 32 bit words.
\<close>

section \<open>The camera holder\<close>

record t_preset_pos =
  pan_pos :: u32
  tilt_pos :: u32
  zoom_pos :: u32

text \<open>\<open>Rx_cnt\<close> is \<^verbatim>\<open>Rx_buf_p - Rx_buf\<close>; \<open>hold_tv\<close> is the time of the last command, seconds and microseconds.\<close>

record 'f t_camera_holder =
  uart_channel :: int
  Rx_buf :: "byte list"
  Rx_cnt :: nat
  RspLen :: nat
  command_pending :: u32
  PanPos :: u32
  TiltPos :: u32
  ZoomPos :: u32
  target_PanPos :: u32
  target_TiltPos :: u32
  target_ZoomPos :: u32
  pan_min :: u32
  pan_max :: u32
  tilt_min :: u32
  tilt_max :: u32
  zoom_min :: u32
  zoom_max :: u32
  panspeed_use :: u32
  tiltspeed_use :: u32
  view_angle_min :: 'f
  view_angle_max :: 'f
  pan_angle_left :: 'f
  pan_angle_right :: 'f
  tilt_angle_up :: 'f
  tilt_angle_down :: 'f
  hold_tv :: "int \<times> int"
  preset :: "t_preset_pos list"

abbreviation (input) "CH_COMPLETION_PENDING \<equiv> 1 :: u32"
abbreviation (input) "CH_PTINQ_PENDING \<equiv> 2 :: u32"
abbreviation (input) "CH_ZOOMINQ_PENDING \<equiv> 4 :: u32"
abbreviation (input) "CH_ERROR \<equiv> 0x80000000 :: u32"

text \<open>The fields that are set; the others keep what the stack of the thread holds.\<close>

definition camera_holder_init :: "'f fp \<Rightarrow> 'f t_camera_holder \<Rightarrow> 'f t_camera_holder" where
  "camera_holder_init F ch = ch\<lparr>Rx_cnt := 0, command_pending := 0,
     pan_angle_left := f_lit F (- 120), pan_angle_right := f_lit F 120, pan_min := - 1600, pan_max := 1600,
     panspeed_use := 4, view_angle_max := f_float F (f_lit F 55.2), view_angle_min := f_float F (f_lit F 3.2),
     zoom_min := 0, zoom_max := 16384, tilt_angle_down := f_lit F (- 30), tilt_angle_up := f_lit F 90,
     tilt_min := - 400, tilt_max := 1200, tiltspeed_use := 4\<rparr>"

section \<open>Commands\<close>

text \<open>The fifos to the serial lines of boards A, B and C.\<close>

datatype tx_fifo = TX_producer_fifo_A | TX_producer_fifo_B | TX_producer_fifo_C

type_synonym tx_add = "tx_fifo \<times> fifo_add"

definition raw :: "nat list \<Rightarrow> byte list" where
  "raw ns = map char_of ns"

text \<open>A byte of an \<open>int\<close>, as an assignment to a \<open>char\<close> keeps it.\<close>

definition low_byte :: "u32 \<Rightarrow> byte" where
  "low_byte w = char_of (unat w)"

definition CamhldCmdSend :: "byte list \<Rightarrow> 'f t_camera_holder \<Rightarrow> byte list \<Rightarrow> tx_add list res" where
  "CamhldCmdSend g ch cwbuf =
     bind_res (cmd_add g COMMAND_CAMHLD_BYPASS
       [Attr_Int ''Channel'' (word_of_int ((uart_channel ch - 1) smod 2)), Attr_Bin ''RawBytes'' cwbuf]) (\<lambda>m.
     Inr ((if uart_channel ch = 1 \<or> uart_channel ch = 2 then [(TX_producer_fifo_A, m)] else []) @
          (if uart_channel ch = 3 \<or> uart_channel ch = 4 then [(TX_producer_fifo_B, m)] else []) @
          (if uart_channel ch = 5 \<or> uart_channel ch = 6 then [(TX_producer_fifo_C, m)] else [])))"

text \<open>Sending a command and noting that its answer is awaited, at the time \<open>now\<close>.\<close>

definition set_pending :: "u32 \<Rightarrow> int \<times> int \<Rightarrow> 'f t_camera_holder \<Rightarrow> 'f t_camera_holder" where
  "set_pending flag now ch = ch\<lparr>command_pending := command_pending ch OR flag, hold_tv := now\<rparr>"

definition GetZoom ::
    "byte list \<Rightarrow> int \<times> int \<Rightarrow> 'f t_camera_holder \<Rightarrow> (tx_add list \<times> 'f t_camera_holder) res" where
  "GetZoom g now ch =
     bind_res (CamhldCmdSend g ch (raw [0x81, 0x09, 0x04, 0x47, 0xff])) (\<lambda>tx.
     Inr (tx, set_pending CH_ZOOMINQ_PENDING now ch))"

definition GetPos ::
    "byte list \<Rightarrow> int \<times> int \<Rightarrow> 'f t_camera_holder \<Rightarrow> (tx_add list \<times> 'f t_camera_holder) res" where
  "GetPos g now ch =
     bind_res (CamhldCmdSend g ch (raw [0x81, 0x09, 0x06, 0x12, 0xff])) (\<lambda>tx.
     Inr (tx, set_pending CH_PTINQ_PENDING now ch))"

text \<open>The four nibbles of a position.\<close>

definition pos_nibbles :: "u32 \<Rightarrow> byte list" where
  "pos_nibbles p = [low_byte (drop_bit 12 (p AND 0xf000)), low_byte (drop_bit 8 (p AND 0xf00)),
     low_byte (drop_bit 4 (p AND 0xf0)), low_byte (p AND 0xf)]"

definition AbsPos ::
    "byte list \<Rightarrow> int \<times> int \<Rightarrow> u32 \<Rightarrow> u32 \<Rightarrow> 'f t_camera_holder \<Rightarrow> (tx_add list \<times> 'f t_camera_holder) res" where
  "AbsPos g now panpos tiltpos ch =
     bind_res (CamhldCmdSend g ch (raw [0x81, 0x01, 0x06, 0x02] @
       [low_byte (panspeed_use ch), low_byte (tiltspeed_use ch)] @ pos_nibbles panpos @ pos_nibbles tiltpos @
       raw [0xff])) (\<lambda>tx.
     Inr (tx, set_pending CH_COMPLETION_PENDING now (ch\<lparr>target_PanPos := panpos, target_TiltPos := tiltpos\<rparr>)))"

definition ZoomDirect ::
    "byte list \<Rightarrow> int \<times> int \<Rightarrow> u32 \<Rightarrow> 'f t_camera_holder \<Rightarrow> (tx_add list \<times> 'f t_camera_holder) res" where
  "ZoomDirect g now zoompos ch =
     bind_res (CamhldCmdSend g ch (raw [0x81, 0x01, 0x04, 0x47] @ pos_nibbles zoompos @ raw [0xff])) (\<lambda>tx.
     Inr (tx, set_pending CH_COMPLETION_PENDING now (ch\<lparr>target_ZoomPos := zoompos\<rparr>)))"

text \<open>\<open>num\<close> is an \<open>unsigned char\<close>; there are sixteen presets.\<close>

definition Recall ::
    "byte list \<Rightarrow> int \<times> int \<Rightarrow> nat \<Rightarrow> 'f t_camera_holder \<Rightarrow> (tx_add list \<times> 'f t_camera_holder) res" where
  "Recall g now num ch =
     bind_res (CamhldCmdSend g ch (raw [0x81, 0x01, 0x04, 0x3f, 0x02, num, 0xff])) (\<lambda>tx.
     if length (preset ch) \<le> num then Inl Out_Of_Bounds
     else Inr (tx, set_pending CH_COMPLETION_PENDING now
       (ch\<lparr>target_PanPos := pan_pos (preset ch ! num), target_TiltPos := tilt_pos (preset ch ! num),
           target_ZoomPos := zoom_pos (preset ch ! num)\<rparr>)))"

definition save_camholder_preset :: "nat \<Rightarrow> 'f t_camera_holder \<Rightarrow> 'f t_camera_holder res" where
  "save_camholder_preset num ch =
     (if length (preset ch) \<le> num then Inl Buffer_Overflow
      else Inr (ch\<lparr>preset := (preset ch)[num := \<lparr>pan_pos = PanPos ch, tilt_pos = TiltPos ch, zoom_pos = ZoomPos ch\<rparr>]\<rparr>))"

definition MemSet ::
    "byte list \<Rightarrow> int \<times> int \<Rightarrow> nat \<Rightarrow> 'f t_camera_holder \<Rightarrow> (tx_add list \<times> 'f t_camera_holder) res" where
  "MemSet g now num ch =
     bind_res (CamhldCmdSend g ch (raw [0x81, 0x01, 0x04, 0x3f, 0x01, num, 0xff])) (\<lambda>tx.
     bind_res (save_camholder_preset num (ch\<lparr>target_PanPos := PanPos ch, target_TiltPos := TiltPos ch,
        target_ZoomPos := ZoomPos ch\<rparr>)) (\<lambda>ch'.
     Inr (tx, set_pending CH_COMPLETION_PENDING now ch')))"

section \<open>Answers\<close>

text \<open>The logical negation \<open>!\<close> of C, where a bitwise complement is meant.\<close>

definition c_not :: "u32 \<Rightarrow> u32" where
  "c_not w = (if w = 0 then 1 else 0)"

definition rsp_is :: "'f t_camera_holder \<Rightarrow> nat \<Rightarrow> nat list \<Rightarrow> bool" where
  "rsp_is ch b1 b2s \<longleftrightarrow> Rx_buf ch ! 0 = char_of b1 \<and> Rx_buf ch ! 1 \<in> set (raw b2s)"

text \<open>The buffer has sixteen bytes, so the reads are in bounds whatever \<open>RspLen\<close> is.\<close>

definition update_camholder_ctx :: "'f t_camera_holder \<Rightarrow> 'f t_camera_holder res" where
  "update_camholder_ctx ch =
     (if RspLen ch = 11 then
        (if rsp_is ch 0x90 [0x50] then
           bind_res (byte2int (drop 2 (Rx_buf ch))) (\<lambda>p.
           bind_res (byte2int (drop 6 (Rx_buf ch))) (\<lambda>t.
           Inr (ch\<lparr>PanPos := p, TiltPos := t, command_pending := command_pending ch AND c_not CH_PTINQ_PENDING\<rparr>)))
         else Inr ch)
      else if RspLen ch = 7 then
        (if rsp_is ch 0x90 [0x50] then
           bind_res (byte2int (drop 2 (Rx_buf ch))) (\<lambda>z.
           Inr (ch\<lparr>ZoomPos := z, command_pending := command_pending ch AND c_not CH_ZOOMINQ_PENDING\<rparr>))
         else Inr ch)
      else if RspLen ch = 3 then
        Inr (if rsp_is ch 0x90 [0x51] then
               ch\<lparr>PanPos := target_PanPos ch, TiltPos := target_TiltPos ch, ZoomPos := target_ZoomPos ch,
                  command_pending := command_pending ch AND c_not CH_COMPLETION_PENDING\<rparr>
             else ch)
      else if RspLen ch = 4 then
        Inr (if rsp_is ch 0x90 [0x60, 0x61] then ch\<lparr>command_pending := 0 OR CH_ERROR\<rparr> else ch)
      else Inr ch)"

definition get_camholder_pending_state :: "'f t_camera_holder \<Rightarrow> bool" where
  "get_camholder_pending_state ch \<longleftrightarrow> command_pending ch \<noteq> 0"

definition get_camholder_err :: "'f t_camera_holder \<Rightarrow> bool" where
  "get_camholder_err ch \<longleftrightarrow> command_pending ch AND CH_ERROR \<noteq> 0"

definition camholder_reset_pending_state :: "'f t_camera_holder \<Rightarrow> 'f t_camera_holder" where
  "camholder_reset_pending_state ch = ch\<lparr>command_pending := 0\<rparr>"

definition camholder_command_timeout :: "int \<times> int \<Rightarrow> int \<Rightarrow> 'f t_camera_holder \<Rightarrow> bool" where
  "camholder_command_timeout now timeout ch \<longleftrightarrow>
     timeout < (fst now - fst (hold_tv ch)) + (snd now - snd (hold_tv ch)) sdiv 1000000"

text \<open>
  A byte from the serial line: it goes into the buffer, and the end byte \<open>0xff\<close> completes an answer.
  The flag tells the caller that its loop ends.
\<close>

definition uart_byte :: "byte \<Rightarrow> 'f t_camera_holder \<Rightarrow> (bool \<times> 'f t_camera_holder) res" where
  "uart_byte b ch =
     (if length (Rx_buf ch) \<le> Rx_cnt ch then Inl Buffer_Overflow
      else let ch1 = ch\<lparr>Rx_buf := (Rx_buf ch)[Rx_cnt ch := b], Rx_cnt := Rx_cnt ch + 1\<rparr>
           in if Rx_buf ch1 ! (Rx_cnt ch1 - 1) = char_of (0xff :: nat)
              then bind_res (update_camholder_ctx (ch1\<lparr>RspLen := Rx_cnt ch1, Rx_cnt := 0\<rparr>)) (\<lambda>ch2. Inr (True, ch2))
              else Inr (False, ch1))"

text \<open>The loop over the fifo of a serial line; what it leaves in the fifo is returned.\<close>

fun uart_rx :: "byte list \<Rightarrow> 'f t_camera_holder \<Rightarrow> (byte list \<times> 'f t_camera_holder) res" where
  "uart_rx [] ch = Inr ([], ch)"
| "uart_rx (b # bs) ch =
     bind_res (uart_byte b ch) (\<lambda>(stop, ch'). if stop then Inr (bs, ch') else uart_rx bs ch')"

section \<open>What the commands send\<close>

definition tx_of :: "int \<Rightarrow> fifo_add \<Rightarrow> tx_add list" where
  "tx_of ch m = (if ch = 1 \<or> ch = 2 then [(TX_producer_fifo_A, m)]
     else if ch = 3 \<or> ch = 4 then [(TX_producer_fifo_B, m)]
     else if ch = 5 \<or> ch = 6 then [(TX_producer_fifo_C, m)] else [])"

definition camhld_msg :: "int \<Rightarrow> byte list \<Rightarrow> fifo_add" where
  "camhld_msg ch cwbuf = msg_of (COMMAND_CAMHLD_BYPASS,
     [Attr_Int ''Channel'' (word_of_int ((ch - 1) smod 2)), Attr_Bin ''RawBytes'' cwbuf])"

definition camhld_tx :: "int \<Rightarrow> byte list \<Rightarrow> tx_add list" where
  "camhld_tx ch cwbuf = tx_of ch (camhld_msg ch cwbuf)"

lemma short_camhld_msg:
  assumes "length cwbuf \<le> 16"
  shows "short_msg (COMMAND_CAMHLD_BYPASS, [Attr_Int ''Channel'' a, Attr_Bin ''RawBytes'' cwbuf])"
proof -
  have "length (encode_attr (''Channel'', sprintf_x 1 (unat a))) \<le> 20"
    using length_sprintf_u32 [of a] by (subst length_encode_attr) (simp_all add: short_attr_def)
  moreover have "length (encode_attr (''RawBytes'', cwbuf)) \<le> 29"
    using assms by (subst length_encode_attr) (simp_all add: short_attr_def)
  ultimately show ?thesis
    using assms length_sprintf_u32 [of a] by (simp add: short_msg_def short_attr_def del: encode_attr.simps)
qed

lemma CamhldCmdSend_correct:
  assumes "length g = CMD_BUFSIZE" and "length cwbuf \<le> 16"
  shows "CamhldCmdSend g ch cwbuf = Inr (camhld_tx (uart_channel ch) cwbuf)"
  using short_camhld_msg [OF assms(2)] assms(1)
  by (auto simp: CamhldCmdSend_def cmd_add_short camhld_tx_def tx_of_def camhld_msg_def)

text \<open>The bytes of the commands.\<close>

definition recall_bytes :: "nat \<Rightarrow> byte list" where
  "recall_bytes k = raw [0x81, 0x01, 0x04, 0x3f, 0x02, k, 0xff]"

definition memset_bytes :: "nat \<Rightarrow> byte list" where
  "memset_bytes k = raw [0x81, 0x01, 0x04, 0x3f, 0x01, k, 0xff]"

definition zoominq_bytes :: "byte list" where
  "zoominq_bytes = raw [0x81, 0x09, 0x04, 0x47, 0xff]"

definition posinq_bytes :: "byte list" where
  "posinq_bytes = raw [0x81, 0x09, 0x06, 0x12, 0xff]"

definition abspos_bytes :: "u32 \<Rightarrow> u32 \<Rightarrow> u32 \<Rightarrow> u32 \<Rightarrow> byte list" where
  "abspos_bytes ps ts p t = raw [0x81, 0x01, 0x06, 0x02] @ [low_byte ps, low_byte ts] @
     pos_nibbles p @ pos_nibbles t @ raw [0xff]"

definition zoom_bytes :: "u32 \<Rightarrow> byte list" where
  "zoom_bytes z = raw [0x81, 0x01, 0x04, 0x47] @ pos_nibbles z @ raw [0xff]"

lemmas command_bytes = recall_bytes_def memset_bytes_def zoominq_bytes_def posinq_bytes_def abspos_bytes_def
  zoom_bytes_def

lemma length_pos_nibbles [simp]: "length (pos_nibbles p) = 4"
  by (simp add: pos_nibbles_def)

lemma commands_correct:
  assumes "length g = CMD_BUFSIZE"
  shows "GetZoom g now ch = Inr (camhld_tx (uart_channel ch) zoominq_bytes, set_pending CH_ZOOMINQ_PENDING now ch)"
    and "GetPos g now ch = Inr (camhld_tx (uart_channel ch) posinq_bytes, set_pending CH_PTINQ_PENDING now ch)"
    and "AbsPos g now p t ch = Inr (camhld_tx (uart_channel ch) (abspos_bytes (panspeed_use ch) (tiltspeed_use ch) p t),
       set_pending CH_COMPLETION_PENDING now (ch\<lparr>target_PanPos := p, target_TiltPos := t\<rparr>))"
    and "ZoomDirect g now z ch = Inr (camhld_tx (uart_channel ch) (zoom_bytes z),
       set_pending CH_COMPLETION_PENDING now (ch\<lparr>target_ZoomPos := z\<rparr>))"
    and "num < length (preset ch) \<Longrightarrow> Recall g now num ch = Inr (camhld_tx (uart_channel ch) (recall_bytes num),
       set_pending CH_COMPLETION_PENDING now
         (ch\<lparr>target_PanPos := pan_pos (preset ch ! num), target_TiltPos := tilt_pos (preset ch ! num),
             target_ZoomPos := zoom_pos (preset ch ! num)\<rparr>))"
  using assms
  by (simp_all add: GetZoom_def GetPos_def AbsPos_def ZoomDirect_def Recall_def CamhldCmdSend_correct
      command_bytes raw_def)

section \<open>What an answer does\<close>

lemma uart_rx_partial:
  assumes "char_of (0xff :: nat) \<notin> set xs" and "Rx_cnt ch + length xs \<le> length (Rx_buf ch)"
  shows "uart_rx (xs @ ys) ch = uart_rx ys (ch\<lparr>Rx_buf := take (Rx_cnt ch) (Rx_buf ch) @ xs @
    drop (Rx_cnt ch + length xs) (Rx_buf ch), Rx_cnt := Rx_cnt ch + length xs\<rparr>)"
  using assms
proof (induction xs arbitrary: ch)
  case (Cons b xs)
  define ch1 where "ch1 = ch\<lparr>Rx_buf := (Rx_buf ch)[Rx_cnt ch := b], Rx_cnt := Rx_cnt ch + 1\<rparr>"
  have c: "Rx_cnt ch < length (Rx_buf ch)" using Cons.prems(2) by simp
  have "uart_byte b ch = Inr (False, ch1)"
    using Cons.prems(1) c by (auto simp: uart_byte_def ch1_def Let_def)
  moreover have "uart_rx (xs @ ys) ch1 = uart_rx ys (ch1\<lparr>Rx_buf := take (Rx_cnt ch1) (Rx_buf ch1) @ xs @
      drop (Rx_cnt ch1 + length xs) (Rx_buf ch1), Rx_cnt := Rx_cnt ch1 + length xs\<rparr>)"
    using Cons.prems by (intro Cons.IH) (simp_all add: ch1_def)
  moreover have "take (Rx_cnt ch1) (Rx_buf ch1) = take (Rx_cnt ch) (Rx_buf ch) @ [b]"
    using c by (simp add: ch1_def take_Suc_conv_app_nth)
  ultimately show ?case by (simp add: ch1_def)
qed (simp add: t_camera_holder.defs)

lemma uart_rx_answer:
  assumes "char_of (0xff :: nat) \<notin> set xs" and "length xs < length (Rx_buf ch)" and "Rx_cnt ch = 0"
  shows "uart_rx (xs @ char_of (0xff :: nat) # ys) ch =
    bind_res (update_camholder_ctx (ch\<lparr>Rx_buf := xs @ char_of (0xff :: nat) # drop (Suc (length xs)) (Rx_buf ch),
      RspLen := Suc (length xs), Rx_cnt := 0\<rparr>)) (\<lambda>ch'. Inr (ys, ch'))"
proof -
  define ch1 where "ch1 = ch\<lparr>Rx_buf := xs @ drop (length xs) (Rx_buf ch), Rx_cnt := length xs\<rparr>"
  have "uart_rx (xs @ char_of (0xff :: nat) # ys) ch = uart_rx (char_of (0xff :: nat) # ys) ch1"
    using uart_rx_partial [of xs ch] assms by (simp add: ch1_def)
  moreover have "drop (length xs) (Rx_buf ch) = Rx_buf ch ! length xs # drop (Suc (length xs)) (Rx_buf ch)"
    using assms(2) by (simp add: Cons_nth_drop_Suc)
  then have "(Rx_buf ch1)[Rx_cnt ch1 := char_of (0xff :: nat)] =
      xs @ char_of (0xff :: nat) # drop (Suc (length xs)) (Rx_buf ch)"
    by (simp add: ch1_def)
  ultimately show ?thesis
    using assms by (simp add: uart_byte_def ch1_def Let_def bind_res_assoc)
qed

text \<open>The four kinds of answers the code knows.\<close>

definition completion_bytes :: "byte list" where
  "completion_bytes = raw [0x90, 0x51]"

definition pos_answer :: "int \<Rightarrow> int \<Rightarrow> byte list" where
  "pos_answer p t = raw [0x90, 0x50] @ nibbles (nat (p mod 65536)) @ nibbles (nat (t mod 65536))"

definition zoom_answer :: "int \<Rightarrow> byte list" where
  "zoom_answer z = raw [0x90, 0x50] @ nibbles (nat (z mod 65536))"

definition pos_range :: "int \<Rightarrow> bool" where
  "pos_range p \<longleftrightarrow> - 32768 \<le> p \<and> p < 32768"

lemma nibbles_no_end: "char_of (0xff :: nat) \<notin> set (nibbles n)"
proof -
  have "char_of (0xff :: nat) \<noteq> char_of (d mod 16)" for d :: nat
  proof
    assume "char_of (0xff :: nat) = char_of (d mod 16)"
    then have "of_char (char_of (0xff :: nat)) = (of_char (char_of (d mod 16)) :: nat)" by simp
    then have "(255 :: nat) = d mod 16 mod 256" by simp
    moreover have "d mod 16 < 16" by simp
    ultimately show False by simp
  qed
  then show ?thesis by (simp add: nibbles_def)
qed

lemma length_nibbles [simp]: "length (nibbles n) = 4"
  by (simp add: nibbles_def)

lemma byte2int_pos: "pos_range p \<Longrightarrow> byte2int (nibbles (nat (p mod 65536)) @ rest) = Inr (word_of_int p)"
  by (rule byte2int_nibbles) (simp_all add: pos_range_def)

lemma raw_simps [simp]: "raw [] = []" "raw (n # ns) = char_of n # raw ns"
  by (simp_all add: raw_def)

text \<open>An answer is received into a buffer that starts with it.\<close>

lemma answer_received:
  assumes "char_of (0xff :: nat) \<notin> set xs" and "length xs < 16" and "length (Rx_buf ch) = 16" and "Rx_cnt ch = 0"
  obtains buf tl where "buf = xs @ tl" "length buf = 16"
    "uart_rx (xs @ raw [0xff] @ ys) ch =
     bind_res (update_camholder_ctx (ch\<lparr>Rx_buf := buf, RspLen := Suc (length xs), Rx_cnt := 0\<rparr>)) (\<lambda>ch'. Inr (ys, ch'))"
  using uart_rx_answer [OF assms(1), of ch ys] assms(2-4) by (intro that) simp_all

lemma answer_completion:
  assumes "length (Rx_buf ch) = 16" and "Rx_cnt ch = 0"
  obtains buf where "length buf = 16" "uart_rx (completion_bytes @ raw [0xff] @ ys) ch = Inr (ys, ch\<lparr>Rx_buf := buf,
    RspLen := 3, Rx_cnt := 0, PanPos := target_PanPos ch, TiltPos := target_TiltPos ch, ZoomPos := target_ZoomPos ch,
    command_pending := 0\<rparr>)"
proof -
  have x: "char_of (0xff :: nat) \<notin> set completion_bytes" "length completion_bytes = 2" by (simp_all add: completion_bytes_def)
  obtain buf tl where b: "buf = completion_bytes @ tl" "length buf = 16"
    "uart_rx (completion_bytes @ raw [0xff] @ ys) ch =
     bind_res (update_camholder_ctx (ch\<lparr>Rx_buf := buf, RspLen := Suc (length completion_bytes), Rx_cnt := 0\<rparr>)) (\<lambda>ch'. Inr (ys, ch'))"
    by (rule answer_received [OF x(1) _ assms]) (simp_all add: x(2))
  have "rsp_is (ch\<lparr>Rx_buf := buf, RspLen := 3, Rx_cnt := 0\<rparr>) 0x90 [0x51]"
    unfolding b(1) by (simp add: rsp_is_def completion_bytes_def)
  then show thesis using b(2,3) x(2) by (intro that [of buf]) (simp_all add: update_camholder_ctx_def c_not_def numeral_3_eq_3)
qed

lemma answer_pos:
  assumes "length (Rx_buf ch) = 16" and "Rx_cnt ch = 0" and "pos_range p" and "pos_range t"
  obtains buf where "length buf = 16" "uart_rx (pos_answer p t @ raw [0xff] @ ys) ch = Inr (ys, ch\<lparr>Rx_buf := buf,
    RspLen := 11, Rx_cnt := 0, PanPos := word_of_int p, TiltPos := word_of_int t, command_pending := 0\<rparr>)"
proof -
  let ?xs = "pos_answer p t"
  have x: "char_of (0xff :: nat) \<notin> set ?xs" "length ?xs = 10" using nibbles_no_end by (simp_all add: pos_answer_def)
  obtain buf tl where b: "buf = ?xs @ tl" "length buf = 16" "uart_rx (?xs @ raw [0xff] @ ys) ch =
     bind_res (update_camholder_ctx (ch\<lparr>Rx_buf := buf, RspLen := Suc (length ?xs), Rx_cnt := 0\<rparr>)) (\<lambda>ch'. Inr (ys, ch'))"
    by (rule answer_received [OF x(1) _ assms(1,2)]) (simp_all add: x(2))
  have "rsp_is (ch\<lparr>Rx_buf := buf, RspLen := 11, Rx_cnt := 0\<rparr>) 0x90 [0x50]"
    unfolding b(1) by (simp add: rsp_is_def pos_answer_def)
  moreover have "byte2int (drop 2 buf) = Inr (word_of_int p)" "byte2int (drop 6 buf) = Inr (word_of_int t)"
    unfolding b(1) using assms(3,4) by (simp_all add: pos_answer_def byte2int_pos)
  ultimately show thesis using b(2,3) x(2) by (intro that [of buf]) (simp_all add: update_camholder_ctx_def c_not_def)
qed

lemma answer_zoom:
  assumes "length (Rx_buf ch) = 16" and "Rx_cnt ch = 0" and "pos_range z"
  obtains buf where "length buf = 16" "uart_rx (zoom_answer z @ raw [0xff] @ ys) ch = Inr (ys, ch\<lparr>Rx_buf := buf,
    RspLen := 7, Rx_cnt := 0, ZoomPos := word_of_int z, command_pending := 0\<rparr>)"
proof -
  let ?xs = "zoom_answer z"
  have x: "char_of (0xff :: nat) \<notin> set ?xs" "length ?xs = 6" using nibbles_no_end by (simp_all add: zoom_answer_def)
  obtain buf tl where b: "buf = ?xs @ tl" "length buf = 16" "uart_rx (?xs @ raw [0xff] @ ys) ch =
     bind_res (update_camholder_ctx (ch\<lparr>Rx_buf := buf, RspLen := Suc (length ?xs), Rx_cnt := 0\<rparr>)) (\<lambda>ch'. Inr (ys, ch'))"
    by (rule answer_received [OF x(1) _ assms(1,2)]) (simp_all add: x(2))
  have "rsp_is (ch\<lparr>Rx_buf := buf, RspLen := 7, Rx_cnt := 0\<rparr>) 0x90 [0x50]"
    unfolding b(1) by (simp add: rsp_is_def zoom_answer_def)
  moreover have "byte2int (drop 2 buf) = Inr (word_of_int z)"
    unfolding b(1) using assms(3) by (simp add: zoom_answer_def byte2int_pos)
  ultimately show thesis using b(2,3) x(2) by (intro that [of buf]) (simp_all add: update_camholder_ctx_def c_not_def)
qed

end
