(* ===== verification/Camera_Setup.thy ===== *)
theory Camera_Setup
  imports Camera_Holder
begin

text \<open>
  How \<^verbatim>\<open>thread_SwitchTracking\<close> (\<^verbatim>\<open>recbcsrv/recbc_srv.c\<close>) brings up the two camera holders: the
  status counters \<^verbatim>\<open>teacher_status\<close> and \<^verbatim>\<open>student_status\<close> walk through a list of commands, one command in
  flight at a time, stepping back on errors and timeouts; the answers come in from the serial lines.
\<close>

section \<open>The blocks of the loop body\<close>

text \<open>A camera under control: the holder, the status, and the commands sent so far.\<close>

record 'f cam_ctl =
  ctl_ch :: "'f t_camera_holder"
  ctl_status :: int
  ctl_tx :: "tx_add list"

record 'f teacher_ctl = "'f cam_ctl" +
  limit_left :: u32
  limit_right :: u32
  exclude_left :: u32
  exclude_right :: u32

text \<open>\<^verbatim>\<open>if(!get_camholder_pending_state(...)){ if(status == n){ ... } }\<close>.\<close>

definition block :: "int \<Rightarrow> (('f, 'm) cam_ctl_scheme \<Rightarrow> ('f, 'm) cam_ctl_scheme res) \<Rightarrow>
    ('f, 'm) cam_ctl_scheme \<Rightarrow> ('f, 'm) cam_ctl_scheme res" where
  "block n act s = (if \<not> get_camholder_pending_state (ctl_ch s) \<and> ctl_status s = n then act s else Inr s)"

definition sent_next :: "int \<Rightarrow> (tx_add list \<times> 'f t_camera_holder) res \<Rightarrow> ('f, 'm) cam_ctl_scheme \<Rightarrow> ('f, 'm) cam_ctl_scheme res" where
  "sent_next n r s = bind_res r (\<lambda>(tx, ch). Inr (s\<lparr>ctl_ch := ch, ctl_status := n, ctl_tx := ctl_tx s @ tx\<rparr>))"

definition do_recall :: "byte list \<Rightarrow> int \<times> int \<Rightarrow> nat \<Rightarrow> int \<Rightarrow> ('f, 'm) cam_ctl_scheme \<Rightarrow> ('f, 'm) cam_ctl_scheme res" where
  "do_recall g now k n s = sent_next n (Recall g now k (ctl_ch s)) s"

definition do_getzoom :: "byte list \<Rightarrow> int \<times> int \<Rightarrow> int \<Rightarrow> ('f, 'm) cam_ctl_scheme \<Rightarrow> ('f, 'm) cam_ctl_scheme res" where
  "do_getzoom g now n s = sent_next n (GetZoom g now (ctl_ch s)) s"

definition do_getpos :: "byte list \<Rightarrow> int \<times> int \<Rightarrow> int \<Rightarrow> ('f, 'm) cam_ctl_scheme \<Rightarrow> ('f, 'm) cam_ctl_scheme res" where
  "do_getpos g now n s = sent_next n (GetPos g now (ctl_ch s)) s"

definition save_recall ::
    "byte list \<Rightarrow> int \<times> int \<Rightarrow> nat \<Rightarrow> nat \<Rightarrow> int \<Rightarrow> ('f, 'm) cam_ctl_scheme \<Rightarrow> ('f, 'm) cam_ctl_scheme res" where
  "save_recall g now j k n s =
     bind_res (save_camholder_preset j (ctl_ch s)) (\<lambda>ch. do_recall g now k n (s\<lparr>ctl_ch := ch\<rparr>))"

text \<open>The last block: the limits are the positions of presets 1 and 2, and 5 and 6, in order.\<close>

definition set_limits :: "'f teacher_ctl \<Rightarrow> 'f teacher_ctl res" where
  "set_limits s = (let p = (\<lambda>k. pan_pos (preset (ctl_ch s) ! k));
       s1 = (if p 1 <s p 2 then s\<lparr>limit_left := p 1, limit_right := p 2\<rparr> else s\<lparr>limit_right := p 1, limit_left := p 2\<rparr>);
       s2 = (if p 5 <s p 6 then s1\<lparr>exclude_left := p 5, exclude_right := p 6\<rparr> else s1\<lparr>exclude_right := p 5, exclude_left := p 6\<rparr>)
     in Inr (s2\<lparr>ctl_status := 17\<rparr>))"

definition teacher_blocks :: "byte list \<Rightarrow> int \<times> int \<Rightarrow> (int \<times> ('f teacher_ctl \<Rightarrow> 'f teacher_ctl res)) list" where
  "teacher_blocks g now =
     [(0, do_recall g now 0 1), (1, do_getzoom g now 2), (2, do_getpos g now 3), (3, save_recall g now 0 1 4),
      (4, do_getpos g now 5), (5, save_recall g now 1 2 6), (6, do_getpos g now 7), (7, save_recall g now 2 3 8),
      (8, do_getpos g now 9), (9, save_recall g now 3 4 10), (10, do_getpos g now 11), (11, save_recall g now 4 5 12),
      (12, do_getpos g now 13), (13, save_recall g now 5 6 14), (14, do_getpos g now 15), (15, save_recall g now 6 0 16),
      (16, set_limits)]"

definition student_blocks :: "byte list \<Rightarrow> int \<times> int \<Rightarrow> (int \<times> ('f cam_ctl \<Rightarrow> 'f cam_ctl res)) list" where
  "student_blocks g now =
     [(0, do_recall g now 0 1), (1, do_getzoom g now 2), (2, do_getpos g now 3), (3, save_recall g now 0 0 4),
      (4, \<lambda>s. Inr (s\<lparr>ctl_status := 5\<rparr>))]"

definition run_blocks :: "(int \<times> (('f, 'm) cam_ctl_scheme \<Rightarrow> ('f, 'm) cam_ctl_scheme res)) list \<Rightarrow>
    ('f, 'm) cam_ctl_scheme \<Rightarrow> ('f, 'm) cam_ctl_scheme res" where
  "run_blocks bs s = fold_res (\<lambda>s (n, act). block n act s) s bs"

text \<open>Errors and timeouts: the pending flags are dropped and the status steps back, twice when both occur.\<close>

definition step_back :: "int \<Rightarrow> ('f, 'm) cam_ctl_scheme \<Rightarrow> ('f, 'm) cam_ctl_scheme" where
  "step_back final s = s\<lparr>ctl_ch := camholder_reset_pending_state (ctl_ch s),
     ctl_status := (if 0 < ctl_status s \<and> ctl_status s < final then ctl_status s - 1 else ctl_status s)\<rparr>"

definition watch :: "int \<Rightarrow> int \<times> int \<Rightarrow> ('f, 'm) cam_ctl_scheme \<Rightarrow> ('f, 'm) cam_ctl_scheme" where
  "watch final now s =
     (if get_camholder_pending_state (ctl_ch s) then
        (let s1 = (if get_camholder_err (ctl_ch s) then step_back final s else s)
         in if camholder_command_timeout now 10 (ctl_ch s1) then step_back final s1 else s1)
      else s)"

text \<open>The times at which a command is sent and at which the timeout is checked are given.\<close>

definition teacher_setup :: "byte list \<Rightarrow> int \<times> int \<Rightarrow> int \<times> int \<Rightarrow> 'f teacher_ctl \<Rightarrow> 'f teacher_ctl res" where
  "teacher_setup g now now' s = bind_res (run_blocks (teacher_blocks g now) s) (\<lambda>s'. Inr (watch 17 now' s'))"

definition student_setup :: "byte list \<Rightarrow> int \<times> int \<Rightarrow> int \<times> int \<Rightarrow> 'f cam_ctl \<Rightarrow> 'f cam_ctl res" where
  "student_setup g now now' s = bind_res (run_blocks (student_blocks g now) s) (\<lambda>s'. Inr (watch 5 now' s'))"

section \<open>The serial lines\<close>

text \<open>
  The two lines somebody listens to, A1 (number 1) and B1 (number 3): the teacher's holder comes
  first; bytes for nobody are dropped, as are all bytes of A2, B2, C1 and C2.
\<close>

definition uart_line ::
    "int \<Rightarrow> byte list \<Rightarrow> 'f t_camera_holder \<times> 'f t_camera_holder \<Rightarrow> (byte list \<times> 'f t_camera_holder \<times> 'f t_camera_holder) res" where
  "uart_line n bs ts =
     (if uart_channel (fst ts) = n then bind_res (uart_rx bs (fst ts)) (\<lambda>(rest, t). Inr (rest, t, snd ts))
      else if uart_channel (snd ts) = n then bind_res (uart_rx bs (snd ts)) (\<lambda>(rest, s). Inr (rest, fst ts, s))
      else Inr ([], ts))"

text \<open>The queues of the six serial lines, in the order A1, A2, B1, B2, C1, C2.\<close>

definition uart_lines ::
    "byte list list \<Rightarrow> 'f t_camera_holder \<times> 'f t_camera_holder \<Rightarrow> (byte list list \<times> 'f t_camera_holder \<times> 'f t_camera_holder) res" where
  "uart_lines qs ts =
     bind_res (uart_line 1 (qs ! 0) ts) (\<lambda>(a1, ts1).
     bind_res (uart_line 3 (qs ! 2) ts1) (\<lambda>(b1, ts2).
     Inr ([a1, [], b1, [], [], []], ts2)))"

section \<open>One command in flight\<close>

lemma run_blocks_pending:
  "get_camholder_pending_state (ctl_ch s) \<Longrightarrow> run_blocks bs s = Inr s"
  unfolding run_blocks_def by (induction bs) (auto simp: block_def)

lemma run_blocks_other:
  "\<forall>b\<in>set bs. fst b \<noteq> ctl_status s \<Longrightarrow> run_blocks bs s = Inr s"
  unfolding run_blocks_def by (induction bs) (auto simp: block_def)

lemma run_blocks_append: "run_blocks (bs @ bs') s = bind_res (run_blocks bs s) (run_blocks bs')"
  unfolding run_blocks_def by (simp add: fold_res_append)

lemma run_blocks_at:
  assumes "distinct (map fst bs)" and "i < length bs" and "ctl_status s = fst (bs ! i)"
    and "\<not> get_camholder_pending_state (ctl_ch s)" and "snd (bs ! i) s = Inr s'"
    and "get_camholder_pending_state (ctl_ch s') \<or> (\<forall>b\<in>set bs. fst b \<noteq> ctl_status s')"
  shows "run_blocks bs s = Inr s'"
proof -
  have bs: "bs = take i bs @ bs ! i # drop (Suc i) bs" using assms(2) by (simp add: id_take_nth_drop)
  have "fst b \<noteq> ctl_status s" if b: "b \<in> set (take i bs)" for b
  proof -
    obtain j where "j < i" "b = bs ! j" using b by (auto simp: in_set_conv_nth)
    then show ?thesis using assms(1-3) nth_eq_iff_index_eq [of "map fst bs" j i] by auto
  qed
  then have "run_blocks (take i bs) s = Inr s" by (intro run_blocks_other) blast
  moreover have "run_blocks (bs ! i # drop (Suc i) bs) s = run_blocks (drop (Suc i) bs) s'"
    using assms(3-5) by (cases "bs ! i") (simp add: run_blocks_def block_def)
  moreover have "run_blocks (drop (Suc i) bs) s' = Inr s'"
    using assms(6) run_blocks_pending run_blocks_other [of "drop (Suc i) bs" s'] by (metis in_set_dropD)
  ultimately show ?thesis by (metis bs run_blocks_append bind_res.simps(2))
qed

lemma teacher_block_indices:
  fixes g now defines "bs \<equiv> teacher_blocks g now :: (int \<times> ('f teacher_ctl \<Rightarrow> 'f teacher_ctl res)) list"
  shows "length bs = 17" "distinct (map fst bs)" "i < 17 \<Longrightarrow> fst (bs ! i) = int i" "\<forall>b\<in>set bs. fst b < 17"
proof -
  have m: "map fst bs = map int [0 ..< 17]" by (simp add: bs_def teacher_blocks_def upt_rec)
  show l: "length bs = 17" by (simp add: bs_def teacher_blocks_def)
  show "distinct (map fst bs)" unfolding m by (simp add: distinct_map)
  show "fst (bs ! i) = int i" if "i < 17"
    using arg_cong [OF m, of "\<lambda>xs. xs ! i"] that l by (simp del: upt_rec_numeral)
  show "\<forall>b\<in>set bs. fst b < 17" by (simp add: bs_def teacher_blocks_def)
qed

text \<open>A turn of the loop in which nothing is pending runs exactly the block of the status.\<close>

lemma teacher_blocks_at:
  assumes "i < 17" and "ctl_status s = int i" and "\<not> get_camholder_pending_state (ctl_ch s)"
    and "snd (teacher_blocks g now ! i) s = Inr s'"
    and "get_camholder_pending_state (ctl_ch s') \<or> ctl_status s' = 17"
  shows "run_blocks (teacher_blocks g now) s = Inr s'"
proof (rule run_blocks_at [OF teacher_block_indices(2) _ _ assms(3,4)])
  show "i < length (teacher_blocks g now)" using assms(1) teacher_block_indices(1) by metis
  show "ctl_status s = fst (teacher_blocks g now ! i)" using teacher_block_indices(3) [OF assms(1)] assms(2) by metis
  show "get_camholder_pending_state (ctl_ch s') \<or> (\<forall>b\<in>set (teacher_blocks g now). fst b \<noteq> ctl_status s')"
    using assms(5) teacher_block_indices(4) [of g now] by (metis less_irrefl)
qed

lemma teacher_setup_at:
  assumes "i < 17" and "ctl_status s = int i" and "\<not> get_camholder_pending_state (ctl_ch s)"
    and "snd (teacher_blocks g now ! i) s = Inr s'"
    and "get_camholder_pending_state (ctl_ch s') \<or> ctl_status s' = 17"
  shows "teacher_setup g now now' s = Inr (watch 17 now' s')"
  using teacher_blocks_at [OF assms] by (simp add: teacher_setup_def)

lemma watch_in_time:
  "\<not> get_camholder_err (ctl_ch s) \<Longrightarrow> \<not> camholder_command_timeout now 10 (ctl_ch s) \<Longrightarrow> watch final now s = s"
  by (simp add: watch_def)

section \<open>Turns in which the camera answers\<close>

text \<open>One turn: the blocks at time \<open>now\<close>, the watch at \<open>now'\<close>, then the bytes \<open>inb\<close> of the teacher's line.\<close>

type_synonym turn = "(int \<times> int) \<times> (int \<times> int) \<times> byte list"

definition setup_turn :: "byte list \<Rightarrow> 'f teacher_ctl \<Rightarrow> turn \<Rightarrow> 'f teacher_ctl res" where
  "setup_turn g s t = (case t of (now, now', inb) \<Rightarrow>
     bind_res (teacher_setup g now now' s) (\<lambda>s'.
     bind_res (uart_rx inb (ctl_ch s')) (\<lambda>(rest, ch). Inr (s'\<lparr>ctl_ch := ch\<rparr>))))"

definition in_time :: "turn \<Rightarrow> bool" where
  "in_time t = (case t of ((s, us), (s', us'), inb) \<Rightarrow> (s' - s) + (us' - us) sdiv 1000000 \<le> 10)"

text \<open>A holder that waits for nothing.\<close>

definition idle_holder :: "'f t_camera_holder \<Rightarrow> bool" where
  "idle_holder ch \<longleftrightarrow> length (Rx_buf ch) = 16 \<and> Rx_cnt ch = 0 \<and> length (preset ch) = 16 \<and> uart_channel ch = 1 \<and>
     command_pending ch = 0"

lemma setup_turn_answered:
  assumes "i < 17" and "ctl_status s = int i" and "idle_holder (ctl_ch s)"
    and "snd (teacher_blocks g now ! i) s = Inr s'" and "ctl_ch s' = set_pending f now ch1"
    and "command_pending ch1 = 0" and "f \<in> {1, 2, 4}" and "in_time (now, now', inb)"
    and "uart_rx inb (ctl_ch s') = Inr (rest, ch2)"
  shows "setup_turn g s (now, now', inb) = Inr (s'\<lparr>ctl_ch := ch2\<rparr>)"
proof -
  have "get_camholder_pending_state (ctl_ch s')" "\<not> get_camholder_err (ctl_ch s')"
    using assms(6,7) by (auto simp: assms(5) set_pending_def get_camholder_pending_state_def get_camholder_err_def)
  moreover have "\<not> camholder_command_timeout now' 10 (ctl_ch s')"
    using assms(8) by (auto simp: assms(5) set_pending_def camholder_command_timeout_def in_time_def split: prod.splits)
  moreover have "\<not> get_camholder_pending_state (ctl_ch s)"
    using assms(3) by (simp add: idle_holder_def get_camholder_pending_state_def)
  ultimately have "teacher_setup g now now' s = Inr s'"
    using teacher_setup_at [OF assms(1,2) _ assms(4), of now'] watch_in_time [of s' now' 17] by simp
  then show ?thesis using assms(9) by (simp add: setup_turn_def)
qed

lemma recall_turn:
  assumes g: "length g = CMD_BUFSIZE" and i: "i < 17" "ctl_status s = int i" "idle_holder (ctl_ch s)"
    and b: "snd (teacher_blocks g now ! i) s = do_recall g now k n (s\<lparr>ctl_ch := ch1\<rparr>)"
    and h: "idle_holder ch1" "k < 16" and t: "in_time (now, now', completion_bytes @ raw [0xff])"
  obtains ch2 where "setup_turn g s (now, now', completion_bytes @ raw [0xff]) =
      Inr (s\<lparr>ctl_ch := ch2, ctl_status := n, ctl_tx := ctl_tx s @ camhld_tx 1 (recall_bytes k)\<rparr>)"
    "idle_holder ch2" "preset ch2 = preset ch1" "PanPos ch2 = pan_pos (preset ch1 ! k)"
    "TiltPos ch2 = tilt_pos (preset ch1 ! k)" "ZoomPos ch2 = zoom_pos (preset ch1 ! k)"
proof -
  define chs where "chs = set_pending CH_COMPLETION_PENDING now (ch1\<lparr>target_PanPos := pan_pos (preset ch1 ! k),
    target_TiltPos := tilt_pos (preset ch1 ! k), target_ZoomPos := zoom_pos (preset ch1 ! k)\<rparr>)"
  define s' where "s' = s\<lparr>ctl_ch := chs, ctl_status := n, ctl_tx := ctl_tx s @ camhld_tx 1 (recall_bytes k)\<rparr>"
  have s': "snd (teacher_blocks g now ! i) s = Inr s'"
    using b h commands_correct(5) [OF g, of k ch1 now]
    by (simp add: do_recall_def sent_next_def s'_def chs_def idle_holder_def)
  have c: "length (Rx_buf chs) = 16" "Rx_cnt chs = 0" using h(1) by (simp_all add: chs_def set_pending_def idle_holder_def)
  obtain buf where buf: "length buf = 16" "uart_rx (completion_bytes @ raw [0xff] @ []) chs = Inr ([], chs\<lparr>Rx_buf := buf,
      RspLen := 3, Rx_cnt := 0, PanPos := target_PanPos chs, TiltPos := target_TiltPos chs, ZoomPos := target_ZoomPos chs,
      command_pending := 0\<rparr>)" by (rule answer_completion [OF c])
  let ?ch2 = "chs\<lparr>Rx_buf := buf, RspLen := 3, Rx_cnt := 0, PanPos := target_PanPos chs, TiltPos := target_TiltPos chs,
    ZoomPos := target_ZoomPos chs, command_pending := 0\<rparr>"
  have cs: "ctl_ch s' = set_pending CH_COMPLETION_PENDING now (ch1\<lparr>target_PanPos := pan_pos (preset ch1 ! k),
    target_TiltPos := tilt_pos (preset ch1 ! k), target_ZoomPos := zoom_pos (preset ch1 ! k)\<rparr>)"
    by (simp add: s'_def chs_def)
  have "setup_turn g s (now, now', completion_bytes @ raw [0xff]) = Inr (s'\<lparr>ctl_ch := ?ch2\<rparr>)"
    by (rule setup_turn_answered [OF i s' cs _ _ t]) (use buf(2) h(1) in \<open>simp_all add: s'_def chs_def idle_holder_def\<close>)
  then show thesis
    using buf(1) h(1) by (intro that [of ?ch2]) (simp_all add: s'_def chs_def set_pending_def idle_holder_def)
qed

lemma getpos_turn:
  assumes g: "length g = CMD_BUFSIZE" and i: "i < 17" "ctl_status s = int i" "idle_holder (ctl_ch s)"
    and b: "snd (teacher_blocks g now ! i) s = do_getpos g now n s" and p: "pos_range p" "pos_range q"
    and t: "in_time (now, now', pos_answer p q @ raw [0xff])"
  obtains ch2 where "setup_turn g s (now, now', pos_answer p q @ raw [0xff]) =
      Inr (s\<lparr>ctl_ch := ch2, ctl_status := n, ctl_tx := ctl_tx s @ camhld_tx 1 posinq_bytes\<rparr>)"
    "idle_holder ch2" "preset ch2 = preset (ctl_ch s)" "PanPos ch2 = word_of_int p" "TiltPos ch2 = word_of_int q"
    "ZoomPos ch2 = ZoomPos (ctl_ch s)"
proof -
  define chs where "chs = set_pending CH_PTINQ_PENDING now (ctl_ch s)"
  define s' where "s' = s\<lparr>ctl_ch := chs, ctl_status := n, ctl_tx := ctl_tx s @ camhld_tx 1 posinq_bytes\<rparr>"
  have s': "snd (teacher_blocks g now ! i) s = Inr s'"
    using b i(3) commands_correct(2) [OF g, of now "ctl_ch s"]
    by (simp add: do_getpos_def sent_next_def s'_def chs_def idle_holder_def)
  have c: "length (Rx_buf chs) = 16" "Rx_cnt chs = 0" using i(3) by (simp_all add: chs_def set_pending_def idle_holder_def)
  obtain buf where buf: "length buf = 16" "uart_rx (pos_answer p q @ raw [0xff] @ []) chs = Inr ([], chs\<lparr>Rx_buf := buf,
      RspLen := 11, Rx_cnt := 0, PanPos := word_of_int p, TiltPos := word_of_int q, command_pending := 0\<rparr>)"
    by (rule answer_pos [OF c p])
  let ?ch2 = "chs\<lparr>Rx_buf := buf, RspLen := 11, Rx_cnt := 0, PanPos := word_of_int p, TiltPos := word_of_int q,
    command_pending := 0\<rparr>"
  have cs: "ctl_ch s' = set_pending CH_PTINQ_PENDING now (ctl_ch s)"
    by (simp add: s'_def chs_def)
  have "setup_turn g s (now, now', pos_answer p q @ raw [0xff]) = Inr (s'\<lparr>ctl_ch := ?ch2\<rparr>)"
    by (rule setup_turn_answered [OF i s' cs _ _ t]) (use buf(2) i(3) in \<open>simp_all add: s'_def chs_def idle_holder_def\<close>)
  then show thesis
    using buf(1) i(3) by (intro that [of ?ch2]) (simp_all add: s'_def chs_def set_pending_def idle_holder_def)
qed

lemma getzoom_turn:
  assumes g: "length g = CMD_BUFSIZE" and i: "i < 17" "ctl_status s = int i" "idle_holder (ctl_ch s)"
    and b: "snd (teacher_blocks g now ! i) s = do_getzoom g now n s" and z: "pos_range z"
    and t: "in_time (now, now', zoom_answer z @ raw [0xff])"
  obtains ch2 where "setup_turn g s (now, now', zoom_answer z @ raw [0xff]) =
      Inr (s\<lparr>ctl_ch := ch2, ctl_status := n, ctl_tx := ctl_tx s @ camhld_tx 1 zoominq_bytes\<rparr>)"
    "idle_holder ch2" "preset ch2 = preset (ctl_ch s)" "ZoomPos ch2 = word_of_int z"
proof -
  define chs where "chs = set_pending CH_ZOOMINQ_PENDING now (ctl_ch s)"
  define s' where "s' = s\<lparr>ctl_ch := chs, ctl_status := n, ctl_tx := ctl_tx s @ camhld_tx 1 zoominq_bytes\<rparr>"
  have s': "snd (teacher_blocks g now ! i) s = Inr s'"
    using b i(3) commands_correct(1) [OF g, of now "ctl_ch s"]
    by (simp add: do_getzoom_def sent_next_def s'_def chs_def idle_holder_def)
  have c: "length (Rx_buf chs) = 16" "Rx_cnt chs = 0" using i(3) by (simp_all add: chs_def set_pending_def idle_holder_def)
  obtain buf where buf: "length buf = 16" "uart_rx (zoom_answer z @ raw [0xff] @ []) chs = Inr ([], chs\<lparr>Rx_buf := buf,
      RspLen := 7, Rx_cnt := 0, ZoomPos := word_of_int z, command_pending := 0\<rparr>)" by (rule answer_zoom [OF c z])
  let ?ch2 = "chs\<lparr>Rx_buf := buf, RspLen := 7, Rx_cnt := 0, ZoomPos := word_of_int z, command_pending := 0\<rparr>"
  have cs: "ctl_ch s' = set_pending CH_ZOOMINQ_PENDING now (ctl_ch s)"
    by (simp add: s'_def chs_def)
  have "setup_turn g s (now, now', zoom_answer z @ raw [0xff]) = Inr (s'\<lparr>ctl_ch := ?ch2\<rparr>)"
    by (rule setup_turn_answered [OF i s' cs _ _ t]) (use buf(2) i(3) in \<open>simp_all add: s'_def chs_def idle_holder_def\<close>)
  then show thesis
    using buf(1) i(3) by (intro that [of ?ch2]) (simp_all add: s'_def chs_def set_pending_def idle_holder_def)
qed

section \<open>The dialogue of the set-up\<close>

text \<open>The command of turn \<open>i\<close>, and the answer of a camera whose preset \<open>k\<close> is at \<open>pos k\<close> and zoomed to \<open>zoom\<close>.\<close>

definition setup_command :: "nat \<Rightarrow> byte list" where
  "setup_command i = (if i = 1 then zoominq_bytes else if 2 \<le> i \<and> even i then posinq_bytes
     else recall_bytes (if i = 15 then 0 else (i - 1) div 2))"

definition setup_answer :: "(nat \<Rightarrow> int \<times> int) \<Rightarrow> int \<Rightarrow> nat \<Rightarrow> byte list" where
  "setup_answer pos zoom i =
     (if i = 16 then [] else
      (if i = 1 then zoom_answer zoom
       else if 2 \<le> i \<and> even i then pos_answer (fst (pos ((i - 2) div 2))) (snd (pos ((i - 2) div 2)))
       else completion_bytes) @ raw [0xff])"

definition dialogue :: "(nat \<Rightarrow> (int \<times> int) \<times> (int \<times> int)) \<Rightarrow> (nat \<Rightarrow> int \<times> int) \<Rightarrow> int \<Rightarrow> nat \<Rightarrow> turn list" where
  "dialogue time pos zoom n = map (\<lambda>i. (fst (time i), snd (time i), setup_answer pos zoom i)) [0 ..< n]"

definition learnt_preset :: "t_preset_pos list \<Rightarrow> (nat \<Rightarrow> int \<times> int) \<Rightarrow> int \<Rightarrow> nat \<Rightarrow> t_preset_pos" where
  "learnt_preset ps pos zoom k = \<lparr>pan_pos = word_of_int (fst (pos k)), tilt_pos = word_of_int (snd (pos k)),
     zoom_pos = (if k = 0 then word_of_int zoom else zoom_pos (ps ! k))\<rparr>"

definition learnt ::
    "t_preset_pos list \<Rightarrow> tx_add list \<Rightarrow> (nat \<Rightarrow> int \<times> int) \<Rightarrow> int \<Rightarrow> nat \<Rightarrow> 'f teacher_ctl \<Rightarrow> bool" where
  "learnt ps tx pos zoom k s \<longleftrightarrow> (let ch = ctl_ch s in
     idle_holder ch \<and> ctl_status s = int (2 * k + 3) \<and>
     \<lparr>pan_pos = PanPos ch, tilt_pos = TiltPos ch, zoom_pos = ZoomPos ch\<rparr> = learnt_preset ps pos zoom k \<and>
     preset ch = map (learnt_preset ps pos zoom) [0 ..< k] @ drop k ps \<and>
     ctl_tx s = tx @ concat (map (\<lambda>i. camhld_tx 1 (setup_command i)) [0 ..< 2 * k + 3]))"

lemma dialogue_Suc: "fold_res (setup_turn g) s (dialogue time pos zoom (Suc n)) =
  bind_res (fold_res (setup_turn g) s (dialogue time pos zoom n))
    (\<lambda>s'. setup_turn g s' (fst (time n), snd (time n), setup_answer pos zoom n))"
proof -
  have "bind_res x Inr = x" for x :: "'a teacher_ctl res" by (cases x) simp_all
  then show ?thesis by (simp add: dialogue_def fold_res_append)
qed

lemma dialogue_two:
  assumes "fold_res (setup_turn g) s (dialogue time pos zoom n) = Inr s'" and "n' = Suc n" and "n'' = Suc n'"
  shows "fold_res (setup_turn g) s (dialogue time pos zoom n'') =
    bind_res (setup_turn g s' (fst (time n), snd (time n), setup_answer pos zoom n))
      (\<lambda>s'. setup_turn g s' (fst (time n'), snd (time n'), setup_answer pos zoom n'))"
  unfolding assms(3) dialogue_Suc [of g s time pos zoom n'] unfolding assms(2) dialogue_Suc assms(1)
  by (simp only: bind_res.simps)

lemma less_7: "(k :: nat) < 6 \<Longrightarrow> k = 0 \<or> k = 1 \<or> k = 2 \<or> k = 3 \<or> k = 4 \<or> k = 5"
  by linarith

lemma blocks_save:
  assumes "k < 6"
  shows "snd (teacher_blocks g now ! (2 * k + 3)) s =
      bind_res (save_camholder_preset k (ctl_ch s)) (\<lambda>ch. do_recall g now (Suc k) (int (2 * k + 4)) (s\<lparr>ctl_ch := ch\<rparr>))"
    and "snd (teacher_blocks g now ! (2 * k + 4)) s = do_getpos g now (int (2 * k + 5)) s"
  using less_7 [OF assms] by (elim disjE; simp add: teacher_blocks_def save_recall_def eval_nat_numeral)+

lemma learnt_start:
  assumes g: "length g = CMD_BUFSIZE" and s: "ctl_status s = 0" "idle_holder (ctl_ch s)"
    and t: "\<forall>i<17. in_time (fst (time i), snd (time i), setup_answer pos zoom i)"
    and r: "\<forall>k. pos_range (fst (pos k)) \<and> pos_range (snd (pos k))" "pos_range zoom"
  shows "\<exists>s'. fold_res (setup_turn g) s (dialogue time pos zoom 3) = Inr s' \<and>
    learnt (preset (ctl_ch s)) (ctl_tx s) pos zoom 0 s'"
proof -
  let ?t = "\<lambda>i. (fst (time i), snd (time i), setup_answer pos zoom i)"
  have a: "setup_answer pos zoom 0 = completion_bytes @ raw [0xff]" "setup_answer pos zoom 1 = zoom_answer zoom @ raw [0xff]"
    "setup_answer pos zoom 2 = pos_answer (fst (pos 0)) (snd (pos 0)) @ raw [0xff]"
    by (simp_all add: setup_answer_def)
  have t': "in_time (?t 0)" "in_time (?t 1)" "in_time (?t 2)" using t by simp_all
  have b: "snd (teacher_blocks g now ! 0) s1 = do_recall g now 0 1 (s1\<lparr>ctl_ch := ctl_ch s1\<rparr>)"
    "snd (teacher_blocks g now ! 1) s1 = do_getzoom g now 2 s1" "snd (teacher_blocks g now ! 2) s1 = do_getpos g now 3 s1"
    for now and s1 :: "'a teacher_ctl"
    by (simp_all add: teacher_blocks_def)
  obtain ch1 where c1: "setup_turn g s (?t 0) =
      Inr (s\<lparr>ctl_ch := ch1, ctl_status := 1, ctl_tx := ctl_tx s @ camhld_tx 1 (recall_bytes 0)\<rparr>)"
    "idle_holder ch1" "preset ch1 = preset (ctl_ch s)"
    unfolding a(1) by (rule recall_turn [OF g _ _ s(2) b(1) s(2) _ t'(1) [unfolded a(1)]]) (simp_all add: s)
  define s1 where "s1 = s\<lparr>ctl_ch := ch1, ctl_status := 1, ctl_tx := ctl_tx s @ camhld_tx 1 (recall_bytes 0)\<rparr>"
  have i1: "idle_holder (ctl_ch s1)" using c1(2) by (simp add: s1_def)
  obtain ch2 where c2: "setup_turn g s1 (?t 1) =
      Inr (s1\<lparr>ctl_ch := ch2, ctl_status := 2, ctl_tx := ctl_tx s1 @ camhld_tx 1 zoominq_bytes\<rparr>)"
    "idle_holder ch2" "preset ch2 = preset (ctl_ch s1)" "ZoomPos ch2 = word_of_int zoom"
    unfolding a(2) by (rule getzoom_turn [OF g _ _ i1 b(2) r(2) t'(2) [unfolded a(2)]]) (simp_all add: s1_def)
  define s2 where "s2 = s1\<lparr>ctl_ch := ch2, ctl_status := 2, ctl_tx := ctl_tx s1 @ camhld_tx 1 zoominq_bytes\<rparr>"
  have i2: "idle_holder (ctl_ch s2)" using c2(2) by (simp add: s2_def)
  obtain ch3 where c3: "setup_turn g s2 (?t 2) =
      Inr (s2\<lparr>ctl_ch := ch3, ctl_status := 3, ctl_tx := ctl_tx s2 @ camhld_tx 1 posinq_bytes\<rparr>)"
    "idle_holder ch3" "preset ch3 = preset (ctl_ch s2)" "PanPos ch3 = word_of_int (fst (pos 0))"
    "TiltPos ch3 = word_of_int (snd (pos 0))" "ZoomPos ch3 = ZoomPos (ctl_ch s2)"
    unfolding a(3) by (rule getpos_turn [OF g _ _ i2 b(3) _ _ t'(3) [unfolded a(3)]]) (simp_all add: s2_def r)
  define s3 where "s3 = s2\<lparr>ctl_ch := ch3, ctl_status := 3, ctl_tx := ctl_tx s2 @ camhld_tx 1 posinq_bytes\<rparr>"
  have u: "[0 ..< 3] = [0, 1, 2 :: nat]" by (simp add: upt_rec)
  have "fold_res (setup_turn g) s (dialogue time pos zoom 3) = Inr s3"
    unfolding dialogue_def u using c1(1) c2(1) c3(1) by (simp add: s1_def s2_def s3_def)
  moreover have "learnt (preset (ctl_ch s)) (ctl_tx s) pos zoom 0 s3"
    using c1(3) c2(3,4) c3 by (simp add: learnt_def Let_def learnt_preset_def s1_def s2_def s3_def setup_command_def u)
  ultimately show ?thesis by blast
qed

lemma learnt_step:
  assumes g: "length g = CMD_BUFSIZE" and s: "learnt ps tx pos zoom k s" and k: "k < 6" "length ps = 16"
    and t: "\<forall>i<17. in_time (fst (time i), snd (time i), setup_answer pos zoom i)"
    and r: "\<forall>k. pos_range (fst (pos k)) \<and> pos_range (snd (pos k))"
  shows "\<exists>s'. bind_res (setup_turn g s (fst (time (2 * k + 3)), snd (time (2 * k + 3)), setup_answer pos zoom (2 * k + 3)))
      (\<lambda>s'. setup_turn g s' (fst (time (2 * k + 4)), snd (time (2 * k + 4)), setup_answer pos zoom (2 * k + 4))) = Inr s' \<and>
    learnt ps tx pos zoom (Suc k) s'"
proof -
  let ?a = "2 * k + 3" and ?b = "2 * k + 4"
  have a: "setup_answer pos zoom ?a = completion_bytes @ raw [0xff]"
    "setup_answer pos zoom ?b = pos_answer (fst (pos (Suc k))) (snd (pos (Suc k))) @ raw [0xff]"
    using k by (auto simp: setup_answer_def)
  have t': "in_time (fst (time ?a), snd (time ?a), setup_answer pos zoom ?a)"
    "in_time (fst (time ?b), snd (time ?b), setup_answer pos zoom ?b)" using t k by simp_all
  have ls: "idle_holder (ctl_ch s)" "ctl_status s = int ?a" "preset (ctl_ch s) = map (learnt_preset ps pos zoom) [0 ..< k] @ drop k ps"
    "\<lparr>pan_pos = PanPos (ctl_ch s), tilt_pos = TiltPos (ctl_ch s), zoom_pos = ZoomPos (ctl_ch s)\<rparr> = learnt_preset ps pos zoom k"
    "ctl_tx s = tx @ concat (map (\<lambda>i. camhld_tx 1 (setup_command i)) [0 ..< ?a])"
    using s by (simp_all add: learnt_def Let_def)
  have dk: "drop k ps = ps ! k # drop (Suc k) ps" "drop (Suc k) ps = ps ! Suc k # drop (Suc (Suc k)) ps"
    using k by (simp_all add: Cons_nth_drop_Suc)
  define ch0 where "ch0 = (ctl_ch s)\<lparr>preset := map (learnt_preset ps pos zoom) [0 ..< Suc k] @ drop (Suc k) ps\<rparr>"
  have sv: "save_camholder_preset k (ctl_ch s) = Inr ch0"
    using ls(3,4) k by (simp add: save_camholder_preset_def ch0_def list_update_append dk(1) learnt_preset_def)
  have i0: "idle_holder ch0" using ls(1) k by (simp add: ch0_def idle_holder_def)
  have pk: "preset ch0 ! Suc k = ps ! Suc k" using k by (simp add: ch0_def nth_append)
  have b: "snd (teacher_blocks g now ! ?a) s = do_recall g now (Suc k) (int ?b) (s\<lparr>ctl_ch := ch0\<rparr>)" for now
    using blocks_save(1) [OF k(1), of g now s] sv by simp
  obtain ch1 where c1: "setup_turn g s (fst (time ?a), snd (time ?a), setup_answer pos zoom ?a) =
      Inr (s\<lparr>ctl_ch := ch1, ctl_status := int ?b, ctl_tx := ctl_tx s @ camhld_tx 1 (recall_bytes (Suc k))\<rparr>)"
    "idle_holder ch1" "preset ch1 = preset ch0" "ZoomPos ch1 = zoom_pos (preset ch0 ! Suc k)"
    unfolding a(1) by (rule recall_turn [OF g _ ls(2) ls(1) b i0 _ t'(1) [unfolded a(1)]]) (use k in simp_all)
  define s1 where "s1 = s\<lparr>ctl_ch := ch1, ctl_status := int ?b, ctl_tx := ctl_tx s @ camhld_tx 1 (recall_bytes (Suc k))\<rparr>"
  have i1: "idle_holder (ctl_ch s1)" "ctl_status s1 = int ?b" using c1(2) by (simp_all add: s1_def)
  obtain ch2 where c2: "setup_turn g s1 (fst (time ?b), snd (time ?b), setup_answer pos zoom ?b) =
      Inr (s1\<lparr>ctl_ch := ch2, ctl_status := int (2 * k + 5), ctl_tx := ctl_tx s1 @ camhld_tx 1 posinq_bytes\<rparr>)"
    "idle_holder ch2" "preset ch2 = preset (ctl_ch s1)" "PanPos ch2 = word_of_int (fst (pos (Suc k)))"
    "TiltPos ch2 = word_of_int (snd (pos (Suc k)))" "ZoomPos ch2 = ZoomPos (ctl_ch s1)"
    unfolding a(2) by (rule getpos_turn [OF g _ i1(2,1) blocks_save(2) [OF k(1)] _ _ t'(2) [unfolded a(2)]])
      (use k r in simp_all)
  define s2 where "s2 = s1\<lparr>ctl_ch := ch2, ctl_status := int (2 * k + 5), ctl_tx := ctl_tx s1 @ camhld_tx 1 posinq_bytes\<rparr>"
  have "setup_command ?a = recall_bytes (Suc k)" "setup_command ?b = posinq_bytes"
    using k by (auto simp: setup_command_def)
  moreover have "[0 ..< 2 * Suc k + 3] = [0 ..< ?a] @ [?a, ?b]"
  proof -
    have "2 * Suc k + 3 = Suc (Suc ?a)" "?b = Suc ?a" by simp_all
    then show ?thesis by (simp only: upt_Suc_append le0 append_assoc append_Cons append_Nil)
  qed
  ultimately have "concat (map (\<lambda>i. camhld_tx 1 (setup_command i)) [0 ..< 2 * Suc k + 3]) =
      concat (map (\<lambda>i. camhld_tx 1 (setup_command i)) [0 ..< ?a]) @ camhld_tx 1 (recall_bytes (Suc k)) @ camhld_tx 1 posinq_bytes"
    by simp
  then have "learnt ps tx pos zoom (Suc k) s2"
    unfolding learnt_def Let_def using c1(3,4) c2(2-6) ls(5) pk
    by (simp add: s1_def s2_def learnt_preset_def ch0_def del: upt_Suc)
  then show ?thesis using c1(1) c2(1) by (simp add: s1_def s2_def)
qed

lemma learnt_all:
  assumes g: "length g = CMD_BUFSIZE" and s: "ctl_status s = 0" "idle_holder (ctl_ch s)"
    and t: "\<forall>i<17. in_time (fst (time i), snd (time i), setup_answer pos zoom i)"
    and r: "\<forall>k. pos_range (fst (pos k)) \<and> pos_range (snd (pos k))" "pos_range zoom"
  shows "k \<le> 6 \<Longrightarrow> \<exists>s'. fold_res (setup_turn g) s (dialogue time pos zoom (2 * k + 3)) = Inr s' \<and>
    learnt (preset (ctl_ch s)) (ctl_tx s) pos zoom k s'"
proof (induction k)
  case 0
  then show ?case using learnt_start [OF assms] by simp
next
  case (Suc k)
  then obtain s' where s': "fold_res (setup_turn g) s (dialogue time pos zoom (2 * k + 3)) = Inr s'"
    "learnt (preset (ctl_ch s)) (ctl_tx s) pos zoom k s'" by auto
  have "fold_res (setup_turn g) s (dialogue time pos zoom (2 * Suc k + 3)) =
      bind_res (setup_turn g s' (fst (time (2 * k + 3)), snd (time (2 * k + 3)), setup_answer pos zoom (2 * k + 3)))
        (\<lambda>s'. setup_turn g s' (fst (time (2 * k + 4)), snd (time (2 * k + 4)), setup_answer pos zoom (2 * k + 4)))"
    by (rule dialogue_two [OF s'(1)]) simp_all
  moreover have "length (preset (ctl_ch s)) = 16" using s(2) by (simp add: idle_holder_def)
  ultimately show ?case using learnt_step [OF g s'(2) _ _ t r(1)] Suc.prems by simp
qed

end
