(* ===== verification/Camera_Properties.thy ===== *)
theory Camera_Properties
  imports Camera_Setup
begin

text \<open>
  The properties of the camera holders: what the set-up of the teacher's camera learns when the camera
  answers, that there is one command in flight at any time, whatever the camera and the clock do, and
  what an answer without an end does.
\<close>

text \<open>A holder on the line A1 whose receive buffer is in order.\<close>

definition sound_holder :: "'f t_camera_holder \<Rightarrow> bool" where
  "sound_holder ch \<longleftrightarrow> length (Rx_buf ch) = 16 \<and> Rx_cnt ch \<le> 16 \<and> length (preset ch) = 16 \<and> uart_channel ch = 1"

section \<open>The set-up that is answered\<close>

lemma learnt_16:
  fixes time :: "nat \<Rightarrow> (int \<times> int) \<times> int \<times> int"
  assumes g: "length g = CMD_BUFSIZE" and s: "learnt ps tx pos zoom 6 s" "length ps = 16"
    and t: "in_time (fst (time 15), snd (time 15), setup_answer pos zoom 15)"
  obtains ch where "setup_turn g s (fst (time 15), snd (time 15), setup_answer pos zoom 15) =
      Inr (s\<lparr>ctl_ch := ch, ctl_status := 16, ctl_tx := ctl_tx s @ camhld_tx 1 (recall_bytes 0)\<rparr>)"
    "idle_holder ch" "preset ch = map (learnt_preset ps pos zoom) [0 ..< 7] @ drop 7 ps"
proof -
  have a: "setup_answer pos zoom 15 = completion_bytes @ raw [0xff]" by (simp add: setup_answer_def)
  have ls: "idle_holder (ctl_ch s)" "ctl_status s = int 15" "preset (ctl_ch s) = map (learnt_preset ps pos zoom) [0 ..< 6] @ drop 6 ps"
    "\<lparr>pan_pos = PanPos (ctl_ch s), tilt_pos = TiltPos (ctl_ch s), zoom_pos = ZoomPos (ctl_ch s)\<rparr> = learnt_preset ps pos zoom 6"
    using s(1) by (simp_all add: learnt_def Let_def del: upt_rec_numeral)
  define ch0 where "ch0 = (ctl_ch s)\<lparr>preset := map (learnt_preset ps pos zoom) [0 ..< 7] @ drop 7 ps\<rparr>"
  have u: "[0 ..< 7] = [0 ..< 6] @ [6 :: nat]" using upt_Suc_append [of 0 6] by simp
  have "drop 6 ps = ps ! 6 # drop (Suc 6) ps" using s(2) by (simp only: Cons_nth_drop_Suc)
  then have sv: "save_camholder_preset 6 (ctl_ch s) = Inr ch0"
    using ls(3,4) s(2) by (simp add: save_camholder_preset_def ch0_def list_update_append u del: upt_rec_numeral)
  have i0: "idle_holder ch0" using ls(1) s(2) by (simp add: ch0_def idle_holder_def del: upt_rec_numeral)
  have b: "snd (teacher_blocks g now ! 15) s = do_recall g now 0 16 (s\<lparr>ctl_ch := ch0\<rparr>)" for now
    using sv by (simp add: teacher_blocks_def save_recall_def)
  obtain ch where c: "setup_turn g s (fst (time 15), snd (time 15), setup_answer pos zoom 15) =
      Inr (s\<lparr>ctl_ch := ch, ctl_status := 16, ctl_tx := ctl_tx s @ camhld_tx 1 (recall_bytes 0)\<rparr>)"
    "idle_holder ch" "preset ch = preset ch0"
    unfolding a by (rule recall_turn [OF g _ ls(2,1) b i0 _ t [unfolded a]]) simp_all
  have "preset ch = map (learnt_preset ps pos zoom) [0 ..< 7] @ drop 7 ps"
    unfolding c(3) by (simp add: ch0_def del: upt_rec_numeral)
  then show thesis using that c(1,2) by blast
qed

text \<open>The last turn has nothing in flight and sends nothing.\<close>

lemma limits_turn:
  assumes "ctl_status s = 16" and "idle_holder (ctl_ch s)" and "set_limits s = Inr s'"
  shows "setup_turn g s (now, now', []) = Inr s'"
proof -
  have n: "\<not> get_camholder_pending_state (ctl_ch s)" "snd (teacher_blocks g now ! 16) s = Inr s'"
    using assms(2,3) by (simp_all add: idle_holder_def get_camholder_pending_state_def teacher_blocks_def)
  have s': "ctl_status s' = 17" "ctl_ch s' = ctl_ch s" using assms(3) by (auto simp: set_limits_def Let_def split: if_splits)
  have "teacher_setup g now now' s = Inr (watch 17 now' s')"
    by (rule teacher_setup_at [OF _ _ n]) (simp_all add: assms(1) s')
  then show ?thesis using n(1) s' by (simp add: setup_turn_def watch_def)
qed

lemma sint_pos: "pos_range p \<Longrightarrow> sint (word_of_int p :: u32) = p"
  by (simp add: pos_range_def int_word_sint)

lemma set_limits_ordered:
  assumes "set_limits s = Inr s'"
    and "pan_pos (preset (ctl_ch s) ! 1) = word_of_int p1" and "pan_pos (preset (ctl_ch s) ! 2) = word_of_int p2"
    and "pan_pos (preset (ctl_ch s) ! 5) = word_of_int p5" and "pan_pos (preset (ctl_ch s) ! 6) = word_of_int p6"
    and "pos_range p1" "pos_range p2" "pos_range p5" "pos_range p6"
  shows "sint (limit_left s') = min p1 p2" "sint (limit_right s') = max p1 p2"
    "sint (exclude_left s') = min p5 p6" "sint (exclude_right s') = max p5 p6"
  using assms by (auto simp: set_limits_def Let_def word_sless_alt sint_pos split: if_splits)

lemma dialogue_17:
  assumes "fold_res (setup_turn g) s (dialogue time pos zoom 15) = Inr s1"
    and "setup_turn g s1 (fst (time 15), snd (time 15), setup_answer pos zoom 15) = Inr s2"
  shows "fold_res (setup_turn g) s (dialogue time pos zoom 17) = setup_turn g s2 (fst (time 16), snd (time 16), [])"
  using dialogue_two [OF assms(1), of 16 17] assms(2) by (simp add: setup_answer_def)

lemma setup_sent: "map (\<lambda>i. camhld_tx 1 (setup_command i)) [0 ..< 15] @ [camhld_tx 1 (recall_bytes 0)] =
  map (\<lambda>i. camhld_tx 1 (setup_command i)) [0 ..< 16]"
proof -
  have "[0 ..< 16] = [0 ..< 15] @ [15 :: nat]" using upt_Suc_append [of 0 15] by simp
  moreover have "setup_command 15 = recall_bytes 0" by (simp add: setup_command_def)
  ultimately show ?thesis by (simp del: upt_rec_numeral)
qed

text \<open>
  C12. The set-up of the teacher's camera. When the camera answers each command in time, seventeen turns
  of the loop bring the status from 0 to 17: sixteen commands have been sent, one per turn, presets 0 to
  6 hold the pan and tilt positions the camera reported, the limits of the tracking are the positions of
  presets 1 and 2 in order, and the excluded zone lies between presets 5 and 6. Only preset 0 gets the
  reported zoom: the others keep the zoom that was in the table before the set-up.
\<close>

theorem setup_learns:
  assumes "length g = CMD_BUFSIZE" and "ctl_status s = 0" and "idle_holder (ctl_ch s)"
    and "\<forall>i<17. in_time (fst (time i), snd (time i), setup_answer pos zoom i)"
    and "\<forall>k. pos_range (fst (pos k)) \<and> pos_range (snd (pos k))" and "pos_range zoom"
  shows "\<exists>s'. fold_res (setup_turn g) s (dialogue time pos zoom 17) = Inr s' \<and> ctl_status s' = 17 \<and>
    ctl_tx s' = ctl_tx s @ concat (map (\<lambda>i. camhld_tx 1 (setup_command i)) [0 ..< 16]) \<and>
    preset (ctl_ch s') = map (learnt_preset (preset (ctl_ch s)) pos zoom) [0 ..< 7] @ drop 7 (preset (ctl_ch s)) \<and>
    sint (limit_left s') = min (fst (pos 1)) (fst (pos 2)) \<and> sint (limit_right s') = max (fst (pos 1)) (fst (pos 2)) \<and>
    sint (exclude_left s') = min (fst (pos 5)) (fst (pos 6)) \<and> sint (exclude_right s') = max (fst (pos 5)) (fst (pos 6))"
proof -
  let ?ps = "preset (ctl_ch s)"
  obtain s1 where s1: "fold_res (setup_turn g) s (dialogue time pos zoom 15) = Inr s1" "learnt ?ps (ctl_tx s) pos zoom 6 s1"
    using learnt_all [OF assms, of 6] by auto
  have l: "length ?ps = 16" using assms(3) by (simp add: idle_holder_def)
  have t: "in_time (fst (time 15), snd (time 15), setup_answer pos zoom 15)" using assms(4) by simp
  obtain ch where c: "setup_turn g s1 (fst (time 15), snd (time 15), setup_answer pos zoom 15) =
      Inr (s1\<lparr>ctl_ch := ch, ctl_status := 16, ctl_tx := ctl_tx s1 @ camhld_tx 1 (recall_bytes 0)\<rparr>)"
    "idle_holder ch" "preset ch = map (learnt_preset ?ps pos zoom) [0 ..< 7] @ drop 7 ?ps"
    by (rule learnt_16 [where time = time and ps = ?ps and pos = pos and zoom = zoom, OF assms(1) s1(2) l t])
  define s2 where "s2 = s1\<lparr>ctl_ch := ch, ctl_status := 16, ctl_tx := ctl_tx s1 @ camhld_tx 1 (recall_bytes 0)\<rparr>"
  obtain s3 where s3: "set_limits s2 = Inr s3" by (simp add: set_limits_def Let_def)
  have f: "ctl_status s3 = 17" "ctl_ch s3 = ch" "ctl_tx s3 = ctl_tx s2"
    using s3 by (auto simp: set_limits_def Let_def s2_def split: if_splits)
  have "fold_res (setup_turn g) s (dialogue time pos zoom 17) = Inr s3"
    unfolding dialogue_17 [OF s1(1) c(1)] by (rule limits_turn) (use c(2) s3 in \<open>simp_all add: s2_def\<close>)
  moreover have "ctl_tx s3 = ctl_tx s @ concat (map (\<lambda>i. camhld_tx 1 (setup_command i)) [0 ..< 16])"
    using s1(2) f(3) by (simp add: s2_def learnt_def Let_def setup_sent [symmetric] del: upt_rec_numeral)
  moreover have p: "pan_pos (preset (ctl_ch s2) ! k) = word_of_int (fst (pos k))" if "k < 7" for k
    using that c(3) by (simp add: s2_def nth_append learnt_preset_def del: upt_rec_numeral)
  note set_limits_ordered [OF s3 p p p p]
  ultimately show ?thesis using f c(3) assms(5) by simp
qed

text \<open>A concrete camera, for examples: the values of \<^verbatim>\<open>camera_holder_init\<close> on a cleared structure.\<close>

definition cleared_holder :: "rat t_camera_holder" where
  "cleared_holder = camera_holder_init rat_fp \<lparr>uart_channel = 1, Rx_buf = replicate 16 (CHR 0x00), Rx_cnt = 0, RspLen = 0,
     command_pending = 0, PanPos = 0, TiltPos = 0, ZoomPos = 0, target_PanPos = 0, target_TiltPos = 0, target_ZoomPos = 0,
     pan_min = 0, pan_max = 0, tilt_min = 0, tilt_max = 0, zoom_min = 0, zoom_max = 0, panspeed_use = 0,
     tiltspeed_use = 0, view_angle_min = 0, view_angle_max = 0, pan_angle_left = 0, pan_angle_right = 0,
     tilt_angle_up = 0, tilt_angle_down = 0, hold_tv = (0, 0),
     preset = replicate 16 \<lparr>pan_pos = 0, tilt_pos = 0, zoom_pos = 0\<rparr>\<rparr>"

definition cleared_ctl :: "int \<Rightarrow> rat teacher_ctl" where
  "cleared_ctl n = \<lparr>ctl_ch = cleared_holder, ctl_status = n, ctl_tx = [], limit_left = 0, limit_right = 0,
     exclude_left = 0, exclude_right = 0\<rparr>"

lemma cleared_ctl_simps [simp]:
  "idle_holder (ctl_ch (cleared_ctl n))" "sound_holder (ctl_ch (cleared_ctl n))" "ctl_status (cleared_ctl n) = n"
  "ctl_tx (cleared_ctl n) = []" "length (Rx_buf cleared_holder) = 16" "Rx_cnt cleared_holder = 0"
  by (simp_all add: cleared_ctl_def cleared_holder_def camera_holder_init_def idle_holder_def sound_holder_def)

text \<open>Preset \<open>k\<close> at pan position 400 - 100 \<open>k\<close>, one turn per second.\<close>

theorem setup_learns_witness:
  "\<exists>s'. fold_res (setup_turn (replicate CMD_BUFSIZE (CHR 0x00))) (cleared_ctl 0)
      (dialogue (\<lambda>i. ((int i, 0), (int i, 500))) (\<lambda>k. (400 - 100 * (int k mod 7), 30)) 1000 17) = Inr s' \<and>
    ctl_status s' = 17 \<and> sint (limit_left s') = 200 \<and> sint (limit_right s') = 300 \<and>
    sint (exclude_left s') = - 200 \<and> sint (exclude_right s') = - 100"
proof -
  define time where "time = (\<lambda>i. ((int i, 0 :: int), (int i, 500 :: int)))"
  define pos where "pos = (\<lambda>k. (400 - 100 * (int k mod 7), 30 :: int))"
  define g where "g = replicate CMD_BUFSIZE (CHR 0x00)"
  have "pos_range (400 - 100 * (int k mod 7))" for k
  proof -
    have "0 \<le> int k mod 7" "int k mod 7 < 7" by (rule pos_mod_sign, simp) (rule pos_mod_bound, simp)
    then show ?thesis unfolding pos_range_def by linarith
  qed
  then have "\<forall>k. pos_range (fst (pos k)) \<and> pos_range (snd (pos k))" "pos_range 1000" by (simp_all add: pos_def pos_range_def)
  moreover have "\<forall>i<17. in_time (fst (time i), snd (time i), setup_answer pos 1000 i)" by (simp add: in_time_def time_def)
  moreover have "length g = CMD_BUFSIZE" by (simp add: g_def)
  moreover have "fst (pos 1) = 300" "fst (pos 2) = 200" "fst (pos 5) = - 100" "fst (pos 6) = - 200"
    by (simp_all add: pos_def)
  ultimately have "\<exists>s'. fold_res (setup_turn g) (cleared_ctl 0) (dialogue time pos 1000 17) = Inr s' \<and> ctl_status s' = 17 \<and>
    sint (limit_left s') = 200 \<and> sint (limit_right s') = 300 \<and> sint (exclude_left s') = - 200 \<and> sint (exclude_right s') = - 100"
    using setup_learns [of g "cleared_ctl 0" time pos 1000] by force
  then show ?thesis unfolding time_def pos_def g_def .
qed

section \<open>Lost answers\<close>

definition same_line :: "'f t_camera_holder \<Rightarrow> 'f t_camera_holder \<Rightarrow> bool" where
  "same_line ch ch1 \<longleftrightarrow> Rx_buf ch1 = Rx_buf ch \<and> Rx_cnt ch1 = Rx_cnt ch \<and> length (preset ch1) = length (preset ch) \<and>
     uart_channel ch1 = uart_channel ch \<and> command_pending ch1 = command_pending ch"

lemma same_line_refl [simp]: "same_line ch ch"
  by (simp add: same_line_def)

lemma same_line_idle: "same_line ch ch1 \<Longrightarrow> idle_holder ch1 = idle_holder ch"
  by (auto simp: same_line_def idle_holder_def)

text \<open>What the block of status \<open>i\<close> does when nothing is pending.\<close>

lemma setup_sends:
  assumes g: "length g = CMD_BUFSIZE" and i: "i < 16" "uart_channel (ctl_ch s) = 1" "length (preset (ctl_ch s)) = 16"
  shows "\<exists>s' f ch1. snd (teacher_blocks g now ! i) s = Inr s' \<and> ctl_status s' = int i + 1 \<and>
    ctl_tx s' = ctl_tx s @ camhld_tx 1 (setup_command i) \<and> f \<in> {1, 2, 4} \<and> ctl_ch s' = set_pending f now ch1 \<and>
    same_line (ctl_ch s) ch1"
proof -
  note send = do_recall_def do_getpos_def do_getzoom_def sent_next_def commands_correct [OF g]
  have sv: "\<exists>ch. save_camholder_preset k (ctl_ch s) = Inr ch \<and> same_line (ctl_ch s) ch" if "k < 16" for k
    using i(3) that by (simp add: save_camholder_preset_def same_line_def)
  have re: "\<exists>s' f ch1. do_recall g now k n (s\<lparr>ctl_ch := ch\<rparr>) = Inr s' \<and> ctl_status s' = n \<and>
      ctl_tx s' = ctl_tx s @ camhld_tx 1 (recall_bytes k) \<and> f \<in> {1, 2, 4} \<and> ctl_ch s' = set_pending f now ch1 \<and> same_line (ctl_ch s) ch1"
    if "same_line (ctl_ch s) ch" "k < 16" for ch k n
  proof -
    define ch1 where "ch1 = ch\<lparr>target_PanPos := pan_pos (preset ch ! k), target_TiltPos := tilt_pos (preset ch ! k),
      target_ZoomPos := zoom_pos (preset ch ! k)\<rparr>"
    have "same_line (ctl_ch s) ch1" "do_recall g now k n (s\<lparr>ctl_ch := ch\<rparr>) = Inr (s\<lparr>ctl_ch := set_pending 1 now ch1, ctl_status := n,
        ctl_tx := ctl_tx s @ camhld_tx 1 (recall_bytes k)\<rparr>)"
      using that i(2,3) by (simp_all add: ch1_def same_line_def send)
    then show ?thesis by fastforce
  qed
  consider "i = 0" | "i = 1" | "2 \<le> i" "even i" | "2 \<le> i" "odd i" by linarith
  then show ?thesis
  proof cases
    case 1
    then show ?thesis using re [of "ctl_ch s" 0 1] i(2) by (simp add: teacher_blocks_def setup_command_def)
  next
    case 2
    then show ?thesis using i(2)
      by (simp add: teacher_blocks_def setup_command_def send) fastforce
  next
    case 3
    then have "i \<in> {2, 4, 6, 8, 10, 12, 14}" using i(1) by (auto elim!: evenE)
    then have "snd (teacher_blocks g now ! i) s = do_getpos g now (int i + 1) s"
      by (auto simp: teacher_blocks_def)
    then show ?thesis using 3 i(2) by (simp add: setup_command_def send) fastforce
  next
    case 4
    obtain b where "i = 2 * b + 1" using 4(2) by (rule oddE)
    then obtain k where ik: "i = 2 * k + 3" using 4(1) that [of "b - 1"] by simp
    have k: "k < 7" "setup_command i = recall_bytes (if k = 6 then 0 else Suc k)"
      using i(1) by (auto simp: ik setup_command_def)
    have "k \<in> {0, 1, 2, 3, 4, 5, 6}" using i(1) by (auto simp: ik)
    then have "snd (teacher_blocks g now ! i) s = save_recall g now k (if k = 6 then 0 else Suc k) (int i + 1) s"
      by (auto simp: ik teacher_blocks_def simp flip: numeral_2_eq_2)
    moreover obtain ch where "save_camholder_preset k (ctl_ch s) = Inr ch" "same_line (ctl_ch s) ch" using sv [of k] k(1) by auto
    ultimately show ?thesis using re [of ch "if k = 6 then 0 else Suc k" "int i + 1"] k
      by (auto simp: save_recall_def)
  qed
qed

lemma setup_turn_sends:
  assumes g: "length g = CMD_BUFSIZE" and i: "i < 16" "idle_holder (ctl_ch s)" and s: "ctl_status s = int i"
    and t: "in_time (now, now', [])"
  shows "\<exists>s' f ch1. setup_turn g s (now, now', []) = Inr s' \<and> ctl_status s' = int i + 1 \<and>
    ctl_tx s' = ctl_tx s @ camhld_tx 1 (setup_command i) \<and> f \<in> {1, 2, 4} \<and> ctl_ch s' = set_pending f now ch1 \<and>
    idle_holder ch1"
proof -
  obtain s' f ch1 where s': "snd (teacher_blocks g now ! i) s = Inr s'" "ctl_status s' = int i + 1"
    "ctl_tx s' = ctl_tx s @ camhld_tx 1 (setup_command i)" "f \<in> {1, 2, 4}" "ctl_ch s' = set_pending f now ch1"
    "same_line (ctl_ch s) ch1"
    using setup_sends [OF g i(1), of s now] i(2) unfolding idle_holder_def by blast
  then have id: "idle_holder ch1" using i(2) same_line_idle by blast
  then have "command_pending ch1 = 0" by (simp add: idle_holder_def)
  then have "setup_turn g s (now, now', []) = Inr (s'\<lparr>ctl_ch := ctl_ch s'\<rparr>)"
    by (intro setup_turn_answered [OF _ s i(2) s'(1,5) _ s'(4) t, where rest = "[]"]) (use i(1) in simp_all)
  then show ?thesis using s'(2-5) id by auto
qed

text \<open>
  A lost answer. When no answer to the command of status \<open>i\<close> arrives and the next turn comes more than
  ten seconds later, the status is back at \<open>i\<close> with nothing in flight, and a third turn sends the same
  command again.
\<close>

theorem setup_resends:
  assumes "length g = CMD_BUFSIZE" and "i < 16" and "idle_holder (ctl_ch s)" and "ctl_status s = int i"
    and "in_time (t0, t0', [])" and "\<not> in_time (t0, t1', [])" and "in_time (t2, t2', [])"
  shows "\<exists>s2 s3. fold_res (setup_turn g) s [(t0, t0', []), (t1, t1', [])] = Inr s2 \<and>
    ctl_status s2 = int i \<and> idle_holder (ctl_ch s2) \<and> ctl_tx s2 = ctl_tx s @ camhld_tx 1 (setup_command i) \<and>
    setup_turn g s2 (t2, t2', []) = Inr s3 \<and> ctl_tx s3 = ctl_tx s2 @ camhld_tx 1 (setup_command i)"
proof -
  obtain s1 f ch1 where s1: "setup_turn g s (t0, t0', []) = Inr s1" "ctl_status s1 = int i + 1"
    "ctl_tx s1 = ctl_tx s @ camhld_tx 1 (setup_command i)" "f \<in> {1, 2, 4}" "ctl_ch s1 = set_pending f t0 ch1"
    "idle_holder ch1" using setup_turn_sends [OF assms(1-5)] by blast
  have p: "get_camholder_pending_state (ctl_ch s1)" "\<not> get_camholder_err (ctl_ch s1)"
    using s1(4,6) by (auto simp: s1(5) set_pending_def get_camholder_pending_state_def get_camholder_err_def idle_holder_def)
  have "camholder_command_timeout t1' 10 (ctl_ch s1)"
    using assms(6) by (auto simp: s1(5) set_pending_def camholder_command_timeout_def in_time_def split: prod.splits)
  then have w: "watch 17 t1' s1 = step_back 17 s1" using p by (simp add: watch_def)
  define s2 where "s2 = step_back 17 s1"
  have s2: "ctl_status s2 = int i" "idle_holder (ctl_ch s2)" "ctl_tx s2 = ctl_tx s1"
    using s1(2,6) assms(2)
    by (simp_all add: s2_def step_back_def s1(5) set_pending_def idle_holder_def camholder_reset_pending_state_def)
  have "setup_turn g s1 (t1, t1', []) = Inr s2"
    using p(1) w by (simp add: setup_turn_def teacher_setup_def run_blocks_pending s2_def)
  then have "fold_res (setup_turn g) s [(t0, t0', []), (t1, t1', [])] = Inr s2" using s1(1) by simp
  then show ?thesis using setup_turn_sends [OF assms(1,2) s2(2,1) assms(7)] s1(3) s2 by metis
qed

theorem setup_resends_witness:
  "\<exists>s2 s3. fold_res (setup_turn (replicate CMD_BUFSIZE (CHR 0x00))) (cleared_ctl 6) [((0, 0), (0, 9), []), ((11, 0), (11, 9), [])] =
      Inr s2 \<and> ctl_status s2 = 6 \<and> ctl_tx s2 = camhld_tx 1 posinq_bytes \<and>
    setup_turn (replicate CMD_BUFSIZE (CHR 0x00)) s2 ((12, 0), (12, 9), []) = Inr s3 \<and>
    ctl_tx s3 = camhld_tx 1 posinq_bytes @ camhld_tx 1 posinq_bytes"
proof -
  let ?g = "replicate CMD_BUFSIZE (CHR 0x00)"
  have c: "setup_command 6 = posinq_bytes" by (simp add: setup_command_def)
  have "in_time ((0, 0), (0, 9), [])" "\<not> in_time ((0, 0), (11, 9), [])" "in_time ((12, 0), (12, 9), [])"
    by (simp_all add: in_time_def)
  from setup_resends [of ?g 6 "cleared_ctl 6", OF _ _ _ _ this, of "(11, 0)"] show ?thesis
    unfolding c by auto
qed

section \<open>Whatever the camera and the clock do\<close>

definition setup_ok :: "'f teacher_ctl \<Rightarrow> bool" where
  "setup_ok s \<longleftrightarrow> 0 \<le> ctl_status s \<and> ctl_status s \<le> 17 \<and> sound_holder (ctl_ch s)"

lemma byte2int_total: "4 \<le> length xs \<Longrightarrow> \<exists>w. byte2int xs = Inr w"
  by (simp add: byte2int_def mem_read_def Let_def)

lemma update_camholder_ctx_sound:
  assumes "sound_holder ch"
  shows "\<exists>ch'. update_camholder_ctx ch = Inr ch' \<and> sound_holder ch'"
proof -
  have "4 \<le> length (drop 2 (Rx_buf ch))" "4 \<le> length (drop 6 (Rx_buf ch))" using assms by (simp_all add: sound_holder_def)
  then obtain p t where "byte2int (drop 2 (Rx_buf ch)) = Inr p" "byte2int (drop 6 (Rx_buf ch)) = Inr t"
    using byte2int_total by meson
  then show ?thesis using assms by (simp add: update_camholder_ctx_def sound_holder_def)
qed

lemma uart_byte_sound:
  assumes "sound_holder ch"
  shows "uart_byte b ch = Inl Buffer_Overflow \<or> (\<exists>stop ch'. uart_byte b ch = Inr (stop, ch') \<and> sound_holder ch')"
proof (cases "length (Rx_buf ch) \<le> Rx_cnt ch")
  case False
  define ch1 where "ch1 = ch\<lparr>Rx_buf := (Rx_buf ch)[Rx_cnt ch := b], Rx_cnt := Rx_cnt ch + 1\<rparr>"
  have "sound_holder ch1" "sound_holder (ch1\<lparr>RspLen := Rx_cnt ch1, Rx_cnt := 0\<rparr>)"
    using assms False by (simp_all add: sound_holder_def ch1_def)
  moreover obtain ch2 where "update_camholder_ctx (ch1\<lparr>RspLen := Rx_cnt ch1, Rx_cnt := 0\<rparr>) = Inr ch2" "sound_holder ch2"
    using update_camholder_ctx_sound [OF calculation(2)] by blast
  moreover have "uart_byte b ch = (if Rx_buf ch1 ! (Rx_cnt ch1 - 1) = char_of (0xff :: nat)
      then bind_res (update_camholder_ctx (ch1\<lparr>RspLen := Rx_cnt ch1, Rx_cnt := 0\<rparr>)) (\<lambda>ch2. Inr (True, ch2)) else Inr (False, ch1))"
    unfolding uart_byte_def ch1_def Let_def using False by (simp only: if_False)
  ultimately show ?thesis by (simp only: bind_res.simps) auto
qed (simp add: uart_byte_def)

lemma uart_rx_sound:
  "sound_holder ch \<Longrightarrow>
   uart_rx bs ch = Inl Buffer_Overflow \<or> (\<exists>rest ch'. uart_rx bs ch = Inr (rest, ch') \<and> sound_holder ch')"
proof (induction bs arbitrary: ch)
  case (Cons b bs)
  consider "uart_byte b ch = Inl Buffer_Overflow" | stop ch' where "uart_byte b ch = Inr (stop, ch')" "sound_holder ch'"
    using uart_byte_sound [OF Cons.prems, of b] by blast
  then show ?case using Cons.IH by cases auto
qed simp

lemma set_pending_sound [simp]: "sound_holder (set_pending f now ch) = sound_holder ch"
  by (simp add: set_pending_def sound_holder_def)

lemma same_line_sound: "same_line ch ch1 \<Longrightarrow> sound_holder ch \<Longrightarrow> sound_holder ch1"
  by (simp add: same_line_def sound_holder_def)

lemma watch_sound:
  "setup_ok s \<Longrightarrow> setup_ok (watch 17 now s) \<and> ctl_tx (watch 17 now s) = ctl_tx s \<and>
    ctl_status s - 2 \<le> ctl_status (watch 17 now s) \<and> ctl_status (watch 17 now s) \<le> ctl_status s"
  by (auto simp: watch_def step_back_def setup_ok_def sound_holder_def camholder_reset_pending_state_def Let_def)

lemma teacher_blocks_sound:
  assumes g: "length g = CMD_BUFSIZE" and s: "setup_ok s"
  obtains s' where "run_blocks (teacher_blocks g now) s = Inr s'" "setup_ok s'"
    "ctl_status s \<le> ctl_status s'" "ctl_status s' \<le> ctl_status s + 1"
    "ctl_tx s' = ctl_tx s \<or> \<not> get_camholder_pending_state (ctl_ch s) \<and> get_camholder_pending_state (ctl_ch s') \<and>
      (\<exists>i<16. ctl_status s = int i \<and> ctl_tx s' = ctl_tx s @ camhld_tx 1 (setup_command i))"
proof -
  define i where "i = nat (ctl_status s)"
  have i: "ctl_status s = int i" "i \<le> 17" using s by (auto simp: i_def setup_ok_def)
  consider (busy) "get_camholder_pending_state (ctl_ch s)" | (finished) "i = 17" |
    (limits) "i = 16" "\<not> get_camholder_pending_state (ctl_ch s)" | (send) "i < 16" "\<not> get_camholder_pending_state (ctl_ch s)"
    using i(2) by linarith
  then show thesis
  proof cases
    case busy
    then show ?thesis using that [of s] s by (simp add: run_blocks_pending)
  next
    case finished
    then have "run_blocks (teacher_blocks g now) s = Inr s"
      using teacher_block_indices(4) [of g now] i(1) by (intro run_blocks_other) fastforce
    then show ?thesis using that [of s] s by simp
  next
    case limits
    obtain s' where s': "set_limits s = Inr s'" by (simp add: set_limits_def Let_def)
    then have f: "ctl_status s' = 17" "ctl_ch s' = ctl_ch s" "ctl_tx s' = ctl_tx s"
      by (auto simp: set_limits_def Let_def split: if_splits)
    have "run_blocks (teacher_blocks g now) s = Inr s'"
      using limits s' f i(1) by (intro teacher_blocks_at [of 16]) (auto simp: teacher_blocks_def)
    then show ?thesis using that f s limits i(1) by (simp add: setup_ok_def)
  next
    case send
    have "uart_channel (ctl_ch s) = 1" "length (preset (ctl_ch s)) = 16" using s by (simp_all add: setup_ok_def sound_holder_def)
    from setup_sends [OF g send(1) this, of now] obtain s' f ch1 where
      s': "snd (teacher_blocks g now ! i) s = Inr s'" "ctl_status s' = int i + 1"
        "ctl_tx s' = ctl_tx s @ camhld_tx 1 (setup_command i)" "f \<in> {1, 2, 4}" "ctl_ch s' = set_pending f now ch1"
        "same_line (ctl_ch s) ch1" by blast
    have p: "get_camholder_pending_state (ctl_ch s')"
      using s'(4,6) send(2) by (auto simp: s'(5) set_pending_def get_camholder_pending_state_def same_line_def)
    moreover have "run_blocks (teacher_blocks g now) s = Inr s'"
      using send i(1) p s'(1) by (intro teacher_blocks_at [of i]) simp_all
    moreover have "setup_ok s'"
      using s s'(2,5,6) send(1) same_line_sound [of "ctl_ch s" ch1] by (simp add: setup_ok_def)
    ultimately show ?thesis using that [of s'] s' i(1) send by auto
  qed
qed

text \<open>
  C13. One command in flight. Whatever bytes arrive and however late a turn is, a turn of the set-up sends at
  most one command, the one of the present status, and sends none while an answer is awaited; the status
  stays between 0 and 17 and moves by at most one forward and two back. The only error is an answer that
  does not end within the sixteen bytes of the receive buffer.
\<close>

theorem setup_one_in_flight:
  assumes "length g = CMD_BUFSIZE" and "setup_ok s"
  shows "case setup_turn g s (now, now', inb) of Inl e \<Rightarrow> e = Buffer_Overflow
    | Inr s' \<Rightarrow> setup_ok s' \<and> ctl_status s - 2 \<le> ctl_status s' \<and> ctl_status s' \<le> ctl_status s + 1 \<and>
        (ctl_tx s' = ctl_tx s \<or> \<not> get_camholder_pending_state (ctl_ch s) \<and>
          (\<exists>i<16. ctl_status s = int i \<and> ctl_tx s' = ctl_tx s @ camhld_tx 1 (setup_command i)))"
proof -
  obtain s1 where s1: "run_blocks (teacher_blocks g now) s = Inr s1" "setup_ok s1"
    "ctl_status s \<le> ctl_status s1" "ctl_status s1 \<le> ctl_status s + 1"
    "ctl_tx s1 = ctl_tx s \<or> \<not> get_camholder_pending_state (ctl_ch s) \<and> get_camholder_pending_state (ctl_ch s1) \<and>
      (\<exists>i<16. ctl_status s = int i \<and> ctl_tx s1 = ctl_tx s @ camhld_tx 1 (setup_command i))"
    by (rule teacher_blocks_sound [OF assms])
  define s2 where "s2 = watch 17 now' s1"
  have s2: "setup_ok s2" "ctl_tx s2 = ctl_tx s1" "ctl_status s1 - 2 \<le> ctl_status s2" "ctl_status s2 \<le> ctl_status s1"
    using watch_sound [OF s1(2), of now'] by (simp_all add: s2_def)
  have "setup_turn g s (now, now', inb) = bind_res (uart_rx inb (ctl_ch s2)) (\<lambda>(rest, ch). Inr (s2\<lparr>ctl_ch := ch\<rparr>))"
    using s1(1) by (simp add: setup_turn_def teacher_setup_def s2_def)
  moreover have "sound_holder (ctl_ch s2)" using s2(1) by (simp add: setup_ok_def)
  note uart_rx_sound [OF this, of inb]
  ultimately show ?thesis using s1(3-5) s2 by (auto simp: setup_ok_def)
qed

theorem setup_one_in_flight_witness:
  "case setup_turn (replicate CMD_BUFSIZE (CHR 0x00)) (cleared_ctl 3) ((0, 0), (99, 0), raw [1, 2, 0xff]) of
     Inl e \<Rightarrow> e = Buffer_Overflow | Inr s' \<Rightarrow> setup_ok s' \<and> 1 \<le> ctl_status s' \<and> ctl_status s' \<le> 4"
proof -
  have "setup_ok (cleared_ctl 3)" by (simp add: setup_ok_def)
  then show ?thesis
    using setup_one_in_flight [of "replicate CMD_BUFSIZE (CHR 0x00)" "cleared_ctl 3" "(0, 0)" "(99, 0)" "raw [1, 2, 0xff]"]
    by (auto split: sum.splits)
qed

text \<open>
  The receive buffer. More than sixteen bytes without the end byte are written past the end of
  \<^verbatim>\<open>Rx_buf\<close>: nothing compares the write pointer with the size of the buffer.
\<close>

theorem uart_overflow:
  assumes "length (Rx_buf ch) = 16" and "Rx_cnt ch = 0" and "16 < length bs" and "char_of (0xff :: nat) \<notin> set bs"
  shows "uart_rx bs ch = Inl Buffer_Overflow"
proof -
  have bs: "bs = take 16 bs @ bs ! 16 # drop 17 bs" using assms(3) id_take_nth_drop [of 16 bs] by simp
  have "char_of (0xff :: nat) \<notin> set (take 16 bs)" using assms(4) in_set_takeD by metis
  then have "uart_rx bs ch = uart_rx (bs ! 16 # drop 17 bs)
      (ch\<lparr>Rx_buf := take 16 bs @ drop 16 (Rx_buf ch), Rx_cnt := 16\<rparr>)"
    using uart_rx_partial [of "take 16 bs" ch "bs ! 16 # drop 17 bs"] assms(1-3) by (subst bs) simp
  then show ?thesis using assms(1,3) by (simp add: uart_byte_def)
qed

theorem uart_overflow_witness: "uart_rx (replicate 20 (CHR 0x00)) cleared_holder = Inl Buffer_Overflow"
proof -
  have "char_of (0xff :: nat) \<noteq> (CHR 0x00)" by (simp add: char_of_def)
  then show ?thesis using uart_overflow [of cleared_holder "replicate 20 (CHR 0x00)"] by simp
qed

end
