(* ===== verification/Instructor.thy ===== *)
theory Instructor
  imports Detect_Result Complex_Main
begin

text \<open>
  The instructor connection (\<^verbatim>\<open>recbcsrv/recbc_srv.c\<close>): \<^verbatim>\<open>InstructorMsgHandle\<close> turns the commands of
  the platform server (\<^verbatim>\<open>Start\<close>, \<^verbatim>\<open>Stop\<close>, \<^verbatim>\<open>Pause\<close>, \<^verbatim>\<open>SwitchVideo\<close>, \<^verbatim>\<open>CamZoom\<close>, ...) into the
  messages of the control fifo, and keeps the recording status; the four \<^verbatim>\<open>Cam*2internal\<close>
  translators abbreviate a camera command. The lemmas state what each command emits, that
  recordings start and stop in strict alternation, and that every frame is well formed.
\<close>

section \<open>The camera command translators\<close>

text \<open>
  \<^verbatim>\<open>t_internal_abbr_cmd\<close>: the strings in its buffers (\<^verbatim>\<open>para2\<close> to \<^verbatim>\<open>para4\<close> are never used). Only
  \<open>intvalue[4]\<close> is filled from the message; the other copies are literals that fit.
\<close>

record t_internal_abbr_cmd =
  icmd :: string
  para1 :: string
  intvalue :: string

abbreviation (input) abbr_zero :: t_internal_abbr_cmd where
  "abbr_zero \<equiv> \<lparr>icmd = '''', para1 = '''', intvalue = ''''\<rparr>"

definition camera_para :: "string \<Rightarrow> string \<Rightarrow> string" where
  "camera_para attr_value old =
     (if attr_value = ''TeacherSpecial'' then ''T''
      else if attr_value = ''StudentSpecial'' then ''S'' else old)"

definition zoom_attr ::
    "t_internal_abbr_cmd \<Rightarrow> byte list \<Rightarrow> byte list \<Rightarrow> t_internal_abbr_cmd res" where
  "zoom_attr i name value = (let attr_name = c_str name; attr_value = c_str value in Inr
     (if attr_name = ''CamZoom'' then
        i\<lparr>icmd := if attr_value = ''Wide'' then ''CZW''
                  else if attr_value = ''Tele'' then ''CZT'' else icmd i\<rparr>
      else if attr_name = ''Camera'' then i\<lparr>para1 := camera_para attr_value (para1 i)\<rparr>
      else i))"

definition pantilt_attr ::
    "t_internal_abbr_cmd \<Rightarrow> byte list \<Rightarrow> byte list \<Rightarrow> t_internal_abbr_cmd res" where
  "pantilt_attr i name value = (let attr_name = c_str name; attr_value = c_str value in Inr
     (if attr_name = ''CamPanTilt'' then
        i\<lparr>icmd := if attr_value = ''Left'' then ''CPTL''
                  else if attr_value = ''Right'' then ''CPTR''
                  else if attr_value = ''Up'' then ''CPTU''
                  else if attr_value = ''Down'' then ''CPTD'' else icmd i\<rparr>
      else if attr_name = ''Camera'' then i\<lparr>para1 := camera_para attr_value (para1 i)\<rparr>
      else i))"

text \<open>\<open>strcpy(internal_cam_cmd.intvalue, attr_value)\<close>: at most three characters fit.\<close>

definition memory_attr ::
    "string \<Rightarrow> string \<Rightarrow> t_internal_abbr_cmd \<Rightarrow> byte list \<Rightarrow> byte list \<Rightarrow> t_internal_abbr_cmd res" where
  "memory_attr key abbr i name value = (let attr_name = c_str name; attr_value = c_str value in
     if attr_name = key then
       (if 4 < length attr_value + 1 then Inl Buffer_Overflow
        else Inr (i\<lparr>icmd := abbr, intvalue := attr_value\<rparr>))
     else if attr_name = ''Camera'' then Inr (i\<lparr>para1 := camera_para attr_value (para1 i)\<rparr>)
     else Inr i)"

definition CamZoom2internal :: "byte list \<Rightarrow> t_cmd \<Rightarrow> t_cmd res" where
  "CamZoom2internal Msg outmsg =
     bind_res (msg_command Msg) (\<lambda>cmd.
     if cmd \<noteq> COMMAND_SERVER then Inr outmsg
     else bind_res (scan_msg 16 256 Msg zoom_attr abbr_zero) (\<lambda>i.
          bind_res (fill_cmd_header outmsg COMMAND_INTERNAL) (\<lambda>m.
          add_attr_int m (icmd i @ para1 i) 0)))"

definition CamPanTilt2internal :: "byte list \<Rightarrow> t_cmd \<Rightarrow> t_cmd res" where
  "CamPanTilt2internal Msg outmsg =
     bind_res (msg_command Msg) (\<lambda>cmd.
     if cmd \<noteq> COMMAND_SERVER then Inr outmsg
     else bind_res (scan_msg 16 256 Msg pantilt_attr abbr_zero) (\<lambda>i.
          bind_res (fill_cmd_header outmsg COMMAND_INTERNAL) (\<lambda>m.
          add_attr_int m (icmd i @ para1 i) 0)))"

definition CamMemoryInq2internal :: "byte list \<Rightarrow> t_cmd \<Rightarrow> t_cmd res" where
  "CamMemoryInq2internal Msg outmsg =
     bind_res (msg_command Msg) (\<lambda>cmd.
     if cmd \<noteq> COMMAND_SERVER then Inr outmsg
     else bind_res (scan_msg 16 256 Msg (memory_attr ''CamMemoryInq'' ''CMI'') abbr_zero) (\<lambda>i.
          bind_res (fill_cmd_header outmsg COMMAND_INTERNAL) (\<lambda>m.
          add_attr_char m (icmd i @ para1 i) (intvalue i))))"

definition CamMemorySave2internal :: "byte list \<Rightarrow> t_cmd \<Rightarrow> t_cmd res" where
  "CamMemorySave2internal Msg outmsg =
     bind_res (msg_command Msg) (\<lambda>cmd.
     if cmd \<noteq> COMMAND_SERVER then Inr outmsg
     else bind_res (scan_msg 16 256 Msg (memory_attr ''CamMemorySave'' ''CMS'') abbr_zero) (\<lambda>i.
          bind_res (fill_cmd_header outmsg COMMAND_INTERNAL) (\<lambda>m.
          add_attr_char m (icmd i @ para1 i) (intvalue i))))"

text \<open>The caller's local \<^verbatim>\<open>t_cmd\<close> and the frame it then adds.\<close>

definition translated ::
    "(byte list \<Rightarrow> t_cmd \<Rightarrow> t_cmd res) \<Rightarrow> byte list \<Rightarrow> byte list \<Rightarrow> fifo_add res" where
  "translated f g Msg =
     bind_res (f Msg \<lparr>fullbuf = g, cmd_p = 0\<rparr>) (\<lambda>cmd.
     bind_res (cmd_bytes cmd) (\<lambda>bytes.
     Inr \<lparr>fa_data = bytes, fa_flags = WHOLE_FRAME, fa_timestamp = 0\<rparr>))"

section \<open>InstructorMsgHandle\<close>

datatype e_recbc_status = RECBC_IDLE | RECBC_WORKING

text \<open>
  What the handler reads of the other threads and of the configuration: whether each core board
  is connected (\<open>socket\<close>), \<^verbatim>\<open>g_reg_09\<close>, and \<^verbatim>\<open>g_cfg\<close>, whose \<open>frame_rate\<close> is a \<open>float\<close> that the call
  of \<^verbatim>\<open>add_attr_int\<close> converts (truncating) to \<open>unsigned int\<close>.
\<close>

record instr_env =
  sock_A :: int
  sock_B :: int
  sock_C :: int
  sock_D :: int
  reg_09 :: u32
  cfg_frame_rate :: rat
  cfg_bitrate :: u32
  cfg_live_bitrate :: u32

definition RegVal :: "instr_env \<Rightarrow> u32" where
  "RegVal env =
     (let r0 = 0;
          r1 = if sock_A env \<noteq> -1 then r0 OR 1 else r0;
          r2 = if sock_B env \<noteq> -1 then r1 OR 2 else r1;
          r3 = if sock_C env \<noteq> -1 then r2 OR 4 else r2
      in if sock_D env \<noteq> -1 then r3 OR 8 else r3)"

definition start_msgs :: "instr_env \<Rightarrow> (string \<times> attr_call list) list" where
  "start_msgs env =
     [(COMMAND_SET_LED, [Attr_Int ''Reg'' (RegVal env), Attr_Int ''Reg_09'' (reg_09 env)]),
      (COMMAND_INTERNAL, [Attr_Int ''Start'' 1]),
      (COMMAND_CONFIG,
        [Attr_Int ''FrameWidth'' 1920, Attr_Int ''FrameHeight'' 1080,
         Attr_Int ''FrameRate'' (word_of_int \<lfloor>cfg_frame_rate env\<rfloor>),
         Attr_Int ''BitRate'' (cfg_bitrate env), Attr_Int ''LBitRate'' (cfg_live_bitrate env)]),
      (COMMAND_GETDATA, [Attr_Char ''Type'' ''All''])]"

definition stop_msgs :: "(string \<times> attr_call list) list" where
  "stop_msgs =
     [(COMMAND_SET_LED, [Attr_Int ''Reg'' 0]),
      (COMMAND_INTERNAL, [Attr_Int ''Stop'' 1]),
      (COMMAND_GETDATA, [Attr_Char ''Type'' ''None''])]"

text \<open>The thread's status and the frames added to \<open>producer_fifo\<close> so far.\<close>

record instructor =
  recbc_status :: e_recbc_status
  sent :: "fifo_add list"

definition instr_send :: "byte list \<Rightarrow> (string \<times> attr_call list) list \<Rightarrow> instructor \<Rightarrow> instructor res" where
  "instr_send g ms s = bind_res (cmd_adds g ms) (\<lambda>fs. Inr (s\<lparr>sent := sent s @ fs\<rparr>))"

definition instr_translated ::
    "(byte list \<Rightarrow> t_cmd \<Rightarrow> t_cmd res) \<Rightarrow> byte list \<Rightarrow> byte list \<Rightarrow> instructor \<Rightarrow> instructor res" where
  "instr_translated f g Msg s =
     bind_res (translated f g Msg) (\<lambda>fa. Inr (s\<lparr>sent := sent s @ [fa]\<rparr>))"

definition instr_attr ::
    "instr_env \<Rightarrow> byte list \<Rightarrow> byte list \<Rightarrow> instructor \<Rightarrow> byte list \<Rightarrow> byte list \<Rightarrow> instructor res" where
  "instr_attr env g Msg s name value = (let attr_name = c_str name; attr_value = c_str value in
     if attr_name = ''Start'' then
       (if recbc_status s = RECBC_IDLE
        then bind_res (instr_send g (start_msgs env) s) (\<lambda>s'. Inr (s'\<lparr>recbc_status := RECBC_WORKING\<rparr>))
        else Inr s)
     else if attr_name = ''Stop'' then
       (if recbc_status s = RECBC_WORKING
        then bind_res (instr_send g stop_msgs s) (\<lambda>s'. Inr (s'\<lparr>recbc_status := RECBC_IDLE\<rparr>))
        else Inr s)
     else if attr_name = ''Pause'' then
       (if recbc_status s = RECBC_WORKING
        then instr_send g [(COMMAND_INTERNAL, [Attr_Int ''Pause'' 1])] s else Inr s)
     else if attr_name = ''Resume'' then
       (if recbc_status s = RECBC_WORKING
        then instr_send g [(COMMAND_INTERNAL, [Attr_Int ''Resume'' 1])] s else Inr s)
     else if attr_name = ''SwitchVideo'' then
       instr_send g [(COMMAND_INTERNAL, [Attr_Char attr_name attr_value])] s
     else if attr_name = ''SetRecordMode'' then
       instr_send g [(COMMAND_INTERNAL, [Attr_Char attr_name attr_value])] s
     else if attr_name = ''CamZoom'' then instr_translated CamZoom2internal g Msg s
     else if attr_name = ''CamPanTilt'' then instr_translated CamPanTilt2internal g Msg s
     else if attr_name = ''CamMemoryInq'' then instr_translated CamMemoryInq2internal g Msg s
     else if attr_name = ''CamMemorySave'' then instr_translated CamMemorySave2internal g Msg s
     else Inr s)"

definition InstructorMsgHandle ::
    "instr_env \<Rightarrow> byte list \<Rightarrow> instructor \<Rightarrow> byte list \<Rightarrow> instructor res" where
  "InstructorMsgHandle env g s Msg =
     bind_res (msg_command Msg) (\<lambda>cmd.
     if cmd \<noteq> COMMAND_SERVER then Inr s
     else scan_msg 16 256 Msg (instr_attr env g Msg) s)"

section \<open>What the translators build\<close>

lemma build_one: "build_cmd g c [call] = bind_res (fill_cmd_header \<lparr>fullbuf = g, cmd_p = 0\<rparr> c) (\<lambda>m. add_attr m call)"
proof -
  have "bind_res r Inr = r" for r :: "t_cmd res" by (cases r) auto
  then show ?thesis by (simp add: build_cmd_def)
qed

lemma translated_eq:
  assumes "msg_command Msg = Inr COMMAND_SERVER"
  shows "translated CamZoom2internal g Msg = bind_res (scan_msg 16 256 Msg zoom_attr abbr_zero)
           (\<lambda>i. cmd_add g COMMAND_INTERNAL [Attr_Int (icmd i @ para1 i) 0])"
    and "translated CamPanTilt2internal g Msg = bind_res (scan_msg 16 256 Msg pantilt_attr abbr_zero)
           (\<lambda>i. cmd_add g COMMAND_INTERNAL [Attr_Int (icmd i @ para1 i) 0])"
    and "translated CamMemoryInq2internal g Msg =
           bind_res (scan_msg 16 256 Msg (memory_attr ''CamMemoryInq'' ''CMI'') abbr_zero)
           (\<lambda>i. cmd_add g COMMAND_INTERNAL [Attr_Char (icmd i @ para1 i) (intvalue i)])"
    and "translated CamMemorySave2internal g Msg =
           bind_res (scan_msg 16 256 Msg (memory_attr ''CamMemorySave'' ''CMS'') abbr_zero)
           (\<lambda>i. cmd_add g COMMAND_INTERNAL [Attr_Char (icmd i @ para1 i) (intvalue i)])"
  unfolding translated_def CamZoom2internal_def CamPanTilt2internal_def CamMemoryInq2internal_def
    CamMemorySave2internal_def assms cmd_add_def build_one
  by (simp_all add: bind_res_assoc)

definition abbr_cmds :: "string list" where
  "abbr_cmds = ['''', ''CZW'', ''CZT'', ''CPTL'', ''CPTR'', ''CPTU'', ''CPTD'', ''CMI'', ''CMS'']"

definition abbr_paras :: "string list" where
  "abbr_paras = ['''', ''T'', ''S'']"

lemma abbr_literals [simp]:
  "'''' \<in> set abbr_cmds" "''CZW'' \<in> set abbr_cmds" "''CZT'' \<in> set abbr_cmds"
  "''CPTL'' \<in> set abbr_cmds" "''CPTR'' \<in> set abbr_cmds" "''CPTU'' \<in> set abbr_cmds"
  "''CPTD'' \<in> set abbr_cmds" "''CMI'' \<in> set abbr_cmds" "''CMS'' \<in> set abbr_cmds"
  "'''' \<in> set abbr_paras" "''T'' \<in> set abbr_paras" "''S'' \<in> set abbr_paras"
  by (simp_all add: abbr_cmds_def abbr_paras_def)

definition abbr_ok :: "t_internal_abbr_cmd \<Rightarrow> bool" where
  "abbr_ok i \<longleftrightarrow>
     icmd i \<in> set abbr_cmds \<and> para1 i \<in> set abbr_paras \<and> length (intvalue i) \<le> 3"

lemma abbr_ok_zero: "abbr_ok abbr_zero"
  by (simp add: abbr_ok_def)

lemma camera_para_ok: "old \<in> set abbr_paras \<Longrightarrow> camera_para v old \<in> set abbr_paras"
  by (simp add: camera_para_def)

text \<open>The names with which a recording is controlled.\<close>

abbreviation session_names :: "string set" where
  "session_names \<equiv> {''Start'', ''Stop'', ''Pause'', ''Resume''}"

lemma abbr_names:
  "\<forall>c\<in>set abbr_cmds. \<forall>p\<in>set abbr_paras. c @ p \<notin> session_names \<and>
     length (c @ p) \<le> 5 \<and> NUL \<notin> set (c @ p)"
  by (simp add: abbr_cmds_def abbr_paras_def)

lemma abbr_ok_name:
  "abbr_ok i \<Longrightarrow> icmd i @ para1 i \<notin> session_names \<and> length (icmd i @ para1 i) < 16 \<and>
     NUL \<notin> set (icmd i @ para1 i)"
  using abbr_names by (fastforce simp: abbr_ok_def simp del: append_eq_Cons_conv)

lemma abbr_ok_zoom: "abbr_ok i \<Longrightarrow> zoom_attr i n v = Inr i' \<Longrightarrow> abbr_ok i'"
  using camera_para_ok [of "para1 i" "c_str v"]
  by (auto simp: zoom_attr_def abbr_ok_def Let_def split: if_splits)

lemma abbr_ok_pantilt: "abbr_ok i \<Longrightarrow> pantilt_attr i n v = Inr i' \<Longrightarrow> abbr_ok i'"
  using camera_para_ok [of "para1 i" "c_str v"]
  by (auto simp: pantilt_attr_def abbr_ok_def Let_def split: if_splits)

lemma abbr_ok_memory:
  "abbr \<in> set abbr_cmds \<Longrightarrow> abbr_ok i \<Longrightarrow> memory_attr key abbr i n v = Inr i' \<Longrightarrow> abbr_ok i'"
  using camera_para_ok [of "para1 i" "c_str v"]
  by (auto simp: memory_attr_def abbr_ok_def Let_def split: if_splits)

lemma scan_msg_invariant:
  assumes "scan_msg ncap vcap msg body s = Inr s'" and "I s"
    and "\<And>s n v s'. I s \<Longrightarrow> length n < ncap \<Longrightarrow> length v < vcap \<Longrightarrow> body s n v = Inr s' \<Longrightarrow> I s'"
  shows "I s'"
  using assms scan_attrs_invariant [of ncap vcap msg body _ PACKET_HEADER_SIZE s s' I]
  by (auto simp: scan_msg_def res_simps)

lemma abbr_ok_scans:
  "scan_msg 16 256 Msg zoom_attr abbr_zero = Inr i \<Longrightarrow> abbr_ok i"
  "scan_msg 16 256 Msg pantilt_attr abbr_zero = Inr i \<Longrightarrow> abbr_ok i"
  "abbr \<in> set abbr_cmds \<Longrightarrow> scan_msg 16 256 Msg (memory_attr key abbr) abbr_zero = Inr i \<Longrightarrow> abbr_ok i"
proof -
  note inv = scan_msg_invariant [where I = abbr_ok, OF _ abbr_ok_zero]
  show "scan_msg 16 256 Msg zoom_attr abbr_zero = Inr i \<Longrightarrow> abbr_ok i"
    by (erule inv) (rule abbr_ok_zoom)
  show "scan_msg 16 256 Msg pantilt_attr abbr_zero = Inr i \<Longrightarrow> abbr_ok i"
    by (erule inv) (rule abbr_ok_pantilt)
  show "scan_msg 16 256 Msg (memory_attr key abbr) abbr_zero = Inr i \<Longrightarrow> abbr_ok i"
    if "abbr \<in> set abbr_cmds"
    by (erule inv) (rule abbr_ok_memory [OF that])
qed

lemma short_int_msg:
  "length c = 4 \<Longrightarrow> length n < 16 \<Longrightarrow> short_msg (c, [Attr_Int n v])"
  using length_sprintf_u32 [of v] length_encode_int [of n v]
  by (simp add: short_msg_def short_attr_def del: encode_attr.simps)

lemma short_char_msg:
  "length c = 4 \<Longrightarrow> length n < 16 \<Longrightarrow> length v < 256 \<Longrightarrow> short_msg (c, [Attr_Char n v])"
  using length_encode_attr [of "(n, v)"]
  by (simp add: short_msg_def short_attr_def del: encode_attr.simps)

lemmas short_msgs = short_int_msg short_char_msg

text \<open>The messages a translator can produce.\<close>

definition abbr_msg :: "string \<times> attr_call list \<Rightarrow> bool" where
  "abbr_msg m \<longleftrightarrow> (\<exists>n v. m = (COMMAND_INTERNAL, [Attr_Char n v]) \<and> short_msg m \<and>
     n \<notin> session_names \<and> NUL \<notin> set n)"

lemma abbr_msg_int:
  assumes "abbr_ok i" and "length g = CMD_BUFSIZE"
  shows "\<exists>m. abbr_msg m \<and> cmd_add g COMMAND_INTERNAL [Attr_Int (icmd i @ para1 i) 0] = Inr (msg_of m)"
proof (intro exI conjI)
  let ?m = "(COMMAND_INTERNAL, [Attr_Char (icmd i @ para1 i) (sprintf_x 1 0)])"
  have "length (icmd i @ para1 i) < 16" using abbr_ok_name [OF assms(1)] by simp
  then have "short_msg ?m" and s: "short_msg (COMMAND_INTERNAL, [Attr_Int (icmd i @ para1 i) 0])"
    using length_sprintf_u32 [of 0] by (auto intro!: short_msgs)
  then show "abbr_msg ?m" using abbr_ok_name [OF assms(1)] by (simp add: abbr_msg_def)
  show "cmd_add g COMMAND_INTERNAL [Attr_Int (icmd i @ para1 i) 0] = Inr (msg_of ?m)"
    using cmd_add_short [OF assms(2) s] by (simp add: msg_of_def)
qed

lemma abbr_msg_char:
  assumes "abbr_ok i" and "length g = CMD_BUFSIZE"
  shows "\<exists>m. abbr_msg m \<and>
    cmd_add g COMMAND_INTERNAL [Attr_Char (icmd i @ para1 i) (intvalue i)] = Inr (msg_of m)"
proof (intro exI conjI)
  let ?m = "(COMMAND_INTERNAL, [Attr_Char (icmd i @ para1 i) (intvalue i)])"
  have "length (icmd i @ para1 i) < 16" "length (intvalue i) < 256"
    using abbr_ok_name [OF assms(1)] assms(1) by (simp_all add: abbr_ok_def)
  then have s: "short_msg ?m" by (auto intro!: short_msgs)
  then show "abbr_msg ?m" using abbr_ok_name [OF assms(1)] by (simp add: abbr_msg_def)
  show "cmd_add g COMMAND_INTERNAL [Attr_Char (icmd i @ para1 i) (intvalue i)] = Inr (msg_of ?m)"
    by (rule cmd_add_short [OF assms(2) s])
qed

lemma translated_msg:
  assumes "msg_command Msg = Inr COMMAND_SERVER" and "length g = CMD_BUFSIZE"
    and "f \<in> {CamZoom2internal, CamPanTilt2internal, CamMemoryInq2internal, CamMemorySave2internal}"
    and "translated f g Msg = Inr fa"
  shows "\<exists>m. abbr_msg m \<and> fa = msg_of m"
proof -
  have int: "\<exists>m. abbr_msg m \<and> fa = msg_of m"
    if t: "translated f g Msg = bind_res (scan_msg 16 256 Msg b abbr_zero)
              (\<lambda>i. cmd_add g COMMAND_INTERNAL [Attr_Int (icmd i @ para1 i) 0])"
      and ok: "\<And>i. scan_msg 16 256 Msg b abbr_zero = Inr i \<Longrightarrow> abbr_ok i" for b
  proof -
    obtain i where "abbr_ok i" "cmd_add g COMMAND_INTERNAL [Attr_Int (icmd i @ para1 i) 0] = Inr fa"
      using assms(4) ok unfolding t res_simps by blast
    then show ?thesis using abbr_msg_int [OF _ assms(2), of i] by auto
  qed
  have chr: "\<exists>m. abbr_msg m \<and> fa = msg_of m"
    if t: "translated f g Msg = bind_res (scan_msg 16 256 Msg b abbr_zero)
              (\<lambda>i. cmd_add g COMMAND_INTERNAL [Attr_Char (icmd i @ para1 i) (intvalue i)])"
      and ok: "\<And>i. scan_msg 16 256 Msg b abbr_zero = Inr i \<Longrightarrow> abbr_ok i" for b
  proof -
    obtain i where
      "abbr_ok i" "cmd_add g COMMAND_INTERNAL [Attr_Char (icmd i @ para1 i) (intvalue i)] = Inr fa"
      using assms(4) ok unfolding t res_simps by blast
    then show ?thesis using abbr_msg_char [OF _ assms(2), of i] by auto
  qed
  consider "f = CamZoom2internal" | "f = CamPanTilt2internal" | "f = CamMemoryInq2internal"
    | "f = CamMemorySave2internal"
    using assms(3) by blast
  then show ?thesis
  proof cases
    case 1
    show ?thesis by (rule int [OF _ abbr_ok_scans(1)]) (simp_all only: 1 translated_eq [OF assms(1)])
  next
    case 2
    show ?thesis by (rule int [OF _ abbr_ok_scans(2)]) (simp_all only: 2 translated_eq [OF assms(1)])
  next
    case 3
    show ?thesis
      by (rule chr [OF _ abbr_ok_scans(3) [OF abbr_literals(8)]])
        (simp_all only: 3 translated_eq [OF assms(1)])
  next
    case 4
    show ?thesis
      by (rule chr [OF _ abbr_ok_scans(3) [OF abbr_literals(9)]])
        (simp_all only: 4 translated_eq [OF assms(1)])
  qed
qed

section \<open>The recording session\<close>

text \<open>
  What an emitted frame says about the session: \<open>Some True\<close> starts a recording, \<open>Some False\<close> ends
  it. The frame is read back with \<^verbatim>\<open>MsgDump\<close>.
\<close>

definition frame_event :: "fifo_add \<Rightarrow> bool option" where
  "frame_event f =
     (case MsgDump (fa_data f) of
        Inr (Some (cmd, len, as)) \<Rightarrow>
          if cmd = COMMAND_INTERNAL \<and> length as = 1 then
            (if fst (hd as) = ''Start'' then Some True
             else if fst (hd as) = ''Stop'' then Some False else None)
          else None
      | _ \<Rightarrow> None)"

text \<open>The session after a sequence of such events, \<open>None\<close> when a start or stop comes twice.\<close>

fun session :: "bool \<Rightarrow> bool list \<Rightarrow> bool option" where
  "session w [] = Some w"
| "session w (e # es) = (if e = w then None else session e es)"

lemma session_append: "session w (xs @ ys) = (case session w xs of None \<Rightarrow> None | Some v \<Rightarrow> session v ys)"
  by (induction xs arbitrary: w) auto

definition msg_event :: "string \<times> attr_call list \<Rightarrow> bool option" where
  "msg_event m =
     (if c_str (fst m) = COMMAND_INTERNAL \<and> length (snd m) = 1 then
        (let n = c_str (fst (call_attr (hd (snd m))))
         in if n = ''Start'' then Some True else if n = ''Stop'' then Some False else None)
      else None)"

lemma frame_event_msg_of: "short_msg m \<Longrightarrow> frame_event (msg_of m) = msg_event m"
  by (cases "snd m")
    (auto simp: frame_event_def msg_event_def MsgDump_msg_of Let_def split_def)

text \<open>
  An observer of the messages: \<open>mon w m\<close> is the state of the session after the message \<open>m\<close>, \<open>None\<close> when the
  message does not belong there.
\<close>

fun monitor :: "(bool \<Rightarrow> string \<times> attr_call list \<Rightarrow> bool option) \<Rightarrow> bool \<Rightarrow> (string \<times> attr_call list) list \<Rightarrow> bool option" where
  "monitor mon w [] = Some w"
| "monitor mon w (m # ms) = (case mon w m of None \<Rightarrow> None | Some v \<Rightarrow> monitor mon v ms)"

lemma monitor_append:
  "monitor mon w (xs @ ys) = (case monitor mon w xs of None \<Rightarrow> None | Some v \<Rightarrow> monitor mon v ys)"
  by (induction xs arbitrary: w) (auto split: option.split)

lemma short_start_msgs: "\<forall>m\<in>set (start_msgs env). short_msg m"
proof -
  have s: "short_msg (c, calls)"
    if "length c = 4" "\<forall>a\<in>set (map call_attr calls). length (fst a) < 16 \<and> length (snd a) \<le> 8"
      "length calls \<le> 5" for c calls
  proof -
    have "length (encode_attr a) \<le> 28" if "a \<in> set (map call_attr calls)" for a
      using that \<open>\<forall>a\<in>set (map call_attr calls). _\<close>
      by (subst length_encode_attr) (auto simp: short_attr_def)
    then have "length (encode_attrs (map call_attr calls)) \<le> 28 * length (map call_attr calls)"
      by (intro length_encode_attrs_le) blast
    then show ?thesis using that by (auto simp: short_msg_def short_attr_def)
  qed
  show ?thesis
    unfolding start_msgs_def
    using length_sprintf_u32 length_sprintf_u32 [of 1] length_sprintf_u32 [of 1920] length_sprintf_u32 [of 1080]
    by (auto intro!: s simp del: One_nat_def)
qed

lemma short_stop_msgs: "\<forall>m\<in>set stop_msgs. short_msg m"
  unfolding stop_msgs_def by (auto intro!: short_msgs)

lemma instr_send_short:
  "length g = CMD_BUFSIZE \<Longrightarrow> \<forall>m\<in>set ms. short_msg m \<Longrightarrow>
   instr_send g ms s = Inr (s\<lparr>sent := sent s @ map msg_of ms\<rparr>)"
  by (simp add: instr_send_def cmd_adds_short)

text \<open>
  The interface of an observer of the recording session: the handler's messages for \<open>Start\<close> and \<open>Stop\<close>
  open and close it, those for \<open>Pause\<close> and \<open>Resume\<close> are expected while it is open, and every other message
  can come at any time. Every message of the handler is then expected, and the observer agrees with the
  status of the handler.
\<close>

locale session_monitor =
  fixes mon :: "bool \<Rightarrow> string \<times> attr_call list \<Rightarrow> bool option"
  assumes mon_start: "monitor mon False (start_msgs env) = Some True"
    and mon_stop: "monitor mon True stop_msgs = Some False"
    and mon_pause: "n \<in> {''Pause'', ''Resume''} \<Longrightarrow> mon True (COMMAND_INTERNAL, [Attr_Char n v]) = Some True"
    and mon_other: "c_str n \<notin> session_names \<Longrightarrow> mon w (COMMAND_INTERNAL, [Attr_Char n v]) = Some w"
begin

definition mon_inv :: "instructor \<Rightarrow> bool" where
  "mon_inv s \<longleftrightarrow> (\<exists>ms. sent s = map msg_of ms \<and> (\<forall>m\<in>set ms. short_msg m) \<and>
     monitor mon False ms = Some (recbc_status s = RECBC_WORKING))"

lemma mon_inv_init: "mon_inv \<lparr>recbc_status = RECBC_IDLE, sent = []\<rparr>"
  by (simp add: mon_inv_def)

lemma mon_inv_extend:
  assumes "mon_inv s" and "\<forall>m\<in>set ms. short_msg m"
    and "monitor mon (recbc_status s = RECBC_WORKING) ms = Some (st = RECBC_WORKING)"
  shows "mon_inv (s\<lparr>sent := sent s @ map msg_of ms, recbc_status := st\<rparr>)"
proof -
  obtain ns where "sent s = map msg_of ns" "\<forall>m\<in>set ns. short_msg m"
    "monitor mon False ns = Some (recbc_status s = RECBC_WORKING)"
    using assms(1) by (auto simp: mon_inv_def)
  then show ?thesis
    unfolding mon_inv_def using assms(2,3) by (intro exI [of _ "ns @ ms"]) (auto simp: monitor_append)
qed

lemma mon_inv_one:
  assumes "mon_inv s" and "short_msg m" and "mon (recbc_status s = RECBC_WORKING) m = Some (recbc_status s = RECBC_WORKING)"
  shows "mon_inv (s\<lparr>sent := sent s @ [msg_of m]\<rparr>)"
  using mon_inv_extend [OF assms(1), of "[m]" "recbc_status s"] assms by simp

lemma mon_inv_translated:
  assumes "instr_translated f g Msg s = Inr s'" and "mon_inv s" and "length g = CMD_BUFSIZE"
    and "msg_command Msg = Inr COMMAND_SERVER"
    and "f \<in> {CamZoom2internal, CamPanTilt2internal, CamMemoryInq2internal, CamMemorySave2internal}"
  shows "mon_inv s'"
proof -
  obtain fa where fa: "translated f g Msg = Inr fa" "s' = s\<lparr>sent := sent s @ [fa]\<rparr>"
    using assms(1) by (auto simp: instr_translated_def res_simps)
  obtain m where m: "abbr_msg m" "fa = msg_of m"
    using translated_msg [OF assms(4,3,5) fa(1)] by auto
  then obtain n v where "m = (COMMAND_INTERNAL, [Attr_Char n v])" "short_msg m" "c_str n \<notin> session_names"
    by (auto simp: abbr_msg_def c_str_no_NUL)
  then show ?thesis using mon_inv_one [OF assms(2), of m] mon_other fa(2) m(2) by simp
qed

lemma mon_inv_char:
  assumes "instr_send g [(COMMAND_INTERNAL, [Attr_Char n v])] s = Inr s'" and "mon_inv s"
    and "length g = CMD_BUFSIZE" and "length n < 16" and "length v < 256"
    and "mon (recbc_status s = RECBC_WORKING) (COMMAND_INTERNAL, [Attr_Char n v]) = Some (recbc_status s = RECBC_WORKING)"
  shows "mon_inv s'"
proof -
  have sm: "short_msg (COMMAND_INTERNAL, [Attr_Char n v])" using assms by (intro short_msgs) auto
  then have "s' = s\<lparr>sent := sent s @ [msg_of (COMMAND_INTERNAL, [Attr_Char n v])]\<rparr>"
    using assms(1,3) by (simp add: instr_send_short)
  then show ?thesis using mon_inv_one [OF assms(2) sm assms(6)] by simp
qed

lemma mon_inv_forward:
  assumes "instr_send g [(COMMAND_INTERNAL, [Attr_Char n v])] s = Inr s'" and "mon_inv s"
    and "length g = CMD_BUFSIZE" and "length n < 16" and "length v < 256" and "c_str n \<notin> session_names"
  shows "mon_inv s'"
  using mon_inv_char [OF assms(1-5)] mon_other [OF assms(6)] by blast

lemma mon_inv_pause:
  assumes "instr_send g [(COMMAND_INTERNAL, [Attr_Int n 1])] s = Inr s'" and "mon_inv s"
    and "length g = CMD_BUFSIZE" and "n \<in> {''Pause'', ''Resume''}" and "recbc_status s = RECBC_WORKING"
  shows "mon_inv s'"
proof -
  have "instr_send g [(COMMAND_INTERNAL, [Attr_Char n (sprintf_x 1 (unat (1 :: u32)))])] s = Inr s'"
    using assms(1) by (simp add: instr_send_def cmd_adds_def cmd_add_def build_one add_attr_int_def)
  moreover have "length n < 16" using assms(4) by auto
  ultimately show ?thesis
    using mon_inv_char [OF _ assms(2,3), of n "sprintf_x 1 (unat (1 :: u32))" s'] mon_pause [OF assms(4)] assms(5)
      length_sprintf_u32 [of 1] by simp
qed

lemma mon_inv_start:
  assumes "mon_inv s" and "recbc_status s = RECBC_IDLE" and "length g = CMD_BUFSIZE"
  shows "\<exists>t. instr_send g (start_msgs env) s = Inr t \<and> mon_inv (t\<lparr>recbc_status := RECBC_WORKING\<rparr>)"
  using mon_inv_extend [OF assms(1) short_start_msgs [of env], of RECBC_WORKING] assms
  by (simp add: instr_send_short short_start_msgs mon_start)

lemma mon_inv_stop:
  assumes "mon_inv s" and "recbc_status s = RECBC_WORKING" and "length g = CMD_BUFSIZE"
  shows "\<exists>t. instr_send g stop_msgs s = Inr t \<and> mon_inv (t\<lparr>recbc_status := RECBC_IDLE\<rparr>)"
  using mon_inv_extend [OF assms(1) short_stop_msgs, of RECBC_IDLE] assms
  by (simp add: instr_send_short short_stop_msgs mon_stop)

lemma mon_inv_attr:
  assumes inv: "mon_inv s" and len: "length name < 16" "length value < 256"
    and step: "instr_attr env g Msg s name value = Inr s'"
    and g: "length g = CMD_BUFSIZE" and cmd: "msg_command Msg = Inr COMMAND_SERVER"
  shows "mon_inv s'"
proof -
  note fw = mon_inv_forward [OF _ inv g]
  note tr = mon_inv_translated [OF _ inv g cmd]
  have l: "length (c_str name) < 16" "length (c_str value) < 256"
    using len length_c_str_le [of name] length_c_str_le [of "value"] by auto
  show ?thesis
    using step [unfolded instr_attr_def Let_def] inv l
      mon_inv_start [OF inv _ g, of env] mon_inv_stop [OF inv _ g]
    by (auto simp: res_simps c_str_def intro: mon_inv_pause [OF _ inv g] fw tr split: if_splits)
qed

lemma mon_inv_handle:
  assumes "InstructorMsgHandle env g s Msg = Inr s'" and "mon_inv s" and g: "length g = CMD_BUFSIZE"
  shows "mon_inv s'"
proof (cases "msg_command Msg = Inr COMMAND_SERVER")
  case True
  then have "scan_msg 16 256 Msg (instr_attr env g Msg) s = Inr s'"
    using assms(1) by (simp add: InstructorMsgHandle_def)
  then show ?thesis
    by (rule scan_msg_invariant) (use assms(2) mon_inv_attr [OF _ _ _ _ g True] in auto)
next
  case False
  then show ?thesis
    using assms(1,2) by (auto simp: InstructorMsgHandle_def res_simps split: if_splits)
qed

text \<open>Every session of the handler.\<close>

lemma mon_session:
  assumes "fold_res (InstructorMsgHandle env g) \<lparr>recbc_status = RECBC_IDLE, sent = []\<rparr> Msgs = Inr s"
    and "length g = CMD_BUFSIZE"
  shows "\<exists>ms. sent s = map msg_of ms \<and> (\<forall>m\<in>set ms. short_msg m) \<and>
    monitor mon False ms = Some (recbc_status s = RECBC_WORKING)"
proof -
  have "mon_inv s"
    by (rule fold_res_invariant [where I = mon_inv, OF assms(1) mon_inv_init]) (use mon_inv_handle assms(2) in blast)
  then show ?thesis by (simp add: mon_inv_def)
qed

end

text \<open>The observer that sees starts and stops.\<close>

definition event_mon :: "bool \<Rightarrow> string \<times> attr_call list \<Rightarrow> bool option" where
  "event_mon w m = (case msg_event m of None \<Rightarrow> Some w | Some e \<Rightarrow> if e = w then None else Some e)"

lemma map_filter_msgs:
  "\<forall>m\<in>set ms. short_msg m \<Longrightarrow>
   List.map_filter frame_event (map msg_of ms) = List.map_filter msg_event ms"
  by (induction ms) (auto simp: List.map_filter_simps frame_event_msg_of split: option.splits)

lemma event_monitor: "monitor event_mon w ms = session w (List.map_filter msg_event ms)"
  by (induction ms arbitrary: w) (auto simp: event_mon_def List.map_filter_simps split: option.split)

interpretation em: session_monitor event_mon
proof unfold_locales
  show "monitor event_mon False (start_msgs env) = Some True" for env
    unfolding event_monitor by (simp add: start_msgs_def msg_event_def List.map_filter_simps c_str_def)
  show "monitor event_mon True stop_msgs = Some False"
    unfolding event_monitor by (simp add: stop_msgs_def msg_event_def List.map_filter_simps c_str_def)
qed (auto simp: event_mon_def msg_event_def c_str_def)

text \<open>What a message made of the given attributes does, attribute by attribute.\<close>

lemma InstructorMsgHandle_msg:
  assumes "\<forall>a\<in>set as. fits 16 256 a" and "length (encode_attrs as) < 65536"
  shows "InstructorMsgHandle env g s (make_msg COMMAND_SERVER as)
       = fold_res (\<lambda>s (n, v). instr_attr env g (make_msg COMMAND_SERVER as) s n v) s as"
  using scan_make_msg [of COMMAND_SERVER as 16 256 "[]"] msg_command_make_msg [of COMMAND_SERVER as "[]"] assms
  by (simp add: InstructorMsgHandle_def c_str_def)

lemma start_fits: "\<forall>a\<in>set [(''Start'', ''1'')]. fits 16 256 a"
  and start_length: "length (encode_attrs [(''Start'', ''1'')]) < 65536"
  by (simp_all add: fits_def short_attr_def sprintf_x_def Let_def hex_string.simps)

lemma start_handled:
  "length g = CMD_BUFSIZE \<Longrightarrow> InstructorMsgHandle env g s (make_msg COMMAND_SERVER [(''Start'', ''1'')]) =
    Inr (if recbc_status s = RECBC_WORKING then s
         else s\<lparr>sent := sent s @ map msg_of (start_msgs env), recbc_status := RECBC_WORKING\<rparr>)"
  using InstructorMsgHandle_msg [OF start_fits start_length, of env g s]
  by (cases "recbc_status s")
    (simp_all add: instr_attr_def c_str_def instr_send_short short_start_msgs)

section \<open>Properties\<close>

text \<open>
  C37. Whatever messages the platform server sends, in whatever order, as long as no buffer is
  overrun: every frame put into the control fifo is a complete well formed message, recordings
  are started and stopped in strict alternation (no second Start before a Stop), and the status
  is \<open>RECBC_WORKING\<close> exactly while a recording is open.
\<close>

theorem instructor_session:
  assumes "fold_res (InstructorMsgHandle env g) \<lparr>recbc_status = RECBC_IDLE, sent = []\<rparr> Msgs = Inr s"
    and "length g = CMD_BUFSIZE"
  shows "(\<exists>ms. sent s = map msg_of ms \<and> (\<forall>m\<in>set ms. short_msg m)) \<and>
    session False (List.map_filter frame_event (sent s)) = Some (recbc_status s = RECBC_WORKING)"
proof -
  obtain ms where ms: "sent s = map msg_of ms" "\<forall>m\<in>set ms. short_msg m"
    "monitor event_mon False ms = Some (recbc_status s = RECBC_WORKING)"
    using em.mon_session [OF assms] by blast
  then have "session False (List.map_filter frame_event (sent s)) = Some (recbc_status s = RECBC_WORKING)"
    by (simp add: map_filter_msgs event_monitor)
  then show ?thesis using ms(1,2) by blast
qed

theorem instructor_session_witness:
  "\<forall>env. \<exists>s. fold_res (InstructorMsgHandle env (replicate CMD_BUFSIZE NUL)) \<lparr>recbc_status = RECBC_IDLE, sent = []\<rparr>
      [make_msg COMMAND_SERVER [(''Start'', ''1'')], make_msg COMMAND_SERVER [(''Start'', ''1'')]] = Inr s \<and>
    recbc_status s = RECBC_WORKING \<and> session False (List.map_filter frame_event (sent s)) = Some True"
proof
  fix env
  let ?s = "\<lparr>recbc_status = RECBC_WORKING, sent = map msg_of (start_msgs env)\<rparr>"
  have run: "fold_res (InstructorMsgHandle env (replicate CMD_BUFSIZE NUL)) \<lparr>recbc_status = RECBC_IDLE, sent = []\<rparr>
      [make_msg COMMAND_SERVER [(''Start'', ''1'')], make_msg COMMAND_SERVER [(''Start'', ''1'')]] = Inr ?s"
    by (simp add: start_handled)
  show "\<exists>s. fold_res (InstructorMsgHandle env (replicate CMD_BUFSIZE NUL)) \<lparr>recbc_status = RECBC_IDLE, sent = []\<rparr>
      [make_msg COMMAND_SERVER [(''Start'', ''1'')], make_msg COMMAND_SERVER [(''Start'', ''1'')]] = Inr s \<and>
    recbc_status s = RECBC_WORKING \<and> session False (List.map_filter frame_event (sent s)) = Some True"
    using run instructor_session [OF run] by (intro exI [of _ ?s] conjI) simp_all
qed

text \<open>
  The \<open>Start\<close> command of the server opens a recording only when none is open: it then sets the
  LEDs to the connected boards, starts the local recording, configures the encoders and asks
  them for data, in this order; during a recording it does nothing.
\<close>

theorem instructor_start:
  assumes "length g = CMD_BUFSIZE"
  shows "InstructorMsgHandle env g s (make_msg COMMAND_SERVER [(''Start'', ''1'')]) =
    Inr (if recbc_status s = RECBC_WORKING then s
         else s\<lparr>sent := sent s @ map msg_of (start_msgs env), recbc_status := RECBC_WORKING\<rparr>)"
  by (rule start_handled [OF assms])

theorem instructor_start_witness:
  "\<forall>env. InstructorMsgHandle env (replicate CMD_BUFSIZE NUL) \<lparr>recbc_status = RECBC_IDLE, sent = []\<rparr>
       (make_msg COMMAND_SERVER [(''Start'', ''1'')]) =
     Inr \<lparr>recbc_status = RECBC_WORKING, sent = map msg_of (start_msgs env)\<rparr>"
  using instructor_start [of "replicate CMD_BUFSIZE NUL" _ "\<lparr>recbc_status = RECBC_IDLE, sent = []\<rparr>"] by simp

definition pt_abbr :: "string \<Rightarrow> string" where
  "pt_abbr v = (if v = ''Left'' then ''CPTL'' else if v = ''Right'' then ''CPTR''
     else if v = ''Up'' then ''CPTU'' else if v = ''Down'' then ''CPTD'' else '''')"

definition cam_abbr :: "string \<Rightarrow> string" where
  "cam_abbr v = (if v = ''TeacherSpecial'' then ''T'' else if v = ''StudentSpecial'' then ''S'' else '''')"

lemma pantilt_scan:
  assumes "as \<in> {[(''CamPanTilt'', d), (''Camera'', c)], [(''Camera'', c), (''CamPanTilt'', d)]}"
    and "NUL \<notin> set d" and "NUL \<notin> set c"
  shows "fold_res (\<lambda>i (n, v). pantilt_attr i n v) abbr_zero as
       = Inr \<lparr>icmd = pt_abbr d, para1 = cam_abbr c, intvalue = ''''\<rparr>"
  using assms(1) c_str_no_NUL [OF assms(2)] c_str_no_NUL [OF assms(3)]
  by (elim insertE emptyE)
    (simp_all add: pantilt_attr_def c_str_no_NUL pt_abbr_def cam_abbr_def camera_para_def Let_def)

text \<open>
  A pan/tilt command for a close-up camera is forwarded as one internal message whose name is
  the abbreviation of direction and camera, whatever the order of its two attributes.
\<close>

theorem instructor_pan_tilt:
  assumes g: "length g = CMD_BUFSIZE" and nul: "NUL \<notin> set d" "NUL \<notin> set c"
    and len: "length d < 256" "length c < 256"
    and as: "as \<in> {[(''CamPanTilt'', d), (''Camera'', c)], [(''Camera'', c), (''CamPanTilt'', d)]}"
  shows "InstructorMsgHandle env g s (make_msg COMMAND_SERVER as) =
    Inr (s\<lparr>sent := sent s @ [msg_add COMMAND_INTERNAL [(pt_abbr d @ cam_abbr c, ''0'')]]\<rparr>)"
proof -
  let ?Msg = "make_msg COMMAND_SERVER as"
  have fits: "\<forall>a\<in>set as. fits 16 256 a"
    using as len by (auto simp: fits_def short_attr_def)
  have "length (encode_attrs as) \<le> 276 * length as"
  proof (intro length_encode_attrs_le ballI)
    fix a assume "a \<in> set as"
    then show "length (encode_attr a) \<le> 276"
      using as len fits by (subst length_encode_attr) (auto simp: fits_def)
  qed
  then have small: "length (encode_attrs as) < 65536" using as by auto
  have cmd: "msg_command ?Msg = Inr COMMAND_SERVER"
    using msg_command_make_msg [of COMMAND_SERVER as "[]"] by (simp add: c_str_def)
  let ?i = "\<lparr>icmd = pt_abbr d, para1 = cam_abbr c, intvalue = ''''\<rparr>"
  have scan: "scan_msg 16 256 ?Msg pantilt_attr abbr_zero = Inr ?i"
    using scan_make_msg [of COMMAND_SERVER as 16 256 "[]" pantilt_attr abbr_zero, OF _ fits small]
      pantilt_scan [OF as nul] by simp
  have "length (pt_abbr d @ cam_abbr c) < 16" by (simp add: pt_abbr_def cam_abbr_def)
  then have "short_msg (COMMAND_INTERNAL, [Attr_Int (pt_abbr d @ cam_abbr c) 0])"
    by (intro short_msgs) auto
  then have "translated CamPanTilt2internal g ?Msg = Inr (msg_of (COMMAND_INTERNAL, [Attr_Int (pt_abbr d @ cam_abbr c) 0]))"
    using g by (simp add: translated_eq [OF cmd] scan cmd_add_short)
  moreover have "sprintf_x 1 0 = ''0''" by (simp add: sprintf_x_def Let_def hex_string.simps hex_char_def)
  ultimately have tr: "translated CamPanTilt2internal g ?Msg
      = Inr (msg_add COMMAND_INTERNAL [(pt_abbr d @ cam_abbr c, ''0'')])"
    by (simp add: msg_of_def)
  show ?thesis
    unfolding InstructorMsgHandle_msg [OF fits small]
    using as tr by (elim insertE emptyE)
      (simp_all add: instr_attr_def instr_translated_def c_str_def Let_def)
qed

theorem instructor_pan_tilt_witness:
  "\<forall>env s. InstructorMsgHandle env (replicate CMD_BUFSIZE NUL) s
       (make_msg COMMAND_SERVER [(''Camera'', ''StudentSpecial''), (''CamPanTilt'', ''Left'')]) =
     Inr (s\<lparr>sent := sent s @ [msg_add COMMAND_INTERNAL [(''CPTLS'', ''0'')]]\<rparr>)"
  using instructor_pan_tilt [of "replicate CMD_BUFSIZE NUL" "''Left''" "''StudentSpecial''"]
  by (simp add: pt_abbr_def cam_abbr_def)

text \<open>
  The preset number of a \<open>CamMemoryInq\<close> or \<open>CamMemorySave\<close> command is copied into a four byte
  buffer: more than three characters overrun it, in both translators.
\<close>

theorem camera_memory_overflow:
  assumes "NUL \<notin> set v" and "3 < length v" and "length v < 256"
  shows "CamMemoryInq2internal (make_msg COMMAND_SERVER [(''CamMemoryInq'', v)]) outmsg = Inl Buffer_Overflow \<and>
    CamMemorySave2internal (make_msg COMMAND_SERVER [(''CamMemorySave'', v)]) outmsg = Inl Buffer_Overflow"
proof -
  have "fits 16 256 (''CamMemoryInq'', v)" and "fits 16 256 (''CamMemorySave'', v)"
    using assms by (auto simp: fits_def short_attr_def)
  moreover have "length (encode_attr (''CamMemoryInq'', v)) < 65536"
    and "length (encode_attr (''CamMemorySave'', v)) < 65536"
    using assms by (subst length_encode_attr; simp add: short_attr_def)+
  moreover have "msg_command (make_msg COMMAND_SERVER as) = Inr COMMAND_SERVER" for as
    using msg_command_make_msg [of COMMAND_SERVER as "[]"] by (simp add: c_str_def)
  moreover have "c_str ''CamMemoryInq'' = ''CamMemoryInq''" "c_str ''CamMemorySave'' = ''CamMemorySave''"
    by (simp_all add: c_str_def)
  ultimately show ?thesis
    using assms
      scan_make_msg [of COMMAND_SERVER "[(''CamMemoryInq'', v)]" 16 256 "[]"
        "memory_attr ''CamMemoryInq'' ''CMI''" abbr_zero]
      scan_make_msg [of COMMAND_SERVER "[(''CamMemorySave'', v)]" 16 256 "[]"
        "memory_attr ''CamMemorySave'' ''CMS''" abbr_zero]
    by (simp add: CamMemoryInq2internal_def CamMemorySave2internal_def memory_attr_def Let_def
        c_str_no_NUL del: encode_attr.simps)
qed

theorem camera_memory_overflow_witness:
  "\<forall>outmsg. CamMemoryInq2internal (make_msg COMMAND_SERVER [(''CamMemoryInq'', ''1234'')]) outmsg = Inl Buffer_Overflow"
  using camera_memory_overflow [of "''1234''"] by simp

end
