(* ===== verification/Camera_Commands.thy ===== *)
theory Camera_Commands
  imports Camera_Properties Instructor
begin

text \<open>
  The operator's commands for a camera, as \<^verbatim>\<open>thread_SwitchTracking\<close> (\<^verbatim>\<open>recbcsrv/recbc_srv.c\<close>) carries
  them out: zoom, pan and tilt by one step within the range of the camera, recall and save of a preset.
  The code writes every command twice, with the suffix \<open>T\<close> for the teacher's camera and \<open>S\<close> for the
  student's.
\<close>

section \<open>Carrying out a command\<close>

text \<open>\<open>if(d > m) d = m;\<close> and \<open>if(d < m) d = m;\<close> on \<open>int\<close>s.\<close>

definition at_most :: "u32 \<Rightarrow> u32 \<Rightarrow> u32" where
  "at_most m d = (if m <s d then m else d)"

definition at_least :: "u32 \<Rightarrow> u32 \<Rightarrow> u32" where
  "at_least m d = (if d <s m then m else d)"

definition c_div :: "u32 \<Rightarrow> int \<Rightarrow> u32" where
  "c_div a n = word_of_int (sint a sdiv n)"

definition sent :: "(tx_add list \<times> 'f t_camera_holder) res \<Rightarrow> ('f, 'm) cam_ctl_scheme \<Rightarrow> ('f, 'm) cam_ctl_scheme res" where
  "sent r s = bind_res r (\<lambda>(tx, ch). Inr (s\<lparr>ctl_ch := ch, ctl_tx := ctl_tx s @ tx\<rparr>))"

definition zoom_step :: "'f t_camera_holder \<Rightarrow> u32" where
  "zoom_step ch = c_div (zoom_max ch - zoom_min ch) 100"

definition pan_step :: "'f fp \<Rightarrow> 'f t_camera_holder \<Rightarrow> u32" where
  "pan_step F ch = f_trunc F (f_div F (f_int F (pan_max ch)) (pan_angle_right ch))"

definition tilt_step :: "'f fp \<Rightarrow> 'f t_camera_holder \<Rightarrow> u32" where
  "tilt_step F ch = f_trunc F (f_div F (f_int F (tilt_max ch)) (tilt_angle_up ch))"

text \<open>\<open>CZW\<close> and \<open>CZT\<close>; \<open>CPTL\<close>, \<open>CPTR\<close>, \<open>CPTU\<close> and \<open>CPTD\<close>, at the time \<open>now\<close>.\<close>

definition zoom_command ::
    "byte list \<Rightarrow> int \<times> int \<Rightarrow> string \<Rightarrow> ('f, 'm) cam_ctl_scheme \<Rightarrow> ('f, 'm) cam_ctl_scheme res" where
  "zoom_command g now cmd s = (let ch = ctl_ch s in
     if cmd = ''CZW'' then sent (ZoomDirect g now (at_least (zoom_min ch) (ZoomPos ch - zoom_step ch)) ch) s
     else if cmd = ''CZT'' then sent (ZoomDirect g now (at_most (zoom_max ch) (ZoomPos ch + zoom_step ch)) ch) s
     else Inr s)"

definition pantilt_command ::
    "'f fp \<Rightarrow> byte list \<Rightarrow> int \<times> int \<Rightarrow> string \<Rightarrow> ('f, 'm) cam_ctl_scheme \<Rightarrow> ('f, 'm) cam_ctl_scheme res" where
  "pantilt_command F g now cmd s = (let ch = ctl_ch s in
     if cmd = ''CPTL'' then sent (AbsPos g now (at_least (pan_min ch) (PanPos ch - pan_step F ch)) (TiltPos ch) ch) s
     else if cmd = ''CPTR'' then sent (AbsPos g now (at_most (pan_max ch) (PanPos ch + pan_step F ch)) (TiltPos ch) ch) s
     else if cmd = ''CPTU'' then sent (AbsPos g now (PanPos ch) (at_most (tilt_max ch) (TiltPos ch + tilt_step F ch)) ch) s
     else if cmd = ''CPTD'' then sent (AbsPos g now (PanPos ch) (at_least (tilt_min ch) (TiltPos ch - tilt_step F ch)) ch) s
     else Inr s)"

text \<open>
  \<open>CMI\<close> and \<open>CMS\<close>: the number is the value in hexadecimal, passed as an \<open>unsigned char\<close>. Its local is
  not set when the value has more than eight characters.
\<close>

definition memory_command ::
    "byte list \<Rightarrow> int \<times> int \<Rightarrow> string \<Rightarrow> byte list \<Rightarrow> ('f, 'm) cam_ctl_scheme \<Rightarrow> ('f, 'm) cam_ctl_scheme res" where
  "memory_command g now cmd value s =
     (if cmd = ''CMI'' then
        bind_res (read_hex value (length value)) (\<lambda>number. sent (Recall g now (unat number mod 256) (ctl_ch s)) s)
      else if cmd = ''CMS'' then
        bind_res (read_hex value (length value)) (\<lambda>number. sent (MemSet g now (unat number mod 256) (ctl_ch s)) s)
      else Inr s)"

definition camera_command ::
    "'f fp \<Rightarrow> byte list \<Rightarrow> int \<times> int \<Rightarrow> string \<Rightarrow> byte list \<Rightarrow> ('f, 'm) cam_ctl_scheme \<Rightarrow> ('f, 'm) cam_ctl_scheme res" where
  "camera_command F g now cmd value s =
     bind_res (zoom_command g now cmd s) (\<lambda>s1.
     bind_res (pantilt_command F g now cmd s1) (\<lambda>s2.
     memory_command g now cmd value s2))"

text \<open>The command in a name: its suffix selects the camera.\<close>

definition camera_attr :: "'f fp \<Rightarrow> byte list \<Rightarrow> int \<times> int \<Rightarrow> string \<Rightarrow> string \<Rightarrow> byte list \<Rightarrow>
    ('f, 'm) cam_ctl_scheme \<Rightarrow> ('f, 'm) cam_ctl_scheme res" where
  "camera_attr F g now suffix attr_name value s =
     (if \<exists>cmd\<in>{''CZW'', ''CZT'', ''CPTL'', ''CPTR'', ''CPTU'', ''CPTD'', ''CMI'', ''CMS''}. attr_name = cmd @ suffix
      then camera_command F g now (take (length attr_name - length suffix) attr_name) value s else Inr s)"

section \<open>What a command does\<close>

definition ranges_ok :: "'f t_camera_holder \<Rightarrow> bool" where
  "ranges_ok ch \<longleftrightarrow> pan_min ch \<le>s pan_max ch \<and> tilt_min ch \<le>s tilt_max ch \<and> zoom_min ch \<le>s zoom_max ch"

definition in_range :: "u32 \<Rightarrow> u32 \<Rightarrow> u32 \<Rightarrow> bool" where
  "in_range lo hi p \<longleftrightarrow> lo \<le>s p \<and> p \<le>s hi"

lemma in_range_sint: "in_range lo hi p \<longleftrightarrow> sint lo \<le> sint p \<and> sint p \<le> sint hi"
  by (simp add: in_range_def word_sle_eq)

lemma sint_at_most: "sint (at_most m d) = min (sint m) (sint d)"
  by (simp add: at_most_def word_sless_alt)

lemma sint_at_least: "sint (at_least m d) = max (sint m) (sint d)"
  by (simp add: at_least_def word_sless_alt)

text \<open>Adding and subtracting a step without an overflow.\<close>

lemma sint_add_small:
  "- 2147483648 \<le> sint a + sint b \<Longrightarrow> sint a + sint b < 2147483648 \<Longrightarrow> sint (a + b :: u32) = sint a + sint b"
  by (simp add: sint_word_ariths(1) signed_take_bit_int_eq_self)

lemma sint_diff_small:
  "- 2147483648 \<le> sint a - sint b \<Longrightarrow> sint a - sint b < 2147483648 \<Longrightarrow> sint (a - b :: u32) = sint a - sint b"
  by (simp add: sint_word_ariths(2) signed_take_bit_int_eq_self)

lemma in_range_at_least: "in_range lo hi p \<Longrightarrow> sint d \<le> sint p \<Longrightarrow> in_range lo hi (at_least lo d)"
  by (simp add: in_range_sint sint_at_least)

lemma in_range_at_most: "in_range lo hi p \<Longrightarrow> sint p \<le> sint d \<Longrightarrow> in_range lo hi (at_most hi d)"
  by (simp add: in_range_sint sint_at_most)

text \<open>The values of a holder are small enough for the arithmetic of a step.\<close>

definition small :: "u32 \<Rightarrow> bool" where
  "small w \<longleftrightarrow> - 1000000 \<le> sint w \<and> sint w \<le> 1000000"

lemma small_sum:
  "small a \<Longrightarrow> small b \<Longrightarrow> sint (a + b) = sint a + sint b"
  "small a \<Longrightarrow> small b \<Longrightarrow> sint (a - b) = sint a - sint b"
  by (simp_all add: small_def sint_add_small sint_diff_small)

lemma small_range: "in_range lo hi p \<Longrightarrow> small lo \<Longrightarrow> small hi \<Longrightarrow> small p"
  by (simp add: in_range_sint small_def)

definition camera_ok :: "'f fp \<Rightarrow> 'f t_camera_holder \<Rightarrow> bool" where
  "camera_ok F ch \<longleftrightarrow> in_range (pan_min ch) (pan_max ch) (PanPos ch) \<and> in_range (tilt_min ch) (tilt_max ch) (TiltPos ch) \<and>
     in_range (zoom_min ch) (zoom_max ch) (ZoomPos ch) \<and>
     list_all small [pan_min ch, pan_max ch, tilt_min ch, tilt_max ch, zoom_min ch, zoom_max ch, pan_step F ch, tilt_step F ch] \<and>
     0 \<le> sint (pan_step F ch) \<and> 0 \<le> sint (tilt_step F ch)"

text \<open>The position a step command aims at.\<close>

definition step_target :: "'f fp \<Rightarrow> 'f t_camera_holder \<Rightarrow> string \<Rightarrow> int \<times> int" where
  "step_target F ch cmd =
     (if cmd = ''CPTL'' then max (sint (pan_min ch)) (sint (PanPos ch) - sint (pan_step F ch))
      else if cmd = ''CPTR'' then min (sint (pan_max ch)) (sint (PanPos ch) + sint (pan_step F ch)) else sint (PanPos ch),
      if cmd = ''CPTU'' then min (sint (tilt_max ch)) (sint (TiltPos ch) + sint (tilt_step F ch))
      else if cmd = ''CPTD'' then max (sint (tilt_min ch)) (sint (TiltPos ch) - sint (tilt_step F ch)) else sint (TiltPos ch))"

lemma camera_attr_command:
  assumes "cmd \<in> {''CZW'', ''CZT'', ''CPTL'', ''CPTR'', ''CPTU'', ''CPTD'', ''CMI'', ''CMS''}"
  shows "camera_attr F g now suffix (cmd @ suffix) value s = camera_command F g now cmd value s"
  using assms unfolding camera_attr_def by auto

text \<open>What a pan or tilt command adds to the record.\<close>

definition moved :: "int \<times> int \<Rightarrow> u32 \<Rightarrow> u32 \<Rightarrow> ('f, 'm) cam_ctl_scheme \<Rightarrow> ('f, 'm) cam_ctl_scheme" where
  "moved now p t s = s\<lparr>ctl_ch := set_pending CH_COMPLETION_PENDING now ((ctl_ch s)\<lparr>target_PanPos := p, target_TiltPos := t\<rparr>),
     ctl_tx := ctl_tx s @ camhld_tx (uart_channel (ctl_ch s)) (abspos_bytes (panspeed_use (ctl_ch s)) (tiltspeed_use (ctl_ch s)) p t)\<rparr>"

lemma sent_abspos:
  "length g = CMD_BUFSIZE \<Longrightarrow> sent (AbsPos g now p t (ctl_ch s)) s = Inr (moved now p t s)"
  by (simp add: sent_def commands_correct moved_def)

text \<open>
  Pan and tilt steps. From a position in the range of the camera a pan or tilt command sends one
  absolute move, whose target is one step away in the direction of the command and stays in the range.
\<close>

theorem camera_step_in_range:
  assumes "length g = CMD_BUFSIZE" and "cmd \<in> {''CPTL'', ''CPTR'', ''CPTU'', ''CPTD''}" and "camera_ok F (ctl_ch s)"
  shows "\<exists>p t. camera_attr F g now suffix (cmd @ suffix) value s = Inr (moved now p t s) \<and>
    (sint p, sint t) = step_target F (ctl_ch s) cmd \<and>
    in_range (pan_min (ctl_ch s)) (pan_max (ctl_ch s)) p \<and> in_range (tilt_min (ctl_ch s)) (tilt_max (ctl_ch s)) t"
proof -
  let ?ch = "ctl_ch s"
  have r: "in_range (pan_min ?ch) (pan_max ?ch) (PanPos ?ch)" "in_range (tilt_min ?ch) (tilt_max ?ch) (TiltPos ?ch)"
    "0 \<le> sint (pan_step F ?ch)" "0 \<le> sint (tilt_step F ?ch)" "small (pan_step F ?ch)" "small (tilt_step F ?ch)"
    using assms(3) by (simp_all add: camera_ok_def)
  have sm: "small (PanPos ?ch)" "small (TiltPos ?ch)"
    using assms(3) small_range [OF r(1)] small_range [OF r(2)] by (simp_all add: camera_ok_def)
  note sums = small_sum [OF sm(1) r(5)] small_sum [OF sm(2) r(6)]
  have eq: "camera_attr F g now suffix (cmd @ suffix) value s = pantilt_command F g now cmd s"
  proof -
    have "camera_attr F g now suffix (cmd @ suffix) value s = camera_command F g now cmd value s"
      using assms(2) by (intro camera_attr_command) auto
    moreover have "bind_res m Inr = m" for m :: "('a, 'b) cam_ctl_scheme res" by (cases m) simp_all
    ultimately show ?thesis using assms(2)
      by (auto simp: camera_command_def zoom_command_def memory_command_def Let_def)
  qed
  have aimed: ?thesis if "pantilt_command F g now cmd s = sent (AbsPos g now p t ?ch) s" "(sint p, sint t) = step_target F ?ch cmd"
    "in_range (pan_min ?ch) (pan_max ?ch) p" "in_range (tilt_min ?ch) (tilt_max ?ch) t" for p t
    using that unfolding eq sent_abspos [OF assms(1)] by blast
  from assms(2) consider (L) "cmd = ''CPTL''" | (R) "cmd = ''CPTR''" | (U) "cmd = ''CPTU''" | (D) "cmd = ''CPTD''" by auto
  then show ?thesis
  proof cases
    case L
    have "in_range (pan_min ?ch) (pan_max ?ch) (at_least (pan_min ?ch) (PanPos ?ch - pan_step F ?ch))"
      by (rule in_range_at_least [OF r(1)]) (use r sums in linarith)
    with L r sums show ?thesis
      by (intro aimed [of "at_least (pan_min ?ch) (PanPos ?ch - pan_step F ?ch)" "TiltPos ?ch"]) (simp_all add: pantilt_command_def Let_def step_target_def sint_at_least)
  next
    case R
    have "in_range (pan_min ?ch) (pan_max ?ch) (at_most (pan_max ?ch) (PanPos ?ch + pan_step F ?ch))"
      by (rule in_range_at_most [OF r(1)]) (use r sums in linarith)
    with R r sums show ?thesis
      by (intro aimed [of "at_most (pan_max ?ch) (PanPos ?ch + pan_step F ?ch)" "TiltPos ?ch"]) (simp_all add: pantilt_command_def Let_def step_target_def sint_at_most)
  next
    case U
    have "in_range (tilt_min ?ch) (tilt_max ?ch) (at_most (tilt_max ?ch) (TiltPos ?ch + tilt_step F ?ch))"
      by (rule in_range_at_most [OF r(2)]) (use r sums in linarith)
    with U r sums show ?thesis
      by (intro aimed [of "PanPos ?ch" "at_most (tilt_max ?ch) (TiltPos ?ch + tilt_step F ?ch)"]) (simp_all add: pantilt_command_def Let_def step_target_def sint_at_most)
  next
    case D
    have "in_range (tilt_min ?ch) (tilt_max ?ch) (at_least (tilt_min ?ch) (TiltPos ?ch - tilt_step F ?ch))"
      by (rule in_range_at_least [OF r(2)]) (use r sums in linarith)
    with D r sums show ?thesis
      by (intro aimed [of "PanPos ?ch" "at_least (tilt_min ?ch) (TiltPos ?ch - tilt_step F ?ch)"]) (simp_all add: pantilt_command_def Let_def step_target_def sint_at_least)
  qed
qed

text \<open>The step of a camera that turns by 240 degrees in 3200 steps is 13: one degree.\<close>

theorem camera_step_in_range_witness:
  "\<exists>p t. camera_attr rat_fp (replicate CMD_BUFSIZE NUL) (5, 0) ''T'' ''CPTLT'' '''' (cleared_ctl 17) = Inr (moved (5, 0) p t (cleared_ctl 17)) \<and>
    sint p = - 13 \<and> sint t = 0"
proof -
  have f: "sint (f_trunc rat_fp (f_div rat_fp (f_int rat_fp (1600 :: u32)) (f_lit rat_fp 120))) = 13"
    "sint (f_trunc rat_fp (f_div rat_fp (f_int rat_fp (1200 :: u32)) (f_lit rat_fp 90))) = 13"
  proof -
    have "\<lfloor>40 / 3 :: rat\<rfloor> = 13" by (rule floor_unique) simp_all
    then show "sint (f_trunc rat_fp (f_div rat_fp (f_int rat_fp (1600 :: u32)) (f_lit rat_fp 120))) = 13"
      "sint (f_trunc rat_fp (f_div rat_fp (f_int rat_fp (1200 :: u32)) (f_lit rat_fp 90))) = 13"
      by (simp_all add: rat_fp_def f_int_def)
  qed
  have ch: "ctl_ch (cleared_ctl 17) = cleared_holder" by (simp add: cleared_ctl_def)
  have steps: "sint (pan_step rat_fp cleared_holder) = 13" "sint (tilt_step rat_fp cleared_holder) = 13"
    using f by (simp_all add: pan_step_def tilt_step_def cleared_holder_def camera_holder_init_def)
  then have "camera_ok rat_fp (ctl_ch (cleared_ctl 17))"
    unfolding ch camera_ok_def
    by (simp add: small_def in_range_sint) (simp add: cleared_holder_def camera_holder_init_def)
  moreover have "step_target rat_fp (ctl_ch (cleared_ctl 17)) ''CPTL'' = (- 13, 0)"
    unfolding ch step_target_def using steps by (simp add: cleared_holder_def camera_holder_init_def)
  ultimately show ?thesis
    using camera_step_in_range [of "replicate CMD_BUFSIZE NUL" "''CPTL''" rat_fp "cleared_ctl 17" "(5, 0)" "''T''" "''''"] by auto
qed

section \<open>Presets\<close>

lemma memory_command_correct:
  assumes "length g = CMD_BUFSIZE" and "length (preset (ctl_ch s)) = 16" and "length value \<le> 8"
  defines "n \<equiv> unat (hex_value value 0) mod 256"
  shows "memory_command g now ''CMI'' value s = (if 16 \<le> n then Inl Out_Of_Bounds else sent (Recall g now n (ctl_ch s)) s)"
    and "memory_command g now ''CMS'' value s = (if 16 \<le> n then Inl Buffer_Overflow else
      Inr (s\<lparr>ctl_ch := set_pending CH_COMPLETION_PENDING now ((ctl_ch s)\<lparr>target_PanPos := PanPos (ctl_ch s),
        target_TiltPos := TiltPos (ctl_ch s), target_ZoomPos := ZoomPos (ctl_ch s),
        preset := (preset (ctl_ch s))[n := \<lparr>pan_pos = PanPos (ctl_ch s), tilt_pos = TiltPos (ctl_ch s), zoom_pos = ZoomPos (ctl_ch s)\<rparr>]\<rparr>),
        ctl_tx := ctl_tx s @ camhld_tx (uart_channel (ctl_ch s)) (memset_bytes n)\<rparr>))"
proof -
  have h: "read_hex value (length value) = Inr (hex_value value 0)" using assms(3) by (simp add: read_hex_eq)
  have m: "memory_command g now ''CMI'' value s = sent (Recall g now n (ctl_ch s)) s"
    "memory_command g now ''CMS'' value s = sent (MemSet g now n (ctl_ch s)) s"
    by (simp_all add: memory_command_def h n_def)
  have c: "CamhldCmdSend g (ctl_ch s) (raw [0x81, 0x01, 0x04, 0x3f, b, n, 0xff]) =
      Inr (camhld_tx (uart_channel (ctl_ch s)) (raw [0x81, 0x01, 0x04, 0x3f, b, n, 0xff]))" for b
    by (rule CamhldCmdSend_correct [OF assms(1)]) simp
  show "memory_command g now ''CMI'' value s = (if 16 \<le> n then Inl Out_Of_Bounds else sent (Recall g now n (ctl_ch s)) s)"
    unfolding m(1) using c [of 2] assms(2) by (simp add: Recall_def sent_def)
  show "memory_command g now ''CMS'' value s = (if 16 \<le> n then Inl Buffer_Overflow else
      Inr (s\<lparr>ctl_ch := set_pending CH_COMPLETION_PENDING now ((ctl_ch s)\<lparr>target_PanPos := PanPos (ctl_ch s),
        target_TiltPos := TiltPos (ctl_ch s), target_ZoomPos := ZoomPos (ctl_ch s),
        preset := (preset (ctl_ch s))[n := \<lparr>pan_pos = PanPos (ctl_ch s), tilt_pos = TiltPos (ctl_ch s), zoom_pos = ZoomPos (ctl_ch s)\<rparr>]\<rparr>),
        ctl_tx := ctl_tx s @ camhld_tx (uart_channel (ctl_ch s)) (memset_bytes n)\<rparr>))"
    unfolding m(2) using c [of 1] assms(2) by (simp add: MemSet_def sent_def save_camholder_preset_def memset_bytes_def)
qed

lemma camera_command_keeps_presets:
  assumes "length g = CMD_BUFSIZE" and "cmd \<noteq> ''CMS''" and "camera_command F g now cmd value s = Inr s'"
  shows "preset (ctl_ch s') = preset (ctl_ch s)"
proof -
  note moves = sent_def commands_correct [OF assms(1)] set_pending_def Let_def bind_res_Inr
  have z: "preset (ctl_ch s2) = preset (ctl_ch s1)" if "zoom_command g now cmd s1 = Inr s2" for s1 s2 :: "('a, 'b) cam_ctl_scheme"
    using that by (auto simp: zoom_command_def moves split: if_splits)
  have p: "preset (ctl_ch s2) = preset (ctl_ch s1)" if "pantilt_command F g now cmd s1 = Inr s2" for s1 s2 :: "('a, 'b) cam_ctl_scheme"
    using that by (auto simp: pantilt_command_def moves split: if_splits)
  have m: "preset (ctl_ch s2) = preset (ctl_ch s1)" if "memory_command g now cmd value s1 = Inr s2" for s1 s2 :: "('a, 'b) cam_ctl_scheme"
    using that assms(2) by (auto simp: memory_command_def Recall_def moves split: if_splits)
  obtain s1 s2 where "zoom_command g now cmd s = Inr s1" "pantilt_command F g now cmd s1 = Inr s2"
    "memory_command g now cmd value s2 = Inr s'"
    using assms(3) by (auto simp: camera_command_def bind_res_Inr)
  then show ?thesis using z p m by metis
qed

text \<open>A command of the operator, at its time: the command and its value.\<close>

definition run_commands :: "'f fp \<Rightarrow> byte list \<Rightarrow> ('f, 'm) cam_ctl_scheme \<Rightarrow> ((int \<times> int) \<times> string \<times> byte list) list \<Rightarrow>
    ('f, 'm) cam_ctl_scheme res" where
  "run_commands F g = fold_res (\<lambda>s (now, cmd, value). camera_command F g now cmd value s)"

lemma run_commands_keep_presets:
  assumes "length g = CMD_BUFSIZE" and "\<forall>(now, cmd, value)\<in>set cs. cmd \<noteq> ''CMS''" and "run_commands F g s cs = Inr s'"
  shows "preset (ctl_ch s') = preset (ctl_ch s)"
  using assms(2,3) unfolding run_commands_def
proof (induction cs arbitrary: s)
  case (Cons c cs)
  obtain now cmd v where c: "c = (now, cmd, v)" by (cases c) auto
  with Cons.prems(2) obtain s1 where s1: "camera_command F g now cmd v s = Inr s1"
    "fold_res (\<lambda>s (now, cmd, value). camera_command F g now cmd value s) s1 cs = Inr s'" by (auto simp: bind_res_Inr)
  have "preset (ctl_ch s') = preset (ctl_ch s1)" using Cons.IH [OF _ s1(2)] Cons.prems(1) by simp
  moreover have "cmd \<noteq> ''CMS''" using Cons.prems(1) c by auto
  ultimately show ?case using camera_command_keeps_presets [OF assms(1) _ s1(1)] by simp
qed simp

text \<open>
  Presets. A position saved under a number below sixteen is the target of a later recall of that
  number, whatever other commands but saves come in between.
\<close>

theorem preset_roundtrip:
  assumes g: "length g = CMD_BUFSIZE" and p: "length (preset (ctl_ch s)) = 16" and k: "k < 16"
    and cs: "\<forall>(now, cmd, value)\<in>set cs. cmd \<noteq> ''CMS''"
    and run: "run_commands F g s ((t0, ''CMS'', sprintf_x 1 k) # cs @ [(t1, ''CMI'', sprintf_x 1 k)]) = Inr s'"
  shows "target_PanPos (ctl_ch s') = PanPos (ctl_ch s) \<and> target_TiltPos (ctl_ch s') = TiltPos (ctl_ch s) \<and>
    target_ZoomPos (ctl_ch s') = ZoomPos (ctl_ch s) \<and> get_camholder_pending_state (ctl_ch s')"
proof -
  define v where "v = sprintf_x 1 k"
  let ?P = "\<lparr>pan_pos = PanPos (ctl_ch s), tilt_pos = TiltPos (ctl_ch s), zoom_pos = ZoomPos (ctl_ch s)\<rparr>"
  have vk: "length v \<le> 8" "unat (hex_value v 0) mod 256 = k"
    using k length_sprintf_u32 [of "of_nat k"] unfolding v_def by (simp_all add: hex_value_sprintf unat_of_nat)
  have only: "camera_command F g now cmd w x = memory_command g now cmd w x"
    if "cmd = ''CMS'' \<or> cmd = ''CMI''" for now cmd w and x :: "('a, 'b) cam_ctl_scheme"
    using that by (auto simp: camera_command_def zoom_command_def pantilt_command_def Let_def)
  obtain s1 s2 where s1: "memory_command g t0 ''CMS'' v s = Inr s1" and s2: "run_commands F g s1 cs = Inr s2"
    and s3: "memory_command g t1 ''CMI'' v s2 = Inr s'"
    using run unfolding v_def [symmetric] by (auto simp: run_commands_def fold_res_append only bind_res_Inr)
  have "preset (ctl_ch s1) = (preset (ctl_ch s))[k := ?P]"
    using s1 memory_command_correct(2) [OF g p vk(1), of t0, unfolded vk(2)] k by (auto simp: set_pending_def)
  then have pr: "preset (ctl_ch s2) = (preset (ctl_ch s))[k := ?P]"
    using run_commands_keep_presets [OF g cs s2] by simp
  then have "sent (Recall g t1 k (ctl_ch s2)) s2 = Inr s'"
    using s3 memory_command_correct(1) [OF g _ vk(1), of s2 t1, unfolded vk(2)] p k by simp
  then show ?thesis
    using pr p k commands_correct(5) [OF g, of k "ctl_ch s2" t1]
    by (auto simp: sent_def set_pending_def get_camholder_pending_state_def or_eq_0_iff)
qed

theorem preset_roundtrip_witness:
  "\<exists>s'. run_commands rat_fp (replicate CMD_BUFSIZE NUL) ((cleared_ctl 17)\<lparr>ctl_ch := cleared_holder\<lparr>PanPos := 77\<rparr>\<rparr>)
      [((1, 0), ''CMS'', sprintf_x 1 3), ((2, 0), ''CZT'', ''0''), ((3, 0), ''CMI'', sprintf_x 1 3)] = Inr s' \<and>
    target_PanPos (ctl_ch s') = 77"
proof -
  let ?g = "replicate CMD_BUFSIZE NUL" and ?s = "(cleared_ctl 17)\<lparr>ctl_ch := cleared_holder\<lparr>PanPos := 77\<rparr>\<rparr>"
  let ?cs = "[((1, 0), ''CMS'', sprintf_x 1 3), ((2, 0), ''CZT'', ''0''), ((3, 0), ''CMI'', sprintf_x 1 3)] :: ((int \<times> int) \<times> string \<times> byte list) list"
  have g: "length ?g = CMD_BUFSIZE" by simp
  have v: "sprintf_x 1 3 = ''3''" "length ''3'' \<le> 8" "unat (hex_value ''3'' 0) mod 256 = 3"
    by (simp_all add: sprintf_x_def hex_string.simps hex_value_def digit_val_def hex_digit_def hex_char_def Let_def)
  have p: "length (preset cleared_holder) = 16" by (simp add: cleared_holder_def camera_holder_init_def)
  have m: "memory_command ?g now ''CZT'' w x = Inr x" for now w and x :: "rat teacher_ctl" by (simp add: memory_command_def)
  obtain s' where "run_commands rat_fp ?g ?s ?cs = Inr s'"
    unfolding v(1) using p by (simp add: run_commands_def camera_command_def zoom_command_def pantilt_command_def Let_def m
      memory_command_correct [OF g _ v(2), unfolded v(3)] sent_def commands_correct [OF g] set_pending_def)
  then show ?thesis
    using preset_roundtrip [of ?g ?s 3 "[((2, 0), ''CZT'', ''0'')]" rat_fp "(1, 0)" "(3, 0)" s'] p by auto
qed

text \<open>
  Preset numbers. A number of sixteen or more, which every two digit value but \<open>00\<close> to \<open>0f\<close> is, is not
  refused: a recall reads past the table of presets, a save writes past it.
\<close>

theorem preset_out_of_bounds:
  assumes "length g = CMD_BUFSIZE" and "length (preset (ctl_ch s)) = 16" and "16 \<le> n" and "n < 256"
  shows "camera_attr F g now suffix (''CMI'' @ suffix) (sprintf_x 1 n) s = Inl Out_Of_Bounds \<and>
    camera_attr F g now suffix (''CMS'' @ suffix) (sprintf_x 1 n) s = Inl Buffer_Overflow"
proof -
  define v where "v = sprintf_x 1 n"
  have vk: "length v \<le> 8" "unat (hex_value v 0) mod 256 = n"
    using assms(4) length_sprintf_u32 [of "of_nat n"] unfolding v_def by (simp_all add: hex_value_sprintf unat_of_nat)
  have "camera_attr F g now suffix (cmd @ suffix) v s = memory_command g now cmd v s" if "cmd = ''CMI'' \<or> cmd = ''CMS''" for cmd
    using that camera_attr_command [of cmd F g now suffix v s]
    by (auto simp: camera_command_def zoom_command_def pantilt_command_def Let_def)
  then show ?thesis using memory_command_correct [OF assms(1,2) vk(1), of now, unfolded vk(2)] assms(3)
    unfolding v_def [symmetric] by (simp del: append_Cons)
qed

theorem preset_out_of_bounds_witness:
  "camera_attr rat_fp (replicate CMD_BUFSIZE NUL) (5, 0) ''T'' ''CMST'' (sprintf_x 1 32) (cleared_ctl 17) = Inl Buffer_Overflow"
proof -
  have "length (preset (ctl_ch (cleared_ctl 17))) = 16" by (simp add: cleared_ctl_def cleared_holder_def camera_holder_init_def)
  then show ?thesis
    using preset_out_of_bounds [of "replicate CMD_BUFSIZE NUL" "cleared_ctl 17" 32 rat_fp "(5, 0)" "''T''"] by simp
qed

end
