(* ===== verification/Tracking.thy ===== *)
theory Tracking
  imports Camera_Commands
begin

text \<open>
  The tracking of the teacher in \<^verbatim>\<open>thread_SwitchTracking\<close> (\<^verbatim>\<open>recbcsrv/recbc_srv.c\<close>): a detection
  event is judged (captured, in front of the screen, lost), a captured teacher is followed by an
  absolute move within the limits the set-up has learnt, and a lost one is searched for. Angles are
  computed with the arithmetic of \<^verbatim>\<open>C_Float\<close>.
\<close>

section \<open>The state of the tracking\<close>

text \<open>The counters of the thread; \<open>need_hiden\<close> and \<open>IsMultipleTeacher\<close> are only ever 0 or 1.\<close>

record tracker =
  acc_of_lost :: u32
  motion_in_screen :: u32
  still_in_screen :: u32
  in_left :: u32
  in_right :: u32
  need_hiden :: bool
  direction :: u32
  IsMultipleTeacher :: bool

text \<open>The globals under \<^verbatim>\<open>g_capture_sync_mutex\<close>, which the picture threads read.\<close>

record capture_sync =
  g_camholder_still :: bool
  g_analyze_frame_num :: u32
  g_num_in_group :: u32

record 'f t_screen_geometry =
  has_screen :: bool
  x_left :: u32
  x_right :: u32
  y_screen :: u32
  camera_initial_angle :: 'f

text \<open>The angles of the edges of the screen, computed once.\<close>

definition screen_angle :: "'f fp \<Rightarrow> 'f t_screen_geometry \<Rightarrow> u32 \<Rightarrow> 'f" where
  "screen_angle F scr x =
     f_float F (f_div F (f_mul F (f_atan F (f_div F (f_float F (f_int F x)) (f_int F (y_screen scr)))) (f_lit F 180)) (M_PI F))"

definition tracker_init :: tracker where
  "tracker_init = \<lparr>acc_of_lost = 0, motion_in_screen = 0, still_in_screen = 0, in_left = 0, in_right = 0,
     need_hiden = False, direction = 1, IsMultipleTeacher = False\<rparr>"

section \<open>Angles and positions\<close>

definition view_angle :: "'f fp \<Rightarrow> 'f t_camera_holder \<Rightarrow> 'f" where
  "view_angle F ch = f_float F (f_add F
     (f_neg F (f_div F (f_mul F (f_sub F (view_angle_max ch) (view_angle_min ch)) (f_int F (ZoomPos ch))) (f_int F (zoom_max ch))))
     (view_angle_max ch))"

text \<open>\<open>atan(tan(view_angle*M_PI/360)*offset/128)\<close>.\<close>

definition half_angle :: "'f fp \<Rightarrow> 'f t_camera_holder \<Rightarrow> u32 \<Rightarrow> 'f" where
  "half_angle F ch offset = f_atan F (f_div F (f_mul F
     (f_tan F (f_div F (f_mul F (view_angle F ch) (M_PI F)) (f_lit F 360))) (f_int F offset)) (f_lit F 128))"

definition obj_angle :: "'f fp \<Rightarrow> 'f t_screen_geometry \<Rightarrow> 'f t_camera_holder \<Rightarrow> u32 \<Rightarrow> 'f" where
  "obj_angle F scr ch offset =
     (let offset_angle = f_float F (f_div F (f_mul F (half_angle F ch offset) (f_lit F 180)) (M_PI F));
          relative_pan_pos = PanPos ch - pan_pos (preset ch ! 0);
          relative_angle = f_float F (f_div F (f_mul F (f_int F relative_pan_pos) (pan_angle_right ch)) (f_int F (pan_max ch)))
      in f_float F (f_add F (f_add F (f_sub F (f_lit F 90) (camera_initial_angle scr)) relative_angle) offset_angle))"

definition in_screen_angle :: "'f fp \<Rightarrow> 'f t_screen_geometry \<Rightarrow> 'f t_camera_holder \<Rightarrow> u32 \<Rightarrow> bool" where
  "in_screen_angle F scr ch offset \<longleftrightarrow>
     f_less F (screen_angle F scr (x_left scr)) (obj_angle F scr ch offset) \<and>
     f_less F (obj_angle F scr ch offset) (screen_angle F scr (x_right scr))"

text \<open>\<open>(int)(DetectResult.avg_left + DetectResult.avg_right - 256)/2\<close>, the offset of the object from the middle.\<close>

definition avg_offset :: "t_DetectResult \<Rightarrow> u32" where
  "avg_offset d = c_div (avg_left d + avg_right d - 256) 2"

definition relative_pos :: "'f fp \<Rightarrow> 'f t_camera_holder \<Rightarrow> u32 \<Rightarrow> u32" where
  "relative_pos F ch offset = f_trunc F (f_div F (f_div F (f_mul F (f_mul F (f_int F (pan_max ch))
     (f_float F (half_angle F ch offset))) (f_lit F 180)) (M_PI F)) (pan_angle_right ch))"

definition c_abs :: "u32 \<Rightarrow> u32" where
  "c_abs w = (if w <s 0 then - w else w)"

section \<open>Captured or lost\<close>

text \<open>Whether the left and the right edge of the object are in front of the screen.\<close>

definition sides_in_screen :: "'f fp \<Rightarrow> 'f t_screen_geometry \<Rightarrow> 'f t_camera_holder \<Rightarrow> t_DetectResult \<Rightarrow> bool \<times> bool" where
  "sides_in_screen F scr ch d =
     (if max_right d - max_left d \<le> 52 then
        (let b = in_screen_angle F scr ch (avg_offset d) in (b, b))
      else (in_screen_angle F scr ch (max_left d + 26), in_screen_angle F scr ch (max_right d - 26)))"

text \<open>An object partly in front of the screen is judged by its other edge; the flag is \<open>in_screen\<close>.\<close>

definition screen_object :: "'f fp \<Rightarrow> 'f t_screen_geometry \<Rightarrow> 'f t_camera_holder \<Rightarrow> t_DetectResult \<Rightarrow> bool \<times> t_DetectResult" where
  "screen_object F scr ch d =
     (let left_edge = d\<lparr>avg_left := max_left d, avg_right := max_left d + 52\<rparr>;
          right_edge = d\<lparr>avg_right := max_right d, avg_left := max_right d - 52\<rparr>
      in case sides_in_screen F scr ch d of
           (False, False) \<Rightarrow> (False,
             if in_screen_angle F scr ch (avg_offset d) then
               (if c_abs (max_left d - 128) <s c_abs (max_right d - 128) then left_edge else right_edge)
             else d)
         | (False, True) \<Rightarrow> (False, left_edge\<lparr>max_right := max_left d\<rparr>)
         | (True, False) \<Rightarrow> (False, right_edge\<lparr>max_left := max_right d\<rparr>)
         | (True, True) \<Rightarrow> (True, d))"

definition capture_in_screen :: "t_DetectResult \<Rightarrow> tracker \<Rightarrow> tracker" where
  "capture_in_screen d tr =
     (if 2 \<le> detected d then
        (let tr1 = tr\<lparr>motion_in_screen := motion_in_screen tr + 1, still_in_screen := 0\<rparr>
         in tr1\<lparr>acc_of_lost := if acc_of_lost tr1 < 3 then 0
              else if 2 \<le> motion_in_screen tr1 then 0 else acc_of_lost tr1 + 1\<rparr>)
      else
        (let tr1 = tr\<lparr>still_in_screen := still_in_screen tr + 1, motion_in_screen := 0\<rparr>
         in tr1\<lparr>acc_of_lost := if acc_of_lost tr1 < 3 then (if still_in_screen tr1 < 90 then 0 else 3)
              else acc_of_lost tr1 + 1\<rparr>))"

definition not_detected :: "bool \<Rightarrow> tracker \<Rightarrow> tracker" where
  "not_detected screen tr =
     (let tr1 = tr\<lparr>acc_of_lost := acc_of_lost tr + 1\<rparr>
      in if screen then
           (let tr2 = tr1\<lparr>still_in_screen := still_in_screen tr1 + 1\<rparr>
            in if still_in_screen tr2 = 90 \<and> acc_of_lost tr2 < 3 then tr2\<lparr>acc_of_lost := 3\<rparr> else tr2)
         else tr1)"

definition capture :: "'f fp \<Rightarrow> 'f t_screen_geometry \<Rightarrow> 'f t_camera_holder \<Rightarrow> t_DetectResult \<Rightarrow> tracker \<Rightarrow> t_DetectResult \<times> tracker" where
  "capture F scr ch d tr =
     (if detected d \<noteq> 0 then
        (if has_screen scr then
           (case screen_object F scr ch d of (in_screen, d1) \<Rightarrow>
              (d1, if in_screen then capture_in_screen d1 tr
                   else tr\<lparr>acc_of_lost := 0, still_in_screen := 0, motion_in_screen := 0\<rparr>))
         else (d, tr\<lparr>acc_of_lost := 0\<rparr>))
      else (d, not_detected (has_screen scr) tr))"

section \<open>The limits of a move\<close>

text \<open>\<open>IsExclude\<close>: the camera keeps out of the zone between the two excluded positions.\<close>

definition limited :: "bool \<Rightarrow> 'f teacher_ctl \<Rightarrow> u32 \<Rightarrow> u32" where
  "limited IsExclude s dest =
     (let p = PanPos (ctl_ch s) in
      if \<not> IsExclude then at_least (limit_left s) (at_most (limit_right s) dest)
      else
        (let d1 = (if exclude_right s \<le>s p \<and> p \<le>s limit_right s then at_least (exclude_right s) (at_most (limit_right s) dest) else dest)
         in if limit_left s \<le>s p \<and> p \<le>s exclude_left s then at_least (limit_left s) (at_most (exclude_left s) d1) else d1))"

text \<open>The search turns back at the outer limits and crosses the excluded zone from its edge.\<close>

definition turn_at_most :: "u32 \<Rightarrow> u32 \<times> u32 \<Rightarrow> u32 \<times> u32" where
  "turn_at_most m dd = (if m <s fst dd then (m, snd dd * (- 1)) else dd)"

definition turn_at_least :: "u32 \<Rightarrow> u32 \<times> u32 \<Rightarrow> u32 \<times> u32" where
  "turn_at_least m dd = (if fst dd <s m then (m, snd dd * (- 1)) else dd)"

definition cross_at_most :: "u32 \<Rightarrow> u32 \<Rightarrow> u32 \<Rightarrow> u32 \<times> u32 \<Rightarrow> u32 \<times> u32" where
  "cross_at_most p m other dd = (if m <s fst dd then (if m = p then other else m, snd dd) else dd)"

definition cross_at_least :: "u32 \<Rightarrow> u32 \<Rightarrow> u32 \<Rightarrow> u32 \<times> u32 \<Rightarrow> u32 \<times> u32" where
  "cross_at_least p m other dd = (if fst dd <s m then (if m = p then other else m, snd dd) else dd)"

definition scan_limited :: "bool \<Rightarrow> 'f teacher_ctl \<Rightarrow> u32 \<times> u32 \<Rightarrow> u32 \<times> u32" where
  "scan_limited IsExclude s dd =
     (let p = PanPos (ctl_ch s) in
      if \<not> IsExclude then turn_at_least (limit_left s) (turn_at_most (limit_right s) dd)
      else
        (let d1 = (if exclude_right s \<le>s p \<and> p \<le>s limit_right s
                   then cross_at_least p (exclude_right s) (exclude_left s) (turn_at_most (limit_right s) dd) else dd)
         in if limit_left s \<le>s p \<and> p \<le>s exclude_left s
            then turn_at_least (limit_left s) (cross_at_most p (exclude_left s) (exclude_right s) d1) else d1))"

section \<open>Following and searching\<close>

text \<open>A move: the picture threads stop analysing, the camera gets its command.\<close>

definition move_to :: "byte list \<Rightarrow> int \<times> int \<Rightarrow> u32 \<Rightarrow> capture_sync \<times> 'f teacher_ctl \<Rightarrow> (capture_sync \<times> 'f teacher_ctl) res" where
  "move_to g now dest cs =
     (if dest \<noteq> PanPos (ctl_ch (snd cs)) then
        bind_res (sent (AbsPos g now dest (TiltPos (ctl_ch (snd cs))) (ctl_ch (snd cs))) (snd cs)) (\<lambda>s'.
        Inr (\<lparr>g_camholder_still = False, g_analyze_frame_num = 0, g_num_in_group = 0\<rparr>, s'))
      else Inr cs)"

abbreviation (input) "OFFSET_THRES_LOW \<equiv> 26 :: u32"
abbreviation (input) "OFFSET_THRES_HIGH \<equiv> 78 :: u32"

text \<open>An object off the middle is followed at once when it is far off, else at the tenth event on one side.\<close>

definition follow_decision :: "u32 \<Rightarrow> tracker \<Rightarrow> bool \<times> tracker" where
  "follow_decision offset tr =
     (if c_abs offset \<le>s OFFSET_THRES_LOW then (False, tr\<lparr>in_left := 0, in_right := 0\<rparr>)
      else if OFFSET_THRES_LOW <s offset \<and> offset <s OFFSET_THRES_HIGH then
        (in_right tr + 1 = 10, tr\<lparr>in_left := 0, in_right := in_right tr + 1\<rparr>)
      else if - OFFSET_THRES_HIGH <s offset \<and> offset <s - OFFSET_THRES_LOW then
        (in_left tr + 1 = 10, tr\<lparr>in_left := in_left tr + 1, in_right := 0\<rparr>)
      else (True, tr))"

text \<open>
  \<open>relative_pos_threshold\<close> is computed from the angle of the move itself; the angle of the threshold
  (\<open>pan_angle_threshold\<close>) is not used.
\<close>

definition followed :: "u32 \<Rightarrow> u32 \<Rightarrow> u32 \<Rightarrow> tracker \<Rightarrow> tracker" where
  "followed pos rel dest tr = tr\<lparr>in_left := 0, in_right := 0, direction := if pos <s dest then 1 else - 1,
     need_hiden := \<not> (c_abs (dest - pos) <s c_abs rel \<or> c_abs (dest - pos) <s rel)\<rparr>"

definition follow :: "'f fp \<Rightarrow> byte list \<Rightarrow> int \<times> int \<Rightarrow> bool \<Rightarrow> t_DetectResult \<Rightarrow>
    tracker \<times> capture_sync \<times> 'f teacher_ctl \<Rightarrow> (tracker \<times> capture_sync \<times> 'f teacher_ctl) res" where
  "follow F g now IsExclude d st = (case st of (tr0, cs, s) \<Rightarrow>
     let tr = tr0\<lparr>IsMultipleTeacher := 128 \<le> max_right d - max_left d\<rparr>; offset = avg_offset d
     in case follow_decision offset tr of
          (False, tr1) \<Rightarrow> Inr (tr1\<lparr>need_hiden := False\<rparr>, cs, s)
        | (True, tr1) \<Rightarrow>
            (let ch = ctl_ch s; rel = relative_pos F ch offset; dest = limited IsExclude s (PanPos ch + rel)
             in bind_res (move_to g now dest (cs, s)) (\<lambda>(cs', s'). Inr (followed (PanPos ch) rel dest tr1, cs', s'))))"

definition search :: "'f fp \<Rightarrow> byte list \<Rightarrow> int \<times> int \<Rightarrow> bool \<Rightarrow> tracker \<times> capture_sync \<times> 'f teacher_ctl \<Rightarrow>
    (tracker \<times> capture_sync \<times> 'f teacher_ctl) res" where
  "search F g now IsExclude st = (case st of (tr, cs, s) \<Rightarrow>
     if 6 \<le> acc_of_lost tr \<and> acc_of_lost tr mod 3 = 0 then
       (let ch = ctl_ch s; rel = relative_pos F ch (128 * direction tr);
            dd = scan_limited IsExclude s (PanPos ch + rel, direction tr)
        in bind_res (move_to g now (fst dd) (cs, s)) (\<lambda>(cs', s'). Inr (tr\<lparr>direction := snd dd\<rparr>, cs', s')))
     else Inr st)"

text \<open>A detection event, at the time \<open>now\<close>; nothing happens before the set-up is done or while an answer is awaited.\<close>

definition teacher_tracking :: "'f fp \<Rightarrow> byte list \<Rightarrow> int \<times> int \<Rightarrow> 'f t_screen_geometry \<Rightarrow> bool \<Rightarrow> byte list \<Rightarrow>
    tracker \<times> capture_sync \<times> 'f teacher_ctl \<Rightarrow> (tracker \<times> capture_sync \<times> 'f teacher_ctl) res" where
  "teacher_tracking F g now scr IsExclude Msg st = (case st of (tr, cs, s) \<Rightarrow>
     if ctl_status s = 17 \<and> \<not> get_camholder_pending_state (ctl_ch s) then
       bind_res (GetDetectResult Msg) (\<lambda>d0.
       case capture F scr (ctl_ch s) d0 tr of (d, tr1) \<Rightarrow>
       bind_res (if detected d \<noteq> 0 \<and> acc_of_lost tr1 = 0 then follow F g now IsExclude d (tr1, cs, s) else Inr (tr1, cs, s)) (\<lambda>st1.
       search F g now IsExclude st1))
     else Inr st)"

end
