(* ===== verification/Student_Tracking.thy ===== *)
theory Student_Tracking
  imports Tracking
begin

text \<open>
  The tracking of a standing student (\<^verbatim>\<open>student_tracking_geometry_init\<close>, \<^verbatim>\<open>get_student_tracking_param\<close> and
  the part of \<^verbatim>\<open>thread_SwitchTracking\<close> that handles the auxiliary events, \<^verbatim>\<open>recbcsrv/recbc_srv.c\<close>): two fixed
  cameras see the student under two angles, their intersection is his location, and the third camera is
  turned and zoomed there. The lemmas state that the camera stays in its ranges, when it is moved, and
  what the correction does to the event.
\<close>

section \<open>The geometry\<close>

record 'f t_camera_geometry =
  cam_x :: u32
  cam_y :: u32
  cam_z :: u32
  angle_h :: 'f
  angle_v :: 'f
  cam_view_angle :: 'f

text \<open>\<open>dotracking\<close> is \<open>None\<close> until it is assigned for the first time.\<close>

record 'f t_student_tracking_geometry =
  camera_geometry :: "'f t_camera_geometry list"
  student_location :: "u32 \<times> u32"
  last_location :: "u32 \<times> u32"
  target_pan_angle :: 'f
  target_tilt_angle :: 'f
  target_view_angle :: 'f
  dotracking :: "bool option"

definition student_tracking_geometry_init :: "'f fp \<Rightarrow> 'f t_student_tracking_geometry \<Rightarrow> 'f t_student_tracking_geometry" where
  "student_tracking_geometry_init F geo = geo\<lparr>camera_geometry :=
     [\<lparr>cam_x = 0, cam_y = 0, cam_z = 0, angle_h = f_lit F 45, angle_v = f_lit F 0, cam_view_angle = f_lit F 90\<rparr>,
      \<lparr>cam_x = 1000, cam_y = 0, cam_z = 0, angle_h = f_lit F 135, angle_v = f_lit F 0, cam_view_angle = f_lit F 90\<rparr>,
      (camera_geometry geo ! 2)\<lparr>cam_x := 500, cam_y := - 200, cam_z := 100, angle_h := f_lit F 90, angle_v := f_lit F 0\<rparr>],
     last_location := (0, 0)\<rparr>"

section \<open>The location of the student\<close>

text \<open>The angle under which a camera sees the middle of the object, off its axis.\<close>

definition aux_angle :: "'f fp \<Rightarrow> 'f t_camera_geometry \<Rightarrow> t_aux_camera_param \<Rightarrow> 'f" where
  "aux_angle F cg a =
     (let offset = f_float F (f_int F (c_div (aux_left a + aux_right a - 720) 2))
      in f_float F (f_atan F (f_mul F (f_div F offset (f_lit F 360))
           (f_tan F (f_div F (f_mul F (f_div F (cam_view_angle cg) (f_lit F 2)) (M_PI F)) (f_lit F 180))))))"

text \<open>\<open>M_PI/2*n/90\<close>, one degree off the right angle.\<close>

definition near_right_angle :: "'f fp \<Rightarrow> rat \<Rightarrow> 'f" where
  "near_right_angle F n = f_div F (f_mul F (f_div F (M_PI F) (f_lit F 2)) (f_lit F n)) (f_lit F 90)"

definition sight_0 :: "'f fp \<Rightarrow> 'f t_camera_geometry \<Rightarrow> t_aux_camera_param \<Rightarrow> 'f" where
  "sight_0 F cg a =
     (let angle = f_float F (f_div F (f_mul F (angle_h cg) (M_PI F)) (f_lit F 180));
          A0 = f_float F (f_sub F angle (aux_angle F cg a))
      in if f_less F (near_right_angle F 89) A0 then f_float F (near_right_angle F 89) else A0)"

definition sight_1 :: "'f fp \<Rightarrow> 'f t_camera_geometry \<Rightarrow> t_aux_camera_param \<Rightarrow> 'f" where
  "sight_1 F cg a =
     (let angle = f_float F (f_div F (f_mul F (angle_h cg) (M_PI F)) (f_lit F 180));
          A1 = f_float F (f_sub F angle (aux_angle F cg a))
      in if f_less F A1 (near_right_angle F 91) then f_float F (near_right_angle F 91) else A1)"

definition locate :: "'f fp \<Rightarrow> 'f t_camera_geometry list \<Rightarrow> t_aux_camera_param list \<Rightarrow> u32 \<times> u32" where
  "locate F cgs as =
     (let x1 = f_float F (f_int F (cam_x (cgs ! 1))); y1 = f_float F (f_int F (cam_y (cgs ! 1)));
          t0 = f_tan F (sight_0 F (cgs ! 0) (as ! 0)); t1 = f_tan F (sight_1 F (cgs ! 1) (as ! 1));
          d = f_mul F (f_sub F t1 t0) (f_lit F 1000000)
      in if f_le F (f_lit F 1) d \<or> f_le F d (f_lit F (- 1)) then
           (let x = f_trunc F (f_div F (f_sub F (f_mul F x1 t1) y1) (f_sub F t1 t0))
            in (x, f_trunc F (f_mul F t0 (f_int F x))))
         else (f_trunc F (f_div F x1 (f_lit F 2)), f_trunc F (f_div F y1 (f_lit F 2))))"

definition f_sq :: "'f fp \<Rightarrow> 'f \<Rightarrow> 'f" where
  "f_sq F v = f_mul F v v"

text \<open>How many objects the width of the picture stands for, at the distance \<open>s\<close> from the camera.\<close>

definition targets :: "'f fp \<Rightarrow> 'f \<Rightarrow> 'f t_camera_geometry \<Rightarrow> t_aux_camera_param \<Rightarrow> u32" where
  "targets F s cg a =
     (if f_less F (f_mul F s (f_tan F (f_div F (f_div F (f_mul F (f_mul F (f_float F (f_int F (aux_right a - aux_left a)))
           (cam_view_angle cg)) (M_PI F)) (f_lit F 720)) (f_lit F 180)))) (f_lit F 50)
      then 1 else 2)"

definition deviation :: "'f fp \<Rightarrow> u32 \<times> u32 \<Rightarrow> u32 \<times> u32 \<Rightarrow> u32" where
  "deviation F p q = f_trunc F (f_sqrt F (f_int F
     ((fst p - fst q) * (fst p - fst q) + (snd p - snd q) * (snd p - snd q))))"

text \<open>The angles of the third camera.\<close>

definition aim :: "'f fp \<Rightarrow> 'f t_student_tracking_geometry \<Rightarrow> 'f t_student_tracking_geometry" where
  "aim F geo =
     (let cg = camera_geometry geo ! 2; x = f_int F (fst (student_location geo)); y = f_int F (snd (student_location geo));
          x2 = f_float F (f_int F (cam_x cg)); y2 = f_float F (f_int F (cam_y cg)); z2 = f_float F (f_int F (cam_z cg));
          flat = f_add F (f_sq F (f_sub F x2 x)) (f_sq F (f_sub F y2 y));
          r = f_float F (f_sqrt F (f_add F flat (f_sq F z2)))
      in geo\<lparr>target_view_angle := f_float F (f_mul F (f_lit F 2) (f_atan F (f_div F (f_lit F 200) r))),
           target_tilt_angle := f_float F (f_atan F (f_div F (f_neg F z2) (f_sqrt F flat))),
           target_pan_angle := f_float F (f_atan F (f_div F (f_sub F x x2) (f_sub F y y2)))\<rparr>)"

definition distance_0 :: "'f fp \<Rightarrow> u32 \<times> u32 \<Rightarrow> 'f" where
  "distance_0 F p = f_float F (f_sqrt F (f_int F (fst p * fst p + snd p * snd p)))"

definition distance_1 :: "'f fp \<Rightarrow> 'f t_camera_geometry \<Rightarrow> u32 \<times> u32 \<Rightarrow> 'f" where
  "distance_1 F cg p =
     (let x1 = f_float F (f_int F (cam_x cg)); y1 = f_float F (f_int F (cam_y cg))
      in f_float F (f_sqrt F (f_add F (f_sq F (f_sub F (f_int F (fst p)) x1)) (f_sq F (f_sub F (f_int F (snd p)) y1)))))"

text \<open>The number of students standing is corrected; a single one at a new place is to be followed.\<close>

definition get_student_tracking_param ::
    "'f fp \<Rightarrow> 'f t_student_tracking_geometry \<times> t_aux_result \<Rightarrow> 'f t_student_tracking_geometry \<times> t_aux_result" where
  "get_student_tracking_param F gr = (case gr of (geo0, r) \<Rightarrow>
     let cgs = camera_geometry geo0; a0 = aux r ! 0; a1 = aux r ! 1;
         loc = locate F cgs (aux r);
         geo = aim F (geo0\<lparr>student_location := loc\<rparr>);
         n0 = targets F (distance_0 F loc) (cgs ! 0) a0;
         n1 = targets F (distance_1 F (cgs ! 1) loc) (cgs ! 1) a1;
         r' = r\<lparr>aux := (aux r)[0 := a0\<lparr>target_num := n0\<rparr>, 1 := a1\<lparr>target_num := n1\<rparr>], student_in_standing := n0 * n1\<rparr>
     in (if student_in_standing r' = 1 \<and> 100 <s deviation F loc (last_location geo)
         then geo\<lparr>dotracking := Some True, last_location := loc\<rparr> else geo\<lparr>dotracking := Some False\<rparr>, r'))"

section \<open>Auxiliary events\<close>

text \<open>\<open>max*angle*180/M_PI/full\<close>, and \<open>destzoom_pos\<close>.\<close>

definition angle_pos :: "'f fp \<Rightarrow> u32 \<Rightarrow> 'f \<Rightarrow> 'f \<Rightarrow> u32" where
  "angle_pos F mx angle full = f_trunc F (f_div F (f_div F (f_mul F (f_mul F (f_int F mx) angle) (f_lit F 180)) (M_PI F)) full)"

definition zoom_pos_for :: "'f fp \<Rightarrow> 'f t_camera_holder \<Rightarrow> 'f \<Rightarrow> u32" where
  "zoom_pos_for F ch angle = f_trunc F (f_div F (f_mul F
     (f_sub F (view_angle_max ch) (f_div F (f_mul F angle (f_lit F 180)) (M_PI F))) (f_int F (zoom_max ch)))
     (f_sub F (view_angle_max ch) (view_angle_min ch)))"

definition student_move :: "'f fp \<Rightarrow> byte list \<Rightarrow> (int \<times> int) \<times> (int \<times> int) \<Rightarrow> 'f t_student_tracking_geometry \<Rightarrow>
    'f cam_ctl \<Rightarrow> 'f cam_ctl res" where
  "student_move F g now geo s =
     (let ch = ctl_ch s; p0 = preset ch ! 0;
          destpan = at_least (pan_min ch) (at_most (pan_max ch)
            (pan_pos p0 + angle_pos F (pan_max ch) (target_pan_angle geo) (pan_angle_right ch)));
          desttilt = at_least (tilt_min ch) (at_most (tilt_max ch)
            (tilt_pos p0 + angle_pos F (tilt_max ch) (target_tilt_angle geo) (tilt_angle_up ch)));
          destzoom = at_least (zoom_min ch) (at_most (zoom_max ch) (zoom_pos_for F ch (target_view_angle geo)))
      in bind_res (sent (AbsPos g (fst now) destpan desttilt ch) s) (\<lambda>s1.
         sent (ZoomDirect g (snd now) destzoom (ctl_ch s1)) s1))"

definition student_tracking :: "'f fp \<Rightarrow> byte list \<Rightarrow> (int \<times> int) \<times> (int \<times> int) \<Rightarrow> byte list \<Rightarrow>
    'f t_student_tracking_geometry \<times> 'f cam_ctl \<Rightarrow> ('f t_student_tracking_geometry \<times> 'f cam_ctl) res" where
  "student_tracking F g now Msg gs = (case gs of (geo, s) \<Rightarrow>
     bind_res (GetAuxResult Msg) (\<lambda>r.
     let geo1 = (if student_in_standing r \<noteq> 0 then fst (get_student_tracking_param F (geo, r)) else geo)
     in if ctl_status s = 5 then
          (case dotracking geo1 of
             None \<Rightarrow> Inl Uninitialised
           | Some b \<Rightarrow> if b then bind_res (student_move F g now geo1 s) (\<lambda>s'. Inr (geo1, s')) else Inr (geo1, s))
        else Inr (geo1, s)))"

text \<open>The verdict for the director: the event is decoded and corrected once more.\<close>

definition standing_verdict :: "'f fp \<Rightarrow> byte list \<Rightarrow> 'f t_student_tracking_geometry \<Rightarrow> ('f t_student_tracking_geometry \<times> u32) res" where
  "standing_verdict F Msg geo =
     bind_res (GetAuxResult Msg) (\<lambda>r.
     Inr (if student_in_standing r \<noteq> 0
          then (case get_student_tracking_param F (geo, r) of (geo', r') \<Rightarrow> (geo', student_in_standing r'))
          else (geo, 0)))"

section \<open>The third camera\<close>

text \<open>The two commands of a move.\<close>

definition student_moved ::
    "(int \<times> int) \<times> (int \<times> int) \<Rightarrow> u32 \<Rightarrow> u32 \<Rightarrow> u32 \<Rightarrow> 'f cam_ctl \<Rightarrow> 'f cam_ctl" where
  "student_moved now p t z s = (let s1 = moved (fst now) p t s in
     s1\<lparr>ctl_ch := set_pending CH_COMPLETION_PENDING (snd now) ((ctl_ch s1)\<lparr>target_ZoomPos := z\<rparr>),
        ctl_tx := ctl_tx s1 @ camhld_tx (uart_channel (ctl_ch s1)) (zoom_bytes z)\<rparr>)"

lemma clamped_in_range: "lo \<le>s hi \<Longrightarrow> in_range lo hi (at_least lo (at_most hi d))"
  by (simp add: in_range_sint sint_at_least sint_at_most word_sle_eq)

text \<open>
  The ranges of the student's camera. Wherever the geometry puts the student, the camera gets one
  absolute move and one zoom, and their targets are in the ranges of the camera.
\<close>

theorem student_move_in_range:
  assumes "length g = CMD_BUFSIZE" and "ranges_ok (ctl_ch s)"
  shows "\<exists>p t z. student_move F g now geo s = Inr (student_moved now p t z s) \<and>
    in_range (pan_min (ctl_ch s)) (pan_max (ctl_ch s)) p \<and> in_range (tilt_min (ctl_ch s)) (tilt_max (ctl_ch s)) t \<and>
    in_range (zoom_min (ctl_ch s)) (zoom_max (ctl_ch s)) z"
proof -
  have z: "sent (ZoomDirect g n z (ctl_ch x)) x = Inr (x\<lparr>ctl_ch := set_pending CH_COMPLETION_PENDING n ((ctl_ch x)\<lparr>target_ZoomPos := z\<rparr>),
      ctl_tx := ctl_tx x @ camhld_tx (uart_channel (ctl_ch x)) (zoom_bytes z)\<rparr>)" for n z and x :: "'a cam_ctl"
    by (simp add: sent_def commands_correct [OF assms(1)])
  note r = assms(2) [unfolded ranges_ok_def] and c = clamped_in_range
  have "\<exists>p t z. student_move F g now geo s = bind_res (Inr (moved (fst now) p t s)) (\<lambda>s1. sent (ZoomDirect g (snd now) z (ctl_ch s1)) s1) \<and>
    in_range (pan_min (ctl_ch s)) (pan_max (ctl_ch s)) p \<and> in_range (tilt_min (ctl_ch s)) (tilt_max (ctl_ch s)) t \<and>
    in_range (zoom_min (ctl_ch s)) (zoom_max (ctl_ch s)) z"
    unfolding student_move_def Let_def sent_abspos [OF assms(1)] using r c by blast
  then show ?thesis unfolding bind_res.simps z student_moved_def Let_def by blast
qed

text \<open>For the examples: no camera is configured beyond the defaults, and an event of the two channels.\<close>

definition default_geometry :: "rat t_student_tracking_geometry" where
  "default_geometry = student_tracking_geometry_init rat_fp
     \<lparr>camera_geometry = replicate 3 \<lparr>cam_x = 0, cam_y = 0, cam_z = 0, angle_h = 0, angle_v = 0, cam_view_angle = 0\<rparr>,
      student_location = (0, 0), last_location = (0, 0), target_pan_angle = 0, target_tilt_angle = 0, target_view_angle = 0,
      dotracking = None\<rparr>"

theorem student_move_in_range_witness:
  "\<exists>p t z. student_move rat_fp (replicate CMD_BUFSIZE NUL) ((5, 0), (5, 9)) default_geometry (cam_ctl.truncate (cleared_ctl 5)) =
      Inr (student_moved ((5, 0), (5, 9)) p t z (cam_ctl.truncate (cleared_ctl 5))) \<and>
    in_range (- 1600) 1600 p \<and> in_range (- 400) 1200 t \<and> in_range 0 16384 z"
proof -
  let ?s = "cam_ctl.truncate (cleared_ctl 5)"
  have "pan_min (ctl_ch ?s) = - 1600" "pan_max (ctl_ch ?s) = 1600" "tilt_min (ctl_ch ?s) = - 400" "tilt_max (ctl_ch ?s) = 1200"
    "zoom_min (ctl_ch ?s) = 0" "zoom_max (ctl_ch ?s) = 16384"
    by (simp_all add: cleared_ctl_def cam_ctl.defs cleared_holder_def camera_holder_init_def)
  moreover from this have "ranges_ok (ctl_ch ?s)" by (simp add: ranges_ok_def word_sle_eq)
  ultimately show ?thesis
    using student_move_in_range [of "replicate CMD_BUFSIZE NUL" ?s rat_fp "((5, 0), (5, 9))" default_geometry] by simp
qed

section \<open>Following a student\<close>

lemma aim_fields [simp]:
  "camera_geometry (aim F geo) = camera_geometry geo" "student_location (aim F geo) = student_location geo"
  "last_location (aim F geo) = last_location geo" "dotracking (aim F geo) = dotracking geo"
  by (simp_all add: aim_def Let_def)

text \<open>The corrected number of standing students.\<close>

definition standing :: "'f fp \<Rightarrow> 'f t_student_tracking_geometry \<Rightarrow> t_aux_result \<Rightarrow> u32" where
  "standing F geo r = (let loc = locate F (camera_geometry geo) (aux r) in
     targets F (distance_0 F loc) (camera_geometry geo ! 0) (aux r ! 0) *
     targets F (distance_1 F (camera_geometry geo ! 1) loc) (camera_geometry geo ! 1) (aux r ! 1))"

lemma standing_values: "standing F geo r \<in> {1, 2, 4}"
  by (simp add: standing_def targets_def Let_def)

lemma tracking_param:
  "camera_geometry (fst (get_student_tracking_param F (geo, r))) = camera_geometry geo"
  "student_location (fst (get_student_tracking_param F (geo, r))) = locate F (camera_geometry geo) (aux r)"
  "student_in_standing (snd (get_student_tracking_param F (geo, r))) = standing F geo r"
  "dotracking (fst (get_student_tracking_param F (geo, r))) =
     Some (standing F geo r = 1 \<and> 100 <s deviation F (locate F (camera_geometry geo) (aux r)) (last_location geo))"
  "last_location (fst (get_student_tracking_param F (geo, r))) =
     (if dotracking (fst (get_student_tracking_param F (geo, r))) = Some True
      then locate F (camera_geometry geo) (aux r) else last_location geo)"
  by (simp_all add: get_student_tracking_param_def Let_def standing_def)

text \<open>
  C16. A student is followed once. An auxiliary event with students standing is judged twice, by the tracking
  and for the director: the verdict is 1, 2 or 4. The camera is moved exactly when it is 1 and the student
  is more than 100 away from where he was followed last; then this place becomes the last one, and the
  second judgement leaves nothing to do for the next event.
\<close>

theorem student_followed_once:
  assumes "length g = CMD_BUFSIZE" and "ranges_ok (ctl_ch s)" and "ctl_status s = 5"
    and "GetAuxResult Msg = Inr r" and "student_in_standing r \<noteq> 0" and "\<not> 100 <s f_trunc F (f_sqrt F (f_int F 0))"
  shows "\<exists>geo1 s1 geo2 v. student_tracking F g now Msg (geo, s) = Inr (geo1, s1) \<and> standing_verdict F Msg geo1 = Inr (geo2, v) \<and>
    v \<in> {1, 2, 4} \<and> dotracking geo2 = Some False \<and>
    (if v = 1 \<and> 100 <s deviation F (student_location geo2) (last_location geo)
     then last_location geo2 = student_location geo2 \<and> (\<exists>p t z. s1 = student_moved now p t z s)
     else last_location geo2 = last_location geo \<and> s1 = s)"
proof -
  define geo1 where "geo1 = fst (get_student_tracking_param F (geo, r))"
  define geo2 where "geo2 = fst (get_student_tracking_param F (geo1, r))"
  define loc where "loc = locate F (camera_geometry geo) (aux r)"
  note P1 = tracking_param [of F geo r, folded geo1_def, folded loc_def]
  have P2: "student_location geo2 = loc" "standing F geo1 r = standing F geo r"
    "dotracking geo2 = Some (standing F geo r = 1 \<and> 100 <s deviation F loc (last_location geo1))"
    "last_location geo2 = (if dotracking geo2 = Some True then loc else last_location geo1)"
    using tracking_param [of F geo1 r] P1(1) by (simp_all add: standing_def geo2_def loc_def)
  have here: "\<not> 100 <s deviation F loc loc" using assms(6) by (simp add: deviation_def)
  then have d: "dotracking geo2 = Some False" "last_location geo2 = last_location geo1"
    using P1(4,5) P2(3,4) by (auto split: if_splits)
  have v: "standing_verdict F Msg geo1 = Inr (geo2, standing F geo r)"
    using assms(4,5) tracking_param(3) [of F geo1 r] P2(2) by (simp add: standing_verdict_def geo2_def split_beta)
  obtain p t z where m: "student_move F g now geo1 s = Inr (student_moved now p t z s)"
    using student_move_in_range [OF assms(1,2)] by blast
  show ?thesis
  proof (cases "standing F geo r = 1 \<and> 100 <s deviation F loc (last_location geo)")
    case True
    then have "student_tracking F g now Msg (geo, s) = Inr (geo1, student_moved now p t z s)"
      using assms(3-5) P1(4) m by (simp add: student_tracking_def Let_def flip: geo1_def)
    moreover have "last_location geo1 = loc" using True P1(4,5) by simp
    ultimately show ?thesis
      using True v d P2(1) standing_values [of F geo r] by fastforce
  next
    case False
    then have "student_tracking F g now Msg (geo, s) = Inr (geo1, s)"
      using assms(3-5) P1(4) by (auto simp: student_tracking_def Let_def simp flip: geo1_def)
    moreover have "last_location geo1 = last_location geo" using False P1(4,5) by auto
    ultimately show ?thesis using False v d P2(1) standing_values [of F geo r] by fastforce
  qed
qed

theorem student_followed_once_witness:
  "\<exists>geo1 s1. \<exists>geo2 :: rat t_student_tracking_geometry. \<exists>v :: u32. student_tracking rat_fp (replicate CMD_BUFSIZE NUL) ((5, 0), (5, 9))
      (make_msg COMMAND_EVENT_AUX (map call_attr (aux_calls 0 \<lparr>target_num = 1, aux_top = 0, aux_left = 300, aux_bottom = 90, aux_right = 340\<rparr> @
        aux_calls 1 \<lparr>target_num = 1, aux_top = 0, aux_left = 400, aux_bottom = 90, aux_right = 430\<rparr>)))
      (default_geometry, cam_ctl.truncate (cleared_ctl 5)) = Inr (geo1, s1) \<and> v \<in> {1, 2, 4} \<and> dotracking geo2 = Some False"
proof -
  let ?s = "cam_ctl.truncate (cleared_ctl 5)"
  let ?p = "\<lparr>target_num = 1, aux_top = 0, aux_left = 300, aux_bottom = 90, aux_right = 340\<rparr>"
  let ?q = "\<lparr>target_num = 1, aux_top = 0, aux_left = 400, aux_bottom = 90, aux_right = 430\<rparr>"
  define Msg where "Msg = make_msg COMMAND_EVENT_AUX (map call_attr (aux_calls 0 ?p @ aux_calls 1 ?q))"
  have r: "GetAuxResult Msg = Inr \<lparr>aux = [?p, ?q], student_in_standing = aux_standing ?p ?q\<rparr>"
    unfolding Msg_def using GetAuxResult_msg [of ?p ?q "[]"] by (simp only: append_Nil2)
  have n: "student_in_standing \<lparr>aux = [?p, ?q], student_in_standing = aux_standing ?p ?q\<rparr> \<noteq> 0" by (simp add: aux_standing_def)
  have c: "ctl_status ?s = 5" "ranges_ok (ctl_ch ?s)"
    by (simp_all add: cleared_ctl_def cam_ctl.defs ranges_ok_def cleared_holder_def camera_holder_init_def word_sle_eq)
  have z: "\<not> 100 <s f_trunc rat_fp (f_sqrt rat_fp (f_int rat_fp 0))" by (simp add: rat_fp_def f_int_def word_sless_alt)
  define g where "g = replicate CMD_BUFSIZE NUL"
  have g: "length g = CMD_BUFSIZE" by (simp add: g_def)
  from student_followed_once [OF g c(2,1) r n z, of "((5, 0), (5, 9))" default_geometry]
  have "\<exists>geo1 s1. \<exists>geo2 :: rat t_student_tracking_geometry. \<exists>v :: u32. student_tracking rat_fp g ((5, 0), (5, 9)) Msg (default_geometry, ?s) = Inr (geo1, s1) \<and>
      v \<in> {1, 2, 4} \<and> dotracking geo2 = Some False"
    by (elim exE conjE) (intro exI conjI)
  then show ?thesis unfolding Msg_def g_def .
qed

text \<open>
  Before the first student. The flag that asks for a move is not assigned by the initialisation, so an
  event without a student that comes before any with one reads it uninitialised.
\<close>

theorem student_flag_uninitialised:
  assumes "dotracking geo = None" and "ctl_status s = 5" and "GetAuxResult Msg = Inr r" and "student_in_standing r = 0"
  shows "student_tracking F g now Msg (student_tracking_geometry_init F geo, s) = Inl Uninitialised"
  using assms by (simp add: student_tracking_def student_tracking_geometry_init_def)


theorem student_flag_uninitialised_witness:
  "student_tracking rat_fp [] ((0, 0), (0, 0)) (COMMAND_VERSION @ COMMAND_EVENT_AUX @ ''0000'') (default_geometry, cam_ctl.truncate (cleared_ctl 5)) = Inl Uninitialised"
proof -
  let ?r = "\<lparr>aux = [aux_zero, aux_zero], student_in_standing = 0\<rparr>"
  have a: "GetAuxResult (COMMAND_VERSION @ COMMAND_EVENT_AUX @ ''0000'') = Inr ?r"
    by (simp add: GetAuxResult_def scan_msg_def msg_len_def read_hex_eq hex_value_def digit_val_def hex_digit_def scan_attrs.simps
      aux_standing_def)
  have c: "ctl_status (cam_ctl.truncate (cleared_ctl 5)) = 5" by (simp add: cleared_ctl_def cam_ctl.defs)
  show ?thesis
    unfolding default_geometry_def by (rule student_flag_uninitialised [OF _ c a]) simp_all
qed

end
