(* ===== verification/Director_Thread.thy ===== *)
theory Director_Thread
  imports Switch_Director Student_Tracking
begin

text \<open>
  One turn of the main loop of \<^verbatim>\<open>thread_SwitchTracking\<close> (\<^verbatim>\<open>recbcsrv/recbc_srv.c\<close>): the set-up of the two
  cameras, the serial lines, the control messages of the operator, the detection events and the tick of
  the director, in this order, on the state the thread keeps in its locals and the globals it shares.
  The times at which the thread reads the clock are inputs, one for each message.
\<close>

section \<open>The state of the thread\<close>

record 'f switch_state =
  sw_dir :: director
  sw_vmap :: vmap_table
  sw_mode :: u32                                    \<comment> \<open>\<open>g_cfg.IsAutoInstuct\<close>\<close>
  sw_teacher :: "'f teacher_ctl"
  sw_student :: "'f cam_ctl"
  sw_tracker :: tracker
  sw_sync :: capture_sync
  sw_geo :: "'f t_student_tracking_geometry"
  sw_timeval1 :: "int \<times> int"
  sw_uart :: "byte list list"                       \<comment> \<open>the queues of the six serial lines\<close>
  sw_out :: "fifo_add list"                         \<comment> \<open>added to \<open>Switch_producer_fifo\<close>\<close>

text \<open>What does not change while the thread runs; \<open>g_buf\<close> is what a local \<open>t_cmd\<close> holds.\<close>

record 'f switch_config =
  cf_fp :: "'f fp"
  g_buf :: "byte list"
  VGADuration :: u32
  cf_screen :: "'f t_screen_geometry"
  IsExclude :: bool

section \<open>Control messages\<close>

definition restart_tracker :: "tracker \<Rightarrow> tracker" where
  "restart_tracker tr = tr\<lparr>acc_of_lost := 3, motion_in_screen := 0, still_in_screen := 0, in_left := 0, in_right := 0\<rparr>"

text \<open>\<open>if(thread_param->teacher_status == 17) Recall(thread_param, &teacher, 0);\<close>\<close>

definition recall_home :: "'f switch_config \<Rightarrow> int \<times> int \<Rightarrow> 'f switch_state \<Rightarrow> 'f switch_state res" where
  "recall_home cf now st =
     (if ctl_status (sw_teacher st) = 17 then
        bind_res (sent (Recall (g_buf cf) now 0 (ctl_ch (sw_teacher st))) (sw_teacher st)) (\<lambda>t.
        Inr (st\<lparr>sw_teacher := t\<rparr>))
      else Inr st)"

definition ctl_start :: "'f switch_config \<Rightarrow> int \<times> int \<Rightarrow> 'f switch_state \<Rightarrow> 'f switch_state res" where
  "ctl_start cf now st =
     bind_res (recall_home cf now (st\<lparr>sw_tracker := restart_tracker (sw_tracker st)\<rparr>)) (\<lambda>st1.
     let d = director_start (sw_dir st1)
     in bind_res (enter_start (g_buf cf) (sw_vmap st1) (fsm_get_state (fsm d))) (\<lambda>(ms, t).
        Inr (st1\<lparr>sw_dir := d, sw_vmap := t, sw_out := sw_out st1 @ ms, sw_timeval1 := now\<rparr>)))"

definition ctl_stop :: "'f switch_config \<Rightarrow> int \<times> int \<Rightarrow> 'f switch_state \<Rightarrow> 'f switch_state res" where
  "ctl_stop cf now st = bind_res (recall_home cf now st) (\<lambda>st1.
     Inr (st1\<lparr>sw_vmap := vmap_table_reset_pip (sw_vmap st1)\<rparr>))"

definition ctl_switch_video :: "'f switch_config \<Rightarrow> string \<Rightarrow> 'f switch_state \<Rightarrow> 'f switch_state res" where
  "ctl_switch_video cf attr_value st =
     bind_res (switch_video (g_buf cf) (sw_vmap st) attr_value) (\<lambda>(ms, t).
     Inr (st\<lparr>sw_vmap := t, sw_out := sw_out st @ ms\<rparr>))"

definition set_record_mode :: "string \<Rightarrow> u32 \<Rightarrow> u32" where
  "set_record_mode attr_value mode =
     (if attr_value = ''Manual'' then 0 else if attr_value = ''HalfAuto'' then 1
      else if attr_value = ''Auto'' then 2 else mode)"

definition ctl_attr :: "'f switch_config \<Rightarrow> int \<times> int \<Rightarrow> 'f switch_state \<Rightarrow> byte list \<Rightarrow> byte list \<Rightarrow> 'f switch_state res" where
  "ctl_attr cf now st name value = (let attr_name = c_str name; attr_value = c_str value in
     if attr_name = ''Start'' then ctl_start cf now st
     else if attr_name = ''Stop'' then ctl_stop cf now st
     else if attr_name = ''SwitchVideo'' then ctl_switch_video cf attr_value st
     else if attr_name = ''SetRecordMode'' then Inr (st\<lparr>sw_mode := set_record_mode attr_value (sw_mode st)\<rparr>)
     else
       bind_res (camera_attr (cf_fp cf) (g_buf cf) now ''T'' attr_name value (sw_teacher st)) (\<lambda>t.
       bind_res (camera_attr (cf_fp cf) (g_buf cf) now ''S'' attr_name value (sw_student st)) (\<lambda>s.
       Inr (st\<lparr>sw_teacher := t, sw_student := s\<rparr>))))"

definition ctl_message :: "'f switch_config \<Rightarrow> 'f switch_state \<Rightarrow> (int \<times> int) \<times> byte list \<Rightarrow> 'f switch_state res" where
  "ctl_message cf st m = (case m of (now, Msg) \<Rightarrow>
     bind_res (msg_command Msg) (\<lambda>cmd.
     if cmd = COMMAND_INTERNAL then scan_msg 16 1536 Msg (ctl_attr cf now) st else Inr st))"

section \<open>Detection events\<close>

text \<open>An event with its times; \<open>junk\<close> is what the stack holds in the result of a VGA event.\<close>

record switch_event =
  ev_msg :: "byte list"
  ev_times :: "(int \<times> int) \<times> (int \<times> int)"
  ev_junk :: u32

definition event_tracking :: "'f switch_config \<Rightarrow> switch_event \<Rightarrow> string \<Rightarrow> 'f switch_state \<Rightarrow> 'f switch_state res" where
  "event_tracking cf ev cmd st =
     (if cmd = COMMAND_EVENT_VID then
        bind_res (teacher_tracking (cf_fp cf) (g_buf cf) (fst (ev_times ev)) (cf_screen cf) (IsExclude cf) (ev_msg ev)
          (sw_tracker st, sw_sync st, sw_teacher st)) (\<lambda>(tr, cs, t).
        Inr (st\<lparr>sw_tracker := tr, sw_sync := cs, sw_teacher := t\<rparr>))
      else if cmd = COMMAND_EVENT_AUX then
        bind_res (student_tracking (cf_fp cf) (g_buf cf) (ev_times ev) (ev_msg ev) (sw_geo st, sw_student st)) (\<lambda>(geo, s).
        Inr (st\<lparr>sw_geo := geo, sw_student := s\<rparr>))
      else Inr st)"

definition event_conditions :: "'f switch_config \<Rightarrow> switch_event \<Rightarrow> string \<Rightarrow> 'f switch_state \<Rightarrow> 'f switch_state res" where
  "event_conditions cf ev cmd st =
     (if cmd = COMMAND_EVENT_VID then
        (let tr = sw_tracker st
         in Inr (st\<lparr>sw_dir := set_fsm_conditions (vid_conditions (need_hiden tr) (IsMultipleTeacher tr) (acc_of_lost tr)) (sw_dir st)\<rparr>))
      else if cmd = COMMAND_EVENT_AUX then
        bind_res (standing_verdict (cf_fp cf) (ev_msg ev) (sw_geo st)) (\<lambda>(geo, n).
        Inr (st\<lparr>sw_geo := geo, sw_dir := aux_event n (sw_dir st)\<rparr>))
      else if cmd = COMMAND_EVENT_VGA then
        bind_res (GetVGAResult (ev_junk ev) (ev_msg ev)) (\<lambda>changed.
        Inr (st\<lparr>sw_dir := vga_event (VGADuration cf) changed (sw_dir st)\<rparr>))
      else Inr st)"

definition event_message :: "'f switch_config \<Rightarrow> 'f switch_state \<Rightarrow> switch_event \<Rightarrow> 'f switch_state res" where
  "event_message cf st ev =
     bind_res (msg_command (ev_msg ev)) (\<lambda>cmd.
     if sw_mode st \<noteq> 0 then
       bind_res (event_tracking cf ev cmd st) (\<lambda>st1. event_conditions cf ev cmd st1)
     else Inr st)"

section \<open>The tick\<close>

definition interval :: "int \<times> int \<Rightarrow> int \<times> int \<Rightarrow> u32" where
  "interval t2 t1 = word_of_int ((fst t2 - fst t1) * 1000 + (snd t2 - snd t1) sdiv 1000)"

definition tick :: "'f switch_config \<Rightarrow> int \<times> int \<Rightarrow> 'f switch_state \<Rightarrow> 'f switch_state res" where
  "tick cf now st =
     (if sw_mode st = 2 \<and> 3000 \<le>s interval now (sw_timeval1 st) then
        bind_res (director_tick (sw_dir st)) (\<lambda>(ret, d).
        bind_res (enter_state (g_buf cf) (sw_vmap st) ret) (\<lambda>(ms, t).
        Inr (st\<lparr>sw_dir := d, sw_vmap := t, sw_out := sw_out st @ ms,
               sw_timeval1 := if ret \<noteq> FSM_NOTRANSITION then now else sw_timeval1 st\<rparr>)))
      else Inr st)"

section \<open>A turn of the loop\<close>

text \<open>What arrives in a turn: bytes on the serial lines, control messages, events; and the clock.\<close>

record turn_input =
  tn_teacher :: "(int \<times> int) \<times> (int \<times> int)"
  tn_student :: "(int \<times> int) \<times> (int \<times> int)"
  tn_uart :: "byte list list"
  tn_ctrl :: "((int \<times> int) \<times> byte list) list"
  tn_events :: "switch_event list"
  tn_tick :: "int \<times> int"

definition setup_cameras :: "'f switch_config \<Rightarrow> turn_input \<Rightarrow> 'f switch_state \<Rightarrow> 'f switch_state res" where
  "setup_cameras cf i st =
     bind_res (teacher_setup (g_buf cf) (fst (tn_teacher i)) (snd (tn_teacher i)) (sw_teacher st)) (\<lambda>t.
     bind_res (student_setup (g_buf cf) (fst (tn_student i)) (snd (tn_student i)) (sw_student st)) (\<lambda>s.
     Inr (st\<lparr>sw_teacher := t, sw_student := s\<rparr>)))"

definition receive_answers :: "turn_input \<Rightarrow> 'f switch_state \<Rightarrow> 'f switch_state res" where
  "receive_answers i st =
     bind_res (uart_lines (map2 (@) (sw_uart st) (tn_uart i)) (ctl_ch (sw_teacher st), ctl_ch (sw_student st))) (\<lambda>(qs, t, s).
     Inr (st\<lparr>sw_uart := qs, sw_teacher := (sw_teacher st)\<lparr>ctl_ch := t\<rparr>, sw_student := (sw_student st)\<lparr>ctl_ch := s\<rparr>\<rparr>))"

definition camera_still :: "'f switch_state \<Rightarrow> 'f switch_state" where
  "camera_still st =
     (if \<not> get_camholder_pending_state (ctl_ch (sw_teacher st)) then st\<lparr>sw_sync := (sw_sync st)\<lparr>g_camholder_still := True\<rparr>\<rparr> else st)"

definition switch_turn :: "'f switch_config \<Rightarrow> 'f switch_state \<Rightarrow> turn_input \<Rightarrow> 'f switch_state res" where
  "switch_turn cf st i =
     bind_res (setup_cameras cf i st) (\<lambda>st1.
     bind_res (receive_answers i st1) (\<lambda>st2.
     bind_res (fold_res (ctl_message cf) (camera_still st2) (tn_ctrl i)) (\<lambda>st3.
     bind_res (fold_res (event_message cf) st3 (tn_events i)) (\<lambda>st4.
     tick cf (tn_tick i) st4))))"

end
