(* ===== verification/Switch_Properties.thy ===== *)
theory Switch_Properties
  imports Switch_Director
begin

text \<open>
  The properties of the director: what a tick decides, which states it can enter, how long a standing
  student is remembered, and what the boards are told when a state is entered.
\<close>

section \<open>What is shown\<close>

fun main_video :: "e_fsm_state \<Rightarrow> int" where
  "main_video FSM_TEACHER_CLOSEUP = VIDEO_FUNCTION_TEACHER_CLOSEUP"
| "main_video FSM_STUDENT_CLOSEUP = VIDEO_FUNCTION_STUDENT_CLOSEUP"
| "main_video FSM_TEACHER_PANORAMA = VIDEO_FUNCTION_TEACHER_PANORAMA"
| "main_video FSM_STUDENT_PANORAMA = VIDEO_FUNCTION_STUDENT_PANORAMA"
| "main_video FSM_BOARD_CLOSEUP = VIDEO_FUNCTION_BOARD_CLOSEUP"
| "main_video FSM_TEACHER_CLOSEUP_PIP_STUDENT_CLOSEUP = VIDEO_FUNCTION_TEACHER_CLOSEUP"
| "main_video FSM_BLACKBOARD_PIP_STUDENT_CLOSEUP = VIDEO_FUNCTION_BOARD_CLOSEUP"
| "main_video _ = VIDEO_FUNCTION_VGA"

fun pip_video :: "e_fsm_state \<Rightarrow> int option" where
  "pip_video FSM_VGA_PIP_TEACHER_CLOSEUP = Some VIDEO_FUNCTION_TEACHER_CLOSEUP"
| "pip_video FSM_TEACHER_CLOSEUP_PIP_STUDENT_CLOSEUP = Some VIDEO_FUNCTION_STUDENT_CLOSEUP"
| "pip_video FSM_BLACKBOARD_PIP_STUDENT_CLOSEUP = Some VIDEO_FUNCTION_STUDENT_CLOSEUP"
| "pip_video _ = None"

text \<open>The VGA signal is not in the table of the videos: its function is its input.\<close>

definition shown_input :: "vmap_table \<Rightarrow> e_fsm_state \<Rightarrow> int" where
  "shown_input t st = (if main_video st = VIDEO_FUNCTION_VGA then 0 else vmap_table_get_capid_by_function t (main_video st))"

definition switch_msg :: "int \<Rightarrow> int option \<Rightarrow> fifo_add" where
  "switch_msg cap_id pip = msg_of (COMMAND_SWITCHCTRL,
     [Attr_Int ''CaptureId'' (word_of_int cap_id), Attr_Int ''PIP'' (case pip of None \<Rightarrow> 0 | Some _ \<Rightarrow> 1)])"

definition mark_pip :: "int option \<Rightarrow> vmap_table \<Rightarrow> vmap_table" where
  "mark_pip pip t = (case pip of None \<Rightarrow> vmap_table_reset_pip t | Some f \<Rightarrow> vmap_table_set_pip_by_function t f)"

lemma mark_pip_fields [simp]:
  "map vm_function (mark_pip pip t) = map vm_function t" "map vm_cap_id (mark_pip pip t) = map vm_cap_id t"
  "pip_marks (mark_pip pip t) = (case pip of None \<Rightarrow> [] | Some f \<Rightarrow> if f \<in> set (map vm_function t) then [f] else [])"
  by (auto simp: mark_pip_def split: option.splits)

lemma short_switch_msg: "short_msg (COMMAND_SWITCHCTRL, [Attr_Int ''CaptureId'' a, Attr_Int ''PIP'' b])"
proof -
  have l: "length (encode_attr (n, sprintf_x 1 (unat (i :: u32)))) \<le> 5 + length n + 8" if "length n < 16" for n i
    using that length_sprintf_u32 [of i] by (subst length_encode_attr) (simp_all add: short_attr_def)
  show ?thesis
    using l [of "''CaptureId''" a] l [of "''PIP''" b] length_sprintf_u32 [of a] length_sprintf_u32 [of b]
    by (simp add: short_msg_def short_attr_def del: encode_attr.simps)
qed

lemma switch_to_correct:
  "length g = CMD_BUFSIZE \<Longrightarrow> switch_to g cap_id pip t = Inr ([switch_msg cap_id pip], mark_pip pip t)"
  by (simp add: switch_to_def switch_cmd_def cmd_add_short short_switch_msg switch_msg_def mark_pip_def split: option.splits)

lemma enter_state_correct:
  "length g = CMD_BUFSIZE \<Longrightarrow> st \<noteq> FSM_NOTRANSITION \<Longrightarrow>
   enter_state g t st = Inr ([switch_msg (shown_input t st) (pip_video st)], mark_pip (pip_video st) t)"
  by (cases st) (simp_all add: enter_state_def switch_to_correct shown_input_def)

section \<open>Properties\<close>

text \<open>
  C8. In every run of detection events, starts and ticks exactly one condition of each group holds
  (nobody ever writes on the board), exactly one combination condition holds, and a tick decides on
  the situation alone: the first condition, in the order VGA, teacher, student, board, combination,
  for which the row of the current state has a transition.
\<close>

theorem director_decides:
  assumes "director_runs table d"
  shows "\<exists>v t s. v < 2 \<and> t < 3 \<and> s < 3 \<and>
    (\<forall>c<COND_MAX. truth_table_condition_test c (fsm_truth_table (fsm d)) \<longleftrightarrow>
       c \<in> {v, 2 + t, 5 + s, COND_BOARD_NOTWRITE, comb_index v t s 0}) \<and>
    director_tick d = Inr (let ret = decide (table (current_state (fsm d))) v t s 0
      in (ret, if ret = FSM_NOTRANSITION then d else d\<lparr>fsm := (fsm d)\<lparr>current_state := ret\<rparr>\<rparr>))"
proof -
  obtain v t s where S: "in_situation v t s d" "current_state (fsm d) \<noteq> FSM_NOTRANSITION"
    "fsm_transition_table (fsm d) = table"
    using runs_ok [OF assms] unfolding director_ok_def by blast
  then have b: "v < 2" "t < 3" "s < 3" "fsm_truth_table (fsm d) = canon (situation v t s 0)"
    by (simp_all add: in_situation_def)
  have "\<forall>c<46. truth_table_condition_test c (fsm_truth_table (fsm d)) \<longleftrightarrow> c \<in> {v, 2 + t, 5 + s, 8, comb_index v t s 0}"
    using b test_situation [of v t s 0] by (auto simp: situation_def comb_index_def)
  then show ?thesis using b tick_situation [OF S(1,2)] S(3) by (intro exI [of _ v] exI [of _ t] exI [of _ s]) simp
qed

text \<open>
  C9. With the built-in transition table a tick never enters a state that shows the board, never
  re-enters the current state, and while the VGA signal changes the state after it shows VGA.
\<close>

theorem director_safe:
  assumes "director_runs transition_table_init d" and "director_tick d = Inr (ret, d')"
  shows "\<not> shows_board (current_state (fsm d')) \<and> ret \<noteq> current_state (fsm d) \<and>
    (truth_table_condition_test COND_VGA_CHG (fsm_truth_table (fsm d)) \<longrightarrow> shows_vga (current_state (fsm d')))"
proof -
  have ok: "director_ok transition_table_init d" using assms(1) by (rule runs_ok)
  have nb: "\<not> shows_board (current_state (fsm d))" using assms(1) by (rule runs_no_board)
  obtain v t s where S: "in_situation v t s d" "ret = decide (transition_table_init (current_state (fsm d))) v t s 0"
    "current_state (fsm d') = (if ret = FSM_NOTRANSITION then current_state (fsm d) else ret)"
    by (rule tick_ok [OF ok assms(2)])
  have "row_ok (current_state (fsm d)) v t s ret"
    unfolding S(2) using ok nb S(1) by (intro check_rowD [OF all_rows]) (auto simp: director_ok_def in_situation_def)
  moreover have "truth_table_condition_test COND_VGA_CHG (fsm_truth_table (fsm d)) \<longrightarrow> v = 1"
    using S(1) test_situation [of v t s 0 1] by (auto simp: in_situation_def situation_def)
  ultimately show ?thesis using S(3) nb by (auto simp: row_ok_def)
qed

theorem director_safe_witness:
  "\<exists>d ret d'. director_runs transition_table_init d \<and>
     truth_table_condition_test COND_VGA_CHG (fsm_truth_table (fsm d)) \<and> director_tick d = Inr (ret, d') \<and>
     shows_vga (current_state (fsm d'))"
proof -
  let ?d = "vga_event 5 1 (director_init transition_table_init)"
  have r: "director_runs transition_table_init ?d" unfolding director_runs_def by (blast intro: director_step.vga)
  have i: "in_situation 1 0 0 ?d" using vga_situation [OF init_situation, where ch = 1 and dur = 5] by simp
  have c: "truth_table_condition_test COND_VGA_CHG (fsm_truth_table (fsm ?d))"
    using i test_situation [of 1 0 0 0 1] by (simp add: in_situation_def situation_def)
  have "current_state (fsm ?d) \<noteq> FSM_NOTRANSITION" by (simp add: director_init_def fsm_init_def)
  then obtain ret d' where "director_tick ?d = Inr (ret, d')" using tick_situation [OF i] by (meson surj_pair)
  then show ?thesis using director_safe [OF r] r c by blast
qed

theorem director_decides_witness:
  "\<exists>v t s. v < 2 \<and> t < 3 \<and> s < (3 :: nat) \<and> director_tick (director_init transition_table_init) =
     Inr (let ret = decide (transition_table_init FSM_TEACHER_PANORAMA) v t s 0
      in (ret, if ret = FSM_NOTRANSITION then director_init transition_table_init
               else (director_init transition_table_init)\<lparr>fsm := (fsm (director_init transition_table_init))\<lparr>current_state := ret\<rparr>\<rparr>))"
proof -
  have "director_runs transition_table_init (director_init transition_table_init)" by (simp add: director_runs_def)
  moreover have "current_state (fsm (director_init transition_table_init)) = FSM_TEACHER_PANORAMA"
    by (simp add: director_init_def fsm_init_def)
  ultimately show ?thesis using director_decides [of transition_table_init "director_init transition_table_init"] by metis
qed

text \<open>
  C38. Entering a state tells the boards, in one message, the input of the state's main video and
  whether a second video is shown in it, and leaves exactly that second video marked; the functions
  and inputs of the table do not change.
\<close>

theorem enter_state_shows:
  assumes "length g = CMD_BUFSIZE" and "st \<noteq> FSM_NOTRANSITION"
  shows "\<exists>t'. enter_state g t st = Inr ([msg_add COMMAND_SWITCHCTRL
       [(''CaptureId'', sprintf_x 1 (unat (word_of_int (shown_input t st) :: u32))),
        (''PIP'', if pip_video st = None then ''0'' else ''1'')]], t') \<and>
    pip_marks t' = (case pip_video st of None \<Rightarrow> [] | Some f \<Rightarrow> if f \<in> set (map vm_function t) then [f] else []) \<and>
    map vm_function t' = map vm_function t \<and> map vm_cap_id t' = map vm_cap_id t"
proof -
  have d: "sprintf_x 1 0 = ''0''" "sprintf_x 1 1 = ''1''"
    by (simp_all add: sprintf_x_def Let_def hex_string.simps hex_char_def)
  show ?thesis
    using enter_state_correct [OF assms, of t] d
    by (intro exI [of _ "mark_pip (pip_video st) t"])
      (simp add: switch_msg_def msg_of_def split: option.splits)
qed

theorem enter_state_shows_witness:
  "\<exists>t'. enter_state (replicate CMD_BUFSIZE NUL) vmap_table_init FSM_TEACHER_CLOSEUP_PIP_STUDENT_CLOSEUP =
     Inr ([msg_add COMMAND_SWITCHCTRL [(''CaptureId'', sprintf_x 1 1), (''PIP'', ''1'')]], t') \<and> pip_marks t' = [2]"
proof -
  have "2 \<in> set (map vm_function vmap_table_init)" by (simp add: vmap_table_init_def vmap_entry_def upt_rec)
  then show ?thesis
    using enter_state_shows [of "replicate CMD_BUFSIZE NUL" FSM_TEACHER_CLOSEUP_PIP_STUDENT_CLOSEUP vmap_table_init]
    by (auto simp: shown_input_def vmap_init_capids)
qed

text \<open>
  At the start of a recording the boards are told of the initial state as they are when the state
  is entered, except that a state with a second video is not announced at all.
\<close>

theorem start_announces:
  "enter_start g t st = (if pip_video st = None then enter_state g t st else Inr ([], t))"
  by (cases st) (simp_all add: enter_start_def enter_state_def Let_def)

text \<open>The state an operator's \<open>SwitchVideo\<close> names.\<close>

definition video_state :: "string \<Rightarrow> e_fsm_state" where
  "video_state v = (case map_of
     [(''VGA'', FSM_VGA), (''TeacherSpecial'', FSM_TEACHER_CLOSEUP), (''StudentSpecial'', FSM_STUDENT_CLOSEUP),
      (''TeacherFull'', FSM_TEACHER_PANORAMA), (''StudentFull'', FSM_STUDENT_PANORAMA),
      (''Blackboard'', FSM_BOARD_CLOSEUP), (''VGAWithTeacherSpecial'', FSM_VGA_PIP_TEACHER_CLOSEUP),
      (''TeacherSpecialWithStudentSpecial'', FSM_TEACHER_CLOSEUP_PIP_STUDENT_CLOSEUP)] v of
     None \<Rightarrow> FSM_NOTRANSITION | Some st \<Rightarrow> st)"

text \<open>
  An operator's \<open>SwitchVideo\<close> command does what entering the state it names does; an unknown name
  does nothing.
\<close>

theorem operator_switch: "switch_video g t v = enter_state g t (video_state v)"
  by (simp add: switch_video_def video_state_def enter_state_def Let_def)

text \<open>How the empty standing events are counted.\<close>

definition stand_none :: "director \<Rightarrow> bool" where
  "stand_none d = truth_table_condition_test COND_STUDENT_STAND_NONE (fsm_truth_table (fsm d))"

lemma stand_none_situation: "in_situation v t s d \<Longrightarrow> stand_none d \<longleftrightarrow> s = 0"
  using test_situation [of v t s 0 5] by (auto simp: stand_none_def in_situation_def situation_def)

lemma empty_events:
  assumes "in_situation v t s d" and "acc_student_lost d = 0" and "s \<noteq> 0" and "k < 2 ^ 32"
  shows "in_situation v t (if k < 6 then s else 0) ((aux_event 0 ^^ k) d) \<and>
    acc_student_lost ((aux_event 0 ^^ k) d) = of_nat k"
  using assms(4)
proof (induction k)
  case (Suc k)
  let ?d = "(aux_event 0 ^^ k) d"
  have IH: "in_situation v t (if k < 6 then s else 0) ?d" "acc_student_lost ?d = of_nat k" using Suc by simp_all
  have "(of_nat k + 1 :: u32) = of_nat (Suc k)" by simp
  moreover have "(of_nat (Suc k) :: u32) = 6 \<longleftrightarrow> Suc k = 6"
    using Suc.prems by (simp only: word_unat_eq_iff unat_of_nat take_bit_nat_eq_self) simp
  ultimately have "acc_student_lost ?d + 1 = 6 \<longleftrightarrow> Suc k = 6" using IH(2) by simp
  moreover have "acc_student_lost (aux_event 0 ?d) = acc_student_lost ?d + 1"
    by (simp add: aux_event_def Let_def set_fsm_conditions_def)
  ultimately show ?case using aux_situation [OF IH(1), of 0] IH(2) by (auto split: if_splits)
qed (use assms in simp)

text \<open>
  After a standing event with somebody standing, the director believes nobody stands exactly from
  the sixth empty standing event in a row on, however many follow (below the wrap of the counter).
\<close>

theorem standing_student_remembered:
  assumes "director_runs table d" and "n \<noteq> 0" and "k < 2 ^ 32"
  shows "stand_none ((aux_event 0 ^^ k) (aux_event n d)) \<longleftrightarrow> 6 \<le> k"
proof -
  obtain v t s where S: "in_situation v t s d" using runs_ok [OF assms(1)] unfolding director_ok_def by blast
  have "in_situation v t (if n = 1 then 1 else 2) (aux_event n d)" using aux_situation [OF S, of n] assms(2) by simp
  moreover have "acc_student_lost (aux_event n d) = 0"
    using assms(2) by (simp add: aux_event_def set_fsm_conditions_def)
  ultimately have "in_situation v t (if k < 6 then if n = 1 then 1 else 2 else 0) ((aux_event 0 ^^ k) (aux_event n d))"
    using empty_events [of v t "if n = 1 then 1 else 2" "aux_event n d" k] assms(3) by simp
  from stand_none_situation [OF this] show ?thesis by (simp split: if_splits)
qed

theorem standing_student_remembered_witness:
  "\<not> stand_none ((aux_event 0 ^^ 5) (aux_event 1 (director_init transition_table_init))) \<and>
   stand_none ((aux_event 0 ^^ 6) (aux_event 1 (director_init transition_table_init)))"
proof -
  have "director_runs transition_table_init (director_init transition_table_init)" by (simp add: director_runs_def)
  from standing_student_remembered [OF this, of 1 5] standing_student_remembered [OF this, of 1 6]
  show ?thesis by simp
qed

end
