(* ===== verification/Thread_Properties.thy ===== *)
theory Thread_Properties
  imports Director_Thread Switch_Properties
begin

text \<open>
  The properties of a turn of \<^verbatim>\<open>thread_SwitchTracking\<close> as a whole: it runs the director of
  \<^verbatim>\<open>Switch_Director\<close>, switch commands are at least three seconds apart, and in manual mode it leaves
  the director and the tracking alone.
\<close>

section \<open>What the parts of a turn leave alone\<close>

text \<open>The part of the state that decides on the switch commands.\<close>

definition directing :: "'f switch_state \<Rightarrow> director \<times> vmap_table \<times> u32 \<times> (int \<times> int) \<times> fifo_add list" where
  "directing st = (sw_dir st, sw_vmap st, sw_mode st, sw_timeval1 st, sw_out st)"

lemma setup_cameras_directing: "setup_cameras cf i st = Inr st' \<Longrightarrow> directing st' = directing st \<and> sw_tracker st' = sw_tracker st \<and> sw_geo st' = sw_geo st"
  by (auto simp: setup_cameras_def directing_def bind_res_Inr)

lemma receive_answers_directing: "receive_answers i st = Inr st' \<Longrightarrow> directing st' = directing st \<and> sw_tracker st' = sw_tracker st \<and> sw_geo st' = sw_geo st"
  by (auto simp: receive_answers_def directing_def bind_res_Inr)

lemma camera_still_directing [simp]:
  "directing (camera_still st) = directing st" "sw_tracker (camera_still st) = sw_tracker st" "sw_geo (camera_still st) = sw_geo st"
  by (simp_all add: camera_still_def directing_def)

lemma recall_home_directing: "recall_home cf now st = Inr st' \<Longrightarrow> directing st' = directing st"
  by (auto simp: recall_home_def directing_def bind_res_Inr split: if_splits)

lemma event_tracking_directing: "event_tracking cf ev cmd st = Inr st' \<Longrightarrow> directing st' = directing st"
  by (auto simp: event_tracking_def directing_def bind_res_Inr split: if_splits)

lemmas directing_eq = directing_def prod.inject

text \<open>An event changes the director and nothing else that decides.\<close>

lemma event_conditions_step:
  assumes "event_conditions cf ev cmd st = Inr st'"
  shows "director_step\<^sup>*\<^sup>* (sw_dir st) (sw_dir st') \<and> sw_vmap st' = sw_vmap st \<and> sw_mode st' = sw_mode st \<and>
    sw_timeval1 st' = sw_timeval1 st \<and> sw_out st' = sw_out st"
  using assms
  by (auto simp: event_conditions_def Let_def bind_res_Inr split: if_splits
      intro!: r_into_rtranclp intro: director_step.intros)

lemma event_message_step:
  assumes "event_message cf st ev = Inr st'"
  shows "director_step\<^sup>*\<^sup>* (sw_dir st) (sw_dir st') \<and> sw_vmap st' = sw_vmap st \<and> sw_mode st' = sw_mode st \<and>
    sw_timeval1 st' = sw_timeval1 st \<and> sw_out st' = sw_out st"
proof (cases "sw_mode st = 0")
  case False
  then obtain cmd st1 where "event_tracking cf ev cmd st = Inr st1" "event_conditions cf ev cmd st1 = Inr st'"
    using assms by (auto simp: event_message_def bind_res_Inr)
  then show ?thesis using event_tracking_directing [of cf ev cmd st st1] event_conditions_step [of cf ev cmd st1 st']
    by (simp add: directing_eq)
qed (use assms in \<open>auto simp: event_message_def bind_res_Inr\<close>)

lemma events_step:
  assumes "fold_res (event_message cf) st evs = Inr st'"
  shows "director_step\<^sup>*\<^sup>* (sw_dir st) (sw_dir st') \<and> sw_vmap st' = sw_vmap st \<and> sw_mode st' = sw_mode st \<and>
    sw_timeval1 st' = sw_timeval1 st \<and> sw_out st' = sw_out st"
  using assms
proof (rule fold_res_invariant)
  fix s ev s'
  assume "director_step\<^sup>*\<^sup>* (sw_dir st) (sw_dir s) \<and> sw_vmap s = sw_vmap st \<and> sw_mode s = sw_mode st \<and>
    sw_timeval1 s = sw_timeval1 st \<and> sw_out s = sw_out st" and "event_message cf s ev = Inr s'"
  then show "director_step\<^sup>*\<^sup>* (sw_dir st) (sw_dir s') \<and> sw_vmap s' = sw_vmap st \<and> sw_mode s' = sw_mode st \<and>
    sw_timeval1 s' = sw_timeval1 st \<and> sw_out s' = sw_out st"
    using event_message_step [of cf s ev s'] by (auto intro: rtranclp_trans)
qed simp

section \<open>An example\<close>

text \<open>The thread after the set-up of both cameras, and a turn in which an event arrives.\<close>

definition demo_state :: "u32 \<Rightarrow> rat switch_state" where
  "demo_state mode = \<lparr>sw_dir = director_init transition_table_init, sw_vmap = vmap_table_init, sw_mode = mode,
     sw_teacher = cleared_ctl 17, sw_student = cam_ctl.truncate (cleared_ctl 5), sw_tracker = tracker_init,
     sw_sync = \<lparr>g_camholder_still = True, g_analyze_frame_num = 0, g_num_in_group = 0\<rparr>, sw_geo = default_geometry,
     sw_timeval1 = (0, 0), sw_uart = replicate 6 [], sw_out = []\<rparr>"

definition demo_config :: "rat switch_config" where
  "demo_config = \<lparr>cf_fp = rat_fp, g_buf = replicate CMD_BUFSIZE NUL, VGADuration = 5,
     cf_screen = \<lparr>has_screen = False, x_left = 0, x_right = 0, y_screen = 1, camera_initial_angle = 0\<rparr>, IsExclude = False\<rparr>"

definition demo_turn :: "int \<Rightarrow> turn_input" where
  "demo_turn sec = \<lparr>tn_teacher = ((sec, 0), (sec, 0)), tn_student = ((sec, 0), (sec, 0)), tn_uart = replicate 6 [], tn_ctrl = [],
     tn_events = [\<lparr>ev_msg = COMMAND_VERSION @ COMMAND_EVENT_VGA @ ''0000'', ev_times = ((sec, 0), (sec, 0)), ev_junk = 1\<rparr>],
     tn_tick = (sec, 0)\<rparr>"

lemma cleared_setups:
  "teacher_setup g now now' (cleared_ctl 17) = Inr (cleared_ctl 17)"
  "student_setup g now now' (cam_ctl.truncate (cleared_ctl 5)) = Inr (cam_ctl.truncate (cleared_ctl 5))"
  by (simp_all add: teacher_setup_def student_setup_def run_blocks_def teacher_blocks_def student_blocks_def block_def watch_def
    cleared_ctl_def cam_ctl.defs cleared_holder_def camera_holder_init_def get_camholder_pending_state_def)

definition demo_run :: "u32 \<Rightarrow> director \<Rightarrow> vmap_table \<Rightarrow> int \<times> int \<Rightarrow> fifo_add list \<Rightarrow> rat switch_state" where
  "demo_run mode d t tv ms = (demo_state mode)\<lparr>sw_dir := d, sw_vmap := t, sw_timeval1 := tv, sw_out := ms\<rparr>"

lemma demo_turn_tick:
  "switch_turn demo_config (demo_run mode d t tv ms) (demo_turn sec) =
    tick demo_config (sec, 0) (demo_run mode (if mode = 0 then d else vga_event 5 1 d) t tv ms)"
proof -
  let ?st = "demo_run mode d t tv ms"
  have a: "setup_cameras demo_config (demo_turn sec) ?st = Inr ?st"
    by (simp add: setup_cameras_def demo_run_def demo_state_def demo_turn_def cleared_setups)
  have "\<not> get_camholder_pending_state (ctl_ch (cleared_ctl 17))" "uart_channel (ctl_ch (cleared_ctl 17)) = 1"
    "ctl_ch (cam_ctl.truncate (cleared_ctl 5)) = ctl_ch (cleared_ctl 17)"
    by (simp_all add: cleared_ctl_def cam_ctl.defs cleared_holder_def camera_holder_init_def get_camholder_pending_state_def)
  then have b: "receive_answers (demo_turn sec) ?st = Inr ?st" "camera_still ?st = ?st"
    by (simp_all add: receive_answers_def demo_run_def demo_state_def demo_turn_def uart_lines_def uart_line_def camera_still_def
      numeral_eq_Suc)
  have c: "fold_res (event_message demo_config) ?st (tn_events (demo_turn sec)) =
      Inr (demo_run mode (if mode = 0 then d else vga_event 5 1 d) t tv ms)"
    by (simp add: demo_turn_def event_message_def msg_command_def mem_read_def c_str_def event_tracking_def event_conditions_def
      GetVGAResult_def scan_msg_def msg_len_def read_hex_eq hex_value_def digit_val_def hex_digit_def scan_attrs.simps demo_config_def)
      (simp add: demo_run_def demo_state_def)
  have e: "tn_ctrl (demo_turn sec) = []" "tn_tick (demo_turn sec) = (sec, 0)" by (simp_all add: demo_turn_def)
  show ?thesis unfolding switch_turn_def a bind_res.simps b e fold_res.simps(1) c ..
qed

lemma demo_turn_runs:
  assumes "mode \<noteq> 2"
  shows "switch_turn demo_config (demo_state mode) (demo_turn sec) = Inr ((demo_state mode)\<lparr>sw_dir :=
    if mode = 0 then sw_dir (demo_state mode) else vga_event 5 1 (sw_dir (demo_state mode))\<rparr>)"
  using demo_turn_tick [of mode "sw_dir (demo_state mode)" "sw_vmap (demo_state mode)" "(0, 0)" "[]" sec] assms
  by (simp add: tick_def demo_run_def demo_state_def)

section \<open>The director of the thread\<close>

lemma ctl_attr_step:
  assumes "ctl_attr cf now st n v = Inr st'"
  shows "director_step\<^sup>*\<^sup>* (sw_dir st) (sw_dir st')"
proof (cases "c_str n = ''Start''")
  case True
  then obtain st1 where "recall_home cf now (st\<lparr>sw_tracker := restart_tracker (sw_tracker st)\<rparr>) = Inr st1"
    "sw_dir st' = director_start (sw_dir st1)"
    using assms by (auto simp: ctl_attr_def ctl_start_def Let_def bind_res_Inr)
  moreover from this(1) have "sw_dir st1 = sw_dir st" using recall_home_directing by (fastforce simp: directing_eq)
  ultimately show ?thesis using director_step.start [of "sw_dir st"] by auto
next
  case False
  have "sw_dir s1 = sw_dir st" if "recall_home cf now st = Inr s1" for s1
    using recall_home_directing [OF that] by (simp add: directing_eq)
  then have "sw_dir st' = sw_dir st"
    using assms False by (auto simp: ctl_attr_def ctl_stop_def ctl_switch_video_def Let_def bind_res_Inr split: if_splits)
  then show ?thesis by simp
qed

lemma ctl_message_step:
  assumes "ctl_message cf st m = Inr st'"
  shows "director_step\<^sup>*\<^sup>* (sw_dir st) (sw_dir st')"
proof -
  obtain now Msg where m: "m = (now, Msg)" by (cases m) auto
  have "director_step\<^sup>*\<^sup>* (sw_dir st) (sw_dir st')" if "scan_msg 16 1536 Msg (ctl_attr cf now) st = Inr st'"
    using that
  proof (rule scan_msg_invariant)
    fix s n v s' assume "director_step\<^sup>*\<^sup>* (sw_dir st) (sw_dir s)" "ctl_attr cf now s n v = Inr s'"
    then show "director_step\<^sup>*\<^sup>* (sw_dir st) (sw_dir s')" using ctl_attr_step [of cf now s n v s'] by (auto intro: rtranclp_trans)
  qed simp
  then show ?thesis using assms by (auto simp: m ctl_message_def bind_res_Inr split: if_splits)
qed

lemma tick_step:
  assumes "tick cf now st = Inr st'"
  shows "director_step\<^sup>*\<^sup>* (sw_dir st) (sw_dir st')"
proof -
  have "sw_dir st' = sw_dir st \<or> (\<exists>ret. director_tick (sw_dir st) = Inr (ret, sw_dir st'))"
    using assms by (auto simp: tick_def bind_res_Inr split: if_splits)
  then show ?thesis by (metis director_step.tick r_into_rtranclp rtranclp.rtrancl_refl)
qed

lemma switch_turn_step:
  assumes "switch_turn cf st i = Inr st'"
  shows "director_step\<^sup>*\<^sup>* (sw_dir st) (sw_dir st')"
proof -
  obtain st1 st2 st3 st4 where s: "setup_cameras cf i st = Inr st1" "receive_answers i st1 = Inr st2"
    "fold_res (ctl_message cf) (camera_still st2) (tn_ctrl i) = Inr st3" "fold_res (event_message cf) st3 (tn_events i) = Inr st4"
    "tick cf (tn_tick i) st4 = Inr st'"
    using assms by (auto simp: switch_turn_def bind_res_Inr)
  have "sw_dir (camera_still st2) = sw_dir st"
    using setup_cameras_directing [OF s(1)] receive_answers_directing [OF s(2)] camera_still_directing(1) [of st2] by (simp add: directing_eq)
  moreover have "director_step\<^sup>*\<^sup>* (sw_dir (camera_still st2)) (sw_dir st3)"
    using s(3)
  proof (rule fold_res_invariant)
    fix s m s' assume "director_step\<^sup>*\<^sup>* (sw_dir (camera_still st2)) (sw_dir s)" "ctl_message cf s m = Inr s'"
    then show "director_step\<^sup>*\<^sup>* (sw_dir (camera_still st2)) (sw_dir s')"
      using ctl_message_step [of cf s m s'] by (auto intro: rtranclp_trans)
  qed simp
  moreover have "director_step\<^sup>*\<^sup>* (sw_dir st3) (sw_dir st4)" using events_step [OF s(4)] by simp
  ultimately show ?thesis using tick_step [OF s(5)] by (auto intro: rtranclp_trans)
qed

text \<open>
  C10. The thread runs the director. Whatever messages, events, answers and times a run of the loop gets,
  its machine makes a run of the director; with the built-in table it never comes into a state that shows
  the board, and exactly one condition of each group holds.
\<close>

theorem thread_refines_director:
  assumes "director_runs transition_table_init (sw_dir st)" and "fold_res (switch_turn cf) st is = Inr st'"
  shows "director_runs transition_table_init (sw_dir st') \<and> director_step\<^sup>*\<^sup>* (sw_dir st) (sw_dir st') \<and>
    \<not> shows_board (current_state (fsm (sw_dir st'))) \<and> (\<exists>v t s. in_situation v t s (sw_dir st'))"
proof -
  have r: "director_step\<^sup>*\<^sup>* (sw_dir st) (sw_dir st')"
    using assms(2)
  proof (rule fold_res_invariant)
    fix s i s' assume "director_step\<^sup>*\<^sup>* (sw_dir st) (sw_dir s)" "switch_turn cf s i = Inr s'"
    then show "director_step\<^sup>*\<^sup>* (sw_dir st) (sw_dir s')" using switch_turn_step [of cf s i s'] by (auto intro: rtranclp_trans)
  qed simp
  then have d: "director_runs transition_table_init (sw_dir st')"
    using assms(1) by (auto simp: director_runs_def intro: rtranclp_trans)
  then show ?thesis using r runs_no_board [OF d] runs_ok [OF d] by (simp add: director_ok_def)
qed

theorem thread_refines_director_witness:
  "\<exists>st'. fold_res (switch_turn demo_config) (demo_state 1) [demo_turn 7] = Inr st' \<and>
    director_runs transition_table_init (sw_dir st') \<and> sw_dir st' = vga_event 5 1 (sw_dir (demo_state 1))"
proof -
  have "director_runs transition_table_init (sw_dir (demo_state 1))" by (simp add: director_runs_def demo_state_def)
  then show ?thesis
    using thread_refines_director [of "demo_state 1" demo_config "[demo_turn 7]"] demo_turn_runs [of 1 7] by simp
qed

section \<open>Three seconds\<close>

text \<open>A turn without a message of the operator, seen from the director.\<close>

lemma quiet_turn:
  assumes "switch_turn cf st i = Inr st'" and "tn_ctrl i = []"
  obtains st4 where "director_step\<^sup>*\<^sup>* (sw_dir st) (sw_dir st4)" "sw_vmap st4 = sw_vmap st" "sw_mode st4 = sw_mode st"
    "sw_timeval1 st4 = sw_timeval1 st" "sw_out st4 = sw_out st" "tick cf (tn_tick i) st4 = Inr st'"
proof -
  obtain st1 st2 st4 where s: "setup_cameras cf i st = Inr st1" "receive_answers i st1 = Inr st2"
    "fold_res (event_message cf) (camera_still st2) (tn_events i) = Inr st4" "tick cf (tn_tick i) st4 = Inr st'"
    using assms by (auto simp: switch_turn_def bind_res_Inr)
  have "directing (camera_still st2) = directing st"
    using setup_cameras_directing [OF s(1)] receive_answers_directing [OF s(2)] by simp
  then have "director_step\<^sup>*\<^sup>* (sw_dir st) (sw_dir st4)" "sw_vmap st4 = sw_vmap st" "sw_mode st4 = sw_mode st"
    "sw_timeval1 st4 = sw_timeval1 st" "sw_out st4 = sw_out st"
    using events_step [OF s(3)] by (simp_all add: directing_eq)
  then show thesis using s(4) by (rule that)
qed

lemma tick_cases:
  assumes "length (g_buf cf) = CMD_BUFSIZE" and "tick cf now st = Inr st'"
  shows "sw_out st' = sw_out st \<and> sw_timeval1 st' = sw_timeval1 st \<or>
    sw_mode st = 2 \<and> (\<exists>m. sw_out st' = sw_out st @ [m]) \<and> sw_timeval1 st' = now \<and> 3000 \<le>s interval now (sw_timeval1 st)"
proof (cases "sw_mode st = 2 \<and> 3000 \<le>s interval now (sw_timeval1 st)")
  case True
  then obtain ret d ms t where r: "director_tick (sw_dir st) = Inr (ret, d)" "enter_state (g_buf cf) (sw_vmap st) ret = Inr (ms, t)"
    "st' = st\<lparr>sw_dir := d, sw_vmap := t, sw_out := sw_out st @ ms, sw_timeval1 := if ret \<noteq> FSM_NOTRANSITION then now else sw_timeval1 st\<rparr>"
    using assms(2) by (auto simp: tick_def bind_res_Inr)
  show ?thesis
  proof (cases "ret = FSM_NOTRANSITION")
    case True
    then show ?thesis using r by (auto simp: enter_state_def)
  next
    case False
    then show ?thesis using r enter_state_correct [OF assms(1) False, of "sw_vmap st"] True by auto
  qed
qed (use assms(2) in \<open>auto simp: tick_def\<close>)

lemma quiet_turn_commands:
  assumes "length (g_buf cf) = CMD_BUFSIZE" and "switch_turn cf st i = Inr st'" and "tn_ctrl i = []"
  obtains ms where "sw_out st' = sw_out st @ ms"
    "ms = [] \<and> sw_timeval1 st' = sw_timeval1 st \<or> (\<exists>m. ms = [m]) \<and> sw_timeval1 st' = tn_tick i \<and> 3000 \<le>s interval (tn_tick i) (sw_timeval1 st)"
proof -
  obtain st4 where "sw_timeval1 st4 = sw_timeval1 st" "sw_out st4 = sw_out st" "tick cf (tn_tick i) st4 = Inr st'"
    using quiet_turn [OF assms(2,3)] by metis
  then show thesis using tick_cases [OF assms(1), of "tn_tick i" st4 st'] that [of "[]"] that by fastforce
qed

text \<open>What the turns of a run send: for each turn that is completed, its time and the commands it adds to those sent.\<close>

fun turn_commands :: "'f switch_config \<Rightarrow> 'f switch_state \<Rightarrow> turn_input list \<Rightarrow> ((int \<times> int) \<times> fifo_add list) list" where
  "turn_commands cf st [] = []"
| "turn_commands cf st (i # is) = (case switch_turn cf st i of Inl e \<Rightarrow> []
     | Inr st' \<Rightarrow> (tn_tick i, drop (length (sw_out st)) (sw_out st')) # turn_commands cf st' is)"

text \<open>
  C11. Three seconds. In a run in which the operator sends nothing (no turn gets a control message), each
  turn sends at most one switch command; the times of the turns that send one are, counted from the last
  transition or start, at least 3000 milliseconds apart, in the 32-bit milliseconds of the code; and the commands of the turns,
  put together, are all that the run has sent.
\<close>

theorem switches_three_seconds_apart:
  assumes "length (g_buf cf) = CMD_BUFSIZE" and "\<forall>i\<in>set is. tn_ctrl i = []"
  shows "(\<forall>(t, ms)\<in>set (turn_commands cf st is). length ms \<le> 1) \<and>
    successively (\<lambda>t1 t2. 3000 \<le>s interval t2 t1)
      (sw_timeval1 st # map fst (filter (\<lambda>(t, ms). ms \<noteq> []) (turn_commands cf st is))) \<and>
    (\<forall>st'. fold_res (switch_turn cf) st is = Inr st' \<longrightarrow> sw_out st' = sw_out st @ concat (map snd (turn_commands cf st is)))"
  using assms(2)
proof (induction "is" arbitrary: st)
  case (Cons i "is")
  show ?case
  proof (cases "switch_turn cf st i")
    case (Inr st')
    obtain ms where ms: "sw_out st' = sw_out st @ ms"
      "ms = [] \<and> sw_timeval1 st' = sw_timeval1 st \<or> (\<exists>m. ms = [m]) \<and> sw_timeval1 st' = tn_tick i \<and> 3000 \<le>s interval (tn_tick i) (sw_timeval1 st)"
      using quiet_turn_commands [OF assms(1) Inr] Cons.prems by auto
    have "turn_commands cf st (i # is) = (tn_tick i, ms) # turn_commands cf st' is" using Inr ms(1) by simp
    moreover note Cons.IH [of st']
    ultimately show ?thesis using Cons.prems Inr ms by auto
  qed simp
qed simp

text \<open>An event of the VGA in each of three turns: the director switches in the second, and nothing is sent in the others.\<close>

theorem switches_three_seconds_apart_witness:
  "\<exists>m. turn_commands demo_config (demo_state 2) [demo_turn 1, demo_turn 5, demo_turn 6] = [((1, 0), []), ((5, 0), [m]), ((6, 0), [])] \<and>
    successively (\<lambda>t1 t2. 3000 \<le>s interval t2 t1) [(0, 0), (5, 0)]"
proof -
  define d0 where "d0 = director_init transition_table_init"
  define d2 where "d2 = vga_event 5 1 (vga_event 5 1 d0)"
  have start: "demo_state 2 = demo_run 2 d0 vmap_table_init (0, 0) []" by (simp add: demo_run_def d0_def demo_state_def)
  have t1: "switch_turn demo_config (demo_run 2 d0 vmap_table_init (0, 0) []) (demo_turn 1) =
      Inr (demo_run 2 (vga_event 5 1 d0) vmap_table_init (0, 0) [])"
    unfolding demo_turn_tick by (simp add: tick_def demo_run_def interval_def word_sle_eq)
  have "in_situation 1 0 0 d2"
    using vga_situation [OF vga_situation [OF init_situation, where ch = 1 and dur = 5], where ch = 1 and dur = 5]
    by (simp add: d2_def d0_def)
  moreover have "current_state (fsm d2) = FSM_TEACHER_PANORAMA" "fsm_transition_table (fsm d2) = transition_table_init"
    by (simp_all add: d2_def d0_def director_init_def fsm_init_def)
  moreover have "decide (transition_table_init FSM_TEACHER_PANORAMA) 1 0 0 0 = FSM_VGA"
    by (simp add: decide_def assign_row_nth assign_FSM_TEACHER_PANORAMA_def)
  ultimately obtain d3 where d3: "director_tick d2 = Inr (FSM_VGA, d3)" using tick_situation [of 1 0 0 d2] by simp
  obtain m t where m: "enter_state (g_buf demo_config) vmap_table_init FSM_VGA = Inr ([m], t)"
    using enter_state_correct [of "g_buf demo_config" FSM_VGA vmap_table_init] by (auto simp: demo_config_def)
  have t5: "switch_turn demo_config (demo_run 2 (vga_event 5 1 d0) vmap_table_init (0, 0) []) (demo_turn 5) =
      Inr (demo_run 2 d3 t (5, 0) [m])"
    using d3 m unfolding demo_turn_tick by (simp add: tick_def demo_run_def demo_state_def interval_def word_sle_eq flip: d2_def)
  have t6: "switch_turn demo_config (demo_run 2 d3 t (5, 0) [m]) (demo_turn 6) = Inr (demo_run 2 (vga_event 5 1 d3) t (5, 0) [m])"
    unfolding demo_turn_tick by (simp add: tick_def demo_run_def interval_def word_sle_eq)
  have c: "turn_commands demo_config (demo_state 2) [demo_turn 1, demo_turn 5, demo_turn 6] = [((1, 0), []), ((5, 0), [m]), ((6, 0), [])]"
    unfolding start by (simp add: t1 t5 t6) (simp add: demo_run_def demo_turn_def)
  have "length (g_buf demo_config) = CMD_BUFSIZE" "\<forall>i\<in>set [demo_turn 1, demo_turn 5, demo_turn 6]. tn_ctrl i = []"
    by (simp_all add: demo_config_def demo_turn_def)
  from switches_three_seconds_apart [OF this, of "demo_state 2"] have "successively (\<lambda>t1 t2. 3000 \<le>s interval t2 t1) [(0, 0), (5, 0)]"
    unfolding c by (simp add: demo_state_def)
  then show ?thesis using c by blast
qed

section \<open>Manual mode\<close>

text \<open>
  Manual mode. In manual mode, and while the operator sends nothing, neither events nor time change the
  director, what is shown, the tracking or the geometry: only the set-up of the cameras goes on.
\<close>

theorem manual_mode_quiet:
  assumes "sw_mode st = 0" and "\<forall>i\<in>set is. tn_ctrl i = []" and "fold_res (switch_turn cf) st is = Inr st'"
  shows "directing st' = directing st \<and> sw_tracker st' = sw_tracker st \<and> sw_geo st' = sw_geo st"
  using assms(3)
proof (rule fold_res_invariant)
  fix s i s' assume i: "i \<in> set is" and s: "directing s = directing st \<and> sw_tracker s = sw_tracker st \<and> sw_geo s = sw_geo st"
    and turn: "switch_turn cf s i = Inr s'"
  obtain st1 st2 st4 where q: "setup_cameras cf i s = Inr st1" "receive_answers i st1 = Inr st2"
    "fold_res (event_message cf) (camera_still st2) (tn_events i) = Inr st4" "tick cf (tn_tick i) st4 = Inr s'"
    using turn i assms(2) by (auto simp: switch_turn_def bind_res_Inr)
  have c: "directing (camera_still st2) = directing s \<and> sw_tracker (camera_still st2) = sw_tracker s \<and> sw_geo (camera_still st2) = sw_geo s"
    using setup_cameras_directing [OF q(1)] receive_answers_directing [OF q(2)] by simp
  then have m: "sw_mode (camera_still st2) = 0" using s assms(1) by (simp add: directing_eq)
  have "st4 = camera_still st2"
    using q(3) by (rule fold_res_invariant) (auto simp: event_message_def bind_res_Inr m)
  moreover from this have "s' = st4" using q(4) m by (simp add: tick_def)
  ultimately show "directing s' = directing st \<and> sw_tracker s' = sw_tracker st \<and> sw_geo s' = sw_geo st" using c s by simp
qed simp

theorem manual_mode_quiet_witness:
  "\<exists>st'. fold_res (switch_turn demo_config) (demo_state 0) [demo_turn 7, demo_turn 9] = Inr st' \<and> directing st' = directing (demo_state 0)"
proof -
  have m: "sw_mode (demo_state 0) = 0" "\<forall>i\<in>set [demo_turn 7, demo_turn 9]. tn_ctrl i = []" by (simp_all add: demo_state_def demo_turn_def)
  obtain st' where run: "fold_res (switch_turn demo_config) (demo_state 0) [demo_turn 7, demo_turn 9] = Inr st'"
    using demo_turn_runs [of 0] by simp
  then show ?thesis using manual_mode_quiet [OF m run] by blast
qed

end
