(* ===== verification/Tracking_Properties.thy ===== *)
theory Tracking_Properties
  imports Tracking
begin

text \<open>
  The tracking keeps the camera within the limits the set-up has learnt: whatever the detection events and
  the arithmetic say, a move ends between the limits, or, with an excluded zone, between the zone and the
  limit on the side of the camera or at the other edge of the zone; there is at most one move per event and
  none while an answer is awaited; and the search for a lost teacher sweeps the whole range.
\<close>

section \<open>Targets\<close>

definition limits_ok :: "'f teacher_ctl \<Rightarrow> bool" where
  "limits_ok s \<longleftrightarrow> sint (limit_left s) \<le> sint (exclude_left s) \<and> sint (exclude_left s) \<le> sint (exclude_right s) \<and>
     sint (exclude_right s) \<le> sint (limit_right s)"

text \<open>The positions the camera may be sent to.\<close>

definition allowed :: "bool \<Rightarrow> 'f teacher_ctl \<Rightarrow> u32 \<Rightarrow> bool" where
  "allowed IsExclude s p \<longleftrightarrow> in_range (limit_left s) (limit_right s) p \<and>
     (IsExclude \<longrightarrow> \<not> (sint (exclude_left s) < sint p \<and> sint p < sint (exclude_right s)))"

text \<open>
  What the set-up promises of the limits: each of the two pairs is ordered, but nothing is said of where the
  excluded zone lies.
\<close>

definition limits :: "'f teacher_ctl \<Rightarrow> u32 \<times> u32 \<times> u32 \<times> u32" where
  "limits s = (limit_left s, limit_right s, exclude_left s, exclude_right s)"

lemma set_limits_orders:
  "set_limits s0 = Inr s1 \<Longrightarrow> limits s = limits s1 \<Longrightarrow>
   sint (limit_left s) \<le> sint (limit_right s) \<and> sint (exclude_left s) \<le> sint (exclude_right s)"
  by (auto simp: set_limits_def limits_def Let_def word_sless_alt split: if_splits)

text \<open>
  Where a camera at \<open>p\<close> may be sent. Without an excluded zone: between the limits. With one, a camera on one
  side of the zone stays between the zone and the limit on that side, or crosses from the edge of the zone to
  its other edge; a camera on neither side (inside the zone, or outside the limits) may be sent anywhere.
\<close>

definition beside :: "u32 \<Rightarrow> u32 \<Rightarrow> u32 \<Rightarrow> u32 \<Rightarrow> u32 \<Rightarrow> u32 \<Rightarrow> bool" where
  "beside lo hi edge other p p' \<longleftrightarrow> in_range lo hi p \<and> (in_range lo hi p' \<or> p = edge \<and> p' = other)"

definition target_ok :: "bool \<Rightarrow> 'f teacher_ctl \<Rightarrow> u32 \<Rightarrow> bool" where
  "target_ok IsExclude s p' \<longleftrightarrow> (let p = PanPos (ctl_ch s) in
     if \<not> IsExclude then in_range (limit_left s) (limit_right s) p'
     else beside (exclude_right s) (limit_right s) (exclude_right s) (exclude_left s) p p' \<or>
       beside (limit_left s) (exclude_left s) (exclude_left s) (exclude_right s) p p' \<or>
       \<not> in_range (exclude_right s) (limit_right s) p \<and> \<not> in_range (limit_left s) (exclude_left s) p)"

lemma beside_sint:
  "beside lo hi edge other p p' \<longleftrightarrow> sint lo \<le> sint p \<and> sint p \<le> sint hi \<and>
     (sint lo \<le> sint p' \<and> sint p' \<le> sint hi \<or> p = edge \<and> sint p' = sint other)"
  by (auto simp: beside_def in_range_sint intro: signed_word_eqI)

text \<open>When the zone lies between the limits and the camera stands where it may, it may stand where it is sent.\<close>

lemma target_ok_allowed:
  assumes "target_ok IsExclude s p" and "limits_ok s" and "IsExclude \<longrightarrow> allowed True s (PanPos (ctl_ch s))"
  shows "allowed IsExclude s p"
  using assms by (auto simp: target_ok_def beside_def limits_ok_def allowed_def in_range_sint Let_def split: if_splits)

lemma limited_ok:
  assumes "sint (limit_left s) \<le> sint (limit_right s)" and "sint (exclude_left s) \<le> sint (exclude_right s)"
  shows "target_ok IsExclude s (limited IsExclude s dest)"
  using assms by (auto simp: target_ok_def beside_def limited_def Let_def in_range_sint word_sle_eq sint_at_least sint_at_most)

lemma sint_turn:
  "sint (fst (turn_at_most m dd)) = min (sint m) (sint (fst dd))"
  "sint (fst (turn_at_least m dd)) = max (sint m) (sint (fst dd))"
  by (simp_all add: turn_at_most_def turn_at_least_def word_sless_alt)

lemma sint_cross:
  "sint (fst (cross_at_most p m other dd)) =
     (if sint m < sint (fst dd) then (if m = p then sint other else sint m) else sint (fst dd))"
  "sint (fst (cross_at_least p m other dd)) =
     (if sint (fst dd) < sint m then (if m = p then sint other else sint m) else sint (fst dd))"
  by (simp_all add: cross_at_most_def cross_at_least_def word_sless_alt)

lemma scan_limited_ok:
  assumes "sint (limit_left s) \<le> sint (limit_right s)" and "sint (exclude_left s) \<le> sint (exclude_right s)"
  shows "target_ok IsExclude s (fst (scan_limited IsExclude s dd))"
  using assms
  by (auto simp: target_ok_def beside_sint scan_limited_def Let_def in_range_sint word_sle_eq sint_turn sint_cross)

section \<open>Moves\<close>

lemma move_to_cases:
  assumes "length g = CMD_BUFSIZE" and "move_to g now dest (cs, s) = Inr (cs', s')"
  shows "dest = PanPos (ctl_ch s) \<and> cs' = cs \<and> s' = s \<or>
    dest \<noteq> PanPos (ctl_ch s) \<and> \<not> g_camholder_still cs' \<and> s' = moved now dest (TiltPos (ctl_ch s)) s"
  using assms(2) by (auto simp: move_to_def sent_abspos [OF assms(1)] split: if_splits)

lemma follow_moves:
  assumes "length g = CMD_BUFSIZE" and "follow F g now IsExclude d (tr, cs, s) = Inr (tr', cs', s')"
  shows "acc_of_lost tr' = acc_of_lost tr \<and> (cs' = cs \<and> s' = s \<or>
    (\<exists>dest. \<not> g_camholder_still cs' \<and> s' = moved now (limited IsExclude s dest) (TiltPos (ctl_ch s)) s))"
proof -
  define t where "t = tr\<lparr>IsMultipleTeacher := 128 \<le> max_right d - max_left d\<rparr>"
  obtain b tr1 where fd: "follow_decision (avg_offset d) t = (b, tr1)" by force
  have a: "acc_of_lost tr1 = acc_of_lost tr"
    using arg_cong [OF fd, of "\<lambda>x. acc_of_lost (snd x)"] by (simp add: follow_decision_def t_def split: if_splits)
  show ?thesis
  proof (cases b)
    case True
    define rel where "rel = relative_pos F (ctl_ch s) (avg_offset d)"
    define dest where "dest = limited IsExclude s (PanPos (ctl_ch s) + rel)"
    have "bind_res (move_to g now dest (cs, s)) (\<lambda>(cs', s'). Inr (followed (PanPos (ctl_ch s)) rel dest tr1, cs', s')) =
        Inr (tr', cs', s')"
      using assms(2) fd True unfolding t_def by (simp add: follow_def Let_def rel_def dest_def)
    then have m: "move_to g now dest (cs, s) = Inr (cs', s')" "tr' = followed (PanPos (ctl_ch s)) rel dest tr1"
      by (auto simp: bind_res_Inr)
    then have "acc_of_lost tr' = acc_of_lost tr" using a by (simp add: followed_def)
    then show ?thesis using move_to_cases [OF assms(1) m(1)] unfolding dest_def by blast
  next
    case False
    then show ?thesis using assms(2) fd a unfolding t_def by (auto simp: follow_def Let_def)
  qed
qed

lemma search_moves:
  assumes "length g = CMD_BUFSIZE" and "search F g now IsExclude (tr, cs, s) = Inr (tr', cs', s')"
  shows "cs' = cs \<and> s' = s \<or> 6 \<le> acc_of_lost tr \<and>
    (\<exists>dd. \<not> g_camholder_still cs' \<and> s' = moved now (fst (scan_limited IsExclude s dd)) (TiltPos (ctl_ch s)) s)"
  using assms(2) move_to_cases [OF assms(1)]
  by (fastforce simp: search_def Let_def bind_res_Inr split: if_splits)

lemma move_then_total:
  assumes "length g = CMD_BUFSIZE"
  shows "\<exists>st'. bind_res (move_to g now dest (cs, s)) (\<lambda>(cs', s'). Inr (tr, cs', s')) = Inr st'"
  by (simp add: move_to_def sent_abspos [OF assms])

lemma follow_total:
  assumes "length g = CMD_BUFSIZE"
  shows "\<exists>st'. follow F g now IsExclude d (tr, cs, s) = Inr st'"
proof -
  define t where "t = tr\<lparr>IsMultipleTeacher := 128 \<le> max_right d - max_left d\<rparr>"
  obtain b tr1 where "follow_decision (avg_offset d) t = (b, tr1)" by force
  then show ?thesis
    using move_then_total [OF assms] unfolding t_def by (cases b) (simp_all add: follow_def Let_def)
qed

lemma search_total: "length g = CMD_BUFSIZE \<Longrightarrow> \<exists>st'. search F g now IsExclude (tr, cs, s) = Inr st'"
  by (simp add: search_def Let_def move_to_def sent_abspos)

text \<open>One event: what it sends and where.\<close>

definition tracked :: "int \<times> int \<Rightarrow> bool \<Rightarrow> capture_sync \<times> 'f teacher_ctl \<Rightarrow> capture_sync \<times> 'f teacher_ctl \<Rightarrow> bool" where
  "tracked now IsExclude css css' \<longleftrightarrow> css' = css \<or> (\<exists>p. \<not> g_camholder_still (fst css') \<and>
     snd css' = moved now p (TiltPos (ctl_ch (snd css))) (snd css) \<and> target_ok IsExclude (snd css) p)"

lemma follow_search_tracked:
  assumes g: "length g = CMD_BUFSIZE" 
    and s: "sint (limit_left s) \<le> sint (limit_right s)" "sint (exclude_left s) \<le> sint (exclude_right s)"
  shows "\<exists>tr' cs' s'. bind_res (if follows \<and> acc_of_lost tr = 0 then follow F g now IsExclude d (tr, cs, s) else Inr (tr, cs, s))
      (search F g now IsExclude) = Inr (tr', cs', s') \<and> tracked now IsExclude (cs, s) (cs', s')"
proof (cases "follows \<and> acc_of_lost tr = 0")
  case True
  obtain tr2 cs2 s2 where f: "follow F g now IsExclude d (tr, cs, s) = Inr (tr2, cs2, s2)"
    using follow_total [OF g, of F now IsExclude d tr cs s] by (metis prod_cases3)
  obtain tr3 cs3 s3 where e: "search F g now IsExclude (tr2, cs2, s2) = Inr (tr3, cs3, s3)"
    using search_total [OF g, of F now IsExclude tr2 cs2 s2] by (metis prod_cases3)
  have "acc_of_lost tr2 = 0" using follow_moves [OF g f] True by simp
  then have "cs3 = cs2" "s3 = s2" using search_moves [OF g e] by auto
  moreover have "tracked now IsExclude (cs, s) (cs2, s2)"
    using follow_moves [OF g f] limited_ok [OF s] unfolding tracked_def fst_conv snd_conv by blast
  ultimately show ?thesis using True f e by simp
next
  case False
  obtain tr3 cs3 s3 where e: "search F g now IsExclude (tr, cs, s) = Inr (tr3, cs3, s3)"
    using search_total [OF g, of F now IsExclude tr cs s] by (metis prod_cases3)
  then have "tracked now IsExclude (cs, s) (cs3, s3)"
    using search_moves [OF g e] scan_limited_ok [OF s] unfolding tracked_def fst_conv snd_conv by blast
  then show ?thesis unfolding if_not_P [OF False] using e by simp
qed

text \<open>
  C14. The limits of the tracking. With the limits and the zone that the set-up has learnt, whatever they are,
  a detection event makes the teacher's camera move at most once, and only when the set-up is done and nothing
  is in flight; the picture threads are told. Without an excluded zone the move ends between the limits. With
  one, a camera between the zone and the limit on one of its sides is sent to a place between the two, or from
  the edge of the zone to its other edge; a camera on neither side (inside the zone, or outside the limits) is
  not held back by anything. So when the zone lies between the limits and the camera stands between the limits
  and outside the zone, every move ends there too.
\<close>

theorem tracking_within_limits:
  assumes "length g = CMD_BUFSIZE" and "set_limits s0 = Inr s1" and "limits s = limits s1"
    and "GetDetectResult Msg = Inr d0"
  shows "\<exists>tr' cs' s'. teacher_tracking F g now scr IsExclude Msg (tr, cs, s) = Inr (tr', cs', s') \<and>
    (ctl_status s = 17 \<and> \<not> get_camholder_pending_state (ctl_ch s) \<or> (tr', cs', s') = (tr, cs, s)) \<and>
    (cs' = cs \<and> s' = s \<or> (\<exists>p. \<not> g_camholder_still cs' \<and> s' = moved now p (TiltPos (ctl_ch s)) s \<and> target_ok IsExclude s p \<and>
       (limits_ok s \<and> (IsExclude \<longrightarrow> allowed True s (PanPos (ctl_ch s))) \<longrightarrow> allowed IsExclude s p)))"
proof (cases "ctl_status s = 17 \<and> \<not> get_camholder_pending_state (ctl_ch s)")
  case True
  have o: "sint (limit_left s) \<le> sint (limit_right s)" "sint (exclude_left s) \<le> sint (exclude_right s)"
    using set_limits_orders [OF assms(2,3)] by simp_all
  obtain d tr1 where c: "capture F scr (ctl_ch s) d0 tr = (d, tr1)" by force
  have "teacher_tracking F g now scr IsExclude Msg (tr, cs, s) =
      bind_res (if detected d \<noteq> 0 \<and> acc_of_lost tr1 = 0 then follow F g now IsExclude d (tr1, cs, s) else Inr (tr1, cs, s))
      (search F g now IsExclude)"
    using True assms(4) c by (simp add: teacher_tracking_def)
  then obtain tr' cs' s' where "teacher_tracking F g now scr IsExclude Msg (tr, cs, s) = Inr (tr', cs', s')"
    "tracked now IsExclude (cs, s) (cs', s')"
    using follow_search_tracked [OF assms(1) o, of "detected d \<noteq> 0" tr1 F now IsExclude d cs] by auto
  then show ?thesis using True target_ok_allowed [where s = s] unfolding tracked_def fst_conv snd_conv by blast
next
  case False
  then show ?thesis by (auto simp: teacher_tracking_def)
qed

text \<open>For the examples: the limits -400 and 400, nothing excluded but the middle, and an event without a detection.\<close>

definition tracking_ctl :: "u32 \<Rightarrow> rat teacher_ctl" where
  "tracking_ctl p = (cleared_ctl 17)\<lparr>limit_left := - 400, limit_right := 400, exclude_left := - 50, exclude_right := 50,
     ctl_ch := cleared_holder\<lparr>PanPos := p\<rparr>\<rparr>"

text \<open>A screen that fills the whole view, and the globals at the start.\<close>

definition wide_screen :: "rat t_screen_geometry" where
  "wide_screen = \<lparr>has_screen = True, x_left = - 100, x_right = 100, y_screen = 1, camera_initial_angle = 90\<rparr>"

definition fresh_sync :: capture_sync where
  "fresh_sync = \<lparr>g_camholder_still = True, g_analyze_frame_num = 0, g_num_in_group = 0\<rparr>"

definition no_teacher :: "byte list" where
  "no_teacher = COMMAND_VERSION @ COMMAND_EVENT_VID @ ''0000''"

lemma empty_event: "GetDetectResult no_teacher = Inr detect_zero"
  by (simp add: no_teacher_def GetDetectResult_def scan_msg_def msg_len_def read_hex_eq hex_value_def digit_val_def hex_digit_def scan_attrs.simps)

text \<open>The presets from which the set-up learns these limits and this zone.\<close>

definition learnt_presets :: "t_preset_pos list" where
  "learnt_presets = map (\<lambda>p. \<lparr>pan_pos = p, tilt_pos = 0, zoom_pos = 0\<rparr>) [0, 400, - 400, 0, 0, - 50, 50]"

text \<open>
  The sixth event without a teacher: the search turns the camera from 200 by half a picture, 368 positions,
  to the right, which the limit 400 cuts short.
\<close>

lemma tracking_example:
  "\<exists>tr' cs'. teacher_tracking rat_fp (replicate CMD_BUFSIZE NUL) (5, 0) wide_screen True no_teacher
      (tracker_init\<lparr>acc_of_lost := 5\<rparr>, fresh_sync, tracking_ctl 200) = Inr (tr', cs', moved (5, 0) 400 0 (tracking_ctl 200))"
proof -
  have "\<lfloor>368 :: rat\<rfloor> = 368" by simp
  then have r: "relative_pos rat_fp (ctl_ch (tracking_ctl 200)) 128 = 368"
    by (simp add: relative_pos_def half_angle_def view_angle_def rat_fp_def f_int_def M_PI_def tracking_ctl_def cleared_holder_def
      camera_holder_init_def)
  have f: "ctl_status (tracking_ctl 200) = 17" "\<not> get_camholder_pending_state (ctl_ch (tracking_ctl 200))"
    "PanPos (ctl_ch (tracking_ctl 200)) = 200" "TiltPos (ctl_ch (tracking_ctl 200)) = 0"
    by (simp_all add: tracking_ctl_def cleared_ctl_def cleared_holder_def camera_holder_init_def get_camholder_pending_state_def)
  obtain d2 where d: "scan_limited True (tracking_ctl 200) (568, 1) = (400, d2)"
    by (simp add: scan_limited_def turn_at_most_def cross_at_least_def tracking_ctl_def cleared_holder_def word_sless_alt word_sle_eq Let_def)
  show ?thesis
    by (simp add: teacher_tracking_def f empty_event capture_def not_detected_def wide_screen_def tracker_init_def
      search_def r d move_to_def sent_abspos Let_def)
qed

theorem tracking_within_limits_witness:
  "\<exists>tr' cs'. teacher_tracking rat_fp (replicate CMD_BUFSIZE NUL) (5, 0) wide_screen True no_teacher
      (tracker_init\<lparr>acc_of_lost := 5\<rparr>, fresh_sync, tracking_ctl 200) = Inr (tr', cs', moved (5, 0) 400 0 (tracking_ctl 200)) \<and>
    \<not> g_camholder_still cs' \<and> target_ok True (tracking_ctl 200) 400 \<and> allowed True (tracking_ctl 200) 400"
proof -
  let ?s = "tracking_ctl 200"
  define s0 where "s0 = (cleared_ctl 16)\<lparr>ctl_ch := cleared_holder\<lparr>preset := learnt_presets\<rparr>\<rparr>"
  obtain s1 where s1: "set_limits s0 = Inr s1" "limits ?s = limits s1"
    by (simp add: set_limits_def s0_def learnt_presets_def limits_def tracking_ctl_def word_sless_alt Let_def)
  obtain tr' cs' where run: "teacher_tracking rat_fp (replicate CMD_BUFSIZE NUL) (5, 0) wide_screen True
      no_teacher (tracker_init\<lparr>acc_of_lost := 5\<rparr>, fresh_sync, ?s) =
      Inr (tr', cs', moved (5, 0) 400 0 ?s)"
    using tracking_example by blast
  have t: "target_PanPos (ctl_ch (moved (5, 0) p 0 ?s)) = p" for p by (simp add: moved_def set_pending_def)
  have "target_PanPos (ctl_ch ?s) = 0" by (simp add: tracking_ctl_def cleared_holder_def camera_holder_init_def)
  then have ne: "moved (5, 0) 400 0 ?s \<noteq> ?s" using t [of 400] by auto
  have a: "limits_ok ?s" "allowed True ?s (PanPos (ctl_ch ?s))" and tilt: "TiltPos (ctl_ch ?s) = 0"
    by (simp_all add: tracking_ctl_def limits_ok_def allowed_def in_range_sint cleared_holder_def camera_holder_init_def)
  have g: "length (replicate CMD_BUFSIZE NUL) = CMD_BUFSIZE" by simp
  obtain tr2 cs2 s2 where r: "teacher_tracking rat_fp (replicate CMD_BUFSIZE NUL) (5, 0) wide_screen True no_teacher
      (tracker_init\<lparr>acc_of_lost := 5\<rparr>, fresh_sync, ?s) = Inr (tr2, cs2, s2)"
    and c: "cs2 = fresh_sync \<and> s2 = ?s \<or> (\<exists>p. \<not> g_camholder_still cs2 \<and> s2 = moved (5, 0) p (TiltPos (ctl_ch ?s)) ?s \<and>
      target_ok True ?s p \<and> (limits_ok ?s \<and> (True \<longrightarrow> allowed True ?s (PanPos (ctl_ch ?s))) \<longrightarrow> allowed True ?s p))"
    using tracking_within_limits [OF g s1 empty_event, of rat_fp "(5, 0)" wide_screen True "tracker_init\<lparr>acc_of_lost := 5\<rparr>" fresh_sync]
    by (elim exE conjE) (rule that)
  have e: "cs2 = cs'" "s2 = moved (5, 0) 400 0 ?s" using r unfolding run by simp_all
  from c show ?thesis
  proof (elim disjE exE conjE)
    assume "s2 = ?s" then show ?thesis using ne e(2) by simp
  next
    fix p
    assume p: "\<not> g_camholder_still cs2" "s2 = moved (5, 0) p (TiltPos (ctl_ch ?s)) ?s" "target_ok True ?s p"
      "limits_ok ?s \<and> (True \<longrightarrow> allowed True ?s (PanPos (ctl_ch ?s))) \<longrightarrow> allowed True ?s p"
    have "target_PanPos (ctl_ch s2) = p" unfolding p(2) tilt by (rule t)
    moreover have "target_PanPos (ctl_ch s2) = 400" unfolding e(2) by (rule t)
    ultimately have q: "p = 400" by (rule trans [OF sym])
    have "allowed True ?s p" using p(4) a by (simp only: simp_thms)
    with p(1,3) show ?thesis unfolding e(1) q by (intro exI conjI) (rule run)
  qed
qed

text \<open>
  Inside the excluded zone. When the camera stands strictly between the excluded positions, the limits
  of a move are not checked at all, neither in following nor in searching.
\<close>

theorem excluded_zone_unlimited:
  assumes "sint (exclude_left s) < sint (PanPos (ctl_ch s))" and "sint (PanPos (ctl_ch s)) < sint (exclude_right s)"
  shows "limited True s dest = dest \<and> scan_limited True s (dest, dir) = (dest, dir)"
  using assms by (simp add: limited_def scan_limited_def Let_def word_sle_eq)

theorem excluded_zone_unlimited_witness: "limited True (tracking_ctl 0) 5000 = 5000"
  using excluded_zone_unlimited [of "tracking_ctl 0" 5000 1] by (simp add: tracking_ctl_def cleared_holder_def)

section \<open>In front of the screen\<close>

text \<open>
  A teacher lost in front of the screen. The analyser's events never report a motion (the value of
  \<^verbatim>\<open>Detected\<close> is 0 or 1, and a motion is 2 or more), so once the teacher counts as lost, an event that
  shows him in front of the screen does not bring him back: the count of lost events goes on.
\<close>

theorem screen_teacher_stays_lost:
  assumes "length g = CMD_BUFSIZE" and "has_screen scr" and "3 \<le> acc_of_lost tr" and "0 <s rect"
    and "fst (screen_object F scr ch \<lparr>detected = 1, avg_top = t1, avg_left = l1, avg_bottom = b1, avg_right = r1,
      max_top = t2, max_left = l2, max_bottom = b2, max_right = r2\<rparr>)"
  shows "bind_res (EventVID2df g [rect, t1, l1, b1, r1, t2, l2, b2, r2]) (\<lambda>f.
      bind_res (GetDetectResult (fa_data f @ rest)) (\<lambda>d. Inr (acc_of_lost (snd (capture F scr ch d tr))))) =
    Inr (acc_of_lost tr + 1)"
proof -
  define d where "d = \<lparr>detected = 1, avg_top = t1, avg_left = l1, avg_bottom = b1, avg_right = r1,
      max_top = t2, max_left = l2, max_bottom = b2, max_right = r2\<rparr>"
  obtain d1 where o: "screen_object F scr ch d = (True, d1)" using assms(5) by (metis d_def prod.collapse)
  then have d1: "d1 = d" by (auto simp: screen_object_def Let_def split: prod.splits bool.splits)
  have n: "\<not> acc_of_lost tr < 3" "\<not> 2 \<le> detected d" "detected d \<noteq> 0"
    using assms(3) by (simp_all add: d_def not_less not_le)
  have "acc_of_lost (snd (capture F scr ch d tr)) = acc_of_lost tr + 1"
    using assms(2) n o by (simp add: capture_def d1 capture_in_screen_def Let_def)
  moreover have "bind_res (EventVID2df g [rect, t1, l1, b1, r1, t2, l2, b2, r2]) (\<lambda>f. GetDetectResult (fa_data f @ rest)) = Inr d"
    using event_vid_decoded [OF assms(1), of rect t1 l1 b1 r1 t2 l2 b2 r2 rest] assms(4) by (simp add: d_def)
  ultimately show ?thesis by (simp flip: bind_res_assoc)
qed

theorem screen_teacher_stays_lost_witness:
  "bind_res (EventVID2df (replicate CMD_BUFSIZE NUL) [1, 0, 100, 50, 156, 0, 110, 50, 146]) (\<lambda>f.
     bind_res (GetDetectResult (fa_data f)) (\<lambda>d.
     Inr (acc_of_lost (snd (capture rat_fp wide_screen cleared_holder d (tracker_init\<lparr>acc_of_lost := 7\<rparr>)))))) = Inr 8"
proof -
  have "fst (screen_object rat_fp wide_screen cleared_holder \<lparr>detected = 1, avg_top = 0, avg_left = 100, avg_bottom = 50, avg_right = 156,
      max_top = 0, max_left = 110, max_bottom = 50, max_right = 146\<rparr>)"
    by (simp add: screen_object_def sides_in_screen_def in_screen_angle_def screen_angle_def obj_angle_def half_angle_def view_angle_def
      avg_offset_def c_div_def wide_screen_def cleared_holder_def camera_holder_init_def rat_fp_def f_int_def M_PI_def Let_def)
  then show ?thesis
    using screen_teacher_stays_lost [of "replicate CMD_BUFSIZE NUL" wide_screen "tracker_init\<lparr>acc_of_lost := 7\<rparr>" 1
      rat_fp cleared_holder 0 100 50 156 0 110 50 146 "[]"] by (simp add: wide_screen_def word_sless_alt)
qed

section \<open>The search\<close>

text \<open>The search without an excluded zone on integers: the position and the direction, one step of \<open>w\<close>.\<close>

definition sweep :: "int \<Rightarrow> int \<Rightarrow> int \<Rightarrow> int \<times> int \<Rightarrow> int \<times> int" where
  "sweep w ll lr x = (let q = fst x + snd x * w in
     if lr < q then (lr, - snd x) else if q < ll then (ll, - snd x) else (q, snd x))"

lemma sweep_right:
  assumes "0 < w" and "ll \<le> p" and "p \<le> lr"
  shows "\<exists>n. int n \<le> (lr - p) div w + 1 \<and> (sweep w ll lr ^^ n) (p, 1) = (lr, - 1)"
  using assms(2,3)
proof (induction "nat ((lr - p) div w)" arbitrary: p rule: less_induct)
  case less
  show ?case
  proof (cases "lr < p + w")
    case True
    then have "(sweep w ll lr ^^ 1) (p, 1) = (lr, - 1)" by (simp add: sweep_def)
    moreover have "0 \<le> (lr - p) div w" using less.prems assms(1) by (simp add: pos_imp_zdiv_nonneg_iff)
    ultimately show ?thesis by (intro exI [of _ 1]) simp
  next
    case False
    have d: "(lr - (p + w)) div w = (lr - p) div w - 1"
      using div_add_self2 [of w "lr - (p + w)"] assms(1) by (simp add: algebra_simps)
    have z: "0 \<le> (lr - (p + w)) div w" using False assms(1) by (simp add: pos_imp_zdiv_nonneg_iff)
    obtain n where n: "int n \<le> (lr - (p + w)) div w + 1" "(sweep w ll lr ^^ n) (p + w, 1) = (lr, - 1)"
      using less.hyps [of "p + w"] less.prems False assms(1) d z by auto
    have "sweep w ll lr (p, 1) = (p + w, 1)" using False less.prems assms(1) by (simp add: sweep_def)
    then have "(sweep w ll lr ^^ Suc n) (p, 1) = (lr, - 1)" using n(2) by (simp add: funpow_Suc_right del: funpow.simps)
    then show ?thesis using n(1) d by (intro exI [of _ "Suc n"]) simp
  qed
qed

text \<open>To the left it is the mirror image.\<close>

definition mirror :: "int \<times> int \<Rightarrow> int \<times> int" where
  "mirror x = (- fst x, - snd x)"

lemma mirror_mirror [simp]: "mirror (mirror x) = x"
  by (simp add: mirror_def)

lemma sweep_mirror: "ll \<le> lr \<Longrightarrow> sweep w ll lr (mirror x) = mirror (sweep w (- lr) (- ll) x)"
  by (cases x) (auto simp: sweep_def mirror_def Let_def)

lemma sweeps_mirror: "ll \<le> lr \<Longrightarrow> (sweep w ll lr ^^ n) (mirror x) = mirror ((sweep w (- lr) (- ll) ^^ n) x)"
  by (induction n) (simp_all add: sweep_mirror)

lemma sweep_left:
  assumes "0 < w" and "ll \<le> p" and "p \<le> lr"
  shows "\<exists>n. int n \<le> (p - ll) div w + 1 \<and> (sweep w ll lr ^^ n) (p, - 1) = (ll, 1)"
proof -
  obtain n where n: "int n \<le> (- ll - - p) div w + 1" "(sweep w (- lr) (- ll) ^^ n) (- p, 1) = (- ll, - 1)"
    using sweep_right [of w "- lr" "- p" "- ll"] assms by auto
  then have "(sweep w ll lr ^^ n) (mirror (- p, 1)) = mirror (- ll, - 1)"
    using assms(2,3) sweeps_mirror [where n = n and x = "(- p, 1)"] by simp
  then show ?thesis using n(1) by (intro exI [of _ n]) (simp add: mirror_def)
qed

lemma sweep_both:
  assumes "0 < w" and "ll \<le> p" and "p \<le> lr" and "d = 1 \<or> d = - 1"
  shows "\<exists>n m. int n \<le> 2 * ((lr - ll) div w + 1) \<and> fst ((sweep w ll lr ^^ n) (p, d)) = lr \<and>
    int m \<le> 2 * ((lr - ll) div w + 1) \<and> fst ((sweep w ll lr ^^ m) (p, d)) = ll"
proof -
  have le: "(lr - p) div w \<le> (lr - ll) div w" "(p - ll) div w \<le> (lr - ll) div w" "0 \<le> (lr - ll) div w"
    using assms(1-3) by (auto intro: zdiv_mono1 simp: pos_imp_zdiv_nonneg_iff)
  have twice: "(sweep w ll lr ^^ (n + m)) x = z" if "(sweep w ll lr ^^ m) x = y" "(sweep w ll lr ^^ n) y = z" for n m x y z
    using that by (simp add: funpow_add)
  show ?thesis
    using assms(4)
  proof
    assume d: "d = 1"
    obtain n m where "int n \<le> (lr - p) div w + 1" "(sweep w ll lr ^^ n) (p, 1) = (lr, - 1)"
      "int m \<le> (lr - ll) div w + 1" "(sweep w ll lr ^^ m) (lr, - 1) = (ll, 1)"
      using sweep_right [OF assms(1-3)] sweep_left [OF assms(1), of ll lr lr] assms(2,3) by auto
    then show ?thesis using d twice [of n "(p, 1)" "(lr, - 1)" m "(ll, 1)"] le
      by (intro exI [of _ n] exI [of _ "m + n"]) simp
  next
    assume d: "d = - 1"
    obtain n m where "int n \<le> (p - ll) div w + 1" "(sweep w ll lr ^^ n) (p, - 1) = (ll, 1)"
      "int m \<le> (lr - ll) div w + 1" "(sweep w ll lr ^^ m) (ll, 1) = (lr, - 1)"
      using sweep_left [OF assms(1-3)] sweep_right [OF assms(1), of ll ll lr] assms(2,3) by auto
    then show ?thesis using d twice [of n "(p, - 1)" "(ll, 1)" m "(lr, - 1)"] le
      by (intro exI [of _ "m + n"] exI [of _ n]) simp
  qed
qed

text \<open>
  One round of the search: the search itself, with the teacher lost for long enough, and the answer of
  the camera when it was moved.
\<close>

definition camera_answers :: "'f teacher_ctl \<Rightarrow> 'f teacher_ctl res" where
  "camera_answers s = (if get_camholder_pending_state (ctl_ch s)
     then bind_res (uart_rx (completion_bytes @ raw [0xff]) (ctl_ch s)) (\<lambda>(rest, ch). Inr (s\<lparr>ctl_ch := ch\<rparr>)) else Inr s)"

definition search_round :: "'f fp \<Rightarrow> byte list \<Rightarrow> int \<times> int \<Rightarrow> tracker \<times> capture_sync \<times> 'f teacher_ctl \<Rightarrow>
    (tracker \<times> capture_sync \<times> 'f teacher_ctl) res" where
  "search_round F g now st =
     bind_res (search F g now False st) (\<lambda>(tr, cs, s). bind_res (camera_answers s) (\<lambda>s'. Inr (tr, cs, s')))"

definition searching :: "'f fp \<Rightarrow> int \<Rightarrow> int \<Rightarrow> int \<Rightarrow> tracker \<times> capture_sync \<times> 'f teacher_ctl \<Rightarrow> bool" where
  "searching F w ll lr st = (case st of (tr, cs, s) \<Rightarrow> let ch = ctl_ch s in
     6 \<le> acc_of_lost tr \<and> acc_of_lost tr mod 3 = 0 \<and> sint (direction tr) \<in> {1, - 1} \<and>
     idle_holder ch \<and> sint (relative_pos F ch 128) = w \<and> sint (relative_pos F ch (- 128)) = - w \<and>
     sint (limit_left s) = ll \<and> sint (limit_right s) = lr \<and> ll \<le> sint (PanPos ch) \<and> sint (PanPos ch) \<le> lr \<and>
     small (limit_left s) \<and> small (limit_right s) \<and> small (relative_pos F ch 128) \<and> target_ZoomPos ch = ZoomPos ch)"

definition whereabouts :: "tracker \<times> capture_sync \<times> 'f teacher_ctl \<Rightarrow> int \<times> int" where
  "whereabouts st = (case st of (tr, cs, s) \<Rightarrow> (sint (PanPos (ctl_ch s)), sint (direction tr)))"

lemma relative_pos_cong:
  "ZoomPos ch' = ZoomPos ch \<Longrightarrow> zoom_max ch' = zoom_max ch \<Longrightarrow> pan_max ch' = pan_max ch \<Longrightarrow>
   view_angle_max ch' = view_angle_max ch \<Longrightarrow> view_angle_min ch' = view_angle_min ch \<Longrightarrow>
   pan_angle_right ch' = pan_angle_right ch \<Longrightarrow> relative_pos F ch' off = relative_pos F ch off"
  by (simp add: relative_pos_def half_angle_def view_angle_def)

lemma camera_answers_moved:
  assumes "idle_holder (ctl_ch s)" and "target_ZoomPos (ctl_ch s) = ZoomPos (ctl_ch s)"
  shows "\<exists>s'. camera_answers (moved now p t s) = Inr s' \<and> idle_holder (ctl_ch s') \<and> PanPos (ctl_ch s') = p \<and>
    ZoomPos (ctl_ch s') = ZoomPos (ctl_ch s) \<and> target_ZoomPos (ctl_ch s') = target_ZoomPos (ctl_ch s) \<and>
    limit_left s' = limit_left s \<and> limit_right s' = limit_right s \<and>
    relative_pos F (ctl_ch s') off = relative_pos F (ctl_ch s) off \<and> relative_pos F (ctl_ch s') off' = relative_pos F (ctl_ch s) off'"
proof -
  define ch where "ch = ctl_ch (moved now p t s)"
  have ch: "length (Rx_buf ch) = 16" "Rx_cnt ch = 0" "get_camholder_pending_state ch" "target_PanPos ch = p"
    "target_ZoomPos ch = ZoomPos (ctl_ch s)"
    using assms by (simp_all add: ch_def moved_def set_pending_def idle_holder_def get_camholder_pending_state_def)
  obtain buf where b: "length buf = 16" "uart_rx (completion_bytes @ raw [0xff] @ []) ch = Inr ([], ch\<lparr>Rx_buf := buf,
    RspLen := 3, Rx_cnt := 0, PanPos := target_PanPos ch, TiltPos := target_TiltPos ch, ZoomPos := target_ZoomPos ch,
    command_pending := 0\<rparr>)" by (rule answer_completion [OF ch(1,2)])
  define s' where "s' = (moved now p t s)\<lparr>ctl_ch := ch\<lparr>Rx_buf := buf,
    RspLen := 3, Rx_cnt := 0, PanPos := target_PanPos ch, TiltPos := target_TiltPos ch, ZoomPos := target_ZoomPos ch,
    command_pending := 0\<rparr>\<rparr>"
  have "camera_answers (moved now p t s) = Inr s'"
    using b(2) ch(3) by (simp add: camera_answers_def s'_def flip: ch_def)
  moreover have "relative_pos F (ctl_ch s') o' = relative_pos F (ctl_ch s) o'" for o'
    by (rule relative_pos_cong) (simp_all add: s'_def ch(5), simp_all add: ch_def moved_def set_pending_def)
  moreover have "idle_holder (ctl_ch s')"
    using assms(1) b(1) by (simp add: s'_def idle_holder_def ch_def moved_def set_pending_def)
  moreover have "limit_left s' = limit_left s" "limit_right s' = limit_right s"
    by (simp_all add: s'_def moved_def)
  moreover have "PanPos (ctl_ch s') = p" "ZoomPos (ctl_ch s') = ZoomPos (ctl_ch s)"
    "target_ZoomPos (ctl_ch s') = target_ZoomPos (ctl_ch s)"
    using ch(4,5) assms(2) by (simp_all add: s'_def)
  ultimately show ?thesis by blast
qed

lemma searching_step:
  assumes g: "length g = CMD_BUFSIZE" and s: "searching F w ll lr st"
  shows "\<exists>st'. search_round F g now st = Inr st' \<and> searching F w ll lr st' \<and> whereabouts st' = sweep w ll lr (whereabouts st)"
proof -
  obtain tr cs s where st: "st = (tr, cs, s)" by (cases st) auto
  let ?ch = "ctl_ch s"
  define rel where "rel = relative_pos F ?ch (128 * direction tr)"
  define dd where "dd = scan_limited False s (PanPos ?ch + rel, direction tr)"
  have q: "6 \<le> acc_of_lost tr" "acc_of_lost tr mod 3 = 0" "idle_holder ?ch" "target_ZoomPos ?ch = ZoomPos ?ch"
    "small (limit_left s)" "small (limit_right s)" "small (relative_pos F ?ch 128)"
    "sint (relative_pos F ?ch 128) = w" "sint (relative_pos F ?ch (- 128)) = - w"
    "sint (limit_left s) = ll" "sint (limit_right s) = lr" "ll \<le> sint (PanPos ?ch)" "sint (PanPos ?ch) \<le> lr"
    using s by (simp_all add: st searching_def Let_def)
  have dir: "sint (direction tr) = 1 \<or> sint (direction tr) = - 1" using s by (auto simp: st searching_def Let_def)
  have sp: "small (PanPos ?ch)" using q by (simp add: small_def)
  have d1: "direction tr = word_of_int (sint (direction tr))" by simp
  have r: "sint rel = sint (direction tr) * w" "small rel" "sint (direction tr * - 1) = - sint (direction tr)"
    using dir
  proof (atomize(full), elim disjE)
    assume "sint (direction tr) = 1"
    moreover from this d1 have "direction tr = 1" by simp
    ultimately show "sint rel = sint (direction tr) * w \<and> small rel \<and> sint (direction tr * - 1) = - sint (direction tr)"
      using q(7,8) by (simp add: rel_def)
  next
    assume "sint (direction tr) = - 1"
    moreover from this d1 have "direction tr = - 1" by simp
    ultimately show "sint rel = sint (direction tr) * w \<and> small rel \<and> sint (direction tr * - 1) = - sint (direction tr)"
      using q(7-9) by (simp add: rel_def small_def)
  qed
  have dest: "(sint (fst dd), sint (snd dd)) = sweep w ll lr (whereabouts st)"
    using small_sum(1) [OF sp r(2)] r(1,3) q(10-13)
    by (auto simp: dd_def scan_limited_def turn_at_least_def turn_at_most_def word_sless_alt sweep_def whereabouts_def st Let_def)
  then have rng: "ll \<le> sint (fst dd) \<and> sint (fst dd) \<le> lr" "sint (snd dd) \<in> {1, - 1}"
    using dir q(12,13) by (auto simp: sweep_def whereabouts_def st Let_def split: if_splits)
  have sr: "search F g now False st = bind_res (move_to g now (fst dd) (cs, s)) (\<lambda>(cs', s'). Inr (tr\<lparr>direction := snd dd\<rparr>, cs', s'))"
    using q(1,2) by (simp add: search_def st Let_def dd_def rel_def)
  show ?thesis
  proof (cases "fst dd = PanPos ?ch")
    case True
    have "camera_answers s = Inr s" using q(3) by (simp add: camera_answers_def idle_holder_def get_camholder_pending_state_def)
    then have "search_round F g now st = Inr (tr\<lparr>direction := snd dd\<rparr>, cs, s)"
      using True sr by (simp add: search_round_def move_to_def)
    moreover have "searching F w ll lr (tr\<lparr>direction := snd dd\<rparr>, cs, s)"
      using s rng(2) by (simp add: searching_def st Let_def)
    ultimately show ?thesis using dest True by (auto simp: whereabouts_def)
  next
    case False
    obtain s' where s': "camera_answers (moved now (fst dd) (TiltPos ?ch) s) = Inr s'" "idle_holder (ctl_ch s')" "PanPos (ctl_ch s') = fst dd"
      "ZoomPos (ctl_ch s') = ZoomPos ?ch" "target_ZoomPos (ctl_ch s') = target_ZoomPos ?ch"
      "limit_left s' = limit_left s" "limit_right s' = limit_right s"
      "relative_pos F (ctl_ch s') 128 = relative_pos F ?ch 128" "relative_pos F (ctl_ch s') (- 128) = relative_pos F ?ch (- 128)"
      using camera_answers_moved [OF q(3,4), of now "fst dd" "TiltPos ?ch" F 128 "- 128"] by blast
    obtain cs' where "search_round F g now st = Inr (tr\<lparr>direction := snd dd\<rparr>, cs', s')"
      using False sr s'(1) sent_abspos [OF g, of now "fst dd" "TiltPos ?ch" s] by (simp add: search_round_def move_to_def)
    moreover have "searching F w ll lr (tr\<lparr>direction := snd dd\<rparr>, cs', s')"
      unfolding searching_def prod.case Let_def s'(3-9)
      using q(1,2,4-11) s'(2) rng by simp
    ultimately show ?thesis using dest s'(3) by (auto simp: whereabouts_def)
  qed
qed

lemma search_rounds:
  assumes "length g = CMD_BUFSIZE" and "searching F w ll lr st"
  shows "\<exists>st'. fold_res (\<lambda>st now. search_round F g now st) st ts = Inr st' \<and> searching F w ll lr st' \<and>
    whereabouts st' = (sweep w ll lr ^^ length ts) (whereabouts st)"
  using assms(2)
proof (induction ts arbitrary: st)
  case (Cons t ts)
  obtain st1 where "search_round F g t st = Inr st1" "searching F w ll lr st1" "whereabouts st1 = sweep w ll lr (whereabouts st)"
    using searching_step [OF assms(1) Cons.prems] by blast
  then show ?case using Cons.IH [of st1] by (simp add: funpow_Suc_right del: funpow.simps)
qed simp

text \<open>
  C15. The search. While the teacher is lost and the camera answers its moves, the search without an excluded
  zone comes to both limits, within twice as many rounds as moves fit between them and two more, wherever
  it starts and in whichever direction, if a move by the half picture is to the left what it is to the right.
\<close>

theorem search_sweeps:
  assumes "length g = CMD_BUFSIZE" and "searching F w ll lr st" and "0 < w"
  shows "\<exists>n m. int n \<le> 2 * ((lr - ll) div w + 1) \<and> int m \<le> 2 * ((lr - ll) div w + 1) \<and>
    (\<forall>ts. length ts = n \<longrightarrow> (\<exists>tr cs s. fold_res (\<lambda>st now. search_round F g now st) st ts = Inr (tr, cs, s) \<and>
       sint (PanPos (ctl_ch s)) = lr)) \<and>
    (\<forall>ts. length ts = m \<longrightarrow> (\<exists>tr cs s. fold_res (\<lambda>st now. search_round F g now st) st ts = Inr (tr, cs, s) \<and>
       sint (PanPos (ctl_ch s)) = ll))"
proof -
  obtain p d where pd: "whereabouts st = (p, d)" by force
  then have "ll \<le> p" "p \<le> lr" "d = 1 \<or> d = - 1"
    using assms(2) by (cases st; simp add: searching_def whereabouts_def Let_def; blast)+
  from sweep_both [OF assms(3) this] obtain n m where nm: "int n \<le> 2 * ((lr - ll) div w + 1)" "fst ((sweep w ll lr ^^ n) (p, d)) = lr"
    "int m \<le> 2 * ((lr - ll) div w + 1)" "fst ((sweep w ll lr ^^ m) (p, d)) = ll"
    by blast
  have run: "\<exists>tr cs s. fold_res (\<lambda>st now. search_round F g now st) st ts = Inr (tr, cs, s) \<and>
      sint (PanPos (ctl_ch s)) = fst ((sweep w ll lr ^^ length ts) (p, d))" for ts
  proof -
    obtain st' where st': "fold_res (\<lambda>st now. search_round F g now st) st ts = Inr st'"
      "whereabouts st' = (sweep w ll lr ^^ length ts) (p, d)"
      using search_rounds [OF assms(1,2), of ts] unfolding pd by blast
    obtain tr cs s where s: "st' = (tr, cs, s)" by (cases st') auto
    have "sint (PanPos (ctl_ch s)) = fst (whereabouts st')" by (simp add: s whereabouts_def)
    moreover have "fold_res (\<lambda>st now. search_round F g now st) st ts = Inr (tr, cs, s)" using st'(1) s by simp
    ultimately show ?thesis unfolding st'(2) by blast
  qed
  show ?thesis
  proof (rule exI [of _ n], rule exI [of _ m], intro conjI nm(1,3) allI impI)
    fix ts :: "(int \<times> int) list" assume "length ts = n"
    then show "\<exists>tr cs s. fold_res (\<lambda>st now. search_round F g now st) st ts = Inr (tr, cs, s) \<and> sint (PanPos (ctl_ch s)) = lr"
      using run [of ts] nm(2) by (simp only:)
  next
    fix ts :: "(int \<times> int) list" assume "length ts = m"
    then show "\<exists>tr cs s. fold_res (\<lambda>st now. search_round F g now st) st ts = Inr (tr, cs, s) \<and> sint (PanPos (ctl_ch s)) = ll"
      using run [of ts] nm(4) by (simp only:)
  qed
qed

text \<open>A camera whose picture is 55.2 degrees wide moves by 368 positions: it sees both limits within six rounds.\<close>

theorem search_sweeps_witness:
  "\<exists>n. int n \<le> 6 \<and> (\<forall>ts. length ts = n \<longrightarrow> (\<exists>tr cs s.
     fold_res (\<lambda>st now. search_round rat_fp (replicate CMD_BUFSIZE NUL) now st) (tracker_init\<lparr>acc_of_lost := 6\<rparr>, fresh_sync, tracking_ctl 100) ts =
       Inr (tr, cs, s) \<and> sint (PanPos (ctl_ch s)) = - 400))"
proof -
  have "\<lfloor>368 :: rat\<rfloor> = 368" by simp
  then have "relative_pos rat_fp (ctl_ch (tracking_ctl 100)) 128 = 368" "relative_pos rat_fp (ctl_ch (tracking_ctl 100)) (- 128) = - 368"
    by (simp_all add: relative_pos_def half_angle_def view_angle_def rat_fp_def f_int_def M_PI_def tracking_ctl_def cleared_holder_def
      camera_holder_init_def)
  then have "searching rat_fp 368 (- 400) 400 (tracker_init\<lparr>acc_of_lost := 6\<rparr>, fresh_sync, tracking_ctl 100)"
    by (simp add: searching_def tracker_init_def Let_def tracking_ctl_def idle_holder_def small_def cleared_holder_def camera_holder_init_def)
  then show ?thesis
    using search_sweeps [of "replicate CMD_BUFSIZE NUL" rat_fp 368 "- 400" 400 "(tracker_init\<lparr>acc_of_lost := 6\<rparr>, fresh_sync, tracking_ctl 100)"]
    by auto
qed

end
