(* ===== verification/Frame_Diff.thy ===== *)
theory Frame_Diff
  imports Rec_Prelude
begin

text \<open>
  The first half of the image analysis (\<^verbatim>\<open>recbcsrv/PC_CENTRIST/FrameDiff.c\<close>): the picture is compared with
  the one before, the changed pixels of every column are counted, and the runs of columns with many changes are the
  moving objects. The scan is proved to find exactly the maximal runs.
\<close>

section \<open>Pictures\<close>

text \<open>The sizes are constants, not abbreviations, so that the loops over them stay folded.\<close>

definition FRAME_WIDTH :: nat where "FRAME_WIDTH = 256"
definition FRAME_HEIGHT :: nat where "FRAME_HEIGHT = 144"
definition COOR_SIZE :: nat where "COOR_SIZE = 200"

abbreviation (input) VERTICAL_THRESH :: nat where "VERTICAL_THRESH \<equiv> 20"
abbreviation (input) PIXEL_DIFF_THRESH :: int where "PIXEL_DIFF_THRESH \<equiv> 20"
abbreviation (input) OBJECT_SIZE :: nat where "OBJECT_SIZE \<equiv> 5"

lemmas frame_sizes = FRAME_WIDTH_def FRAME_HEIGHT_def COOR_SIZE_def

record rect =
  x1 :: int
  y1 :: int
  x2 :: int
  y2 :: int

text \<open>\<open>filterImage\<close>, \<open>horizontal\<close> and \<open>has_object\<close> are never used.\<close>

record IMAGE =
  frame_num :: int
  recNum :: nat
  cenRecNum :: nat
  firstImage :: "byte list"
  lastImage :: "byte list"
  diffImage :: "byte list"
  vertical :: "nat list"
  coordinate :: "rect list"
  cenCoord :: "rect list"

text \<open>The object is a global, so it starts with zeros.\<close>

definition zero_rect :: rect where
  "zero_rect = \<lparr>x1 = 0, y1 = 0, x2 = 0, y2 = 0\<rparr>"

definition global_IMAGE :: IMAGE where
  "global_IMAGE =
     \<lparr>frame_num = 0, recNum = 0, cenRecNum = 0, firstImage = replicate (FRAME_WIDTH * FRAME_HEIGHT) NUL,
      lastImage = replicate (FRAME_WIDTH * FRAME_HEIGHT) NUL, diffImage = replicate (FRAME_WIDTH * FRAME_HEIGHT) NUL,
      vertical = replicate FRAME_WIDTH 0, coordinate = replicate COOR_SIZE zero_rect, cenCoord = replicate COOR_SIZE zero_rect\<rparr>"

definition InitImage :: "IMAGE \<Rightarrow> IMAGE" where
  "InitImage ob = ob\<lparr>recNum := 0, cenRecNum := 0, frame_num := 0\<rparr>"

text \<open>An \<open>unsigned char\<close> of a picture.\<close>

definition pixel :: "byte list \<Rightarrow> nat \<Rightarrow> int res" where
  "pixel p k = (if k < length p then Inr (of_char (p ! k)) else Inl Out_Of_Bounds)"

section \<open>FrameDiff\<close>

text \<open>The first loop; \<open>w\<close> and \<open>h\<close> are the sizes of the picture.\<close>

definition diff_at :: "byte list \<Rightarrow> byte list \<Rightarrow> byte list \<Rightarrow> nat \<Rightarrow> byte list res" where
  "diff_at Y lst d k =
     bind_res (pixel Y k) (\<lambda>a. bind_res (pixel lst k) (\<lambda>b.
     arr_put d k (if \<bar>a - b\<bar> > PIXEL_DIFF_THRESH then CHR 255 else NUL)))"

definition diff_loop :: "nat \<Rightarrow> nat \<Rightarrow> byte list \<Rightarrow> byte list \<Rightarrow> byte list \<Rightarrow> byte list res" where
  "diff_loop w h Y lst d = fold_res (\<lambda>d i. fold_res (\<lambda>d j. diff_at Y lst d (i * w + j)) d [0 ..< w]) d [0 ..< h]"

text \<open>The number of changed pixels of a column.\<close>

definition column_sum :: "nat \<Rightarrow> nat \<Rightarrow> byte list \<Rightarrow> nat \<Rightarrow> nat res" where
  "column_sum w h d j = fold_res (\<lambda>v i. bind_res (pixel d (j + i * w)) (\<lambda>p. Inr (v + nat p div 255))) 0 [0 ..< h]"

text \<open>The scan of the columns: \<open>flagVer\<close>, \<open>temp\<close>, and the rectangles.\<close>

record scan =
  flagVer :: bool
  temp :: nat
  sc_recNum :: nat
  sc_coordinate :: "rect list"

definition scan_column :: "nat \<Rightarrow> nat \<Rightarrow> scan \<Rightarrow> nat \<Rightarrow> nat \<Rightarrow> scan res" where
  "scan_column w h sc j v =
     (let sc1 = (if v > VERTICAL_THRESH \<and> \<not> flagVer sc then sc\<lparr>temp := j, flagVer := True\<rparr> else sc)
      in if (v \<le> VERTICAL_THRESH \<and> flagVer sc1 \<and> j < w - 1) \<or> (j = w - 1 \<and> flagVer sc1) then
           bind_res
             (if j - temp sc1 > OBJECT_SIZE \<and> sc_recNum sc1 < COOR_SIZE - 4 then
                bind_res (arr_put (sc_coordinate sc1) (sc_recNum sc1) \<lparr>x1 = int (temp sc1), y1 = 0, x2 = int j, y2 = int h\<rparr>)
                  (\<lambda>cs. Inr (sc1\<lparr>sc_coordinate := cs, sc_recNum := sc_recNum sc1 + 1\<rparr>))
              else Inr sc1)
             (\<lambda>sc2. Inr (sc2\<lparr>flagVer := False\<rparr>))
         else Inr sc1)"

definition column_step :: "nat \<Rightarrow> nat \<Rightarrow> byte list \<Rightarrow> nat list \<times> scan \<Rightarrow> nat \<Rightarrow> (nat list \<times> scan) res" where
  "column_step w h d = (\<lambda>(vs, sc) j.
     bind_res (column_sum w h d j) (\<lambda>v.
     bind_res (arr_put vs j v) (\<lambda>vs'.
     bind_res (scan_column w h sc j v) (\<lambda>sc'. Inr (vs', sc')))))"

definition FrameDiff :: "byte list \<Rightarrow> IMAGE \<Rightarrow> IMAGE res" where
  "FrameDiff Y ob =
     bind_res (mem_read Y 0 (FRAME_WIDTH * FRAME_HEIGHT)) (\<lambda>pic.
     let ob1 = (if frame_num ob = 0 then ob\<lparr>firstImage := pic\<rparr> else ob);
         ob2 = ob1\<lparr>recNum := 0\<rparr>
     in bind_res
          (if frame_num ob2 \<ge> 1 then
             bind_res (diff_loop FRAME_WIDTH FRAME_HEIGHT Y (lastImage ob2) (diffImage ob2)) (\<lambda>d.
             bind_res (fold_res (column_step FRAME_WIDTH FRAME_HEIGHT d)
                (replicate FRAME_WIDTH 0,
                 \<lparr>flagVer = False, temp = 0, sc_recNum = recNum ob2, sc_coordinate = coordinate ob2\<rparr>) [0 ..< FRAME_WIDTH])
                (\<lambda>(vs, sc). Inr (ob2\<lparr>diffImage := d, vertical := vs, recNum := sc_recNum sc, coordinate := sc_coordinate sc\<rparr>)))
           else Inr ob2)
          (\<lambda>ob3. Inr (ob3\<lparr>lastImage := pic\<rparr>)))"

section \<open>What the loops compute\<close>

lemma fold_res_nested:
  "fold_res (\<lambda>s i. fold_res (\<lambda>s j. f s (i * w + j)) s [0 ..< w]) s [0 ..< h] = fold_res f s [0 ..< h * w]"
proof (induction h arbitrary: s)
  case (Suc h)
  have sh: "fold_res (\<lambda>s j. f s (k + j)) s [0 ..< n] = fold_res f s [k ..< k + n]" for s k n
  proof (induction n arbitrary: s)
    case (Suc n)
    then show ?case by (simp add: fold_res_append)
  qed simp
  have "[0 ..< Suc h * w] = [0 ..< h * w] @ [h * w ..< h * w + w]" using upt_add_eq_append [of 0 "h * w" w] by (simp only: mult_Suc add.commute [of w] le0)
  then show ?case using Suc.IH [of s] by (simp add: fold_res_append sh)
qed simp

definition changed :: "byte \<Rightarrow> byte \<Rightarrow> bool" where
  "changed a b \<longleftrightarrow> \<bar>of_char a - of_char b\<bar> > PIXEL_DIFF_THRESH"

lemma diff_loop_ok:
  assumes "w * h \<le> length Y" and "w * h \<le> length lst" and "length d = w * h"
  shows "diff_loop w h Y lst d = Inr (map (\<lambda>k. if changed (Y ! k) (lst ! k) then CHR 255 else NUL) [0 ..< w * h])"
proof -
  let ?v = "\<lambda>k. if changed (Y ! k) (lst ! k) then CHR 255 else NUL"
  have "n \<le> h * w \<Longrightarrow> fold_res (diff_at Y lst) d [0 ..< n] = Inr (map ?v [0 ..< n] @ drop n d)" for n
  proof (induction n)
    case (Suc n)
    then have n: "n < length Y" "n < length lst" "n < length d" using assms by (simp_all add: mult.commute)
    have "(map ?v [0 ..< n] @ drop n d)[n := ?v n] = map ?v [0 ..< Suc n] @ drop (Suc n) d"
      using n(3) by (simp add: list_fill)
    then show ?case
      using Suc n by (simp add: fold_res_append diff_at_def pixel_def arr_put_def changed_def)
  qed simp
  from this [of "h * w"] show ?thesis
    unfolding diff_loop_def fold_res_nested [where f = "diff_at Y lst"] using assms(3) by (simp add: mult.commute)
qed

lemma column_sum_ok:
  assumes "length d = w * h" and "j < w" and "set d \<subseteq> {CHR 255, NUL}"
  shows "column_sum w h d j = Inr (card {i. i < h \<and> d ! (j + i * w) = CHR 255})"
proof -
  have "n \<le> h \<Longrightarrow> fold_res (\<lambda>v i. bind_res (pixel d (j + i * w)) (\<lambda>p. Inr (v + nat p div 255))) 0 [0 ..< n]
      = Inr (card {i. i < n \<and> d ! (j + i * w) = CHR 255})" for n
  proof (induction n)
    case (Suc n)
    have b: "j + n * w < length d"
    proof -
      have "j + n * w < Suc n * w" using assms(2) by simp
      also have "\<dots> \<le> h * w" using Suc.prems by (intro mult_right_mono) simp_all
      finally show ?thesis using assms(1) by (simp add: mult.commute)
    qed
    then have v: "d ! (j + n * w) = CHR 255 \<or> d ! (j + n * w) = NUL" using assms(3) by (meson in_mono insertE nth_mem singletonD)
    have "{i. i < Suc n \<and> d ! (j + i * w) = CHR 255}
      = (if d ! (j + n * w) = CHR 255 then insert n {i. i < n \<and> d ! (j + i * w) = CHR 255}
         else {i. i < n \<and> d ! (j + i * w) = CHR 255})" by (auto simp: less_Suc_eq)
    moreover have "nat (of_char (d ! (j + n * w))) div 255 = (if d ! (j + n * w) = CHR 255 then 1 else 0 :: nat)"
      using v by (elim disjE) simp_all
    ultimately show ?case using Suc b by (simp add: fold_res_append pixel_def)
  qed simp
  then show ?thesis by (simp add: column_sum_def)
qed

section \<open>The moving objects\<close>

text \<open>
  The reference: \<open>P\<close> are the columns with many changes. An object is a maximal run of such columns,
  from its first column to the column after its last one, except that nothing reaches beyond the
  column \<open>w - 1\<close>; runs of at most five columns do not count.
\<close>

definition run_start :: "(nat \<Rightarrow> bool) \<Rightarrow> nat \<Rightarrow> bool" where
  "run_start P a \<longleftrightarrow> P a \<and> (a = 0 \<or> \<not> P (a - 1))"

definition run_end :: "(nat \<Rightarrow> bool) \<Rightarrow> nat \<Rightarrow> nat \<Rightarrow> nat" where
  "run_end P w a = a + length (takeWhile P [a ..< w - 1])"

definition objects_before :: "(nat \<Rightarrow> bool) \<Rightarrow> nat \<Rightarrow> nat \<Rightarrow> (nat \<times> nat) list" where
  "objects_before P w k =
     filter (\<lambda>(a, b). b - a > OBJECT_SIZE) (map (\<lambda>a. (a, run_end P w a)) (filter (run_start P) [0 ..< k]))"

definition object_rect :: "nat \<Rightarrow> nat \<times> nat \<Rightarrow> rect" where
  "object_rect h = (\<lambda>(a, b). \<lparr>x1 = int a, y1 = 0, x2 = int b, y2 = int h\<rparr>)"

lemma run_end_bounds: "a < w \<Longrightarrow> a \<le> run_end P w a \<and> run_end P w a \<le> w - 1"
  using length_takeWhile_le [of P "[a ..< w - 1]"] by (simp add: run_end_def)

lemma run_end_in: "a \<le> c \<Longrightarrow> c < run_end P w a \<Longrightarrow> P c"
  using nth_mem [of "c - a" "takeWhile P [a ..< w - 1]"] length_takeWhile_le [of P "[a ..< w - 1]"]
    takeWhile_nth [of "c - a" P "[a ..< w - 1]"] set_takeWhileD
  by (fastforce simp: run_end_def)

lemma run_end_stop: "a < w \<Longrightarrow> run_end P w a < w - 1 \<Longrightarrow> \<not> P (run_end P w a)"
  using nth_length_takeWhile [of P "[a ..< w - 1]"] by (simp add: run_end_def)

lemma run_end_eq:
  assumes "a \<le> k" and "k < w" and "k \<le> run_end P w a"
  shows "run_end P w a = k \<longleftrightarrow> \<not> P k \<or> k = w - 1"
  using run_end_bounds [of a w P] run_end_in [of a k P w] run_end_stop [of a w P] assms
  by (metis le_antisym le_neq_implies_less le_trans order.strict_trans1)

lemma start_before: "P c \<Longrightarrow> \<exists>a\<le>c. run_start P a \<and> (\<forall>x. a \<le> x \<and> x \<le> c \<longrightarrow> P x)"
proof (induction c)
  case 0
  then show ?case by (simp add: run_start_def)
next
  case (Suc c)
  show ?case
  proof (cases "P c")
    case True
    then obtain a where "a \<le> c" "run_start P a" "\<forall>x. a \<le> x \<and> x \<le> c \<longrightarrow> P x" using Suc.IH by blast
    then show ?thesis using Suc.prems by (intro exI [of _ a]) (auto simp: le_Suc_eq)
  next
    case False
    then show ?thesis using Suc.prems by (intro exI [of _ "Suc c"]) (auto simp: run_start_def)
  qed
qed

lemma run_end_reaches:
  assumes "a \<le> k" and "k < w" and "\<And>x. a \<le> x \<Longrightarrow> x < k \<Longrightarrow> P x"
  shows "k \<le> run_end P w a"
proof (rule ccontr)
  assume "\<not> k \<le> run_end P w a"
  then have "run_end P w a < k" "a \<le> run_end P w a" using run_end_bounds [of a w P] assms(1,2) by simp_all
  moreover from this have "run_end P w a < w - 1" "a < w" using assms(1,2) by linarith+
  ultimately show False using run_end_stop [of a w P] assms(3) by blast
qed

text \<open>A later start ends every run before it.\<close>

lemma run_end_before_start: "run_start P b \<Longrightarrow> a < b \<Longrightarrow> run_end P w a < b"
  using run_end_in [of a "b - 1" P w] by (force simp: run_start_def not_less)

lemma no_start_inside: "a < c \<Longrightarrow> c \<le> run_end P w a \<Longrightarrow> \<not> run_start P c"
  using run_end_before_start [of P c a w] by linarith

definition scan_ok :: "(nat \<Rightarrow> bool) \<Rightarrow> nat \<Rightarrow> nat \<Rightarrow> nat \<Rightarrow> scan \<Rightarrow> bool" where
  "scan_ok P w h k sc \<longleftrightarrow>
     length (sc_coordinate sc) = COOR_SIZE \<and>
     (let obs = objects_before P w (if flagVer sc then temp sc else k)
      in sc_recNum sc = length obs \<and> take (sc_recNum sc) (sc_coordinate sc) = map (object_rect h) obs \<and>
         6 * length obs \<le> (if flagVer sc then temp sc else k)) \<and>
     (if flagVer sc then temp sc < k \<and> run_start P (temp sc) \<and> k \<le> run_end P w (temp sc)
      else \<forall>a<k. run_start P a \<longrightarrow> run_end P w a < k)"

lemma objects_before_start:
  assumes "run_start P a" and "a \<le> k" and "k \<le> run_end P w a"
  shows "objects_before P w (Suc k) = objects_before P w a @ (if run_end P w a - a > OBJECT_SIZE then [(a, run_end P w a)] else [])"
proof -
  have "[0 ..< Suc k] = [0 ..< a] @ a # [Suc a ..< Suc k]"
    using assms(2) upt_add_eq_append [of 0 a "Suc k - a"] by (simp add: upt_conv_Cons del: upt_Suc)
  moreover have "filter (run_start P) [Suc a ..< Suc k] = []"
    using no_start_inside [of a _ P w] assms(3) by (fastforce simp: filter_empty_conv)
  ultimately show ?thesis using assms(1) by (simp add: objects_before_def del: upt_Suc)
qed

text \<open>One column of the scan; the test against the size of the table never stops an object.\<close>

lemma scan_column_ok:
  assumes "scan_ok P w h k sc" and "k < w" and "w \<le> FRAME_WIDTH" and "P k \<longleftrightarrow> v > VERTICAL_THRESH"
  shows "\<exists>sc'. scan_column w h sc k v = Inr sc' \<and> scan_ok P w h (Suc k) sc'"
proof -
  define sc1 where "sc1 = (if v > VERTICAL_THRESH \<and> \<not> flagVer sc then sc\<lparr>temp := k, flagVer := True\<rparr> else sc)"
  define a where "a = temp sc1"
  have new: "run_start P k \<and> k \<le> run_end P w k" if "P k" "\<not> flagVer sc"
  proof -
    have "\<not> P (k - 1)" if "k \<noteq> 0"
    proof
      assume "P (k - 1)"
      then obtain a where a: "a \<le> k - 1" "run_start P a" "\<forall>x. a \<le> x \<and> x \<le> k - 1 \<longrightarrow> P x" using start_before by blast
      then have "k \<le> run_end P w a" using assms(2) \<open>k \<noteq> 0\<close> by (intro run_end_reaches) auto
      moreover have "run_end P w a < k" using assms(1) a(1,2) \<open>\<not> flagVer sc\<close> \<open>k \<noteq> 0\<close> by (auto simp: scan_ok_def)
      ultimately show False by simp
    qed
    then show ?thesis using that(1) run_end_bounds [OF assms(2)] by (auto simp: run_start_def)
  qed
  show ?thesis
  proof (cases "flagVer sc1")
    case False
    then have f: "\<not> flagVer sc" "\<not> P k" "sc1 = sc" using assms(4) by (auto simp: sc1_def split: if_splits)
    then have ns: "\<not> run_start P k" by (simp add: run_start_def)
    then have "objects_before P w (Suc k) = objects_before P w k" by (simp add: objects_before_def)
    then have "scan_ok P w h (Suc k) sc" using assms(1) f(1) ns by (auto simp: scan_ok_def Let_def less_Suc_eq)
    moreover have "scan_column w h sc k v = Inr sc"
      using f False assms(4) by (simp add: scan_column_def Let_def)
    ultimately show ?thesis by blast
  next
    case True
    have A: "run_start P a" "a \<le> k" "k \<le> run_end P w a" "6 * length (objects_before P w a) \<le> a"
      "sc_recNum sc1 = length (objects_before P w a)" "length (sc_coordinate sc1) = COOR_SIZE"
      "take (sc_recNum sc1) (sc_coordinate sc1) = map (object_rect h) (objects_before P w a)"
      using assms(1,4) True new by (auto simp: sc1_def a_def scan_ok_def Let_def split: if_splits)
    have stop: "(v \<le> VERTICAL_THRESH \<and> k < w - 1 \<or> k = w - 1) \<longleftrightarrow> run_end P w a = k"
      using run_end_eq [OF A(2) assms(2) A(3)] assms(2,4) by auto
    show ?thesis
    proof (cases "run_end P w a = k")
      case False
      then have "scan_column w h sc k v = Inr sc1" using stop True by (auto simp: scan_column_def sc1_def [symmetric] Let_def)
      moreover have "scan_ok P w h (Suc k) sc1" using A True False by (simp add: scan_ok_def a_def Let_def)
      ultimately show ?thesis by blast
    next
      case fin: True
      define obs where "obs = objects_before P w a"
      have room: "length obs < COOR_SIZE - 4" using A(2,4) assms(2,3) by (simp add: obs_def frame_sizes)
      define sc2 where "sc2 = (if k - a > OBJECT_SIZE then sc1\<lparr>sc_coordinate := (sc_coordinate sc1)[length obs := object_rect h (a, k)],
        sc_recNum := Suc (length obs)\<rparr> else sc1)"
      have "scan_column w h sc k v = Inr (sc2\<lparr>flagVer := False\<rparr>)"
        using stop fin True room A(5,6)
        by (auto simp: scan_column_def sc1_def [symmetric] Let_def sc2_def arr_put_def obs_def a_def object_rect_def)
      moreover have "objects_before P w (Suc k) = obs @ (if k - a > OBJECT_SIZE then [(a, k)] else [])"
        using objects_before_start [OF A(1-3)] fin by (simp add: obs_def)
      moreover have "run_end P w b < Suc k" if "b < Suc k" "run_start P b" for b
        using that run_end_before_start [OF A(1), of b w] no_start_inside [of a b P w] fin A(2)
        by (metis less_Suc_eq_le le_less_trans linorder_neqE_nat nat_less_le order_refl)
      ultimately show ?thesis
        using A room unfolding obs_def [symmetric]
        by (intro exI [of _ "sc2\<lparr>flagVer := False\<rparr>"])
          (auto simp: scan_ok_def Let_def sc2_def take_Suc_conv_app_nth take_update_cancel)
    qed
  qed
qed

lemma columns_ok:
  assumes "length d = w * h" and "set d \<subseteq> {CHR 255, NUL}" and "w \<le> FRAME_WIDTH"
    and "P = (\<lambda>j. card {i. i < h \<and> d ! (j + i * w) = CHR 255} > VERTICAL_THRESH)"
    and "scan_ok P w h 0 sc" and "length vs = w" and "k \<le> w"
  shows "\<exists>sc'. fold_res (column_step w h d) (vs, sc) [0 ..< k] =
      Inr (map (\<lambda>j. card {i. i < h \<and> d ! (j + i * w) = CHR 255}) [0 ..< k] @ drop k vs, sc') \<and> scan_ok P w h k sc'"
  using assms(7)
proof (induction k)
  case 0
  then show ?case using assms(5) by simp
next
  case (Suc k)
  let ?v = "\<lambda>j. card {i. i < h \<and> d ! (j + i * w) = CHR 255}"
  obtain sc1 where sc1: "fold_res (column_step w h d) (vs, sc) [0 ..< k] = Inr (map ?v [0 ..< k] @ drop k vs, sc1)" "scan_ok P w h k sc1"
    using Suc by auto
  have k: "k < w" using Suc.prems by simp
  obtain sc2 where sc2: "scan_column w h sc1 k (?v k) = Inr sc2" "scan_ok P w h (Suc k) sc2"
    using scan_column_ok [OF sc1(2) k assms(3)] assms(4) by auto
  have "(map ?v [0 ..< k] @ drop k vs)[k := ?v k] = map ?v [0 ..< Suc k] @ drop (Suc k) vs"
    using k assms(6) by (simp add: list_fill)
  then show ?case
    using sc1(1) sc2 column_sum_ok [OF assms(1) k assms(2)] k assms(6)
    by (intro exI [of _ sc2]) (simp add: fold_res_append column_step_def arr_put_def)
qed

section \<open>A whole comparison\<close>

definition image_ok :: "IMAGE \<Rightarrow> bool" where
  "image_ok ob \<longleftrightarrow> length (lastImage ob) = FRAME_WIDTH * FRAME_HEIGHT \<and> length (diffImage ob) = FRAME_WIDTH * FRAME_HEIGHT \<and>
     length (coordinate ob) = COOR_SIZE \<and> length (cenCoord ob) = COOR_SIZE \<and> frame_num ob \<ge> 0"

lemma global_IMAGE_ok: "image_ok global_IMAGE"
  by (simp add: image_ok_def global_IMAGE_def)

text \<open>A column moves when more than twenty of its pixels differ by more than twenty.\<close>

definition moves :: "byte list \<Rightarrow> byte list \<Rightarrow> nat \<Rightarrow> bool" where
  "moves Y lst c \<longleftrightarrow>
     card {i. i < FRAME_HEIGHT \<and> changed (Y ! (c + i * FRAME_WIDTH)) (lst ! (c + i * FRAME_WIDTH))} > VERTICAL_THRESH"

definition moving_objects :: "byte list \<Rightarrow> IMAGE \<Rightarrow> (nat \<times> nat) list" where
  "moving_objects Y ob = (if frame_num ob = 0 then [] else objects_before (moves Y (lastImage ob)) FRAME_WIDTH FRAME_WIDTH)"

lemma pixel_index: "c < w \<Longrightarrow> i < h \<Longrightarrow> c + i * w < w * (h :: nat)"
proof -
  assume "c < w" "i < h"
  then have "c + i * w < Suc i * w" "Suc i * w \<le> h * w" by (simp, intro mult_right_mono) simp_all
  then show ?thesis by (simp add: mult.commute)
qed

lemma FrameDiff_ok:
  assumes "image_ok ob" and "FRAME_WIDTH * FRAME_HEIGHT \<le> length Y"
  obtains ob' where "FrameDiff Y ob = Inr ob'" "image_ok ob'" "recNum ob' = length (moving_objects Y ob)"
    "take (recNum ob') (coordinate ob') = map (object_rect FRAME_HEIGHT) (moving_objects Y ob)"
    "lastImage ob' = take (FRAME_WIDTH * FRAME_HEIGHT) Y" "cenRecNum ob' = cenRecNum ob" "cenCoord ob' = cenCoord ob"
    "frame_num ob' = frame_num ob"
proof -
  let ?n = "FRAME_WIDTH * FRAME_HEIGHT"
  define ob2 where "ob2 = (if frame_num ob = 0 then ob\<lparr>firstImage := take ?n Y\<rparr> else ob)\<lparr>recNum := 0\<rparr>"
  have r: "mem_read Y 0 ?n = Inr (take ?n Y)" using assms(2) by (simp add: mem_read_def)
  have F: "FrameDiff Y ob = bind_res
      (if frame_num ob2 \<ge> 1 then
         bind_res (diff_loop FRAME_WIDTH FRAME_HEIGHT Y (lastImage ob2) (diffImage ob2)) (\<lambda>d.
         bind_res (fold_res (column_step FRAME_WIDTH FRAME_HEIGHT d)
            (replicate FRAME_WIDTH 0, \<lparr>flagVer = False, temp = 0, sc_recNum = 0, sc_coordinate = coordinate ob2\<rparr>) [0 ..< FRAME_WIDTH])
            (\<lambda>(vs, sc). Inr (ob2\<lparr>diffImage := d, vertical := vs, recNum := sc_recNum sc, coordinate := sc_coordinate sc\<rparr>)))
       else Inr ob2) (\<lambda>ob3. Inr (ob3\<lparr>lastImage := take ?n Y\<rparr>))"
    unfolding FrameDiff_def r bind_res.simps Let_def ob2_def by simp
  have f2: "frame_num ob2 = frame_num ob" "image_ok ob2" "cenRecNum ob2 = cenRecNum ob" "cenCoord ob2 = cenCoord ob" "recNum ob2 = 0"
    "lastImage ob2 = lastImage ob" using assms(1) by (simp_all add: ob2_def image_ok_def)
  show thesis
  proof (cases "frame_num ob = 0")
    case True
    then show thesis
      using that [of "ob2\<lparr>lastImage := take ?n Y\<rparr>"] F f2 assms(2) by (simp add: moving_objects_def image_ok_def)
  next
    case False
    then have n1: "frame_num ob2 \<ge> 1" using f2(1) assms(1) by (simp add: image_ok_def)
    define d where "d = map (\<lambda>k. if changed (Y ! k) (lastImage ob ! k) then CHR 255 else NUL) [0 ..< ?n]"
    have d: "diff_loop FRAME_WIDTH FRAME_HEIGHT Y (lastImage ob2) (diffImage ob2) = Inr d"
      unfolding d_def f2(6) using f2(2,6) assms(2) by (intro diff_loop_ok) (simp_all add: image_ok_def)
    have dl: "length d = ?n" "set d \<subseteq> {CHR 255, NUL}" by (auto simp: d_def)
    have dk: "d ! (c + i * FRAME_WIDTH) = CHR 255 \<longleftrightarrow> changed (Y ! (c + i * FRAME_WIDTH)) (lastImage ob ! (c + i * FRAME_WIDTH))"
      if "c < FRAME_WIDTH" "i < FRAME_HEIGHT" for c i
      using pixel_index [OF that] by (simp add: d_def)
    define P where "P = (\<lambda>j. card {i. i < FRAME_HEIGHT \<and> d ! (j + i * FRAME_WIDTH) = CHR 255} > VERTICAL_THRESH)"
    have PM: "P c = moves Y (lastImage ob) c" if "c < FRAME_WIDTH" for c
    proof -
      have "{i. i < FRAME_HEIGHT \<and> d ! (c + i * FRAME_WIDTH) = CHR 255}
        = {i. i < FRAME_HEIGHT \<and> changed (Y ! (c + i * FRAME_WIDTH)) (lastImage ob ! (c + i * FRAME_WIDTH))}"
        using dk [OF that] by blast
      then show ?thesis by (simp add: P_def moves_def)
    qed
    let ?sc = "\<lparr>flagVer = False, temp = 0, sc_recNum = 0, sc_coordinate = coordinate ob2\<rparr>"
    have "scan_ok P FRAME_WIDTH FRAME_HEIGHT 0 ?sc" using f2(2) by (simp add: scan_ok_def objects_before_def image_ok_def)
    from columns_ok [OF dl order_refl P_def this length_replicate order_refl, of 0] obtain vs sc where
      sc: "fold_res (column_step FRAME_WIDTH FRAME_HEIGHT d) (replicate FRAME_WIDTH 0, ?sc) [0 ..< FRAME_WIDTH] = Inr (vs, sc)"
        "scan_ok P FRAME_WIDTH FRAME_HEIGHT FRAME_WIDTH sc" by blast
    have fl: "\<not> flagVer sc"
    proof
      assume "flagVer sc"
      then have "temp sc < FRAME_WIDTH" "FRAME_WIDTH \<le> run_end P FRAME_WIDTH (temp sc)" using sc(2) by (simp_all add: scan_ok_def)
      then show False using run_end_bounds [of "temp sc" FRAME_WIDTH P] by simp
    qed
    have "objects_before P FRAME_WIDTH FRAME_WIDTH = objects_before (moves Y (lastImage ob)) FRAME_WIDTH FRAME_WIDTH"
    proof -
      have "filter (run_start P) [0 ..< FRAME_WIDTH] = filter (run_start (moves Y (lastImage ob))) [0 ..< FRAME_WIDTH]"
        by (rule filter_cong) (use PM in \<open>auto simp: run_start_def\<close>)
      moreover have "run_end P FRAME_WIDTH a = run_end (moves Y (lastImage ob)) FRAME_WIDTH a" for a
      proof -
        have "takeWhile P [a ..< FRAME_WIDTH - 1] = takeWhile (moves Y (lastImage ob)) [a ..< FRAME_WIDTH - 1]"
          by (rule takeWhile_cong) (use PM in auto)
        then show ?thesis by (simp add: run_end_def)
      qed
      ultimately show ?thesis by (simp add: objects_before_def)
    qed
    then have o: "moving_objects Y ob = objects_before P FRAME_WIDTH FRAME_WIDTH" using False by (simp add: moving_objects_def)
    define ob3 where "ob3 = ob2\<lparr>diffImage := d, vertical := vs, recNum := sc_recNum sc, coordinate := sc_coordinate sc\<rparr>"
    have "FrameDiff Y ob = Inr (ob3\<lparr>lastImage := take ?n Y\<rparr>)"
      unfolding F using n1 by (simp add: d sc(1) ob3_def)
    moreover have "image_ok (ob3\<lparr>lastImage := take ?n Y\<rparr>)"
      using f2(2) sc(2) dl(1) assms(2) by (simp add: image_ok_def ob3_def scan_ok_def)
    moreover have "sc_recNum sc = length (moving_objects Y ob)"
      "take (length (moving_objects Y ob)) (sc_coordinate sc) = map (object_rect FRAME_HEIGHT) (moving_objects Y ob)"
      using sc(2) fl unfolding o by (auto simp: scan_ok_def Let_def)
    ultimately show thesis
      using that [of "ob3\<lparr>lastImage := take ?n Y\<rparr>"] f2(1,3,4) by (simp add: ob3_def)
  qed
qed

text \<open>The objects lie in the picture, and there are at most 42 of them.\<close>

lemma object_bounds:
  "(a, b) \<in> set (moving_objects Y ob) \<Longrightarrow> a + OBJECT_SIZE < b \<and> b \<le> FRAME_WIDTH - 1"
  using run_end_bounds [of _ FRAME_WIDTH] by (force simp: moving_objects_def objects_before_def split: if_splits)

end
