(* ===== verification/Svm.thy ===== *)
theory Svm
  imports C_Float
begin

text \<open>
  The classifier of the image analysis (\<^verbatim>\<open>recbcsrv/PC_CENTRIST/svm.c\<close>): the kernel values of a feature
  vector against the support vectors, the decision values of every pair of classes, and the vote. The
  vote is proved to be the first class with the most wins.
\<close>

section \<open>The model\<close>

definition DIM :: nat where "DIM = 6144"

abbreviation (input) SCALE :: nat where "SCALE \<equiv> 128"
abbreviation (input) m_scale_ratio :: nat where "m_scale_ratio \<equiv> SCALE * SCALE"

type_synonym svm_node = "16 word"

text \<open>
  The support vectors lie one after the other in \<open>x_space\<close>; \<open>SV\<close> are the pointers into it. The counts
  are natural numbers.
\<close>

record 'f svm_model =
  gamma :: 'f
  nr_class :: nat
  total_sv :: nat
  rho :: "'f list"
  label :: "int list"
  nSV :: "nat list"
  x_space :: "svm_node list"
  SV :: "nat list"
  sv_coef :: "'f list list"

text \<open>A cell of allocated memory that may not have been written.\<close>

definition arr_read :: "'a option list \<Rightarrow> nat \<Rightarrow> 'a res" where
  "arr_read a k = bind_res (arr_get a k) (\<lambda>v. case v of None \<Rightarrow> Inl Uninitialised | Some x \<Rightarrow> Inr x)"

section \<open>The code\<close>

definition k_function :: "svm_node list \<Rightarrow> svm_node list \<Rightarrow> nat \<Rightarrow> u32 res" where
  "k_function x sp y =
     fold_res (\<lambda>sum i. bind_res (arr_get x i) (\<lambda>a. bind_res (arr_get sp (y + i)) (\<lambda>b.
       let d = word_of_int (sint a - sint b) in Inr (sum + d * d)))) 0 [0 ..< DIM]"

definition kernel_value :: "'f fp \<Rightarrow> 'f svm_model \<Rightarrow> u32 \<Rightarrow> 'f" where
  "kernel_value F m k = f_exp F (f_div F (f_mul F (f_neg F (gamma m)) (f_int F k)) (f_lit F (of_nat m_scale_ratio)))"

definition kvalue_step :: "'f fp \<Rightarrow> 'f svm_model \<Rightarrow> svm_node list \<Rightarrow> 'f option list \<Rightarrow> nat \<Rightarrow> 'f option list res" where
  "kvalue_step F m x kv i =
     bind_res (arr_get (SV m) i) (\<lambda>y. bind_res (k_function x (x_space m) y) (\<lambda>k.
     arr_put kv i (Some (kernel_value F m k))))"

definition start_step :: "'f svm_model \<Rightarrow> nat option list \<Rightarrow> nat \<Rightarrow> nat option list res" where
  "start_step m st i =
     bind_res (arr_read st (i - 1)) (\<lambda>s. bind_res (arr_get (nSV m) (i - 1)) (\<lambda>n. arr_put st i (Some (s + n))))"

text \<open>\<open>sum += coef[s + k] * kvalue[s + k]\<close> for \<open>k < n\<close>\<close>

definition add_coefs :: "'f fp \<Rightarrow> 'f list \<Rightarrow> 'f option list \<Rightarrow> nat \<Rightarrow> nat \<Rightarrow> 'f \<Rightarrow> 'f res" where
  "add_coefs F coef kv s n acc =
     fold_res (\<lambda>acc k. bind_res (arr_get coef (s + k)) (\<lambda>c. bind_res (arr_read kv (s + k)) (\<lambda>v.
       Inr (f_add F acc (f_mul F c v))))) acc [0 ..< n]"

definition decision_step :: "'f fp \<Rightarrow> 'f svm_model \<Rightarrow> 'f option list \<Rightarrow> nat option list \<Rightarrow> nat \<times> 'f option list \<Rightarrow> nat \<times> nat \<Rightarrow>
    (nat \<times> 'f option list) res" where
  "decision_step F m kv st = (\<lambda>(p, dec) (i, j).
     bind_res (arr_read st i) (\<lambda>si. bind_res (arr_read st j) (\<lambda>sj.
     bind_res (arr_get (nSV m) i) (\<lambda>ci. bind_res (arr_get (nSV m) j) (\<lambda>cj.
     bind_res (arr_get (sv_coef m) (j - 1)) (\<lambda>coef1. bind_res (arr_get (sv_coef m) i) (\<lambda>coef2.
     bind_res (add_coefs F coef1 kv si ci (f_lit F 0)) (\<lambda>s1.
     bind_res (add_coefs F coef2 kv sj cj s1) (\<lambda>s2.
     bind_res (arr_get (rho m) p) (\<lambda>r.
     bind_res (arr_put dec p (Some (f_sub F s2 r))) (\<lambda>dec'. Inr (p + 1, dec'))))))))))))"

definition svm_predict_values :: "'f fp \<Rightarrow> 'f svm_model \<Rightarrow> svm_node list \<Rightarrow> 'f option list \<Rightarrow> 'f option list res" where
  "svm_predict_values F m x dec_values =
     bind_res (fold_res (kvalue_step F m x) (replicate (total_sv m) None) [0 ..< total_sv m]) (\<lambda>kv.
     bind_res (arr_put (replicate (nr_class m) None) 0 (Some 0)) (\<lambda>st0.
     bind_res (fold_res (start_step m) st0 [1 ..< nr_class m]) (\<lambda>st.
     bind_res (fold_res (\<lambda>s i. fold_res (\<lambda>s j. decision_step F m kv st s (i, j)) s [i + 1 ..< nr_class m])
         (0, dec_values) [0 ..< nr_class m]) (\<lambda>(p, dec). Inr dec))))"

definition vote_step :: "'f fp \<Rightarrow> 'f option list \<Rightarrow> nat \<times> nat list \<Rightarrow> nat \<times> nat \<Rightarrow> (nat \<times> nat list) res" where
  "vote_step F dec = (\<lambda>(pos, vote) (i, j).
     bind_res (arr_read dec pos) (\<lambda>d.
     let w = (if f_less F (f_lit F 0) d then i else j)
     in bind_res (arr_get vote w) (\<lambda>v. bind_res (arr_put vote w (v + 1)) (\<lambda>vote'. Inr (pos + 1, vote')))))"

definition best_step :: "nat list \<Rightarrow> nat \<Rightarrow> nat \<Rightarrow> nat res" where
  "best_step vote best i =
     bind_res (arr_get vote i) (\<lambda>a. bind_res (arr_get vote best) (\<lambda>b. Inr (if a > b then i else best)))"

definition svm_predict :: "'f fp \<Rightarrow> 'f svm_model \<Rightarrow> svm_node list \<Rightarrow> int res" where
  "svm_predict F m x =
     (let n = nr_class m
      in bind_res (svm_predict_values F m x (replicate (n * (n - 1) div 2) None)) (\<lambda>dec.
         bind_res (fold_res (\<lambda>s i. fold_res (\<lambda>s j. vote_step F dec s (i, j)) s [i + 1 ..< n]) (0, replicate n 0) [0 ..< n]) (\<lambda>(pos, vote).
         bind_res (fold_res (best_step vote) 0 [1 ..< n]) (\<lambda>best. arr_get (label m) best))))"

section \<open>The reference\<close>

definition class_pairs :: "nat \<Rightarrow> (nat \<times> nat) list" where
  "class_pairs n = concat (map (\<lambda>i. map (Pair i) [i + 1 ..< n]) [0 ..< n])"

text \<open>What the loader has to establish.\<close>

definition model_ok :: "'f svm_model \<Rightarrow> bool" where
  "model_ok m \<longleftrightarrow> 2 \<le> nr_class m \<and> length (rho m) = nr_class m * (nr_class m - 1) div 2 \<and> length (label m) = nr_class m \<and>
     length (nSV m) = nr_class m \<and> sum_list (nSV m) = total_sv m \<and> length (SV m) = total_sv m \<and>
     (\<forall>y\<in>set (SV m). y + DIM \<le> length (x_space m)) \<and>
     length (sv_coef m) = nr_class m - 1 \<and> (\<forall>c\<in>set (sv_coef m). length c = total_sv m)"

definition sq_distance :: "svm_node list \<Rightarrow> svm_node list \<Rightarrow> int" where
  "sq_distance x y = (\<Sum>i<DIM. (sint (x ! i) - sint (y ! i))\<^sup>2)"

definition support_vector :: "'f svm_model \<Rightarrow> nat \<Rightarrow> svm_node list" where
  "support_vector m i = take DIM (drop (SV m ! i) (x_space m))"

definition rbf :: "'f fp \<Rightarrow> 'f svm_model \<Rightarrow> svm_node list \<Rightarrow> nat \<Rightarrow> 'f" where
  "rbf F m x i = kernel_value F m (word_of_int (sq_distance x (support_vector m i)))"

text \<open>The sum over the support vectors of a class, and the decision between classes \<open>i\<close> and \<open>j\<close>, the \<open>p\<close>th pair.\<close>

definition class_start :: "'f svm_model \<Rightarrow> nat \<Rightarrow> nat" where
  "class_start m i = sum_list (take i (nSV m))"

definition class_sum :: "'f fp \<Rightarrow> 'f svm_model \<Rightarrow> svm_node list \<Rightarrow> nat \<Rightarrow> nat \<Rightarrow> 'f \<Rightarrow> 'f" where
  "class_sum F m x row i acc =
     foldl (\<lambda>acc k. f_add F acc (f_mul F (sv_coef m ! row ! k) (rbf F m x k))) acc
       [class_start m i ..< class_start m i + nSV m ! i]"

definition decision :: "'f fp \<Rightarrow> 'f svm_model \<Rightarrow> svm_node list \<Rightarrow> nat \<Rightarrow> nat \<times> nat \<Rightarrow> 'f" where
  "decision F m x p = (\<lambda>(i, j). f_sub F (class_sum F m x i j (class_sum F m x (j - 1) i (f_lit F 0))) (rho m ! p))"

text \<open>The winner of every pair, the wins of a class, and the first class with the most wins.\<close>

definition winners :: "'f fp \<Rightarrow> 'f svm_model \<Rightarrow> svm_node list \<Rightarrow> nat list" where
  "winners F m x =
     map (\<lambda>p. let (i, j) = class_pairs (nr_class m) ! p in if f_less F (f_lit F 0) (decision F m x p (i, j)) then i else j)
       [0 ..< length (class_pairs (nr_class m))]"

definition first_max :: "(nat \<Rightarrow> nat) \<Rightarrow> nat \<Rightarrow> nat" where
  "first_max f n = foldl (\<lambda>best i. if f i > f best then i else best) 0 [1 ..< n]"

lemma first_max_max:
  assumes "0 < n"
  shows "first_max f n < n \<and> (\<forall>i<n. f i \<le> f (first_max f n)) \<and> (\<forall>i<first_max f n. f i < f (first_max f n))"
proof -
  define b where "b k = foldl (\<lambda>best i. if f i > f best then i else best) 0 [1 ..< Suc k]" for k
  have bS: "b (Suc k) = (if f (Suc k) > f (b k) then Suc k else b k)" for k by (simp add: b_def)
  have "b k \<le> k \<and> (\<forall>i\<le>k. f i \<le> f (b k)) \<and> (\<forall>i<b k. f i < f (b k))" for k
  proof (induction k)
    case 0
    then show ?case by (simp add: b_def)
  next
    case (Suc k)
    show ?case
    proof (cases "f (Suc k) > f (b k)")
      case True
      then have "f i < f (Suc k)" if "i \<le> k" for i using Suc that by (meson le_less_trans)
      then show ?thesis using True bS [of k] by (auto simp: le_Suc_eq less_Suc_eq_le intro: less_imp_le)
    next
      case False
      then show ?thesis using Suc bS [of k] by (auto simp: le_Suc_eq)
    qed
  qed
  from this [of "n - 1"] show ?thesis using assms by (auto simp: b_def first_max_def)
qed

section \<open>The code computes the reference\<close>

lemma length_class_pairs: "length (class_pairs n) = n * (n - 1) div 2"
proof -
  have "length (class_pairs n) = (\<Sum>i<n. n - Suc i)"
    by (simp add: class_pairs_def length_concat sum_list_sum_nth atLeast0LessThan)
  also have "\<dots> = (\<Sum>i<n. i)" by (rule sum.nat_diff_reindex)
  also have "\<dots> = n * (n - 1) div 2" using Sum_Ico_nat [of 0 n] by (simp add: atLeast0LessThan)
  finally show ?thesis .
qed

lemma class_pairs_in: "(i, j) \<in> set (class_pairs n) \<Longrightarrow> i < j \<and> j < n"
  by (auto simp: class_pairs_def)

text \<open>Filling an array of fresh memory from the left.\<close>

lemma fill_array:
  assumes "\<And>k. k < n \<Longrightarrow> f (map (\<lambda>i. Some (g i)) [0 ..< k] @ drop k a) k
      = arr_put (map (\<lambda>i. Some (g i)) [0 ..< k] @ drop k a) k (Some (g k))"
    and "n \<le> length a"
  shows "fold_res f a [0 ..< n] = Inr (map (\<lambda>i. Some (g i)) [0 ..< n] @ drop n a)"
  using assms
proof (induction n)
  case (Suc n)
  have "(map (\<lambda>i. Some (g i)) [0 ..< n] @ drop n a)[n := Some (g n)] = map (\<lambda>i. Some (g i)) [0 ..< Suc n] @ drop (Suc n) a"
    using Suc.prems(2) by (simp add: list_fill)
  then show ?case
    using Suc.IH Suc.prems(1) [of n] Suc.prems by (simp add: fold_res_append arr_put_def)
qed simp

lemma k_function_ok:
  assumes "DIM \<le> length x" and "y + DIM \<le> length sp"
  shows "k_function x sp y = Inr (word_of_int (sq_distance x (take DIM (drop y sp))))"
proof -
  have "n \<le> DIM \<Longrightarrow> fold_res (\<lambda>sum i. bind_res (arr_get x i) (\<lambda>a. bind_res (arr_get sp (y + i)) (\<lambda>b.
       let d = word_of_int (sint a - sint b) in Inr (sum + d * d)))) 0 [0 ..< n]
     = Inr (word_of_int (\<Sum>i<n. (sint (x ! i) - sint (take DIM (drop y sp) ! i))\<^sup>2) :: u32)" for n
  proof (induction n)
    case (Suc n)
    then show ?case using assms by (simp add: fold_res_append arr_get_def Let_def power2_eq_square)
  qed simp
  then show ?thesis by (simp add: k_function_def sq_distance_def)
qed

lemma kvalues_ok:
  assumes "model_ok m" and "DIM \<le> length x"
  shows "fold_res (kvalue_step F m x) (replicate (total_sv m) None) [0 ..< total_sv m] = Inr (map (\<lambda>i. Some (rbf F m x i)) [0 ..< total_sv m])"
proof -
  have "kvalue_step F m x a k = arr_put a k (Some (rbf F m x k))" if "k < total_sv m" for a k
  proof -
    have "SV m ! k + DIM \<le> length (x_space m)" "k < length (SV m)" using assms(1) that by (simp_all add: model_ok_def)
    then show ?thesis
      using k_function_ok [OF assms(2)] by (simp add: kvalue_step_def arr_get_def rbf_def support_vector_def)
  qed
  then have "fold_res (kvalue_step F m x) (replicate (total_sv m) None) [0 ..< total_sv m]
    = Inr (map (\<lambda>i. Some (rbf F m x i)) [0 ..< total_sv m] @ drop (total_sv m) (replicate (total_sv m) None))"
    by (intro fill_array) simp_all
  then show ?thesis by simp
qed

lemma class_start_Suc: "i < length (nSV m) \<Longrightarrow> class_start m (Suc i) = class_start m i + nSV m ! i"
  by (simp add: class_start_def take_Suc_conv_app_nth)

lemma starts_ok:
  assumes "model_ok m"
  shows "bind_res (arr_put (replicate (nr_class m) None) 0 (Some 0)) (\<lambda>st0. fold_res (start_step m) st0 [1 ..< nr_class m])
    = Inr (map (\<lambda>i. Some (class_start m i)) [0 ..< nr_class m])"
proof -
  let ?n = "nr_class m"
  have n: "0 < ?n" "length (nSV m) = ?n" using assms by (simp_all add: model_ok_def)
  have "Suc k \<le> ?n \<Longrightarrow> fold_res (start_step m) ((replicate ?n None)[0 := Some 0]) [1 ..< Suc k]
      = Inr (map (\<lambda>i. Some (class_start m i)) [0 ..< Suc k] @ drop (Suc k) (replicate ?n None))" for k
  proof (induction k)
    case 0
    then show ?case using n(1) by (cases ?n) (simp_all add: class_start_def)
  next
    case (Suc k)
    let ?a = "map (\<lambda>i. Some (class_start m i)) [0 ..< Suc k] @ drop (Suc k) (replicate ?n None)"
    have "start_step m ?a (Suc k) = arr_put ?a (Suc k) (Some (class_start m (Suc k)))"
      using Suc.prems n(2) by (simp add: start_step_def arr_read_def arr_get_def class_start_Suc nth_append del: upt_Suc)
    moreover have "?a[Suc k := Some (class_start m (Suc k))] = map (\<lambda>i. Some (class_start m i)) [0 ..< Suc (Suc k)] @ drop (Suc (Suc k)) (replicate ?n None)"
    proof -
      have "?a[Suc k := Some (class_start m (Suc k))]
        = map (\<lambda>i. Some (class_start m i)) [0 ..< Suc k] @ Some (class_start m (Suc k)) # drop (Suc (Suc k)) (replicate ?n None)"
        by (rule list_fill) (use Suc.prems in simp_all)
      then show ?thesis by (simp del: drop_replicate)
    qed
    ultimately show ?case using Suc by (simp add: fold_res_append arr_put_def)
  qed
  from this [of "?n - 1"] show ?thesis using n by (simp add: arr_put_def)
qed

text \<open>The decision values, pair by pair.\<close>

lemma add_coefs_ok:
  assumes "s + n \<le> length coef" and "s + n \<le> l"
  shows "add_coefs F coef (map (\<lambda>i. Some (g i)) [0 ..< l]) s n acc
    = Inr (foldl (\<lambda>acc k. f_add F acc (f_mul F (coef ! k) (g k))) acc [s ..< s + n])"
  using assms
proof (induction n)
  case (Suc n)
  then show ?case by (simp add: add_coefs_def fold_res_append arr_get_def arr_read_def)
qed (simp add: add_coefs_def)

lemma class_end:
  assumes "model_ok m" and "i < nr_class m"
  shows "class_start m i + nSV m ! i \<le> total_sv m"
proof -
  have "class_start m (Suc i) \<le> sum_list (nSV m)"
    unfolding class_start_def by (metis append_take_drop_id le_add1 sum_list_append)
  then show ?thesis using assms class_start_Suc [of i m] by (simp add: model_ok_def)
qed

definition decisions :: "'f fp \<Rightarrow> 'f svm_model \<Rightarrow> svm_node list \<Rightarrow> 'f list" where
  "decisions F m x = map (\<lambda>p. decision F m x p (class_pairs (nr_class m) ! p)) [0 ..< length (class_pairs (nr_class m))]"

lemma decision_step_ok:
  assumes "model_ok m" and "i < j" and "j < nr_class m" and "p < length (rho m)"
  shows "decision_step F m (map (\<lambda>i. Some (rbf F m x i)) [0 ..< total_sv m]) (map (\<lambda>i. Some (class_start m i)) [0 ..< nr_class m]) (p, dec) (i, j)
    = bind_res (arr_put dec p (Some (decision F m x p (i, j)))) (\<lambda>dec'. Inr (p + 1, dec'))"
proof -
  have sz: "length (nSV m) = nr_class m" "length (sv_coef m) = nr_class m - 1" "\<forall>c\<in>set (sv_coef m). length c = total_sv m"
    using assms(1) by (simp_all add: model_ok_def)
  have c: "length (sv_coef m ! (j - 1)) = total_sv m" "length (sv_coef m ! i) = total_sv m" "j - 1 < nr_class m - 1" "i < nr_class m - 1"
    using sz(2,3) assms(2,3) by simp_all
  note add_coefs_ok [of "class_start m i" "nSV m ! i" "sv_coef m ! (j - 1)" "total_sv m" F "rbf F m x"]
    add_coefs_ok [of "class_start m j" "nSV m ! j" "sv_coef m ! i" "total_sv m" F "rbf F m x"]
  moreover have "class_start m i + nSV m ! i \<le> total_sv m" "class_start m j + nSV m ! j \<le> total_sv m"
    using class_end [OF assms(1)] assms(2,3) by simp_all
  ultimately show ?thesis
    using assms(2-4) sz c by (simp add: decision_step_def arr_read_def arr_get_def decision_def class_sum_def)
qed

lemma svm_predict_values_ok:
  assumes "model_ok m" and "DIM \<le> length x"
  shows "svm_predict_values F m x (replicate (nr_class m * (nr_class m - 1) div 2) None) = Inr (map Some (decisions F m x))"
proof -
  let ?ps = "class_pairs (nr_class m)" and ?kv = "map (\<lambda>i. Some (rbf F m x i)) [0 ..< total_sv m]"
    and ?st = "map (\<lambda>i. Some (class_start m i)) [0 ..< nr_class m]"
  let ?a = "replicate (nr_class m * (nr_class m - 1) div 2) None"
  have lr: "length (rho m) = length ?ps" using assms(1) by (simp add: model_ok_def length_class_pairs)
  have "n \<le> length ?ps \<Longrightarrow> fold_res (decision_step F m ?kv ?st) (0, ?a) (take n ?ps)
      = Inr (n, map Some (take n (decisions F m x)) @ drop n ?a)" for n
  proof (induction n)
    case (Suc n)
    obtain i j where ij: "?ps ! n = (i, j)" by (cases "?ps ! n")
    then have b: "i < j" "j < nr_class m" using class_pairs_in [of i j "nr_class m"] Suc.prems nth_mem [of n ?ps] by auto
    let ?d = "map Some (take n (decisions F m x)) @ drop n ?a"
    have n: "n < length (decisions F m x)" "n < length ?a" using Suc.prems by (simp_all add: decisions_def length_class_pairs)
    have "?d[n := Some (decisions F m x ! n)] = map Some (take (Suc n) (decisions F m x)) @ drop (Suc n) ?a"
      using n by (simp add: list_fill take_Suc_conv_app_nth del: drop_replicate)
    moreover have "decisions F m x ! n = decision F m x n (i, j)" using Suc.prems ij by (simp add: decisions_def)
    moreover have "n < length ?d" using n by simp
    ultimately have "decision_step F m ?kv ?st (n, ?d) (?ps ! n)
        = Inr (Suc n, map Some (take (Suc n) (decisions F m x)) @ drop (Suc n) ?a)"
      using decision_step_ok [OF assms(1) b, of n] Suc.prems lr by (simp add: ij arr_put_def del: drop_replicate)
    then show ?case using Suc by (simp add: take_Suc_conv_app_nth fold_res_append)
  qed simp
  from this [of "length ?ps"] have "fold_res (decision_step F m ?kv ?st) (0, ?a) ?ps = Inr (length ?ps, map Some (decisions F m x))"
    by (simp add: decisions_def length_class_pairs)
  then have "fold_res (\<lambda>s i. fold_res (\<lambda>s j. decision_step F m ?kv ?st s (i, j)) s [i + 1 ..< nr_class m]) (0, ?a) [0 ..< nr_class m]
      = Inr (length ?ps, map Some (decisions F m x))"
    by (simp only: fold_res_pairs [where f = "decision_step F m ?kv ?st"] class_pairs_def)
  then show ?thesis
    unfolding svm_predict_values_def kvalues_ok [OF assms] bind_res.simps
    using starts_ok [OF assms(1)] by (auto simp: res_simps split: split_bind_res)
qed

section \<open>The vote\<close>

lemma winner_in: "w \<in> set (winners F m x) \<Longrightarrow> w < nr_class m"
proof -
  assume "w \<in> set (winners F m x)"
  then obtain p where p: "p < length (class_pairs (nr_class m))"
    "w = (let (i, j) = class_pairs (nr_class m) ! p in if f_less F (f_lit F 0) (decision F m x p (i, j)) then i else j)"
    by (auto simp: winners_def)
  obtain i j where ij: "class_pairs (nr_class m) ! p = (i, j)" by (cases "class_pairs (nr_class m) ! p")
  then have "i < j \<and> j < nr_class m" using class_pairs_in [of i j] nth_mem [OF p(1)] by simp
  then show ?thesis using p(2) ij by (simp split: if_splits)
qed

lemma votes_ok:
  "fold_res (vote_step F (map Some (decisions F m x))) (0, replicate (nr_class m) 0) (class_pairs (nr_class m))
    = Inr (length (class_pairs (nr_class m)), map (count_list (winners F m x)) [0 ..< nr_class m])"
proof -
  let ?ps = "class_pairs (nr_class m)"
  have "n \<le> length ?ps \<Longrightarrow> fold_res (vote_step F (map Some (decisions F m x))) (0, replicate (nr_class m) 0) (take n ?ps)
      = Inr (n, map (count_list (take n (winners F m x))) [0 ..< nr_class m])" for n
  proof (induction n)
    case 0
    show ?case by (simp add: map_replicate_const)
  next
    case (Suc n)
    obtain i j where ij: "?ps ! n = (i, j)" by (cases "?ps ! n")
    define w where "w = winners F m x ! n"
    have n: "n < length (winners F m x)" "n < length (decisions F m x)" using Suc.prems by (simp_all add: winners_def decisions_def)
    have w: "w < nr_class m" using winner_in [of w F m x] n(1) by (simp add: w_def)
    have we: "w = (if f_less F (f_lit F 0) (decisions F m x ! n) then i else j)"
      using Suc.prems ij by (simp add: w_def winners_def decisions_def)
    have "(map (count_list (take n (winners F m x))) [0 ..< nr_class m])[w := Suc (count_list (take n (winners F m x)) w)]
      = map (count_list (take (Suc n) (winners F m x))) [0 ..< nr_class m]"
      using n(1) w by (intro nth_equalityI) (auto simp: nth_list_update take_Suc_conv_app_nth w_def [symmetric])
    then have "vote_step F (map Some (decisions F m x)) (n, map (count_list (take n (winners F m x))) [0 ..< nr_class m]) (?ps ! n)
        = Inr (Suc n, map (count_list (take (Suc n) (winners F m x))) [0 ..< nr_class m])"
      using n(2) w by (simp add: vote_step_def ij arr_read_def arr_get_def arr_put_def we [symmetric] Let_def)
    then show ?case using Suc by (simp add: take_Suc_conv_app_nth fold_res_append)
  qed
  from this [of "length ?ps"] show ?thesis by (simp add: winners_def)
qed

lemma best_ok:
  assumes "0 < n"
  shows "fold_res (best_step (map f [0 ..< n])) 0 [1 ..< n] = Inr (first_max f n)"
proof -
  have "fold_res (best_step (map f [0 ..< n])) 0 [1 ..< Suc k] = Inr (first_max f (Suc k)) \<and> first_max f (Suc k) < n"
    if "k < n" for k
    using that
  proof (induction k)
    case 0
    then show ?case by (simp add: first_max_def)
  next
    case (Suc k)
    have F: "first_max f (Suc (Suc k)) = (if f (Suc k) > f (first_max f (Suc k)) then Suc k else first_max f (Suc k))"
      by (simp add: first_max_def)
    have "fold_res (best_step (map f [0 ..< n])) 0 [1 ..< Suc (Suc k)] = best_step (map f [0 ..< n]) (first_max f (Suc k)) (Suc k)"
      using Suc by (simp add: fold_res_append)
    also have "\<dots> = Inr (first_max f (Suc (Suc k)))"
      unfolding F using Suc by (simp add: best_step_def arr_get_def del: upt_Suc)
    finally show ?case using Suc unfolding F by (simp del: upt_Suc)
  qed
  from this [of "n - 1"] show ?thesis using assms by simp
qed

lemma svm_predict_ok:
  assumes "model_ok m" and "DIM \<le> length x"
  shows "svm_predict F m x = Inr (label m ! first_max (count_list (winners F m x)) (nr_class m))"
proof -
  let ?n = "nr_class m"
  have n: "0 < ?n" "length (label m) = ?n" using assms(1) by (simp_all add: model_ok_def)
  have v: "fold_res (\<lambda>s i. fold_res (\<lambda>s j. vote_step F (map Some (decisions F m x)) s (i, j)) s [i + 1 ..< ?n]) (0, replicate ?n 0) [0 ..< ?n]
      = Inr (length (class_pairs ?n), map (count_list (winners F m x)) [0 ..< ?n])"
    using votes_ok [of F m x] by (simp only: fold_res_pairs [where f = "vote_step F (map Some (decisions F m x))"] class_pairs_def)
  show ?thesis
    unfolding svm_predict_def Let_def svm_predict_values_ok [OF assms] bind_res.simps v prod.case best_ok [OF n(1)]
    using first_max_max [OF n(1), of "count_list (winners F m x)"] n(2) by (simp add: arr_get_def)
qed

text \<open>Of two classes the first one wins when the decision value is positive.\<close>

lemma svm_predict_two:
  assumes "model_ok m" and "DIM \<le> length x" and "nr_class m = 2"
  shows "svm_predict F m x = Inr (label m ! (if f_less F (f_lit F 0) (decision F m x 0 (0, 1)) then 0 else 1))"
proof -
  have "class_pairs 2 = [(0, 1)]" by (simp add: class_pairs_def numeral_2_eq_2)
  then have "winners F m x = [if f_less F (f_lit F 0) (decision F m x 0 (0, 1)) then 0 else 1]"
    using assms(3) by (simp add: winners_def)
  then show ?thesis
    using svm_predict_ok [OF assms(1,2), of F] assms(3) by (simp add: first_max_def numeral_2_eq_2)
qed

end
