(* ===== verification/Centrist.thy ===== *)
theory Centrist
  imports Frame_Diff Svm
begin

text \<open>
  The second half of the image analysis (\<^verbatim>\<open>recbcsrv/PC_CENTRIST/CtImage.c\<close>): the edges of the picture, the
  census transform of the edges, and for every window of the picture the histograms of the census values,
  which the classifier judges. The windows it accepts are the detected persons.
\<close>

section \<open>The constants\<close>

definition PHEIGHT :: nat where "PHEIGHT = 72"
definition PWIDTH :: nat where "PWIDTH = 52"
definition BHEIGHT :: nat where "BHEIGHT = 8"
definition BWIDTH :: nat where "BWIDTH = 13"
definition SBNUM_H :: nat where "SBNUM_H = 8"
definition SBNUM_W :: nat where "SBNUM_W = 3"

abbreviation (input) THRESH :: nat where "THRESH \<equiv> 10"

lemmas window_sizes = PHEIGHT_def PWIDTH_def BHEIGHT_def BWIDTH_def SBNUM_H_def SBNUM_W_def

lemma block_sizes: "BHEIGHT = PHEIGHT div 9" "BWIDTH = PWIDTH div 4"
  by (simp_all add: window_sizes)

section \<open>Edges\<close>

text \<open>
  \<open>(uchar)sqrt((float)n)\<close>: the compiler converts to \<open>int\<close> and keeps the low byte, so a magnitude of
  256 or more wraps around.
\<close>

definition edge_value :: "'f fp \<Rightarrow> int \<Rightarrow> int \<Rightarrow> nat" where
  "edge_value F gx gy =
     (let v = unat (f_trunc F (f_sqrt F (f_float F (f_lit F (of_int (gx * gx + gy * gy)))))) mod 256
      in if v > THRESH then v else 0)"

definition sobel_at :: "'f fp \<Rightarrow> byte list \<Rightarrow> nat \<Rightarrow> nat \<Rightarrow> nat \<Rightarrow> nat res" where
  "sobel_at F p w i j =
     bind_res (pixel p ((i - 1) * w + (j - 1))) (\<lambda>a1. bind_res (pixel p ((i - 1) * w + j)) (\<lambda>b1.
     bind_res (pixel p ((i - 1) * w + (j + 1))) (\<lambda>c1.
     bind_res (pixel p (i * w + (j - 1))) (\<lambda>a2. bind_res (pixel p (i * w + (j + 1))) (\<lambda>c2.
     bind_res (pixel p ((i + 1) * w + (j - 1))) (\<lambda>a3. bind_res (pixel p ((i + 1) * w + j)) (\<lambda>b3.
     bind_res (pixel p ((i + 1) * w + (j + 1))) (\<lambda>c3.
     let gx = a1 - c1 + 2 * (a2 - c2) + a3 - c3;
         gy = a1 - a3 + 2 * (b1 - b3) + c1 - c3
     in Inr (edge_value F gx gy)))))))))"

definition ComputeSobel :: "'f fp \<Rightarrow> byte list \<Rightarrow> nat option list \<Rightarrow> nat \<Rightarrow> nat \<Rightarrow> nat option list res" where
  "ComputeSobel F img sobelImage h w =
     fold_res (\<lambda>pr i. fold_res (\<lambda>pr j. bind_res (sobel_at F img w i j) (\<lambda>v. arr_put pr (i * w + j) (Some v)))
       pr [1 ..< w - 1]) sobelImage [1 ..< h - 1]"

section \<open>The census transform\<close>

text \<open>One bit for each neighbour that is at least as bright as the pixel.\<close>

definition census_at :: "nat option list \<Rightarrow> nat \<Rightarrow> nat \<Rightarrow> nat \<Rightarrow> nat res" where
  "census_at p w i j =
     bind_res (arr_read p (i * w + j)) (\<lambda>c.
     bind_res (arr_read p ((i - 1) * w + (j - 1))) (\<lambda>n1. bind_res (arr_read p ((i - 1) * w + j)) (\<lambda>n2.
     bind_res (arr_read p ((i - 1) * w + (j + 1))) (\<lambda>n3. bind_res (arr_read p (i * w + (j - 1))) (\<lambda>n4.
     bind_res (arr_read p (i * w + (j + 1))) (\<lambda>n5. bind_res (arr_read p ((i + 1) * w + (j - 1))) (\<lambda>n6.
     bind_res (arr_read p ((i + 1) * w + j)) (\<lambda>n7. bind_res (arr_read p ((i + 1) * w + (j + 1))) (\<lambda>n8.
     let index = 0;
         index = (if c \<le> n1 then index + 0x80 else index);
         index = (if c \<le> n2 then index + 0x40 else index);
         index = (if c \<le> n3 then index + 0x20 else index);
         index = (if c \<le> n4 then index + 0x10 else index);
         index = (if c \<le> n5 then index + 0x08 else index);
         index = (if c \<le> n6 then index + 0x04 else index);
         index = (if c \<le> n7 then index + 0x02 else index);
         index = (if c \<le> n8 then index + 1 else index)
     in Inr index)))))))))"

definition ComputeCt :: "nat option list \<Rightarrow> nat option list \<Rightarrow> nat \<Rightarrow> nat \<Rightarrow> nat option list res" where
  "ComputeCt img ctImage h w =
     fold_res (\<lambda>ct i. fold_res (\<lambda>ct j. bind_res (census_at img w i j) (\<lambda>v. arr_put ct (i * w + j) (Some v)))
       ct [2 ..< w - 2]) ctImage [2 ..< h - 2]"

section \<open>The feature vector of a window\<close>

text \<open>The four loops of \<^verbatim>\<open>GetFeatureVector\<close>; \<open>feature\<close> has been cleared.\<close>

definition count_cell :: "nat option list \<Rightarrow> nat \<Rightarrow> nat \<Rightarrow> nat \<Rightarrow> nat \<Rightarrow> nat \<Rightarrow> int list \<Rightarrow> nat \<times> nat \<Rightarrow> int list res" where
  "count_cell ct t l w xdiv ydiv wp = (\<lambda>(x, y).
     bind_res (arr_read ct ((t + xdiv * BHEIGHT + x) * w + (l + ydiv * BWIDTH + y))) (\<lambda>c.
     let index = (xdiv * SBNUM_W + ydiv) * 256 + c
     in bind_res (arr_get wp index) (\<lambda>n. arr_put wp index (n + 1))))"

definition histograms :: "nat option list \<Rightarrow> nat \<Rightarrow> nat \<Rightarrow> nat \<Rightarrow> int list res" where
  "histograms ct t l w =
     fold_res (\<lambda>wp xdiv. fold_res (\<lambda>wp ydiv.
       fold_res (\<lambda>wp x. fold_res (\<lambda>wp y. count_cell ct t l w xdiv ydiv wp (x, y)) wp [1 ..< BWIDTH * 2 - 1])
         wp [1 ..< BHEIGHT * 2 - 1])
       wp [0 ..< SBNUM_W]) (replicate DIM 0) [0 ..< SBNUM_H]"

text \<open>The scaling to the range of the training data.\<close>

record feature_range =
  Feature_Min :: "int list"
  Feature_Max :: "int list"

definition scaled :: "'f fp \<Rightarrow> int \<Rightarrow> int \<Rightarrow> int \<Rightarrow> 'f" where
  "scaled F f mn mx =
     (let low = f_lit F (-1); up = f_lit F 1
      in if f = mn then low else if f = mx then up
         else f_add F low (f_div F (f_mul F (f_sub F up low) (f_lit F (of_int (f - mn)))) (f_lit F (of_int (mx - mn)))))"

definition test_node :: "'f fp \<Rightarrow> 'f \<Rightarrow> svm_node" where
  "test_node F s =
     (let tmp = f_trunc F (f_mul F s (f_lit F (of_nat SCALE)))
      in if sint tmp \<ge> 128 then 127 else ucast tmp)"

definition scale_step :: "'f fp \<Rightarrow> feature_range \<Rightarrow> int list \<Rightarrow> svm_node option list \<Rightarrow> nat \<Rightarrow> svm_node option list res" where
  "scale_step F fr feature testSV i =
     bind_res (arr_get feature i) (\<lambda>f. bind_res (arr_get (Feature_Min fr) i) (\<lambda>mn. bind_res (arr_get (Feature_Max fr) i) (\<lambda>mx.
     arr_put testSV i (Some (test_node F (scaled F f mn mx))))))"

definition GetFeatureVector :: "'f fp \<Rightarrow> feature_range \<Rightarrow> nat option list \<Rightarrow> nat \<Rightarrow> nat \<Rightarrow> nat \<Rightarrow> svm_node option list \<Rightarrow> svm_node option list res" where
  "GetFeatureVector F fr ctImage t l w testSV =
     bind_res (histograms ctImage t l w) (\<lambda>feature. fold_res (scale_step F fr feature) testSV [0 ..< DIM])"

section \<open>All windows of a picture\<close>

text \<open>\<open>for (x = a; x <= b; x += s)\<close>\<close>

definition steps :: "nat \<Rightarrow> nat \<Rightarrow> nat \<Rightarrow> nat list" where
  "steps a b s = filter (\<lambda>x. (x - a) mod s = 0) [a ..< Suc b]"

text \<open>\<open>testSV\<close> as an array without unwritten cells, as the classifier reads it.\<close>

definition written :: "'a option list \<Rightarrow> 'a list res" where
  "written a = (if None \<in> set a then Inl Uninitialised else Inr (map the a))"

definition window_step :: "'f fp \<Rightarrow> feature_range \<Rightarrow> 'f svm_model \<Rightarrow> nat option list \<Rightarrow> IMAGE \<times> svm_node option list \<Rightarrow> nat \<times> nat \<Rightarrow>
    (IMAGE \<times> svm_node option list) res" where
  "window_step F fr m ct = (\<lambda>(ob, testSV) (x, y).
     bind_res (GetFeatureVector F fr ct x y FRAME_WIDTH testSV) (\<lambda>testSV'.
     bind_res (written testSV') (\<lambda>node.
     bind_res (svm_predict F m node) (\<lambda>s.
     bind_res
       (if s \<noteq> 0 then
          bind_res (arr_put (cenCoord ob) (cenRecNum ob) \<lparr>x1 = int y, y1 = int x, x2 = int (y + PWIDTH), y2 = int (x + PHEIGHT)\<rparr>)
            (\<lambda>cs. Inr (ob\<lparr>cenCoord := cs, cenRecNum := cenRecNum ob + 1\<rparr>))
        else Inr ob)
       (\<lambda>ob'. Inr (ob', testSV'))))))"

definition FrameCentrist :: "'f fp \<Rightarrow> feature_range \<Rightarrow> 'f svm_model \<Rightarrow> byte list \<Rightarrow> IMAGE \<Rightarrow> IMAGE res" where
  "FrameCentrist F fr m nBuffer ob =
     (let n = FRAME_WIDTH * FRAME_HEIGHT; ob0 = ob\<lparr>cenRecNum := 0\<rparr>
      in bind_res (ComputeSobel F nBuffer (replicate n None) FRAME_HEIGHT FRAME_WIDTH) (\<lambda>sobelImage.
         bind_res (ComputeCt sobelImage (replicate n None) FRAME_HEIGHT FRAME_WIDTH) (\<lambda>ctImage.
         bind_res
           (fold_res (\<lambda>s x. fold_res (\<lambda>s y. window_step F fr m ctImage s (x, y)) s
                (steps 2 (FRAME_WIDTH - PWIDTH - 2) (FRAME_WIDTH div 12)))
             (ob0, replicate DIM None) (steps 2 (FRAME_HEIGHT - PHEIGHT - 2) (FRAME_HEIGHT div 12)))
           (\<lambda>(ob', testSV). Inr ob'))))"

section \<open>Filling a rectangle of an array\<close>

text \<open>A loop that writes one cell for every element, with values that do not depend on the array.\<close>

lemma put_all:
  assumes "distinct ks" and "inj_on ix (set ks)" and "\<forall>k\<in>set ks. ix k < length a"
  shows "\<exists>a'. fold_res (\<lambda>a k. arr_put a (ix k) (g k)) a ks = Inr a' \<and> length a' = length a \<and> (\<forall>k\<in>set ks. a' ! ix k = g k)"
  using assms
proof (induction ks rule: rev_induct)
  case (snoc k ks)
  then obtain a' where a': "fold_res (\<lambda>a k. arr_put a (ix k) (g k)) a ks = Inr a'" "length a' = length a" "\<forall>k\<in>set ks. a' ! ix k = g k"
    by (auto simp: inj_on_def)
  have "ix k \<noteq> ix j" if "j \<in> set ks" for j using snoc.prems(1,2) that by (auto simp: inj_on_def)
  then show ?case
    using a' snoc.prems by (intro exI [of _ "a'[ix k := g k]"]) (auto simp: fold_res_append arr_put_def)
qed simp

text \<open>The interior of a picture, row by row.\<close>

definition cells :: "'a list \<Rightarrow> 'b list \<Rightarrow> ('a \<times> 'b) list" where
  "cells us js = concat (map (\<lambda>i. map (Pair i) js) us)"

lemma set_cells [simp]: "set (cells us js) = set us \<times> set js"
  by (auto simp: cells_def)

lemma distinct_cells: "distinct us \<Longrightarrow> distinct js \<Longrightarrow> distinct (cells us js)"
  by (induction us) (auto simp: cells_def distinct_map inj_on_def)

lemma length_cells [simp]: "length (cells us js) = length us * length js"
  by (induction us) (simp_all add: cells_def)

lemma fill_rectangle:
  assumes "j1 \<le> w" and "i1 \<le> h" and "length a = w * h"
    and "\<And>i j. i0 \<le> i \<Longrightarrow> i < i1 \<Longrightarrow> j0 \<le> j \<Longrightarrow> j < j1 \<Longrightarrow> f i j = Inr (v i j)"
  shows "\<exists>a'. fold_res (\<lambda>a i. fold_res (\<lambda>a j. bind_res (f i j) (\<lambda>v. arr_put a (i * w + j) (Some v))) a [j0 ..< j1]) a [i0 ..< i1] = Inr a' \<and>
    length a' = w * h \<and> (\<forall>i j. i0 \<le> i \<and> i < i1 \<and> j0 \<le> j \<and> j < j1 \<longrightarrow> a' ! (i * w + j) = Some (v i j))"
proof -
  let ?ks = "cells [i0 ..< i1] [j0 ..< j1]" and ?ix = "\<lambda>(i, j). i * w + j"
  have inj: "inj_on ?ix (set ?ks)"
  proof (rule inj_onI, clarsimp)
    fix i j i' j' assume "j < j1" "j' < j1" "i * w + j = i' * w + j'"
    then have "(i * w + j) div w = (i' * w + j') div w" "j < w" "j' < w" "(i * w + j) mod w = (i' * w + j') mod w" using assms(1) by simp_all
    then show "i = i' \<and> j = j'" by simp
  qed
  have bnd: "\<forall>k\<in>set ?ks. ?ix k < length a"
  proof clarsimp
    fix i j assume "i < i1" "j < j1"
    then have "j + i * w < w * h" using assms(1,2) by (intro pixel_index) simp_all
    then show "i * w + j < length a" using assms(3) by (simp add: add.commute)
  qed
  have "fold_res (\<lambda>a i. fold_res (\<lambda>a j. bind_res (f i j) (\<lambda>v. arr_put a (i * w + j) (Some v))) a [j0 ..< j1]) a [i0 ..< i1]
    = fold_res (\<lambda>a (i, j). bind_res (f i j) (\<lambda>v. arr_put a (i * w + j) (Some v))) a ?ks"
    unfolding cells_def fold_res_pairs [symmetric] by simp
  also have "\<dots> = fold_res (\<lambda>a k. arr_put a (?ix k) (Some (v (fst k) (snd k)))) a ?ks"
    by (rule fold_res_cong) (use assms(4) in auto)
  finally show ?thesis
    using put_all [OF distinct_cells inj bnd, of "\<lambda>k. Some (v (fst k) (snd k))"] assms(3) by auto
qed

section \<open>What the code computes\<close>

text \<open>The reference: the edges of the picture, and the census transform of a picture as a number of eight bits.\<close>

definition edge :: "'f fp \<Rightarrow> (nat \<Rightarrow> nat \<Rightarrow> int) \<Rightarrow> nat \<Rightarrow> nat \<Rightarrow> nat" where
  "edge F P i j =
     edge_value F
       (P (i - 1) (j - 1) - P (i - 1) (j + 1) + 2 * (P i (j - 1) - P i (j + 1)) + P (i + 1) (j - 1) - P (i + 1) (j + 1))
       (P (i - 1) (j - 1) - P (i + 1) (j - 1) + 2 * (P (i - 1) j - P (i + 1) j) + P (i - 1) (j + 1) - P (i + 1) (j + 1))"

definition neighbours :: "(nat \<Rightarrow> nat \<Rightarrow> 'a) \<Rightarrow> nat \<Rightarrow> nat \<Rightarrow> 'a list" where
  "neighbours P i j = [P (i - 1) (j - 1), P (i - 1) j, P (i - 1) (j + 1), P i (j - 1), P i (j + 1),
     P (i + 1) (j - 1), P (i + 1) j, P (i + 1) (j + 1)]"

definition census :: "(nat \<Rightarrow> nat \<Rightarrow> 'a :: linorder) \<Rightarrow> nat \<Rightarrow> nat \<Rightarrow> nat" where
  "census P i j = foldl (\<lambda>n q. 2 * n + of_bool (P i j \<le> q)) 0 (neighbours P i j)"

lemma bits_less: "foldl (\<lambda>n q. 2 * n + of_bool (R q)) n qs < (n + 1) * (2 :: nat) ^ length qs"
proof (induction qs arbitrary: n)
  case (Cons q qs)
  have "foldl (\<lambda>n q. 2 * n + of_bool (R q)) n (q # qs) < (2 * n + of_bool (R q) + 1) * 2 ^ length qs"
    using Cons [of "2 * n + of_bool (R q)"] by simp
  also have "\<dots> \<le> (2 * n + 2) * 2 ^ length qs" by (rule mult_right_mono) simp_all
  finally show ?case by (simp add: algebra_simps)
qed simp

lemma census_less: "census P i j < 256"
  using bits_less [of "\<lambda>q. P i j \<le> q" 0 "neighbours P i j"] by (simp add: census_def neighbours_def)

text \<open>The census transform only depends on the order of the brightness values.\<close>

lemma census_strict_mono:
  assumes "strict_mono f"
  shows "census (\<lambda>i j. f (P i j)) i j = census P i j"
  by (simp add: census_def neighbours_def strict_mono_less_eq [OF assms])

definition brightness :: "byte list \<Rightarrow> nat \<Rightarrow> nat \<Rightarrow> nat \<Rightarrow> int" where
  "brightness img w i j = of_char (img ! (i * w + j))"

lemma index_bound: "i < h \<Longrightarrow> j < w \<Longrightarrow> i * w + j < w * (h :: nat)"
  using pixel_index [of j w i h] by (simp add: add.commute)

lemma pixel_ok: "w * h \<le> length p \<Longrightarrow> i < h \<Longrightarrow> j < w \<Longrightarrow> pixel p (i * w + j) = Inr (brightness p w i j)"
  using index_bound [of i h j w] by (simp add: pixel_def brightness_def)

lemma sobel_at_ok:
  assumes "w * h \<le> length p" and "1 \<le> i" and "i < h - 1" and "1 \<le> j" and "j < w - 1"
  shows "sobel_at F p w i j = Inr (edge F (brightness p w) i j)"
proof -
  have b: "i - 1 < h" "i < h" "i + 1 < h" "j - 1 < w" "j < w" "j + 1 < w" using assms(2-5) by simp_all
  note P = pixel_ok [OF assms(1)]
  show ?thesis
    unfolding sobel_at_def P [OF b(1,4)] P [OF b(1,5)] P [OF b(1,6)] P [OF b(2,4)] P [OF b(2,6)] P [OF b(3,4)] P [OF b(3,5)] P [OF b(3,6)]
      bind_res.simps Let_def edge_def by simp
qed

lemma ComputeSobel_ok:
  assumes "w * h \<le> length p" and "length a = w * h"
  shows "\<exists>s. ComputeSobel F p a h w = Inr s \<and> length s = w * h \<and>
    (\<forall>i j. 1 \<le> i \<and> i < h - 1 \<and> 1 \<le> j \<and> j < w - 1 \<longrightarrow> s ! (i * w + j) = Some (edge F (brightness p w) i j))"
  unfolding ComputeSobel_def using sobel_at_ok [OF assms(1)] assms(2) by (intro fill_rectangle) auto

lemma census_at_ok:
  assumes "\<And>i j. r \<le> i \<Longrightarrow> i < h - r \<Longrightarrow> r \<le> j \<Longrightarrow> j < w - r \<Longrightarrow> s ! (i * w + j) = Some (P i j)" and "length s = w * h"
    and "r + 1 \<le> i" and "i < h - (r + 1)" and "r + 1 \<le> j" and "j < w - (r + 1)"
  shows "census_at s w i j = Inr (census P i j)"
proof -
  have b: "r \<le> i - 1" "i - 1 < h - r" "r \<le> i" "i < h - r" "r \<le> i + 1" "i + 1 < h - r"
    "r \<le> j - 1" "j - 1 < w - r" "r \<le> j" "j < w - r" "r \<le> j + 1" "j + 1 < w - r" using assms(3-6) by simp_all
  have R: "arr_read s (a * w + c) = Inr (P a c)" if "r \<le> a" "a < h - r" "r \<le> c" "c < w - r" for a c
    using assms(1) [OF that] index_bound [of a h c w] that assms(2) by (simp add: arr_read_def arr_get_def)
  have I: "(if q then n + k else n) = n + k * of_bool q" for q and n k :: nat by simp
  show ?thesis
    unfolding census_at_def R [OF b(3,4,9,10)] R [OF b(1,2,7,8)] R [OF b(1,2,9,10)] R [OF b(1,2,11,12)] R [OF b(3,4,7,8)] R [OF b(3,4,11,12)]
      R [OF b(5,6,7,8)] R [OF b(5,6,9,10)] R [OF b(5,6,11,12)] bind_res.simps Let_def I census_def neighbours_def foldl.simps
    by (simp add: algebra_simps)
qed

lemma ComputeCt_ok:
  assumes "\<And>i j. 1 \<le> i \<Longrightarrow> i < h - 1 \<Longrightarrow> 1 \<le> j \<Longrightarrow> j < w - 1 \<Longrightarrow> s ! (i * w + j) = Some (P i j)"
    and "length s = w * h" and "length a = w * h"
  shows "\<exists>c. ComputeCt s a h w = Inr c \<and> length c = w * h \<and>
    (\<forall>i j. 2 \<le> i \<and> i < h - 2 \<and> 2 \<le> j \<and> j < w - 2 \<longrightarrow> c ! (i * w + j) = Some (census P i j))"
  unfolding ComputeCt_def
proof (rule fill_rectangle)
  show "w - 2 \<le> w" "h - 2 \<le> h" "length a = w * h" using assms(3) by simp_all
  fix i j assume ij: "2 \<le> i" "i < h - 2" "2 \<le> j" "j < w - 2"
  show "census_at s w i j = Inr (census P i j)"
    by (rule census_at_ok [where r = 1 and h = h, OF assms(1)]) (use assms(2) ij in simp_all)
qed

section \<open>The histograms\<close>

text \<open>The reference: how often a value occurs in the interior of block \<open>b\<close> of the window at \<open>(t, l)\<close>.\<close>

definition block_cells :: "(nat \<times> nat) set" where
  "block_cells = {1 ..< BHEIGHT * 2 - 1} \<times> {1 ..< BWIDTH * 2 - 1}"

definition block_count :: "(nat \<Rightarrow> nat \<Rightarrow> nat) \<Rightarrow> nat \<Rightarrow> nat \<Rightarrow> nat \<Rightarrow> nat \<Rightarrow> nat" where
  "block_count C t l b v =
     card {(x, y) \<in> block_cells. C (t + b div SBNUM_W * BHEIGHT + x) (l + b mod SBNUM_W * BWIDTH + y) = v}"

definition window_feature :: "(nat \<Rightarrow> nat \<Rightarrow> nat) \<Rightarrow> nat \<Rightarrow> nat \<Rightarrow> nat \<Rightarrow> int" where
  "window_feature C t l i = int (block_count C t l (i div 256) (i mod 256))"

lemma count_loop:
  assumes "\<forall>k\<in>set ks. ix k < length wp"
  shows "fold_res (\<lambda>wp k. bind_res (arr_get wp (ix k)) (\<lambda>n. arr_put wp (ix k) (n + 1))) wp ks
    = Inr (map (\<lambda>i. wp ! i + int (count_list (map ix ks) i)) [0 ..< length wp])"
  using assms
proof (induction ks arbitrary: wp)
  case Nil
  then show ?case by (simp add: map_nth)
next
  case (Cons k ks)
  have "map (\<lambda>i. wp[ix k := wp ! ix k + 1] ! i + int (count_list (map ix ks) i)) [0 ..< length wp]
    = map (\<lambda>i. wp ! i + int (count_list (map ix (k # ks)) i)) [0 ..< length wp]"
    using Cons.prems by (auto simp: nth_list_update)
  then show ?case using Cons.IH [of "wp[ix k := wp ! ix k + 1]"] Cons.prems by (simp add: arr_get_def arr_put_def)
qed

lemma count_list_card: "distinct ks \<Longrightarrow> count_list (map ix ks) i = card {k \<in> set ks. ix k = i}"
proof (induction ks)
  case (Cons k ks)
  have "{k' \<in> set (k # ks). ix k' = i} = (if ix k = i then insert k {k \<in> set ks. ix k = i} else {k \<in> set ks. ix k = i})" by auto
  then show ?case using Cons by auto
qed simp

definition loop_cells :: "((nat \<times> nat) \<times> (nat \<times> nat)) list" where
  "loop_cells = cells (cells [0 ..< SBNUM_H] [0 ..< SBNUM_W]) (cells [1 ..< BHEIGHT * 2 - 1] [1 ..< BWIDTH * 2 - 1])"

definition cell_index :: "(nat \<Rightarrow> nat \<Rightarrow> nat) \<Rightarrow> nat \<Rightarrow> nat \<Rightarrow> (nat \<times> nat) \<times> (nat \<times> nat) \<Rightarrow> nat" where
  "cell_index C t l = (\<lambda>((xdiv, ydiv), (x, y)).
     (xdiv * SBNUM_W + ydiv) * 256 + C (t + xdiv * BHEIGHT + x) (l + ydiv * BWIDTH + y))"

lemma cell_index_count:
  assumes "\<And>i j. C i j < 256" and "i < DIM"
  shows "count_list (map (cell_index C t l) loop_cells) i = block_count C t l (i div 256) (i mod 256)"
proof -
  let ?b = "i div 256" and ?v = "i mod 256"
  have b: "?b < SBNUM_H * SBNUM_W" using assms(2) by (simp add: DIM_def window_sizes)
  have bb: "?b div SBNUM_W < SBNUM_H" "?b mod SBNUM_W < SBNUM_W" using b by (simp_all add: less_mult_imp_div_less window_sizes)
  let ?S = "{k \<in> set loop_cells. cell_index C t l k = i}"
  have eq: "cell_index C t l ((xd, yd), (x, y)) = i \<longleftrightarrow> xd = ?b div SBNUM_W \<and> yd = ?b mod SBNUM_W \<and>
      C (t + ?b div SBNUM_W * BHEIGHT + x) (l + ?b mod SBNUM_W * BWIDTH + y) = ?v" if "yd < SBNUM_W" for xd yd x y
  proof -
    have "(q * 256 + c = i) = (q = ?b \<and> c = ?v)" if "c < 256" for q c using that by auto
    then have "cell_index C t l ((xd, yd), (x, y)) = i \<longleftrightarrow> xd * SBNUM_W + yd = ?b \<and> C (t + xd * BHEIGHT + x) (l + yd * BWIDTH + y) = ?v"
      using assms(1) by (simp only: cell_index_def prod.case)
    moreover have "(xd * SBNUM_W + yd = ?b) = (xd = ?b div SBNUM_W \<and> yd = ?b mod SBNUM_W)"
    proof
      assume "xd * SBNUM_W + yd = ?b"
      from this [symmetric] show "xd = ?b div SBNUM_W \<and> yd = ?b mod SBNUM_W" using that by simp
    qed simp
    ultimately show ?thesis by metis
  qed
  have S: "fst k = (?b div SBNUM_W, ?b mod SBNUM_W) \<and> snd k \<in> block_cells \<and>
      C (t + ?b div SBNUM_W * BHEIGHT + fst (snd k)) (l + ?b mod SBNUM_W * BWIDTH + snd (snd k)) = ?v" if k: "k \<in> ?S" for k
  proof -
    obtain xd yd x y where e: "k = ((xd, yd), (x, y))" by (metis surj_pair)
    then have "yd < SBNUM_W" "(x, y) \<in> block_cells" "cell_index C t l ((xd, yd), (x, y)) = i"
      using k by (simp_all add: loop_cells_def block_cells_def)
    then show ?thesis using eq [of yd xd x y] e by simp
  qed
  have "bij_betw snd ?S {(x, y) \<in> block_cells. C (t + ?b div SBNUM_W * BHEIGHT + x) (l + ?b mod SBNUM_W * BWIDTH + y) = ?v}"
  proof (rule bij_betw_byWitness [where f' = "Pair (?b div SBNUM_W, ?b mod SBNUM_W)"])
    show "\<forall>k\<in>?S. (\<lambda>c. ((?b div SBNUM_W, ?b mod SBNUM_W), c)) (snd k) = k"
    proof
      fix k assume "k \<in> ?S"
      from S [OF this] show "((?b div SBNUM_W, ?b mod SBNUM_W), snd k) = k" by (simp add: prod_eq_iff)
    qed
    show "snd ` ?S \<subseteq> {(x, y) \<in> block_cells. C (t + ?b div SBNUM_W * BHEIGHT + x) (l + ?b mod SBNUM_W * BWIDTH + y) = ?v}"
    proof (rule image_subsetI)
      fix k assume "k \<in> ?S"
      from S [OF this] show "snd k \<in> {(x, y) \<in> block_cells. C (t + ?b div SBNUM_W * BHEIGHT + x) (l + ?b mod SBNUM_W * BWIDTH + y) = ?v}"
        by (simp add: case_prod_unfold)
    qed
    show "Pair (?b div SBNUM_W, ?b mod SBNUM_W) ` {(x, y) \<in> block_cells. C (t + ?b div SBNUM_W * BHEIGHT + x) (l + ?b mod SBNUM_W * BWIDTH + y) = ?v} \<subseteq> ?S"
      using eq [OF bb(2)] bb by (auto simp: loop_cells_def block_cells_def)
  qed simp
  then have "card ?S = block_count C t l ?b ?v" unfolding block_count_def by (rule bij_betw_same_card)
  moreover have "distinct loop_cells" by (simp add: loop_cells_def distinct_cells)
  ultimately show ?thesis by (simp add: count_list_card)
qed

lemma fold_res_cells:
  "fold_res (\<lambda>s i. fold_res (\<lambda>s j. f s (i, j)) s js) s us = fold_res f s (cells us js)"
  unfolding cells_def by (rule fold_res_pairs)

text \<open>The picture of census values that \<open>ComputeCt\<close> has left.\<close>

definition census_image :: "nat \<Rightarrow> nat \<Rightarrow> nat option list \<Rightarrow> (nat \<Rightarrow> nat \<Rightarrow> nat) \<Rightarrow> bool" where
  "census_image w h ct C \<longleftrightarrow> length ct = w * h \<and> (\<forall>i j. C i j < 256) \<and>
     (\<forall>i j. 2 \<le> i \<and> i < h - 2 \<and> 2 \<le> j \<and> j < w - 2 \<longrightarrow> ct ! (i * w + j) = Some (C i j))"

lemma histograms_ok:
  assumes "census_image w h ct C" and "1 \<le> t" and "t + PHEIGHT < h" and "1 \<le> l" and "l + PWIDTH < w"
  shows "histograms ct t l w = Inr (map (window_feature C t l) [0 ..< DIM])"
proof -
  have C: "C i j < 256" for i j using assms(1) by (simp add: census_image_def)
  have in_DIM: "cell_index C t l k < DIM" if "k \<in> set loop_cells" for k
  proof -
    obtain xd yd x y where k: "k = ((xd, yd), (x, y))" by (metis surj_pair)
    then have "xd \<le> 7" "yd \<le> 2" using that by (simp_all add: loop_cells_def window_sizes)
    then show ?thesis using C [of "t + xd * BHEIGHT + x" "l + yd * BWIDTH + y"] by (simp add: k cell_index_def DIM_def window_sizes)
  qed
  have step: "count_cell ct t l w xd yd wp (x, y)
      = bind_res (arr_get wp (cell_index C t l ((xd, yd), (x, y)))) (\<lambda>n. arr_put wp (cell_index C t l ((xd, yd), (x, y))) (n + 1))"
    if "((xd, yd), (x, y)) \<in> set loop_cells" for xd yd x y wp
  proof -
    have b: "xd \<le> 7" "yd \<le> 2" "1 \<le> x" "x \<le> 14" "1 \<le> y" "y \<le> 24" using that by (auto simp: loop_cells_def window_sizes)
    define i j where "i = t + xd * BHEIGHT + x" and "j = l + yd * BWIDTH + y"
    have ij: "2 \<le> i" "i < h - 2" "2 \<le> j" "j < w - 2" using b assms(2-5) by (simp_all add: i_def j_def window_sizes)
    then have "i * w + j < w * h" by (intro index_bound) simp_all
    then have "arr_read ct (i * w + j) = Inr (C i j)"
      using ij assms(1) by (simp add: census_image_def arr_read_def arr_get_def)
    then show ?thesis by (simp add: count_cell_def i_def j_def cell_index_def Let_def)
  qed
  have "histograms ct t l w = fold_res (\<lambda>wp (b, c). count_cell ct t l w (fst b) (snd b) wp c) (replicate DIM 0) loop_cells"
  proof -
    let ?f = "\<lambda>wp (b, c). count_cell ct t l w (fst b) (snd b) wp c"
    let ?cs = "cells [1 ..< BHEIGHT * 2 - 1] [1 ..< BWIDTH * 2 - 1]"
    have "fold_res ?f (replicate DIM 0) loop_cells
      = fold_res (\<lambda>wp b. fold_res (\<lambda>wp c. ?f wp (b, c)) wp ?cs) (replicate DIM 0) (cells [0 ..< SBNUM_H] [0 ..< SBNUM_W])"
      unfolding loop_cells_def by (rule fold_res_cells [symmetric])
    also have "\<dots> = histograms ct t l w"
      unfolding histograms_def fold_res_cells [symmetric] by simp
    finally show ?thesis by simp
  qed
  also have "\<dots> = fold_res (\<lambda>wp k. bind_res (arr_get wp (cell_index C t l k)) (\<lambda>n. arr_put wp (cell_index C t l k) (n + 1))) (replicate DIM 0) loop_cells"
  proof (rule fold_res_cong)
    fix wp and k :: "(nat \<times> nat) \<times> nat \<times> nat" assume k: "k \<in> set loop_cells"
    obtain xd yd x y where "k = ((xd, yd), (x, y))" by (metis surj_pair)
    then show "(case k of (b, c) \<Rightarrow> count_cell ct t l w (fst b) (snd b) wp c)
      = bind_res (arr_get wp (cell_index C t l k)) (\<lambda>n. arr_put wp (cell_index C t l k) (n + 1))" using step k by simp
  qed
  also have "\<dots> = Inr (map (\<lambda>i. replicate DIM 0 ! i + int (count_list (map (cell_index C t l) loop_cells) i)) [0 ..< DIM])"
    using count_loop [of loop_cells "cell_index C t l" "replicate DIM 0"] in_DIM by simp
  also have "map (\<lambda>i. replicate DIM 0 ! i + int (count_list (map (cell_index C t l) loop_cells) i)) [0 ..< DIM] = map (window_feature C t l) [0 ..< DIM]"
    using cell_index_count [of C _ t l] C by (simp add: window_feature_def)
  finally show ?thesis .
qed

text \<open>Every block contributes the number of its inner cells.\<close>

lemma block_total:
  assumes "\<And>i j. C i j < 256"
  shows "(\<Sum>v<256. block_count C t l b v) = (BHEIGHT * 2 - 2) * (BWIDTH * 2 - 2)"
proof -
  let ?c = "\<lambda>(x, y). C (t + b div SBNUM_W * BHEIGHT + x) (l + b mod SBNUM_W * BWIDTH + y)"
  have "block_count C t l b v = card {k \<in> block_cells. ?c k = v}" for v
    unfolding block_count_def by (rule arg_cong [where f = card]) auto
  then have "(\<Sum>v<256. block_count C t l b v) = (\<Sum>v\<in>{..<256}. card {k \<in> block_cells. ?c k = v})" by simp
  also have "\<dots> = card (\<Union>v\<in>{..<256}. {k \<in> block_cells. ?c k = v})"
    by (rule card_UN_disjoint [symmetric]) (auto simp: block_cells_def)
  also have "(\<Union>v\<in>{..<256}. {k \<in> block_cells. ?c k = v}) = block_cells" using assms by auto
  also have "card block_cells = (BHEIGHT * 2 - 2) * (BWIDTH * 2 - 2)" by (simp add: block_cells_def window_sizes)
  finally show ?thesis .
qed

section \<open>The windows\<close>

definition window_nodes :: "'f fp \<Rightarrow> feature_range \<Rightarrow> (nat \<Rightarrow> nat \<Rightarrow> nat) \<Rightarrow> nat \<Rightarrow> nat \<Rightarrow> svm_node list" where
  "window_nodes F fr C t l =
     map (\<lambda>i. test_node F (scaled F (window_feature C t l i) (Feature_Min fr ! i) (Feature_Max fr ! i))) [0 ..< DIM]"

definition range_ok :: "feature_range \<Rightarrow> bool" where
  "range_ok fr \<longleftrightarrow> length (Feature_Min fr) = DIM \<and> length (Feature_Max fr) = DIM"

lemma GetFeatureVector_ok:
  assumes "census_image w h ct C" and "1 \<le> t" and "t + PHEIGHT < h" and "1 \<le> l" and "l + PWIDTH < w"
    and "range_ok fr" and "length testSV = DIM"
  shows "GetFeatureVector F fr ct t l w testSV = Inr (map Some (window_nodes F fr C t l))"
proof -
  let ?g = "\<lambda>i. test_node F (scaled F (window_feature C t l i) (Feature_Min fr ! i) (Feature_Max fr ! i))"
  have "fold_res (scale_step F fr (map (window_feature C t l) [0 ..< DIM])) testSV [0 ..< DIM]
      = Inr (map (\<lambda>i. Some (?g i)) [0 ..< DIM] @ drop DIM testSV)"
    by (rule fill_array) (use assms(6,7) in \<open>simp_all add: scale_step_def arr_get_def range_ok_def\<close>)
  then show ?thesis
    using assms(7) by (simp add: GetFeatureVector_def histograms_ok [OF assms(1-5)] window_nodes_def)
qed

definition windows :: "(nat \<times> nat) list" where
  "windows = cells (steps 2 (FRAME_HEIGHT - PHEIGHT - 2) (FRAME_HEIGHT div 12)) (steps 2 (FRAME_WIDTH - PWIDTH - 2) (FRAME_WIDTH div 12))"

lemma steps_value: "steps 2 70 12 = [2, 14, 26, 38, 50, 62]" "steps 2 202 21 = [2, 23, 44, 65, 86, 107, 128, 149, 170, 191]"
  by code_simp+

lemma windows_value: "windows = cells [2, 14, 26, 38, 50, 62] [2, 23, 44, 65, 86, 107, 128, 149, 170, 191]"
  using steps_value by (simp add: windows_def frame_sizes window_sizes)

text \<open>The windows that the classifier takes for a person.\<close>

definition accepts :: "'f fp \<Rightarrow> feature_range \<Rightarrow> 'f svm_model \<Rightarrow> (nat \<Rightarrow> nat \<Rightarrow> nat) \<Rightarrow> nat \<times> nat \<Rightarrow> bool" where
  "accepts F fr m C = (\<lambda>(x, y).
     label m ! first_max (count_list (winners F m (window_nodes F fr C x y))) (nr_class m) \<noteq> 0)"

definition window_rect :: "nat \<times> nat \<Rightarrow> rect" where
  "window_rect = (\<lambda>(x, y). \<lparr>x1 = int y, y1 = int x, x2 = int (y + PWIDTH), y2 = int (x + PHEIGHT)\<rparr>)"

definition found :: "'f fp \<Rightarrow> feature_range \<Rightarrow> 'f svm_model \<Rightarrow> (nat \<Rightarrow> nat \<Rightarrow> nat) \<Rightarrow> (nat \<times> nat) list" where
  "found F fr m C = filter (accepts F fr m C) windows"

lemma window_step_ok:
  assumes "census_image FRAME_WIDTH FRAME_HEIGHT ct C" and "range_ok fr" and "model_ok m" and "(x, y) \<in> set windows"
    and "length testSV = DIM" and "cenRecNum ob < length (cenCoord ob)"
  shows "\<exists>ts. length ts = DIM \<and> window_step F fr m ct (ob, testSV) (x, y) = Inr
    (if accepts F fr m C (x, y) then ob\<lparr>cenCoord := (cenCoord ob)[cenRecNum ob := window_rect (x, y)], cenRecNum := cenRecNum ob + 1\<rparr> else ob, ts)"
proof -
  have b: "1 \<le> x" "x + PHEIGHT < FRAME_HEIGHT" "1 \<le> y" "y + PWIDTH < FRAME_WIDTH"
    using assms(4) by (auto simp: windows_value frame_sizes window_sizes)
  note G = GetFeatureVector_ok [OF assms(1) b assms(2,5), of F]
  have w: "written (map Some (window_nodes F fr C x y)) = Inr (window_nodes F fr C x y)" by (auto simp: written_def comp_def)
  have l: "length (window_nodes F fr C x y) = DIM" by (simp add: window_nodes_def)
  show ?thesis
    using l svm_predict_ok [OF assms(3), of "window_nodes F fr C x y" F] assms(6)
    by (intro exI [of _ "map Some (window_nodes F fr C x y)"])
      (simp add: window_step_def G w accepts_def window_rect_def arr_put_def)
qed

lemma windows_ok:
  assumes "census_image FRAME_WIDTH FRAME_HEIGHT ct C" and "range_ok fr" and "model_ok m"
    and "set ws \<subseteq> set windows" and "length ts = DIM" and "cenRecNum ob + length ws \<le> length (cenCoord ob)"
  shows "\<exists>ob' ts'. fold_res (window_step F fr m ct) (ob, ts) ws = Inr (ob', ts') \<and>
    cenRecNum ob' = cenRecNum ob + length (filter (accepts F fr m C) ws) \<and> length (cenCoord ob') = length (cenCoord ob) \<and>
    take (cenRecNum ob') (cenCoord ob') = take (cenRecNum ob) (cenCoord ob) @ map window_rect (filter (accepts F fr m C) ws) \<and>
    ob' = ob\<lparr>cenCoord := cenCoord ob', cenRecNum := cenRecNum ob'\<rparr>"
  using assms(4-6)
proof (induction ws arbitrary: ob ts)
  case Nil
  then show ?case by simp
next
  case (Cons k ws)
  obtain x y where k: "k = (x, y)" by (cases k)
  define ob1 where "ob1 = (if accepts F fr m C (x, y)
    then ob\<lparr>cenCoord := (cenCoord ob)[cenRecNum ob := window_rect (x, y)], cenRecNum := cenRecNum ob + 1\<rparr> else ob)"
  obtain ts1 where s: "window_step F fr m ct (ob, ts) k = Inr (ob1, ts1)" "length ts1 = DIM"
    using window_step_ok [OF assms(1-3) _ Cons.prems(2), of x y ob F] Cons.prems(1,3) unfolding k ob1_def by auto
  have n: "cenRecNum ob1 + length ws \<le> length (cenCoord ob1)" "length (cenCoord ob1) = length (cenCoord ob)"
    "take (cenRecNum ob1) (cenCoord ob1) = take (cenRecNum ob) (cenCoord ob) @ map window_rect (filter (accepts F fr m C) [k])"
    "cenRecNum ob1 = cenRecNum ob + length (filter (accepts F fr m C) [k])"
    "ob1 = ob\<lparr>cenCoord := cenCoord ob1, cenRecNum := cenRecNum ob1\<rparr>"
    using Cons.prems(3) by (simp_all add: ob1_def k take_Suc_conv_app_nth)
  obtain ob' ts' where o: "fold_res (window_step F fr m ct) (ob1, ts1) ws = Inr (ob', ts')"
    "cenRecNum ob' = cenRecNum ob1 + length (filter (accepts F fr m C) ws)" "length (cenCoord ob') = length (cenCoord ob1)"
    "take (cenRecNum ob') (cenCoord ob') = take (cenRecNum ob1) (cenCoord ob1) @ map window_rect (filter (accepts F fr m C) ws)"
    "ob' = ob1\<lparr>cenCoord := cenCoord ob', cenRecNum := cenRecNum ob'\<rparr>"
    using Cons.IH [OF _ s(2) n(1)] Cons.prems(1) by auto
  have "ob' = ob\<lparr>cenCoord := cenCoord ob', cenRecNum := cenRecNum ob'\<rparr>" using o(5) n(5) by (cases ob; cases ob1; cases ob') simp
  then show ?case using s(1) o(1-4) n(2-4) by (intro exI [of _ ob'] exI [of _ ts']) simp
qed

text \<open>
  The whole function: it never reads an unwritten cell of the edge or census picture, never leaves an
  array, and finds the accepted windows in the order of the loops.
\<close>

definition picture_census :: "'f fp \<Rightarrow> byte list \<Rightarrow> nat \<Rightarrow> nat \<Rightarrow> nat" where
  "picture_census F Y = census (edge F (brightness Y FRAME_WIDTH))"

lemma FrameCentrist_ok:
  assumes "FRAME_WIDTH * FRAME_HEIGHT \<le> length Y" and "range_ok fr" and "model_ok m" and "length (cenCoord ob) = COOR_SIZE"
  obtains cs where "FrameCentrist F fr m Y ob = Inr (ob\<lparr>cenCoord := cs, cenRecNum := length (found F fr m (picture_census F Y))\<rparr>)"
    "length cs = COOR_SIZE" "take (length (found F fr m (picture_census F Y))) cs = map window_rect (found F fr m (picture_census F Y))"
proof -
  let ?n = "FRAME_WIDTH * FRAME_HEIGHT" and ?C = "picture_census F Y"
  obtain s where s: "ComputeSobel F Y (replicate ?n None) FRAME_HEIGHT FRAME_WIDTH = Inr s" "length s = ?n"
    "\<forall>i j. 1 \<le> i \<and> i < FRAME_HEIGHT - 1 \<and> 1 \<le> j \<and> j < FRAME_WIDTH - 1 \<longrightarrow> s ! (i * FRAME_WIDTH + j) = Some (edge F (brightness Y FRAME_WIDTH) i j)"
    using ComputeSobel_ok [OF assms(1), of "replicate ?n None" F] by auto
  obtain c where c: "ComputeCt s (replicate ?n None) FRAME_HEIGHT FRAME_WIDTH = Inr c" "length c = ?n"
    "\<forall>i j. 2 \<le> i \<and> i < FRAME_HEIGHT - 2 \<and> 2 \<le> j \<and> j < FRAME_WIDTH - 2 \<longrightarrow> c ! (i * FRAME_WIDTH + j) = Some (?C i j)"
    using ComputeCt_ok [of FRAME_HEIGHT FRAME_WIDTH s "edge F (brightness Y FRAME_WIDTH)" "replicate ?n None"] s(2,3)
    unfolding picture_census_def by auto
  have ci: "census_image FRAME_WIDTH FRAME_HEIGHT c ?C"
    using c(2,3) census_less by (auto simp: census_image_def picture_census_def)
  have lw: "length windows = 60" by (simp add: windows_value)
  obtain ob' ts' where o: "fold_res (window_step F fr m c) (ob\<lparr>cenRecNum := 0\<rparr>, replicate DIM None) windows = Inr (ob', ts')"
    "cenRecNum ob' = length (found F fr m ?C)" "length (cenCoord ob') = COOR_SIZE"
    "take (cenRecNum ob') (cenCoord ob') = map window_rect (found F fr m ?C)"
    "ob' = (ob\<lparr>cenRecNum := 0\<rparr>)\<lparr>cenCoord := cenCoord ob', cenRecNum := cenRecNum ob'\<rparr>"
    using windows_ok [OF ci assms(2,3) order_refl, of "replicate DIM None" "ob\<lparr>cenRecNum := 0\<rparr>" F] lw assms(4)
    by (auto simp: found_def COOR_SIZE_def)
  have "FrameCentrist F fr m Y ob = Inr ob'"
    using o(1) unfolding FrameCentrist_def Let_def s(1) bind_res.simps c(1) windows_def fold_res_cells [symmetric] by simp
  moreover have "ob' = ob\<lparr>cenCoord := cenCoord ob', cenRecNum := length (found F fr m ?C)\<rparr>" using o(2,5) by (cases ob; cases ob') simp
  ultimately show thesis using that [of "cenCoord ob'"] o(2-4) by simp
qed

lemma found_window: "k \<in> set (found F fr m C) \<Longrightarrow> 2 \<le> fst k \<and> fst k \<le> 62 \<and> 2 \<le> snd k \<and> snd k \<le> 191"
  by (auto simp: found_def windows_value)

lemma length_found: "length (found F fr m C) \<le> 60"
  using length_filter_le [of "accepts F fr m C" windows] by (simp add: found_def windows_value)

end
