(* ===== verification/Detect_Frame.thy ===== *)
theory Detect_Frame
  imports Centrist "HOL-Library.Signed_Division"
begin

text \<open>
  The result of the analysis of a picture (\<^verbatim>\<open>recbcsrv/PC_CENTRIST/DetectFrame.c\<close>): the detected persons
  and the moving objects are combined into one box and its range. The box is proved to be the average of
  the persons near the movement, and the range the hull of their columns.
\<close>

section \<open>DetectFrame\<close>

abbreviation (input) DETECT_GAP :: int where "DETECT_GAP \<equiv> 34"
abbreviation (input) INT_MAX :: int where "INT_MAX \<equiv> 2147483647"
abbreviation (input) INT_MIN :: int where "INT_MIN \<equiv> -2147483648"

text \<open>What both loops do with a person: the sums of the coordinates, and the range of the columns.\<close>

definition add_item :: "rect \<times> rect \<Rightarrow> rect \<Rightarrow> rect \<times> rect" where
  "add_item = (\<lambda>(result, maxRect) item.
     (\<lparr>x1 = x1 result + x1 item, y1 = y1 result + y1 item, x2 = x2 result + x2 item, y2 = y2 result + y2 item\<rparr>,
      maxRect\<lparr>x1 := if x1 maxRect > x1 item then x1 item else x1 maxRect,
              x2 := if x2 maxRect < x2 item then x2 item else x2 maxRect\<rparr>))"

definition divide_rect :: "rect \<Rightarrow> int \<Rightarrow> rect" where
  "divide_rect result n =
     \<lparr>x1 = x1 result sdiv n, y1 = y1 result sdiv n, x2 = x2 result sdiv n, y2 = y2 result sdiv n\<rparr>"

definition start_rects :: "rect \<times> rect" where
  "start_rects = (zero_rect, \<lparr>x1 = INT_MAX, y1 = 0, x2 = INT_MIN, y2 = int FRAME_HEIGHT\<rparr>)"

text \<open>Nothing moved: all persons. The results are \<open>result_flag\<close>, \<open>result\<close> and \<open>maxRect\<close>.\<close>

definition all_persons :: "IMAGE \<Rightarrow> (int \<times> rect \<times> rect) res" where
  "all_persons ob =
     bind_res (fold_res (\<lambda>s i. bind_res (arr_get (cenCoord ob) i) (\<lambda>item. Inr (add_item s item))) start_rects [0 ..< cenRecNum ob])
       (\<lambda>(result, maxRect). Inr (1, divide_rect result (int (cenRecNum ob)), maxRect))"

text \<open>Something moved: the persons near it.\<close>

definition near_step :: "IMAGE \<Rightarrow> int \<Rightarrow> int \<Rightarrow> (rect \<times> rect) \<times> nat \<Rightarrow> nat \<Rightarrow> ((rect \<times> rect) \<times> nat) res" where
  "near_step ob left right = (\<lambda>(s, num) i.
     bind_res (arr_get (cenCoord ob) i) (\<lambda>item.
     Inr (if x1 item > left - DETECT_GAP \<and> x2 item < right + DETECT_GAP then (add_item s item, num + 1) else (s, num))))"

definition near_persons :: "IMAGE \<Rightarrow> (int \<times> rect \<times> rect) res" where
  "near_persons ob =
     bind_res (arr_get (coordinate ob) 0) (\<lambda>c0. bind_res (arr_get (coordinate ob) (recNum ob - 1)) (\<lambda>cn.
     bind_res (fold_res (near_step ob (x1 c0) (x2 cn)) (start_rects, 0) [0 ..< cenRecNum ob]) (\<lambda>((result, maxRect), num).
     Inr (if num > 0 then (3, divide_rect result (int num), maxRect)
          else (2, \<lparr>x1 = x1 c0, y1 = 0, x2 = x2 cn, y2 = int FRAME_HEIGHT\<rparr>,
             maxRect\<lparr>x1 := if x1 maxRect > x1 c0 then x1 c0 else x1 maxRect,
                     x2 := if x2 maxRect < x2 cn then x2 cn else x2 maxRect\<rparr>)))))"

text \<open>
  The nine \<open>int\<close>s are written over the start of the picture, which is not used again. The global object
  is the state.
\<close>

definition DetectFrame :: "'f fp \<Rightarrow> feature_range \<Rightarrow> 'f svm_model \<Rightarrow> byte list \<Rightarrow> u32 \<Rightarrow> IMAGE \<Rightarrow> (IMAGE \<times> u32 list) res" where
  "DetectFrame F fr m buffer num ob =
     bind_res (FrameCentrist F fr m buffer (if num = 0 then InitImage ob else ob)) (\<lambda>ob1.
     bind_res (FrameDiff buffer ob1) (\<lambda>ob2.
     let ob3 = ob2\<lparr>frame_num := frame_num ob2 + 1\<rparr>
     in bind_res
          (if recNum ob3 = 0 \<and> cenRecNum ob3 \<noteq> 0 then all_persons ob3
           else if recNum ob3 \<noteq> 0 then near_persons ob3
           else Inr (0, fst start_rects, snd start_rects))
          (\<lambda>(result_flag, result, maxRect).
             Inr (ob3, map word_of_int
               [if x2 result \<noteq> 0 \<and> y2 result \<noteq> 0 then result_flag else 0,
                y1 result, x1 result, y2 result, x2 result, y1 maxRect, x1 maxRect, y2 maxRect, x2 maxRect]))))"

section \<open>The box and the range\<close>

text \<open>
  The reference: \<open>ps\<close> are the persons (the rows and columns of their windows), \<open>mv\<close> the moving objects
  (first and last columns).
\<close>

definition near :: "(nat \<times> nat) list \<Rightarrow> nat \<times> nat \<Rightarrow> bool" where
  "near mv = (\<lambda>(x, y). int y > int (fst (hd mv)) - DETECT_GAP \<and> int (y + PWIDTH) < int (snd (List.last mv)) + DETECT_GAP)"

definition relevant :: "(nat \<times> nat) list \<Rightarrow> (nat \<times> nat) list \<Rightarrow> (nat \<times> nat) list" where
  "relevant ps mv = (if mv = [] then ps else filter (near mv) ps)"

definition mean :: "nat list \<Rightarrow> nat" where
  "mean ns = sum_list ns div length ns"

definition verdict :: "(nat \<times> nat) list \<Rightarrow> (nat \<times> nat) list \<Rightarrow> int list" where
  "verdict ps mv =
     (let qs = relevant ps mv; rows = map fst qs; columns = map snd qs
      in if qs \<noteq> [] then
           [if mv = [] then 1 else 3,
            int (mean rows), int (mean columns), int (mean rows + PHEIGHT), int (mean columns + PWIDTH),
            0, int (Min (set columns)), int FRAME_HEIGHT, int (Max (set columns) + PWIDTH)]
         else if mv \<noteq> [] then
           [2, 0, int (fst (hd mv)), int FRAME_HEIGHT, int (snd (List.last mv)),
            0, int (fst (hd mv)), int FRAME_HEIGHT, int (snd (List.last mv))]
         else [0, 0, 0, 0, 0, 0, INT_MAX, int FRAME_HEIGHT, INT_MIN])"

lemma add_item_window:
  "add_item (\<lparr>x1 = a, y1 = b, x2 = c, y2 = d\<rparr>, \<lparr>x1 = int mn, y1 = e, x2 = int (mx + PWIDTH), y2 = f\<rparr>) (window_rect (x, y)) =
    (\<lparr>x1 = a + int y, y1 = b + int x, x2 = c + int (y + PWIDTH), y2 = d + int (x + PHEIGHT)\<rparr>,
     \<lparr>x1 = int (min y mn), y1 = e, x2 = int (max y mx + PWIDTH), y2 = f\<rparr>)"
  by (simp add: add_item_def window_rect_def min_def max_def)

lemma fold_items:
  assumes "ps \<noteq> []" and "\<forall>k\<in>set ps. snd k < 1000"
  shows "foldl add_item start_rects (map window_rect ps) =
    (\<lparr>x1 = int (sum_list (map snd ps)), y1 = int (sum_list (map fst ps)),
      x2 = int (sum_list (map snd ps) + length ps * PWIDTH), y2 = int (sum_list (map fst ps) + length ps * PHEIGHT)\<rparr>,
     \<lparr>x1 = int (Min (set (map snd ps))), y1 = 0, x2 = int (Max (set (map snd ps)) + PWIDTH), y2 = int FRAME_HEIGHT\<rparr>)"
  using assms
proof (induction ps rule: rev_nonempty_induct)
  case (single k)
  then show ?case
    by (cases k) (simp add: start_rects_def add_item_def window_rect_def zero_rect_def window_sizes)
next
  case (snoc k ps)
  let ?c = "set (map snd ps)"
  have mm: "Min (set (map snd (ps @ [k]))) = min (snd k) (Min ?c)" "Max (set (map snd (ps @ [k]))) = max (snd k) (Max ?c)"
    using snoc.hyps by (simp_all del: Min_le_iff)
  have ih: "foldl add_item start_rects (map window_rect ps) =
    (\<lparr>x1 = int (sum_list (map snd ps)), y1 = int (sum_list (map fst ps)),
      x2 = int (sum_list (map snd ps) + length ps * PWIDTH), y2 = int (sum_list (map fst ps) + length ps * PHEIGHT)\<rparr>,
     \<lparr>x1 = int (Min ?c), y1 = 0, x2 = int (Max ?c + PWIDTH), y2 = int FRAME_HEIGHT\<rparr>)"
    using snoc.IH snoc.prems by auto
  have "foldl add_item start_rects (map window_rect (ps @ [k])) = add_item (foldl add_item start_rects (map window_rect ps)) (window_rect k)"
    by simp
  then show ?case unfolding mm unfolding ih by (cases k) (simp only: add_item_window, simp)
qed

lemma sdiv_int: "int a sdiv int b = int (a div b)"
  by (cases "b = 0"; cases "a = 0") (simp_all add: signed_divide_int_def sgn_if zdiv_int)

lemma mean_shift: "ns \<noteq> [] \<Longrightarrow> int (sum_list ns + length ns * k) sdiv int (length ns) = int (mean ns + k)"
proof -
  assume "ns \<noteq> []"
  then have "(sum_list ns + length ns * k) div length ns = mean ns + k" by (simp add: mean_def)
  then show ?thesis by (simp add: sdiv_int del: of_nat_add of_nat_mult)
qed

lemma divide_items:
  assumes "ps \<noteq> []"
  shows "divide_rect \<lparr>x1 = int (sum_list (map snd ps)), y1 = int (sum_list (map fst ps)),
      x2 = int (sum_list (map snd ps) + length ps * PWIDTH), y2 = int (sum_list (map fst ps) + length ps * PHEIGHT)\<rparr> (int (length ps))
    = \<lparr>x1 = int (mean (map snd ps)), y1 = int (mean (map fst ps)),
       x2 = int (mean (map snd ps) + PWIDTH), y2 = int (mean (map fst ps) + PHEIGHT)\<rparr>"
  using mean_shift [of "map snd ps" 0] mean_shift [of "map fst ps" 0] mean_shift [of "map snd ps" PWIDTH]
    mean_shift [of "map fst ps" PHEIGHT] assms
  by (simp add: divide_rect_def)

section \<open>What DetectFrame computes\<close>

lemma fold_res_elements:
  "n \<le> length a \<Longrightarrow> fold_res (\<lambda>s i. bind_res (arr_get a i) (\<lambda>x. Inr (f s x))) s [0 ..< n] = Inr (foldl f s (take n a))"
  by (induction n) (simp_all add: fold_res_append arr_get_def take_Suc_conv_app_nth)

lemma all_persons_ok:
  assumes "take (cenRecNum ob) (cenCoord ob) = map window_rect ps" and "cenRecNum ob = length ps"
    and "length ps \<le> length (cenCoord ob)" and "ps \<noteq> []" and "\<forall>k\<in>set ps. snd k < 1000"
  shows "all_persons ob = Inr (1,
    \<lparr>x1 = int (mean (map snd ps)), y1 = int (mean (map fst ps)), x2 = int (mean (map snd ps) + PWIDTH), y2 = int (mean (map fst ps) + PHEIGHT)\<rparr>,
    \<lparr>x1 = int (Min (set (map snd ps))), y1 = 0, x2 = int (Max (set (map snd ps)) + PWIDTH), y2 = int FRAME_HEIGHT\<rparr>)"
  using fold_res_elements [of "cenRecNum ob" "cenCoord ob" add_item start_rects] assms fold_items [OF assms(4,5)] divide_items [OF assms(4)]
  by (simp add: all_persons_def del: set_map)

lemma near_loop:
  assumes "take n cs = map window_rect ps" and "n \<le> length cs"
    and "\<forall>k\<in>set ps. N k \<longleftrightarrow> left - DETECT_GAP < int (snd k) \<and> int (snd k + PWIDTH) < right + DETECT_GAP"
    and "cenCoord ob = cs"
  shows "fold_res (near_step ob left right) (s, c) [0 ..< n] =
    Inr (foldl add_item s (map window_rect (filter N ps)), c + length (filter N ps))"
proof -
  let ?f = "\<lambda>(s, num) item. if left - DETECT_GAP < x1 item \<and> x2 item < right + DETECT_GAP then (add_item s item, num + 1) else (s, num)"
  have "near_step ob left right = (\<lambda>s i. bind_res (arr_get cs i) (\<lambda>x. Inr (?f s x)))"
    using assms(4) by (auto simp: near_step_def fun_eq_iff)
  then have "fold_res (near_step ob left right) (s, c) [0 ..< n] = Inr (foldl ?f (s, c) (map window_rect ps))"
    using fold_res_elements [OF assms(2), of ?f "(s, c)"] assms(1) by simp
  also have "foldl ?f (s, c) (map window_rect ps) = (foldl add_item s (map window_rect (filter N ps)), c + length (filter N ps))"
    using assms(3)
  proof (induction ps arbitrary: s c)
    case (Cons k ps)
    then show ?case by (cases k) (simp add: window_rect_def)
  qed simp
  finally show ?thesis .
qed

lemma near_persons_ok:
  assumes "take (cenRecNum ob) (cenCoord ob) = map window_rect ps" and "cenRecNum ob = length ps"
    and "length ps \<le> length (cenCoord ob)" and "\<forall>k\<in>set ps. snd k < 1000"
    and "take (recNum ob) (coordinate ob) = map (object_rect FRAME_HEIGHT) mv" and "recNum ob = length mv" and "mv \<noteq> []"
    and "length mv \<le> length (coordinate ob)" and "\<forall>k\<in>set mv. fst k < 1000 \<and> snd k < 1000"
  shows "near_persons ob = Inr
    (if filter (near mv) ps \<noteq> [] then
       (let qs = filter (near mv) ps in (3,
         \<lparr>x1 = int (mean (map snd qs)), y1 = int (mean (map fst qs)), x2 = int (mean (map snd qs) + PWIDTH), y2 = int (mean (map fst qs) + PHEIGHT)\<rparr>,
         \<lparr>x1 = int (Min (set (map snd qs))), y1 = 0, x2 = int (Max (set (map snd qs)) + PWIDTH), y2 = int FRAME_HEIGHT\<rparr>))
     else (2, \<lparr>x1 = int (fst (hd mv)), y1 = 0, x2 = int (snd (List.last mv)), y2 = int FRAME_HEIGHT\<rparr>,
       \<lparr>x1 = int (fst (hd mv)), y1 = 0, x2 = int (snd (List.last mv)), y2 = int FRAME_HEIGHT\<rparr>))"
proof -
  have c: "coordinate ob ! i = object_rect FRAME_HEIGHT (mv ! i)" "i < length (coordinate ob)" if "i < length mv" for i
    using arg_cong [OF assms(5), of "\<lambda>cs. cs ! i"] assms(6,8) that by simp_all
  have l0: "0 < length mv" "length mv - 1 < length mv" using assms(7) by simp_all
  have g: "arr_get (coordinate ob) 0 = Inr (object_rect FRAME_HEIGHT (hd mv))"
    "arr_get (coordinate ob) (recNum ob - 1) = Inr (object_rect FRAME_HEIGHT (List.last mv))"
    using c [OF l0(1)] c [OF l0(2)] assms(6,7) by (simp_all add: arr_get_def hd_conv_nth last_conv_nth)
  have lt: "fst (hd mv) < 1000" "snd (List.last mv) < 1000" using assms(7,9) by simp_all
  have x: "x1 (object_rect FRAME_HEIGHT k) = int (fst k)" "x2 (object_rect FRAME_HEIGHT k) = int (snd k)" for k
    by (simp_all add: object_rect_def split: prod.split)
  have N: "\<forall>k\<in>set ps. near mv k \<longleftrightarrow> int (fst (hd mv)) - DETECT_GAP < int (snd k) \<and> int (snd k + PWIDTH) < int (snd (List.last mv)) + DETECT_GAP"
    by (auto simp: near_def)
  define qs where "qs = filter (near mv) ps"
  have L: "fold_res (near_step ob (int (fst (hd mv))) (int (snd (List.last mv)))) (start_rects, 0) [0 ..< cenRecNum ob]
      = Inr (foldl add_item start_rects (map window_rect qs), length qs)"
    using near_loop [OF assms(1) _ N refl, of start_rects 0] assms(2,3) unfolding qs_def by simp
  have NP: "near_persons ob = (case (foldl add_item start_rects (map window_rect qs), length qs) of ((result, maxRect), n) \<Rightarrow>
      Inr (if n > 0 then (3, divide_rect result (int n), maxRect)
          else (2, \<lparr>x1 = int (fst (hd mv)), y1 = 0, x2 = int (snd (List.last mv)), y2 = int FRAME_HEIGHT\<rparr>,
             maxRect\<lparr>x1 := if x1 maxRect > int (fst (hd mv)) then int (fst (hd mv)) else x1 maxRect,
                     x2 := if x2 maxRect < int (snd (List.last mv)) then int (snd (List.last mv)) else x2 maxRect\<rparr>)))"
    unfolding near_persons_def g bind_res.simps x L by (simp only: prod.case split_beta)
  show ?thesis
  proof (cases "qs = []")
    case True
    then show ?thesis unfolding NP using lt by (simp add: start_rects_def flip: qs_def)
  next
    case False
    have "\<forall>k\<in>set qs. snd k < 1000" using assms(4) by (simp add: qs_def)
    then show ?thesis
      unfolding NP using False fold_items [OF False] divide_items [OF False] by (simp add: Let_def del: set_map flip: qs_def)
  qed
qed

lemma found_bounds: "\<forall>k\<in>set (found F fr m C). fst k \<le> 62 \<and> snd k \<le> 191 \<and> 2 \<le> snd k"
  using found_window by blast

lemma DetectFrame_ok:
  fixes ob num
  defines "ob0 \<equiv> (if num = 0 then InitImage ob else ob)"
  assumes "image_ok ob" and "FRAME_WIDTH * FRAME_HEIGHT \<le> length Y" and "range_ok fr" and "model_ok m"
  shows "\<exists>ob'. DetectFrame F fr m Y num ob
      = Inr (ob', map word_of_int (verdict (found F fr m (picture_census F Y)) (moving_objects Y ob0))) \<and>
    image_ok ob' \<and> frame_num ob' = frame_num ob0 + 1 \<and> lastImage ob' = take (FRAME_WIDTH * FRAME_HEIGHT) Y"
proof -
  define ps where "ps = found F fr m (picture_census F Y)"
  have i0: "image_ok ob0" using assms(2) by (simp add: ob0_def InitImage_def image_ok_def)
  have l0: "length (cenCoord ob0) = COOR_SIZE" using i0 by (simp add: image_ok_def)
  obtain cs where c: "FrameCentrist F fr m Y ob0 = Inr (ob0\<lparr>cenCoord := cs, cenRecNum := length ps\<rparr>)"
    "length cs = COOR_SIZE" "take (length ps) cs = map window_rect ps"
    using FrameCentrist_ok [OF assms(3-5) l0, of F] unfolding ps_def by metis
  define ob1 where "ob1 = ob0\<lparr>cenCoord := cs, cenRecNum := length ps\<rparr>"
  have i1: "image_ok ob1" using i0 c(2) by (simp add: ob1_def image_ok_def)
  define mv where "mv = moving_objects Y ob0"
  have m1: "moving_objects Y ob1 = mv" by (simp add: ob1_def mv_def moving_objects_def)
  obtain ob2 where d: "FrameDiff Y ob1 = Inr ob2" "image_ok ob2" "recNum ob2 = length mv"
    "take (recNum ob2) (coordinate ob2) = map (object_rect FRAME_HEIGHT) mv" "lastImage ob2 = take (FRAME_WIDTH * FRAME_HEIGHT) Y"
    "cenRecNum ob2 = cenRecNum ob1" "cenCoord ob2 = cenCoord ob1" "frame_num ob2 = frame_num ob1"
    using FrameDiff_ok [OF i1 assms(3)] unfolding m1 by metis
  define ob3 where "ob3 = ob2\<lparr>frame_num := frame_num ob2 + 1\<rparr>"
  have P: "take (cenRecNum ob3) (cenCoord ob3) = map window_rect ps" "cenRecNum ob3 = length ps" "length ps \<le> length (cenCoord ob3)"
    using c d(6,7) length_found [of F fr m "picture_census F Y"] by (simp_all add: ob3_def ob1_def ps_def COOR_SIZE_def)
  have pb: "\<forall>k\<in>set ps. snd k < 1000" using found_bounds [of F fr m "picture_census F Y"] by (force simp: ps_def)
  have M: "take (recNum ob3) (coordinate ob3) = map (object_rect FRAME_HEIGHT) mv" "recNum ob3 = length mv"
    using d(3,4) by (simp_all add: ob3_def)
  have ml: "length mv \<le> length (coordinate ob3)" using arg_cong [OF M(1), of length] M(2) by simp
  have mb: "\<forall>k\<in>set mv. fst k < 1000 \<and> snd k < 1000"
    using object_bounds [of _ _ Y ob0] by (force simp: mv_def FRAME_WIDTH_def)
  have run: "DetectFrame F fr m Y num ob = bind_res
      (if mv = [] \<and> ps \<noteq> [] then all_persons ob3 else if mv \<noteq> [] then near_persons ob3 else Inr (0, fst start_rects, snd start_rects))
      (\<lambda>(result_flag, result, maxRect). Inr (ob3, map word_of_int
         [if x2 result \<noteq> 0 \<and> y2 result \<noteq> 0 then result_flag else 0,
          y1 result, x1 result, y2 result, x2 result, y1 maxRect, x1 maxRect, y2 maxRect, x2 maxRect]))"
    unfolding DetectFrame_def ob0_def [symmetric] c(1) ob1_def [symmetric] bind_res.simps d(1) Let_def ob3_def [symmetric]
    using P(2) M(2) by simp
  have hm: "snd (List.last mv) \<noteq> 0" if "mv \<noteq> []"
  proof -
    have "List.last mv \<in> set mv" using that by simp
    then show ?thesis using object_bounds [of "fst (List.last mv)" "snd (List.last mv)" Y ob0] by (simp add: mv_def)
  qed
  have "DetectFrame F fr m Y num ob = Inr (ob3, map word_of_int (verdict ps mv))"
  proof (cases "mv = []")
    case True
    then show ?thesis
      unfolding run using all_persons_ok [OF P _ pb]
      by (simp add: verdict_def relevant_def start_rects_def zero_rect_def window_sizes Let_def del: set_map)
  next
    case False
    then show ?thesis
      unfolding run using near_persons_ok [OF P pb M False ml mb] hm
      by (simp add: verdict_def relevant_def window_sizes FRAME_HEIGHT_def Let_def del: set_map)
  qed
  moreover have "image_ok ob3" "frame_num ob3 = frame_num ob0 + 1" "lastImage ob3 = take (FRAME_WIDTH * FRAME_HEIGHT) Y"
    using d(2,5,8) by (simp_all add: ob3_def ob1_def image_ok_def)
  ultimately show ?thesis unfolding ps_def mv_def by blast
qed

end
