(* ===== verification/Datafifo.thy ===== *)
theory Datafifo
  imports Rec_Prelude
begin

text \<open>
  The fifos between the threads (\<^verbatim>\<open>recbcsrv/datafifo.c\<close>). A fifo owns a pool of items and a
  doubly linked list of the items in use. A producer item owns a buffer; when its frame is
  complete it is announced to every connected consumer by an item of the consumer's pool that
  refers to it and shares its buffer, and it is freed when the last reference is gone. Here are
  the definitions, on an explicit store of fifos; the pointer structure is related to plain lists
  in \<open>Datafifo_Lists\<close> and the reference counting and delivery are proved in \<open>Datafifo_Delivery\<close>.
\<close>

section \<open>Items and fifos\<close>

datatype item_status =
    DATAFIFO_ITEM_STATUS_INIT
  | DATAFIFO_ITEM_STATUS_FILLING
  | DATAFIFO_ITEM_STATUS_READY
  | DATAFIFO_ITEM_STATUS_DOING

text \<open>
  Fifos are named by numbers, an item pointer by its index in the pool of its fifo; \<open>ref\<close> and
  \<open>arg.data\<close> may point into another fifo and name it too. \<open>arg_data = Some (f, i)\<close> is the block that
  \<^verbatim>\<open>datafifo_init\<close> allocated for item \<open>i\<close> of fifo \<open>f\<close>.
\<close>

type_synonym fifo_id = nat
type_synonym item_ptr = "fifo_id \<times> nat"

record t_datafifo_item =
  it_next :: "nat option"
  it_prev :: "nat option"
  it_ref :: "item_ptr option"
  refcnt :: int
  it_status :: item_status
  arg_data :: "item_ptr option"
  arg_len :: u32
  arg_flags :: u32
  arg_timestamp :: u32

record t_datafifo =
  data_maxlen :: u32
  items :: "t_datafifo_item list"
  bufs :: "byte list list"
  listhead :: "nat option"
  listtail :: "nat option"
  consumers :: "fifo_id list"
  locked :: bool

type_synonym fifos = "fifo_id \<Rightarrow> t_datafifo"

abbreviation itm :: "fifos \<Rightarrow> fifo_id \<Rightarrow> nat \<Rightarrow> t_datafifo_item" where
  "itm s f i \<equiv> items (s f) ! i"

definition upd_item :: "nat \<Rightarrow> (t_datafifo_item \<Rightarrow> t_datafifo_item) \<Rightarrow> t_datafifo \<Rightarrow> t_datafifo" where
  "upd_item i g F = F\<lparr>items := (items F)[i := g (items F ! i)]\<rparr>"

text \<open>
  A critical section on fifo \<open>f\<close>: locked at its begin, unlocked at its end. Taking a mutex that is
  never released blocks.
\<close>

definition on_fifo :: "fifo_id \<Rightarrow> (t_datafifo \<Rightarrow> t_datafifo res) \<Rightarrow> fifos \<Rightarrow> fifos res" where
  "on_fifo f body s =
     (if locked (s f) then Inl Blocked else bind_res (body (s f)) (\<lambda>F. Inr (s(f := F))))"

section \<open>Items of the pool and the linked list\<close>

text \<open>
  \<^verbatim>\<open>datafifo_alloc\<close>: the first free item of the pool; with none free the call waits on
  \<open>full_cond\<close>, which only another thread can signal.
\<close>

definition alloc_item :: "t_datafifo \<Rightarrow> (nat \<times> t_datafifo) res" where
  "alloc_item F =
     (case find (\<lambda>i. it_status (items F ! i) = DATAFIFO_ITEM_STATUS_INIT) [0 ..< length (items F)] of
        None \<Rightarrow> Inl Blocked
      | Some i \<Rightarrow> Inr (i, upd_item i (\<lambda>it. it\<lparr>arg_flags := 0, arg_len := 0, it_next := None,
          it_prev := None, it_ref := None, refcnt := 0, it_status := DATAFIFO_ITEM_STATUS_FILLING\<rparr>) F))"

definition datafifo_alloc :: "fifo_id \<Rightarrow> fifos \<Rightarrow> (nat \<times> fifos) res" where
  "datafifo_alloc df s =
     (if locked (s df) then Inl Blocked
      else bind_res (alloc_item (s df)) (\<lambda>(i, F). Inr (i, s(df := F))))"

definition addtail :: "nat \<Rightarrow> t_datafifo \<Rightarrow> t_datafifo res" where
  "addtail f F =
     (case listhead F of
        None \<Rightarrow> Inr (F\<lparr>listhead := Some f, listtail := Some f\<rparr>)
      | Some h \<Rightarrow>
         (case listtail F of
            None \<Rightarrow> Inl Null_Deref
          | Some t \<Rightarrow>
             (let F1 = upd_item t (\<lambda>it. it\<lparr>it_next := Some f\<rparr>) F;
                  F2 = upd_item f (\<lambda>it. it\<lparr>it_prev := listtail F1\<rparr>) F1
              in Inr (F2\<lparr>listtail := Some f\<rparr>))))"

definition datafifo_list_addtail :: "fifo_id \<Rightarrow> nat \<Rightarrow> fifos \<Rightarrow> fifos res" where
  "datafifo_list_addtail df f = on_fifo df (addtail f)"

definition datafifo_remove_head_internal_reqlock :: "t_datafifo \<Rightarrow> t_datafifo res" where
  "datafifo_remove_head_internal_reqlock F =
     (case listhead F of
        None \<Rightarrow> Inl Null_Deref
      | Some orig \<Rightarrow>
          if length (items F) \<le> orig then Inl Out_Of_Bounds
          else
            (let F1 = F\<lparr>listhead := it_next (items F ! orig)\<rparr>;
                 F2 = (case listhead F1 of
                         None \<Rightarrow> F1\<lparr>listtail := None\<rparr>
                       | Some h \<Rightarrow> upd_item h (\<lambda>it. it\<lparr>it_prev := None\<rparr>) F1)
             in Inr (upd_item orig (\<lambda>it. it\<lparr>it_status := DATAFIFO_ITEM_STATUS_INIT\<rparr>) F2)))"

text \<open>
  The loop of \<^verbatim>\<open>datafifo_producer_remove_check\<close>, on any fifo: each turn takes one item out of the
  status DOING, so it ends even on a list that is not well formed.
\<close>

definition doing_cnt :: "t_datafifo \<Rightarrow> nat" where
  "doing_cnt F = length (filter (\<lambda>it. it_status it = DATAFIFO_ITEM_STATUS_DOING) (items F))"

lemma filter_update_less:
  "i < length xs \<Longrightarrow> P (xs ! i) \<Longrightarrow> \<not> P y \<Longrightarrow> length (filter P (xs[i := y])) < length (filter P xs)"
  by (induction xs arbitrary: i) (auto simp: nth_Cons split: nat.splits)

lemma filter_update_same:
  "(i < length xs \<Longrightarrow> P y = P (xs ! i)) \<Longrightarrow> length (filter P (xs[i := y])) = length (filter P xs)"
  by (induction xs arbitrary: i) (auto split: nat.split)

lemma nth_list_update': "i < length xs \<Longrightarrow> xs[j := y] ! i = (if j = i then y else xs ! i)"
  by (cases "j = i") auto

lemma remove_head_doing:
  assumes "datafifo_remove_head_internal_reqlock F = Inr F'"
    and "listhead F = Some h" and "it_status (items F ! h) = DATAFIFO_ITEM_STATUS_DOING"
  shows "doing_cnt F' < doing_cnt F"
proof -
  let ?P = "\<lambda>it. it_status it = DATAFIFO_ITEM_STATUS_DOING"
  define its where "its = (case it_next (items F ! h) of None \<Rightarrow> items F
    | Some n \<Rightarrow> (items F)[n := (items F ! n)\<lparr>it_prev := None\<rparr>])"
  have h: "h < length (items F)"
    using assms(1,2) by (auto simp: datafifo_remove_head_internal_reqlock_def split: if_splits)
  have len: "length its = length (items F)" and st: "it_status (its ! h) = it_status (items F ! h)"
    using h by (auto simp: its_def list_update_same_conv nth_list_update' split: option.splits)
  have F': "items F' = its[h := (its ! h)\<lparr>it_status := DATAFIFO_ITEM_STATUS_INIT\<rparr>]"
    using assms(1,2) h
    by (auto simp: datafifo_remove_head_internal_reqlock_def upd_item_def its_def split: option.splits)
  have "length (filter ?P its) = length (filter ?P (items F))"
    by (auto simp: its_def intro!: filter_update_same split: option.splits)
  moreover have "length (filter ?P (items F')) < length (filter ?P its)"
    unfolding F' using h len st assms(3) by (intro filter_update_less) auto
  ultimately show ?thesis by (simp add: doing_cnt_def)
qed

function remove_check :: "t_datafifo \<Rightarrow> t_datafifo res" where
  "remove_check F =
     (case listhead F of
        None \<Rightarrow> Inr F
      | Some h \<Rightarrow>
          if it_status (items F ! h) \<noteq> DATAFIFO_ITEM_STATUS_DOING then Inr F
          else if refcnt (items F ! h) \<noteq> 0 then Inr F
          else (case datafifo_remove_head_internal_reqlock F of
                  Inl e \<Rightarrow> Inl e
                | Inr F' \<Rightarrow> remove_check F'))"
  by pat_completeness auto
termination
  by (relation "measure doing_cnt") (auto intro: remove_head_doing)

declare remove_check.simps [simp del]

definition datafifo_producer_remove_check :: "fifo_id \<Rightarrow> fifos \<Rightarrow> fifos res" where
  "datafifo_producer_remove_check df = on_fifo df remove_check"

section \<open>The producer\<close>

text \<open>One turn of the loop of \<^verbatim>\<open>datafifo_addto_consumers\<close>: announce \<open>item\<close> of \<open>df\<close> to \<open>con\<close>.\<close>

definition addto_consumer :: "fifo_id \<Rightarrow> nat \<Rightarrow> fifos \<Rightarrow> fifo_id \<Rightarrow> fifos res" where
  "addto_consumer df item s con =
     bind_res (datafifo_alloc con s) (\<lambda>(cur, s1).
     let it = itm s1 df item;
         s2 = s1(con := upd_item cur (\<lambda>c. c\<lparr>it_ref := Some (df, item), it_next := None, it_prev := None,
                arg_data := arg_data it, arg_len := arg_len it, arg_flags := arg_flags it,
                arg_timestamp := arg_timestamp it, it_status := DATAFIFO_ITEM_STATUS_READY\<rparr>) (s1 con))
     in bind_res (on_fifo df (\<lambda>F. Inr (upd_item item (\<lambda>it. it\<lparr>refcnt := refcnt it + 1\<rparr>) F)) s2) (\<lambda>s3.
        datafifo_list_addtail con cur s3))"

definition datafifo_addto_consumers :: "fifo_id \<Rightarrow> nat \<Rightarrow> fifos \<Rightarrow> fifos res" where
  "datafifo_addto_consumers df item s =
     bind_res (fold_res (addto_consumer df item) s (consumers (s df))) (\<lambda>s1.
     datafifo_producer_remove_check df
       (s1(df := upd_item item (\<lambda>it. it\<lparr>it_status := DATAFIFO_ITEM_STATUS_DOING\<rparr>) (s1 df))))"

text \<open>The tail item that is still being filled is closed when a new frame begins.\<close>

definition close_tail :: "u32 \<Rightarrow> t_datafifo \<Rightarrow> nat option \<times> t_datafifo" where
  "close_tail flags F =
     (case listtail F of
        None \<Rightarrow> (None, F)
      | Some t \<Rightarrow>
          if it_status (items F ! t) = DATAFIFO_ITEM_STATUS_FILLING then
            (Some t, upd_item t (\<lambda>it. (if flags AND FRAME_FLAG_FIRSTFRAME \<noteq> 0 then it\<lparr>arg_len := 0\<rparr> else it)
                       \<lparr>it_status := DATAFIFO_ITEM_STATUS_READY\<rparr>) F)
          else (None, F))"

definition new_frame :: "fifo_id \<Rightarrow> u32 \<Rightarrow> u32 \<Rightarrow> fifos \<Rightarrow> fifos res" where
  "new_frame df flags timestamp s =
     bind_res (datafifo_alloc df s) (\<lambda>(cur, s1).
     if locked (s1 df) then Inl Blocked else
     let (old_item, F) = close_tail flags (s1 df); s2 = s1(df := F)
     in bind_res (case old_item of None \<Rightarrow> Inr s2 | Some old \<Rightarrow> datafifo_addto_consumers df old s2) (\<lambda>s3.
        let s4 = s3(df := upd_item cur (\<lambda>it. it\<lparr>
              arg_flags := (let f1 = if flags AND FRAME_FLAG_FIRSTFRAME \<noteq> 0
                                     then arg_flags it OR FRAME_FLAG_FIRSTFRAME else arg_flags it
                            in if flags AND FRAME_FLAG_KEYFRAME \<noteq> 0 then f1 OR FRAME_FLAG_KEYFRAME else f1),
              arg_timestamp := timestamp\<rparr>) (s3 df))
        in datafifo_list_addtail df cur s4))"

text \<open>
  The copy into the buffer of the tail item: \<open>arg.len + len\<close> is compared as an unsigned number with
  \<open>data_maxlen\<close>. \<open>-5\<close> is the return value when it does not fit.
\<close>

definition append_data :: "fifo_id \<Rightarrow> byte list \<Rightarrow> u32 \<Rightarrow> u32 \<Rightarrow> fifos \<Rightarrow> (int \<times> fifos) res" where
  "append_data df data len flags s =
     (case listtail (s df) of
        None \<Rightarrow> Inl Null_Deref
      | Some t \<Rightarrow>
          let it = itm s df t in
          if data_maxlen (s df) < arg_len it + len then Inr (-5, s)
          else
            (case arg_data it of
               None \<Rightarrow> Inl Null_Deref
             | Some (bf, bi) \<Rightarrow>
                 bind_res (mem_read data 0 (unat len)) (\<lambda>bytes.
                 bind_res (mem_write (bufs (s bf) ! bi) (unat (arg_len it)) bytes) (\<lambda>buf.
                 let s1 = s(bf := (s bf)\<lparr>bufs := (bufs (s bf))[bi := buf]\<rparr>);
                     s2 = s1(df := upd_item t (\<lambda>it. it\<lparr>arg_len := arg_len it + len\<rparr>) (s1 df))
                 in if flags AND FRAME_FLAG_FRAMEEND \<noteq> 0 then
                      bind_res (datafifo_addto_consumers df t
                        (s2(df := upd_item t (\<lambda>it. it\<lparr>it_status := DATAFIFO_ITEM_STATUS_READY\<rparr>) (s2 df))))
                        (\<lambda>s3. Inr (0, s3))
                    else Inr (0, s2)))))"

definition datafifo_producer_data_add ::
    "fifo_id \<Rightarrow> byte list \<Rightarrow> u32 \<Rightarrow> u32 \<Rightarrow> u32 \<Rightarrow> fifos \<Rightarrow> (int \<times> fifos) res" where
  "datafifo_producer_data_add df data len flags timestamp s =
     (if flags AND FRAME_FLAG_NEWFRAME \<noteq> 0 then
        bind_res (new_frame df flags timestamp s) (append_data df data len flags)
      else
        (case listtail (s df) of
           None \<Rightarrow> Inl Null_Deref
         | Some t \<Rightarrow>
             if it_status (itm s df t) \<noteq> DATAFIFO_ITEM_STATUS_FILLING then Inr (-4, s)
             else append_data df data len flags s))"

section \<open>Setting up\<close>

abbreviation (input) item_zero :: t_datafifo_item where
  "item_zero \<equiv> \<lparr>it_next = None, it_prev = None, it_ref = None, refcnt = 0,
     it_status = DATAFIFO_ITEM_STATUS_INIT, arg_data = None, arg_len = 0, arg_flags = 0, arg_timestamp = 0\<rparr>"

text \<open>
  \<open>ok k\<close>: the \<open>k\<close>-th call of \<open>malloc\<close> succeeds (call 0 is the array of the items); \<open>junk\<close> is what
  the memory it returns contains. Only the first eight bytes behind the data area are cleared.
\<close>

definition init_buf :: "(nat \<Rightarrow> byte) \<Rightarrow> nat \<Rightarrow> byte list" where
  "init_buf junk sz =
     map junk [0 ..< sz] @ replicate 8 NUL @ map junk [sz + 8 ..< sz + 8 + 4]"

definition datafifo_init ::
    "(nat \<Rightarrow> bool) \<Rightarrow> (nat \<Rightarrow> nat \<Rightarrow> byte) \<Rightarrow> fifo_id \<Rightarrow> u32 \<Rightarrow> nat \<Rightarrow> fifos \<Rightarrow> int \<times> fifos" where
  "datafifo_init ok junk df sz cnt s =
     (let F0 = \<lparr>data_maxlen = sz, items = [], bufs = [], listhead = None, listtail = None,
                consumers = [], locked = False\<rparr>
      in if \<not> ok 0 then (-1, s(df := F0))
         else
           let good = (if sz = 0 then cnt
                       else length (takeWhile (\<lambda>i. ok (Suc i)) [0 ..< cnt]));
               F = F0\<lparr>items := map (\<lambda>i. if sz \<noteq> 0 \<and> i < good then item_zero\<lparr>arg_data := Some (df, i)\<rparr>
                                        else item_zero) [0 ..< cnt],
                      bufs := (if sz = 0 then [] else map (\<lambda>i. init_buf (junk i) (unat sz)) [0 ..< good])\<rparr>
           in (if good < cnt then -2 else 0, s(df := F)))"

text \<open>The list of the connected consumers, newest first; \<open>ok\<close>: the \<open>malloc\<close> succeeds.\<close>

definition datafifo_connect :: "bool \<Rightarrow> fifo_id \<Rightarrow> fifo_id \<Rightarrow> fifos \<Rightarrow> (int \<times> fifos) res" where
  "datafifo_connect ok producer consumer s =
     (if \<not> ok then Inr (-1, s)
      else bind_res (on_fifo producer (\<lambda>F. Inr (F\<lparr>consumers := consumer # consumers F\<rparr>)) s)
             (\<lambda>s'. Inr (0, s')))"

text \<open>When the consumer is not found the function returns with the mutex still locked.\<close>

definition datafifo_disconnect :: "fifo_id \<Rightarrow> fifo_id \<Rightarrow> fifos \<Rightarrow> (int \<times> fifos) res" where
  "datafifo_disconnect producer consumer s =
     (if locked (s producer) then Inl Blocked
      else if consumer \<notin> set (consumers (s producer))
      then Inr (-1, s(producer := (s producer)\<lparr>locked := True\<rparr>))
      else Inr (0, s(producer := (s producer)\<lparr>consumers := remove1 consumer (consumers (s producer))\<rparr>)))"

section \<open>The consumer\<close>

definition datafifo_consumer_remove_head :: "fifo_id \<Rightarrow> fifos \<Rightarrow> (int \<times> fifos) res" where
  "datafifo_consumer_remove_head df s =
     (case listhead (s df) of
        None \<Rightarrow> Inr (-1, s)
      | Some h \<Rightarrow>
          bind_res
            (case it_ref (itm s df h) of
               Some (producer, i) \<Rightarrow>
                 bind_res (on_fifo producer (\<lambda>F. Inr (upd_item i (\<lambda>it. it\<lparr>refcnt := refcnt it - 1\<rparr>) F)) s)
                   (datafifo_producer_remove_check producer)
             | None \<Rightarrow> Inr s)
            (\<lambda>s1. bind_res (on_fifo df datafifo_remove_head_internal_reqlock s1) (\<lambda>s2. Inr (0, s2))))"

text \<open>\<open>while(datafifo_consumer_remove_head(df) == 0);\<close> with fuel.\<close>

fun consumer_clear :: "nat \<Rightarrow> fifo_id \<Rightarrow> fifos \<Rightarrow> fifos res" where
  "consumer_clear 0 df s = Inl Diverged"
| "consumer_clear (Suc n) df s =
     bind_res (datafifo_consumer_remove_head df s) (\<lambda>(ret, s').
     if ret = 0 then consumer_clear n df s' else Inr s')"

definition datafifo_consumer_clear :: "fifo_id \<Rightarrow> fifos \<Rightarrow> fifos res" where
  "datafifo_consumer_clear df s = consumer_clear (Suc (length (items (s df)))) df s"

section \<open>What a consumer sees\<close>

text \<open>The frame an item stands for: the bytes of its buffer up to its length, flags, time stamp.\<close>

type_synonym frame = "byte list \<times> u32 \<times> u32"

definition frame_of :: "fifos \<Rightarrow> t_datafifo_item \<Rightarrow> frame" where
  "frame_of s it =
     (case arg_data it of None \<Rightarrow> [] | Some (f, i) \<Rightarrow> take (unat (arg_len it)) (bufs (s f) ! i),
      arg_flags it, arg_timestamp it)"

text \<open>The list of a fifo, followed through the \<open>next\<close> pointers (at most once round the pool).\<close>

fun chain :: "nat \<Rightarrow> t_datafifo_item list \<Rightarrow> nat option \<Rightarrow> nat list" where
  "chain (Suc n) its (Some i) = i # chain n its (it_next (its ! i))"
| "chain _ _ _ = []"

definition fifo_items :: "t_datafifo \<Rightarrow> nat list" where
  "fifo_items F = chain (length (items F)) (items F) (listhead F)"

definition frames :: "fifos \<Rightarrow> fifo_id \<Rightarrow> frame list" where
  "frames s c = map (\<lambda>i. frame_of s (itm s c i)) (fifo_items (s c))"

text \<open>\<^verbatim>\<open>datafifo_head\<close> together with the test of \<^verbatim>\<open>datafifo_wait\<close>: the next frame, if it is ready.\<close>

definition datafifo_head :: "fifos \<Rightarrow> fifo_id \<Rightarrow> frame option" where
  "datafifo_head s c =
     (case listhead (s c) of
        None \<Rightarrow> None
      | Some h \<Rightarrow> if it_status (itm s c h) = DATAFIFO_ITEM_STATUS_READY
                  then Some (frame_of s (itm s c h)) else None)"

end
