(* ===== verification/Datafifo_Lists.thy ===== *)
theory Datafifo_Lists
  imports Datafifo
begin

text \<open>
  The doubly linked list of a fifo (\<^verbatim>\<open>recbcsrv/datafifo.c\<close>) and the list it represents. \<open>fifo_rel F a\<close>
  relates the pointer structure \<open>F\<close> to an abstract fifo \<open>a\<close>, a list of item numbers and the items
  without their links; each pointer operation is shown to be the plain list operation.
\<close>

section \<open>Doubly linked segments\<close>

text \<open>
  Starting at \<open>h\<close>, with \<open>p\<close> before it, the links run through the items \<open>xs\<close>; \<open>l\<close> is the last one (or
  \<open>p\<close>) and \<open>e\<close> is where the last \<open>next\<close> points.
\<close>

fun dlseg ::
    "t_datafifo_item list \<Rightarrow> nat option \<Rightarrow> nat option \<Rightarrow> nat list \<Rightarrow> nat option \<Rightarrow> nat option \<Rightarrow> bool" where
  "dlseg its p h [] l e \<longleftrightarrow> h = e \<and> l = p"
| "dlseg its p h (x # xs) l e \<longleftrightarrow>
     h = Some x \<and> x < length its \<and> it_prev (its ! x) = p \<and> dlseg its (Some x) (it_next (its ! x)) xs l e"

lemma dlseg_append:
  "dlseg its p h (xs @ ys) l e \<longleftrightarrow> (\<exists>m n. dlseg its p h xs m n \<and> dlseg its m n ys l e)"
  by (induction xs arbitrary: p h) auto

lemma dlseg_cong:
  assumes "dlseg its p h xs l e" and "length its' = length its"
    and "\<And>i. i \<in> set xs \<Longrightarrow> it_next (its' ! i) = it_next (its ! i) \<and> it_prev (its' ! i) = it_prev (its ! i)"
  shows "dlseg its' p h xs l e"
  using assms by (induction xs arbitrary: p h) auto

lemma dlseg_bounds: "dlseg its p h xs l e \<Longrightarrow> i \<in> set xs \<Longrightarrow> i < length its"
  by (induction xs arbitrary: p h) auto

lemma dlseg_ends:
  "dlseg its p h xs l e \<Longrightarrow> h = (if xs = [] then e else Some (hd xs)) \<and> l = (if xs = [] then p else Some (last xs))"
  by (induction xs arbitrary: p h) auto

lemma dlseg_chain:
  "dlseg its p h xs l None \<Longrightarrow> length xs \<le> n \<Longrightarrow> chain n its h = xs"
proof (induction xs arbitrary: p h n)
  case Nil
  then show ?case by (cases n) auto
next
  case (Cons x xs)
  then show ?case by (cases n) auto
qed

section \<open>Abstract fifos\<close>

definition core :: "t_datafifo_item \<Rightarrow> t_datafifo_item" where
  "core it = it\<lparr>it_next := None, it_prev := None\<rparr>"

lemma core_simps [simp]:
  "it_ref (core it) = it_ref it" "refcnt (core it) = refcnt it" "it_status (core it) = it_status it"
  "arg_data (core it) = arg_data it" "arg_len (core it) = arg_len it"
  "arg_flags (core it) = arg_flags it" "arg_timestamp (core it) = arg_timestamp it"
  "core (it\<lparr>it_next := n\<rparr>) = core it" "core (it\<lparr>it_prev := p\<rparr>) = core it" "core (core it) = core it"
  by (simp_all add: core_def)

record afifo =
  a_queue :: "nat list"
  a_items :: "t_datafifo_item list"
  a_maxlen :: u32
  a_bufs :: "byte list list"
  a_consumers :: "fifo_id list"

definition fifo_rel :: "t_datafifo \<Rightarrow> afifo \<Rightarrow> bool" where
  "fifo_rel F a \<longleftrightarrow>
     dlseg (items F) None (listhead F) (a_queue a) (listtail F) None \<and> distinct (a_queue a) \<and>
     a_items a = map core (items F) \<and> a_maxlen a = data_maxlen F \<and> a_bufs a = bufs F \<and>
     a_consumers a = consumers F \<and> \<not> locked F \<and>
     (\<forall>i\<in>set (a_queue a). it_status (items F ! i) \<noteq> DATAFIFO_ITEM_STATUS_INIT) \<and>
     (\<forall>i<length (items F). i \<notin> set (a_queue a) \<longrightarrow> it_status (items F ! i) \<noteq> DATAFIFO_ITEM_STATUS_INIT \<longrightarrow>
        it_next (items F ! i) = None \<and> it_prev (items F ! i) = None)"

lemma fifo_relD:
  assumes "fifo_rel F a"
  shows "distinct (a_queue a)" and "a_items a = map core (items F)" and "a_maxlen a = data_maxlen F"
    and "a_bufs a = bufs F" and "a_consumers a = consumers F" and "\<not> locked F"
    and "length (a_items a) = length (items F)"
    and "i \<in> set (a_queue a) \<Longrightarrow> i < length (items F)"
    and "i < length (items F) \<Longrightarrow> a_items a ! i = core (items F ! i)"
    and "listhead F = (if a_queue a = [] then None else Some (hd (a_queue a)))"
    and "listtail F = (if a_queue a = [] then None else Some (last (a_queue a)))"
    and "i \<in> set (a_queue a) \<Longrightarrow> it_status (items F ! i) \<noteq> DATAFIFO_ITEM_STATUS_INIT"
proof -
  have d: "dlseg (items F) None (listhead F) (a_queue a) (listtail F) None"
    using assms by (simp add: fifo_rel_def)
  show "listhead F = (if a_queue a = [] then None else Some (hd (a_queue a)))"
    and "listtail F = (if a_queue a = [] then None else Some (last (a_queue a)))"
    using dlseg_ends [OF d] by auto
  show "i \<in> set (a_queue a) \<Longrightarrow> i < length (items F)" using dlseg_bounds [OF d] by blast
qed (use assms in \<open>auto simp: fifo_rel_def\<close>)

lemma fifo_rel_queue: "fifo_rel F a \<Longrightarrow> fifo_items F = a_queue a"
proof -
  assume r: "fifo_rel F a"
  have "set (a_queue a) \<subseteq> {..<length (items F)}" using fifo_relD(8) [OF r] by auto
  then have "card (set (a_queue a)) \<le> length (items F)"
    by (metis card_lessThan card_mono finite_lessThan)
  then have "length (a_queue a) \<le> length (items F)"
    using fifo_relD(1) [OF r] by (simp add: distinct_card)
  then show ?thesis using r unfolding fifo_items_def fifo_rel_def by (blast intro: dlseg_chain)
qed

definition a_upd :: "nat \<Rightarrow> (t_datafifo_item \<Rightarrow> t_datafifo_item) \<Rightarrow> afifo \<Rightarrow> afifo" where
  "a_upd i g a = a\<lparr>a_items := (a_items a)[i := g (a_items a ! i)]\<rparr>"

lemma a_upd_simps [simp]:
  "a_queue (a_upd i g a) = a_queue a" "a_maxlen (a_upd i g a) = a_maxlen a"
  "a_bufs (a_upd i g a) = a_bufs a" "a_consumers (a_upd i g a) = a_consumers a"
  "length (a_items (a_upd i g a)) = length (a_items a)"
  by (simp_all add: a_upd_def)

lemma a_items_upd:
  "j < length (a_items a) \<Longrightarrow> a_items (a_upd i g a) ! j = (if j = i then g (a_items a ! j) else a_items a ! j)"
  by (simp add: a_upd_def nth_list_update' eq_commute)

text \<open>A change of an item that leaves its links and its membership alone.\<close>

lemma fifo_rel_upd:
  assumes "fifo_rel F a"
    and "\<And>it. core (g it) = g (core it)"
    and "\<And>it. it_next (g it) = it_next it" and "\<And>it. it_prev (g it) = it_prev it"
    and "i < length (items F) \<Longrightarrow> it_status (items F ! i) \<noteq> DATAFIFO_ITEM_STATUS_INIT \<Longrightarrow>
      it_status (g (items F ! i)) \<noteq> DATAFIFO_ITEM_STATUS_INIT"
    and "i < length (items F) \<Longrightarrow> it_status (items F ! i) = DATAFIFO_ITEM_STATUS_INIT \<Longrightarrow>
      it_status (g (items F ! i)) = DATAFIFO_ITEM_STATUS_INIT"
  shows "fifo_rel (upd_item i g F) (a_upd i g a)"
proof (cases "i < length (items F)")
  case True
  let ?its = "(items F)[i := g (items F ! i)]"
  have m: "map core ?its = (map core (items F))[i := g (map core (items F) ! i)]"
    using True assms(2) by (simp add: map_update)
  have d0: "dlseg (items F) None (listhead F) (a_queue a) (listtail F) None"
    using assms(1) by (simp add: fifo_rel_def)
  have nx: "it_next (?its ! j) = it_next (items F ! j)" "it_prev (?its ! j) = it_prev (items F ! j)"
    if "j < length (items F)" for j
    using that by (simp_all add: nth_list_update' assms(3,4))
  have st: "(it_status (?its ! j) = DATAFIFO_ITEM_STATUS_INIT) = (it_status (items F ! j) = DATAFIFO_ITEM_STATUS_INIT)"
    if "j < length (items F)" for j
    using that assms(5,6) by (auto simp: nth_list_update')
  have d: "dlseg ?its None (listhead F) (a_queue a) (listtail F) None"
    by (rule dlseg_cong [OF d0]) (use nx fifo_relD(8) [OF assms(1)] in auto)
  have q: "\<forall>j\<in>set (a_queue a). it_status (?its ! j) \<noteq> DATAFIFO_ITEM_STATUS_INIT"
    using st fifo_relD(8,12) [OF assms(1)] by blast
  have u: "\<forall>j<length (items F). j \<notin> set (a_queue a) \<longrightarrow> it_status (?its ! j) \<noteq> DATAFIFO_ITEM_STATUS_INIT \<longrightarrow>
      it_next (?its ! j) = None \<and> it_prev (?its ! j) = None"
    using st nx assms(1) by (simp add: fifo_rel_def)
  show ?thesis
    using d q u fifo_relD(1-6) [OF assms(1)] m
    by (simp add: fifo_rel_def upd_item_def a_upd_def)
next
  case False
  then show ?thesis using assms(1) fifo_relD(7) [OF assms(1)]
    by (simp add: upd_item_def a_upd_def list_update_beyond)
qed

section \<open>The operations on abstract fifos\<close>

text \<open>Allocation: the first free item, reset.\<close>

definition reset_item :: "t_datafifo_item \<Rightarrow> t_datafifo_item" where
  "reset_item it = it\<lparr>arg_flags := 0, arg_len := 0, it_next := None, it_prev := None, it_ref := None,
     refcnt := 0, it_status := DATAFIFO_ITEM_STATUS_FILLING\<rparr>"

lemma core_reset: "core (reset_item it) = reset_item it" "reset_item (core it) = reset_item it"
  by (simp_all add: reset_item_def core_def)

lemma alloc_item_rel:
  assumes "fifo_rel F a" and "\<exists>i<length (items F). it_status (items F ! i) = DATAFIFO_ITEM_STATUS_INIT"
  shows "\<exists>i F'. alloc_item F = Inr (i, F') \<and> i < length (items F) \<and> i \<notin> set (a_queue a) \<and>
    it_status (items F ! i) = DATAFIFO_ITEM_STATUS_INIT \<and> F' = upd_item i reset_item F \<and>
    fifo_rel F' (a_upd i reset_item a)"
proof -
  let ?P = "\<lambda>i. it_status (items F ! i) = DATAFIFO_ITEM_STATUS_INIT"
  obtain i where f: "find ?P [0 ..< length (items F)] = Some i"
    using assms(2) by (cases "find ?P [0 ..< length (items F)]") (auto simp: find_None_iff)
  then have i: "i < length (items F)" "?P i" by (auto simp: find_Some_iff)
  have nq: "i \<notin> set (a_queue a)" using fifo_relD(12) [OF assms(1)] i(2) by blast
  let ?F = "upd_item i reset_item F" and ?its = "(items F)[i := reset_item (items F ! i)]"
  have al: "alloc_item F = Inr (i, ?F)" by (simp add: alloc_item_def f reset_item_def [abs_def])
  have other: "?its ! j = items F ! j" if "j \<noteq> i" for j using that by simp
  have d: "dlseg ?its None (listhead F) (a_queue a) (listtail F) None"
  proof (rule dlseg_cong [of "items F"])
    fix j assume "j \<in> set (a_queue a)"
    then have "j \<noteq> i" using nq by auto
    then show "it_next (?its ! j) = it_next (items F ! j) \<and> it_prev (?its ! j) = it_prev (items F ! j)"
      by simp
  qed (use assms(1) in \<open>auto simp: fifo_rel_def\<close>)
  have m: "map core ?its = (map core (items F))[i := reset_item (map core (items F) ! i)]"
    using i by (simp add: map_update core_reset)
  have u: "\<forall>j<length (items F). j \<notin> set (a_queue a) \<longrightarrow> it_status (?its ! j) \<noteq> DATAFIFO_ITEM_STATUS_INIT \<longrightarrow>
      it_next (?its ! j) = None \<and> it_prev (?its ! j) = None"
    using assms(1) by (auto simp: fifo_rel_def nth_list_update' reset_item_def)
  have q: "\<forall>j\<in>set (a_queue a). it_status (?its ! j) \<noteq> DATAFIFO_ITEM_STATUS_INIT"
    using nq other fifo_relD(12) [OF assms(1)] by (metis (no_types, lifting))
  have "fifo_rel ?F (a_upd i reset_item a)"
    using d m u q fifo_relD(1-6) [OF assms(1)] by (simp add: fifo_rel_def upd_item_def a_upd_def)
  then show ?thesis using al i nq by blast
qed

lemma alloc_item_full:
  "\<forall>i<length (items F). it_status (items F ! i) \<noteq> DATAFIFO_ITEM_STATUS_INIT \<Longrightarrow> alloc_item F = Inl Blocked"
  by (auto simp: alloc_item_def find_Some_iff split: option.splits)

text \<open>Linking an allocated item at the tail.\<close>

lemma addtail_rel:
  assumes r: "fifo_rel F a" and i: "i < length (items F)" "i \<notin> set (a_queue a)"
    and st: "it_status (items F ! i) \<noteq> DATAFIFO_ITEM_STATUS_INIT"
  shows "\<exists>F'. addtail i F = Inr F' \<and> fifo_rel F' (a\<lparr>a_queue := a_queue a @ [i]\<rparr>)"
proof (cases "a_queue a" rule: rev_cases)
  case Nil
  have nx: "it_next (items F ! i) = None" "it_prev (items F ! i) = None"
    using r i st by (auto simp: fifo_rel_def)
  then show ?thesis using r i st Nil fifo_relD(10,11) [OF r]
    by (auto simp: addtail_def fifo_rel_def)
next
  case (snoc q t)
  have lh: "listhead F = Some (hd (q @ [t]))" and lt: "listtail F = Some t"
    using fifo_relD(10,11) [OF r] snoc by auto
  have tl: "t < length (items F)" "t \<noteq> i" "t \<notin> set q"
    using fifo_relD(1,8) [OF r] snoc i by auto
  define its where "its = (items F)[t := (items F ! t)\<lparr>it_next := Some i\<rparr>]"
  define its2 where "its2 = its[i := (items F ! i)\<lparr>it_prev := Some t\<rparr>]"
  have len: "length its2 = length (items F)" by (simp add: its2_def its_def)
  have nth: "its2 ! j = (if j = i then (items F ! i)\<lparr>it_prev := Some t\<rparr>
      else if j = t then (items F ! t)\<lparr>it_next := Some i\<rparr> else items F ! j)"
    if "j < length (items F)" for j
    using that i tl by (auto simp: its2_def its_def nth_list_update')
  have nx: "it_next (items F ! i) = None" using r i st by (auto simp: fifo_rel_def)
  obtain m n where mn: "dlseg (items F) None (listhead F) q m n" "dlseg (items F) m n [t] (listtail F) None"
    using r snoc unfolding fifo_rel_def by (auto simp: dlseg_append)
  have q: "dlseg its2 None (listhead F) q m n"
    by (rule dlseg_cong [OF mn(1) len]) (use nth fifo_relD(8) [OF r] snoc i tl in auto)
  have "dlseg its2 m n [t, i] (Some i) None"
    using mn(2) nth [OF tl(1)] nth [OF i(1)] tl i nx len by auto
  then have d: "dlseg its2 None (listhead F) (a_queue a @ [i]) (Some i) None"
    using q snoc by (auto simp: dlseg_append)
  have m: "map core its2 = map core (items F)"
    by (rule nth_equalityI) (auto simp: len nth)
  have s: "it_status (its2 ! j) = it_status (items F ! j)" if "j < length (items F)" for j
    using nth [OF that] by simp
  have stq: "\<forall>j\<in>set (a_queue a @ [i]). it_status (its2 ! j) \<noteq> DATAFIFO_ITEM_STATUS_INIT"
    using s fifo_relD(8,12) [OF r] i st by auto
  have u: "\<forall>j<length (items F). j \<notin> set (a_queue a @ [i]) \<longrightarrow> it_status (its2 ! j) \<noteq> DATAFIFO_ITEM_STATUS_INIT \<longrightarrow>
      it_next (its2 ! j) = None \<and> it_prev (its2 ! j) = None"
    using r nth snoc by (auto simp: fifo_rel_def)
  have "addtail i F = Inr (F\<lparr>items := its2, listtail := Some i\<rparr>)"
    using lh lt tl by (simp add: addtail_def upd_item_def its2_def its_def Let_def)
  then show ?thesis
    using d m stq u len fifo_relD(1-6) [OF r] i by (auto simp: fifo_rel_def)
qed

text \<open>Unlinking the head and freeing it.\<close>

definition free_item :: "t_datafifo_item \<Rightarrow> t_datafifo_item" where
  "free_item it = it\<lparr>it_status := DATAFIFO_ITEM_STATUS_INIT\<rparr>"

lemma free_item_simps [simp]:
  "it_status (free_item it) = DATAFIFO_ITEM_STATUS_INIT" "core (free_item it) = free_item (core it)"
  "it_ref (free_item it) = it_ref it" "arg_data (free_item it) = arg_data it"
  "refcnt (free_item it) = refcnt it" "arg_len (free_item it) = arg_len it"
  by (simp_all add: free_item_def core_def)

lemma remove_head_rel:
  assumes r: "fifo_rel F a" and q: "a_queue a = x # xs"
  shows "\<exists>F'. datafifo_remove_head_internal_reqlock F = Inr F' \<and>
    fifo_rel F' (a_upd x free_item (a\<lparr>a_queue := xs\<rparr>))"
proof -
  have lh: "listhead F = Some x" and x: "x < length (items F)" "x \<notin> set xs" "distinct xs"
    using fifo_relD(1,8,10) [OF r] q by auto
  have d: "dlseg (items F) (Some x) (it_next (items F ! x)) xs (listtail F) None"
    using r q by (auto simp: fifo_rel_def)
  have q_nonfree: "it_status (items F ! j) \<noteq> DATAFIFO_ITEM_STATUS_INIT" if "j \<in> set xs" for j
    using fifo_relD(12) [OF r] that q by simp
  have unl: "j < length (items F) \<Longrightarrow> j \<notin> set (x # xs) \<Longrightarrow>
      it_status (items F ! j) \<noteq> DATAFIFO_ITEM_STATUS_INIT \<Longrightarrow>
      it_next (items F ! j) = None \<and> it_prev (items F ! j) = None" for j
    using r q by (simp add: fifo_rel_def)
  show ?thesis
  proof (cases xs)
    case Nil
    then have nx: "it_next (items F ! x) = None" using d by simp
    let ?F = "upd_item x free_item (F\<lparr>listhead := None, listtail := None\<rparr>)"
    have "datafifo_remove_head_internal_reqlock F = Inr ?F"
      using lh x nx by (simp add: datafifo_remove_head_internal_reqlock_def Let_def free_item_def [abs_def])
    moreover have "fifo_rel ?F (a_upd x free_item (a\<lparr>a_queue := xs\<rparr>))"
      using fifo_relD(2-6) [OF r] x Nil unl
      by (auto simp: fifo_rel_def upd_item_def a_upd_def map_update nth_list_update')
    ultimately show ?thesis by blast
  next
    case (Cons y ys)
    then have nx: "it_next (items F ! x) = Some y" and y: "y < length (items F)" "y \<noteq> x" "y \<notin> set ys"
      and py: "it_prev (items F ! y) = Some x"
      and dy: "dlseg (items F) (Some y) (it_next (items F ! y)) ys (listtail F) None"
      using d x by auto
    let ?its = "(items F)[y := (items F ! y)\<lparr>it_prev := None\<rparr>]"
    let ?its2 = "?its[x := free_item (items F ! x)]"
    let ?F = "F\<lparr>listhead := Some y, items := ?its2\<rparr>"
    have op: "datafifo_remove_head_internal_reqlock F = Inr ?F"
      using lh x nx y
      by (simp add: datafifo_remove_head_internal_reqlock_def Let_def upd_item_def free_item_def)
    have nth: "?its2 ! j = (if j = x then free_item (items F ! x)
        else if j = y then (items F ! y)\<lparr>it_prev := None\<rparr> else items F ! j)" if "j < length (items F)" for j
      using that x y by (auto simp: nth_list_update')
    have lt: "j < length (items F)" if "j \<in> set xs" for j using fifo_relD(8) [OF r] that q by simp
    have "dlseg ?its2 (Some y) (it_next (items F ! y)) ys (listtail F) None"
    proof (rule dlseg_cong [OF dy])
      fix j assume "j \<in> set ys"
      then have "j \<noteq> x" "j \<noteq> y" "j < length (items F)" using x y lt Cons by auto
      then show "it_next (?its2 ! j) = it_next (items F ! j) \<and> it_prev (?its2 ! j) = it_prev (items F ! j)"
        by simp
    qed simp
    then have dl: "dlseg ?its2 None (Some y) xs (listtail F) None"
      using Cons y nth [OF y(1)] by simp
    have m: "map core ?its2 = (map core (items F))[x := free_item (map core (items F) ! x)]"
      by (rule nth_equalityI) (use x nth in \<open>auto simp: nth_list_update'\<close>)
    have stq: "\<forall>j\<in>set xs. it_status (?its2 ! j) \<noteq> DATAFIFO_ITEM_STATUS_INIT"
    proof
      fix j assume j: "j \<in> set xs"
      then have "j \<noteq> x" using x by auto
      then show "it_status (?its2 ! j) \<noteq> DATAFIFO_ITEM_STATUS_INIT"
        using nth [OF lt [OF j]] q_nonfree [OF j] by (auto split: if_splits)
    qed
    have u: "\<forall>j<length (items F). j \<notin> set xs \<longrightarrow> it_status (?its2 ! j) \<noteq> DATAFIFO_ITEM_STATUS_INIT \<longrightarrow>
        it_next (?its2 ! j) = None \<and> it_prev (?its2 ! j) = None"
    proof (intro allI impI)
      fix j assume j: "j < length (items F)" "j \<notin> set xs" "it_status (?its2 ! j) \<noteq> DATAFIFO_ITEM_STATUS_INIT"
      then have "j \<noteq> x" "j \<noteq> y" using nth [OF j(1)] Cons by auto
      then show "it_next (?its2 ! j) = None \<and> it_prev (?its2 ! j) = None"
        using nth [OF j(1)] unl [OF j(1)] j(2,3) by auto
    qed
    have "fifo_rel ?F (a_upd x free_item (a\<lparr>a_queue := xs\<rparr>))"
      using dl m stq u fifo_relD(2-6) [OF r] x by (simp add: fifo_rel_def a_upd_def)
    then show ?thesis using op by blast
  qed
qed

text \<open>The release loop: the longest prefix of finished items without references.\<close>

function a_release :: "afifo \<Rightarrow> afifo" where
  "a_release a =
     (case a_queue a of
        [] \<Rightarrow> a
      | x # xs \<Rightarrow>
          if it_status (a_items a ! x) = DATAFIFO_ITEM_STATUS_DOING \<and> refcnt (a_items a ! x) = 0
          then a_release (a_upd x free_item (a\<lparr>a_queue := xs\<rparr>)) else a)"
  by pat_completeness auto
termination
  by (relation "measure (\<lambda>a. length (a_queue a))") auto

declare a_release.simps [simp del]

lemma remove_check_rel:
  "fifo_rel F a \<Longrightarrow> \<exists>F'. remove_check F = Inr F' \<and> fifo_rel F' (a_release a)"
proof (induction a arbitrary: F rule: a_release.induct)
  case (1 a)
  note r = "1.prems"
  show ?case
  proof (cases "a_queue a")
    case Nil
    then have "remove_check F = Inr F" "a_release a = a"
      using fifo_relD(10) [OF r] by (simp_all add: remove_check.simps a_release.simps)
    then show ?thesis using r by simp
  next
    case (Cons x xs)
    have h: "listhead F = Some x" "x < length (items F)" using fifo_relD(8,10) [OF r] Cons by auto
    have it: "it_status (a_items a ! x) = it_status (items F ! x)" "refcnt (a_items a ! x) = refcnt (items F ! x)"
      using fifo_relD(9) [OF r] h by auto
    show ?thesis
    proof (cases "it_status (items F ! x) = DATAFIFO_ITEM_STATUS_DOING \<and> refcnt (items F ! x) = 0")
      case True
      obtain F1 where F1: "datafifo_remove_head_internal_reqlock F = Inr F1"
        "fifo_rel F1 (a_upd x free_item (a\<lparr>a_queue := xs\<rparr>))"
        using remove_head_rel [OF r Cons] by blast
      have "remove_check F = remove_check F1"
        using h True F1(1) by (simp add: remove_check.simps [of F])
      moreover have "a_release a = a_release (a_upd x free_item (a\<lparr>a_queue := xs\<rparr>))"
        using Cons True it by (simp add: a_release.simps [of a])
      ultimately show ?thesis using "1.IH" [OF Cons _ F1(2)] True it by simp
    next
      case False
      then have "remove_check F = Inr F" "a_release a = a"
        using h it Cons by (auto simp: remove_check.simps [of F] a_release.simps [of a])
      then show ?thesis using r by simp
    qed
  qed
qed

end
