(* ===== verification/Datafifo_Delivery.thy ===== *)
theory Datafifo_Delivery
  imports Datafifo_Lists
begin

text \<open>
  Reference counting and delivery of the fifos (\<^verbatim>\<open>recbcsrv/datafifo.c\<close>), on the abstract fifos of
  \<open>Datafifo_Lists\<close>: the invariant of a network of producers and consumers, and for each operation
  of the code that it keeps the invariant and what it does to the frames every consumer will see.
\<close>

section \<open>The invariant of a network\<close>

text \<open>\<open>P\<close> are the producers, \<open>C\<close> the consumers; \<open>A p\<close> the items of \<open>p\<close> that are allocated and not linked yet.\<close>

type_synonym anet = "fifo_id \<Rightarrow> afifo"

abbreviation a_itm :: "anet \<Rightarrow> fifo_id \<Rightarrow> nat \<Rightarrow> t_datafifo_item" where
  "a_itm \<alpha> f i \<equiv> a_items (\<alpha> f) ! i"

definition refs :: "fifo_id set \<Rightarrow> anet \<Rightarrow> item_ptr \<Rightarrow> (fifo_id \<times> nat) set" where
  "refs C \<alpha> r = {(c, j). c \<in> C \<and> j \<in> set (a_queue (\<alpha> c)) \<and> it_ref (a_itm \<alpha> c j) = Some r}"

definition pool_ok :: "afifo \<Rightarrow> nat set \<Rightarrow> bool" where
  "pool_ok a A \<longleftrightarrow> distinct (a_queue a) \<and> set (a_queue a) \<inter> A = {} \<and>
     set (a_queue a) \<union> A \<subseteq> {..<length (a_items a)} \<and>
     (\<forall>i<length (a_items a).
        (it_status (a_items a ! i) \<noteq> DATAFIFO_ITEM_STATUS_INIT) = (i \<in> set (a_queue a) \<union> A))"

definition producer_ok :: "fifo_id set \<Rightarrow> fifo_id \<Rightarrow> afifo \<Rightarrow> nat set \<Rightarrow> bool" where
  "producer_ok C p a A \<longleftrightarrow> pool_ok a A \<and> set (a_consumers a) \<subseteq> C \<and>
     length (a_bufs a) = length (a_items a) \<and>
     (\<forall>i<length (a_items a). length (a_bufs a ! i) = unat (a_maxlen a) + 12 \<and>
        arg_data (a_items a ! i) = Some (p, i) \<and> arg_len (a_items a ! i) \<le> a_maxlen a) \<and>
     (\<forall>i\<in>set (butlast (a_queue a)). it_status (a_items a ! i) = DATAFIFO_ITEM_STATUS_DOING)"

text \<open>A consumer's item is a copy of the producer's item it refers to.\<close>

definition same_args :: "t_datafifo_item \<Rightarrow> t_datafifo_item \<Rightarrow> bool" where
  "same_args x y \<longleftrightarrow> arg_data x = arg_data y \<and> arg_len x = arg_len y \<and> arg_flags x = arg_flags y \<and>
     arg_timestamp x = arg_timestamp y"

abbreviation complete :: "t_datafifo_item \<Rightarrow> bool" where
  "complete it \<equiv> it_status it = DATAFIFO_ITEM_STATUS_READY \<or> it_status it = DATAFIFO_ITEM_STATUS_DOING"

definition ref_ok :: "fifo_id set \<Rightarrow> anet \<Rightarrow> t_datafifo_item \<Rightarrow> bool" where
  "ref_ok P \<alpha> it \<longleftrightarrow> it_status it = DATAFIFO_ITEM_STATUS_READY \<and>
     (\<exists>p i. it_ref it = Some (p, i) \<and> p \<in> P \<and> i \<in> set (a_queue (\<alpha> p)) \<and> complete (a_itm \<alpha> p i) \<and>
        same_args it (a_itm \<alpha> p i))"

definition net_ok :: "fifo_id set \<Rightarrow> fifo_id set \<Rightarrow> anet \<Rightarrow> (fifo_id \<Rightarrow> nat set) \<Rightarrow> bool" where
  "net_ok P C \<alpha> A \<longleftrightarrow> finite C \<and> P \<inter> C = {} \<and>
     (\<forall>p\<in>P. producer_ok C p (\<alpha> p) (A p)) \<and>
     (\<forall>c\<in>C. pool_ok (\<alpha> c) {} \<and> (\<forall>j\<in>set (a_queue (\<alpha> c)). ref_ok P \<alpha> (a_itm \<alpha> c j))) \<and>
     (\<forall>p\<in>P. \<forall>i\<in>set (a_queue (\<alpha> p)). refcnt (a_itm \<alpha> p i) = int (card (refs C \<alpha> (p, i))))"

lemma finite_refs: "finite C \<Longrightarrow> finite (refs C \<alpha> r)"
proof -
  assume "finite C"
  moreover have "refs C \<alpha> r \<subseteq> Sigma C (\<lambda>c. set (a_queue (\<alpha> c)))" by (auto simp: refs_def)
  ultimately show ?thesis by (auto intro: finite_subset)
qed

lemma pool_okD:
  assumes "pool_ok a A"
  shows "distinct (a_queue a)" and "i \<in> set (a_queue a) \<Longrightarrow> i < length (a_items a)"
    and "i \<in> set (a_queue a) \<Longrightarrow> it_status (a_items a ! i) \<noteq> DATAFIFO_ITEM_STATUS_INIT"
    and "i \<in> A \<Longrightarrow> i < length (a_items a)"
    and "i \<in> A \<Longrightarrow> i \<notin> set (a_queue a)"
  using assms unfolding pool_ok_def by blast+

lemma producer_okD:
  assumes "producer_ok C p a A"
  shows "pool_ok a A" and "set (a_consumers a) \<subseteq> C"
    and "i < length (a_items a) \<Longrightarrow> arg_data (a_items a ! i) = Some (p, i)"
    and "i < length (a_items a) \<Longrightarrow> arg_len (a_items a ! i) \<le> a_maxlen a"
    and "i < length (a_items a) \<Longrightarrow> length (a_bufs a ! i) = unat (a_maxlen a) + 12"
    and "i \<in> set (butlast (a_queue a)) \<Longrightarrow> it_status (a_items a ! i) = DATAFIFO_ITEM_STATUS_DOING"
    and "length (a_bufs a) = length (a_items a)"
  using assms unfolding producer_ok_def by blast+

lemma net_okD:
  assumes "net_ok P C \<alpha> A"
  shows "finite C" and "p \<in> P \<Longrightarrow> p \<notin> C" and "p \<in> P \<Longrightarrow> producer_ok C p (\<alpha> p) (A p)"
    and "c \<in> C \<Longrightarrow> pool_ok (\<alpha> c) {}"
    and "c \<in> C \<Longrightarrow> j \<in> set (a_queue (\<alpha> c)) \<Longrightarrow> ref_ok P \<alpha> (a_itm \<alpha> c j)"
    and "p \<in> P \<Longrightarrow> i \<in> set (a_queue (\<alpha> p)) \<Longrightarrow> refcnt (a_itm \<alpha> p i) = int (card (refs C \<alpha> (p, i)))"
  using assms unfolding net_ok_def by blast+

text \<open>An item without references is not referred to by any consumer.\<close>

lemma refcnt_0:
  assumes "net_ok P C \<alpha> A" and "p \<in> P" and "i \<in> set (a_queue (\<alpha> p))" and "refcnt (a_itm \<alpha> p i) = 0"
  shows "refs C \<alpha> (p, i) = {}"
  using net_okD(6) [OF assms(1-3)] assms(4) finite_refs [OF net_okD(1) [OF assms(1)]] by simp

lemma filling_no_refs:
  assumes "net_ok P C \<alpha> A" and "\<not> complete (a_itm \<alpha> p i) \<or> i \<notin> set (a_queue (\<alpha> p))"
  shows "refs C \<alpha> (p, i) = {}"
  using net_okD(5) [OF assms(1)] assms(2) unfolding refs_def ref_ok_def by fastforce

section \<open>Changing one producer\<close>

text \<open>
  A change of one producer keeps the invariant when the producer stays well formed, keeps the
  reference counts, and keeps every item that is referred to.
\<close>

lemma refs_producer: "p \<notin> C \<Longrightarrow> refs C (\<alpha>(p := a)) r = refs C \<alpha> r"
  by (auto simp: refs_def split: if_splits)

lemma net_ok_producer:
  assumes net: "net_ok P C \<alpha> A" and p: "p \<in> P" and ok: "producer_ok C p a Ap"
    and keep: "\<And>i. refs C \<alpha> (p, i) \<noteq> {} \<Longrightarrow> i \<in> set (a_queue (\<alpha> p)) \<Longrightarrow> complete (a_itm \<alpha> p i) \<Longrightarrow>
      i \<in> set (a_queue a) \<and> complete (a_items a ! i) \<and> same_args (a_itm \<alpha> p i) (a_items a ! i)"
    and cnt: "\<And>i. i \<in> set (a_queue a) \<Longrightarrow> refcnt (a_items a ! i) = int (card (refs C \<alpha> (p, i)))"
  shows "net_ok P C (\<alpha>(p := a)) (A(p := Ap))"
proof -
  have pc: "p \<notin> C" using net_okD(2) [OF net p] .
  have "ref_ok P (\<alpha>(p := a)) (a_itm \<alpha> c j)" if c: "c \<in> C" "j \<in> set (a_queue (\<alpha> c))" for c j
  proof -
    obtain q i where ref: "it_status (a_itm \<alpha> c j) = DATAFIFO_ITEM_STATUS_READY"
      "it_ref (a_itm \<alpha> c j) = Some (q, i)" "q \<in> P" "i \<in> set (a_queue (\<alpha> q))" "complete (a_itm \<alpha> q i)"
      "same_args (a_itm \<alpha> c j) (a_itm \<alpha> q i)"
      using net_okD(5) [OF net c] unfolding ref_ok_def by blast
    show ?thesis
    proof (cases "q = p")
      case True
      have "(c, j) \<in> refs C \<alpha> (p, i)" using c ref True by (simp add: refs_def)
      then have k: "i \<in> set (a_queue a)" "complete (a_items a ! i)" "same_args (a_itm \<alpha> p i) (a_items a ! i)"
        using keep [of i] ref True by blast+
      then show ?thesis unfolding ref_ok_def using ref True
        by (intro conjI exI [of _ q] exI [of _ i]) (auto simp: same_args_def)
    next
      case False
      then show ?thesis using ref unfolding ref_ok_def
        by (intro conjI exI [of _ q] exI [of _ i]) auto
    qed
  qed
  then show ?thesis
    using net ok pc cnt unfolding net_ok_def by (auto simp: refs_producer)
qed

text \<open>The same for a change of one item.\<close>

lemma pool_ok_upd:
  assumes "pool_ok a A" and "i < length (a_items a)"
    and "(it_status (g (a_items a ! i)) = DATAFIFO_ITEM_STATUS_INIT) = (it_status (a_items a ! i) = DATAFIFO_ITEM_STATUS_INIT)"
  shows "pool_ok (a_upd i g a) A"
  using assms unfolding pool_ok_def by (auto simp: a_items_upd)

lemma producer_ok_upd:
  assumes ok: "producer_ok C p a A" and i: "i < length (a_items a)"
    and st: "(it_status (g (a_items a ! i)) = DATAFIFO_ITEM_STATUS_INIT) = (it_status (a_items a ! i) = DATAFIFO_ITEM_STATUS_INIT)"
    and dat: "arg_data (g (a_items a ! i)) = arg_data (a_items a ! i)" "arg_len (g (a_items a ! i)) \<le> a_maxlen a"
    and bl: "i \<in> set (butlast (a_queue a)) \<Longrightarrow> it_status (g (a_items a ! i)) = DATAFIFO_ITEM_STATUS_DOING"
  shows "producer_ok C p (a_upd i g a) A"
proof -
  note D = producer_okD [OF ok]
  have lt: "j < length (a_items a)" if "j \<in> set (butlast (a_queue a))" for j
    using pool_okD(2) [OF D(1)] in_set_butlastD [OF that] .
  have "it_status (a_items (a_upd i g a) ! j) = DATAFIFO_ITEM_STATUS_DOING" if "j \<in> set (butlast (a_queue a))" for j
    using D(6) [OF that] bl that a_items_upd [OF lt [OF that], of i g] by auto
  then show ?thesis
    using pool_ok_upd [of a A i g, OF D(1) i st] D(2,7) D(3-5) dat i
    unfolding producer_ok_def by (auto simp: a_items_upd)
qed

lemma net_ok_upd:
  assumes net: "net_ok P C \<alpha> A" and p: "p \<in> P" and i: "i < length (a_items (\<alpha> p))"
    and st: "(it_status (g (a_itm \<alpha> p i)) = DATAFIFO_ITEM_STATUS_INIT) = (it_status (a_itm \<alpha> p i) = DATAFIFO_ITEM_STATUS_INIT)"
    and dat: "arg_data (g (a_itm \<alpha> p i)) = arg_data (a_itm \<alpha> p i)" "arg_len (g (a_itm \<alpha> p i)) \<le> a_maxlen (\<alpha> p)"
    and bl: "i \<in> set (butlast (a_queue (\<alpha> p))) \<Longrightarrow> it_status (g (a_itm \<alpha> p i)) = DATAFIFO_ITEM_STATUS_DOING"
    and keep: "i \<in> set (a_queue (\<alpha> p)) \<Longrightarrow> complete (a_itm \<alpha> p i) \<Longrightarrow>
       complete (g (a_itm \<alpha> p i)) \<and> same_args (a_itm \<alpha> p i) (g (a_itm \<alpha> p i))"
    and cnt: "refcnt (g (a_itm \<alpha> p i)) = refcnt (a_itm \<alpha> p i)"
  shows "net_ok P C (\<alpha>(p := a_upd i g (\<alpha> p))) A"
proof -
  note ok = net_okD(3) [OF net p]
  have q: "j < length (a_items (\<alpha> p))" if "j \<in> set (a_queue (\<alpha> p))" for j
    using pool_okD(2) [OF producer_okD(1) [OF ok] that] .
  have "net_ok P C (\<alpha>(p := a_upd i g (\<alpha> p))) (A(p := A p))"
  proof (rule net_ok_producer [OF net p])
    show "producer_ok C p (a_upd i g (\<alpha> p)) (A p)"
      using producer_ok_upd [of C p "\<alpha> p" "A p" i g] ok i st dat bl by blast
    show "j \<in> set (a_queue (a_upd i g (\<alpha> p))) \<and> complete (a_items (a_upd i g (\<alpha> p)) ! j) \<and>
        same_args (a_itm \<alpha> p j) (a_items (a_upd i g (\<alpha> p)) ! j)"
      if "j \<in> set (a_queue (\<alpha> p))" "complete (a_itm \<alpha> p j)" for j
      using that keep a_items_upd [OF q [OF that(1)], of i g] by (auto simp: same_args_def)
    show "refcnt (a_items (a_upd i g (\<alpha> p)) ! j) = int (card (refs C \<alpha> (p, j)))"
      if "j \<in> set (a_queue (a_upd i g (\<alpha> p)))" for j
      using that net_okD(6) [OF net p, of j] cnt a_items_upd [OF q, of j i g] by auto
  qed
  then show ?thesis by simp
qed

section \<open>Changing the lists\<close>

text \<open>Allocating an item of a producer, and linking it.\<close>

lemma net_ok_alloc:
  assumes net: "net_ok P C \<alpha> A" and p: "p \<in> P" and A: "A p = {}"
    and i: "i < length (a_items (\<alpha> p))" "it_status (a_itm \<alpha> p i) = DATAFIFO_ITEM_STATUS_INIT"
  shows "net_ok P C (\<alpha>(p := a_upd i reset_item (\<alpha> p))) (A(p := {i}))"
proof -
  note ok = net_okD(3) [OF net p]
  note D = producer_okD [OF ok]
  have nq: "i \<notin> set (a_queue (\<alpha> p))" using pool_okD(3) [OF D(1)] i(2) by blast
  have other: "a_items (a_upd i reset_item (\<alpha> p)) ! j = a_itm \<alpha> p j" if "j \<in> set (a_queue (\<alpha> p))" for j
  proof -
    have "j \<noteq> i" using that nq by auto
    then show ?thesis by (simp add: a_upd_def)
  qed
  have bl: "j \<in> set (a_queue (\<alpha> p))" if "j \<in> set (butlast (a_queue (\<alpha> p)))" for j
    using that by (rule in_set_butlastD)
  have pool: "pool_ok (a_upd i reset_item (\<alpha> p)) {i}"
    using D(1) i nq A unfolding pool_ok_def by (auto simp: a_items_upd reset_item_def)
  have "producer_ok C p (a_upd i reset_item (\<alpha> p)) {i}"
    using pool D(2,7) D(3-6) i other bl unfolding producer_ok_def
    by (auto simp: a_items_upd reset_item_def)
  then show ?thesis
    by (rule net_ok_producer [OF net p]) (use other net_okD(6) [OF net p] in \<open>auto simp: same_args_def\<close>)
qed

lemma net_ok_append:
  assumes net: "net_ok P C \<alpha> A" and p: "p \<in> P" and i: "i \<in> A p" "refcnt (a_itm \<alpha> p i) = 0"
    and done_items: "\<forall>j\<in>set (a_queue (\<alpha> p)). it_status (a_itm \<alpha> p j) = DATAFIFO_ITEM_STATUS_DOING"
  shows "net_ok P C (\<alpha>(p := (\<alpha> p)\<lparr>a_queue := a_queue (\<alpha> p) @ [i]\<rparr>)) (A(p := A p - {i}))"
proof (rule net_ok_producer [OF net p])
  note D = producer_okD [OF net_okD(3) [OF net p]]
  have nq: "i \<notin> set (a_queue (\<alpha> p))" using pool_okD(5) [OF D(1) i(1)] .
  have "pool_ok ((\<alpha> p)\<lparr>a_queue := a_queue (\<alpha> p) @ [i]\<rparr>) (A p - {i})"
    using D(1) i(1) nq unfolding pool_ok_def by auto
  then show "producer_ok C p ((\<alpha> p)\<lparr>a_queue := a_queue (\<alpha> p) @ [i]\<rparr>) (A p - {i})"
    using D(2-7) done_items unfolding producer_ok_def by simp
  show "j \<in> set (a_queue ((\<alpha> p)\<lparr>a_queue := a_queue (\<alpha> p) @ [i]\<rparr>)) \<and>
      complete (a_items ((\<alpha> p)\<lparr>a_queue := a_queue (\<alpha> p) @ [i]\<rparr>) ! j) \<and>
      same_args (a_itm \<alpha> p j) (a_items ((\<alpha> p)\<lparr>a_queue := a_queue (\<alpha> p) @ [i]\<rparr>) ! j)"
    if "j \<in> set (a_queue (\<alpha> p))" "complete (a_itm \<alpha> p j)" for j
    using that by (simp add: same_args_def)
  show "refcnt (a_items ((\<alpha> p)\<lparr>a_queue := a_queue (\<alpha> p) @ [i]\<rparr>) ! j) = int (card (refs C \<alpha> (p, j)))"
    if "j \<in> set (a_queue ((\<alpha> p)\<lparr>a_queue := a_queue (\<alpha> p) @ [i]\<rparr>))" for j
    using that net_okD(6) [OF net p, of j] i(2) filling_no_refs [OF net, of p i] nq by auto
qed

text \<open>Releasing the head of a producer, alone and repeatedly.\<close>

lemma net_ok_release1:
  assumes net: "net_ok P C \<alpha> A" and p: "p \<in> P" and q: "a_queue (\<alpha> p) = x # xs"
    and x: "it_status (a_itm \<alpha> p x) = DATAFIFO_ITEM_STATUS_DOING" "refcnt (a_itm \<alpha> p x) = 0"
  shows "net_ok P C (\<alpha>(p := a_upd x free_item ((\<alpha> p)\<lparr>a_queue := xs\<rparr>))) A"
proof -
  note D = producer_okD [OF net_okD(3) [OF net p]]
  let ?a = "a_upd x free_item ((\<alpha> p)\<lparr>a_queue := xs\<rparr>)"
  have nx: "x \<notin> set xs" "x < length (a_items (\<alpha> p))" "x \<notin> A p"
    using D(1) q unfolding pool_ok_def by auto
  have nr: "refs C \<alpha> (p, x) = {}" using refcnt_0 [OF net p _ x(2)] q by simp
  have other: "a_items ?a ! j = a_itm \<alpha> p j" if "j \<noteq> x" for j using that by (simp add: a_upd_def)
  have own: "a_items ?a ! x = free_item (a_itm \<alpha> p x)" using nx by (simp add: a_upd_def)
  have pool: "pool_ok ?a (A p)"
    using D(1) q nx unfolding pool_ok_def by (auto simp: a_upd_def nth_list_update')
  have bl: "it_status (a_items ?a ! j) = DATAFIFO_ITEM_STATUS_DOING" if "j \<in> set (butlast xs)" for j
  proof -
    have "j \<in> set (butlast (a_queue (\<alpha> p)))" using that q by (cases xs) auto
    moreover have "j \<noteq> x" using in_set_butlastD [OF that] nx(1) by auto
    ultimately show ?thesis using D(6) other by simp
  qed
  then have "\<forall>j\<in>set (butlast (a_queue ?a)). it_status (a_items ?a ! j) = DATAFIFO_ITEM_STATUS_DOING"
    by simp
  then have "producer_ok C p ?a (A p)"
    using pool D(2-5,7) nx unfolding producer_ok_def by (auto simp: a_items_upd)
  then have "net_ok P C (\<alpha>(p := ?a)) (A(p := A p))"
  proof (rule net_ok_producer [OF net p])
    show "j \<in> set (a_queue ?a) \<and> complete (a_items ?a ! j) \<and> same_args (a_itm \<alpha> p j) (a_items ?a ! j)"
      if "refs C \<alpha> (p, j) \<noteq> {}" "j \<in> set (a_queue (\<alpha> p))" "complete (a_itm \<alpha> p j)" for j
    proof -
      have "j \<noteq> x" using that(1) nr by auto
      then show ?thesis using that(2,3) q other [of j] by (auto simp: same_args_def)
    qed
    show "refcnt (a_items ?a ! j) = int (card (refs C \<alpha> (p, j)))" if "j \<in> set (a_queue ?a)" for j
    proof -
      have "j \<noteq> x" "j \<in> set xs" using that nx by auto
      then show ?thesis using net_okD(6) [OF net p, of j] q other [of j] by simp
    qed
  qed
  then show ?thesis by simp
qed

lemma net_ok_release:
  "net_ok P C \<alpha> A \<Longrightarrow> p \<in> P \<Longrightarrow> \<alpha> p = a \<Longrightarrow> net_ok P C (\<alpha>(p := a_release a)) A"
proof (induction a arbitrary: \<alpha> rule: a_release.induct)
  case (1 a)
  show ?case
  proof (cases "\<exists>x xs. a_queue a = x # xs \<and> it_status (a_items a ! x) = DATAFIFO_ITEM_STATUS_DOING \<and>
      refcnt (a_items a ! x) = 0")
    case True
    then obtain x xs where x: "a_queue a = x # xs" "it_status (a_items a ! x) = DATAFIFO_ITEM_STATUS_DOING"
      "refcnt (a_items a ! x) = 0" by blast
    let ?b = "a_upd x free_item (a\<lparr>a_queue := xs\<rparr>)"
    have "net_ok P C (\<alpha>(p := ?b)) A"
      using net_ok_release1 [OF "1.prems"(1,2), of x xs] x "1.prems"(3) by simp
    then have "net_ok P C ((\<alpha>(p := ?b))(p := a_release ?b)) A"
      by (rule "1.IH" [OF x(1) conjI [OF x(2,3)] _ "1.prems"(2) fun_upd_same])
    then have "net_ok P C (\<alpha>(p := a_release ?b)) A"
      by (simp only: fun_upd_upd)
    moreover have "a_release a = a_release ?b" using x by (simp add: a_release.simps [of a])
    ultimately show ?thesis by (simp only:)
  next
    case False
    then have "a_release a = a" by (auto simp: a_release.simps [of a] split: list.split)
    then show ?thesis using "1.prems" by (simp add: fun_upd_idem)
  qed
qed

lemma a_release_simps:
  "length (a_items (a_release a)) = length (a_items a)" "a_maxlen (a_release a) = a_maxlen a"
  "a_bufs (a_release a) = a_bufs a" "a_consumers (a_release a) = a_consumers a"
  by (induction a rule: a_release.induct; subst a_release.simps; simp split: list.split)+

section \<open>Adding and dropping a reference\<close>

lemma ref_ok_mono:
  assumes "ref_ok P \<alpha> it"
    and "\<And>q k. q \<in> P \<Longrightarrow> k \<in> set (a_queue (\<alpha> q)) \<Longrightarrow>
       k \<in> set (a_queue (\<alpha>' q)) \<and> it_status (a_itm \<alpha>' q k) = it_status (a_itm \<alpha> q k) \<and>
       same_args (a_itm \<alpha> q k) (a_itm \<alpha>' q k)"
  shows "ref_ok P \<alpha>' it"
proof -
  obtain q k where "it_status it = DATAFIFO_ITEM_STATUS_READY" "it_ref it = Some (q, k)" "q \<in> P"
    "k \<in> set (a_queue (\<alpha> q))" "complete (a_itm \<alpha> q k)" "same_args it (a_itm \<alpha> q k)"
    using assms(1) unfolding ref_ok_def by blast
  then show ?thesis unfolding ref_ok_def using assms(2) [of q k]
    by (intro conjI exI [of _ q] exI [of _ k]) (auto simp: same_args_def)
qed

definition add_cnt :: "int \<Rightarrow> t_datafifo_item \<Rightarrow> t_datafifo_item" where
  "add_cnt d it = it\<lparr>refcnt := refcnt it + d\<rparr>"

lemma add_cnt_simps [simp]:
  "it_status (add_cnt d it) = it_status it" "arg_data (add_cnt d it) = arg_data it"
  "arg_len (add_cnt d it) = arg_len it" "same_args it (add_cnt d it)" "refcnt (add_cnt d it) = refcnt it + d"
  "it_next (add_cnt d it) = it_next it" "it_prev (add_cnt d it) = it_prev it"
  "core (add_cnt d it) = add_cnt d (core it)" "it_ref (add_cnt d it) = it_ref it"
  by (simp_all add: add_cnt_def same_args_def core_def)

lemma same_args_refl [simp]: "same_args it it"
  by (simp add: same_args_def)

lemma producer_ok_cnt:
  assumes "producer_ok C p a A" and "i < length (a_items a)"
  shows "producer_ok C p (a_upd i (add_cnt d) a) A"
  using producer_ok_upd [OF assms, of "add_cnt d"] producer_okD(4,6) [OF assms(1)] assms(2) by simp

text \<open>The new reference \<open>(c, j)\<close> to item \<open>(p, i)\<close>.\<close>

definition a_announce ::
    "fifo_id \<Rightarrow> nat \<Rightarrow> fifo_id \<Rightarrow> nat \<Rightarrow> t_datafifo_item \<Rightarrow> anet \<Rightarrow> anet" where
  "a_announce p i c j n \<alpha> =
     \<alpha>(c := (a_upd j (\<lambda>_. n) (\<alpha> c))\<lparr>a_queue := a_queue (\<alpha> c) @ [j]\<rparr>, p := a_upd i (add_cnt 1) (\<alpha> p))"

lemma net_ok_announce:
  assumes net: "net_ok P C \<alpha> A" and p: "p \<in> P" and c: "c \<in> C"
    and i: "i \<in> set (a_queue (\<alpha> p))" "complete (a_itm \<alpha> p i)"
    and j: "j < length (a_items (\<alpha> c))" "it_status (a_itm \<alpha> c j) = DATAFIFO_ITEM_STATUS_INIT"
    and n: "it_status n = DATAFIFO_ITEM_STATUS_READY" "it_ref n = Some (p, i)" "same_args n (a_itm \<alpha> p i)"
  shows "net_ok P C (a_announce p i c j n \<alpha>) A"
proof -
  let ?\<alpha> = "a_announce p i c j n \<alpha>"
  have pc: "p \<noteq> c" "\<And>q. q \<in> P \<Longrightarrow> q \<noteq> c" "\<And>d. d \<in> C \<Longrightarrow> d \<noteq> p"
    using net_okD(2) [OF net] p c by auto
  have il: "i < length (a_items (\<alpha> p))" using pool_okD(2) [OF producer_okD(1) [OF net_okD(3) [OF net p]] i(1)] .
  have jq: "j \<notin> set (a_queue (\<alpha> c))" using pool_okD(3) [OF net_okD(4) [OF net c]] j(2) by blast
  have prod: "?\<alpha> q = (if q = p then a_upd i (add_cnt 1) (\<alpha> p) else \<alpha> q)" if "q \<in> P" for q
    using pc that by (simp add: a_announce_def)
  have cons: "?\<alpha> d = (if d = c then (a_upd j (\<lambda>_. n) (\<alpha> c))\<lparr>a_queue := a_queue (\<alpha> c) @ [j]\<rparr> else \<alpha> d)"
    if "d \<in> C" for d using pc that by (simp add: a_announce_def)
  have item: "a_itm ?\<alpha> d k = a_itm \<alpha> d k" if "d \<in> C" "k \<in> set (a_queue (\<alpha> d))" for d k
  proof -
    have "d = c \<Longrightarrow> k \<noteq> j" using that jq by auto
    then show ?thesis using cons [OF that(1)] by (auto simp: a_upd_def)
  qed
  have new: "a_itm ?\<alpha> c j = n" using cons [OF c] j by (simp add: a_upd_def)
  have mono: "k \<in> set (a_queue (?\<alpha> q)) \<and> it_status (a_itm ?\<alpha> q k) = it_status (a_itm \<alpha> q k) \<and>
      same_args (a_itm \<alpha> q k) (a_itm ?\<alpha> q k)" if "q \<in> P" "k \<in> set (a_queue (\<alpha> q))" for q k
    using prod [OF that(1)] that(2) il by (auto simp: a_upd_def nth_list_update)
  have memq: "k \<in> set (a_queue (?\<alpha> d)) \<longleftrightarrow> k \<in> set (a_queue (\<alpha> d)) \<or> (d, k) = (c, j)" if "d \<in> C" for d k
    using cons [OF that] by auto
  have refs: "refs C ?\<alpha> r = (if r = (p, i) then insert (c, j) (refs C \<alpha> r) else refs C \<alpha> r)" for r
  proof -
    have "(d, k) \<in> refs C ?\<alpha> r \<longleftrightarrow> (d, k) \<in> (if r = (p, i) then insert (c, j) (refs C \<alpha> r) else refs C \<alpha> r)"
      for d k
    proof (cases "(d, k) = (c, j)")
      case True
      then show ?thesis using c new n(2) memq [OF c, of j] jq by (auto simp: refs_def)
    next
      case False
      then show ?thesis using memq [of d k] item [of d k] unfolding refs_def by auto
    qed
    then show ?thesis by auto
  qed
  have fresh: "(c, j) \<notin> refs C \<alpha> (p, i)" using jq by (simp add: refs_def)
  have "producer_ok C q (?\<alpha> q) (A q)" if "q \<in> P" for q
    using prod [OF that] net_okD(3) [OF net that] producer_ok_cnt [OF net_okD(3) [OF net p] il] by simp
  moreover have "pool_ok (?\<alpha> d) {}" if "d \<in> C" for d
    using cons [OF that] net_okD(4) [OF net that] j jq n(1) unfolding pool_ok_def
    by (auto simp: a_upd_def nth_list_update')
  moreover have "ref_ok P ?\<alpha> (a_itm ?\<alpha> d k)" if d: "d \<in> C" "k \<in> set (a_queue (?\<alpha> d))" for d k
  proof (cases "d = c \<and> k = j")
    case True
    then show ?thesis using n p i new mono [OF p i(1)] unfolding ref_ok_def
      by (intro conjI exI [of _ p] exI [of _ i]) (auto simp: same_args_def)
  next
    case False
    then have k: "k \<in> set (a_queue (\<alpha> d))" using d cons [OF d(1)] by (auto split: if_splits)
    show ?thesis using ref_ok_mono [OF net_okD(5) [OF net d(1) k] mono] item [OF d(1) k] by simp
  qed
  moreover have "refcnt (a_itm ?\<alpha> q k) = int (card (refs C ?\<alpha> (q, k)))"
    if q: "q \<in> P" "k \<in> set (a_queue (?\<alpha> q))" for q k
    using prod [OF q(1)] q net_okD(6) [OF net q(1), of k] refs [of "(q, k)"] fresh il
      finite_refs [OF net_okD(1) [OF net], of \<alpha> "(p, i)"]
    by (auto simp: a_upd_def nth_list_update split: if_splits)
  ultimately show ?thesis using net unfolding net_ok_def by blast
qed

text \<open>Consuming the head of \<open>c\<close>, which refers to \<open>(p, i)\<close>.\<close>

definition a_consume :: "fifo_id \<Rightarrow> nat \<Rightarrow> fifo_id \<Rightarrow> nat \<Rightarrow> nat list \<Rightarrow> anet \<Rightarrow> anet" where
  "a_consume p i c j js \<alpha> =
     \<alpha>(c := a_upd j free_item ((\<alpha> c)\<lparr>a_queue := js\<rparr>), p := a_upd i (add_cnt (-1)) (\<alpha> p))"

lemma net_ok_consume:
  assumes net: "net_ok P C \<alpha> A" and c: "c \<in> C" and q: "a_queue (\<alpha> c) = j # js"
    and r: "it_ref (a_itm \<alpha> c j) = Some (p, i)"
  shows "net_ok P C (a_consume p i c j js \<alpha>) A"
proof -
  let ?\<alpha> = "a_consume p i c j js \<alpha>"
  have "ref_ok P \<alpha> (a_itm \<alpha> c j)" using net_okD(5) [OF net c] q by simp
  then have p: "p \<in> P" and i: "i \<in> set (a_queue (\<alpha> p))" using r by (auto simp: ref_ok_def)
  have pc: "p \<noteq> c" "\<And>q. q \<in> P \<Longrightarrow> q \<noteq> c" "\<And>d. d \<in> C \<Longrightarrow> d \<noteq> p"
    using net_okD(2) [OF net] p c by auto
  have il: "i < length (a_items (\<alpha> p))" using pool_okD(2) [OF producer_okD(1) [OF net_okD(3) [OF net p]] i] .
  have jq: "j \<notin> set js" "j < length (a_items (\<alpha> c))"
    using net_okD(4) [OF net c] q unfolding pool_ok_def by auto
  have prod: "?\<alpha> q = (if q = p then a_upd i (add_cnt (-1)) (\<alpha> p) else \<alpha> q)" if "q \<in> P" for q
    using pc that by (simp add: a_consume_def)
  have cons: "?\<alpha> d = (if d = c then a_upd j free_item ((\<alpha> c)\<lparr>a_queue := js\<rparr>) else \<alpha> d)"
    if "d \<in> C" for d using pc that by (simp add: a_consume_def)
  have item: "k \<in> set (a_queue (\<alpha> d)) \<and> a_itm ?\<alpha> d k = a_itm \<alpha> d k" if "d \<in> C" "k \<in> set (a_queue (?\<alpha> d))" for d k
  proof -
    have "d = c \<Longrightarrow> k \<noteq> j" using that jq cons [OF that(1)] by auto
    then show ?thesis using cons [OF that(1)] that(2) q by (auto simp: a_upd_def split: if_splits)
  qed
  have mono: "k \<in> set (a_queue (?\<alpha> q)) \<and> it_status (a_itm ?\<alpha> q k) = it_status (a_itm \<alpha> q k) \<and>
      same_args (a_itm \<alpha> q k) (a_itm ?\<alpha> q k)" if "q \<in> P" "k \<in> set (a_queue (\<alpha> q))" for q k
    using prod [OF that(1)] that(2) il by (auto simp: a_upd_def nth_list_update)
  have refs: "refs C ?\<alpha> r' = refs C \<alpha> r' - {(c, j)}" for r'
  proof -
    have "(d, k) \<in> refs C ?\<alpha> r' \<longleftrightarrow> (d, k) \<in> refs C \<alpha> r' - {(c, j)}" for d k
      using cons [of d] item [of d k] jq q by (auto simp: refs_def split: if_splits)
    then show ?thesis by auto
  qed
  have mem: "((c, j) \<in> refs C \<alpha> r') = (r' = (p, i))" for r'
    using c q r by (auto simp: refs_def)
  have "producer_ok C q (?\<alpha> q) (A q)" if "q \<in> P" for q
    using prod [OF that] net_okD(3) [OF net that] producer_ok_cnt [OF net_okD(3) [OF net p] il] by simp
  moreover have "pool_ok (?\<alpha> d) {}" if "d \<in> C" for d
    using cons [OF that] net_okD(4) [OF net that] jq q unfolding pool_ok_def
    by (auto simp: a_upd_def nth_list_update')
  moreover have "ref_ok P ?\<alpha> (a_itm ?\<alpha> d k)" if d: "d \<in> C" "k \<in> set (a_queue (?\<alpha> d))" for d k
  proof -
    have k: "k \<in> set (a_queue (\<alpha> d))" "a_itm ?\<alpha> d k = a_itm \<alpha> d k" using item [OF d] by auto
    show ?thesis using ref_ok_mono [OF net_okD(5) [OF net d(1) k(1)] mono] k(2) by simp
  qed
  moreover have "refcnt (a_itm ?\<alpha> q k) = int (card (refs C ?\<alpha> (q, k)))"
    if q: "q \<in> P" "k \<in> set (a_queue (?\<alpha> q))" for q k
  proof -
    have fin: "finite (refs C \<alpha> (q, k))" by (rule finite_refs [OF net_okD(1) [OF net]])
    have kq: "k \<in> set (a_queue (\<alpha> q))" using prod [OF q(1)] q(2) by (auto split: if_splits)
    have old: "refcnt (a_itm \<alpha> q k) = int (card (refs C \<alpha> (q, k)))" by (rule net_okD(6) [OF net q(1) kq])
    show ?thesis
    proof (cases "(q, k) = (p, i)")
      case True
      then have "(c, j) \<in> refs C \<alpha> (q, k)" using mem by simp
      then have "card (refs C \<alpha> (q, k)) = Suc (card (refs C \<alpha> (q, k) - {(c, j)}))"
        using fin by (metis card_Suc_Diff1)
      then show ?thesis using True old refs [of "(q, k)"] prod [OF q(1)] il by (simp add: a_items_upd)
    next
      case False
      then have "refs C ?\<alpha> (q, k) = refs C \<alpha> (q, k)" using mem refs by auto
      moreover have "a_itm ?\<alpha> q k = a_itm \<alpha> q k" using False prod [OF q(1)] by (auto simp: a_upd_def)
      ultimately show ?thesis using old by simp
    qed
  qed
  ultimately show ?thesis using net unfolding net_ok_def by blast
qed

section \<open>Frames\<close>

definition a_frame :: "anet \<Rightarrow> t_datafifo_item \<Rightarrow> frame" where
  "a_frame \<alpha> it =
     (case arg_data it of None \<Rightarrow> [] | Some (f, i) \<Rightarrow> take (unat (arg_len it)) (a_bufs (\<alpha> f) ! i),
      arg_flags it, arg_timestamp it)"

definition a_frames :: "anet \<Rightarrow> fifo_id \<Rightarrow> frame list" where
  "a_frames \<alpha> c = map (\<lambda>j. a_frame \<alpha> (a_itm \<alpha> c j)) (a_queue (\<alpha> c))"

lemma a_frame_same_args: "same_args x y \<Longrightarrow> a_frame \<alpha> x = a_frame \<alpha> y"
  by (simp add: a_frame_def same_args_def split: option.split)

lemma a_frame_bufs: "(\<And>f. a_bufs (\<beta> f) = a_bufs (\<alpha> f)) \<Longrightarrow> a_frame \<beta> it = a_frame \<alpha> it"
  by (simp add: a_frame_def split: option.split)

lemma a_frames_producer:
  assumes "c \<noteq> p" and "a_bufs a = a_bufs (\<alpha> p)"
  shows "a_frames (\<alpha>(p := a)) c = a_frames \<alpha> c"
proof -
  have "a_frame (\<alpha>(p := a)) it = a_frame \<alpha> it" for it
    using assms by (intro a_frame_bufs) simp
  then show ?thesis using assms(1) by (simp add: a_frames_def)
qed

lemma a_frames_announce:
  assumes "c \<noteq> p" and "d \<noteq> p" and "j \<notin> set (a_queue (\<alpha> c))" and "j < length (a_items (\<alpha> c))"
    and "same_args n (a_itm \<alpha> p i)"
  shows "a_frames (a_announce p i c j n \<alpha>) d
       = a_frames \<alpha> d @ (if d = c then [a_frame \<alpha> (a_itm \<alpha> p i)] else [])"
proof -
  have fr: "a_frame (a_announce p i c j n \<alpha>) it = a_frame \<alpha> it" for it
    by (rule a_frame_bufs) (simp add: a_announce_def)
  show ?thesis
  proof (cases "d = c")
    case True
    have "a_itm (a_announce p i c j n \<alpha>) c k = (if k = j then n else a_itm \<alpha> c k)" for k
      using assms(1,4) by (auto simp: a_announce_def a_upd_def)
    moreover have "a_queue (a_announce p i c j n \<alpha> c) = a_queue (\<alpha> c) @ [j]"
      using assms(1) by (simp add: a_announce_def)
    ultimately show ?thesis
      using True assms(3) a_frame_same_args [OF assms(5)] by (auto simp: a_frames_def fr)
  next
    case False
    then show ?thesis using assms(2) by (simp add: a_frames_def fr) (simp add: a_announce_def)
  qed
qed

lemma a_frames_consume:
  assumes "p \<noteq> c" and "d \<noteq> p" and "a_queue (\<alpha> c) = j # js" and "j \<notin> set js"
  shows "a_frames (a_consume p i c j js \<alpha>) d = (if d = c then tl (a_frames \<alpha> c) else a_frames \<alpha> d)"
proof -
  have fr: "a_frame (a_consume p i c j js \<alpha>) it = a_frame \<alpha> it" for it
    by (rule a_frame_bufs) (simp add: a_consume_def)
  have "a_itm (a_consume p i c j js \<alpha>) c k = a_itm \<alpha> c k" if "k \<in> set js" for k
  proof -
    have "k \<noteq> j" using that assms(4) by auto
    then show ?thesis using assms(1) by (simp add: a_consume_def a_upd_def)
  qed
  then show ?thesis
    using assms by (auto simp: a_frames_def fr) (simp_all add: a_consume_def)
qed

section \<open>The store and its abstraction\<close>

definition rels :: "fifo_id set \<Rightarrow> fifos \<Rightarrow> anet \<Rightarrow> bool" where
  "rels S s \<alpha> \<longleftrightarrow> (\<forall>f\<in>S. fifo_rel (s f) (\<alpha> f))"

lemma relsD: "rels S s \<alpha> \<Longrightarrow> f \<in> S \<Longrightarrow> fifo_rel (s f) (\<alpha> f)"
  by (simp add: rels_def)

lemma rels_upd: "rels S s \<alpha> \<Longrightarrow> fifo_rel F a \<Longrightarrow> rels S (s(f := F)) (\<alpha>(f := a))"
  by (simp add: rels_def)

lemma on_fifo_rels:
  assumes "rels S s \<alpha>" and "f \<in> S" and "body (s f) = Inr F" and "fifo_rel F a"
  shows "on_fifo f body s = Inr (s(f := F)) \<and> rels S (s(f := F)) (\<alpha>(f := a))"
  using assms rels_upd fifo_relD(6) [OF relsD [OF assms(1,2)]] by (simp add: on_fifo_def)

lemma frames_abs:
  assumes rel: "rels (P \<union> C) s \<alpha>" and net: "net_ok P C \<alpha> A" and c: "c \<in> C"
  shows "frames s c = a_frames \<alpha> c"
proof -
  have r: "fifo_rel (s c) (\<alpha> c)" using relsD [OF rel] c by simp
  have "frame_of s (itm s c j) = a_frame \<alpha> (a_itm \<alpha> c j)" if j: "j \<in> set (a_queue (\<alpha> c))" for j
  proof -
    obtain p i where p: "p \<in> P" "i \<in> set (a_queue (\<alpha> p))" "same_args (a_itm \<alpha> c j) (a_itm \<alpha> p i)"
      using net_okD(5) [OF net c j] unfolding ref_ok_def by blast
    have "i < length (a_items (\<alpha> p))"
      using pool_okD(2) [OF producer_okD(1) [OF net_okD(3) [OF net p(1)]] p(2)] .
    then have d: "arg_data (a_itm \<alpha> c j) = Some (p, i)"
      using producer_okD(3) [OF net_okD(3) [OF net p(1)]] p(3) by (simp add: same_args_def)
    have "a_bufs (\<alpha> p) = bufs (s p)" using fifo_relD(4) [OF relsD [OF rel]] p(1) by simp
    moreover have "a_itm \<alpha> c j = core (itm s c j)" using fifo_relD(8,9) [OF r] j by auto
    ultimately show ?thesis using d by (simp add: frame_of_def a_frame_def)
  qed
  then show ?thesis using fifo_rel_queue [OF r] by (auto simp: frames_def a_frames_def)
qed

lemma free_slot:
  assumes "fifo_rel F a" and "pool_ok a A" and "card A + length (a_queue a) < length (a_items a)"
  shows "\<exists>i<length (items F). it_status (items F ! i) = DATAFIFO_ITEM_STATUS_INIT"
proof (rule ccontr)
  assume none: "\<not> ?thesis"
  have "{..<length (a_items a)} \<subseteq> set (a_queue a) \<union> A"
  proof
    fix i assume "i \<in> {..<length (a_items a)}"
    then have "i < length (a_items a)" by simp
    moreover from this have "it_status (a_items a ! i) \<noteq> DATAFIFO_ITEM_STATUS_INIT"
      using none fifo_relD(7,9) [OF assms(1)] by auto
    ultimately show "i \<in> set (a_queue a) \<union> A" using assms(2) unfolding pool_ok_def by blast
  qed
  moreover have "finite (set (a_queue a) \<union> A)"
    using assms(2) unfolding pool_ok_def by (meson finite_lessThan finite_subset)
  ultimately have "length (a_items a) \<le> card (set (a_queue a) \<union> A)"
    by (metis card_lessThan card_mono)
  also have "\<dots> \<le> card (set (a_queue a)) + card A" by (rule card_Un_le)
  also have "\<dots> \<le> length (a_queue a) + card A" using card_length by simp
  finally show False using assms(3) by simp
qed

section \<open>Announcing an item to the consumers\<close>

definition announce_item :: "item_ptr \<Rightarrow> t_datafifo_item \<Rightarrow> t_datafifo_item \<Rightarrow> t_datafifo_item" where
  "announce_item r it c = c\<lparr>it_ref := Some r, it_next := None, it_prev := None,
     arg_data := arg_data it, arg_len := arg_len it, arg_flags := arg_flags it,
     arg_timestamp := arg_timestamp it, it_status := DATAFIFO_ITEM_STATUS_READY\<rparr>"

lemma core_announce [simp]: "core (announce_item r it c) = announce_item r it (core c)"
  by (simp add: announce_item_def core_def)

lemma announce_core_it [simp]: "announce_item r (core it) c = announce_item r it c"
  by (simp add: announce_item_def)

lemma announce_simps [simp]:
  "it_status (announce_item r it c) = DATAFIFO_ITEM_STATUS_READY" "it_ref (announce_item r it c) = Some r"
  "same_args (announce_item r it c) it"
  by (simp_all add: announce_item_def same_args_def)

lemma upd_item_twice: "upd_item i g (upd_item i h F) = upd_item i (\<lambda>x. g (h x)) F"
  by (cases "i < length (items F)") (simp_all add: upd_item_def list_update_beyond)

text \<open>An item that was free and is linked nowhere may be overwritten as a whole.\<close>

lemma fifo_rel_fresh:
  assumes r: "fifo_rel F a" and i: "i < length (items F)" "it_status (items F ! i) = DATAFIFO_ITEM_STATUS_INIT"
    and g: "core (g (items F ! i)) = n" "it_next (g (items F ! i)) = None" "it_prev (g (items F ! i)) = None"
  shows "fifo_rel (upd_item i g F) (a_upd i (\<lambda>_. n) a)"
proof -
  have nq: "i \<notin> set (a_queue a)" using fifo_relD(12) [OF r] i(2) by blast
  let ?its = "(items F)[i := g (items F ! i)]"
  have other: "?its ! j = items F ! j" if "j \<in> set (a_queue a)" for j
  proof -
    have "j \<noteq> i" using that nq by auto
    then show ?thesis by simp
  qed
  have "dlseg ?its None (listhead F) (a_queue a) (listtail F) None"
    by (rule dlseg_cong [of "items F"]) (use r other in \<open>auto simp: fifo_rel_def\<close>)
  moreover have "map core ?its = (map core (items F))[i := n]" using i g(1) by (simp add: map_update)
  moreover have "\<forall>j<length (items F). j \<notin> set (a_queue a) \<longrightarrow> it_status (?its ! j) \<noteq> DATAFIFO_ITEM_STATUS_INIT \<longrightarrow>
      it_next (?its ! j) = None \<and> it_prev (?its ! j) = None"
    using r g by (auto simp: fifo_rel_def nth_list_update')
  ultimately show ?thesis
    using other fifo_relD(1-6,12) [OF r] by (simp add: fifo_rel_def upd_item_def a_upd_def)
qed

lemma addto_consumer_step:
  assumes rel: "rels (P \<union> C) s \<alpha>" and net: "net_ok P C \<alpha> A" and p: "p \<in> P" and c: "c \<in> C"
    and i: "i \<in> set (a_queue (\<alpha> p))" "complete (a_itm \<alpha> p i)"
    and room: "length (a_queue (\<alpha> c)) < length (a_items (\<alpha> c))"
  shows "\<exists>s' j n. addto_consumer p i s c = Inr s' \<and> rels (P \<union> C) s' (a_announce p i c j n \<alpha>) \<and>
    net_ok P C (a_announce p i c j n \<alpha>) A \<and> j < length (a_items (\<alpha> c)) \<and> j \<notin> set (a_queue (\<alpha> c)) \<and>
    same_args n (a_itm \<alpha> p i)"
proof -
  have pc: "p \<noteq> c" using net_okD(2) [OF net] p c by auto
  have rc: "fifo_rel (s c) (\<alpha> c)" and rp: "fifo_rel (s p) (\<alpha> p)" using relsD [OF rel] c p by auto
  obtain j F where j: "alloc_item (s c) = Inr (j, F)" "j < length (items (s c))" "j \<notin> set (a_queue (\<alpha> c))"
    "it_status (itm s c j) = DATAFIFO_ITEM_STATUS_INIT" "F = upd_item j reset_item (s c)"
    using alloc_item_rel [OF rc free_slot [OF rc net_okD(4) [OF net c]]] room by auto
  define it where "it = itm s p i"
  have il: "i < length (items (s p))" using fifo_relD(8) [OF rp i(1)] .
  have it: "a_itm \<alpha> p i = core it" using fifo_relD(9) [OF rp il] by (simp add: it_def)
  define n where "n = announce_item (p, i) it (reset_item (a_itm \<alpha> c j))"
  have n_core: "core (announce_item (p, i) it (reset_item (itm s c j))) = n"
    using fifo_relD(9) [OF rc j(2)] by (simp add: n_def core_reset)
  let ?F = "upd_item j (announce_item (p, i) it) F"
  have F: "?F = upd_item j (\<lambda>x. announce_item (p, i) it (reset_item x)) (s c)"
    unfolding j(5) by (rule upd_item_twice)
  have rF: "fifo_rel ?F (a_upd j (\<lambda>_. n) (\<alpha> c))"
    unfolding F
    by (rule fifo_rel_fresh [OF rc j(2,4), where g = "\<lambda>x. announce_item (p, i) it (reset_item x)", OF n_core])
      (simp_all add: announce_item_def)
  define s2 where "s2 = s(c := ?F)"
  have rp2: "fifo_rel (upd_item i (add_cnt 1) (s p)) (a_upd i (add_cnt 1) (\<alpha> p))"
    by (rule fifo_rel_upd [OF rp]) simp_all
  define s3 where "s3 = s2(p := upd_item i (add_cnt 1) (s p))"
  have lenF: "length (items ?F) = length (items (s c))" by (simp add: j(5) upd_item_def)
  have stF: "it_status (items ?F ! j) \<noteq> DATAFIFO_ITEM_STATUS_INIT"
    using j(2) by (simp add: j(5) upd_item_def)
  obtain F' where F': "addtail j ?F = Inr F'"
    "fifo_rel F' ((a_upd j (\<lambda>_. n) (\<alpha> c))\<lparr>a_queue := a_queue (\<alpha> c) @ [j]\<rparr>)"
    using addtail_rel [OF rF] j(2,3) lenF stF by auto
  have lk: "\<not> locked (s c)" "\<not> locked (s p)" "\<not> locked ?F"
    using fifo_relD(6) [OF rc] fifo_relD(6) [OF rp] fifo_relD(6) [OF rF] by auto
  have "addto_consumer p i s c = Inr (s3(c := F'))"
    using j(1) lk pc F'(1) unfolding addto_consumer_def datafifo_alloc_def on_fifo_def
      datafifo_list_addtail_def s3_def s2_def
    by (simp add: it_def Let_def announce_item_def [abs_def] add_cnt_def [abs_def] fun_upd_twist [of p c])
  moreover have eq: "s3(c := F') = s(c := F', p := upd_item i (add_cnt 1) (s p))"
    using pc by (simp add: s3_def s2_def fun_upd_twist [of p c])
  moreover have "rels (P \<union> C) (s(c := F', p := upd_item i (add_cnt 1) (s p))) (a_announce p i c j n \<alpha>)"
    unfolding a_announce_def by (rule rels_upd [OF rels_upd [OF rel F'(2)] rp2])
  moreover have jl: "j < length (a_items (\<alpha> c))" using j(2) fifo_relD(7) [OF rc] by simp
  moreover have sn: "same_args n (a_itm \<alpha> p i)" by (simp add: n_def it same_args_def announce_item_def)
  moreover have "net_ok P C (a_announce p i c j n \<alpha>) A"
    by (rule net_ok_announce [OF net p c i jl])
      (use j(4) fifo_relD(9) [OF rc j(2)] sn in \<open>auto simp: n_def\<close>)
  ultimately show ?thesis using j(3) by metis
qed

text \<open>The loop over the connected consumers.\<close>

lemma a_upd_cnt_twice: "a_upd i (add_cnt d) (a_upd i (add_cnt e) a) = a_upd i (add_cnt (e + d)) a"
  by (cases "i < length (a_items a)") (simp_all add: a_upd_def add_cnt_def list_update_beyond add.assoc)

lemma a_upd_cnt_0: "a_upd i (add_cnt 0) a = a"
  by (simp add: a_upd_def add_cnt_def)

lemma addto_consumers_loop:
  assumes "rels (P \<union> C) s \<alpha>" and "net_ok P C \<alpha> A" and "p \<in> P" and "set cs \<subseteq> C"
    and "i \<in> set (a_queue (\<alpha> p))" and "complete (a_itm \<alpha> p i)"
    and "\<forall>c\<in>C. length (a_queue (\<alpha> c)) + count_list cs c \<le> length (a_items (\<alpha> c))"
  shows "\<exists>s' \<alpha>'. fold_res (addto_consumer p i) s cs = Inr s' \<and> rels (P \<union> C) s' \<alpha>' \<and> net_ok P C \<alpha>' A \<and>
    \<alpha>' p = a_upd i (add_cnt (int (length cs))) (\<alpha> p) \<and> (\<forall>q\<in>P. q \<noteq> p \<longrightarrow> \<alpha>' q = \<alpha> q) \<and>
    (\<forall>c\<in>C. a_frames \<alpha>' c = a_frames \<alpha> c @ replicate (count_list cs c) (a_frame \<alpha> (a_itm \<alpha> p i)) \<and>
       length (a_queue (\<alpha>' c)) = length (a_queue (\<alpha> c)) + count_list cs c \<and>
       length (a_items (\<alpha>' c)) = length (a_items (\<alpha> c)))"
  using assms
proof (induction cs arbitrary: s \<alpha>)
  case Nil
  then show ?case by (intro exI [of _ s] exI [of _ \<alpha>]) (auto simp: a_upd_cnt_0)
next
  case (Cons c cs)
  note net = Cons.prems(2) and p = Cons.prems(3) and i = Cons.prems(5,6)
  have c: "c \<in> C" and cs: "set cs \<subseteq> C" using Cons.prems(4) by auto
  have pc: "p \<noteq> c" and pC: "p \<notin> C" using net_okD(2) [OF net p] c by auto
  have il: "i < length (a_items (\<alpha> p))" using pool_okD(2) [OF producer_okD(1) [OF net_okD(3) [OF net p]] i(1)] .
  have "length (a_queue (\<alpha> c)) < length (a_items (\<alpha> c))"
    using Cons.prems(7) c by fastforce
  then obtain s1 j n where st: "addto_consumer p i s c = Inr s1" "rels (P \<union> C) s1 (a_announce p i c j n \<alpha>)"
    "net_ok P C (a_announce p i c j n \<alpha>) A" "j < length (a_items (\<alpha> c))" "j \<notin> set (a_queue (\<alpha> c))"
    "same_args n (a_itm \<alpha> p i)"
    using addto_consumer_step [OF Cons.prems(1) net p c i] by blast
  let ?\<beta> = "a_announce p i c j n \<alpha>"
  have \<beta>p: "?\<beta> p = a_upd i (add_cnt 1) (\<alpha> p)" by (simp add: a_announce_def)
  have item: "a_itm ?\<beta> p i = add_cnt 1 (a_itm \<alpha> p i)" using il by (simp add: \<beta>p a_items_upd)
  have fr_item: "a_frame ?\<beta> (a_itm ?\<beta> p i) = a_frame \<alpha> (a_itm \<alpha> p i)"
  proof -
    have "a_frame ?\<beta> it = a_frame \<alpha> it" for it by (rule a_frame_bufs) (simp add: a_announce_def)
    then show ?thesis using item a_frame_same_args [of "a_itm \<alpha> p i" "add_cnt 1 (a_itm \<alpha> p i)"] by simp
  qed
  have fr: "a_frames ?\<beta> d = a_frames \<alpha> d @ (if d = c then [a_frame \<alpha> (a_itm \<alpha> p i)] else [])" if "d \<in> C" for d
  proof -
    have "d \<noteq> p" "c \<noteq> p" using pc pC that by auto
    then show ?thesis using a_frames_announce [of c p d j \<alpha> n i] st(4-6) by simp
  qed
  have ln: "length (a_queue (?\<beta> d)) = length (a_queue (\<alpha> d)) + (if d = c then 1 else 0)"
    "length (a_items (?\<beta> d)) = length (a_items (\<alpha> d))" if "d \<in> C" for d
  proof -
    have "d \<noteq> p" using that pC by auto
    then show "length (a_queue (?\<beta> d)) = length (a_queue (\<alpha> d)) + (if d = c then 1 else 0)"
      "length (a_items (?\<beta> d)) = length (a_items (\<alpha> d))"
      by (simp_all add: a_announce_def)
  qed
  have room: "\<forall>d\<in>C. length (a_queue (?\<beta> d)) + count_list cs d \<le> length (a_items (?\<beta> d))"
    using Cons.prems(7) ln by (auto split: if_splits)
  obtain s' \<alpha>' where IH: "fold_res (addto_consumer p i) s1 cs = Inr s'" "rels (P \<union> C) s' \<alpha>'" "net_ok P C \<alpha>' A"
    "\<alpha>' p = a_upd i (add_cnt (int (length cs))) (?\<beta> p)" "\<forall>q\<in>P. q \<noteq> p \<longrightarrow> \<alpha>' q = ?\<beta> q"
    "\<forall>d\<in>C. a_frames \<alpha>' d = a_frames ?\<beta> d @ replicate (count_list cs d) (a_frame ?\<beta> (a_itm ?\<beta> p i)) \<and>
       length (a_queue (\<alpha>' d)) = length (a_queue (?\<beta> d)) + count_list cs d \<and>
       length (a_items (\<alpha>' d)) = length (a_items (?\<beta> d))"
    using Cons.IH [OF st(2,3) p cs _ _ room] i \<beta>p item by auto
  have "\<alpha>' p = a_upd i (add_cnt (int (length (c # cs)))) (\<alpha> p)"
    using IH(4) \<beta>p by (simp add: a_upd_cnt_twice)
  moreover have "\<forall>q\<in>P. q \<noteq> p \<longrightarrow> \<alpha>' q = \<alpha> q"
  proof (intro ballI impI)
    fix q assume q: "q \<in> P" "q \<noteq> p"
    then have "q \<noteq> c" using net_okD(2) [OF net] c by auto
    then show "\<alpha>' q = \<alpha> q" using IH(5) q by (simp add: a_announce_def)
  qed
  moreover have "\<forall>d\<in>C. a_frames \<alpha>' d = a_frames \<alpha> d @ replicate (count_list (c # cs) d) (a_frame \<alpha> (a_itm \<alpha> p i)) \<and>
       length (a_queue (\<alpha>' d)) = length (a_queue (\<alpha> d)) + count_list (c # cs) d \<and>
       length (a_items (\<alpha>' d)) = length (a_items (\<alpha> d))"
    using IH(6) fr ln fr_item by (auto simp: replicate_append_same)
  ultimately show ?case using st(1) IH(1-3) by (intro exI [of _ s'] exI [of _ \<alpha>']) auto
qed

definition set_status :: "item_status \<Rightarrow> t_datafifo_item \<Rightarrow> t_datafifo_item" where
  "set_status st it = it\<lparr>it_status := st\<rparr>"

lemma set_status_simps [simp]:
  "it_status (set_status st it) = st" "arg_data (set_status st it) = arg_data it"
  "arg_len (set_status st it) = arg_len it" "refcnt (set_status st it) = refcnt it"
  "it_next (set_status st it) = it_next it" "it_prev (set_status st it) = it_prev it"
  "core (set_status st it) = set_status st (core it)" "same_args it (set_status st it)"
  "arg_flags (set_status st it) = arg_flags it" "arg_timestamp (set_status st it) = arg_timestamp it"
  by (simp_all add: set_status_def core_def same_args_def)

text \<open>What is known of the consumers after \<open>fr\<close> has been announced \<open>k c\<close> times to each.\<close>

definition delivered ::
    "fifo_id set \<Rightarrow> anet \<Rightarrow> anet \<Rightarrow> (fifo_id \<Rightarrow> nat) \<Rightarrow> frame \<Rightarrow> bool" where
  "delivered C \<alpha> \<alpha>' k fr \<longleftrightarrow> (\<forall>c\<in>C. a_frames \<alpha>' c = a_frames \<alpha> c @ replicate (k c) fr \<and>
     length (a_queue (\<alpha>' c)) = length (a_queue (\<alpha> c)) + k c \<and>
     length (a_items (\<alpha>' c)) = length (a_items (\<alpha> c)))"

lemma addto_consumers_rel:
  assumes rel: "rels (P \<union> C) s \<alpha>" and net: "net_ok P C \<alpha> A" and p: "p \<in> P"
    and i: "i \<in> set (a_queue (\<alpha> p))" "complete (a_itm \<alpha> p i)"
    and room: "\<forall>c\<in>C. length (a_queue (\<alpha> c)) + count_list (a_consumers (\<alpha> p)) c \<le> length (a_items (\<alpha> c))"
  shows "\<exists>s' \<alpha>'. datafifo_addto_consumers p i s = Inr s' \<and> rels (P \<union> C) s' \<alpha>' \<and> net_ok P C \<alpha>' A \<and>
    delivered C \<alpha> \<alpha>' (count_list (a_consumers (\<alpha> p))) (a_frame \<alpha> (a_itm \<alpha> p i)) \<and>
    \<alpha>' p = a_release (a_upd i (set_status DATAFIFO_ITEM_STATUS_DOING)
      (a_upd i (add_cnt (int (length (a_consumers (\<alpha> p))))) (\<alpha> p))) \<and> (\<forall>q\<in>P. q \<noteq> p \<longrightarrow> \<alpha>' q = \<alpha> q)"
proof -
  let ?cs = "a_consumers (\<alpha> p)" and ?doing = "set_status DATAFIFO_ITEM_STATUS_DOING"
  have cs: "set ?cs \<subseteq> C" using producer_okD(2) [OF net_okD(3) [OF net p]] .
  have csl: "consumers (s p) = ?cs" using fifo_relD(5) [OF relsD [OF rel]] p by simp
  obtain s1 \<beta> where L: "fold_res (addto_consumer p i) s ?cs = Inr s1" "rels (P \<union> C) s1 \<beta>" "net_ok P C \<beta> A"
    "\<beta> p = a_upd i (add_cnt (int (length ?cs))) (\<alpha> p)" "\<forall>q\<in>P. q \<noteq> p \<longrightarrow> \<beta> q = \<alpha> q"
    "delivered C \<alpha> \<beta> (count_list ?cs) (a_frame \<alpha> (a_itm \<alpha> p i))"
    using addto_consumers_loop [OF rel net p cs i room] unfolding delivered_def by blast
  have rp: "fifo_rel (s1 p) (\<beta> p)" using relsD [OF L(2)] p by simp
  have iq: "i \<in> set (a_queue (\<beta> p))" using i(1) L(4) by simp
  have il: "i < length (a_items (\<beta> p))" using pool_okD(2) [OF producer_okD(1) [OF net_okD(3) [OF L(3) p]] iq] .
  have ne: "it_status (items (s1 p) ! i) \<noteq> DATAFIFO_ITEM_STATUS_INIT" by (rule fifo_relD(12) [OF rp iq])
  let ?F = "upd_item i ?doing (s1 p)" and ?b = "a_upd i ?doing (\<beta> p)"
  have rF: "fifo_rel ?F ?b" by (rule fifo_rel_upd [OF rp]) (use ne in simp_all)
  have "net_ok P C (\<beta>(p := ?b)) A"
    by (rule net_ok_upd [OF L(3) p il])
      (use pool_okD(3) [OF producer_okD(1) [OF net_okD(3) [OF L(3) p]] iq]
         producer_okD(4) [OF net_okD(3) [OF L(3) p] il] in auto)
  then have "net_ok P C ((\<beta>(p := ?b))(p := a_release ?b)) A"
    by (rule net_ok_release [OF _ p fun_upd_same])
  then have net': "net_ok P C (\<beta>(p := a_release ?b)) A" by (simp only: fun_upd_upd)
  obtain F' where F': "remove_check ?F = Inr F'" "fifo_rel F' (a_release ?b)"
    using remove_check_rel [OF rF] by blast
  have "on_fifo p remove_check (s1(p := ?F)) = Inr (s1(p := F'))"
    using F'(1) fifo_relD(6) [OF rF] by (simp add: on_fifo_def)
  then have "datafifo_addto_consumers p i s = Inr (s1(p := F'))"
    using L(1) csl by (simp add: datafifo_addto_consumers_def datafifo_producer_remove_check_def set_status_def [abs_def])
  moreover have "rels (P \<union> C) (s1(p := F')) (\<beta>(p := a_release ?b))"
    by (rule rels_upd [OF L(2) F'(2)])
  moreover have "delivered C \<alpha> (\<beta>(p := a_release ?b)) (count_list ?cs) (a_frame \<alpha> (a_itm \<alpha> p i))"
    unfolding delivered_def
  proof
    fix c assume c: "c \<in> C"
    then have cp: "c \<noteq> p" using net_okD(2) [OF net p] by auto
    show "a_frames (\<beta>(p := a_release ?b)) c = a_frames \<alpha> c @ replicate (count_list ?cs c) (a_frame \<alpha> (a_itm \<alpha> p i)) \<and>
      length (a_queue ((\<beta>(p := a_release ?b)) c)) = length (a_queue (\<alpha> c)) + count_list ?cs c \<and>
      length (a_items ((\<beta>(p := a_release ?b)) c)) = length (a_items (\<alpha> c))"
      using a_frames_producer [OF cp, of "a_release ?b" \<beta>] L(6) c cp
      by (simp add: delivered_def a_release_simps)
  qed
  ultimately show ?thesis
    using net' L(4,5) by (intro exI [of _ "s1(p := F')"] exI [of _ "\<beta>(p := a_release ?b)"]) simp
qed

text \<open>The releasing loop drops finished items from the front and touches nothing else.\<close>

lemma a_release_drops:
  "\<exists>k. a_queue (a_release a) = drop k (a_queue a) \<and>
     (\<forall>i. i \<notin> set (take k (a_queue a)) \<longrightarrow> a_items (a_release a) ! i = a_items a ! i) \<and>
     (\<forall>i\<in>set (take k (a_queue a)). it_status (a_items a ! i) = DATAFIFO_ITEM_STATUS_DOING)"
  if "distinct (a_queue a)"
  using that
proof (induction a rule: a_release.induct)
  case (1 a)
  show ?case
  proof (cases "\<exists>x xs. a_queue a = x # xs \<and> it_status (a_items a ! x) = DATAFIFO_ITEM_STATUS_DOING \<and>
      refcnt (a_items a ! x) = 0")
    case True
    then obtain x xs where x: "a_queue a = x # xs" "it_status (a_items a ! x) = DATAFIFO_ITEM_STATUS_DOING"
      "refcnt (a_items a ! x) = 0" by blast
    let ?b = "a_upd x free_item (a\<lparr>a_queue := xs\<rparr>)"
    have d: "distinct (a_queue ?b)" "x \<notin> set xs" using "1.prems" x(1) by simp_all
    obtain k where k: "a_queue (a_release ?b) = drop k xs"
      "\<forall>i. i \<notin> set (take k xs) \<longrightarrow> a_items (a_release ?b) ! i = a_items ?b ! i"
      "\<forall>i\<in>set (take k xs). it_status (a_items ?b ! i) = DATAFIFO_ITEM_STATUS_DOING"
      using "1.IH" [OF x(1) conjI [OF x(2,3)] d(1)] by auto
    have e: "a_release a = a_release ?b" using x by (simp add: a_release.simps [of a])
    have other: "a_items ?b ! i = a_items a ! i" if "i \<noteq> x" for i
      using that by (simp add: a_upd_def)
    have "a_queue (a_release a) = drop (Suc k) (a_queue a)" using e k(1) x(1) by simp
    moreover have "\<forall>i. i \<notin> set (take (Suc k) (a_queue a)) \<longrightarrow> a_items (a_release a) ! i = a_items a ! i"
      using e k(2) x(1) other by auto
    moreover have "\<forall>i\<in>set (take (Suc k) (a_queue a)). it_status (a_items a ! i) = DATAFIFO_ITEM_STATUS_DOING"
    proof
      fix i assume "i \<in> set (take (Suc k) (a_queue a))"
      then have "i = x \<or> i \<in> set (take k xs) \<and> i \<noteq> x" using x(1) by auto
      then show "it_status (a_items a ! i) = DATAFIFO_ITEM_STATUS_DOING"
        using x(2) k(3) other by metis
    qed
    ultimately show ?thesis by blast
  next
    case False
    then have "a_release a = a" by (auto simp: a_release.simps [of a] split: list.split)
    then show ?thesis by (intro exI [of _ 0]) simp
  qed
qed

section \<open>Completing the last item\<close>

text \<open>The parts of a producer that announcing and releasing leave alone.\<close>

definition same_producer :: "afifo \<Rightarrow> afifo \<Rightarrow> bool" where
  "same_producer a b \<longleftrightarrow> a_bufs b = a_bufs a \<and> a_maxlen b = a_maxlen a \<and> a_consumers b = a_consumers a \<and>
     length (a_items b) = length (a_items a) \<and> length (a_queue b) \<le> length (a_queue a) \<and>
     (\<forall>i. i \<notin> set (a_queue a) \<longrightarrow> i \<notin> set (a_queue b) \<and> a_items b ! i = a_items a ! i)"

text \<open>The oldest item is still in use: it would have been released otherwise.\<close>

definition head_busy :: "afifo \<Rightarrow> bool" where
  "head_busy a \<longleftrightarrow> (case a_queue a of [] \<Rightarrow> True
     | x # xs \<Rightarrow> \<not> (it_status (a_items a ! x) = DATAFIFO_ITEM_STATUS_DOING \<and> refcnt (a_items a ! x) = 0))"

lemma head_busy_release: "head_busy (a_release a)"
proof (induction a rule: a_release.induct)
  case (1 a)
  show ?case
  proof (cases "head_busy a")
    case True
    then have "a_release a = a" by (auto simp: head_busy_def a_release.simps [of a] split: list.split)
    then show ?thesis using True by simp
  next
    case False
    then obtain x xs where x: "a_queue a = x # xs" "it_status (a_items a ! x) = DATAFIFO_ITEM_STATUS_DOING"
      "refcnt (a_items a ! x) = 0" by (auto simp: head_busy_def split: list.splits)
    then have "a_release a = a_release (a_upd x free_item (a\<lparr>a_queue := xs\<rparr>))"
      by (simp add: a_release.simps [of a])
    then show ?thesis using "1.IH" [OF x(1) conjI [OF x(2,3)]] by simp
  qed
qed

definition all_doing :: "afifo \<Rightarrow> bool" where
  "all_doing a \<longleftrightarrow> head_busy a \<and>
     (\<forall>i\<in>set (a_queue a). it_status (a_items a ! i) = DATAFIFO_ITEM_STATUS_DOING)"

lemma deliver_last:
  assumes rel: "rels (P \<union> C) s \<alpha>" and net: "net_ok P C \<alpha> A" and p: "p \<in> P"
    and q: "a_queue (\<alpha> p) = q @ [i]" and st: "it_status (a_itm \<alpha> p i) = DATAFIFO_ITEM_STATUS_READY"
    and room: "\<forall>c\<in>C. length (a_queue (\<alpha> c)) + count_list (a_consumers (\<alpha> p)) c \<le> length (a_items (\<alpha> c))"
  shows "\<exists>s' \<alpha>'. datafifo_addto_consumers p i s = Inr s' \<and> rels (P \<union> C) s' \<alpha>' \<and> net_ok P C \<alpha>' A \<and>
    delivered C \<alpha> \<alpha>' (count_list (a_consumers (\<alpha> p))) (a_frame \<alpha> (a_itm \<alpha> p i)) \<and>
    all_doing (\<alpha>' p) \<and> same_producer (\<alpha> p) (\<alpha>' p) \<and> (\<forall>q\<in>P. q \<noteq> p \<longrightarrow> \<alpha>' q = \<alpha> q)"
proof -
  let ?b = "a_upd i (set_status DATAFIFO_ITEM_STATUS_DOING)
      (a_upd i (add_cnt (int (length (a_consumers (\<alpha> p))))) (\<alpha> p))"
  have iq: "i \<in> set (a_queue (\<alpha> p))" using q by simp
  obtain s' \<alpha>' where L: "datafifo_addto_consumers p i s = Inr s'" "rels (P \<union> C) s' \<alpha>'" "net_ok P C \<alpha>' A"
    "delivered C \<alpha> \<alpha>' (count_list (a_consumers (\<alpha> p))) (a_frame \<alpha> (a_itm \<alpha> p i))"
    "\<alpha>' p = a_release ?b" "\<forall>q\<in>P. q \<noteq> p \<longrightarrow> \<alpha>' q = \<alpha> q"
    using addto_consumers_rel [OF rel net p iq _ room] st by blast
  note D = producer_okD [OF net_okD(3) [OF net p]]
  have dist: "distinct (a_queue ?b)" using pool_okD(1) [OF D(1)] by simp
  have il: "i < length (a_items (\<alpha> p))" using pool_okD(2) [OF D(1) iq] .
  obtain k where k: "a_queue (a_release ?b) = drop k (a_queue ?b)"
    "\<forall>j. j \<notin> set (take k (a_queue ?b)) \<longrightarrow> a_items (a_release ?b) ! j = a_items ?b ! j"
    using a_release_drops [OF dist] by blast
  have b_other: "a_items ?b ! j = a_itm \<alpha> p j" if "j \<noteq> i" for j
    using that by (simp add: a_upd_def)
  have b_i: "it_status (a_items ?b ! i) = DATAFIFO_ITEM_STATUS_DOING"
    using il by (simp add: a_upd_def)
  have "it_status (a_items ?b ! j) = DATAFIFO_ITEM_STATUS_DOING" if "j \<in> set (a_queue ?b)" for j
  proof (cases "j = i")
    case False
    then have "j \<in> set (butlast (a_queue (\<alpha> p)))" using that q by simp
    then show ?thesis using D(6) b_other [OF False] by simp
  qed (use b_i in simp)
  moreover have "j \<notin> set (take k (a_queue ?b)) \<and> j \<in> set (a_queue ?b)" if "j \<in> set (drop k (a_queue ?b))" for j
    using that dist set_take_disj_set_drop_if_distinct [OF dist order.refl, of k] in_set_dropD [OF that] by auto
  ultimately have "all_doing (\<alpha>' p)"
    unfolding all_doing_def L(5) using k head_busy_release by metis
  moreover have "same_producer (\<alpha> p) (\<alpha>' p)"
  proof -
    have "j \<notin> set (a_queue (\<alpha>' p)) \<and> a_items (\<alpha>' p) ! j = a_itm \<alpha> p j" if j: "j \<notin> set (a_queue (\<alpha> p))" for j
    proof -
      have "j \<notin> set (take k (a_queue ?b))" and "j \<notin> set (drop k (a_queue ?b))"
        using j in_set_takeD [of j k "a_queue ?b"] in_set_dropD [of j k "a_queue ?b"] by auto
      moreover have "j \<noteq> i" using j iq by auto
      ultimately show ?thesis using k b_other L(5) by metis
    qed
    then show ?thesis using k(1) L(5) by (auto simp: same_producer_def a_release_simps)
  qed
  ultimately show ?thesis using L by blast
qed

text \<open>Writing into the buffer of an item nobody refers to changes no consumer's frames.\<close>

definition set_buf :: "nat \<Rightarrow> byte list \<Rightarrow> afifo \<Rightarrow> afifo" where
  "set_buf i b a = a\<lparr>a_bufs := (a_bufs a)[i := b]\<rparr>"

lemma set_buf_simps [simp]:
  "a_queue (set_buf i b a) = a_queue a" "a_items (set_buf i b a) = a_items a"
  "a_maxlen (set_buf i b a) = a_maxlen a" "a_consumers (set_buf i b a) = a_consumers a"
  "length (a_bufs (set_buf i b a)) = length (a_bufs a)"
  by (simp_all add: set_buf_def)

lemma pool_ok_set_buf [simp]: "pool_ok (set_buf i b a) A = pool_ok a A"
  by (simp add: pool_ok_def)

lemma a_frames_set_buf:
  assumes net: "net_ok P C \<alpha> A" and p: "p \<in> P" and c: "c \<in> C" and st: "\<not> complete (a_itm \<alpha> p t)"
  shows "a_frames (\<alpha>(p := set_buf t b (\<alpha> p))) c = a_frames \<alpha> c"
proof -
  have cp: "c \<noteq> p" using net_okD(2) [OF net p] c by auto
  have "a_frame (\<alpha>(p := set_buf t b (\<alpha> p))) (a_itm \<alpha> c j) = a_frame \<alpha> (a_itm \<alpha> c j)"
    if j: "j \<in> set (a_queue (\<alpha> c))" for j
  proof -
    obtain q i where r: "q \<in> P" "i \<in> set (a_queue (\<alpha> q))" "complete (a_itm \<alpha> q i)" "same_args (a_itm \<alpha> c j) (a_itm \<alpha> q i)"
      using net_okD(5) [OF net c j] unfolding ref_ok_def by blast
    have "i < length (a_items (\<alpha> q))" using pool_okD(2) [OF producer_okD(1) [OF net_okD(3) [OF net r(1)]] r(2)] .
    then have d: "arg_data (a_itm \<alpha> c j) = Some (q, i)"
      using producer_okD(3) [OF net_okD(3) [OF net r(1)]] r(4) by (simp add: same_args_def)
    have "q = p \<Longrightarrow> i \<noteq> t" using r(3) st by auto
    then have "a_bufs ((\<alpha>(p := set_buf t b (\<alpha> p))) q) ! i = a_bufs (\<alpha> q) ! i"
      by (auto simp: set_buf_def)
    then show ?thesis by (simp add: a_frame_def d)
  qed
  then show ?thesis using cp by (simp add: a_frames_def)
qed

lemma net_ok_set_buf:
  assumes net: "net_ok P C \<alpha> A" and p: "p \<in> P" and b: "length b = unat (a_maxlen (\<alpha> p)) + 12"
  shows "net_ok P C (\<alpha>(p := set_buf t b (\<alpha> p))) A"
proof -
  note ok = net_okD(3) [OF net p]
  have "length (a_bufs (set_buf t b (\<alpha> p)) ! i) = unat (a_maxlen (\<alpha> p)) + 12" if "i < length (a_items (\<alpha> p))" for i
    using that producer_okD(5,7) [OF ok] b by (auto simp: set_buf_def nth_list_update')
  then have "producer_ok C p (set_buf t b (\<alpha> p)) (A p)"
    using ok unfolding producer_ok_def by simp
  then have "net_ok P C (\<alpha>(p := set_buf t b (\<alpha> p))) (A(p := A p))"
    by (rule net_ok_producer [OF net p]) (use net_okD(6) [OF net p] in auto)
  then show ?thesis by simp
qed

end
