(* ===== verification/Datafifo_Framing.thy ===== *)
theory Datafifo_Framing
  imports Datafifo_Delivery
begin

text \<open>
  \<^verbatim>\<open>datafifo_producer_data_add\<close> and the consumer side (\<^verbatim>\<open>recbcsrv/datafifo.c\<close>) refine a plain
  specification: \<open>framer\<close> assembles the pieces that are added into frames, and every frame it
  completes is appended to the queue of every connected consumer. The producer and the consumer
  interfaces are stated as locales and interpreted on the code's operations.
\<close>

section \<open>The specification of the producer\<close>

text \<open>
  The frame being filled (\<open>None\<close>: none), a piece \<open>(data, flags, timestamp)\<close>; the result is the
  return value, the frame being filled afterwards and the frames that were completed.
\<close>

definition new_flags :: "u32 \<Rightarrow> u32" where
  "new_flags flags =
     (let f1 = if flags AND FRAME_FLAG_FIRSTFRAME \<noteq> 0 then 0 OR FRAME_FLAG_FIRSTFRAME else 0
      in if flags AND FRAME_FLAG_KEYFRAME \<noteq> 0 then f1 OR FRAME_FLAG_KEYFRAME else f1)"

definition close_frame :: "u32 \<Rightarrow> frame \<Rightarrow> frame" where
  "close_frame flags = (\<lambda>(d, f, t). (if flags AND FRAME_FLAG_FIRSTFRAME \<noteq> 0 then [] else d, f, t))"

definition open_frame :: "u32 \<Rightarrow> u32 \<Rightarrow> frame option \<Rightarrow> frame option \<times> frame list" where
  "open_frame flags ts pend =
     (if flags AND FRAME_FLAG_NEWFRAME \<noteq> 0
      then (Some ([], new_flags flags, ts), case pend of None \<Rightarrow> [] | Some fr \<Rightarrow> [close_frame flags fr])
      else (pend, []))"

definition framer ::
    "nat \<Rightarrow> frame option \<Rightarrow> byte list \<times> u32 \<times> u32 \<Rightarrow> int \<times> frame option \<times> frame list" where
  "framer maxlen pend = (\<lambda>(data, flags, ts).
     case open_frame flags ts pend of
       (None, out) \<Rightarrow> (-4, None, out)
     | (Some (d, f, t), out) \<Rightarrow>
         if maxlen < length d + length data then (-5, Some (d, f, t), out)
         else if flags AND FRAME_FLAG_FRAMEEND \<noteq> 0 then (0, None, out @ [(d @ data, f, t)])
         else (0, Some (d @ data, f, t), out))"

section \<open>The frame being filled\<close>

definition pending :: "fifos \<Rightarrow> fifo_id \<Rightarrow> frame option" where
  "pending s p =
     (case listtail (s p) of
        None \<Rightarrow> None
      | Some t \<Rightarrow> if it_status (itm s p t) = DATAFIFO_ITEM_STATUS_FILLING then Some (frame_of s (itm s p t)) else None)"

definition a_pending :: "anet \<Rightarrow> fifo_id \<Rightarrow> frame option" where
  "a_pending \<alpha> p =
     (if a_queue (\<alpha> p) = [] then None
      else let it = a_itm \<alpha> p (last (a_queue (\<alpha> p)))
           in if it_status it = DATAFIFO_ITEM_STATUS_FILLING then Some (a_frame \<alpha> it) else None)"

lemma pending_abs:
  assumes rel: "rels (P \<union> C) s \<alpha>" and net: "net_ok P C \<alpha> A" and p: "p \<in> P"
  shows "pending s p = a_pending \<alpha> p"
proof (cases "a_queue (\<alpha> p) = []")
  case True
  then show ?thesis using fifo_relD(11) [OF relsD [OF rel], of p] p by (simp add: pending_def a_pending_def)
next
  case False
  have r: "fifo_rel (s p) (\<alpha> p)" using relsD [OF rel] p by simp
  define t where "t = last (a_queue (\<alpha> p))"
  have t: "t \<in> set (a_queue (\<alpha> p))" "listtail (s p) = Some t"
    using False fifo_relD(11) [OF r] by (simp_all add: t_def)
  have tl: "t < length (items (s p))" using fifo_relD(8) [OF r t(1)] .
  have it: "a_itm \<alpha> p t = core (itm s p t)" using fifo_relD(9) [OF r tl] .
  have d: "arg_data (a_itm \<alpha> p t) = Some (p, t)"
    using producer_okD(3) [OF net_okD(3) [OF net p]] tl fifo_relD(7) [OF r] by simp
  have "frame_of s (itm s p t) = a_frame \<alpha> (a_itm \<alpha> p t)"
    using d it fifo_relD(4) [OF r] by (simp add: frame_of_def a_frame_def)
  then show ?thesis using False t it by (simp add: pending_def a_pending_def flip: t_def)
qed

text \<open>Between the calls, a producer's last item is either being filled or done.\<close>

definition settled :: "afifo \<Rightarrow> bool" where
  "settled a \<longleftrightarrow> head_busy a \<and> (\<forall>i\<in>set (a_queue a). it_status (a_items a ! i) = DATAFIFO_ITEM_STATUS_FILLING \<or>
     it_status (a_items a ! i) = DATAFIFO_ITEM_STATUS_DOING)"

lemma settled_doing:
  assumes "producer_ok C p (\<alpha> p) A" and "settled (\<alpha> p)" and "a_pending \<alpha> p = None"
  shows "all_doing (\<alpha> p)"
  unfolding all_doing_def
proof (intro conjI ballI)
  show "head_busy (\<alpha> p)" using assms(2) by (simp add: settled_def)
  fix i assume i: "i \<in> set (a_queue (\<alpha> p))"
  then have ne: "a_queue (\<alpha> p) \<noteq> []" by auto
  then have "i \<in> set (butlast (a_queue (\<alpha> p))) \<or> i = last (a_queue (\<alpha> p))"
    using i by (metis append_butlast_last_id in_set_conv_decomp rotate1.simps(2) set_ConsD set_rotate1)
  then show "it_status (a_itm \<alpha> p i) = DATAFIFO_ITEM_STATUS_DOING"
  proof
    assume "i = last (a_queue (\<alpha> p))"
    then have "it_status (a_itm \<alpha> p i) \<noteq> DATAFIFO_ITEM_STATUS_FILLING"
      using assms(3) ne by (auto simp: a_pending_def Let_def split: if_splits)
    then show ?thesis using assms(2) i by (auto simp: settled_def)
  qed (rule producer_okD(6) [OF assms(1)])
qed

section \<open>Opening a frame\<close>

definition close_item :: "u32 \<Rightarrow> t_datafifo_item \<Rightarrow> t_datafifo_item" where
  "close_item flags it = (if flags AND FRAME_FLAG_FIRSTFRAME \<noteq> 0 then it\<lparr>arg_len := 0\<rparr> else it)
     \<lparr>it_status := DATAFIFO_ITEM_STATUS_READY\<rparr>"

lemma close_item_simps [simp]:
  "core (close_item flags it) = close_item flags (core it)" "it_next (close_item flags it) = it_next it"
  "it_prev (close_item flags it) = it_prev it" "it_status (close_item flags it) = DATAFIFO_ITEM_STATUS_READY"
  "arg_data (close_item flags it) = arg_data it" "refcnt (close_item flags it) = refcnt it"
  by (simp_all add: close_item_def core_def)

lemma close_item_len: "arg_len it \<le> m \<Longrightarrow> arg_len (close_item flags it) \<le> m"
  by (simp add: close_item_def)

lemma a_frame_close: "a_frame \<alpha> (close_item flags it) = close_frame flags (a_frame \<alpha> it)"
  by (simp add: a_frame_def close_item_def close_frame_def split: option.split)

lemma same_producer_upd:
  assumes "same_producer (a_upd t g a) b" and "t \<in> set (a_queue a)"
  shows "same_producer a b"
proof -
  have "a_items (a_upd t g a) ! i = a_items a ! i" if "i \<notin> set (a_queue a)" for i
  proof -
    have "i \<noteq> t" using that assms(2) by auto
    then show ?thesis by (simp add: a_upd_def)
  qed
  then show ?thesis using assms(1) by (simp add: same_producer_def)
qed

text \<open>\<^verbatim>\<open>close_tail\<close> and the announcement of the frame that was still open.\<close>

lemma close_pending:
  assumes rel: "rels (P \<union> C) s \<alpha>" and net: "net_ok P C \<alpha> A" and p: "p \<in> P"
    and pend: "a_pending \<alpha> p = Some fr"
    and room: "\<forall>c\<in>C. length (a_queue (\<alpha> c)) + count_list (a_consumers (\<alpha> p)) c \<le> length (a_items (\<alpha> c))"
  shows "\<exists>t F s' \<alpha>'. close_tail flags (s p) = (Some t, F) \<and>
    datafifo_addto_consumers p t (s(p := F)) = Inr s' \<and> rels (P \<union> C) s' \<alpha>' \<and> net_ok P C \<alpha>' A \<and>
    delivered C \<alpha> \<alpha>' (count_list (a_consumers (\<alpha> p))) (close_frame flags fr) \<and>
    all_doing (\<alpha>' p) \<and> same_producer (\<alpha> p) (\<alpha>' p) \<and> (\<forall>q\<in>P. q \<noteq> p \<longrightarrow> \<alpha>' q = \<alpha> q)"
proof -
  have r: "fifo_rel (s p) (\<alpha> p)" using relsD [OF rel] p by simp
  have ne: "a_queue (\<alpha> p) \<noteq> []" using pend by (auto simp: a_pending_def)
  then obtain q t where q: "a_queue (\<alpha> p) = q @ [t]" by (metis rev_exhaust)
  have ft: "it_status (a_itm \<alpha> p t) = DATAFIFO_ITEM_STATUS_FILLING" and fr: "fr = a_frame \<alpha> (a_itm \<alpha> p t)"
    using pend q by (auto simp: a_pending_def Let_def split: if_splits)
  note D = producer_okD [OF net_okD(3) [OF net p]]
  have tq: "t \<in> set (a_queue (\<alpha> p))" "t \<notin> set q" using q pool_okD(1) [OF D(1)] by auto
  have tl: "t < length (items (s p))" "t < length (a_items (\<alpha> p))"
    using fifo_relD(7,8) [OF r] tq by auto
  have ft': "it_status (itm s p t) = DATAFIFO_ITEM_STATUS_FILLING"
    using ft fifo_relD(9) [OF r tl(1)] by simp
  let ?F = "upd_item t (close_item flags) (s p)" and ?a = "a_upd t (close_item flags) (\<alpha> p)"
  have ct: "close_tail flags (s p) = (Some t, ?F)"
    using fifo_relD(11) [OF r] q ft' by (simp add: close_tail_def close_item_def [abs_def])
  have rF: "fifo_rel ?F ?a" by (rule fifo_rel_upd [OF r]) (use ft' in simp_all)
  have rel1: "rels (P \<union> C) (s(p := ?F)) (\<alpha>(p := ?a))" by (rule rels_upd [OF rel rF])
  have net1: "net_ok P C (\<alpha>(p := ?a)) A"
    by (rule net_ok_upd [OF net p tl(2)]) (use ft D(4) [OF tl(2)] tq q close_item_len in auto)
  have item1: "a_itm (\<alpha>(p := ?a)) p t = close_item flags (a_itm \<alpha> p t)"
    using tl by (simp add: a_items_upd)
  have bufs1: "a_frame (\<alpha>(p := ?a)) it = a_frame \<alpha> it" for it by (rule a_frame_bufs) simp
  have cp: "c \<noteq> p" if "c \<in> C" for c using that net_okD(2) [OF net p] by auto
  have room1: "\<forall>c\<in>C. length (a_queue ((\<alpha>(p := ?a)) c)) + count_list (a_consumers ((\<alpha>(p := ?a)) p)) c
      \<le> length (a_items ((\<alpha>(p := ?a)) c))"
    using room cp by simp
  obtain s' \<alpha>' where L: "datafifo_addto_consumers p t (s(p := ?F)) = Inr s'" "rels (P \<union> C) s' \<alpha>'" "net_ok P C \<alpha>' A"
    "delivered C (\<alpha>(p := ?a)) \<alpha>' (count_list (a_consumers (\<alpha> p))) (a_frame (\<alpha>(p := ?a)) (a_itm (\<alpha>(p := ?a)) p t))"
    "all_doing (\<alpha>' p)" "same_producer ?a (\<alpha>' p)" "\<forall>q\<in>P. q \<noteq> p \<longrightarrow> \<alpha>' q = (\<alpha>(p := ?a)) q"
    using deliver_last [of P C "s(p := ?F)" "\<alpha>(p := ?a)" A p q t] rel1 net1 p room1 q item1 by auto
  have "delivered C \<alpha> \<alpha>' (count_list (a_consumers (\<alpha> p))) (close_frame flags fr)"
    using L(4) cp a_frames_producer [of _ p ?a \<alpha>] unfolding bufs1 item1 a_frame_close fr delivered_def by simp
  moreover have "same_producer (\<alpha> p) (\<alpha>' p)" by (rule same_producer_upd [OF L(6) tq(1)])
  ultimately show ?thesis using ct L(1-3,5,7) by auto
qed

text \<open>\<^verbatim>\<open>new_frame\<close>: afterwards an empty frame is being filled.\<close>

definition tag_item :: "u32 \<Rightarrow> u32 \<Rightarrow> t_datafifo_item \<Rightarrow> t_datafifo_item" where
  "tag_item flags ts it = it\<lparr>
     arg_flags := (let f1 = if flags AND FRAME_FLAG_FIRSTFRAME \<noteq> 0
                            then arg_flags it OR FRAME_FLAG_FIRSTFRAME else arg_flags it
                   in if flags AND FRAME_FLAG_KEYFRAME \<noteq> 0 then f1 OR FRAME_FLAG_KEYFRAME else f1),
     arg_timestamp := ts\<rparr>"

lemma tag_item_simps [simp]:
  "core (tag_item flags ts it) = tag_item flags ts (core it)" "it_next (tag_item flags ts it) = it_next it"
  "it_prev (tag_item flags ts it) = it_prev it" "it_status (tag_item flags ts it) = it_status it"
  "arg_data (tag_item flags ts it) = arg_data it" "arg_len (tag_item flags ts it) = arg_len it"
  "refcnt (tag_item flags ts it) = refcnt it" "arg_timestamp (tag_item flags ts it) = ts"
  by (simp_all add: tag_item_def core_def)

lemma reset_item_simps [simp]:
  "it_status (reset_item it) = DATAFIFO_ITEM_STATUS_FILLING" "arg_len (reset_item it) = 0"
  "refcnt (reset_item it) = 0" "arg_data (reset_item it) = arg_data it" "arg_flags (reset_item it) = 0"
  by (simp_all add: reset_item_def)

text \<open>
  The state after the tail item has been dealt with: everything before is done, and the frame that
  was open, if any, has reached the consumers.
\<close>

definition opened :: "fifo_id set \<Rightarrow> fifo_id \<Rightarrow> u32 \<Rightarrow> anet \<Rightarrow> anet \<Rightarrow> bool" where
  "opened C p flags \<alpha> \<alpha>' \<longleftrightarrow>
     (case a_pending \<alpha> p of
        None \<Rightarrow> \<forall>c\<in>C. \<alpha>' c = \<alpha> c \<and> a_frames \<alpha>' c = a_frames \<alpha> c
      | Some fr \<Rightarrow> delivered C \<alpha> \<alpha>' (count_list (a_consumers (\<alpha> p))) (close_frame flags fr))"

lemma opened_transfer:
  assumes "opened C p flags \<alpha> \<alpha>'" and "a_pending \<alpha> p = a_pending \<beta> p"
    and "a_consumers (\<alpha> p) = a_consumers (\<beta> p)"
    and "\<And>c. c \<in> C \<Longrightarrow> \<alpha> c = \<beta> c \<and> a_frames \<alpha> c = a_frames \<beta> c"
    and "\<And>c. c \<in> C \<Longrightarrow> \<alpha>' c = \<beta>' c \<and> a_frames \<alpha>' c = a_frames \<beta>' c"
  shows "opened C p flags \<beta> \<beta>'"
  using assms(1,4,5) unfolding opened_def delivered_def assms(2,3) by (cases "a_pending \<beta> p") auto

lemma new_frame_tail:
  assumes rel: "rels (P \<union> C) s \<alpha>" and net: "net_ok P C \<alpha> A" and p: "p \<in> P" and set: "settled (\<alpha> p)"
    and room: "a_pending \<alpha> p \<noteq> None \<Longrightarrow>
      \<forall>c\<in>C. length (a_queue (\<alpha> c)) + count_list (a_consumers (\<alpha> p)) c \<le> length (a_items (\<alpha> c))"
  shows "\<exists>s' \<alpha>'. (case close_tail flags (s p) of (old, F) \<Rightarrow>
         case old of None \<Rightarrow> Inr (s(p := F)) | Some t \<Rightarrow> datafifo_addto_consumers p t (s(p := F))) = Inr s' \<and>
    rels (P \<union> C) s' \<alpha>' \<and> net_ok P C \<alpha>' A \<and> all_doing (\<alpha>' p) \<and> same_producer (\<alpha> p) (\<alpha>' p) \<and>
    (\<forall>q\<in>P. q \<noteq> p \<longrightarrow> \<alpha>' q = \<alpha> q) \<and>
    opened C p flags \<alpha> \<alpha>'"
proof (cases "a_pending \<alpha> p")
  case None
  have r: "fifo_rel (s p) (\<alpha> p)" using relsD [OF rel] p by simp
  have doing: "all_doing (\<alpha> p)" by (rule settled_doing [OF net_okD(3) [OF net p] set None])
  have "close_tail flags (s p) = (None, s p)"
  proof (cases "a_queue (\<alpha> p) = []")
    case True
    then show ?thesis using fifo_relD(11) [OF r] by (simp add: close_tail_def)
  next
    case False
    let ?t = "last (a_queue (\<alpha> p))"
    have t: "?t \<in> set (a_queue (\<alpha> p))" using False by simp
    have "it_status (itm s p ?t) = DATAFIFO_ITEM_STATUS_DOING"
      using doing t fifo_relD(8,9) [OF r] by (simp add: all_doing_def)
    then show ?thesis using False fifo_relD(11) [OF r] by (simp add: close_tail_def)
  qed
  then show ?thesis
    using rel net doing None by (intro exI [of _ s] exI [of _ \<alpha>]) (simp add: same_producer_def opened_def)
next
  case (Some fr)
  then have "\<forall>c\<in>C. length (a_queue (\<alpha> c)) + count_list (a_consumers (\<alpha> p)) c \<le> length (a_items (\<alpha> c))"
    using room by simp
  from close_pending [OF rel net p Some this, of flags] show ?thesis
    unfolding opened_def Some by fastforce
qed

lemma new_frame_unfold:
  "new_frame df flags ts s =
     bind_res (datafifo_alloc df s) (\<lambda>(cur, s1).
     if locked (s1 df) then Inl Blocked else
     let (old_item, F) = close_tail flags (s1 df); s2 = s1(df := F)
     in bind_res (case old_item of None \<Rightarrow> Inr s2 | Some old \<Rightarrow> datafifo_addto_consumers df old s2) (\<lambda>s3.
        datafifo_list_addtail df cur (s3(df := upd_item cur (tag_item flags ts) (s3 df)))))"
  unfolding new_frame_def tag_item_def [abs_def] Let_def by (rule refl)

lemma new_frame_rel:
  assumes rel: "rels (P \<union> C) s \<alpha>" and net: "net_ok P C \<alpha> (\<lambda>_. {})" and p: "p \<in> P" and set: "settled (\<alpha> p)"
    and free: "length (a_queue (\<alpha> p)) < length (a_items (\<alpha> p))"
    and room: "a_pending \<alpha> p \<noteq> None \<Longrightarrow>
      \<forall>c\<in>C. length (a_queue (\<alpha> c)) + count_list (a_consumers (\<alpha> p)) c \<le> length (a_items (\<alpha> c))"
  shows "\<exists>s' \<alpha>'. new_frame p flags ts s = Inr s' \<and> rels (P \<union> C) s' \<alpha>' \<and> net_ok P C \<alpha>' (\<lambda>_. {}) \<and>
    settled (\<alpha>' p) \<and> a_pending \<alpha>' p = Some ([], new_flags flags, ts) \<and>
    a_maxlen (\<alpha>' p) = a_maxlen (\<alpha> p) \<and> a_consumers (\<alpha>' p) = a_consumers (\<alpha> p) \<and>
    length (a_items (\<alpha>' p)) = length (a_items (\<alpha> p)) \<and> (\<forall>q\<in>P. q \<noteq> p \<longrightarrow> \<alpha>' q = \<alpha> q) \<and>
    opened C p flags \<alpha> \<alpha>' \<and> length (a_queue (\<alpha>' p)) \<le> Suc (length (a_queue (\<alpha> p)))"
proof -
  have r: "fifo_rel (s p) (\<alpha> p)" using relsD [OF rel] p by simp
  note D = producer_okD [OF net_okD(3) [OF net p]]
  have pC: "c \<noteq> p" if "c \<in> C" for c using that net_okD(2) [OF net p] by auto
  obtain cur F where cur: "alloc_item (s p) = Inr (cur, F)" "cur < length (items (s p))"
    "cur \<notin> set (a_queue (\<alpha> p))" "it_status (itm s p cur) = DATAFIFO_ITEM_STATUS_INIT"
    "fifo_rel F (a_upd cur reset_item (\<alpha> p))"
    using alloc_item_rel [OF r free_slot [OF r D(1)]] free by auto
  have cl: "cur < length (a_items (\<alpha> p))" and ci: "it_status (a_itm \<alpha> p cur) = DATAFIFO_ITEM_STATUS_INIT"
    using cur(2,4) fifo_relD(7,9) [OF r] by auto
  let ?a = "a_upd cur reset_item (\<alpha> p)"
  have rel1: "rels (P \<union> C) (s(p := F)) (\<alpha>(p := ?a))" by (rule rels_upd [OF rel cur(5)])
  have net1: "net_ok P C (\<alpha>(p := ?a)) ((\<lambda>_. {})(p := {cur}))" by (rule net_ok_alloc [OF net p refl cl ci])
  have other: "a_items ?a ! i = a_itm \<alpha> p i" if "i \<in> set (a_queue (\<alpha> p))" for i
  proof -
    have "i \<noteq> cur" using that cur(3) by auto
    then show ?thesis by (simp add: a_upd_def)
  qed
  have set1: "settled ((\<alpha>(p := ?a)) p)"
    using set other by (auto simp: settled_def head_busy_def split: list.splits)
  have fr1: "a_frame (\<alpha>(p := ?a)) it = a_frame \<alpha> it" for it by (rule a_frame_bufs) simp
  have pend1: "a_pending (\<alpha>(p := ?a)) p = a_pending \<alpha> p"
    unfolding a_pending_def fr1 using other by (simp add: Let_def)
  have cons1: "a_frames (\<alpha>(p := ?a)) c = a_frames \<alpha> c" if "c \<in> C" for c
    by (rule a_frames_producer [OF pC [OF that]]) simp
  have room1: "\<forall>c\<in>C. length (a_queue ((\<alpha>(p := ?a)) c)) + count_list (a_consumers ((\<alpha>(p := ?a)) p)) c
      \<le> length (a_items ((\<alpha>(p := ?a)) c))" if "a_pending (\<alpha>(p := ?a)) p \<noteq> None"
    using room that pC unfolding pend1 by simp
  obtain s3 \<beta> where L: "(case close_tail flags ((s(p := F)) p) of (old, F') \<Rightarrow>
         case old of None \<Rightarrow> Inr ((s(p := F))(p := F')) | Some t \<Rightarrow> datafifo_addto_consumers p t ((s(p := F))(p := F')))
       = Inr s3" "rels (P \<union> C) s3 \<beta>" "net_ok P C \<beta> ((\<lambda>_. {})(p := {cur}))" "all_doing (\<beta> p)"
    "same_producer ?a (\<beta> p)" "\<forall>q\<in>P. q \<noteq> p \<longrightarrow> \<beta> q = \<alpha> q"
    "opened C p flags (\<alpha>(p := ?a)) \<beta>"
    using new_frame_tail [of P C "s(p := F)" "\<alpha>(p := ?a)" "(\<lambda>_. {})(p := {cur})" p flags] rel1 net1 p set1 room1
    by auto
  have sp: "a_bufs (\<beta> p) = a_bufs (\<alpha> p)" "a_maxlen (\<beta> p) = a_maxlen (\<alpha> p)"
    "a_consumers (\<beta> p) = a_consumers (\<alpha> p)" "length (a_items (\<beta> p)) = length (a_items (\<alpha> p))"
    "cur \<notin> set (a_queue (\<beta> p))" "a_itm \<beta> p cur = reset_item (a_itm \<alpha> p cur)"
    "length (a_queue (\<beta> p)) \<le> length (a_queue (\<alpha> p))"
    using L(5) cur(3) cl by (simp_all add: same_producer_def a_items_upd)
  have r3: "fifo_rel (s3 p) (\<beta> p)" using relsD [OF L(2)] p by simp
  have cl3: "cur < length (items (s3 p))" "cur < length (a_items (\<beta> p))"
    using sp(4) cl fifo_relD(7) [OF r3] by auto
  have st3: "it_status (itm s3 p cur) = DATAFIFO_ITEM_STATUS_FILLING"
    using sp(6) fifo_relD(9) [OF r3 cl3(1)] by (metis core_simps(3) reset_item_simps(1))
  let ?F4 = "upd_item cur (tag_item flags ts) (s3 p)" and ?b = "a_upd cur (tag_item flags ts) (\<beta> p)"
  have r4: "fifo_rel ?F4 ?b" by (rule fifo_rel_upd [OF r3]) simp_all
  have len0: "arg_len (a_itm \<beta> p cur) = 0" using sp(6) by simp
  have net4: "net_ok P C (\<beta>(p := ?b)) ((\<lambda>_. {})(p := {cur}))"
    by (rule net_ok_upd [OF L(3) p cl3(2)]) (use sp(5) len0 in \<open>auto dest: in_set_butlastD\<close>)
  have item4: "a_itm (\<beta>(p := ?b)) p cur = tag_item flags ts (reset_item (a_itm \<alpha> p cur))"
    using cl3(2) sp(6) by (simp add: a_items_upd)
  have other4: "a_items ?b ! i = a_itm \<beta> p i" if "i \<in> set (a_queue (\<beta> p))" for i
  proof -
    have "i \<noteq> cur" using that sp(5) by auto
    then show ?thesis by (simp add: a_upd_def)
  qed
  let ?c = "?b\<lparr>a_queue := a_queue ?b @ [cur]\<rparr>"
  have "net_ok P C ((\<beta>(p := ?b))(p := ((\<beta>(p := ?b)) p)\<lparr>a_queue := a_queue ((\<beta>(p := ?b)) p) @ [cur]\<rparr>))
      (((\<lambda>_. {})(p := {cur}))(p := ((\<lambda>_. {})(p := {cur})) p - {cur}))"
    by (rule net_ok_append [OF net4 p]) (use item4 L(4) other4 in \<open>simp_all add: all_doing_def\<close>)
  then have net5: "net_ok P C (\<beta>(p := ?c)) (\<lambda>_. {})"
    by (simp only: fun_upd_upd fun_upd_same Diff_cancel) (simp add: fun_upd_idem)
  have st4: "it_status (items ?F4 ! cur) \<noteq> DATAFIFO_ITEM_STATUS_INIT" "cur < length (items ?F4)"
    using st3 cl3(1) by (simp_all add: upd_item_def)
  obtain F5 where F5: "addtail cur ?F4 = Inr F5" "fifo_rel F5 ?c"
    using addtail_rel [OF r4 st4(2) _ st4(1)] sp(5) by auto
  have nf: "new_frame p flags ts s = Inr (s3(p := F5))"
  proof -
    have "\<not> locked (s p)" "\<not> locked F" "\<not> locked ?F4"
      using fifo_relD(6) [OF r] fifo_relD(6) [OF cur(5)] fifo_relD(6) [OF r4] by auto
    moreover obtain old F' where ct: "close_tail flags F = (old, F')" by fastforce
    moreover have "(case old of None \<Rightarrow> Inr (s(p := F')) | Some t \<Rightarrow> datafifo_addto_consumers p t (s(p := F'))) = Inr s3"
      using L(1) ct by (cases old) simp_all
    ultimately show ?thesis
      using cur(1) F5(1) unfolding new_frame_unfold datafifo_alloc_def
      by (simp add: datafifo_list_addtail_def on_fifo_def Let_def)
  qed
  have frc: "a_frame (\<beta>(p := ?c)) it = a_frame \<beta> it" for it by (rule a_frame_bufs) simp
  have "a_pending (\<beta>(p := ?c)) p = Some ([], new_flags flags, ts)"
    unfolding a_pending_def frc using item4 cl3(2)
    by (simp add: a_items_upd a_frame_def tag_item_def new_flags_def Let_def split: option.splits)
  moreover have "settled ((\<beta>(p := ?c)) p)"
    using L(4) other4 item4 by (auto simp: settled_def all_doing_def head_busy_def split: list.splits)
  moreover have "opened C p flags \<alpha> (\<beta>(p := ?c))"
  proof (rule opened_transfer [OF L(7) pend1])
    fix c assume c: "c \<in> C"
    show "(\<alpha>(p := ?a)) c = \<alpha> c \<and> a_frames (\<alpha>(p := ?a)) c = a_frames \<alpha> c"
      using pC [OF c] cons1 [OF c] by simp
    show "\<beta> c = (\<beta>(p := ?c)) c \<and> a_frames \<beta> c = a_frames (\<beta>(p := ?c)) c"
      using pC [OF c] a_frames_producer [OF pC [OF c], of ?c \<beta>] by simp
  qed simp
  ultimately show ?thesis
    using nf rels_upd [OF L(2) F5(2)] net5 sp L(6)
    by (intro exI [of _ "s3(p := F5)"] exI [of _ "\<beta>(p := ?c)"]) simp
qed

section \<open>Adding data\<close>

definition grow :: "u32 \<Rightarrow> t_datafifo_item \<Rightarrow> t_datafifo_item" where
  "grow len it = it\<lparr>arg_len := arg_len it + len\<rparr>"

lemma grow_simps [simp]:
  "core (grow len it) = grow len (core it)" "it_next (grow len it) = it_next it"
  "it_prev (grow len it) = it_prev it" "it_status (grow len it) = it_status it"
  "arg_data (grow len it) = arg_data it" "refcnt (grow len it) = refcnt it"
  "arg_len (grow len it) = arg_len it + len" "arg_flags (grow len it) = arg_flags it"
  "arg_timestamp (grow len it) = arg_timestamp it"
  by (simp_all add: grow_def core_def)

text \<open>The tail item and its buffer, when a frame is being filled.\<close>

lemma pending_item:
  assumes rel: "rels (P \<union> C) s \<alpha>" and net: "net_ok P C \<alpha> A" and p: "p \<in> P"
    and pend: "a_pending \<alpha> p = Some (d, f, t)"
  obtains i q where "a_queue (\<alpha> p) = q @ [i]" "listtail (s p) = Some i" "i < length (items (s p))"
    "i < length (a_items (\<alpha> p))" "i \<notin> set q"
    "it_status (a_itm \<alpha> p i) = DATAFIFO_ITEM_STATUS_FILLING" "a_itm \<alpha> p i = core (itm s p i)"
    "arg_data (itm s p i) = Some (p, i)" "arg_len (itm s p i) \<le> data_maxlen (s p)"
    "length (bufs (s p) ! i) = unat (data_maxlen (s p)) + 12" "length (bufs (s p)) = length (items (s p))"
    "d = take (unat (arg_len (itm s p i))) (bufs (s p) ! i)" "f = arg_flags (itm s p i)"
    "t = arg_timestamp (itm s p i)"
proof -
  have r: "fifo_rel (s p) (\<alpha> p)" using relsD [OF rel] p by simp
  note D = producer_okD [OF net_okD(3) [OF net p]]
  obtain q i where q: "a_queue (\<alpha> p) = q @ [i]"
    using pend by (cases "a_queue (\<alpha> p)" rule: rev_cases) (auto simp: a_pending_def)
  have il: "i < length (items (s p))" using fifo_relD(8) [OF r] q by simp
  have il': "i < length (a_items (\<alpha> p))" using il fifo_relD(7) [OF r] by simp
  have it: "a_itm \<alpha> p i = core (itm s p i)" using fifo_relD(9) [OF r il] .
  have st: "it_status (a_itm \<alpha> p i) = DATAFIFO_ITEM_STATUS_FILLING" and fr: "(d, f, t) = a_frame \<alpha> (a_itm \<alpha> p i)"
    using pend q by (auto simp: a_pending_def Let_def split: if_splits)
  have ad: "arg_data (itm s p i) = Some (p, i)" using D(3) [OF il'] it by simp
  show thesis
  proof (rule that [OF q])
    show "i \<notin> set q" using pool_okD(1) [OF D(1)] q by simp
    show "arg_len (itm s p i) \<le> data_maxlen (s p)" using D(4) [OF il'] it fifo_relD(3) [OF r] by simp
    show "length (bufs (s p) ! i) = unat (data_maxlen (s p)) + 12"
      using D(5) [OF il'] fifo_relD(3,4) [OF r] by simp
    show "length (bufs (s p)) = length (items (s p))" using D(7) fifo_relD(4,7) [OF r] by simp
    show "d = take (unat (arg_len (itm s p i))) (bufs (s p) ! i)" "f = arg_flags (itm s p i)"
      "t = arg_timestamp (itm s p i)"
      using fr it ad fifo_relD(4) [OF r] by (simp_all add: a_frame_def)
  qed (use fifo_relD(11) [OF r] q il il' st it ad in simp_all)
qed

lemma fifo_rel_set_buf:
  "fifo_rel F a \<Longrightarrow> fifo_rel (F\<lparr>bufs := (bufs F)[i := b]\<rparr>) (set_buf i b a)"
  by (simp add: fifo_rel_def set_buf_def)

lemma append_data_rel:
  assumes rel: "rels (P \<union> C) s \<alpha>" and net: "net_ok P C \<alpha> A" and p: "p \<in> P" and set: "settled (\<alpha> p)"
    and pend: "a_pending \<alpha> p = Some (d, f, t)" and len: "unat len = length data"
    and wrap: "unat (a_maxlen (\<alpha> p)) + length data < 2 ^ 32"
  shows "unat (a_maxlen (\<alpha> p)) < length d + length data \<Longrightarrow> append_data p data len flags s = Inr (-5, s)"
    and "length d + length data \<le> unat (a_maxlen (\<alpha> p)) \<Longrightarrow>
      (flags AND FRAME_FLAG_FRAMEEND \<noteq> 0 \<Longrightarrow>
        \<forall>c\<in>C. length (a_queue (\<alpha> c)) + count_list (a_consumers (\<alpha> p)) c \<le> length (a_items (\<alpha> c))) \<Longrightarrow>
      \<exists>s' \<alpha>'. append_data p data len flags s = Inr (0, s') \<and> rels (P \<union> C) s' \<alpha>' \<and> net_ok P C \<alpha>' A \<and>
        settled (\<alpha>' p) \<and> (\<forall>q\<in>P. q \<noteq> p \<longrightarrow> \<alpha>' q = \<alpha> q) \<and> a_maxlen (\<alpha>' p) = a_maxlen (\<alpha> p) \<and>
        a_consumers (\<alpha>' p) = a_consumers (\<alpha> p) \<and> length (a_items (\<alpha>' p)) = length (a_items (\<alpha> p)) \<and>
        length (a_queue (\<alpha>' p)) \<le> length (a_queue (\<alpha> p)) \<and>
        (if flags AND FRAME_FLAG_FRAMEEND \<noteq> 0
         then a_pending \<alpha>' p = None \<and> delivered C \<alpha> \<alpha>' (count_list (a_consumers (\<alpha> p))) (d @ data, f, t)
         else a_pending \<alpha>' p = Some (d @ data, f, t) \<and> (\<forall>c\<in>C. \<alpha>' c = \<alpha> c \<and> a_frames \<alpha>' c = a_frames \<alpha> c))"
proof -
  have r: "fifo_rel (s p) (\<alpha> p)" using relsD [OF rel] p by simp
  have pC: "c \<noteq> p" if "c \<in> C" for c using that net_okD(2) [OF net p] by auto
  obtain i q where I: "a_queue (\<alpha> p) = q @ [i]" "listtail (s p) = Some i" "i < length (items (s p))"
    "i < length (a_items (\<alpha> p))" "i \<notin> set q"
    "it_status (a_itm \<alpha> p i) = DATAFIFO_ITEM_STATUS_FILLING" "a_itm \<alpha> p i = core (itm s p i)"
    "arg_data (itm s p i) = Some (p, i)" "arg_len (itm s p i) \<le> data_maxlen (s p)"
    "length (bufs (s p) ! i) = unat (data_maxlen (s p)) + 12" "length (bufs (s p)) = length (items (s p))"
    "d = take (unat (arg_len (itm s p i))) (bufs (s p) ! i)" "f = arg_flags (itm s p i)"
    "t = arg_timestamp (itm s p i)"
    by (rule pending_item [OF rel net p pend])
  let ?L = "arg_len (itm s p i)" and ?M = "data_maxlen (s p)"
  have M: "a_maxlen (\<alpha> p) = ?M" using fifo_relD(3) [OF r] .
  have L: "unat ?L \<le> unat ?M" using I(9) by (simp add: word_le_nat_alt)
  have ld: "length d = unat ?L" using I(10,12) L by simp
  have uL: "unat (?L + len) = unat ?L + unat len"
    using wrap L len M by (intro unat_add_lem [THEN iffD1]) simp
  have cmp: "(?M < ?L + len) = (unat ?M < length d + length data)"
    using uL ld len by (simp add: word_less_nat_alt)
  show "append_data p data len flags s = Inr (-5, s)" if "unat (a_maxlen (\<alpha> p)) < length d + length data"
    using that cmp M I(2) by (simp add: append_data_def)
  assume fit: "length d + length data \<le> unat (a_maxlen (\<alpha> p))"
    and room: "flags AND FRAME_FLAG_FRAMEEND \<noteq> 0 \<Longrightarrow>
        \<forall>c\<in>C. length (a_queue (\<alpha> c)) + count_list (a_consumers (\<alpha> p)) c \<le> length (a_items (\<alpha> c))"
  show "\<exists>s' \<alpha>'. append_data p data len flags s = Inr (0, s') \<and> rels (P \<union> C) s' \<alpha>' \<and> net_ok P C \<alpha>' A \<and>
        settled (\<alpha>' p) \<and> (\<forall>q\<in>P. q \<noteq> p \<longrightarrow> \<alpha>' q = \<alpha> q) \<and> a_maxlen (\<alpha>' p) = a_maxlen (\<alpha> p) \<and>
        a_consumers (\<alpha>' p) = a_consumers (\<alpha> p) \<and> length (a_items (\<alpha>' p)) = length (a_items (\<alpha> p)) \<and>
        length (a_queue (\<alpha>' p)) \<le> length (a_queue (\<alpha> p)) \<and>
        (if flags AND FRAME_FLAG_FRAMEEND \<noteq> 0
         then a_pending \<alpha>' p = None \<and> delivered C \<alpha> \<alpha>' (count_list (a_consumers (\<alpha> p))) (d @ data, f, t)
         else a_pending \<alpha>' p = Some (d @ data, f, t) \<and> (\<forall>c\<in>C. \<alpha>' c = \<alpha> c \<and> a_frames \<alpha>' c = a_frames \<alpha> c))"
  proof -
    define buf where "buf = take (unat ?L) (bufs (s p) ! i) @ data @ drop (unat ?L + length data) (bufs (s p) ! i)"
    have wr: "mem_write (bufs (s p) ! i) (unat ?L) data = Inr buf"
      using fit M ld I(10) by (simp add: mem_write_def buf_def)
    have lb: "length buf = unat (a_maxlen (\<alpha> p)) + 12" using mem_write_length [OF wr] I(10) M by simp
    define F2 where "F2 = upd_item i (grow len) ((s p)\<lparr>bufs := (bufs (s p))[i := buf]\<rparr>)"
    define a2 where "a2 = a_upd i (grow len) (set_buf i buf (\<alpha> p))"
    have r2: "fifo_rel F2 a2"
      unfolding F2_def a2_def by (rule fifo_rel_upd [OF fifo_rel_set_buf [OF r]]) simp_all
    have rel2: "rels (P \<union> C) (s(p := F2)) (\<alpha>(p := a2))" by (rule rels_upd [OF rel r2])
    have gl: "arg_len (grow len (a_itm \<alpha> p i)) \<le> a_maxlen (\<alpha> p)"
      using uL fit ld len M I(7) by (simp add: word_le_nat_alt)
    have "net_ok P C ((\<alpha>(p := set_buf i buf (\<alpha> p)))(p := a_upd i (grow len) ((\<alpha>(p := set_buf i buf (\<alpha> p))) p))) A"
      by (rule net_ok_upd [OF net_ok_set_buf [OF net p lb] p]) (use I(1,4,5,6) gl in auto)
    then have net2: "net_ok P C (\<alpha>(p := a2)) A" by (simp only: fun_upd_upd fun_upd_same a2_def)
    have q2: "a_queue a2 = q @ [i]" "a_consumers a2 = a_consumers (\<alpha> p)" "a_maxlen a2 = a_maxlen (\<alpha> p)"
      "length (a_items a2) = length (a_items (\<alpha> p))" "length (a_queue a2) = length (a_queue (\<alpha> p))"
      using I(1) by (simp_all add: a2_def)
    have it2: "a_items a2 ! i = grow len (a_itm \<alpha> p i)" using I(4) by (simp add: a2_def a_items_upd)
    have oth2: "a_items a2 ! j = a_itm \<alpha> p j" if "j \<noteq> i" for j using that by (simp add: a2_def a_upd_def)
    have fr2: "a_frames (\<alpha>(p := a2)) c = a_frames \<alpha> c" if c: "c \<in> C" for c
    proof -
      have "a_frames ((\<alpha>(p := set_buf i buf (\<alpha> p)))(p := a2)) c = a_frames (\<alpha>(p := set_buf i buf (\<alpha> p))) c"
        by (rule a_frames_producer [OF pC [OF c]]) (simp add: a2_def)
      then show ?thesis using a_frames_set_buf [OF net p c, of i buf] I(6) by simp
    qed
    have itf: "a_frame (\<alpha>(p := a2)) (a_items a2 ! i) = (d @ data, f, t)"
    proof -
      have "a_bufs a2 ! i = buf" using I(3,11) fifo_relD(4) [OF r] by (simp add: a2_def set_buf_def)
      moreover have "take (unat ?L + length data) buf = d @ data"
        using ld I(12) by (simp add: buf_def)
      ultimately show ?thesis using it2 I(7,8,13,14) uL len by (simp add: a_frame_def)
    qed
    have st2: "it_status (a_items a2 ! i) = DATAFIFO_ITEM_STATUS_FILLING" using it2 I(6) by simp
    have "head_busy a2"
      using set oth2 st2 I(1,5) q2(1) unfolding settled_def head_busy_def by (cases q) auto
    then have set2: "settled a2"
      using set oth2 st2 I(1) q2(1) unfolding settled_def by (metis (no_types, lifting) Un_iff set_append)
    have ap: "append_data p data len flags s =
        (if flags AND FRAME_FLAG_FRAMEEND \<noteq> 0 then
           bind_res (datafifo_addto_consumers p i
             (s(p := upd_item i (set_status DATAFIFO_ITEM_STATUS_READY) F2))) (\<lambda>s3. Inr (0, s3))
         else Inr (0, s(p := F2)))"
    proof -
      have "\<not> ?M < ?L + len" using cmp fit M by simp
      then show ?thesis
        using I(2,8) wr len
        by (simp add: append_data_def Let_def mem_read_def F2_def grow_def [abs_def] set_status_def [abs_def])
    qed
    show ?thesis
    proof (cases "flags AND FRAME_FLAG_FRAMEEND \<noteq> 0")
      case False
      have "a_pending (\<alpha>(p := a2)) p = Some (d @ data, f, t)"
        using q2(1) st2 itf by (simp add: a_pending_def Let_def)
      then show ?thesis
        using ap False rel2 net2 set2 q2 fr2 pC
        by (intro exI [of _ "s(p := F2)"] exI [of _ "\<alpha>(p := a2)"]) simp
    next
      case True
      let ?F3 = "upd_item i (set_status DATAFIFO_ITEM_STATUS_READY) F2"
      define a3 where "a3 = a_upd i (set_status DATAFIFO_ITEM_STATUS_READY) a2"
      have l2: "i < length (a_items a2)" using I(4) q2(4) by simp
      have "it_status (items F2 ! i) = DATAFIFO_ITEM_STATUS_FILLING"
        using st2 fifo_relD(7,9) [OF r2] l2 by simp
      then have r3: "fifo_rel ?F3 a3"
        unfolding a3_def by (intro fifo_rel_upd [OF r2]) simp_all
      have rel3: "rels (P \<union> C) (s(p := ?F3)) (\<alpha>(p := a3))" by (rule rels_upd [OF rel r3])
      have "net_ok P C ((\<alpha>(p := a2))(p := a_upd i (set_status DATAFIFO_ITEM_STATUS_READY) ((\<alpha>(p := a2)) p))) A"
        by (rule net_ok_upd [OF net2 p])
          (use l2 st2 q2(1) I(5) producer_okD(4) [OF net_okD(3) [OF net2 p], of i] in auto)
      then have net3: "net_ok P C (\<alpha>(p := a3)) A" by (simp only: fun_upd_upd fun_upd_same a3_def)
      have q3: "a_queue a3 = q @ [i]" "a_consumers a3 = a_consumers (\<alpha> p)" "a_maxlen a3 = a_maxlen (\<alpha> p)"
        "length (a_items a3) = length (a_items (\<alpha> p))" "a_bufs a3 = a_bufs a2"
        "a_items a3 ! i = set_status DATAFIFO_ITEM_STATUS_READY (a_items a2 ! i)"
        "length (a_queue a3) = length (a_queue (\<alpha> p))"
        using q2 l2 by (simp_all add: a3_def a_items_upd)
      have fr3: "a_frames (\<alpha>(p := a3)) c = a_frames \<alpha> c" if c: "c \<in> C" for c
      proof -
        have "a_frames ((\<alpha>(p := a2))(p := a3)) c = a_frames (\<alpha>(p := a2)) c"
          by (rule a_frames_producer [OF pC [OF c]]) (simp add: q3(5))
        then show ?thesis using fr2 [OF c] by simp
      qed
      have itf3: "a_frame (\<alpha>(p := a3)) (a_items a3 ! i) = (d @ data, f, t)"
      proof -
        have "a_frame (\<alpha>(p := a3)) it = a_frame (\<alpha>(p := a2)) it" for it
          by (rule a_frame_bufs) (simp add: q3(5))
        then show ?thesis
          using itf q3(6) a_frame_same_args [of "a_items a2 ! i" "a_items a3 ! i"] by simp
      qed
      have room3: "\<forall>c\<in>C. length (a_queue ((\<alpha>(p := a3)) c)) + count_list (a_consumers ((\<alpha>(p := a3)) p)) c
          \<le> length (a_items ((\<alpha>(p := a3)) c))"
        using room [OF True] q3(2) pC by simp
      obtain s' \<alpha>' where L: "datafifo_addto_consumers p i (s(p := ?F3)) = Inr s'" "rels (P \<union> C) s' \<alpha>'"
        "net_ok P C \<alpha>' A" "delivered C (\<alpha>(p := a3)) \<alpha>' (count_list (a_consumers (\<alpha> p))) (d @ data, f, t)"
        "all_doing (\<alpha>' p)" "same_producer a3 (\<alpha>' p)" "\<forall>q\<in>P. q \<noteq> p \<longrightarrow> \<alpha>' q = \<alpha> q"
        using deliver_last [of P C "s(p := ?F3)" "\<alpha>(p := a3)" A p q i] rel3 net3 p q3 room3 itf3 by auto
      have "delivered C \<alpha> \<alpha>' (count_list (a_consumers (\<alpha> p))) (d @ data, f, t)"
        using L(4) fr3 pC by (simp add: delivered_def)
      moreover have "settled (\<alpha>' p)" "a_pending \<alpha>' p = None"
        using L(5) by (auto simp: settled_def all_doing_def a_pending_def Let_def)
      ultimately show ?thesis
        using ap True L(1-3,6,7) q3
        by (intro exI [of _ s'] exI [of _ \<alpha>']) (simp add: same_producer_def)
    qed
  qed
qed

section \<open>The invariant of the store, and the producer\<close>

definition fifos_ok :: "fifo_id set \<Rightarrow> fifo_id set \<Rightarrow> fifos \<Rightarrow> bool" where
  "fifos_ok P C s \<longleftrightarrow> (\<exists>\<alpha>. rels (P \<union> C) s \<alpha> \<and> net_ok P C \<alpha> (\<lambda>_. {}) \<and> (\<forall>p\<in>P. settled (\<alpha> p)))"

definition in_use :: "fifos \<Rightarrow> fifo_id \<Rightarrow> nat" where
  "in_use s f = length (fifo_items (s f))"

definition capacity :: "fifos \<Rightarrow> fifo_id \<Rightarrow> nat" where
  "capacity s f = length (items (s f))"

text \<open>How often a frame of \<open>p\<close> reaches \<open>c\<close>: once for every connection.\<close>

definition links :: "fifos \<Rightarrow> fifo_id \<Rightarrow> fifo_id \<Rightarrow> nat" where
  "links s p c = count_list (consumers (s p)) c"

definition broadcast :: "nat \<Rightarrow> frame list \<Rightarrow> frame list" where
  "broadcast k out = concat (map (replicate k) out)"

lemma broadcast_simps [simp]:
  "broadcast k [] = []" "broadcast k (fr # out) = replicate k fr @ broadcast k out"
  "broadcast k (xs @ ys) = broadcast k xs @ broadcast k ys"
  by (simp_all add: broadcast_def)

lemma broadcast_1: "broadcast 1 out = out"
  by (induction out) (auto simp: broadcast_def)

lemma length_broadcast: "length (broadcast k out) = k * length out"
  by (induction out) auto

lemma abs_measures:
  assumes "rels S s \<alpha>" and "f \<in> S"
  shows "in_use s f = length (a_queue (\<alpha> f))" and "capacity s f = length (a_items (\<alpha> f))"
    and "consumers (s f) = a_consumers (\<alpha> f)" and "data_maxlen (s f) = a_maxlen (\<alpha> f)"
  using fifo_rel_queue [OF relsD [OF assms]] fifo_relD(3,5,7) [OF relsD [OF assms]]
  by (simp_all add: in_use_def capacity_def)

lemma a_pending_other:
  assumes "net_ok P C \<alpha> A" and "q \<in> P" and "\<alpha>' q = \<alpha> q"
  shows "a_pending \<alpha>' q = a_pending \<alpha> q"
proof (cases "a_queue (\<alpha> q) = []")
  case False
  let ?t = "last (a_queue (\<alpha> q))"
  have "?t < length (a_items (\<alpha> q))"
    using pool_okD(2) [OF producer_okD(1) [OF net_okD(3) [OF assms(1,2)]]] False by simp
  then have "arg_data (a_itm \<alpha> q ?t) = Some (q, ?t)" by (rule producer_okD(3) [OF net_okD(3) [OF assms(1,2)]])
  then show ?thesis using assms(3) by (simp add: a_pending_def Let_def a_frame_def)
qed (use assms(3) in \<open>simp add: a_pending_def\<close>)

text \<open>What the caller of a producer operation may rely on.\<close>

definition producer_post ::
    "fifo_id set \<Rightarrow> fifo_id set \<Rightarrow> fifo_id \<Rightarrow> nat \<Rightarrow> fifos \<Rightarrow> fifos \<Rightarrow> frame option \<Rightarrow> frame list \<Rightarrow> bool" where
  "producer_post P C p n s s' pend out \<longleftrightarrow>
     fifos_ok P C s' \<and> pending s' p = pend \<and> in_use s' p \<le> in_use s p + n \<and>
     (\<forall>q\<in>P. q \<noteq> p \<longrightarrow> pending s' q = pending s q \<and> in_use s' q = in_use s q) \<and>
     (\<forall>q\<in>P. consumers (s' q) = consumers (s q) \<and> data_maxlen (s' q) = data_maxlen (s q)) \<and>
     (\<forall>f\<in>P \<union> C. capacity s' f = capacity s f) \<and>
     (\<forall>c\<in>C. frames s' c = frames s c @ broadcast (links s p c) out \<and>
        in_use s' c = in_use s c + links s p c * length out)"

text \<open>The abstract form of the same, for the steps.\<close>

definition a_post ::
    "fifo_id set \<Rightarrow> fifo_id set \<Rightarrow> fifo_id \<Rightarrow> nat \<Rightarrow> anet \<Rightarrow> anet \<Rightarrow> frame option \<Rightarrow> frame list \<Rightarrow> bool" where
  "a_post P C p n \<alpha> \<alpha>' pend out \<longleftrightarrow>
     settled (\<alpha>' p) \<and> length (a_queue (\<alpha>' p)) \<le> length (a_queue (\<alpha> p)) + n \<and> a_pending \<alpha>' p = pend \<and> (\<forall>q\<in>P. q \<noteq> p \<longrightarrow> \<alpha>' q = \<alpha> q) \<and>
     a_maxlen (\<alpha>' p) = a_maxlen (\<alpha> p) \<and> a_consumers (\<alpha>' p) = a_consumers (\<alpha> p) \<and>
     length (a_items (\<alpha>' p)) = length (a_items (\<alpha> p)) \<and>
     (\<forall>c\<in>C. a_frames \<alpha>' c = a_frames \<alpha> c @ broadcast (count_list (a_consumers (\<alpha> p)) c) out \<and>
        length (a_queue (\<alpha>' c)) = length (a_queue (\<alpha> c)) + count_list (a_consumers (\<alpha> p)) c * length out \<and>
        length (a_items (\<alpha>' c)) = length (a_items (\<alpha> c)))"

lemma a_post_trans:
  "a_post P C p n \<alpha> \<beta> pend out \<Longrightarrow> a_post P C p m \<beta> \<gamma> pend' out' \<Longrightarrow>
   a_post P C p (n + m) \<alpha> \<gamma> pend' (out @ out')"
  unfolding a_post_def by (simp add: algebra_simps)

lemma delivered_post:
  "delivered C \<alpha> \<alpha>' k fr \<Longrightarrow> c \<in> C \<Longrightarrow> a_frames \<alpha>' c = a_frames \<alpha> c @ broadcast (k c) [fr] \<and>
     length (a_queue (\<alpha>' c)) = length (a_queue (\<alpha> c)) + k c * length [fr] \<and>
     length (a_items (\<alpha>' c)) = length (a_items (\<alpha> c))"
  by (simp add: delivered_def)

lemma open_post:
  assumes rel: "rels (P \<union> C) s \<alpha>" and net: "net_ok P C \<alpha> (\<lambda>_. {})" and p: "p \<in> P" and set: "settled (\<alpha> p)"
    and new: "flags AND FRAME_FLAG_NEWFRAME \<noteq> 0" and op: "open_frame flags ts (a_pending \<alpha> p) = (pend, out)"
    and free: "length (a_queue (\<alpha> p)) < length (a_items (\<alpha> p))"
    and room: "\<forall>c\<in>C. length (a_queue (\<alpha> c)) + count_list (a_consumers (\<alpha> p)) c * length out \<le> length (a_items (\<alpha> c))"
  shows "\<exists>s' \<alpha>'. new_frame p flags ts s = Inr s' \<and> rels (P \<union> C) s' \<alpha>' \<and> net_ok P C \<alpha>' (\<lambda>_. {}) \<and>
    a_post P C p 1 \<alpha> \<alpha>' pend out \<and> pend = Some ([], new_flags flags, ts)"
proof -
  have pe: "pend = Some ([], new_flags flags, ts)" and
    out: "out = (case a_pending \<alpha> p of None \<Rightarrow> [] | Some fr \<Rightarrow> [close_frame flags fr])"
    using op new by (auto simp: open_frame_def)
  have room': "\<forall>c\<in>C. length (a_queue (\<alpha> c)) + count_list (a_consumers (\<alpha> p)) c \<le> length (a_items (\<alpha> c))"
    if "a_pending \<alpha> p \<noteq> None" using that room out by auto
  obtain s' \<alpha>' where L: "new_frame p flags ts s = Inr s'" "rels (P \<union> C) s' \<alpha>'" "net_ok P C \<alpha>' (\<lambda>_. {})"
    "settled (\<alpha>' p)" "a_pending \<alpha>' p = Some ([], new_flags flags, ts)" "a_maxlen (\<alpha>' p) = a_maxlen (\<alpha> p)"
    "a_consumers (\<alpha>' p) = a_consumers (\<alpha> p)" "length (a_items (\<alpha>' p)) = length (a_items (\<alpha> p))"
    "\<forall>q\<in>P. q \<noteq> p \<longrightarrow> \<alpha>' q = \<alpha> q" "opened C p flags \<alpha> \<alpha>'"
    "length (a_queue (\<alpha>' p)) \<le> Suc (length (a_queue (\<alpha> p)))"
    using new_frame_rel [OF rel net p set free room', of flags ts] by blast
  have "a_frames \<alpha>' c = a_frames \<alpha> c @ broadcast (count_list (a_consumers (\<alpha> p)) c) out \<and>
      length (a_queue (\<alpha>' c)) = length (a_queue (\<alpha> c)) + count_list (a_consumers (\<alpha> p)) c * length out \<and>
      length (a_items (\<alpha>' c)) = length (a_items (\<alpha> c))" if "c \<in> C" for c
    using L(10) that delivered_post [OF _ that] unfolding opened_def out
    by (cases "a_pending \<alpha> p") auto
  then show ?thesis using L pe unfolding a_post_def by (intro exI [of _ s'] exI [of _ \<alpha>']) auto
qed

text \<open>The second half of \<open>framer\<close>.\<close>

definition add_data :: "nat \<Rightarrow> byte list \<Rightarrow> u32 \<Rightarrow> frame \<Rightarrow> int \<times> frame option \<times> frame list" where
  "add_data maxlen data flags = (\<lambda>(d, f, t).
     if maxlen < length d + length data then (-5, Some (d, f, t), [])
     else if flags AND FRAME_FLAG_FRAMEEND \<noteq> 0 then (0, None, [(d @ data, f, t)])
     else (0, Some (d @ data, f, t), []))"

lemma framer_add_data:
  "open_frame flags ts pend = (Some fr, out) \<Longrightarrow>
   framer maxlen pend (data, flags, ts) = (case add_data maxlen data flags fr of (r, pe, o2) \<Rightarrow> (r, pe, out @ o2))"
  by (cases fr) (simp add: framer_def add_data_def)

lemma append_post:
  assumes rel: "rels (P \<union> C) s \<alpha>" and net: "net_ok P C \<alpha> (\<lambda>_. {})" and p: "p \<in> P" and set: "settled (\<alpha> p)"
    and pend: "a_pending \<alpha> p = Some fr" and len: "unat len = length data"
    and wrap: "unat (a_maxlen (\<alpha> p)) + length data < 2 ^ 32"
    and ad: "add_data (unat (a_maxlen (\<alpha> p))) data flags fr = (ret, pe, out)"
    and room: "\<forall>c\<in>C. length (a_queue (\<alpha> c)) + count_list (a_consumers (\<alpha> p)) c * length out \<le> length (a_items (\<alpha> c))"
  shows "\<exists>s' \<alpha>'. append_data p data len flags s = Inr (ret, s') \<and> rels (P \<union> C) s' \<alpha>' \<and>
    net_ok P C \<alpha>' (\<lambda>_. {}) \<and> a_post P C p 0 \<alpha> \<alpha>' pe out"
proof -
  obtain d f t where fr: "fr = (d, f, t)" by (cases fr)
  note R = append_data_rel [OF rel net p set pend [unfolded fr] len wrap, of flags]
  show ?thesis
  proof (cases "unat (a_maxlen (\<alpha> p)) < length d + length data")
    case True
    then have "ret = -5" "pe = Some fr" "out = []" using ad by (auto simp: add_data_def fr)
    then show ?thesis using R(1) [OF True] rel net set pend
      by (intro exI [of _ s] exI [of _ \<alpha>]) (simp add: a_post_def)
  next
    case False
    then have fit: "length d + length data \<le> unat (a_maxlen (\<alpha> p))" by simp
    show ?thesis
    proof (cases "flags AND FRAME_FLAG_FRAMEEND \<noteq> 0")
      case True
      then have o: "ret = 0" "pe = None" "out = [(d @ data, f, t)]"
        using ad False True by (simp_all add: add_data_def fr)
      have "\<forall>c\<in>C. length (a_queue (\<alpha> c)) + count_list (a_consumers (\<alpha> p)) c \<le> length (a_items (\<alpha> c))"
        using room o by simp
      from R(2) [OF fit this] obtain s' \<alpha>' where L: "append_data p data len flags s = Inr (0, s')"
        "rels (P \<union> C) s' \<alpha>'" "net_ok P C \<alpha>' (\<lambda>_. {})" "settled (\<alpha>' p)" "\<forall>q\<in>P. q \<noteq> p \<longrightarrow> \<alpha>' q = \<alpha> q"
        "a_maxlen (\<alpha>' p) = a_maxlen (\<alpha> p)" "a_consumers (\<alpha>' p) = a_consumers (\<alpha> p)"
        "length (a_items (\<alpha>' p)) = length (a_items (\<alpha> p))" "a_pending \<alpha>' p = None"
        "delivered C \<alpha> \<alpha>' (count_list (a_consumers (\<alpha> p))) (d @ data, f, t)"
        "length (a_queue (\<alpha>' p)) \<le> length (a_queue (\<alpha> p))"
        using True by auto
      then show ?thesis using delivered_post [OF L(10)] o
        by (intro exI [of _ s'] exI [of _ \<alpha>']) (simp add: a_post_def)
    next
      case nend: False
      then have o: "ret = 0" "pe = Some (d @ data, f, t)" "out = []"
        using ad False nend by (simp_all add: add_data_def fr)
      from R(2) [OF fit] nend obtain s' \<alpha>' where L: "append_data p data len flags s = Inr (0, s')"
        "rels (P \<union> C) s' \<alpha>'" "net_ok P C \<alpha>' (\<lambda>_. {})" "settled (\<alpha>' p)" "\<forall>q\<in>P. q \<noteq> p \<longrightarrow> \<alpha>' q = \<alpha> q"
        "a_maxlen (\<alpha>' p) = a_maxlen (\<alpha> p)" "a_consumers (\<alpha>' p) = a_consumers (\<alpha> p)"
        "length (a_items (\<alpha>' p)) = length (a_items (\<alpha> p))" "a_pending \<alpha>' p = Some (d @ data, f, t)"
        "\<forall>c\<in>C. \<alpha>' c = \<alpha> c \<and> a_frames \<alpha>' c = a_frames \<alpha> c"
        "length (a_queue (\<alpha>' p)) \<le> length (a_queue (\<alpha> p))"
        by auto
      then show ?thesis using o by (intro exI [of _ s'] exI [of _ \<alpha>']) (simp add: a_post_def)
    qed
  qed
qed

lemma post_concrete:
  assumes rel: "rels (P \<union> C) s \<alpha>" and net: "net_ok P C \<alpha> (\<lambda>_. {})" and set: "\<forall>q\<in>P. settled (\<alpha> q)" and p: "p \<in> P"
    and rel': "rels (P \<union> C) s' \<alpha>'" and net': "net_ok P C \<alpha>' (\<lambda>_. {})" and post: "a_post P C p n \<alpha> \<alpha>' pend out"
  shows "producer_post P C p n s s' pend out"
proof -
  note M = abs_measures [OF rel] and M' = abs_measures [OF rel']
  have oth: "\<forall>q\<in>P. q \<noteq> p \<longrightarrow> \<alpha>' q = \<alpha> q" and pp: "settled (\<alpha>' p)" "a_pending \<alpha>' p = pend"
    "a_maxlen (\<alpha>' p) = a_maxlen (\<alpha> p)" "a_consumers (\<alpha>' p) = a_consumers (\<alpha> p)"
    "length (a_items (\<alpha>' p)) = length (a_items (\<alpha> p))"
    "length (a_queue (\<alpha>' p)) \<le> length (a_queue (\<alpha> p)) + n"
    using post by (auto simp: a_post_def)
  have ok: "fifos_ok P C s'" using rel' net' set oth pp(1) unfolding fifos_ok_def by (metis)
  have pen: "pending s' q = (if q = p then pend else pending s q)" if "q \<in> P" for q
    using pending_abs [OF rel net that] pending_abs [OF rel' net' that] pp(2) oth that
      a_pending_other [OF net that, of \<alpha>'] by auto
  have same: "consumers (s' q) = consumers (s q) \<and> data_maxlen (s' q) = data_maxlen (s q) \<and> capacity s' q = capacity s q"
    if "q \<in> P" for q
    using M(2-4) M'(2-4) that oth pp(3-5) by (cases "q = p") auto
  have con: "frames s' c = frames s c @ broadcast (links s p c) out \<and>
      in_use s' c = in_use s c + links s p c * length out \<and> capacity s' c = capacity s c" if c: "c \<in> C" for c
    using post c p M M' frames_abs [OF rel net c] frames_abs [OF rel' net' c]
    by (simp add: a_post_def links_def)
  have use: "in_use s' p \<le> in_use s p + n" using M(1) M'(1) p pp(6) by simp
  have use': "in_use s' q = in_use s q" if "q \<in> P" "q \<noteq> p" for q using M(1) M'(1) that oth by simp
  show ?thesis
    unfolding producer_post_def using ok pen same con p use use' by auto
qed

text \<open>The refinement.\<close>

lemma data_add_framer:
  assumes ok: "fifos_ok P C s" and p: "p \<in> P"
    and len: "unat len = length data" and wrap: "unat (data_maxlen (s p)) + length data < 2 ^ 32"
    and pre: "flags AND FRAME_FLAG_NEWFRAME \<noteq> 0 \<or> pending s p \<noteq> None"
    and free: "flags AND FRAME_FLAG_NEWFRAME \<noteq> 0 \<Longrightarrow> in_use s p < capacity s p"
    and fra: "framer (unat (data_maxlen (s p))) (pending s p) (data, flags, ts) = (ret, pend, out)"
    and room: "\<forall>c\<in>C. in_use s c + links s p c * length out \<le> capacity s c"
  shows "\<exists>s'. datafifo_producer_data_add p data len flags ts s = Inr (ret, s') \<and>
    producer_post P C p (if flags AND FRAME_FLAG_NEWFRAME \<noteq> 0 then 1 else 0) s s' pend out"
proof -
  obtain \<alpha> where rel: "rels (P \<union> C) s \<alpha>" and net: "net_ok P C \<alpha> (\<lambda>_. {})" and set: "\<forall>q\<in>P. settled (\<alpha> q)"
    using ok by (auto simp: fifos_ok_def)
  note M = abs_measures [OF rel]
  have pe: "pending s p = a_pending \<alpha> p" by (rule pending_abs [OF rel net p])
  have mx: "data_maxlen (s p) = a_maxlen (\<alpha> p)" using M(4) p by simp
  have sp: "settled (\<alpha> p)" using set p by simp
  have room': "\<forall>c\<in>C. length (a_queue (\<alpha> c)) + count_list (a_consumers (\<alpha> p)) c * length out \<le> length (a_items (\<alpha> c))"
    using room M p by (simp add: links_def)
  obtain fr o1 where op: "open_frame flags ts (a_pending \<alpha> p) = (Some fr, o1)"
    using pre pe by (cases "flags AND FRAME_FLAG_NEWFRAME \<noteq> 0") (auto simp: open_frame_def)
  obtain o2 where ad: "add_data (unat (a_maxlen (\<alpha> p))) data flags fr = (ret, pend, o2)" and out: "out = o1 @ o2"
    using fra framer_add_data [OF op, of "unat (a_maxlen (\<alpha> p))" data] pe mx
    by (cases "add_data (unat (a_maxlen (\<alpha> p))) data flags fr") auto
  show ?thesis
  proof (cases "flags AND FRAME_FLAG_NEWFRAME \<noteq> 0")
    case True
    have fr: "length (a_queue (\<alpha> p)) < length (a_items (\<alpha> p))" using free [OF True] M(1,2) p by simp
    have room1: "\<forall>c\<in>C. length (a_queue (\<alpha> c)) + count_list (a_consumers (\<alpha> p)) c * length o1 \<le> length (a_items (\<alpha> c))"
      using room' out by (auto simp: add_mult_distrib2)
    obtain s1 \<beta> where O: "new_frame p flags ts s = Inr s1" "rels (P \<union> C) s1 \<beta>" "net_ok P C \<beta> (\<lambda>_. {})"
      "a_post P C p 1 \<alpha> \<beta> (Some fr) o1"
      using open_post [OF rel net p sp True op fr room1] by blast
    have b: "settled (\<beta> p)" "a_pending \<beta> p = Some fr" "a_maxlen (\<beta> p) = a_maxlen (\<alpha> p)"
      "a_consumers (\<beta> p) = a_consumers (\<alpha> p)"
      using O(4) by (auto simp: a_post_def)
    have room2: "\<forall>c\<in>C. length (a_queue (\<beta> c)) + count_list (a_consumers (\<beta> p)) c * length o2 \<le> length (a_items (\<beta> c))"
      using room' O(4) out by (auto simp: a_post_def add_mult_distrib2)
    obtain s2 \<gamma> where A: "append_data p data len flags s1 = Inr (ret, s2)" "rels (P \<union> C) s2 \<gamma>"
      "net_ok P C \<gamma> (\<lambda>_. {})" "a_post P C p 0 \<beta> \<gamma> pend o2"
      using append_post [OF O(2,3) p b(1,2) len, of flags ret pend o2] wrap mx b(3) ad room2 by auto
    have "a_post P C p (1 + 0) \<alpha> \<gamma> pend out" unfolding out by (rule a_post_trans [OF O(4) A(4)])
    then have "producer_post P C p (1 + 0) s s2 pend out" by (rule post_concrete [OF rel net set p A(2,3)])
    then show ?thesis using True O(1) A(1) by (auto simp: datafifo_producer_data_add_def)
  next
    case False
    then have o1: "a_pending \<alpha> p = Some fr" "o1 = []" using op by (auto simp: open_frame_def)
    obtain s2 \<gamma> where A: "append_data p data len flags s = Inr (ret, s2)" "rels (P \<union> C) s2 \<gamma>"
      "net_ok P C \<gamma> (\<lambda>_. {})" "a_post P C p 0 \<alpha> \<gamma> pend o2"
      using append_post [OF rel net p sp o1(1) len, of flags ret pend o2] wrap mx ad room' o1(2) out by auto
    then have "producer_post P C p 0 s s2 pend out" using post_concrete [OF rel net set p A(2,3)] o1(2) out by simp
    moreover obtain t where "listtail (s p) = Some t" "it_status (itm s p t) = DATAFIFO_ITEM_STATUS_FILLING"
      using o1(1) pe by (auto simp: pending_def split: option.splits if_splits)
    ultimately show ?thesis using False A(1) by (auto simp: datafifo_producer_data_add_def)
  qed
qed

end
