(* ===== verification/Datafifo_Channel.thy ===== *)
theory Datafifo_Channel
  imports Datafifo_Framing
begin

text \<open>
  The consumer side of the fifos (\<^verbatim>\<open>recbcsrv/datafifo.c\<close>), their construction, and the contracts
  the threads use: a producer and a consumer interface as locales, interpreted on the code's
  operations, and the properties of the component.
\<close>

section \<open>Consuming\<close>

definition consumer_post ::
    "fifo_id set \<Rightarrow> fifo_id set \<Rightarrow> fifo_id \<Rightarrow> fifos \<Rightarrow> fifos \<Rightarrow> bool" where
  "consumer_post P C c s s' \<longleftrightarrow>
     fifos_ok P C s' \<and>
     (\<forall>q\<in>P. pending s' q = pending s q \<and> consumers (s' q) = consumers (s q) \<and>
        data_maxlen (s' q) = data_maxlen (s q) \<and> in_use s' q \<le> in_use s q) \<and>
     (\<forall>f\<in>P \<union> C. capacity s' f = capacity s f) \<and>
     frames s' c = tl (frames s c) \<and> in_use s' c = in_use s c - 1 \<and>
     (\<forall>d\<in>C. d \<noteq> c \<longrightarrow> frames s' d = frames s d \<and> in_use s' d = in_use s d)"

text \<open>Releasing and reference counting do not touch the frame that is being filled.\<close>

lemma release_pending:
  assumes net: "net_ok P C \<alpha> A" and p: "p \<in> P" and set: "settled (\<alpha> p)"
    and i: "i < length (a_items (\<alpha> p))" and \<beta>: "\<beta> p = a_release (a_upd i (add_cnt d) (\<alpha> p))"
  shows "a_pending \<beta> p = a_pending \<alpha> p" and "settled (\<beta> p)"
    and "length (a_queue (\<beta> p)) \<le> length (a_queue (\<alpha> p))"
proof -
  let ?b = "a_upd i (add_cnt d) (\<alpha> p)"
  note D = producer_okD [OF net_okD(3) [OF net p]]
  have dist: "distinct (a_queue ?b)" using pool_okD(1) [OF D(1)] by simp
  obtain k where k: "a_queue (\<beta> p) = drop k (a_queue (\<alpha> p))"
    "\<forall>j. j \<notin> set (take k (a_queue (\<alpha> p))) \<longrightarrow> a_items (\<beta> p) ! j = a_items ?b ! j"
    "\<forall>j\<in>set (take k (a_queue (\<alpha> p))). it_status (a_items ?b ! j) = DATAFIFO_ITEM_STATUS_DOING"
    using a_release_drops [OF dist] \<beta> by auto
  have lt: "j < length (a_items (\<alpha> p))" if "j \<in> set (a_queue (\<alpha> p))" for j
    using pool_okD(2) [OF D(1) that] .
  have b: "it_status (a_items ?b ! j) = it_status (a_itm \<alpha> p j)" "same_args (a_items ?b ! j) (a_itm \<alpha> p j)"
    if "j < length (a_items (\<alpha> p))" for j
    using that by (simp_all add: a_items_upd same_args_def add_cnt_def)
  have keep: "j \<in> set (a_queue (\<alpha> p)) \<and> a_items (\<beta> p) ! j = a_items ?b ! j" if "j \<in> set (a_queue (\<beta> p))" for j
  proof -
    have "j \<notin> set (take k (a_queue (\<alpha> p)))"
      using that k(1) set_take_disj_set_drop_if_distinct [of "a_queue (\<alpha> p)" k k] dist by auto
    then show ?thesis using k(1,2) that in_set_dropD [of j k "a_queue (\<alpha> p)"] by simp
  qed
  show "length (a_queue (\<beta> p)) \<le> length (a_queue (\<alpha> p))" using k(1) by simp
  show "settled (\<beta> p)"
    using set keep b lt head_busy_release [of ?b] \<beta> unfolding settled_def by metis
  have fr: "a_frame \<beta> it = a_frame \<alpha> it" if "arg_data it = Some (p, t)" for it t
    using that \<beta> by (simp add: a_frame_def a_release_simps)
  show "a_pending \<beta> p = a_pending \<alpha> p"
  proof (cases "a_queue (\<beta> p) = []")
    case True
    have "it_status (a_itm \<alpha> p j) = DATAFIFO_ITEM_STATUS_DOING" if "j \<in> set (a_queue (\<alpha> p))" for j
      using k(1,3) True that b(1) [OF lt [OF that]] by auto
    then show ?thesis using True by (auto simp: a_pending_def Let_def)
  next
    case False
    let ?t = "last (a_queue (\<beta> p))"
    have k_less: "k < length (a_queue (\<alpha> p))" using False k(1) by simp
    then have ne: "a_queue (\<alpha> p) \<noteq> []" by auto
    have t: "?t = last (a_queue (\<alpha> p))" "?t \<in> set (a_queue (\<alpha> p))" "a_queue (\<alpha> p) \<noteq> []"
      using k(1) k_less last_in_set [OF ne] ne by simp_all
    have "a_items (\<beta> p) ! ?t = a_items ?b ! ?t" using keep False by simp
    moreover have "arg_data (a_items ?b ! ?t) = Some (p, ?t)"
      using b(2) [OF lt [OF t(2)]] D(3) [OF lt [OF t(2)]] by (simp add: same_args_def)
    ultimately show ?thesis
      using False t b [OF lt [OF t(2)]] fr a_frame_same_args [OF b(2) [OF lt [OF t(2)]], of \<alpha>]
      by (simp add: a_pending_def Let_def)
  qed
qed

lemma add_cnt_minus: "(\<lambda>it. it\<lparr>refcnt := refcnt it - 1\<rparr>) = add_cnt (-1)"
  by (simp add: add_cnt_def fun_eq_iff)

lemma frames_Nil_iff:
  "rels S s \<alpha> \<Longrightarrow> c \<in> S \<Longrightarrow> frames s c = [] \<longleftrightarrow> a_queue (\<alpha> c) = []"
  using fifo_rel_queue [OF relsD] by (force simp: frames_def)

lemma consumer_remove_empty:
  assumes "fifos_ok P C s" and "c \<in> C" and "frames s c = []"
  shows "datafifo_consumer_remove_head c s = Inr (-1, s)"
proof -
  obtain \<alpha> where rel: "rels (P \<union> C) s \<alpha>" using assms(1) by (auto simp: fifos_ok_def)
  have "a_queue (\<alpha> c) = []" using frames_Nil_iff [OF rel, of c] assms(2,3) by simp
  then have "listhead (s c) = None" using fifo_relD(10) [OF relsD [OF rel]] assms(2) by simp
  then show ?thesis by (simp add: datafifo_consumer_remove_head_def)
qed

lemma consumer_remove_step:
  assumes ok: "fifos_ok P C s" and c: "c \<in> C" and ne: "frames s c \<noteq> []"
  shows "\<exists>s'. datafifo_consumer_remove_head c s = Inr (0, s') \<and> consumer_post P C c s s'"
proof -
  obtain \<alpha> where rel: "rels (P \<union> C) s \<alpha>" and net: "net_ok P C \<alpha> (\<lambda>_. {})" and set: "\<forall>q\<in>P. settled (\<alpha> q)"
    using ok by (auto simp: fifos_ok_def)
  have rc: "fifo_rel (s c) (\<alpha> c)" using relsD [OF rel] c by simp
  obtain j js where q: "a_queue (\<alpha> c) = j # js"
    using frames_Nil_iff [OF rel, of c] c ne by (cases "a_queue (\<alpha> c)") auto
  have jq: "j \<in> set (a_queue (\<alpha> c))" "j \<notin> set js" using q fifo_relD(1) [OF rc] by auto
  have ro: "ref_ok P \<alpha> (a_itm \<alpha> c j)" by (rule net_okD(5) [OF net c jq(1)])
  then obtain p i where r: "it_ref (a_itm \<alpha> c j) = Some (p, i)" "p \<in> P" "i \<in> set (a_queue (\<alpha> p))"
    by (auto simp: ref_ok_def)
  have pc: "p \<noteq> c" "\<And>d. d \<in> C \<Longrightarrow> d \<noteq> p" using net_okD(2) [OF net r(2)] c by auto
  have rp: "fifo_rel (s p) (\<alpha> p)" using relsD [OF rel] r(2) by simp
  have il: "i < length (a_items (\<alpha> p))" using pool_okD(2) [OF producer_okD(1) [OF net_okD(3) [OF net r(2)]] r(3)] .
  let ?b = "a_upd i (add_cnt (-1)) (\<alpha> p)"
  have rb: "fifo_rel (upd_item i (add_cnt (-1)) (s p)) ?b" by (rule fifo_rel_upd [OF rp]) simp_all
  obtain F where F: "remove_check (upd_item i (add_cnt (-1)) (s p)) = Inr F" "fifo_rel F (a_release ?b)"
    using remove_check_rel [OF rb] by blast
  obtain G where G: "datafifo_remove_head_internal_reqlock (s c) = Inr G"
    "fifo_rel G (a_upd j free_item ((\<alpha> c)\<lparr>a_queue := js\<rparr>))"
    using remove_head_rel [OF rc q] by blast
  have hd: "listhead (s c) = Some j" "it_ref (itm s c j) = Some (p, i)"
    using fifo_relD(10) [OF rc] q r(1) fifo_relD(9) [OF rc fifo_relD(8) [OF rc jq(1)]] by auto
  define s' where "s' = s(c := G, p := F)"
  have "\<not> locked (s p)" "\<not> locked (s c)" "\<not> locked (upd_item i (add_cnt (-1)) (s p))"
    using fifo_relD(6) [OF rp] fifo_relD(6) [OF rc] fifo_relD(6) [OF rb] by auto
  then have run: "datafifo_consumer_remove_head c s = Inr (0, s')"
    using hd F(1) G(1) pc(1)
    by (simp add: datafifo_consumer_remove_head_def datafifo_producer_remove_check_def on_fifo_def
        add_cnt_minus s'_def fun_upd_twist [of p c])
  define \<beta> where "\<beta> = a_consume p i c j js \<alpha>"
  define \<gamma> where "\<gamma> = \<beta>(p := a_release ?b)"
  have \<beta>p: "\<beta> p = ?b" by (simp add: \<beta>_def a_consume_def)
  have net\<beta>: "net_ok P C \<beta> (\<lambda>_. {})" unfolding \<beta>_def by (rule net_ok_consume [OF net c q r(1)])
  have net\<gamma>: "net_ok P C \<gamma> (\<lambda>_. {})" unfolding \<gamma>_def by (rule net_ok_release [OF net\<beta> r(2) \<beta>p])
  have \<gamma>c: "\<gamma> c = a_upd j free_item ((\<alpha> c)\<lparr>a_queue := js\<rparr>)" using pc(1) by (simp add: \<gamma>_def \<beta>_def a_consume_def)
  have \<gamma>o: "\<gamma> f = \<alpha> f" if "f \<noteq> c" "f \<noteq> p" for f using that by (simp add: \<gamma>_def \<beta>_def a_consume_def)
  have \<gamma>p: "\<gamma> p = a_release ?b" by (simp add: \<gamma>_def)
  have rel': "rels (P \<union> C) s' \<gamma>"
    unfolding rels_def
  proof
    fix f assume "f \<in> P \<union> C"
    then show "fifo_rel (s' f) (\<gamma> f)"
      using relsD [OF rel] F(2) G(2) pc(1) \<gamma>c \<gamma>o [of f] \<gamma>p by (cases "f = c"; cases "f = p") (auto simp: s'_def)
  qed
  note R = release_pending [of P C \<alpha> "\<lambda>_. {}" p i \<gamma> "-1", OF net r(2) bspec [OF set r(2)] il \<gamma>p]
  have pd: "a_pending \<gamma> f = a_pending \<alpha> f \<and> settled (\<gamma> f) \<and> length (a_queue (\<gamma> f)) \<le> length (a_queue (\<alpha> f)) \<and>
      a_consumers (\<gamma> f) = a_consumers (\<alpha> f) \<and> a_maxlen (\<gamma> f) = a_maxlen (\<alpha> f) \<and>
      length (a_items (\<gamma> f)) = length (a_items (\<alpha> f))" if "f \<in> P" for f
  proof (cases "f = p")
    case True
    then show ?thesis using R \<gamma>p by (simp add: a_release_simps)
  next
    case False
    have "f \<noteq> c" using net_okD(2) [OF net that] c by auto
    then have "\<gamma> f = \<alpha> f" using \<gamma>o False by simp
    moreover have "a_pending \<gamma> f = a_pending \<alpha> f" by (rule a_pending_other [where \<alpha>' = \<gamma> and q = f, OF net that \<open>\<gamma> f = \<alpha> f\<close>])
    ultimately show ?thesis using set that by simp
  qed
  have fr: "a_frames \<gamma> d = (if d = c then tl (a_frames \<alpha> c) else a_frames \<alpha> d)" if "d \<in> C" for d
  proof -
    have "a_frames \<gamma> d = a_frames \<beta> d"
      unfolding \<gamma>_def by (rule a_frames_producer [OF pc(2) [OF that]]) (simp add: a_release_simps \<beta>p)
    then show ?thesis
      unfolding \<beta>_def using a_frames_consume [of p c d \<alpha> j js i, OF pc(1) pc(2) [OF that] q jq(2)] by simp
  qed
  note M = abs_measures [OF rel] and M' = abs_measures [OF rel']
  have ok': "fifos_ok P C s'" using rel' net\<gamma> pd unfolding fifos_ok_def by blast
  have pq: "pending s' f = pending s f \<and> consumers (s' f) = consumers (s f) \<and>
      data_maxlen (s' f) = data_maxlen (s f) \<and> in_use s' f \<le> in_use s f \<and> capacity s' f = capacity s f"
    if f: "f \<in> P" for f
  proof -
    have S: "f \<in> P \<union> C" using f by simp
    show ?thesis
      unfolding pending_abs [OF rel net f] pending_abs [OF rel' net\<gamma> f] M [OF S] M' [OF S] using pd [OF f] by simp
  qed
  have cq: "frames s' d = (if d = c then tl (frames s c) else frames s d) \<and>
      in_use s' d = (if d = c then in_use s c - 1 else in_use s d) \<and> capacity s' d = capacity s d" if d: "d \<in> C" for d
  proof -
    have S: "d \<in> P \<union> C" "c \<in> P \<union> C" using d c by simp_all
    have "frames s' d = a_frames \<gamma> d" "frames s d = a_frames \<alpha> d" "frames s c = a_frames \<alpha> c"
      using frames_abs [OF rel net d] frames_abs [OF rel' net\<gamma> d] frames_abs [OF rel net c] by simp_all
    moreover have "length (a_queue (\<gamma> d)) = (if d = c then length (a_queue (\<alpha> c)) - 1 else length (a_queue (\<alpha> d)))"
      "length (a_items (\<gamma> d)) = length (a_items (\<alpha> d))"
      using \<gamma>c \<gamma>o [of d] pc(2) [OF d] q by (cases "d = c"; simp)+
    ultimately show ?thesis
      unfolding M(1,2) [OF S(1)] M(1) [OF S(2)] M'(1,2) [OF S(1)] using fr [OF d] by simp
  qed
  have "consumer_post P C c s s'" using c ok' pq cq unfolding consumer_post_def by (simp add: Ball_def)
  then show ?thesis using run by blast
qed

section \<open>Interfaces\<close>

text \<open>
  The consumer's side as an interface: \<open>content\<close> is what is queued, \<open>remove\<close> takes the first frame
  off and returns -1 when there is none.
\<close>

locale frame_consumer =
  fixes inv :: "'s \<Rightarrow> bool" and content :: "'s \<Rightarrow> 'f list" and remove :: "'s \<Rightarrow> (int \<times> 's) res"
  assumes remove_nil: "inv s \<Longrightarrow> content s = [] \<Longrightarrow> remove s = Inr (-1, s)"
    and remove_cons: "inv s \<Longrightarrow> content s = fr # frs \<Longrightarrow>
      \<exists>s'. remove s = Inr (0, s') \<and> inv s' \<and> content s' = frs"
begin

text \<open>Any loop that removes until -1 is returned empties the queue.\<close>

lemma drains:
  fixes loop :: "nat \<Rightarrow> 's \<Rightarrow> 's res"
  assumes step: "\<And>n s. loop (Suc n) s = bind_res (remove s) (\<lambda>(ret, s'). if ret = 0 then loop n s' else Inr s')"
    and "inv s" and "length (content s) < n"
  shows "\<exists>s'. loop n s = Inr s' \<and> inv s' \<and> content s' = []"
  using assms(2,3)
proof (induction n arbitrary: s)
  case (Suc n)
  show ?case
  proof (cases "content s")
    case Nil
    then show ?thesis using remove_nil Suc.prems(1) step by auto
  next
    case (Cons fr frs)
    obtain s' where s': "remove s = Inr (0, s')" "inv s'" "content s' = frs"
      using remove_cons [OF Suc.prems(1) Cons] by blast
    then show ?thesis using Suc.IH [of s'] Suc.prems(2) Cons step by auto
  qed
qed simp

end

text \<open>The pieces of a frame, and the frames a sequence of pieces makes.\<close>

abbreviation opens :: "fifo_add \<Rightarrow> bool" where
  "opens x \<equiv> fa_flags x AND FRAME_FLAG_NEWFRAME \<noteq> 0"

definition frame_piece :: "fifo_add \<Rightarrow> byte list \<times> u32 \<times> u32" where
  "frame_piece x = (fa_data x, fa_flags x, fa_timestamp x)"

fun framer_run :: "nat \<Rightarrow> frame option \<Rightarrow> fifo_add list \<Rightarrow> frame option \<times> frame list" where
  "framer_run maxlen pend [] = (pend, [])"
| "framer_run maxlen pend (x # xs) =
     (case framer maxlen pend (frame_piece x) of (_, pend', out) \<Rightarrow>
        (case framer_run maxlen pend' xs of (pend'', out') \<Rightarrow> (pend'', out @ out')))"

text \<open>Every piece opens a frame or continues one that is open.\<close>

fun well_framed :: "nat \<Rightarrow> frame option \<Rightarrow> fifo_add list \<Rightarrow> bool" where
  "well_framed maxlen pend [] \<longleftrightarrow> True"
| "well_framed maxlen pend (x # xs) \<longleftrightarrow> (opens x \<or> pend \<noteq> None) \<and>
     well_framed maxlen (fst (snd (framer maxlen pend (frame_piece x)))) xs"

text \<open>
  The producer's side: \<open>add\<close> puts pieces in, \<open>pend\<close> is the frame being filled, \<open>slots\<close> the number of
  frames that can still be opened, \<open>room c\<close> the number of frames consumer \<open>c\<close> can still take, and
  every completed frame is announced \<open>fan c\<close> times to \<open>c\<close>.
\<close>

locale frame_producer =
  fixes inv :: "'s \<Rightarrow> bool" and pend :: "'s \<Rightarrow> frame option" and slots :: "'s \<Rightarrow> nat"
    and maxlen :: nat and cons :: "'c set" and fan :: "'c \<Rightarrow> nat"
    and content :: "'c \<Rightarrow> 's \<Rightarrow> frame list" and room :: "'c \<Rightarrow> 's \<Rightarrow> nat"
    and add :: "fifo_add \<Rightarrow> 's \<Rightarrow> (int \<times> 's) res"
  assumes add_frame: "inv s \<Longrightarrow> opens x \<or> pend s \<noteq> None \<Longrightarrow> (opens x \<Longrightarrow> 0 < slots s) \<Longrightarrow>
      maxlen + length (fa_data x) < 2 ^ 32 \<Longrightarrow>
      framer maxlen (pend s) (frame_piece x) = (ret, pe, out) \<Longrightarrow>
      (\<And>c. c \<in> cons \<Longrightarrow> fan c * length out \<le> room c s) \<Longrightarrow>
      \<exists>s'. add x s = Inr (ret, s') \<and> inv s' \<and> pend s' = pe \<and>
        slots s \<le> slots s' + (if opens x then 1 else 0) \<and>
        (\<forall>c\<in>cons. content c s' = content c s @ broadcast (fan c) out \<and>
           room c s = room c s' + fan c * length out)"
begin

text \<open>A whole sequence of pieces, the return values ignored.\<close>

lemma adds_frames:
  assumes "inv s" and "well_framed maxlen (pend s) xs"
    and "length (filter (\<lambda>x. opens x) xs) \<le> slots s"
    and "\<forall>x\<in>set xs. maxlen + length (fa_data x) < 2 ^ 32"
    and "framer_run maxlen (pend s) xs = (pe, out)"
    and "\<And>c. c \<in> cons \<Longrightarrow> fan c * length out \<le> room c s"
  shows "\<exists>s'. fold_res (\<lambda>s x. bind_res (add x s) (\<lambda>(ret, s'). Inr s')) s xs = Inr s' \<and> inv s' \<and> pend s' = pe \<and>
    (\<forall>c\<in>cons. content c s' = content c s @ broadcast (fan c) out \<and> room c s = room c s' + fan c * length out)"
  using assms
proof (induction xs arbitrary: s out)
  case (Cons x xs)
  obtain r p1 o1 where f: "framer maxlen (pend s) (frame_piece x) = (r, p1, o1)" by (metis prod_cases3)
  obtain o2 where o2: "framer_run maxlen p1 xs = (pe, o2)" "out = o1 @ o2"
    using Cons.prems(5) f by (auto split: prod.splits)
  have sl: "0 < slots s" if "opens x" using Cons.prems(3) that by auto
  have r1: "fan c * length o1 \<le> room c s" if "c \<in> cons" for c
    using Cons.prems(6) [OF that] o2(2) by (simp add: add_mult_distrib2)
  obtain s1 where s1: "add x s = Inr (r, s1)" "inv s1" "pend s1 = p1"
    "slots s \<le> slots s1 + (if opens x then 1 else 0)"
    "\<forall>c\<in>cons. content c s1 = content c s @ broadcast (fan c) o1 \<and> room c s = room c s1 + fan c * length o1"
    using add_frame [OF Cons.prems(1) _ sl _ f r1] Cons.prems(2,4) by auto
  have w: "well_framed maxlen (pend s1) xs" using Cons.prems(2) f s1(3) by simp
  have l: "length (filter (\<lambda>x. opens x) xs) \<le> slots s1" using Cons.prems(3) s1(4) by (auto split: if_splits)
  have r2: "fan c * length o2 \<le> room c s1" if "c \<in> cons" for c
    using Cons.prems(6) [OF that] o2(2) s1(5) that by (auto simp: add_mult_distrib2)
  obtain s2 where "fold_res (\<lambda>s x. bind_res (add x s) (\<lambda>(ret, s'). Inr s')) s1 xs = Inr s2" "inv s2" "pend s2 = pe"
    "\<forall>c\<in>cons. content c s2 = content c s1 @ broadcast (fan c) o2 \<and> room c s1 = room c s2 + fan c * length o2"
    using Cons.IH [OF s1(2) w l _ _ r2] Cons.prems(4) o2(1) s1(3) by auto
  then show ?case using s1(1,5) o2(2) by (intro exI [of _ s2]) (simp add: add_mult_distrib2)
qed simp

end

end
