(* ===== verification/Datafifo_Setup.thy ===== *)
theory Datafifo_Setup
  imports Datafifo_Channel
begin

text \<open>
  Building the network of fifos (\<^verbatim>\<open>datafifo_init\<close>, \<^verbatim>\<open>datafifo_connect\<close>,
  \<^verbatim>\<open>datafifo_disconnect\<close> of \<^verbatim>\<open>recbcsrv/datafifo.c\<close>) establishes and keeps the
  invariant of the store; the interfaces of \<open>Datafifo_Channel\<close> are interpreted on the code's
  operations, and the properties of the component are stated here.
\<close>

section \<open>What depends on what\<close>

lemma fifos_ok_empty: "fifos_ok {} {} s"
  by (simp add: fifos_ok_def rels_def net_ok_def)

lemma view_cong:
  assumes "\<And>f. items (s' f) = items (s f) \<and> bufs (s' f) = bufs (s f) \<and>
     listhead (s' f) = listhead (s f) \<and> listtail (s' f) = listtail (s f)"
  shows "frames s' = frames s" and "pending s' = pending s" and "in_use s' = in_use s"
    and "capacity s' = capacity s"
  using assms
  by (simp_all add: fun_eq_iff frames_def pending_def in_use_def capacity_def fifo_items_def frame_of_def
      split: option.split)

lemma a_frames_outside:
  assumes net: "net_ok P C \<alpha> A" and c: "c \<in> C" and same: "\<alpha>' c = \<alpha> c" "\<And>q. q \<in> P \<Longrightarrow> \<alpha>' q = \<alpha> q"
  shows "a_frames \<alpha>' c = a_frames \<alpha> c"
proof -
  have "a_frame \<alpha>' (a_itm \<alpha> c j) = a_frame \<alpha> (a_itm \<alpha> c j)" if j: "j \<in> set (a_queue (\<alpha> c))" for j
  proof -
    obtain p i where r: "p \<in> P" "i \<in> set (a_queue (\<alpha> p))" "same_args (a_itm \<alpha> c j) (a_itm \<alpha> p i)"
      using net_okD(5) [OF net c j] by (auto simp: ref_ok_def)
    note D = producer_okD [OF net_okD(3) [OF net r(1)]]
    have "arg_data (a_itm \<alpha> c j) = Some (p, i)"
      using r(3) D(3) [OF pool_okD(2) [OF D(1) r(2)]] by (simp add: same_args_def)
    then show ?thesis using same(2) [OF r(1)] by (simp add: a_frame_def)
  qed
  then show ?thesis using same(1) by (simp add: a_frames_def)
qed

section \<open>A new fifo\<close>

definition fresh :: "(nat \<Rightarrow> nat \<Rightarrow> byte) \<Rightarrow> fifo_id \<Rightarrow> u32 \<Rightarrow> nat \<Rightarrow> t_datafifo" where
  "fresh junk df sz cnt = \<lparr>data_maxlen = sz,
     items = map (\<lambda>i. if sz \<noteq> 0 then item_zero\<lparr>arg_data := Some (df, i)\<rparr> else item_zero) [0 ..< cnt],
     bufs = (if sz = 0 then [] else map (\<lambda>i. init_buf (junk i) (unat sz)) [0 ..< cnt]),
     listhead = None, listtail = None, consumers = [], locked = False\<rparr>"

definition a_fresh :: "t_datafifo \<Rightarrow> afifo" where
  "a_fresh F = \<lparr>a_queue = [], a_items = map core (items F), a_maxlen = data_maxlen F, a_bufs = bufs F,
     a_consumers = consumers F\<rparr>"

lemma init_fresh:
  assumes "\<forall>k. ok k"
  shows "datafifo_init ok junk df sz cnt s = (0, s(df := fresh junk df sz cnt))"
proof -
  have all: "takeWhile (\<lambda>i. ok (Suc i)) [0..<cnt] = [0..<cnt]" using assms by simp
  show ?thesis using assms
    unfolding datafifo_init_def all by (auto simp: fresh_def Let_def)
qed

lemma fresh_rel: "fifo_rel (fresh junk df sz cnt) (a_fresh (fresh junk df sz cnt))"
  by (simp add: fifo_rel_def a_fresh_def fresh_def)

lemma fresh_pool: "pool_ok (a_fresh (fresh junk df sz cnt)) {}"
  by (auto simp: pool_ok_def a_fresh_def fresh_def core_def)

lemma fresh_producer: "sz \<noteq> 0 \<Longrightarrow> producer_ok C p (a_fresh (fresh junk p sz cnt)) {}"
  using fresh_pool [of junk p sz cnt]
  by (auto simp: producer_ok_def a_fresh_def fresh_def core_def init_buf_def)

lemma fresh_measures:
  "fifo_items (fresh junk df sz cnt) = []" "length (items (fresh junk df sz cnt)) = cnt"
  "consumers (fresh junk df sz cnt) = []" "data_maxlen (fresh junk df sz cnt) = sz"
  "listtail (fresh junk df sz cnt) = None"
  by (cases cnt; simp add: fresh_def fifo_items_def)+

lemma init_producer:
  assumes ok: "fifos_ok P C s" and new: "p \<notin> P \<union> C" and sz: "sz \<noteq> 0"
  shows "fifos_ok (insert p P) C (s(p := fresh junk p sz cnt))"
    and "c \<in> C \<Longrightarrow> frames (s(p := fresh junk p sz cnt)) c = frames s c"
proof -
  obtain \<alpha> where rel: "rels (P \<union> C) s \<alpha>" and net: "net_ok P C \<alpha> (\<lambda>_. {})" and set: "\<forall>q\<in>P. settled (\<alpha> q)"
    using ok by (auto simp: fifos_ok_def)
  let ?F = "fresh junk p sz cnt"
  let ?\<alpha> = "\<alpha>(p := a_fresh ?F)"
  have rel': "rels (insert p P \<union> C) (s(p := ?F)) ?\<alpha>"
    using rel fresh_rel [of junk p sz cnt] by (auto simp: rels_def)
  have pc: "p \<notin> C" "p \<notin> P" using new by auto
  have refs: "refs C ?\<alpha> r = refs C \<alpha> r" for r by (rule refs_producer [OF pc(1)])
  have q0: "a_queue (a_fresh ?F) = []" by (simp add: a_fresh_def)
  have same: "?\<alpha> f = \<alpha> f" if "f \<in> P \<union> C" for f using that new by auto
  have net': "net_ok (insert p P) C ?\<alpha> (\<lambda>_. {})"
    unfolding net_ok_def
  proof (intro conjI ballI)
    show "finite C" "insert p P \<inter> C = {}" using net pc by (auto simp: net_ok_def)
    fix q assume "q \<in> insert p P"
    then consider "q = p" | "q \<in> P" "q \<noteq> p" by auto
    then show "producer_ok C q (?\<alpha> q) {}"
      using fresh_producer [OF sz] net_okD(3) [OF net] by cases simp_all
    fix i assume "i \<in> set (a_queue (?\<alpha> q))"
    then show "refcnt (a_itm ?\<alpha> q i) = int (card (refs C ?\<alpha> (q, i)))"
      using net_okD(6) [OF net, of q i] \<open>q \<in> insert p P\<close> q0 refs by (cases "q = p") auto
  next
    fix c assume c: "c \<in> C"
    show "pool_ok (?\<alpha> c) {}" using net_okD(4) [OF net c] same c by simp
    fix j assume j: "j \<in> set (a_queue (?\<alpha> c))"
    have "ref_ok P \<alpha> (a_itm \<alpha> c j)" using net_okD(5) [OF net c] j same c by simp
    then show "ref_ok (insert p P) ?\<alpha> (a_itm ?\<alpha> c j)"
      using same c unfolding ref_ok_def by (metis UnI1 UnI2 insertCI)
  qed
  have "settled (a_fresh ?F)" by (simp add: settled_def head_busy_def q0)
  then have set': "\<forall>q\<in>insert p P. settled (?\<alpha> q)" using set by auto
  show "fifos_ok (insert p P) C (s(p := ?F))" using rel' net' set' unfolding fifos_ok_def by blast
  show "frames (s(p := ?F)) c = frames s c" if c: "c \<in> C"
  proof -
    have "a_frames ?\<alpha> c = a_frames \<alpha> c" by (rule a_frames_outside [OF net c]) (use same c in blast)+
    then show ?thesis using frames_abs [OF rel' net' c] frames_abs [OF rel net c] by simp
  qed
qed

lemma init_consumer:
  assumes ok: "fifos_ok P C s" and new: "c \<notin> P \<union> C"
  shows "fifos_ok P (insert c C) (s(c := fresh junk c sz cnt))"
    and "d \<in> C \<Longrightarrow> frames (s(c := fresh junk c sz cnt)) d = frames s d"
    and "frames (s(c := fresh junk c sz cnt)) c = []"
    and "q \<in> P \<Longrightarrow> pending (s(c := fresh junk c sz cnt)) q = pending s q"
proof -
  obtain \<alpha> where rel: "rels (P \<union> C) s \<alpha>" and net: "net_ok P C \<alpha> (\<lambda>_. {})" and set: "\<forall>q\<in>P. settled (\<alpha> q)"
    using ok by (auto simp: fifos_ok_def)
  let ?F = "fresh junk c sz cnt"
  let ?\<alpha> = "\<alpha>(c := a_fresh ?F)"
  have rel': "rels (P \<union> insert c C) (s(c := ?F)) ?\<alpha>"
    using rel fresh_rel [of junk c sz cnt] by (auto simp: rels_def)
  have q0: "a_queue (a_fresh ?F) = []" by (simp add: a_fresh_def)
  have same: "?\<alpha> f = \<alpha> f" if "f \<in> P \<union> C" for f using that new by auto
  have refs: "refs (insert c C) ?\<alpha> r = refs C \<alpha> r" for r
  proof -
    have "((d, j) \<in> refs (insert c C) ?\<alpha> r) = ((d, j) \<in> refs C \<alpha> r)" for d j
      using new q0 by (cases "d = c") (auto simp: refs_def)
    then show ?thesis by auto
  qed
  have net': "net_ok P (insert c C) ?\<alpha> (\<lambda>_. {})"
    unfolding net_ok_def
  proof (intro conjI ballI)
    show "finite (insert c C)" "P \<inter> insert c C = {}" using net new by (auto simp: net_ok_def)
    fix q assume q: "q \<in> P"
    have qc: "?\<alpha> q = \<alpha> q" using same q by simp
    have "producer_ok C q (\<alpha> q) {}" by (rule net_okD(3) [OF net q])
    then show "producer_ok (insert c C) q (?\<alpha> q) {}" unfolding qc by (auto simp: producer_ok_def)
    fix i assume "i \<in> set (a_queue (?\<alpha> q))"
    then show "refcnt (a_itm ?\<alpha> q i) = int (card (refs (insert c C) ?\<alpha> (q, i)))"
      using net_okD(6) [OF net q, of i] qc refs by simp
  next
    fix d assume d: "d \<in> insert c C"
    show "pool_ok (?\<alpha> d) {}" using net_okD(4) [OF net] fresh_pool d by auto
    fix j assume j: "j \<in> set (a_queue (?\<alpha> d))"
    then have d': "d \<in> C" "?\<alpha> d = \<alpha> d" using d q0 same by (auto split: if_splits)
    have "ref_ok P \<alpha> (a_itm \<alpha> d j)" using net_okD(5) [OF net d'(1)] j d'(2) by simp
    then show "ref_ok P ?\<alpha> (a_itm ?\<alpha> d j)"
      using same d' unfolding ref_ok_def by (metis UnI1)
  qed
  have set': "\<forall>q\<in>P. settled (?\<alpha> q)" using set same by auto
  show "fifos_ok P (insert c C) (s(c := ?F))" using rel' net' set' unfolding fifos_ok_def by blast
  show "frames (s(c := ?F)) d = frames s d" if d: "d \<in> C"
  proof -
    have "a_frames ?\<alpha> d = a_frames \<alpha> d" by (rule a_frames_outside [OF net d]) (use same d in blast)+
    then show ?thesis using frames_abs [OF rel' net', of d] frames_abs [OF rel net d] d by simp
  qed
  show "frames (s(c := ?F)) c = []" by (simp add: frames_def fresh_measures)
  show "pending (s(c := ?F)) q = pending s q" if q: "q \<in> P"
    using pending_abs [OF rel' net' q] pending_abs [OF rel net q] a_pending_other [of P C \<alpha> _ q ?\<alpha>, OF net q same] q
    by simp
qed

section \<open>Connecting\<close>

lemma change_consumers:
  assumes ok: "fifos_ok P C s" and p: "p \<in> P" and sub: "set cs \<subseteq> C"
  shows "fifos_ok P C (s(p := (s p)\<lparr>consumers := cs\<rparr>))"
proof -
  obtain \<alpha> where rel: "rels (P \<union> C) s \<alpha>" and net: "net_ok P C \<alpha> (\<lambda>_. {})" and set: "\<forall>q\<in>P. settled (\<alpha> q)"
    using ok by (auto simp: fifos_ok_def)
  let ?a = "(\<alpha> p)\<lparr>a_consumers := cs\<rparr>"
  have rp: "fifo_rel ((s p)\<lparr>consumers := cs\<rparr>) ?a"
    using relsD [OF rel, of p] p by (simp add: fifo_rel_def)
  have pC: "p \<notin> C" by (rule net_okD(2) [OF net p])
  have refs: "refs C (\<alpha>(p := ?a)) r = refs C \<alpha> r" for r by (rule refs_producer [OF pC])
  have items: "a_items ((\<alpha>(p := ?a)) f) = a_items (\<alpha> f)" "a_queue ((\<alpha>(p := ?a)) f) = a_queue (\<alpha> f)" for f
    by simp_all
  have "producer_ok C p ?a {}"
    using net_okD(3) [OF net p] sub by (simp add: producer_ok_def pool_ok_def)
  then have "net_ok P C (\<alpha>(p := ?a)) (\<lambda>_. {})"
    using net pC unfolding net_ok_def ref_ok_def items refs by (auto split: if_splits)
  moreover have "settled ?a = settled (\<alpha> p)"
    by (cases "a_queue (\<alpha> p)") (simp_all add: settled_def head_busy_def)
  then have "\<forall>q\<in>P. settled ((\<alpha>(p := ?a)) q)" using set p by simp
  ultimately show ?thesis using rels_upd [OF rel rp] unfolding fifos_ok_def by blast
qed

lemma consumers_upd_views:
  "frames (s(p := (s p)\<lparr>consumers := cs\<rparr>)) = frames s" "pending (s(p := (s p)\<lparr>consumers := cs\<rparr>)) = pending s"
  "in_use (s(p := (s p)\<lparr>consumers := cs\<rparr>)) = in_use s" "capacity (s(p := (s p)\<lparr>consumers := cs\<rparr>)) = capacity s"
  by (rule view_cong; simp)+

lemma fifos_ok_basic:
  assumes "fifos_ok P C s" and "f \<in> P \<union> C"
  shows "\<not> locked (s f)" and "f \<in> P \<Longrightarrow> set (consumers (s f)) \<subseteq> C" and "in_use s f \<le> capacity s f"
proof -
  obtain \<alpha> where rel: "rels (P \<union> C) s \<alpha>" and net: "net_ok P C \<alpha> (\<lambda>_. {})"
    using assms(1) by (auto simp: fifos_ok_def)
  note R = relsD [OF rel assms(2)]
  show "\<not> locked (s f)" by (rule fifo_relD(6) [OF R])
  show "f \<in> P \<Longrightarrow> set (consumers (s f)) \<subseteq> C"
    using fifo_relD(5) [OF R] producer_okD(2) [OF net_okD(3) [OF net], of f] by simp
  have "set (a_queue (\<alpha> f)) \<subseteq> {..<length (a_items (\<alpha> f))}"
    using fifo_relD(7,8) [OF R] by auto
  then have "card (set (a_queue (\<alpha> f))) \<le> length (a_items (\<alpha> f))"
    by (metis card_lessThan card_mono finite_lessThan)
  then show "in_use s f \<le> capacity s f"
    using abs_measures(1,2) [OF rel assms(2)] fifo_relD(1) [OF R] by (simp add: distinct_card)
qed

lemma connect_ok:
  assumes "fifos_ok P C s" and "p \<in> P" and "c \<in> C"
  shows "datafifo_connect True p c s = Inr (0, s(p := (s p)\<lparr>consumers := c # consumers (s p)\<rparr>))"
    and "fifos_ok P C (s(p := (s p)\<lparr>consumers := c # consumers (s p)\<rparr>))"
  using fifos_ok_basic(1,2) [OF assms(1), of p] assms(2,3)
  by (auto simp: datafifo_connect_def on_fifo_def intro!: change_consumers [OF assms(1)])

section \<open>What a consumer reads\<close>

lemma head_frames:
  assumes "fifos_ok P C s" and "c \<in> C"
  shows "datafifo_head s c = (case frames s c of [] \<Rightarrow> None | fr # _ \<Rightarrow> Some fr)"
proof -
  obtain \<alpha> where rel: "rels (P \<union> C) s \<alpha>" and net: "net_ok P C \<alpha> (\<lambda>_. {})"
    using assms(1) by (auto simp: fifos_ok_def)
  have R: "fifo_rel (s c) (\<alpha> c)" using relsD [OF rel] assms(2) by simp
  show ?thesis
  proof (cases "a_queue (\<alpha> c)")
    case Nil
    then show ?thesis using fifo_rel_queue [OF R] fifo_relD(10) [OF R] by (simp add: datafifo_head_def frames_def)
  next
    case (Cons j js)
    then have j: "j \<in> set (a_queue (\<alpha> c))" by simp
    have "it_status (a_itm \<alpha> c j) = DATAFIFO_ITEM_STATUS_READY"
      using net_okD(5) [OF net assms(2) j] by (simp add: ref_ok_def)
    then have "it_status (itm s c j) = DATAFIFO_ITEM_STATUS_READY"
      using fifo_relD(9) [OF R fifo_relD(8) [OF R j]] by simp
    then show ?thesis using fifo_rel_queue [OF R] fifo_relD(10) [OF R] Cons by (simp add: datafifo_head_def frames_def)
  qed
qed

lemma in_use_frames: "in_use s c = length (frames s c)"
  by (simp add: in_use_def frames_def)

text \<open>Nothing stays in a producer's list once every consumer has taken everything.\<close>

lemma drained:
  assumes ok: "fifos_ok P C s" and p: "p \<in> P" and pend: "pending s p = None" and none: "\<forall>c\<in>C. frames s c = []"
  shows "in_use s p = 0"
proof -
  obtain \<alpha> where rel: "rels (P \<union> C) s \<alpha>" and net: "net_ok P C \<alpha> (\<lambda>_. {})" and set: "\<forall>q\<in>P. settled (\<alpha> q)"
    using ok by (auto simp: fifos_ok_def)
  have "a_pending \<alpha> p = None" using pend pending_abs [OF rel net p] by simp
  then have doing: "all_doing (\<alpha> p)" using settled_doing [of C p \<alpha> "{}"] net_okD(3) [OF net p] set p by simp
  have "a_queue (\<alpha> c) = []" if "c \<in> C" for c using frames_Nil_iff [OF rel, of c] none that by simp
  then have refs: "refs C \<alpha> r = {}" for r by (auto simp: refs_def)
  have "a_queue (\<alpha> p) = []"
  proof (cases "a_queue (\<alpha> p)")
    case (Cons i qs)
    then have "refcnt (a_itm \<alpha> p i) = 0" using net_okD(6) [OF net p, of i] refs by simp
    then show ?thesis using doing Cons by (auto simp: all_doing_def head_busy_def)
  qed
  then show ?thesis using abs_measures(1) [OF rel, of p] p by simp
qed

section \<open>The interfaces on the code's operations\<close>

interpretation con: frame_consumer "\<lambda>s. fifos_ok P C s \<and> c \<in> C" "\<lambda>s. frames s c" "datafifo_consumer_remove_head c"
  for P C c
proof unfold_locales
  fix s assume s: "fifos_ok P C s \<and> c \<in> C" and "frames s c = []"
  then show "datafifo_consumer_remove_head c s = Inr (-1, s)" using consumer_remove_empty by blast
next
  fix s fr frs assume s: "fifos_ok P C s \<and> c \<in> C" "frames s c = fr # frs"
  then obtain s' where "datafifo_consumer_remove_head c s = Inr (0, s')" "consumer_post P C c s s'"
    using consumer_remove_step [of P C s c] by auto
  then show "\<exists>s'. datafifo_consumer_remove_head c s = Inr (0, s') \<and> (fifos_ok P C s' \<and> c \<in> C) \<and> frames s' c = frs"
    using s by (auto simp: consumer_post_def)
qed

text \<open>A call of the producer with a piece, as the callers make it: the length is that of the data.\<close>

definition add_piece :: "fifo_id \<Rightarrow> fifo_add \<Rightarrow> fifos \<Rightarrow> (int \<times> fifos) res" where
  "add_piece p x = datafifo_producer_data_add p (fa_data x) (of_nat (length (fa_data x))) (fa_flags x) (fa_timestamp x)"

definition add_pieces :: "fifo_id \<Rightarrow> fifo_add list \<Rightarrow> fifos \<Rightarrow> fifos res" where
  "add_pieces p xs s = fold_res (\<lambda>s x. bind_res (add_piece p x s) (\<lambda>(ret, s'). Inr s')) s xs"

definition producer_inv ::
    "fifo_id set \<Rightarrow> fifo_id set \<Rightarrow> fifo_id \<Rightarrow> nat \<Rightarrow> (fifo_id \<Rightarrow> nat) \<Rightarrow> fifos \<Rightarrow> bool" where
  "producer_inv P C p m k s \<longleftrightarrow> fifos_ok P C s \<and> p \<in> P \<and> unat (data_maxlen (s p)) = m \<and> links s p = k"

interpretation pro: frame_producer "producer_inv P C p m k" "\<lambda>s. pending s p" "\<lambda>s. capacity s p - in_use s p" m C k
  "\<lambda>c s. frames s c" "\<lambda>c s. capacity s c - in_use s c" "add_piece p" for P C p m k
proof unfold_locales
  fix s x ret pe out
  assume inv: "producer_inv P C p m k s" and op: "opens x \<or> pending s p \<noteq> None"
    and sl: "opens x \<Longrightarrow> 0 < capacity s p - in_use s p" and len: "m + length (fa_data x) < 2 ^ 32"
    and fra: "framer m (pending s p) (frame_piece x) = (ret, pe, out)"
    and room: "\<And>c. c \<in> C \<Longrightarrow> k c * length out \<le> capacity s c - in_use s c"
  have I: "fifos_ok P C s" "p \<in> P" "unat (data_maxlen (s p)) = m" "links s p = k"
    using inv by (simp_all add: producer_inv_def)
  have l: "unat (of_nat (length (fa_data x)) :: u32) = length (fa_data x)"
    using len by (simp add: unat_of_nat take_bit_nat_eq_self)
  have bnd: "in_use s f \<le> capacity s f" if "f \<in> P \<union> C" for f by (rule fifos_ok_basic(3) [OF I(1) that])
  have room': "\<forall>c\<in>C. in_use s c + links s p c * length out \<le> capacity s c"
  proof
    fix c assume "c \<in> C"
    then show "in_use s c + links s p c * length out \<le> capacity s c" using room [of c] bnd [of c] I(4) by simp
  qed
  have fra': "framer (unat (data_maxlen (s p))) (pending s p) (fa_data x, fa_flags x, fa_timestamp x) = (ret, pe, out)"
    using fra I(3) by (simp add: frame_piece_def)
  have free: "in_use s p < capacity s p" if "opens x" using sl [OF that] by simp
  obtain s' where s': "add_piece p x s = Inr (ret, s')"
    "producer_post P C p (if opens x then 1 else 0) s s' pe out"
    using data_add_framer [OF I(1,2) l _ op free fra' room'] len I(3) unfolding add_piece_def by auto
  have post: "fifos_ok P C s'" "pending s' p = pe" "in_use s' p \<le> in_use s p + (if opens x then 1 else 0)"
    "capacity s' p = capacity s p" "consumers (s' p) = consumers (s p)" "data_maxlen (s' p) = data_maxlen (s p)"
    using s'(2) I(2) by (simp_all add: producer_post_def)
  have con: "frames s' c = frames s c @ broadcast (k c) out \<and>
      capacity s c - in_use s c = capacity s' c - in_use s' c + k c * length out" if "c \<in> C" for c
    using s'(2) that I(4) room' bnd [of c] by (auto simp: producer_post_def)
  have "links s' p = k" using post(5) I(4) by (simp add: links_def fun_eq_iff)
  then have "producer_inv P C p m k s'" using post I by (simp add: producer_inv_def)
  moreover have "capacity s p - in_use s p \<le> capacity s' p - in_use s' p + (if opens x then 1 else 0)"
    using post(3,4) by auto
  ultimately show "\<exists>s'. add_piece p x s = Inr (ret, s') \<and> producer_inv P C p m k s' \<and> pending s' p = pe \<and>
      capacity s p - in_use s p \<le> capacity s' p - in_use s' p + (if opens x then 1 else 0) \<and>
      (\<forall>c\<in>C. frames s' c = frames s c @ broadcast (k c) out \<and>
         capacity s c - in_use s c = capacity s' c - in_use s' c + k c * length out)"
    using s'(1) post(2) con by blast
qed

section \<open>Runs of the network\<close>

text \<open>
  What has been announced to each consumer and what it has taken, beside the store. A step is a piece
  added by a producer that need not wait, or a frame taken by a consumer: it reads the head and
  removes it.
\<close>

record net_run =
  run_fifos :: fifos
  run_sent :: "fifo_id \<Rightarrow> frame list"
  run_got :: "fifo_id \<Rightarrow> frame list"

inductive net_step :: "fifo_id set \<Rightarrow> fifo_id set \<Rightarrow> net_run \<Rightarrow> net_run \<Rightarrow> bool" for P C where
  step_add: "p \<in> P \<Longrightarrow> opens x \<or> pending (run_fifos t) p \<noteq> None \<Longrightarrow>
    (opens x \<Longrightarrow> in_use (run_fifos t) p < capacity (run_fifos t) p) \<Longrightarrow>
    unat (data_maxlen (run_fifos t p)) + length (fa_data x) < 2 ^ 32 \<Longrightarrow>
    framer (unat (data_maxlen (run_fifos t p))) (pending (run_fifos t) p) (frame_piece x) = (ret, pe, out) \<Longrightarrow>
    \<forall>c\<in>C. in_use (run_fifos t) c + links (run_fifos t) p c * length out \<le> capacity (run_fifos t) c \<Longrightarrow>
    add_piece p x (run_fifos t) = Inr (ret', s') \<Longrightarrow>
    net_step P C t (t\<lparr>run_fifos := s',
      run_sent := (\<lambda>c. run_sent t c @ broadcast (links (run_fifos t) p c) out)\<rparr>)"
| step_take: "c \<in> C \<Longrightarrow> datafifo_head (run_fifos t) c = Some fr \<Longrightarrow>
    datafifo_consumer_remove_head c (run_fifos t) = Inr (ret, s') \<Longrightarrow>
    net_step P C t (t\<lparr>run_fifos := s', run_got := (run_got t)(c := run_got t c @ [fr])\<rparr>)"

inductive_cases net_step_elim: "net_step P C t t'"

definition in_order :: "fifo_id set \<Rightarrow> fifo_id set \<Rightarrow> net_run \<Rightarrow> bool" where
  "in_order P C t \<longleftrightarrow> fifos_ok P C (run_fifos t) \<and> (\<forall>c\<in>C. run_sent t c = run_got t c @ frames (run_fifos t) c)"

lemma net_step_in_order:
  assumes "net_step P C t t'" and "in_order P C t"
  shows "in_order P C t'"
  using assms(1)
proof (cases rule: net_step.cases)
  case (step_add p x ret pe out ret' s')
  let ?s = "run_fifos t"
  have ok: "fifos_ok P C ?s" using assms(2) by (simp add: in_order_def)
  have l: "unat (of_nat (length (fa_data x)) :: u32) = length (fa_data x)"
    using step_add(5) by (simp add: unat_of_nat take_bit_nat_eq_self)
  have pre: "fa_flags x AND FRAME_FLAG_NEWFRAME \<noteq> 0 \<or> pending ?s p \<noteq> None" using step_add(3) by simp
  have free: "in_use ?s p < capacity ?s p" if "opens x" using step_add(4) that by simp
  obtain s2 where "add_piece p x ?s = Inr (ret, s2)" "producer_post P C p (if opens x then 1 else 0) ?s s2 pe out"
    using data_add_framer [OF ok step_add(2) l step_add(5) pre free step_add(6) [unfolded frame_piece_def] step_add(7)]
    unfolding add_piece_def by blast
  then show ?thesis
    using step_add(1,8) assms(2) by (simp add: in_order_def producer_post_def)
next
  case (step_take c fr ret s')
  let ?s = "run_fifos t"
  have ok: "fifos_ok P C ?s" using assms(2) by (simp add: in_order_def)
  obtain frs where fr: "frames ?s c = fr # frs"
    using step_take(3) head_frames [OF ok step_take(2)] by (auto split: list.splits)
  obtain s2 where "datafifo_consumer_remove_head c ?s = Inr (0, s2)" "consumer_post P C c ?s s2"
    using consumer_remove_step [OF ok step_take(2)] fr by auto
  then show ?thesis
    using step_take(1,4) assms(2) fr by (auto simp: in_order_def consumer_post_def)
qed

lemma net_run_in_order:
  assumes "(net_step P C)\<^sup>*\<^sup>* t t'" and "in_order P C t"
  shows "in_order P C t'"
  using assms by (induction rule: rtranclp_induct) (auto intro: net_step_in_order)

end
