(* ===== verification/Topology.thy ===== *)
theory Topology
  imports Datafifo_Setup
begin

text \<open>
  The network of fifos that \<^verbatim>\<open>main\<close> of \<^verbatim>\<open>recbcsrv/recbc_srv.c\<close> builds before it
  starts the threads: the calls of \<^verbatim>\<open>datafifo_init\<close> and \<^verbatim>\<open>datafifo_connect\<close> as a
  list, what a list of such calls leaves behind, and which fifos the thread of each core board is
  given. A fifo is numbered by its place among the \<^verbatim>\<open>datafifo_init\<close> calls.
\<close>

section \<open>Set-up calls\<close>

datatype setup_call = Init fifo_id u32 nat | Connect fifo_id fifo_id

text \<open>The return values are ignored; the allocations succeed.\<close>

definition setup_step :: "(nat \<Rightarrow> nat \<Rightarrow> byte) \<Rightarrow> fifos \<Rightarrow> setup_call \<Rightarrow> fifos res" where
  "setup_step junk s call =
     (case call of
        Init f sz cnt \<Rightarrow> Inr (snd (datafifo_init (\<lambda>_. True) junk f sz cnt s))
      | Connect p c \<Rightarrow> bind_res (datafifo_connect True p c s) (\<lambda>(_, s'). Inr s'))"

definition run_setup :: "(nat \<Rightarrow> nat \<Rightarrow> byte) \<Rightarrow> setup_call list \<Rightarrow> fifos \<Rightarrow> fifos res" where
  "run_setup junk calls s = fold_res (setup_step junk) s calls"

text \<open>What the calls are meant to leave: size, number of items and consumers of each fifo.\<close>

type_synonym shape = "fifo_id \<Rightarrow> u32 \<times> nat \<times> fifo_id list"

fun shape_step :: "shape \<Rightarrow> setup_call \<Rightarrow> shape" where
  "shape_step \<sigma> (Init f sz cnt) = \<sigma>(f := (sz, cnt, []))"
| "shape_step \<sigma> (Connect p c) = \<sigma>(p := (case \<sigma> p of (sz, cnt, cs) \<Rightarrow> (sz, cnt, c # cs)))"

fun producers_of :: "setup_call list \<Rightarrow> fifo_id list" where
  "producers_of [] = []"
| "producers_of (Init f sz cnt # calls) = (if sz \<noteq> 0 then [f] else []) @ producers_of calls"
| "producers_of (Connect p c # calls) = producers_of calls"

fun consumers_of :: "setup_call list \<Rightarrow> fifo_id list" where
  "consumers_of [] = []"
| "consumers_of (Init f sz cnt # calls) = (if sz \<noteq> 0 then [] else [f]) @ consumers_of calls"
| "consumers_of (Connect p c # calls) = consumers_of calls"

text \<open>Every fifo is initialised once, before it is connected, and connections go from buffers to queues.\<close>

fun setup_ok :: "fifo_id list \<Rightarrow> fifo_id list \<Rightarrow> setup_call list \<Rightarrow> bool" where
  "setup_ok P C [] \<longleftrightarrow> True"
| "setup_ok P C (Init f sz cnt # calls) \<longleftrightarrow> f \<notin> set P \<and> f \<notin> set C \<and>
     (if sz \<noteq> 0 then setup_ok (f # P) C calls else setup_ok P (f # C) calls)"
| "setup_ok P C (Connect p c # calls) \<longleftrightarrow> p \<in> set P \<and> c \<in> set C \<and> setup_ok P C calls"

definition idle :: "fifo_id set \<Rightarrow> fifo_id set \<Rightarrow> shape \<Rightarrow> fifos \<Rightarrow> bool" where
  "idle P C \<sigma> s \<longleftrightarrow> fifos_ok P C s \<and> (\<forall>p\<in>P. pending s p = None) \<and>
     (\<forall>f\<in>P \<union> C. in_use s f = 0 \<and> (data_maxlen (s f), capacity s f, consumers (s f)) = \<sigma> f)"

lemma idle_init:
  assumes "idle P C \<sigma> s" and "f \<notin> P" and "f \<notin> C"
  shows "sz \<noteq> 0 \<Longrightarrow> idle (insert f P) C (shape_step \<sigma> (Init f sz cnt)) (s(f := fresh junk f sz cnt))"
    and "idle P (insert f C) (shape_step \<sigma> (Init f sz cnt)) (s(f := fresh junk f sz cnt))"
proof -
  let ?s = "s(f := fresh junk f sz cnt)"
  have ok: "fifos_ok P C s" and new: "f \<notin> P \<union> C" using assms by (simp_all add: idle_def)
  have pend: "pending ?s q = pending s q" if "q \<in> P" for q
    by (rule init_consumer(4) [OF ok new that])
  have f: "pending ?s f = None" "in_use ?s f = 0" "capacity ?s f = cnt" "consumers (?s f) = []" "data_maxlen (?s f) = sz"
    by (simp_all add: pending_def in_use_def capacity_def fresh_measures)
  have o: "in_use ?s g = in_use s g" "capacity ?s g = capacity s g" "?s g = s g" if "g \<noteq> f" for g
    using that by (simp_all add: in_use_def capacity_def)
  have all: "\<forall>g\<in>insert f (P \<union> C). in_use ?s g = 0 \<and>
      (data_maxlen (?s g), capacity ?s g, consumers (?s g)) = shape_step \<sigma> (Init f sz cnt) g"
  proof
    fix g assume "g \<in> insert f (P \<union> C)"
    then show "in_use ?s g = 0 \<and>
      (data_maxlen (?s g), capacity ?s g, consumers (?s g)) = shape_step \<sigma> (Init f sz cnt) g"
      using assms(1) f o [of g] by (cases "g = f") (auto simp: idle_def)
  qed
  have pf: "\<forall>p\<in>P. pending ?s p = None" using assms(1) pend by (simp add: idle_def)
  show "idle P (insert f C) (shape_step \<sigma> (Init f sz cnt)) ?s"
    unfolding idle_def using init_consumer(1) [OF ok new] pf all by simp
  show "idle (insert f P) C (shape_step \<sigma> (Init f sz cnt)) ?s" if "sz \<noteq> 0"
    unfolding idle_def using init_producer(1) [OF ok new that] pf f(1) all by simp
qed

lemma idle_connect:
  assumes "idle P C \<sigma> s" and "p \<in> P" and "c \<in> C"
  shows "\<exists>s'. setup_step junk s (Connect p c) = Inr s' \<and> idle P C (shape_step \<sigma> (Connect p c)) s'"
proof -
  let ?s = "s(p := (s p)\<lparr>consumers := c # consumers (s p)\<rparr>)"
  have ok: "fifos_ok P C s" using assms by (simp add: idle_def)
  have "setup_step junk s (Connect p c) = Inr ?s"
    using connect_ok(1) [OF ok assms(2,3)] by (simp add: setup_step_def)
  moreover have "idle P C (shape_step \<sigma> (Connect p c)) ?s"
  proof -
    have "\<sigma> p = (data_maxlen (s p), capacity s p, consumers (s p))" using assms by (simp add: idle_def)
    then have "shape_step \<sigma> (Connect p c) p = (data_maxlen (s p), capacity s p, c # consumers (s p))"
      by simp
    moreover have "shape_step \<sigma> (Connect p c) f = \<sigma> f" if "f \<noteq> p" for f using that by simp
    ultimately show ?thesis
      using assms connect_ok(2) [OF ok assms(2,3)] unfolding idle_def consumers_upd_views
      by (simp del: shape_step.simps add: fun_upd_def [of s])
  qed
  ultimately show ?thesis by blast
qed

lemma run_setup_idle:
  assumes "setup_ok P C calls" and "idle (set P) (set C) \<sigma> s"
  shows "\<exists>s'. run_setup junk calls s = Inr s' \<and>
    idle (set P \<union> set (producers_of calls)) (set C \<union> set (consumers_of calls)) (foldl shape_step \<sigma> calls) s'"
  using assms
proof (induction calls arbitrary: P C \<sigma> s)
  case (Cons call calls)
  show ?case
  proof (cases call)
    case (Init f sz cnt)
    let ?s = "s(f := fresh junk f sz cnt)"
    have step: "run_setup junk (call # calls) s = run_setup junk calls ?s"
      using Init by (simp add: run_setup_def setup_step_def init_fresh)
    note I = idle_init [OF Cons.prems(2), of f sz cnt junk]
    show ?thesis
    proof (cases "sz = 0")
      case True
      then show ?thesis using Cons.IH [of P "f # C" "shape_step \<sigma> call" ?s] Cons.prems(1) I(2) Init step
        by (simp del: fun_upd_apply)
    next
      case False
      then show ?thesis using Cons.IH [of "f # P" C "shape_step \<sigma> call" ?s] Cons.prems(1) I(1) Init step
        by (simp del: fun_upd_apply)
    qed
  next
    case (Connect p c)
    then obtain s1 where "setup_step junk s call = Inr s1" "idle (set P) (set C) (shape_step \<sigma> call) s1"
      using idle_connect [OF Cons.prems(2), of p c junk] Cons.prems(1) by auto
    then show ?thesis using Cons.IH [of P C "shape_step \<sigma> call" s1] Cons.prems(1) Connect
      by (simp add: run_setup_def del: fun_upd_apply)
  qed
qed (simp add: run_setup_def)

section \<open>The network of main\<close>

abbreviation (input) "VINBUF_SIZE \<equiv> 1024 * 1024 :: u32"
abbreviation (input) "VINBUF_CNT \<equiv> 3 :: nat"
abbreviation (input) "AINBUF_SIZE \<equiv> 1024 :: u32"
abbreviation (input) "AINBUF_CNT \<equiv> 10 :: nat"
abbreviation (input) "EINBUF_SIZE \<equiv> 1536 :: u32"
abbreviation (input) "EINBUF_CNT \<equiv> 10 :: nat"
abbreviation (input) "BYPBUF_SIZE \<equiv> 8 :: u32"
abbreviation (input) "BYPBUF_CNT \<equiv> 200 :: nat"
abbreviation (input) "IMGBUF_SIZE \<equiv> 72 * 1024 :: u32"
abbreviation (input) "IMGBUF_CNT \<equiv> 3 :: nat"

abbreviation (input) "F_Ctrl_producer_fifo \<equiv> 0 :: nat"
abbreviation (input) "F_Loopback_producer_fifo \<equiv> 1 :: nat"
abbreviation (input) "F_Vmux_store_producer_fifo \<equiv> 2 :: nat"
abbreviation (input) "F_Vmux_live_producer_fifo \<equiv> 3 :: nat"
abbreviation (input) "F_VGA_producer_fifo \<equiv> 4 :: nat"
abbreviation (input) "F_Audio_producer_fifo \<equiv> 5 :: nat"
abbreviation (input) "F_V1_producer_fifo \<equiv> 6 :: nat"
abbreviation (input) "F_V2_producer_fifo \<equiv> 7 :: nat"
abbreviation (input) "F_V3_producer_fifo \<equiv> 8 :: nat"
abbreviation (input) "F_V4_producer_fifo \<equiv> 9 :: nat"
abbreviation (input) "F_V5_producer_fifo \<equiv> 10 :: nat"
abbreviation (input) "F_V6_producer_fifo \<equiv> 11 :: nat"
abbreviation (input) "F_ImgM_producer_fifo \<equiv> 12 :: nat"
abbreviation (input) "F_ImgV_producer_fifo \<equiv> 13 :: nat"
abbreviation (input) "F_Img1_producer_fifo \<equiv> 14 :: nat"
abbreviation (input) "F_Img2_producer_fifo \<equiv> 15 :: nat"
abbreviation (input) "F_Img3_producer_fifo \<equiv> 16 :: nat"
abbreviation (input) "F_Img4_producer_fifo \<equiv> 17 :: nat"
abbreviation (input) "F_Img5_producer_fifo \<equiv> 18 :: nat"
abbreviation (input) "F_Img6_producer_fifo \<equiv> 19 :: nat"
abbreviation (input) "F_Event_producer_fifo_A \<equiv> 20 :: nat"
abbreviation (input) "F_Event_producer_fifo_B \<equiv> 21 :: nat"
abbreviation (input) "F_Event_producer_fifo_C \<equiv> 22 :: nat"
abbreviation (input) "F_Event_producer_fifo_D \<equiv> 23 :: nat"
abbreviation (input) "F_Event_producer_fifo_Analyze \<equiv> 24 :: nat"
abbreviation (input) "F_UART_TX_producer_fifo_A \<equiv> 25 :: nat"
abbreviation (input) "F_UART_TX_producer_fifo_B \<equiv> 26 :: nat"
abbreviation (input) "F_UART_TX_producer_fifo_C \<equiv> 27 :: nat"
abbreviation (input) "F_UART_RX_producer_fifo_A1 \<equiv> 28 :: nat"
abbreviation (input) "F_UART_RX_producer_fifo_A2 \<equiv> 29 :: nat"
abbreviation (input) "F_UART_RX_producer_fifo_B1 \<equiv> 30 :: nat"
abbreviation (input) "F_UART_RX_producer_fifo_B2 \<equiv> 31 :: nat"
abbreviation (input) "F_UART_RX_producer_fifo_C1 \<equiv> 32 :: nat"
abbreviation (input) "F_UART_RX_producer_fifo_C2 \<equiv> 33 :: nat"
abbreviation (input) "F_Switch_producer_fifo \<equiv> 34 :: nat"
abbreviation (input) "F_JPEG_producer_fifo \<equiv> 35 :: nat"
abbreviation (input) "F_PIP_producer_fifo \<equiv> 36 :: nat"
abbreviation (input) "F_Filtered_img_producer_fifo \<equiv> 37 :: nat"
abbreviation (input) "F_Ctrl_consumer_fifo_A \<equiv> 38 :: nat"
abbreviation (input) "F_Ctrl_consumer_fifo_B \<equiv> 39 :: nat"
abbreviation (input) "F_Ctrl_consumer_fifo_C \<equiv> 40 :: nat"
abbreviation (input) "F_Ctrl_consumer_fifo_D \<equiv> 41 :: nat"
abbreviation (input) "F_Ctrl_consumer_fifo_localsave \<equiv> 42 :: nat"
abbreviation (input) "F_Ctrl_consumer_fifo_SwitchTracking \<equiv> 43 :: nat"
abbreviation (input) "F_V_consumer_fifo \<equiv> 44 :: nat"
abbreviation (input) "F_Img_consumer_fifo \<equiv> 45 :: nat"
abbreviation (input) "F_Instructor_consumer_fifo \<equiv> 46 :: nat"
abbreviation (input) "F_Filtered_img_consumer_fifo \<equiv> 47 :: nat"
abbreviation (input) "F_UART_RX_consumer_fifo_A1 \<equiv> 48 :: nat"
abbreviation (input) "F_UART_RX_consumer_fifo_A2 \<equiv> 49 :: nat"
abbreviation (input) "F_UART_RX_consumer_fifo_B1 \<equiv> 50 :: nat"
abbreviation (input) "F_UART_RX_consumer_fifo_B2 \<equiv> 51 :: nat"
abbreviation (input) "F_UART_RX_consumer_fifo_C1 \<equiv> 52 :: nat"
abbreviation (input) "F_UART_RX_consumer_fifo_C2 \<equiv> 53 :: nat"
abbreviation (input) "F_UART_TX_consumer_fifo_A \<equiv> 54 :: nat"
abbreviation (input) "F_UART_TX_consumer_fifo_B \<equiv> 55 :: nat"
abbreviation (input) "F_UART_TX_consumer_fifo_C \<equiv> 56 :: nat"
abbreviation (input) "F_Event_consumer_fifo \<equiv> 57 :: nat"

definition main_setup :: "setup_call list" where
  "main_setup = [
     Init F_Ctrl_producer_fifo EINBUF_SIZE EINBUF_CNT,
     Init F_Loopback_producer_fifo EINBUF_SIZE EINBUF_CNT,
     Init F_Vmux_store_producer_fifo VINBUF_SIZE VINBUF_CNT,
     Init F_Vmux_live_producer_fifo VINBUF_SIZE VINBUF_CNT,
     Init F_VGA_producer_fifo VINBUF_SIZE VINBUF_CNT,
     Init F_Audio_producer_fifo AINBUF_SIZE AINBUF_CNT,
     Init F_V1_producer_fifo VINBUF_SIZE VINBUF_CNT,
     Init F_V2_producer_fifo VINBUF_SIZE VINBUF_CNT,
     Init F_V3_producer_fifo VINBUF_SIZE VINBUF_CNT,
     Init F_V4_producer_fifo VINBUF_SIZE VINBUF_CNT,
     Init F_V5_producer_fifo VINBUF_SIZE VINBUF_CNT,
     Init F_V6_producer_fifo VINBUF_SIZE VINBUF_CNT,
     Init F_ImgM_producer_fifo IMGBUF_SIZE IMGBUF_CNT,
     Init F_ImgV_producer_fifo IMGBUF_SIZE IMGBUF_CNT,
     Init F_Img1_producer_fifo IMGBUF_SIZE IMGBUF_CNT,
     Init F_Img2_producer_fifo IMGBUF_SIZE IMGBUF_CNT,
     Init F_Img3_producer_fifo IMGBUF_SIZE IMGBUF_CNT,
     Init F_Img4_producer_fifo IMGBUF_SIZE IMGBUF_CNT,
     Init F_Img5_producer_fifo IMGBUF_SIZE IMGBUF_CNT,
     Init F_Img6_producer_fifo IMGBUF_SIZE IMGBUF_CNT,
     Init F_Event_producer_fifo_A EINBUF_SIZE EINBUF_CNT,
     Init F_Event_producer_fifo_B EINBUF_SIZE EINBUF_CNT,
     Init F_Event_producer_fifo_C EINBUF_SIZE EINBUF_CNT,
     Init F_Event_producer_fifo_D EINBUF_SIZE EINBUF_CNT,
     Init F_Event_producer_fifo_Analyze EINBUF_SIZE EINBUF_CNT,
     Init F_UART_TX_producer_fifo_A EINBUF_SIZE EINBUF_CNT,
     Init F_UART_TX_producer_fifo_B EINBUF_SIZE EINBUF_CNT,
     Init F_UART_TX_producer_fifo_C EINBUF_SIZE EINBUF_CNT,
     Init F_UART_RX_producer_fifo_A1 BYPBUF_SIZE BYPBUF_CNT,
     Init F_UART_RX_producer_fifo_A2 BYPBUF_SIZE BYPBUF_CNT,
     Init F_UART_RX_producer_fifo_B1 BYPBUF_SIZE BYPBUF_CNT,
     Init F_UART_RX_producer_fifo_B2 BYPBUF_SIZE BYPBUF_CNT,
     Init F_UART_RX_producer_fifo_C1 BYPBUF_SIZE BYPBUF_CNT,
     Init F_UART_RX_producer_fifo_C2 BYPBUF_SIZE BYPBUF_CNT,
     Init F_Switch_producer_fifo EINBUF_SIZE EINBUF_CNT,
     Init F_JPEG_producer_fifo EINBUF_SIZE (64 * EINBUF_CNT),
     Init F_PIP_producer_fifo EINBUF_SIZE (64 * EINBUF_CNT),
     Init F_Filtered_img_producer_fifo IMGBUF_SIZE IMGBUF_CNT,
     Init F_Ctrl_consumer_fifo_A 0 (64 * EINBUF_CNT),
     Connect F_Ctrl_producer_fifo F_Ctrl_consumer_fifo_A,
     Connect F_Switch_producer_fifo F_Ctrl_consumer_fifo_A,
     Connect F_PIP_producer_fifo F_Ctrl_consumer_fifo_A,
     Init F_Ctrl_consumer_fifo_B 0 EINBUF_CNT,
     Connect F_Ctrl_producer_fifo F_Ctrl_consumer_fifo_B,
     Init F_Ctrl_consumer_fifo_C 0 EINBUF_CNT,
     Connect F_Ctrl_producer_fifo F_Ctrl_consumer_fifo_C,
     Init F_Ctrl_consumer_fifo_D 0 EINBUF_CNT,
     Connect F_Ctrl_producer_fifo F_Ctrl_consumer_fifo_D,
     Init F_Ctrl_consumer_fifo_localsave 0 EINBUF_CNT,
     Connect F_Ctrl_producer_fifo F_Ctrl_consumer_fifo_localsave,
     Init F_Ctrl_consumer_fifo_SwitchTracking 0 EINBUF_CNT,
     Connect F_Ctrl_producer_fifo F_Ctrl_consumer_fifo_SwitchTracking,
     Init F_V_consumer_fifo 0 (8 * VINBUF_CNT),
     Connect F_Vmux_store_producer_fifo F_V_consumer_fifo,
     Connect F_Vmux_live_producer_fifo F_V_consumer_fifo,
     Connect F_VGA_producer_fifo F_V_consumer_fifo,
     Connect F_Audio_producer_fifo F_V_consumer_fifo,
     Connect F_V1_producer_fifo F_V_consumer_fifo,
     Connect F_V2_producer_fifo F_V_consumer_fifo,
     Connect F_V3_producer_fifo F_V_consumer_fifo,
     Connect F_V4_producer_fifo F_V_consumer_fifo,
     Connect F_V5_producer_fifo F_V_consumer_fifo,
     Connect F_V6_producer_fifo F_V_consumer_fifo,
     Init F_Img_consumer_fifo 0 (8 * IMGBUF_CNT),
     Connect F_ImgM_producer_fifo F_Img_consumer_fifo,
     Connect F_ImgV_producer_fifo F_Img_consumer_fifo,
     Connect F_Img1_producer_fifo F_Img_consumer_fifo,
     Connect F_Img2_producer_fifo F_Img_consumer_fifo,
     Connect F_Img3_producer_fifo F_Img_consumer_fifo,
     Connect F_Img4_producer_fifo F_Img_consumer_fifo,
     Connect F_Img5_producer_fifo F_Img_consumer_fifo,
     Connect F_Img6_producer_fifo F_Img_consumer_fifo,
     Init F_Instructor_consumer_fifo 0 (64 * EINBUF_CNT),
     Connect F_JPEG_producer_fifo F_Instructor_consumer_fifo,
     Connect F_Loopback_producer_fifo F_Instructor_consumer_fifo,
     Init F_Filtered_img_consumer_fifo 0 IMGBUF_CNT,
     Connect F_Filtered_img_producer_fifo F_Filtered_img_consumer_fifo,
     Init F_UART_RX_consumer_fifo_A1 0 BYPBUF_CNT,
     Connect F_UART_RX_producer_fifo_A1 F_UART_RX_consumer_fifo_A1,
     Init F_UART_RX_consumer_fifo_A2 0 BYPBUF_CNT,
     Connect F_UART_RX_producer_fifo_A2 F_UART_RX_consumer_fifo_A2,
     Init F_UART_RX_consumer_fifo_B1 0 BYPBUF_CNT,
     Connect F_UART_RX_producer_fifo_B1 F_UART_RX_consumer_fifo_B1,
     Init F_UART_RX_consumer_fifo_B2 0 BYPBUF_CNT,
     Connect F_UART_RX_producer_fifo_B2 F_UART_RX_consumer_fifo_B2,
     Init F_UART_RX_consumer_fifo_C1 0 BYPBUF_CNT,
     Connect F_UART_RX_producer_fifo_C1 F_UART_RX_consumer_fifo_C1,
     Init F_UART_RX_consumer_fifo_C2 0 BYPBUF_CNT,
     Connect F_UART_RX_producer_fifo_C2 F_UART_RX_consumer_fifo_C2,
     Init F_UART_TX_consumer_fifo_A 0 EINBUF_CNT,
     Connect F_UART_TX_producer_fifo_A F_UART_TX_consumer_fifo_A,
     Init F_UART_TX_consumer_fifo_B 0 EINBUF_CNT,
     Connect F_UART_TX_producer_fifo_B F_UART_TX_consumer_fifo_B,
     Init F_UART_TX_consumer_fifo_C 0 EINBUF_CNT,
     Connect F_UART_TX_producer_fifo_C F_UART_TX_consumer_fifo_C,
     Init F_Event_consumer_fifo 0 EINBUF_CNT,
     Connect F_Event_producer_fifo_A F_Event_consumer_fifo,
     Connect F_Event_producer_fifo_B F_Event_consumer_fifo,
     Connect F_Event_producer_fifo_C F_Event_consumer_fifo,
     Connect F_Event_producer_fifo_D F_Event_consumer_fifo,
     Connect F_Event_producer_fifo_Analyze F_Event_consumer_fifo]"

definition main_producers :: "fifo_id list" where
  "main_producers = [0 ..< 38]"

definition main_consumers :: "fifo_id list" where
  "main_consumers = [38 ..< 58]"

definition main_shape :: shape where
  "main_shape = foldl shape_step (\<lambda>_. (0, 0, [])) main_setup"

lemma main_setup_ok: "setup_ok [] [] main_setup"
  by (simp add: main_setup_def)

lemma main_setup_names: "producers_of main_setup = main_producers" "consumers_of main_setup = main_consumers"
  by (simp_all add: main_setup_def main_producers_def main_consumers_def upt_rec)

lemma idle_empty: "idle {} {} \<sigma> s"
  by (simp add: idle_def fifos_ok_empty)

lemma main_idle:
  "\<exists>s'. run_setup junk main_setup s = Inr s' \<and> idle (set main_producers) (set main_consumers) main_shape s'"
  using run_setup_idle [OF main_setup_ok, of "\<lambda>_. (0, 0, [])" s junk]
  by (simp add: idle_empty main_setup_names main_shape_def)

text \<open>The shape of one fifo, found in one pass.\<close>

fun shape_at :: "fifo_id \<Rightarrow> u32 \<times> nat \<times> fifo_id list \<Rightarrow> setup_call list \<Rightarrow> u32 \<times> nat \<times> fifo_id list" where
  "shape_at f x [] = x"
| "shape_at f x (Init g sz cnt # calls) = shape_at f (if g = f then (sz, cnt, []) else x) calls"
| "shape_at f x (Connect p c # calls) =
     shape_at f (if p = f then (fst x, fst (snd x), c # snd (snd x)) else x) calls"

lemma shape_at: "foldl shape_step \<sigma> calls f = shape_at f (\<sigma> f) calls"
proof (induction calls arbitrary: \<sigma>)
  case (Cons call calls)
  then show ?case by (cases call) (auto split: prod.split)
qed simp

lemma main_shape_at: "main_shape f = shape_at f (0, 0, []) main_setup"
  by (simp add: main_shape_def shape_at)

end
