(* ===== verification/Fifo_Properties.thy ===== *)
theory Fifo_Properties
  imports Topology
begin

text \<open>
  The properties of the fifos: the producer refines the frame assembler, consumers get every frame
  once and in order, nothing leaks, and what happens at the edges (full pools, pieces out of place,
  frames that do not fit, a consumer that was never connected). The network of \<^verbatim>\<open>main\<close>
  serves as the concrete instance.
\<close>

section \<open>Pieces of one frame\<close>

abbreviation ends :: "fifo_add \<Rightarrow> bool" where
  "ends x \<equiv> fa_flags x AND FRAME_FLAG_FRAMEEND \<noteq> 0"

text \<open>Exactly the first piece opens a frame, exactly the last one ends it.\<close>

definition one_frame :: "fifo_add list \<Rightarrow> bool" where
  "one_frame xs \<longleftrightarrow> xs \<noteq> [] \<and> opens (hd xs) \<and> (\<forall>x\<in>set (tl xs). \<not> opens x) \<and>
     ends (last xs) \<and> (\<forall>x\<in>set (butlast xs). \<not> ends x)"

definition frame_data :: "fifo_add list \<Rightarrow> byte list" where
  "frame_data xs = concat (map fa_data xs)"

lemma frame_data_simps [simp]:
  "frame_data [] = []" "frame_data (x # xs) = fa_data x @ frame_data xs"
  by (simp_all add: frame_data_def)

lemma framer_middle:
  assumes "\<forall>x\<in>set xs. \<not> opens x" and "\<forall>x\<in>set (butlast xs). \<not> ends x" and "xs \<noteq> []" and "ends (last xs)"
    and "length d + length (frame_data xs) \<le> m"
  shows "framer_run m (Some (d, f, t)) xs = (None, [(d @ frame_data xs, f, t)])"
    and "well_framed m (Some (d, f, t)) xs"
  using assms
proof (induction xs arbitrary: d)
  case (Cons x xs)
  {
    case 1
    then show ?case using Cons.IH(1) [of "d @ fa_data x"]
      by (cases "xs = []") (simp_all add: framer_def frame_piece_def open_frame_def)
  next
    case 2
    then show ?case using Cons.IH(2) [of "d @ fa_data x"]
      by (cases "xs = []") (simp_all add: framer_def frame_piece_def open_frame_def)
  }
qed simp_all

lemma framer_one_frame:
  assumes "one_frame xs" and "length (frame_data xs) \<le> m"
  shows "framer_run m None xs = (None, [(frame_data xs, new_flags (fa_flags (hd xs)), fa_timestamp (hd xs))])"
    and "well_framed m None xs" and "filter (\<lambda>x. opens x) xs = [hd xs]"
proof -
  obtain x ys where x: "xs = x # ys" "opens x" "\<forall>y\<in>set ys. \<not> opens y" "\<forall>y\<in>set (butlast (x # ys)). \<not> ends y"
    "ends (last (x # ys))"
    using assms(1) by (cases xs) (auto simp: one_frame_def)
  have mid: "framer_run m (Some (fa_data x, new_flags (fa_flags x), fa_timestamp x)) ys =
      (None, [(fa_data x @ frame_data ys, new_flags (fa_flags x), fa_timestamp x)])"
    "well_framed m (Some (fa_data x, new_flags (fa_flags x), fa_timestamp x)) ys" if "ys \<noteq> []"
    using x framer_middle [of ys "fa_data x" m] assms(2) that by simp_all
  have le: "length (fa_data x) \<le> m" using assms(2) x(1) by simp
  show "framer_run m None xs = (None, [(frame_data xs, new_flags (fa_flags (hd xs)), fa_timestamp (hd xs))])"
    "well_framed m None xs"
    using x mid le by (cases "ys = []"; simp add: framer_def frame_piece_def open_frame_def)+
  have "filter (\<lambda>x. opens x) ys = []" using x(3) by (simp add: filter_empty_conv)
  then show "filter (\<lambda>x. opens x) xs = [hd xs]" using x(1,2) by simp
qed

lemma piece_lengths: "x \<in> set xs \<Longrightarrow> length (fa_data x) \<le> length (frame_data xs)"
  by (induction xs) auto

lemma frame_delivered:
  assumes "fifos_ok P C s" and "p \<in> P" and "pending s p = None" and "one_frame xs"
    and "length (frame_data xs) \<le> unat (data_maxlen (s p))" and "data_maxlen (s p) < 0x80000000"
    and "in_use s p < capacity s p"
    and "\<forall>c\<in>C. in_use s c + links s p c \<le> capacity s c"
  shows "\<exists>s'. add_pieces p xs s = Inr s' \<and> fifos_ok P C s' \<and> pending s' p = None \<and>
    (\<forall>c\<in>C. frames s' c = frames s c @
       replicate (links s p c) (frame_data xs, new_flags (fa_flags (hd xs)), fa_timestamp (hd xs)))"
proof -
  let ?m = "unat (data_maxlen (s p))"
  have inv: "producer_inv P C p ?m (links s p) s" using assms(1,2) by (simp add: producer_inv_def)
  have M: "?m < 2 ^ 31" using assms(6) by (simp add: word_less_nat_alt)
  have lens: "\<forall>x\<in>set xs. ?m + length (fa_data x) < 2 ^ 32"
  proof
    fix x assume "x \<in> set xs"
    then have "length (fa_data x) \<le> ?m" using piece_lengths [of x xs] assms(5) by simp
    then show "?m + length (fa_data x) < 2 ^ 32" using M by simp
  qed
  note F = framer_one_frame [OF assms(4,5)]
  have slots: "length (filter (\<lambda>x. opens x) xs) \<le> capacity s p - in_use s p" unfolding F(3) using assms(7) by simp
  have room: "links s p c * length [(frame_data xs, new_flags (fa_flags (hd xs)), fa_timestamp (hd xs))]
      \<le> capacity s c - in_use s c" if "c \<in> C" for c
    using assms(8) that by auto
  show ?thesis
    using pro.adds_frames [OF inv F(2) [folded assms(3)] slots lens F(1) [folded assms(3)] room] assms(3)
    unfolding add_pieces_def by (auto simp: producer_inv_def)
qed

section \<open>The concrete instance\<close>

lemma main_shape_facts:
  "main_shape 14 = (73728, 3, [45])" "main_shape 45 = (0, 24, [])" "main_shape 5 = (1024, 10, [44])"
  "main_shape 44 = (0, 24, [])" "main_shape 35 = (1536, 640, [46])" "main_shape 46 = (0, 640, [])"
  by (simp_all add: main_shape_at main_setup_def)

lemma main_shape_video:
  "main_shape 2 = (1048576, 3, [44])" "main_shape 3 = (1048576, 3, [44])" "main_shape 4 = (1048576, 3, [44])"
  "main_shape 6 = (1048576, 3, [44])" "main_shape 7 = (1048576, 3, [44])" "main_shape 8 = (1048576, 3, [44])"
  "main_shape 9 = (1048576, 3, [44])" "main_shape 10 = (1048576, 3, [44])" "main_shape 11 = (1048576, 3, [44])"
  by (simp_all add: main_shape_at main_setup_def)

lemma main_shape_image:
  "main_shape 12 = (73728, 3, [45])" "main_shape 13 = (73728, 3, [45])" "main_shape 14 = (73728, 3, [45])"
  "main_shape 15 = (73728, 3, [45])" "main_shape 16 = (73728, 3, [45])" "main_shape 17 = (73728, 3, [45])"
  "main_shape 18 = (73728, 3, [45])" "main_shape 19 = (73728, 3, [45])"
  by (simp_all add: main_shape_at main_setup_def)

lemma idleD:
  assumes "idle P C \<sigma> s"
  shows "fifos_ok P C s" and "p \<in> P \<Longrightarrow> pending s p = None" and "f \<in> P \<union> C \<Longrightarrow> in_use s f = 0"
    and "f \<in> P \<union> C \<Longrightarrow> \<sigma> f = (m, n, cs) \<Longrightarrow> data_maxlen (s f) = m"
    and "f \<in> P \<union> C \<Longrightarrow> \<sigma> f = (m, n, cs) \<Longrightarrow> capacity s f = n"
    and "f \<in> P \<union> C \<Longrightarrow> \<sigma> f = (m, n, cs) \<Longrightarrow> consumers (s f) = cs"
    and "f \<in> P \<union> C \<Longrightarrow> frames s f = []"
proof -
  show "fifos_ok P C s" "p \<in> P \<Longrightarrow> pending s p = None" "f \<in> P \<union> C \<Longrightarrow> in_use s f = 0"
    "f \<in> P \<union> C \<Longrightarrow> frames s f = []"
    using assms by (auto simp: idle_def in_use_frames)
  assume f: "f \<in> P \<union> C" "\<sigma> f = (m, n, cs)"
  then have "(data_maxlen (s f), capacity s f, consumers (s f)) = (m, n, cs)"
    using assms f unfolding idle_def by metis
  then show "data_maxlen (s f) = m" "capacity s f = n" "consumers (s f) = cs" by simp_all
qed

abbreviation (input) "main_P \<equiv> set main_producers"
abbreviation (input) "main_C \<equiv> set main_consumers"

lemma main_sets: "f \<in> main_P \<longleftrightarrow> f < 38" "f \<in> main_C \<longleftrightarrow> 38 \<le> f \<and> f < 58"
  unfolding main_producers_def main_consumers_def set_upt by simp_all

text \<open>Fifo 14 (\<^verbatim>\<open>Img1_producer_fifo\<close>), with its only consumer 45, as \<^verbatim>\<open>main\<close> leaves it.\<close>

lemma main_img:
  obtains s where "fifos_ok main_P main_C s" "pending s 14 = None" "in_use s 14 = 0" "capacity s 14 = 3"
    "data_maxlen (s 14) = 73728" "\<forall>c. links s 14 c = (if c = 45 then 1 else 0)"
    "\<forall>c\<in>main_C. in_use s c = 0" "capacity s 45 = 24" "frames s 45 = []"
    "\<forall>p\<in>main_P. pending s p = None" "\<forall>c\<in>main_C. frames s c = []"
proof -
  obtain s :: fifos where i: "idle main_P main_C main_shape s" using main_idle by blast
  note D = idleD [OF i]
  have "consumers (s 14) = [45]" using D(6) [of 14] main_shape_facts(1) by (simp add: main_sets)
  then have "links s 14 c = (if c = 45 then 1 else 0)" for c by (simp add: links_def)
  then show thesis
    using that [of s] D main_shape_facts(1,2) by (simp add: main_sets)
qed

lemma main_img_room:
  assumes "\<forall>c. links s 14 c = (if c = 45 then 1 else (0::nat))" "\<forall>c\<in>main_C. in_use s c = 0"
    "capacity s 45 = 24" "n \<le> 24"
  shows "\<forall>c\<in>main_C. in_use s c + links s 14 c * n \<le> capacity s c"
  using assms by auto

section \<open>Properties\<close>

text \<open>
  C1. Adding a piece refines the frame assembler: the call returns what \<open>framer\<close> returns, the frame
  being filled is the assembler's, and every frame it completes is appended to the queue of each
  connected consumer, once for each connection; other producers are untouched and the invariant of
  the store is kept. The producer needs a free item for a new frame and the consumers room for what
  is completed.
\<close>

theorem producer_refines_framer:
  assumes "fifos_ok P C s" and "p \<in> P" and "unat len = length data"
    and "unat (data_maxlen (s p)) + length data < 2 ^ 32"
    and "flags AND FRAME_FLAG_NEWFRAME \<noteq> 0 \<or> pending s p \<noteq> None"
    and "flags AND FRAME_FLAG_NEWFRAME \<noteq> 0 \<Longrightarrow> in_use s p < capacity s p"
    and "framer (unat (data_maxlen (s p))) (pending s p) (data, flags, ts) = (ret, pend, out)"
    and "\<forall>c\<in>C. in_use s c + links s p c * length out \<le> capacity s c"
  shows "\<exists>s'. datafifo_producer_data_add p data len flags ts s = Inr (ret, s') \<and>
    fifos_ok P C s' \<and> pending s' p = pend \<and> (\<forall>q\<in>P. q \<noteq> p \<longrightarrow> pending s' q = pending s q) \<and>
    (\<forall>c\<in>C. frames s' c = frames s c @ broadcast (links s p c) out)"
  using data_add_framer [OF assms] unfolding producer_post_def by blast

theorem producer_refines_framer_witness:
  "\<exists>s s'. datafifo_producer_data_add 14 [CHR ''a''] 1 WHOLE_FRAME 7 s = Inr (0, s') \<and>
     frames s' 45 = frames s 45 @ [([CHR ''a''], 0, 7)]"
proof -
  obtain s where S: "fifos_ok main_P main_C s" "pending s 14 = None" "in_use s 14 = 0" "capacity s 14 = 3"
    "data_maxlen (s 14) = 73728" "\<forall>c. links s 14 c = (if c = 45 then 1 else 0)"
    "\<forall>c\<in>main_C. in_use s c = 0" "capacity s 45 = 24" "frames s 45 = []"
    "\<forall>p\<in>main_P. pending s p = None" "\<forall>c\<in>main_C. frames s c = []"
    by (rule main_img)
  have fr: "framer (unat (data_maxlen (s 14))) (pending s 14) ([CHR ''a''], WHOLE_FRAME, 7) =
      (0, None, [([CHR ''a''], 0, 7)])"
    using S(2,5) by (simp add: framer_def open_frame_def new_flags_def)
  show ?thesis
    using producer_refines_framer [OF S(1), of 14 1 "[CHR ''a'']" WHOLE_FRAME 7 0 None "[([CHR ''a''], 0, 7)]"]
      fr S main_img_room [OF S(6,7,8), of 1]
    by (fastforce simp: main_sets)
qed

text \<open>
  C3. The pieces of a frame, the first one opening it and the last one ending it, reach every connected
  consumer as one frame: the pieces in order and unchanged, with the flags and the time stamp of the
  first piece.
\<close>

theorem whole_frame_delivered:
  assumes "fifos_ok P C s" and "p \<in> P" and "pending s p = None" and "one_frame xs"
    and "length (frame_data xs) \<le> unat (data_maxlen (s p))" and "data_maxlen (s p) < 0x80000000"
    and "in_use s p < capacity s p"
    and "\<forall>c\<in>C. in_use s c + links s p c \<le> capacity s c"
  shows "\<exists>s'. add_pieces p xs s = Inr s' \<and> fifos_ok P C s' \<and> pending s' p = None \<and>
    (\<forall>c\<in>C. frames s' c = frames s c @
       replicate (links s p c) (frame_data xs, new_flags (fa_flags (hd xs)), fa_timestamp (hd xs)))"
  by (rule frame_delivered [OF assms])

abbreviation (input) "two_pieces \<equiv>
  [\<lparr>fa_data = ''ab'', fa_flags = FRAME_FLAG_NEWFRAME OR FRAME_FLAG_KEYFRAME, fa_timestamp = 5\<rparr>,
   \<lparr>fa_data = ''c'', fa_flags = FRAME_FLAG_FRAMEEND, fa_timestamp = 6\<rparr>]"

theorem whole_frame_delivered_witness:
  "\<exists>s s'. frames s 45 = [] \<and> add_pieces 14 two_pieces s = Inr s' \<and>
     frames s' 45 = [(''abc'', FRAME_FLAG_KEYFRAME, 5)]"
proof -
  obtain s where S: "fifos_ok main_P main_C s" "pending s 14 = None" "in_use s 14 = 0" "capacity s 14 = 3"
    "data_maxlen (s 14) = 73728" "\<forall>c. links s 14 c = (if c = 45 then 1 else 0)"
    "\<forall>c\<in>main_C. in_use s c = 0" "capacity s 45 = 24" "frames s 45 = []"
    "\<forall>p\<in>main_P. pending s p = None" "\<forall>c\<in>main_C. frames s c = []"
    by (rule main_img)
  have one: "one_frame two_pieces" by (simp add: one_frame_def)
  have "14 \<in> main_P" "45 \<in> main_C" by (simp_all add: main_sets)
  moreover have "length (frame_data two_pieces) \<le> unat (data_maxlen (s 14))" using S(5) by simp
  moreover have "\<forall>c\<in>main_C. in_use s c + links s 14 c \<le> capacity s c" using S by auto
  ultimately show ?thesis
    using whole_frame_delivered [OF S(1) _ S(2) one] S(3-9)
    by (fastforce simp: new_flags_def)
qed

text \<open>
  C30. A consumer reads the oldest frame and removing it takes exactly that frame off its queue; nobody
  else's queue and no producer's open frame changes, and the item is freed at the producer when the
  last reference is gone (its list does not grow). On an empty queue -1 is returned and nothing changes.
\<close>

theorem consumer_takes_head:
  assumes "fifos_ok P C s" and "c \<in> C"
  shows "case frames s c of
      [] \<Rightarrow> datafifo_head s c = None \<and> datafifo_consumer_remove_head c s = Inr (-1, s)
    | fr # frs \<Rightarrow> datafifo_head s c = Some fr \<and>
        (\<exists>s'. datafifo_consumer_remove_head c s = Inr (0, s') \<and> fifos_ok P C s' \<and> frames s' c = frs \<and>
           (\<forall>d\<in>C. d \<noteq> c \<longrightarrow> frames s' d = frames s d) \<and>
           (\<forall>p\<in>P. pending s' p = pending s p \<and> in_use s' p \<le> in_use s p))"
proof (cases "frames s c")
  case Nil
  then show ?thesis using head_frames [OF assms] consumer_remove_empty [OF assms] by simp
next
  case (Cons fr frs)
  then show ?thesis
    using head_frames [OF assms] consumer_remove_step [OF assms] by (auto simp: consumer_post_def)
qed

lemma main_one_frame:
  obtains s where "fifos_ok main_P main_C s" "frames s 45 = [(''abc'', FRAME_FLAG_KEYFRAME, 5)]"
    "\<forall>p\<in>main_P. pending s p = None" "\<forall>c\<in>main_C. c \<noteq> 45 \<longrightarrow> frames s c = []"
proof -
  obtain s where S: "fifos_ok main_P main_C s" "pending s 14 = None" "in_use s 14 = 0" "capacity s 14 = 3"
    "data_maxlen (s 14) = 73728" "\<forall>c. links s 14 c = (if c = 45 then 1 else 0)"
    "\<forall>c\<in>main_C. in_use s c = 0" "capacity s 45 = 24" "frames s 45 = []"
    "\<forall>p\<in>main_P. pending s p = None" "\<forall>c\<in>main_C. frames s c = []"
    by (rule main_img)
  have m: "14 \<in> main_P" "45 \<in> main_C" by (simp_all add: main_sets)
  let ?fr = "(''abc'', FRAME_FLAG_KEYFRAME, 5)"
  have wrap: "unat (data_maxlen (s 14)) + length ''abc'' < 2 ^ 32" using S(5) by simp
  have fra: "framer (unat (data_maxlen (s 14))) (pending s 14) (''abc'', WHOLE_FRAME OR FRAME_FLAG_KEYFRAME, 5) =
      (0, None, [?fr])"
    using S(2,5) by (simp add: framer_def open_frame_def new_flags_def)
  have "in_use s 14 < capacity s 14" using S(3,4) by simp
  then obtain s' where s': "producer_post main_P main_C 14 1 s s' None [?fr]"
    using data_add_framer [OF S(1) m(1) _ wrap _ _ fra, of 3] main_img_room [OF S(6,7,8), of 1] by auto
  show thesis
  proof (rule that [of s'])
    show "fifos_ok main_P main_C s'" using s' by (simp add: producer_post_def)
    show "frames s' 45 = [?fr]" using s' m(2) S(6,9) by (simp add: producer_post_def)
    show "\<forall>p\<in>main_P. pending s' p = None" using s' S(10) by (auto simp: producer_post_def)
    show "\<forall>c\<in>main_C. c \<noteq> 45 \<longrightarrow> frames s' c = []" using s' S(6,11) by (auto simp: producer_post_def)
  qed
qed

theorem consumer_takes_head_witness:
  "\<exists>s s'. datafifo_head s 45 = Some (''abc'', FRAME_FLAG_KEYFRAME, 5) \<and>
     datafifo_consumer_remove_head 45 s = Inr (0, s') \<and> frames s' 45 = []"
proof -
  obtain s where s: "fifos_ok main_P main_C s" "frames s 45 = [(''abc'', FRAME_FLAG_KEYFRAME, 5)]"
    by (rule main_one_frame)
  have "45 \<in> main_C" by (simp add: main_sets)
  then show ?thesis using consumer_takes_head [OF s(1), of 45] s(2) by auto
qed

text \<open>
  C2. In every run of producers and consumers from a network that keeps the invariant, what a consumer
  has taken followed by what waits in its queue is exactly what was announced to it, in order: no
  frame is lost, duplicated or overtaken.
\<close>

theorem delivery_in_order:
  assumes "fifos_ok P C s" and "\<forall>c\<in>C. frames s c = []"
    and "(net_step P C)\<^sup>*\<^sup>* \<lparr>run_fifos = s, run_sent = (\<lambda>_. []), run_got = (\<lambda>_. [])\<rparr> t" and "c \<in> C"
  shows "run_sent t c = run_got t c @ frames (run_fifos t) c"
  using net_run_in_order [OF assms(3)] assms(1,2,4) by (simp add: in_order_def)

theorem delivery_in_order_witness:
  "\<exists>s t. (net_step main_P main_C)\<^sup>*\<^sup>* \<lparr>run_fifos = s, run_sent = (\<lambda>_. []), run_got = (\<lambda>_. [])\<rparr> t \<and>
     run_sent t 45 = [(''ab'', 0, 3)] \<and> run_sent t 45 = run_got t 45 @ frames (run_fifos t) 45"
proof -
  obtain s where S: "fifos_ok main_P main_C s" "pending s 14 = None" "in_use s 14 = 0" "capacity s 14 = 3"
    "data_maxlen (s 14) = 73728" "\<forall>c. links s 14 c = (if c = 45 then 1 else 0)"
    "\<forall>c\<in>main_C. in_use s c = 0" "capacity s 45 = 24" "frames s 45 = []"
    "\<forall>p\<in>main_P. pending s p = None" "\<forall>c\<in>main_C. frames s c = []"
    by (rule main_img)
  have m: "14 \<in> main_P" "45 \<in> main_C" by (simp_all add: main_sets)
  let ?x = "\<lparr>fa_data = ''ab'', fa_flags = WHOLE_FRAME, fa_timestamp = 3\<rparr>"
  let ?t = "\<lparr>run_fifos = s, run_sent = (\<lambda>_. []), run_got = (\<lambda>_. [])\<rparr>"
  have inv: "producer_inv main_P main_C 14 73728 (links s 14) s" using S(1,5) m by (simp add: producer_inv_def)
  have fra: "framer 73728 (pending s 14) (frame_piece ?x) = (0, None, [(''ab'', 0, 3)])"
    using S(2) by (simp add: framer_def open_frame_def new_flags_def frame_piece_def)
  have room: "\<forall>c\<in>main_C. in_use s c + links s 14 c * length [(''ab'', 0 :: u32, 3 :: u32)] \<le> capacity s c"
    by (rule main_img_room [OF S(6,7,8)]) simp
  have wrap: "unat (data_maxlen (s 14)) + length ''ab'' < 2 ^ 32" using S(5) by simp
  have "framer (unat (data_maxlen (s 14))) (pending s 14) (''ab'', WHOLE_FRAME, 3) = (0, None, [(''ab'', 0, 3)])"
    using fra S(5) by (simp add: frame_piece_def)
  then obtain s' where s': "add_piece 14 ?x s = Inr (0, s')"
    using data_add_framer [OF S(1) m(1) _ wrap _ _ _ room, of 2 WHOLE_FRAME 3 0 None] S(3,4)
    by (auto simp: add_piece_def)
  have "net_step main_P main_C ?t (?t\<lparr>run_fifos := s',
      run_sent := (\<lambda>c. run_sent ?t c @ broadcast (links (run_fifos ?t) 14 c) [(''ab'', 0, 3)])\<rparr>)"
    by (rule step_add [of 14 _ ?x ?t 0 None _ _ 0]) (use m S fra s' room in simp_all)
  then have r: "(net_step main_P main_C)\<^sup>*\<^sup>* ?t (?t\<lparr>run_fifos := s',
      run_sent := (\<lambda>c. run_sent ?t c @ broadcast (links (run_fifos ?t) 14 c) [(''ab'', 0, 3)])\<rparr>)"
    by (rule r_into_rtranclp)
  show ?thesis
    using delivery_in_order [OF S(1) S(11) r m(2)] r S(6) broadcast_1 by (intro exI conjI) auto
qed

text \<open>
  A piece that makes the frame longer than a buffer is refused with -5 and the frame stays open as it
  was: the next piece that opens a frame sends the truncated frame to the consumers.
\<close>

theorem overlong_frame_truncated:
  assumes "fifos_ok P C s" and "p \<in> P" and "pending s p = Some (d, f, t)"
    and "data_maxlen (s p) < 0x80000000" and "\<not> opens x" and "opens y"
    and "length (fa_data x) \<le> unat (data_maxlen (s p))"
    and "unat (data_maxlen (s p)) < length d + length (fa_data x)"
    and "length (fa_data y) \<le> unat (data_maxlen (s p))" and "\<not> ends y"
    and "fa_flags y AND FRAME_FLAG_FIRSTFRAME = 0"
    and "in_use s p < capacity s p" and "\<forall>c\<in>C. in_use s c + links s p c \<le> capacity s c"
  shows "\<exists>s1 s2. add_piece p x s = Inr (-5, s1) \<and> pending s1 p = Some (d, f, t) \<and>
    add_piece p y s1 = Inr (0, s2) \<and>
    (\<forall>c\<in>C. frames s2 c = frames s c @ replicate (links s p c) (d, f, t))"
proof -
  let ?m = "unat (data_maxlen (s p))"
  have inv: "producer_inv P C p ?m (links s p) s" using assms(1,2) by (simp add: producer_inv_def)
  have M: "?m < 2 ^ 31" using assms(4) by (simp add: word_less_nat_alt)
  have fx: "framer ?m (pending s p) (frame_piece x) = (-5, Some (d, f, t), [])"
    using assms(3,5,8) by (simp add: framer_def frame_piece_def open_frame_def)
  obtain s1 where s1: "add_piece p x s = Inr (-5, s1)" "producer_inv P C p ?m (links s p) s1"
    "pending s1 p = Some (d, f, t)" "capacity s p - in_use s p \<le> capacity s1 p - in_use s1 p"
    "\<forall>c\<in>C. frames s1 c = frames s c \<and> capacity s c - in_use s c = capacity s1 c - in_use s1 c"
    using pro.add_frame [OF inv _ _ _ fx] assms(3,5,7) M by auto
  have fy: "framer ?m (pending s1 p) (frame_piece y) =
      (0, Some (fa_data y, new_flags (fa_flags y), fa_timestamp y), [(d, f, t)])"
    using assms(6,9,10,11) s1(3) by (simp add: framer_def frame_piece_def open_frame_def close_frame_def)
  have room: "links s p c * length [(d, f, t)] \<le> capacity s1 c - in_use s1 c" if "c \<in> C" for c
  proof -
    have "capacity s c - in_use s c = capacity s1 c - in_use s1 c" using s1(5) that by blast
    moreover have "in_use s c + links s p c \<le> capacity s c" using assms(13) that by blast
    ultimately show ?thesis by simp
  qed
  have sl: "0 < capacity s1 p - in_use s1 p" using s1(4) assms(12) by simp
  have ly: "?m + length (fa_data y) < 2 ^ 32" using assms(9) M by simp
  obtain s2 where "add_piece p y s1 = Inr (0, s2)"
    "\<forall>c\<in>C. frames s2 c = frames s1 c @ broadcast (links s p c) [(d, f, t)]"
    using pro.add_frame [OF s1(2) _ sl ly fy room] assms(6) by blast
  then show ?thesis using s1(1,3,5) by (intro exI [of _ s1] exI [of _ s2]) simp
qed

lemma main_open_frame:
  obtains s where "fifos_ok main_P main_C s" "pending s 14 = Some (''ab'', 0, 9)" "data_maxlen (s 14) = 73728"
    "in_use s 14 < capacity s 14" "\<forall>c\<in>main_C. in_use s c + links s 14 c \<le> capacity s c" "frames s 45 = []"
    "links s 14 45 = 1"
proof -
  obtain s where S: "fifos_ok main_P main_C s" "pending s 14 = None" "in_use s 14 = 0" "capacity s 14 = 3"
    "data_maxlen (s 14) = 73728" "\<forall>c. links s 14 c = (if c = 45 then 1 else 0)"
    "\<forall>c\<in>main_C. in_use s c = 0" "capacity s 45 = 24" "frames s 45 = []"
    "\<forall>p\<in>main_P. pending s p = None" "\<forall>c\<in>main_C. frames s c = []"
    by (rule main_img)
  have m: "14 \<in> main_P" "45 \<in> main_C" by (simp_all add: main_sets)
  let ?fr = "(''ab'', 0 :: u32, 9 :: u32)"
  have wrap: "unat (data_maxlen (s 14)) + length ''ab'' < 2 ^ 32" using S(5) by simp
  have fra: "framer (unat (data_maxlen (s 14))) (pending s 14) (''ab'', FRAME_FLAG_NEWFRAME, 9) = (0, Some ?fr, [])"
    using S(2,5) by (simp add: framer_def open_frame_def new_flags_def)
  obtain s' where s': "producer_post main_P main_C 14 1 s s' (Some ?fr) []"
    using data_add_framer [OF S(1) m(1) _ wrap _ _ fra, of 2] S(3,4) main_img_room [OF S(6,7,8), of 0] by auto
  have post: "fifos_ok main_P main_C s'" "pending s' 14 = Some ?fr" "data_maxlen (s' 14) = 73728"
    "in_use s' 14 \<le> 1" "capacity s' 14 = 3" "consumers (s' 14) = consumers (s 14)"
    "\<forall>c\<in>main_C. in_use s' c = in_use s c \<and> capacity s' c = capacity s c" "frames s' 45 = []"
    using s' m S(3,4,5,9) by (simp_all add: producer_post_def)
  have lk: "links s' 14 = links s 14" using post(6) by (simp add: links_def fun_eq_iff)
  have "\<forall>c\<in>main_C. in_use s' c + links s' 14 c \<le> capacity s' c"
    using post(7) main_img_room [OF S(6,7,8), of 1] unfolding lk by simp
  then show thesis using that [of s'] post lk S(6) by simp
qed

theorem overlong_frame_truncated_witness:
  "\<exists>s s1 s2. pending s 14 = Some (''ab'', 0, 9) \<and>
     add_piece 14 \<lparr>fa_data = replicate 73727 (CHR ''z''), fa_flags = FRAME_FLAG_FRAMEEND, fa_timestamp = 9\<rparr> s = Inr (-5, s1) \<and>
     add_piece 14 \<lparr>fa_data = ''n'', fa_flags = FRAME_FLAG_NEWFRAME, fa_timestamp = 10\<rparr> s1 = Inr (0, s2) \<and>
     frames s2 45 = [(''ab'', 0, 9)]"
proof -
  obtain s where S: "fifos_ok main_P main_C s" "pending s 14 = Some (''ab'', 0, 9)" "data_maxlen (s 14) = 73728"
    "in_use s 14 < capacity s 14" "\<forall>c\<in>main_C. in_use s c + links s 14 c \<le> capacity s c" "frames s 45 = []"
    "links s 14 45 = 1"
    by (rule main_open_frame)
  let ?x = "\<lparr>fa_data = replicate 73727 (CHR ''z''), fa_flags = FRAME_FLAG_FRAMEEND, fa_timestamp = 9\<rparr>"
  let ?y = "\<lparr>fa_data = ''n'', fa_flags = FRAME_FLAG_NEWFRAME, fa_timestamp = 10\<rparr>"
  have m: "14 \<in> main_P" "45 \<in> main_C" by (simp_all add: main_sets)
  obtain s1 s2 where "add_piece 14 ?x s = Inr (-5, s1)" "add_piece 14 ?y s1 = Inr (0, s2)"
    "\<forall>c\<in>main_C. frames s2 c = frames s c @ replicate (links s 14 c) (''ab'', 0, 9)"
    using overlong_frame_truncated [OF S(1) m(1) S(2) _ _ _ _ _ _ _ _ S(4,5), of ?x ?y] S(3) by auto
  then show ?thesis using S(2,6,7) m(2) by (intro exI [of _ s] exI [of _ s1] exI [of _ s2]) simp
qed

text \<open>
  C39. Nothing leaks: when no frame is being filled and every consumer has taken everything, the list of
  the producer is empty and all its items are free again.
\<close>

theorem producer_drained:
  assumes "fifos_ok P C s" and "p \<in> P" and "pending s p = None" and "\<forall>c\<in>C. datafifo_head s c = None"
  shows "fifo_items (s p) = []"
proof -
  have "\<forall>c\<in>C. frames s c = []" 
  proof
    fix c assume "c \<in> C"
    then show "frames s c = []" using assms(4) head_frames [OF assms(1), of c] by (cases "frames s c") simp_all
  qed
  then show ?thesis using drained [OF assms(1-3)] by (simp add: in_use_def)
qed

theorem producer_drained_witness: "\<exists>s s'. datafifo_consumer_remove_head 45 s = Inr (0, s') \<and> fifo_items (s' 14) = []"
proof -
  obtain s where s: "fifos_ok main_P main_C s" "frames s 45 = [(''abc'', FRAME_FLAG_KEYFRAME, 5)]"
    "\<forall>p\<in>main_P. pending s p = None" "\<forall>c\<in>main_C. c \<noteq> 45 \<longrightarrow> frames s c = []"
    by (rule main_one_frame)
  have m: "14 \<in> main_P" "45 \<in> main_C" by (simp_all add: main_sets)
  obtain s' where s': "datafifo_consumer_remove_head 45 s = Inr (0, s')" "consumer_post main_P main_C 45 s s'"
    using consumer_remove_step [OF s(1) m(2)] s(2) by auto
  have ok: "fifos_ok main_P main_C s'" "pending s' 14 = None" "\<forall>c\<in>main_C. frames s' c = []"
    using s' s(2-4) m by (auto simp: consumer_post_def)
  have "\<forall>c\<in>main_C. datafifo_head s' c = None" using ok(3) head_frames [OF ok(1)] by simp
  then show ?thesis using producer_drained [OF ok(1) m(1) ok(2)] s'(1) by blast
qed

text \<open>
  \<^verbatim>\<open>datafifo_consumer_clear\<close> ends after at most as many turns as the consumer has items, and
  leaves its queue empty and the network consistent.
\<close>

theorem consumer_clear_empties:
  assumes "fifos_ok P C s" and "c \<in> C"
  shows "\<exists>s'. datafifo_consumer_clear c s = Inr s' \<and> fifos_ok P C s' \<and> frames s' c = []"
proof -
  have "length (frames s c) < Suc (length (items (s c)))"
    using fifos_ok_basic(3) [OF assms(1), of c] assms(2) by (simp add: in_use_frames capacity_def)
  from con.drains [of "\<lambda>n. consumer_clear n c", OF consumer_clear.simps(2) conjI [OF assms] this]
  show ?thesis unfolding datafifo_consumer_clear_def by blast
qed

theorem consumer_clear_empties_witness:
  "\<exists>s s'. frames s 45 \<noteq> [] \<and> datafifo_consumer_clear 45 s = Inr s' \<and> frames s' 45 = []"
proof -
  obtain s where s: "fifos_ok main_P main_C s" "frames s 45 = [(''abc'', FRAME_FLAG_KEYFRAME, 5)]"
    by (rule main_one_frame)
  have "45 \<in> main_C" by (simp add: main_sets)
  then show ?thesis using consumer_clear_empties [OF s(1), of 45] s(2)
    by (metis list.discI)
qed

text \<open>
  Disconnecting a consumer that is not connected returns -1 with the producer's mutex still locked:
  from then on every operation on that producer blocks, also a consumer that takes one of its frames.
\<close>

theorem disconnect_unknown_blocks:
  assumes "fifos_ok P C s" and "p \<in> P" and "c \<notin> set (consumers (s p))"
  shows "\<exists>s'. datafifo_disconnect p c s = Inr (-1, s') \<and>
    datafifo_producer_data_add p data len WHOLE_FRAME ts s' = Inl Blocked \<and>
    datafifo_connect True p c s' = Inl Blocked \<and> datafifo_disconnect p d s' = Inl Blocked \<and>
    (\<forall>e i. e \<noteq> p \<longrightarrow> (\<exists>h. listhead (s e) = Some h \<and> it_ref (itm s e h) = Some (p, i)) \<longrightarrow>
       datafifo_consumer_remove_head e s' = Inl Blocked)"
proof -
  have "\<not> locked (s p)" by (rule fifos_ok_basic(1) [OF assms(1)]) (use assms(2) in simp)
  then show ?thesis using assms(3)
    by (auto simp: datafifo_disconnect_def datafifo_producer_data_add_def new_frame_def datafifo_alloc_def
        datafifo_connect_def on_fifo_def datafifo_consumer_remove_head_def)
qed

theorem disconnect_unknown_blocks_witness:
  "\<exists>s s'. datafifo_disconnect 14 44 s = Inr (-1, s') \<and>
     datafifo_producer_data_add 14 ''a'' 1 WHOLE_FRAME 0 s' = Inl Blocked"
proof -
  obtain s :: fifos where i: "idle main_P main_C main_shape s" using main_idle by blast
  note D = idleD [OF i]
  have "consumers (s 14) = [45]" using D(6) [of 14] main_shape_facts(1) by (simp add: main_sets)
  then have "14 \<in> main_P" "44 \<notin> set (consumers (s 14))" by (simp_all add: main_sets)
  from disconnect_unknown_blocks [OF D(1) this, of "''a''" 1 0] show ?thesis by blast
qed

text \<open>
  A piece that does not open a frame while none is being filled is refused with -4 as long as the
  producer still holds a frame; when its list is empty the code dereferences a null pointer.
\<close>

theorem stray_piece:
  assumes "fifos_ok P C s" and "p \<in> P" and "pending s p = None" and "flags AND FRAME_FLAG_NEWFRAME = 0"
  shows "datafifo_producer_data_add p data len flags ts s =
    (if fifo_items (s p) = [] then Inl Null_Deref else Inr (-4, s))"
proof -
  obtain \<alpha> where rel: "rels (P \<union> C) s \<alpha>" using assms(1) by (auto simp: fifos_ok_def)
  have R: "fifo_rel (s p) (\<alpha> p)" using relsD [OF rel] assms(2) by simp
  show ?thesis
    using assms(3,4) fifo_rel_queue [OF R] fifo_relD(11) [OF R]
    by (auto simp: datafifo_producer_data_add_def pending_def split: if_splits)
qed

theorem stray_piece_witness:
  "(\<exists>s. datafifo_producer_data_add 14 ''a'' 1 FRAME_FLAG_FRAMEEND 0 s = Inl Null_Deref)"
proof -
  obtain s :: fifos where i: "idle main_P main_C main_shape s" using main_idle by blast
  note D = idleD [OF i]
  have "fifo_items (s 14) = []" using D(3) [of 14] by (simp add: main_sets in_use_def)
  then show ?thesis
    using stray_piece [OF D(1) _ D(2), of 14 FRAME_FLAG_FRAMEEND "''a''" 1 0] by (auto simp: main_sets)
qed

text \<open>
  C40. The calls with which \<^verbatim>\<open>main\<close> builds the network succeed, leave the invariant, and every
  fifo is empty and has the size, the pool and the consumers it was declared with. Every media
  producer feeds exactly one queue, and the queue of the analysis images has room for all the items
  of its eight producers together, but the media queue does not: its producers can fill it.
\<close>

theorem main_network:
  "\<exists>s'. run_setup junk main_setup s = Inr s' \<and> fifos_ok main_P main_C s' \<and>
     (\<forall>f\<in>main_P \<union> main_C. fifo_items (s' f) = [] \<and>
        (data_maxlen (s' f), capacity s' f, consumers (s' f)) = main_shape f) \<and>
     (\<forall>p\<in>{2 .. 11}. consumers (s' p) = [44]) \<and> (\<forall>p\<in>{12 .. 19}. consumers (s' p) = [45]) \<and>
     (\<Sum>p\<in>{12 .. 19}. capacity s' p) = capacity s' 45 \<and> capacity s' 44 < (\<Sum>p\<in>{2 .. 11}. capacity s' p)"
proof -
  obtain s' where s': "run_setup junk main_setup s = Inr s'" "idle main_P main_C main_shape s'"
    using main_idle by blast
  have I: "\<forall>f\<in>main_P \<union> main_C. in_use s' f = 0 \<and>
      (data_maxlen (s' f), capacity s' f, consumers (s' f)) = main_shape f"
    using s'(2) by (simp add: idle_def)
  have sets: "{2 .. 11} = {2, 3, 4, 5, 6, 7, 8, 9, 10, 11 :: nat}" "{12 .. 19} = {12, 13, 14, 15, 16, 17, 18, 19 :: nat}"
    unfolding set_eq_iff atLeastAtMost_iff insert_iff empty_iff by presburger+
  have D: "capacity s' f = n" "consumers (s' f) = cs" if "f < 58" "main_shape f = (m, n, cs)" for f m n cs
  proof -
    have "f \<in> main_P \<union> main_C" using that(1) main_sets [of f] by auto
    then have "(data_maxlen (s' f), capacity s' f, consumers (s' f)) = (m, n, cs)"
      using I unfolding that(2) [symmetric] by blast
    then show "capacity s' f = n" "consumers (s' f) = cs" by simp_all
  qed
  have "\<forall>p\<in>{2 .. 11}. consumers (s' p) = [44]" "\<forall>p\<in>{12 .. 19}. consumers (s' p) = [45]"
    unfolding sets using main_shape_video [THEN D(2) [rotated]] main_shape_image [THEN D(2) [rotated]]
      main_shape_facts(3) [THEN D(2) [rotated]] by simp_all
  moreover have "(\<Sum>p\<in>{12 .. 19}. capacity s' p) = capacity s' 45"
    unfolding sets using main_shape_image [THEN D(1) [rotated]] main_shape_facts(2) [THEN D(1) [rotated]] by simp
  moreover have "capacity s' 44 < (\<Sum>p\<in>{2 .. 11}. capacity s' p)"
    unfolding sets using main_shape_video [THEN D(1) [rotated]] main_shape_facts(3,4) [THEN D(1) [rotated]] by simp
  ultimately show ?thesis using s' I by (auto simp: idle_def in_use_def)
qed

theorem main_network_witness:
  "\<exists>s'. run_setup (\<lambda>_ _. NUL) main_setup (\<lambda>_. fresh (\<lambda>_ _. NUL) 0 0 0) = Inr s' \<and> fifos_ok main_P main_C s'"
  using main_network by blast

end
