(* ===== verification/Av_Packets.thy ===== *)
theory Av_Packets
  imports Detect_Result "HOL-Library.Signed_Division"
begin

text \<open>
  Media frames on the wire (\<^verbatim>\<open>recbcsrv/recbc_srv.c\<close>): the \<^verbatim>\<open>t_frame_info\<close> descriptor that travels
  as raw memory in the \<^verbatim>\<open>Info\<close> attribute, and \<^verbatim>\<open>JPEGPacknSend2df\<close> and \<^verbatim>\<open>PIPPacknSend2df\<close>, which cut
  a picture into packets of at most \<open>MAX_AVPKT_SIZE\<close> bytes. The lemmas state that the packets
  are well formed, carry consecutive slices and add up to the picture.
\<close>

section \<open>Machine words in memory\<close>

text \<open>An \<open>unsigned int\<close> as its four bytes, least significant first (the i386 layout).\<close>

definition le32 :: "u32 \<Rightarrow> byte list" where
  "le32 w = (let n = unat w in map char_of [n, n div 256, n div 65536, n div 16777216])"

fun rd32 :: "byte list \<Rightarrow> u32" where
  "rd32 [a, b, c, d] =
     of_nat (of_char a + 256 * of_char b + 65536 * of_char c + 16777216 * of_char d)"
| "rd32 _ = 0"

lemma length_le32 [simp]: "length (le32 w) = 4"
  by (simp add: le32_def Let_def)

lemma digits_256:
  fixes n :: nat
  assumes "n < 4294967296"
  shows "n mod 256 + 256 * (n div 256 mod 256) + 65536 * (n div 65536 mod 256) + 16777216 * (n div 16777216 mod 256) = n"
proof -
  have "n mod 65536 = n mod 256 + 256 * (n div 256 mod 256)"
    using mod_mult2_eq [of n 256 256] by simp
  moreover have "n mod 16777216 = n mod 65536 + 65536 * (n div 65536 mod 256)"
    using mod_mult2_eq [of n 65536 256] by simp
  moreover have "n mod 4294967296 = n mod 16777216 + 16777216 * (n div 16777216 mod 256)"
    using mod_mult2_eq [of n 16777216 256] by simp
  ultimately show ?thesis using assms by simp
qed

lemma rd32_le32 [simp]: "rd32 (le32 w) = w"
proof -
  have "rd32 (le32 w) = of_nat (unat w mod 256 + 256 * (unat w div 256 mod 256)
      + 65536 * (unat w div 65536 mod 256) + 16777216 * (unat w div 16777216 mod 256))"
    by (simp only: le32_def Let_def rd32.simps list.map of_char_of)
  also have "\<dots> = of_nat (unat w)"
    using unsigned_less [of w] by (subst digits_256) simp_all
  finally show ?thesis by simp
qed

section \<open>t_frame_info\<close>

abbreviation (input) FRMTYPE_VIDEO_IDR :: u32 where "FRMTYPE_VIDEO_IDR \<equiv> 0"
abbreviation (input) FRMTYPE_VIDEO_I :: u32 where "FRMTYPE_VIDEO_I \<equiv> 1"
abbreviation (input) FRMTYPE_VIDEO_P :: u32 where "FRMTYPE_VIDEO_P \<equiv> 2"
abbreviation (input) FRMTYPE_AUDIO :: u32 where "FRMTYPE_AUDIO \<equiv> 3"
abbreviation (input) MAX_AVPKT_SIZE :: nat where "MAX_AVPKT_SIZE \<equiv> 1024"

record t_frame_info =
  frame_type :: u32
  frame_length :: u32
  frame_num :: u32
  packet_num :: u32
  frame_rate :: u32
  time_stamp :: u32
  pkts_in_frame :: u32

text \<open>The struct as it lies in memory: seven words, no padding.\<close>

definition info_bytes :: "t_frame_info \<Rightarrow> byte list" where
  "info_bytes fi = concat (map le32
     [frame_type fi, frame_length fi, frame_num fi, packet_num fi, frame_rate fi, time_stamp fi,
      pkts_in_frame fi])"

lemma length_info_bytes [simp]: "length (info_bytes fi) = 28"
  by (simp add: info_bytes_def)

section \<open>Packetising a picture\<close>

text \<open>
  The two senders differ in the command only. \<open>fr\<close> is the stack content of \<open>frame_rate\<close>, the one
  field that is never assigned and is sent all the same; \<open>g\<close> is the stack memory of \<open>Msg\<close>.
\<close>

definition packet_info :: "u32 \<Rightarrow> int \<Rightarrow> u32 \<Rightarrow> u32 \<Rightarrow> u32 \<Rightarrow> t_frame_info" where
  "packet_info fr len fnum ts i =
     (let p0 = word_of_int (len sdiv int MAX_AVPKT_SIZE) :: u32;
          residual = word_of_int len - of_nat MAX_AVPKT_SIZE * p0;
          p = if residual \<noteq> 0 then p0 + 1 else p0
      in \<lparr>frame_type = 0, frame_length = word_of_int len, frame_num = fnum, packet_num = i,
          frame_rate = fr, time_stamp = ts, pkts_in_frame = p\<rparr>)"

definition pack_step ::
    "byte list \<Rightarrow> string \<Rightarrow> u32 \<Rightarrow> byte list \<Rightarrow> (u32 \<Rightarrow> t_frame_info) \<Rightarrow>
     nat \<times> u32 \<times> fifo_add list \<Rightarrow> nat \<Rightarrow> (nat \<times> u32 \<times> fifo_add list) res" where
  "pack_step g c channel buf info = (\<lambda>(ptr, residual, out) i.
     let pkt_len = if of_nat MAX_AVPKT_SIZE < residual then of_nat MAX_AVPKT_SIZE else residual
     in bind_res (mem_read buf ptr (unat pkt_len)) (\<lambda>data.
        bind_res (cmd_add g c
            [Attr_Int ''StreamId'' channel, Attr_Bin ''Info'' (info_bytes (info (of_nat i))),
             Attr_Bin ''Data'' data]) (\<lambda>f.
        Inr (ptr + unat pkt_len, residual - pkt_len, out @ [f]))))"

definition JPEGPacknSend2df ::
    "byte list \<Rightarrow> u32 \<Rightarrow> byte list \<Rightarrow> int \<Rightarrow> u32 \<Rightarrow> u32 \<Rightarrow> u32 \<Rightarrow> fifo_add list res" where
  "JPEGPacknSend2df g fr buf len fnum ts channel =
     (let info = packet_info fr len fnum ts
      in bind_res (fold_res (pack_step g COMMAND_EVENT_JPEG channel buf info) (0, word_of_int len, [])
                     [0 ..< unat (pkts_in_frame (info 0))]) (\<lambda>(ptr, residual, out).
         Inr out))"

definition PIPPacknSend2df ::
    "byte list \<Rightarrow> u32 \<Rightarrow> byte list \<Rightarrow> int \<Rightarrow> u32 \<Rightarrow> u32 \<Rightarrow> u32 \<Rightarrow> fifo_add list res" where
  "PIPPacknSend2df g fr buf len fnum ts channel =
     (let info = packet_info fr len fnum ts
      in bind_res (fold_res (pack_step g COMMAND_EVENT_PIP channel buf info) (0, word_of_int len, [])
                     [0 ..< unat (pkts_in_frame (info 0))]) (\<lambda>(ptr, residual, out).
         Inr out))"

section \<open>What the packets are\<close>

text \<open>The specification: slice \<open>i\<close> of the picture, and the attributes of its packet.\<close>

definition slice :: "byte list \<Rightarrow> nat \<Rightarrow> byte list" where
  "slice pic i = take MAX_AVPKT_SIZE (drop (MAX_AVPKT_SIZE * i) pic)"

definition num_pkts :: "nat \<Rightarrow> nat" where
  "num_pkts n = (n + (MAX_AVPKT_SIZE - 1)) div MAX_AVPKT_SIZE"

definition packet_calls :: "u32 \<Rightarrow> (nat \<Rightarrow> t_frame_info) \<Rightarrow> byte list \<Rightarrow> nat \<Rightarrow> attr_call list" where
  "packet_calls channel info pic i =
     [Attr_Int ''StreamId'' channel, Attr_Bin ''Info'' (info_bytes (info i)),
      Attr_Bin ''Data'' (slice pic i)]"

lemma length_slice_le: "length (slice pic i) \<le> MAX_AVPKT_SIZE"
  by (simp add: slice_def)

lemma concat_slices: "concat (map (slice pic) [0 ..< k]) = take (MAX_AVPKT_SIZE * k) pic"
proof (induction k)
  case (Suc k)
  have "take (1024 * Suc k) pic = take (1024 * k) pic @ take 1024 (drop (1024 * k) pic)"
    by (metis mult_Suc_right take_add add.commute)
  then show ?case using Suc by (simp add: slice_def)
qed simp

lemma num_pkts_covers: "length pic \<le> MAX_AVPKT_SIZE * num_pkts (length pic)"
  unfolding num_pkts_def by simp

lemma num_pkts_le: "1024 * num_pkts n \<le> n + 1023"
  unfolding num_pkts_def by simp

lemma packet_short:
  assumes "length c = 4"
  shows "short_msg (c, packet_calls channel info pic i)"
proof -
  let ?as = "map call_attr (packet_calls channel info pic i)"
  have "length (sprintf_x 1 (unat channel)) \<le> 8" by (rule length_sprintf_u32)
  then have sh: "\<forall>a\<in>set ?as. short_attr a"
    using length_slice_le [of pic i] by (auto simp: packet_calls_def short_attr_def)
  then have "length (encode_attrs ?as) = 15 + 8 + 4 + 4 + length (sprintf_x 1 (unat channel)) + 28
      + length (slice pic i)"
    by (simp add: packet_calls_def length_encode_attr del: encode_attr.simps)
  then show ?thesis
    using assms sh \<open>length (sprintf_x 1 (unat channel)) \<le> 8\<close> length_slice_le [of pic i]
    by (simp add: short_msg_def)
qed

lemma unat_of_nat_2p31: "n < 2147483648 \<Longrightarrow> unat (of_nat n :: u32) = n"
  by (simp add: unat_of_nat take_bit_nat_eq_self)

lemma pkt_len_eq:
  assumes "m < 2147483648"
  shows "(if of_nat MAX_AVPKT_SIZE < (of_nat m :: u32) then of_nat MAX_AVPKT_SIZE else of_nat m)
    = (of_nat (min MAX_AVPKT_SIZE m) :: u32)"
  using assms unat_of_nat_2p31 [of m] by (auto simp: word_less_nat_alt min_def)

lemma pack_step_slice:
  assumes "length g = CMD_BUFSIZE" and "length c = 4" and "length pic < 2147483648"
    and "MAX_AVPKT_SIZE * i < length pic"
  shows "pack_step g c channel pic info (1024 * i, of_nat (length pic - 1024 * i), out) i
       = Inr (min (length pic) (1024 * Suc i), of_nat (length pic - 1024 * Suc i),
              out @ [msg_of (c, packet_calls channel (\<lambda>i. info (of_nat i)) pic i)])"
proof -
  let ?m = "min 1024 (length pic - 1024 * i)"
  have u: "unat (of_nat ?m :: u32) = ?m" using assms by (intro unat_of_nat_2p31) auto
  have len: "(if of_nat 1024 < (of_nat (length pic - 1024 * i) :: u32) then of_nat 1024
      else of_nat (length pic - 1024 * i)) = (of_nat ?m :: u32)"
    using assms by (intro pkt_len_eq) auto
  have rd: "mem_read pic (1024 * i) ?m = Inr (slice pic i)"
    using assms by (auto simp: mem_read_def slice_def min_def)
  have add: "cmd_add g c (packet_calls channel (\<lambda>i. info (of_nat i)) pic i)
      = Inr (msg_of (c, packet_calls channel (\<lambda>i. info (of_nat i)) pic i))"
    by (intro cmd_add_short packet_short assms)
  have res: "(of_nat (length pic - 1024 * i) :: u32) - of_nat ?m = of_nat (length pic - 1024 * Suc i)"
    using assms by (auto simp: min_def add.commute simp flip: of_nat_diff)
  have ptr: "1024 * i + ?m = min (length pic) (1024 * Suc i)"
    using assms by auto
  show ?thesis
    unfolding pack_step_def prod.case len Let_def u rd bind_res.simps
      add [unfolded packet_calls_def] res ptr by (simp add: packet_calls_def)
qed

lemma fold_pack:
  assumes "length g = CMD_BUFSIZE" and "length c = 4" and "length pic < 2147483648"
    and "k \<le> num_pkts (length pic)"
  shows "fold_res (pack_step g c channel pic info) (0, of_nat (length pic), []) [0 ..< k]
       = Inr (min (length pic) (1024 * k), of_nat (length pic - 1024 * k),
              map (\<lambda>i. msg_of (c, packet_calls channel (\<lambda>i. info (of_nat i)) pic i)) [0 ..< k])"
  using assms(4)
proof (induction k)
  case 0
  then show ?case by simp
next
  case (Suc k)
  then have lt: "1024 * k < length pic" using num_pkts_le [of "length pic"] by simp
  then have m: "min (length pic) (1024 * k) = 1024 * k" by simp
  show ?case
    using Suc pack_step_slice [OF assms(1-3) lt] m
    by (simp add: fold_res_append)
qed

lemma pkts_in_frame_eq:
  assumes "n < 2147483648"
  shows "unat (pkts_in_frame (packet_info fr (int n) fnum ts i)) = num_pkts n"
proof -
  have q: "n div 1024 + 1 < 2147483648" and d: "1024 * (n div 1024) \<le> n" using assms by auto
  have p0: "word_of_int (int n sdiv 1024) = (of_nat (n div 1024) :: u32)"
    by (simp add: signed_divide_int_def zdiv_int [symmetric, of n 1024, simplified])
  have "(of_nat n :: u32) - 1024 * of_nat (n div 1024) = of_nat (n - 1024 * (n div 1024))"
    using d by (simp add: of_nat_diff)
  also have "n - 1024 * (n div 1024) = n mod 1024" by (simp add: minus_mult_div_eq_mod)
  finally have r: "(of_nat n :: u32) - 1024 * of_nat (n div 1024) = of_nat (n mod 1024)" .
  have "unat (of_nat (n mod 1024) :: u32) = n mod 1024"
    using mod_less_divisor [of 1024 n] by (intro unat_of_nat_2p31) linarith
  then have rz: "((of_nat (n mod 1024) :: u32) \<noteq> 0) = (n mod 1024 \<noteq> 0)"
    by (metis of_nat_0 unsigned_eq_0_iff)
  have np: "num_pkts n = n div 1024 + (if n mod 1024 = 0 then 0 else 1)"
  proof -
    have "(n mod 1024 + 1023 + (n div 1024) * 1024) div 1024 = n div 1024 + (n mod 1024 + 1023) div 1024"
      by (rule div_mult_self1) simp
    moreover have "n mod 1024 + 1023 + (n div 1024) * 1024 = n + 1023"
      using div_mult_mod_eq [of n 1024] by linarith
    ultimately have "num_pkts n = n div 1024 + (n mod 1024 + 1023) div 1024"
      unfolding num_pkts_def by simp
    moreover have "(n mod 1024 + 1023) div 1024 = (if n mod 1024 = 0 then 0 else 1)"
      using mod_less_divisor [of 1024 n] by (auto intro!: div_nat_eqI)
    ultimately show ?thesis by simp
  qed
  have "pkts_in_frame (packet_info fr (int n) fnum ts i)
      = (if n mod 1024 \<noteq> 0 then of_nat (n div 1024) + 1 else of_nat (n div 1024))"
    unfolding packet_info_def Let_def using p0 r rz by simp
  also have "\<dots> = of_nat (num_pkts n)" by (simp add: np)
  finally show ?thesis
    using q unat_of_nat_2p31 [of "num_pkts n"] by (simp add: np)
qed

lemma packn_correct:
  assumes "length g = CMD_BUFSIZE" and "length pic < 2147483648"
    and info: "info = packet_info fr (int (length pic)) fnum ts"
  shows "JPEGPacknSend2df g fr pic (int (length pic)) fnum ts channel
       = Inr (map (\<lambda>i. msg_of (COMMAND_EVENT_JPEG, packet_calls channel (\<lambda>i. info (of_nat i)) pic i))
                [0 ..< num_pkts (length pic)])"
    and "PIPPacknSend2df g fr pic (int (length pic)) fnum ts channel
       = Inr (map (\<lambda>i. msg_of (COMMAND_EVENT_PIP, packet_calls channel (\<lambda>i. info (of_nat i)) pic i))
                [0 ..< num_pkts (length pic)])"
  using fold_pack [OF assms(1) _ assms(2) order.refl, of _ channel info]
    pkts_in_frame_eq [OF assms(2), of fr fnum ts 0]
  by (simp_all add: JPEGPacknSend2df_def PIPPacknSend2df_def flip: info)

section \<open>Properties\<close>

text \<open>
  \<^verbatim>\<open>JPEGPacknSend2df\<close> cuts a picture into the ceiling of its length over 1024 messages; each is a
  well formed frame of at most 1536 bytes that carries the descriptor and the next slice, and
  the slices put together are the picture.
\<close>

theorem jpeg_packets:
  assumes "length g = CMD_BUFSIZE" and "length pic < 2147483648"
  shows "\<exists>calls. JPEGPacknSend2df g fr pic (int (length pic)) fnum ts channel
        = Inr (map (\<lambda>cs. msg_of (COMMAND_EVENT_JPEG, cs)) calls) \<and>
      length calls = num_pkts (length pic) \<and>
      (\<forall>cs\<in>set calls. short_msg (COMMAND_EVENT_JPEG, cs)) \<and>
      (\<forall>i<length calls. calls ! i =
         [Attr_Int ''StreamId'' channel,
          Attr_Bin ''Info'' (info_bytes (packet_info fr (int (length pic)) fnum ts (of_nat i))),
          Attr_Bin ''Data'' (slice pic i)]) \<and>
      concat (map (slice pic) [0 ..< length calls]) = pic"
proof -
  let ?info = "\<lambda>i. packet_info fr (int (length pic)) fnum ts (of_nat i)"
  let ?calls = "map (packet_calls channel ?info pic) [0 ..< num_pkts (length pic)]"
  have "JPEGPacknSend2df g fr pic (int (length pic)) fnum ts channel
      = Inr (map (\<lambda>cs. msg_of (COMMAND_EVENT_JPEG, cs)) ?calls)"
    using packn_correct(1) [OF assms refl] by (simp add: comp_def)
  moreover have "\<forall>cs\<in>set ?calls. short_msg (COMMAND_EVENT_JPEG, cs)"
    by (auto intro: packet_short)
  moreover have "concat (map (slice pic) [0 ..< num_pkts (length pic)]) = pic"
    using num_pkts_covers [of pic] by (simp add: concat_slices)
  ultimately show ?thesis
    by (intro exI [of _ ?calls]) (simp add: packet_calls_def)
qed

theorem jpeg_packets_witness:
  "\<exists>calls. JPEGPacknSend2df (replicate CMD_BUFSIZE NUL) 25 (replicate 1025 (CHR ''p'')) 1025 7 40 3
      = Inr (map (\<lambda>cs. msg_of (COMMAND_EVENT_JPEG, cs)) calls) \<and> length calls = 2"
proof -
  have "num_pkts 1025 = 2" by (simp add: num_pkts_def)
  then show ?thesis
    using jpeg_packets [of "replicate CMD_BUFSIZE NUL" "replicate 1025 (CHR ''p'')" 25 7 40 3]
    by auto
qed

end
