(* ===== verification/Core_Devices.thy ===== *)
theory Core_Devices
  imports Av_Packets
begin

text \<open>
  The connections to the core boards (\<^verbatim>\<open>recbcsrv/recbc_srv.c\<close>): \<^verbatim>\<open>DevAMsgHandle\<close>,
  \<^verbatim>\<open>DevBCMsgHandle\<close> and \<^verbatim>\<open>DevDMsgHandle\<close> take the media packets, events and camera bytes of a
  board and add them to the fifos of the process. The lemmas state what each message kind adds
  where, and that the packets of a picture arrive as consecutive pieces with the first and the
  last one marked.
\<close>

section \<open>The fifos of the board threads\<close>

datatype core_fifo =
    Vstore_producer_fifo | Vlive_producer_fifo | Audio_producer_fifo
  | ImgM_producer_fifo | ImgV_producer_fifo
  | V1_producer_fifo | V2_producer_fifo | Img1_producer_fifo | Img2_producer_fifo
  | Event_producer_fifo | UART_RX_producer_fifo_1 | UART_RX_producer_fifo_2

text \<open>
  The locals of an attribute loop: \<open>channel\<close>, the memory of \<open>frame_info\<close> (\<open>None\<close> for a byte nobody
  has written; the variable is declared inside the loop body and the code relies on its keeping
  its value between the \<open>Info\<close> and the \<open>Data\<close> attribute), and the calls of
  \<^verbatim>\<open>datafifo_producer_data_add\<close> so far. Their return values are only printed.
\<close>

record dev_rx =
  rx_channel :: u32
  rx_info :: "byte option list"
  rx_adds :: "(core_fifo \<times> fifo_add) list"

abbreviation (input) dev_rx_init :: dev_rx where
  "dev_rx_init \<equiv> \<lparr>rx_channel = 0, rx_info = replicate 28 None, rx_adds = []\<rparr>"

definition dev_add :: "core_fifo \<Rightarrow> byte list \<Rightarrow> u32 \<Rightarrow> u32 \<Rightarrow> dev_rx \<Rightarrow> dev_rx" where
  "dev_add df data flags ts s =
     s\<lparr>rx_adds := rx_adds s @ [(df, \<lparr>fa_data = data, fa_flags = flags, fa_timestamp = ts\<rparr>)]\<rparr>"

text \<open>\<open>memcpy(&frame_info, attr_value, value_len)\<close> into 28 bytes.\<close>

definition copy_info :: "byte list \<Rightarrow> dev_rx \<Rightarrow> dev_rx res" where
  "copy_info value s =
     (if length (rx_info s) < length value then Inl Buffer_Overflow
      else Inr (s\<lparr>rx_info := map Some value @ drop (length value) (rx_info s)\<rparr>))"

text \<open>Word \<open>k\<close> of \<open>frame_info\<close>.\<close>

definition info_word :: "nat \<Rightarrow> dev_rx \<Rightarrow> u32 res" where
  "info_word k s =
     (let bs = take 4 (drop (4 * k) (rx_info s))
      in if None \<in> set bs then Inl Uninitialised else Inr (rd32 (map the bs)))"

abbreviation (input) "info_frame_type \<equiv> info_word 0"
abbreviation (input) "info_frame_num \<equiv> info_word 2"
abbreviation (input) "info_packet_num \<equiv> info_word 3"
abbreviation (input) "info_time_stamp \<equiv> info_word 5"
abbreviation (input) "info_pkts_in_frame \<equiv> info_word 6"

section \<open>Flags of a packet\<close>

text \<open>The first packet of a frame, the first frame of a stream.\<close>

definition start_flags :: "dev_rx \<Rightarrow> u32 \<Rightarrow> u32 res" where
  "start_flags s flags =
     bind_res (info_packet_num s) (\<lambda>pn.
     if pn = 0 then
       bind_res (info_frame_num s) (\<lambda>fn.
       Inr (if fn = 0 then (flags OR FRAME_FLAG_NEWFRAME) OR FRAME_FLAG_FIRSTFRAME
            else flags OR FRAME_FLAG_NEWFRAME))
     else Inr flags)"

text \<open>The last packet; \<open>pkts_in_frame-1\<close> is unsigned.\<close>

definition end_flags :: "dev_rx \<Rightarrow> u32 \<Rightarrow> u32 res" where
  "end_flags s flags =
     bind_res (info_packet_num s) (\<lambda>pn.
     bind_res (info_pkts_in_frame s) (\<lambda>pif.
     Inr (if pn = pif - 1 then flags OR FRAME_FLAG_FRAMEEND else flags)))"

definition uci_flags :: "dev_rx \<Rightarrow> u32 res" where
  "uci_flags s = bind_res (start_flags s 0) (end_flags s)"

definition key_flags :: "dev_rx \<Rightarrow> u32 \<Rightarrow> u32 \<Rightarrow> u32 res" where
  "key_flags s ft flags =
     bind_res (info_packet_num s) (\<lambda>pn.
     Inr (if pn = 0 \<and> (ft = FRMTYPE_VIDEO_I \<or> ft = FRMTYPE_VIDEO_IDR)
          then flags OR FRAME_FLAG_KEYFRAME else flags))"

definition av_flags :: "dev_rx \<Rightarrow> u32 res" where
  "av_flags s =
     bind_res (info_frame_type s) (\<lambda>ft.
     if ft = FRMTYPE_AUDIO then
       bind_res (start_flags s FRAME_FLAG_AUDIOFRM) (end_flags s)
     else
       bind_res (start_flags s 0) (\<lambda>f1.
       bind_res (key_flags s ft f1) (end_flags s)))"

section \<open>The attribute loops\<close>

text \<open>\<^verbatim>\<open>COMMAND_EVENT_UCI\<close>: images for the analysis; \<open>df1\<close> and \<open>df0\<close> are the fifos of the channels.\<close>

definition uci_attr ::
    "core_fifo \<Rightarrow> core_fifo \<Rightarrow> dev_rx \<Rightarrow> byte list \<Rightarrow> byte list \<Rightarrow> dev_rx res" where
  "uci_attr df1 df0 s name value = (let attr_name = c_str name; attr_value = c_str value in
     if attr_name = ''Info'' then copy_info value s
     else if attr_name = ''StreamId'' then
       Inr (s\<lparr>rx_channel := if attr_value = ''00'' then 0 else 1\<rparr>)
     else if attr_name = ''Data'' then
       bind_res (uci_flags s) (\<lambda>flags.
       Inr (dev_add (if rx_channel s \<noteq> 0 then df1 else df0) value flags 0 s))
     else Inr s)"

text \<open>\<^verbatim>\<open>COMMAND_GETDATA_ACK\<close>: encoded audio and video; \<open>audio = None\<close> when the board has none.\<close>

definition av_attr ::
    "core_fifo option \<Rightarrow> core_fifo \<Rightarrow> core_fifo \<Rightarrow> dev_rx \<Rightarrow> byte list \<Rightarrow> byte list \<Rightarrow> dev_rx res" where
  "av_attr audio df1 df0 s name value = (let attr_name = c_str name; attr_value = c_str value in
     if attr_name = ''StreamId'' then
       Inr (s\<lparr>rx_channel := if attr_value = ''00'' then 0 else 1\<rparr>)
     else if attr_name = ''Info'' then copy_info value s
     else if attr_name = ''Data'' then
       bind_res (av_flags s) (\<lambda>flags.
       if flags AND FRAME_FLAG_AUDIOFRM \<noteq> 0 then
         (case audio of
            Some df \<Rightarrow> bind_res (info_time_stamp s) (\<lambda>ts. Inr (dev_add df value flags ts s))
          | None \<Rightarrow> Inr s)
       else
         bind_res (info_time_stamp s) (\<lambda>ts.
         Inr (dev_add (if rx_channel s = 0 then df0 else df1) value flags ts s)))
     else Inr s)"

text \<open>\<^verbatim>\<open>COMMAND_BYP_RSP\<close>: the bytes of the camera UARTs, one fifo entry per byte.\<close>

definition byp_attr :: "dev_rx \<Rightarrow> byte list \<Rightarrow> byte list \<Rightarrow> dev_rx res" where
  "byp_attr s name value = (let attr_name = c_str name; attr_value = c_str value in
     if attr_name = ''Channel'' then
       Inr (s\<lparr>rx_channel := if attr_value = ''0'' then 0 else 1\<rparr>)
     else if attr_name = ''RawBytes'' then
       (let df = if rx_channel s \<noteq> 0 then UART_RX_producer_fifo_2 else UART_RX_producer_fifo_1
        in Inr (foldl (\<lambda>s b. dev_add df [b] WHOLE_FRAME 0 s) s value))
     else Inr s)"

section \<open>The handlers\<close>

text \<open>An event is passed on as it is, with the length of its header.\<close>

definition forward_event :: "byte list \<Rightarrow> u32 \<Rightarrow> (core_fifo \<times> fifo_add) list res" where
  "forward_event Msg len =
     bind_res (mem_read Msg 0 (unat (len + of_nat PACKET_HEADER_SIZE))) (\<lambda>bytes.
     Inr (rx_adds (dev_add Event_producer_fifo bytes WHOLE_FRAME 0 dev_rx_init)))"

definition dev_loop ::
    "byte list \<Rightarrow> u32 \<Rightarrow> (dev_rx \<Rightarrow> byte list \<Rightarrow> byte list \<Rightarrow> dev_rx res) \<Rightarrow>
     (core_fifo \<times> fifo_add) list res" where
  "dev_loop Msg len body =
     bind_res (scan_attrs 16 1536 Msg body len PACKET_HEADER_SIZE dev_rx_init) (\<lambda>s. Inr (rx_adds s))"

definition DevA_uci_attr :: "dev_rx \<Rightarrow> byte list \<Rightarrow> byte list \<Rightarrow> dev_rx res" where
  "DevA_uci_attr = uci_attr ImgM_producer_fifo ImgV_producer_fifo"

definition DevA_av_attr :: "dev_rx \<Rightarrow> byte list \<Rightarrow> byte list \<Rightarrow> dev_rx res" where
  "DevA_av_attr = av_attr (Some Audio_producer_fifo) Vlive_producer_fifo Vstore_producer_fifo"

definition DevAMsgHandle :: "byte list \<Rightarrow> (core_fifo \<times> fifo_add) list res" where
  "DevAMsgHandle Msg =
     bind_res (msg_command Msg) (\<lambda>cmd.
     bind_res (msg_len Msg) (\<lambda>len.
     if cmd = COMMAND_EVENT_UCI then dev_loop Msg len DevA_uci_attr
     else if cmd = COMMAND_GETDATA_ACK then dev_loop Msg len DevA_av_attr
     else if cmd = COMMAND_EVENT_VID \<or> cmd = COMMAND_EVENT_VGA \<or> cmd = COMMAND_EVENT_AUX then
       forward_event Msg len
     else if cmd = COMMAND_BYP_RSP then dev_loop Msg len byp_attr
     else Inr []))"

definition DevBC_uci_attr :: "dev_rx \<Rightarrow> byte list \<Rightarrow> byte list \<Rightarrow> dev_rx res" where
  "DevBC_uci_attr = uci_attr Img2_producer_fifo Img1_producer_fifo"

definition DevBC_av_attr :: "dev_rx \<Rightarrow> byte list \<Rightarrow> byte list \<Rightarrow> dev_rx res" where
  "DevBC_av_attr = av_attr None V2_producer_fifo V1_producer_fifo"

definition DevBC_byp_attr :: "dev_rx \<Rightarrow> byte list \<Rightarrow> byte list \<Rightarrow> dev_rx res" where
  "DevBC_byp_attr = byp_attr"

definition DevBCMsgHandle :: "byte list \<Rightarrow> (core_fifo \<times> fifo_add) list res" where
  "DevBCMsgHandle Msg =
     bind_res (msg_command Msg) (\<lambda>cmd.
     bind_res (msg_len Msg) (\<lambda>len.
     if cmd = COMMAND_EVENT_UCI then dev_loop Msg len DevBC_uci_attr
     else if cmd = COMMAND_GETDATA_ACK then dev_loop Msg len DevBC_av_attr
     else if cmd = COMMAND_EVENT_VID \<or> cmd = COMMAND_EVENT_VGA \<or> cmd = COMMAND_EVENT_AUX then
       forward_event Msg len
     else if cmd = COMMAND_BYP_RSP then dev_loop Msg len DevBC_byp_attr
     else Inr []))"

definition DevD_uci_attr :: "dev_rx \<Rightarrow> byte list \<Rightarrow> byte list \<Rightarrow> dev_rx res" where
  "DevD_uci_attr = uci_attr Img2_producer_fifo Img1_producer_fifo"

definition DevD_av_attr :: "dev_rx \<Rightarrow> byte list \<Rightarrow> byte list \<Rightarrow> dev_rx res" where
  "DevD_av_attr = av_attr None V2_producer_fifo V1_producer_fifo"

definition DevDMsgHandle :: "byte list \<Rightarrow> (core_fifo \<times> fifo_add) list res" where
  "DevDMsgHandle Msg =
     bind_res (msg_command Msg) (\<lambda>cmd.
     bind_res (msg_len Msg) (\<lambda>len.
     if cmd = COMMAND_EVENT_UCI then dev_loop Msg len DevD_uci_attr
     else if cmd = COMMAND_GETDATA_ACK then dev_loop Msg len DevD_av_attr
     else if cmd = COMMAND_EVENT_VID \<or> cmd = COMMAND_EVENT_VGA \<or> cmd = COMMAND_EVENT_AUX then
       forward_event Msg len
     else Inr []))"

section \<open>What one packet adds\<close>

text \<open>The flags a packet should carry, from its descriptor.\<close>

definition pkt_flags :: "t_frame_info \<Rightarrow> u32" where
  "pkt_flags fi =
     (if packet_num fi = 0 then
        (if frame_num fi = 0 then FRAME_FLAG_NEWFRAME OR FRAME_FLAG_FIRSTFRAME else FRAME_FLAG_NEWFRAME)
      else 0) OR
     (if packet_num fi = pkts_in_frame fi - 1 then FRAME_FLAG_FRAMEEND else 0)"

definition av_pkt_flags :: "t_frame_info \<Rightarrow> u32" where
  "av_pkt_flags fi =
     pkt_flags fi OR
     (if frame_type fi = FRMTYPE_AUDIO then FRAME_FLAG_AUDIOFRM
      else if packet_num fi = 0 \<and> (frame_type fi = FRMTYPE_VIDEO_I \<or> frame_type fi = FRMTYPE_VIDEO_IDR)
      then FRAME_FLAG_KEYFRAME else 0)"

definition packet_attrs :: "string \<Rightarrow> t_frame_info \<Rightarrow> byte list \<Rightarrow> (string \<times> byte list) list" where
  "packet_attrs sid fi data = [(''StreamId'', sid), (''Info'', info_bytes fi), (''Data'', data)]"

lemma packet_attrs_fits:
  assumes "length sid < 1000" and "length data \<le> MAX_AVPKT_SIZE"
  shows "\<forall>a\<in>set (packet_attrs sid fi data). fits 16 1536 a"
    and "length (encode_attrs (packet_attrs sid fi data)) < 65536"
proof -
  show f: "\<forall>a\<in>set (packet_attrs sid fi data). fits 16 1536 a"
    using assms by (auto simp: packet_attrs_def fits_def short_attr_def)
  show "length (encode_attrs (packet_attrs sid fi data)) < 65536"
    using f assms by (simp add: packet_attrs_def fits_def length_encode_attr del: encode_attr.simps)
qed

lemma info_words:
  assumes "rx_info s = map Some (info_bytes fi)"
  shows "info_frame_type s = Inr (frame_type fi)" and "info_frame_num s = Inr (frame_num fi)"
    and "info_packet_num s = Inr (packet_num fi)" and "info_time_stamp s = Inr (time_stamp fi)"
    and "info_pkts_in_frame s = Inr (pkts_in_frame fi)"
  using assms by (auto simp: info_word_def info_bytes_def Let_def take_map drop_map comp_def)

lemma flags_of_info:
  assumes "rx_info s = map Some (info_bytes fi)"
  shows "uci_flags s = Inr (pkt_flags fi)" and "av_flags s = Inr (av_pkt_flags fi)"
  unfolding uci_flags_def av_flags_def start_flags_def end_flags_def key_flags_def
    info_words [OF assms] bind_res.simps pkt_flags_def av_pkt_flags_def
  by auto

lemma audio_bit:
  "av_pkt_flags fi AND FRAME_FLAG_AUDIOFRM \<noteq> 0 \<longleftrightarrow> frame_type fi = FRMTYPE_AUDIO"
  by (simp add: av_pkt_flags_def pkt_flags_def)

lemma c_str_packet_names [simp]:
  "c_str ''StreamId'' = ''StreamId''" "c_str ''Info'' = ''Info''" "c_str ''Data'' = ''Data''"
  by (simp_all add: c_str_def)

definition sid_channel :: "string \<Rightarrow> u32" where
  "sid_channel sid = (if c_str sid = ''00'' then 0 else 1)"

lemma fold_packet:
  assumes "rx_info s = replicate 28 None"
  shows "fold_res (\<lambda>s (n, v). uci_attr df1 df0 s n v) s (packet_attrs sid fi data)
     = Inr (dev_add (if sid_channel sid = 0 then df0 else df1) data (pkt_flags fi) 0
         (s\<lparr>rx_channel := sid_channel sid, rx_info := map Some (info_bytes fi)\<rparr>))"
    and "fold_res (\<lambda>s (n, v). av_attr audio df1 df0 s n v) s (packet_attrs sid fi data)
     = Inr (let s' = s\<lparr>rx_channel := sid_channel sid, rx_info := map Some (info_bytes fi)\<rparr>
         in if frame_type fi = FRMTYPE_AUDIO
            then (case audio of Some df \<Rightarrow> dev_add df data (av_pkt_flags fi) (time_stamp fi) s' | None \<Rightarrow> s')
            else dev_add (if sid_channel sid = 0 then df0 else df1) data (av_pkt_flags fi) (time_stamp fi) s')"
proof -
  let ?s = "s\<lparr>rx_channel := sid_channel sid, rx_info := map Some (info_bytes fi)\<rparr>"
  have c: "copy_info (info_bytes fi) (s\<lparr>rx_channel := sid_channel sid\<rparr>) = Inr ?s"
    using assms by (simp add: copy_info_def)
  have f: "uci_flags ?s = Inr (pkt_flags fi)" "av_flags ?s = Inr (av_pkt_flags fi)"
    "info_time_stamp ?s = Inr (time_stamp fi)"
    by (simp_all add: flags_of_info info_words)
  have ch: "sid_channel sid = 0 \<or> sid_channel sid = 1" by (simp add: sid_channel_def)
  show "fold_res (\<lambda>s (n, v). uci_attr df1 df0 s n v) s (packet_attrs sid fi data)
     = Inr (dev_add (if sid_channel sid = 0 then df0 else df1) data (pkt_flags fi) 0 ?s)"
    using c f(1) unfolding sid_channel_def [symmetric]
    by (simp add: packet_attrs_def uci_attr_def flip: sid_channel_def)
  show "fold_res (\<lambda>s (n, v). av_attr audio df1 df0 s n v) s (packet_attrs sid fi data)
     = Inr (let s' = ?s
         in if frame_type fi = FRMTYPE_AUDIO
            then (case audio of Some df \<Rightarrow> dev_add df data (av_pkt_flags fi) (time_stamp fi) s' | None \<Rightarrow> s')
            else dev_add (if sid_channel sid = 0 then df0 else df1) data (av_pkt_flags fi) (time_stamp fi) s')"
    using c f(2,3) audio_bit [of fi]
    by (cases audio) (simp_all add: packet_attrs_def av_attr_def Let_def flip: sid_channel_def)
qed

lemma dev_loop_packet:
  assumes "length c = 4" and "length sid < 1000" and "length data \<le> MAX_AVPKT_SIZE"
  shows "dev_loop (make_msg c (packet_attrs sid fi data) @ rest)
      (of_nat (length (encode_attrs (packet_attrs sid fi data)))) body
    = bind_res (fold_res (\<lambda>s (n, v). body s n v) dev_rx_init (packet_attrs sid fi data)) (\<lambda>s. Inr (rx_adds s))"
  using scan_make_msg [OF assms(1) packet_attrs_fits [OF assms(2,3)], of fi rest body dev_rx_init]
    msg_len_make_msg [OF assms(1) packet_attrs_fits(2) [OF assms(2,3)], of fi rest]
  by (simp add: dev_loop_def scan_msg_def)

definition fifo_piece :: "byte list \<Rightarrow> u32 \<Rightarrow> u32 \<Rightarrow> fifo_add" where
  "fifo_piece data flags ts = \<lparr>fa_data = data, fa_flags = flags, fa_timestamp = ts\<rparr>"

lemma handler_packet:
  assumes "length sid < 1000" and "length data \<le> MAX_AVPKT_SIZE"
    and m_def: "m = (\<lambda>c. make_msg c (packet_attrs sid fi data) @ rest)"
    and ch_def: "ch = (\<lambda>df0 df1. if sid_channel sid = 0 then df0 else (df1 :: core_fifo))"
  shows "DevAMsgHandle (m COMMAND_EVENT_UCI)
      = Inr [(ch ImgV_producer_fifo ImgM_producer_fifo, fifo_piece data (pkt_flags fi) 0)]"
    and "DevBCMsgHandle (m COMMAND_EVENT_UCI)
      = Inr [(ch Img1_producer_fifo Img2_producer_fifo, fifo_piece data (pkt_flags fi) 0)]"
    and "DevDMsgHandle (m COMMAND_EVENT_UCI)
      = Inr [(ch Img1_producer_fifo Img2_producer_fifo, fifo_piece data (pkt_flags fi) 0)]"
    and "DevAMsgHandle (m COMMAND_GETDATA_ACK)
      = Inr [(if frame_type fi = FRMTYPE_AUDIO then Audio_producer_fifo
              else ch Vstore_producer_fifo Vlive_producer_fifo,
              fifo_piece data (av_pkt_flags fi) (time_stamp fi))]"
    and "DevBCMsgHandle (m COMMAND_GETDATA_ACK)
      = Inr (if frame_type fi = FRMTYPE_AUDIO then []
             else [(ch V1_producer_fifo V2_producer_fifo, fifo_piece data (av_pkt_flags fi) (time_stamp fi))])"
    and "DevDMsgHandle (m COMMAND_GETDATA_ACK)
      = Inr (if frame_type fi = FRMTYPE_AUDIO then []
             else [(ch V1_producer_fifo V2_producer_fifo, fifo_piece data (av_pkt_flags fi) (time_stamp fi))])"
  using msg_len_make_msg [OF _ packet_attrs_fits(2) [OF assms(1,2)], of _ fi rest]
    dev_loop_packet [OF _ assms(1,2), of _ fi rest]
  by (simp_all add: m_def ch_def DevAMsgHandle_def DevBCMsgHandle_def DevDMsgHandle_def
      msg_command_make_msg c_str_def DevA_uci_attr_def DevBC_uci_attr_def DevD_uci_attr_def
      DevA_av_attr_def DevBC_av_attr_def DevD_av_attr_def fold_packet dev_add_def fifo_piece_def Let_def)

lemma pkt_flags_packet_info:
  assumes "length pic < 2147483648" and "i < num_pkts (length pic)"
  shows "pkt_flags (packet_info fr (int (length pic)) fnum ts (of_nat i)) =
    (if i = 0 then (if fnum = 0 then FRAME_FLAG_NEWFRAME OR FRAME_FLAG_FIRSTFRAME else FRAME_FLAG_NEWFRAME)
     else 0) OR (if Suc i = num_pkts (length pic) then FRAME_FLAG_FRAMEEND else 0)"
proof -
  let ?n = "num_pkts (length pic)" and ?info = "packet_info fr (int (length pic)) fnum ts (of_nat i)"
  have n: "?n < 2147483648" using num_pkts_le [of "length pic"] assms(1) by simp
  have p: "pkts_in_frame ?info = of_nat ?n"
    using pkts_in_frame_eq [OF assms(1), of fr fnum ts "of_nat i"] by (simp add: word_unat_eq_iff
      unat_of_nat_2p31 [OF n])
  have i: "unat (of_nat i :: u32) = i"
    by (rule unat_of_nat_2p31) (use n assms(2) in linarith)
  have n1: "unat (of_nat (?n - 1) :: u32) = ?n - 1"
    by (rule unat_of_nat_2p31) (use n in linarith)
  have z: "((of_nat i :: u32) = 0) = (i = 0)"
    by (simp only: word_unat_eq_iff i unat_0)
  have "(of_nat ?n :: u32) - 1 = of_nat (?n - 1)" using assms(2) by (simp add: of_nat_diff)
  then have "((of_nat i :: u32) = of_nat ?n - 1) = (i = ?n - 1)"
    by (simp only: word_unat_eq_iff i n1)
  then have e: "((of_nat i :: u32) = of_nat ?n - 1) = (Suc i = ?n)"
    using assms(2) by auto
  have f: "packet_num ?info = of_nat i" "frame_num ?info = fnum"
    by (simp_all add: packet_info_def Let_def)
  show ?thesis unfolding pkt_flags_def p f z e by (rule refl)
qed

section \<open>Properties\<close>

text \<open>
  The packets of a picture that a core board sends for analysis are added, in order and
  unchanged, to one image fifo; together they are the picture, exactly the first one opens a frame
  (and a stream, when it is frame number 0) and exactly the last one closes it.
\<close>

theorem device_picture:
  assumes "length sid < 1000" and "length pic < 2147483648"
  shows "map (\<lambda>i. DevAMsgHandle (make_msg COMMAND_EVENT_UCI
             (packet_attrs sid (packet_info fr (int (length pic)) fnum ts (of_nat i)) (slice pic i)) @ rest i))
           [0 ..< num_pkts (length pic)]
       = map (\<lambda>i. Inr [(if sid_channel sid = 0 then ImgV_producer_fifo else ImgM_producer_fifo,
             fifo_piece (slice pic i)
               ((if i = 0 then (if fnum = 0 then FRAME_FLAG_NEWFRAME OR FRAME_FLAG_FIRSTFRAME
                                else FRAME_FLAG_NEWFRAME) else 0)
                OR (if Suc i = num_pkts (length pic) then FRAME_FLAG_FRAMEEND else 0)) 0)])
           [0 ..< num_pkts (length pic)] \<and>
     concat (map (slice pic) [0 ..< num_pkts (length pic)]) = pic"
  using handler_packet(1) [OF assms(1) length_slice_le refl refl] pkt_flags_packet_info [OF assms(2)]
    num_pkts_covers [of pic] by (auto simp: concat_slices)

theorem device_picture_witness:
  "DevAMsgHandle (make_msg COMMAND_EVENT_UCI (packet_attrs ''00'' (packet_info 25 1 0 40 0) ''p'') @ ''next'')
   = Inr [(ImgV_producer_fifo, fifo_piece ''p'' (FRAME_FLAG_NEWFRAME OR FRAME_FLAG_FIRSTFRAME OR FRAME_FLAG_FRAMEEND) 0)]"
  using device_picture [of "''00''" "''p''" 25 0 40 "\<lambda>_. ''next''"]
  by (simp add: num_pkts_def slice_def sid_channel_def c_str_def or.assoc)

text \<open>
  An encoded packet of board A goes to the audio fifo when its descriptor says audio, otherwise
  to the storage or the live fifo by its stream; boards B, C and D drop audio and have one video
  fifo per stream. Data, flags and time stamp are those of the packet.
\<close>

theorem device_av_packet:
  assumes "length sid < 1000" and "length data \<le> MAX_AVPKT_SIZE"
  shows "DevAMsgHandle (make_msg COMMAND_GETDATA_ACK (packet_attrs sid fi data) @ rest)
      = Inr [(if frame_type fi = FRMTYPE_AUDIO then Audio_producer_fifo
              else if sid_channel sid = 0 then Vstore_producer_fifo else Vlive_producer_fifo,
              fifo_piece data (av_pkt_flags fi) (time_stamp fi))] \<and>
    DevBCMsgHandle (make_msg COMMAND_GETDATA_ACK (packet_attrs sid fi data) @ rest)
      = Inr (if frame_type fi = FRMTYPE_AUDIO then []
             else [(if sid_channel sid = 0 then V1_producer_fifo else V2_producer_fifo,
                    fifo_piece data (av_pkt_flags fi) (time_stamp fi))]) \<and>
    DevDMsgHandle (make_msg COMMAND_GETDATA_ACK (packet_attrs sid fi data) @ rest)
      = DevBCMsgHandle (make_msg COMMAND_GETDATA_ACK (packet_attrs sid fi data) @ rest)"
  using handler_packet(4-6) [OF assms refl refl, of fi rest] by simp

theorem device_av_packet_witness:
  "\<exists>fi. DevAMsgHandle (make_msg COMMAND_GETDATA_ACK (packet_attrs ''0'' fi ''data'') @ ''next'')
     = Inr [(Audio_producer_fifo, fifo_piece ''data'' (av_pkt_flags fi) 9)]"
proof -
  let ?fi = "\<lparr>frame_type = FRMTYPE_AUDIO, frame_length = 4, frame_num = 2, packet_num = 0, frame_rate = 0,
      time_stamp = 9, pkts_in_frame = 1\<rparr>"
  show ?thesis using device_av_packet [of "''0''" "''data''" ?fi "''next''"] by (intro exI [of _ ?fi]) simp
qed

text \<open>
  A packet whose \<open>Data\<close> comes before any \<open>Info\<close> makes the handlers decide on an uninitialised
  descriptor, and a descriptor of more than 28 bytes is written past the struct.
\<close>

theorem device_bad_packet:
  assumes "length data \<le> MAX_AVPKT_SIZE" and "28 < length info" and "length info \<le> MAX_AVPKT_SIZE"
  shows "DevAMsgHandle (make_msg COMMAND_GETDATA_ACK [(''Data'', data)]) = Inl Uninitialised \<and>
    DevAMsgHandle (make_msg COMMAND_GETDATA_ACK [(''Info'', info)]) = Inl Buffer_Overflow"
proof -
  have f: "\<forall>a\<in>set [(''Data'', data)]. fits 16 1536 a" "\<forall>a\<in>set [(''Info'', info)]. fits 16 1536 a"
    using assms by (auto simp: fits_def short_attr_def)
  have l: "length (encode_attrs [(''Data'', data)]) < 65536" "length (encode_attrs [(''Info'', info)]) < 65536"
    using f assms by (simp_all add: fits_def length_encode_attr del: encode_attr.simps)
  have u: "av_flags dev_rx_init = Inl Uninitialised"
    by (simp add: av_flags_def info_word_def)
  have "length (rx_info dev_rx_init) < length info" using assms(2) by simp
  then have o: "copy_info info dev_rx_init = Inl Buffer_Overflow" by (simp add: copy_info_def)
  show ?thesis
    using scan_make_msg [OF _ f(1) l(1), of COMMAND_GETDATA_ACK "[]" DevA_av_attr dev_rx_init]
      scan_make_msg [OF _ f(2) l(2), of COMMAND_GETDATA_ACK "[]" DevA_av_attr dev_rx_init]
      msg_len_make_msg [OF _ l(1), of COMMAND_GETDATA_ACK "[]"]
      msg_len_make_msg [OF _ l(2), of COMMAND_GETDATA_ACK "[]"]
      msg_command_make_msg [of COMMAND_GETDATA_ACK "[(''Data'', data)]" "[]"]
      msg_command_make_msg [of COMMAND_GETDATA_ACK "[(''Info'', info)]" "[]"] u o
    by (simp add: DevAMsgHandle_def dev_loop_def scan_msg_def DevA_av_attr_def av_attr_def c_str_def
        del: encode_attr.simps)
qed

theorem device_bad_packet_witness:
  "DevAMsgHandle (make_msg COMMAND_GETDATA_ACK [(''Data'', ''data'')]) = Inl Uninitialised \<and>
   DevAMsgHandle (make_msg COMMAND_GETDATA_ACK [(''Info'', replicate 29 NUL)]) = Inl Buffer_Overflow"
  by (rule device_bad_packet) simp_all

text \<open>
  The camera bytes of a bypass message reach the UART fifo of their channel one by one, in
  order, each as a frame of its own.
\<close>

theorem device_bypass:
  assumes "length raw \<le> MAX_AVPKT_SIZE" and "length ch < 1000"
  shows "DevAMsgHandle (make_msg COMMAND_BYP_RSP [(''Channel'', ch), (''RawBytes'', raw)])
       = Inr (map (\<lambda>b. (if c_str ch = ''0'' then UART_RX_producer_fifo_1 else UART_RX_producer_fifo_2,
                        fifo_piece [b] WHOLE_FRAME 0)) raw)"
proof -
  let ?as = "[(''Channel'', ch), (''RawBytes'', raw)]"
  have f: "\<forall>a\<in>set ?as. fits 16 1536 a" using assms by (auto simp: fits_def short_attr_def)
  have l: "length (encode_attrs ?as) < 65536"
    using f assms by (simp add: fits_def length_encode_attr del: encode_attr.simps)
  have adds: "rx_adds (foldl (\<lambda>s b. dev_add df [b] fl 0 s) s raw)
      = rx_adds s @ map (\<lambda>b. (df, fifo_piece [b] fl 0)) raw" for df s fl
    by (induction raw arbitrary: s) (auto simp: dev_add_def fifo_piece_def)
  show ?thesis
    using scan_make_msg [OF _ f l, of COMMAND_BYP_RSP "[]" byp_attr dev_rx_init]
      msg_len_make_msg [OF _ l, of COMMAND_BYP_RSP "[]"]
      msg_command_make_msg [of COMMAND_BYP_RSP ?as "[]"]
    by (simp add: DevAMsgHandle_def dev_loop_def scan_msg_def byp_attr_def c_str_def Let_def adds
        del: encode_attr.simps)
qed

theorem device_bypass_witness:
  "DevAMsgHandle (make_msg COMMAND_BYP_RSP [(''Channel'', ''0''), (''RawBytes'', ''ab'')])
   = Inr [(UART_RX_producer_fifo_1, fifo_piece ''a'' WHOLE_FRAME 0), (UART_RX_producer_fifo_1, fifo_piece ''b'' WHOLE_FRAME 0)]"
  using device_bypass [of "''ab''" "''0''"] by (simp add: c_str_def)

end
