(* ===== verification/Board_Threads.thy ===== *)
theory Board_Threads
  imports Fifo_Properties Core_Devices
begin

text \<open>
  The core boards connected to the network of fifos: the fifos \<^verbatim>\<open>main\<close> hands to the thread
  of each board, and a message of a board added to them. The end-to-end lemma follows a picture from
  the messages of board A to the queue of the analysis thread.
\<close>

section \<open>The fifos of the board threads\<close>

definition coreA_fifo :: "core_fifo \<Rightarrow> fifo_id option" where
  "coreA_fifo df =
     (case df of
        Audio_producer_fifo \<Rightarrow> Some F_Audio_producer_fifo
      | Vlive_producer_fifo \<Rightarrow> Some F_Vmux_live_producer_fifo
      | Vstore_producer_fifo \<Rightarrow> Some F_Vmux_store_producer_fifo
      | ImgM_producer_fifo \<Rightarrow> Some F_ImgM_producer_fifo
      | ImgV_producer_fifo \<Rightarrow> Some F_ImgV_producer_fifo
      | Event_producer_fifo \<Rightarrow> Some F_Event_producer_fifo_A
      | UART_RX_producer_fifo_1 \<Rightarrow> Some F_UART_RX_producer_fifo_A1
      | UART_RX_producer_fifo_2 \<Rightarrow> Some F_UART_RX_producer_fifo_A2
      | _ \<Rightarrow> None)"

definition coreB_fifo :: "core_fifo \<Rightarrow> fifo_id option" where
  "coreB_fifo df =
     (case df of
        V1_producer_fifo \<Rightarrow> Some F_V1_producer_fifo
      | V2_producer_fifo \<Rightarrow> Some F_V2_producer_fifo
      | Img1_producer_fifo \<Rightarrow> Some F_Img1_producer_fifo
      | Img2_producer_fifo \<Rightarrow> Some F_Img2_producer_fifo
      | Event_producer_fifo \<Rightarrow> Some F_Event_producer_fifo_B
      | UART_RX_producer_fifo_1 \<Rightarrow> Some F_UART_RX_producer_fifo_B1
      | UART_RX_producer_fifo_2 \<Rightarrow> Some F_UART_RX_producer_fifo_B2
      | _ \<Rightarrow> None)"

definition coreC_fifo :: "core_fifo \<Rightarrow> fifo_id option" where
  "coreC_fifo df =
     (case df of
        V1_producer_fifo \<Rightarrow> Some F_V3_producer_fifo
      | V2_producer_fifo \<Rightarrow> Some F_V4_producer_fifo
      | Img1_producer_fifo \<Rightarrow> Some F_Img3_producer_fifo
      | Img2_producer_fifo \<Rightarrow> Some F_Img4_producer_fifo
      | Event_producer_fifo \<Rightarrow> Some F_Event_producer_fifo_C
      | UART_RX_producer_fifo_1 \<Rightarrow> Some F_UART_RX_producer_fifo_C1
      | UART_RX_producer_fifo_2 \<Rightarrow> Some F_UART_RX_producer_fifo_C2
      | _ \<Rightarrow> None)"

definition coreD_fifo :: "core_fifo \<Rightarrow> fifo_id option" where
  "coreD_fifo df =
     (case df of
        V1_producer_fifo \<Rightarrow> Some F_V5_producer_fifo
      | V2_producer_fifo \<Rightarrow> Some F_V6_producer_fifo
      | Img1_producer_fifo \<Rightarrow> Some F_Img5_producer_fifo
      | Img2_producer_fifo \<Rightarrow> Some F_Img6_producer_fifo
      | Event_producer_fifo \<Rightarrow> Some F_Event_producer_fifo_D
      | _ \<Rightarrow> None)"

text \<open>The pieces a message adds, one after the other; the return values are only printed.\<close>

definition add_all ::
    "(core_fifo \<Rightarrow> fifo_id option) \<Rightarrow> (core_fifo \<times> fifo_add) list \<Rightarrow> fifos \<Rightarrow> fifos res" where
  "add_all fifo adds s =
     fold_res (\<lambda>s (df, x). case fifo df of
        None \<Rightarrow> Inl Null_Deref
      | Some p \<Rightarrow> bind_res (add_piece p x s) (\<lambda>(ret, s'). Inr s')) s adds"

definition board_rx ::
    "(byte list \<Rightarrow> (core_fifo \<times> fifo_add) list res) \<Rightarrow> (core_fifo \<Rightarrow> fifo_id option) \<Rightarrow>
     fifos \<Rightarrow> byte list \<Rightarrow> fifos res" where
  "board_rx handler fifo s Msg = bind_res (handler Msg) (\<lambda>adds. add_all fifo adds s)"

lemma board_rx_pieces:
  assumes "\<And>k. k \<in> set ks \<Longrightarrow> handler (msg k) = Inr [(df, piece k)]" and "fifo df = Some p"
  shows "fold_res (board_rx handler fifo) s (map msg ks) = add_pieces p (map piece ks) s"
  using assms(1)
proof (induction ks arbitrary: s)
  case Nil
  then show ?case by (simp add: add_pieces_def)
next
  case (Cons k ks)
  have "bind_res x Inr = x" for x :: "fifos res" by (cases x) simp_all
  then have "board_rx handler fifo s (msg k) = bind_res (add_piece p (piece k) s) (\<lambda>(ret, s'). Inr s')"
    using Cons.prems [of k] assms(2) by (simp add: board_rx_def add_all_def)
  then show ?case using Cons.IH Cons.prems by (simp add: add_pieces_def)
qed

section \<open>A picture on its way to the analysis\<close>

definition picture_msgs ::
    "string \<Rightarrow> u32 \<Rightarrow> u32 \<Rightarrow> u32 \<Rightarrow> byte list \<Rightarrow> byte list list" where
  "picture_msgs sid fr fnum ts pic =
     map (\<lambda>i. make_msg COMMAND_EVENT_UCI
         (packet_attrs sid (packet_info fr (int (length pic)) fnum ts (of_nat i)) (slice pic i)))
       [0 ..< num_pkts (length pic)]"

definition picture_piece :: "u32 \<Rightarrow> byte list \<Rightarrow> nat \<Rightarrow> fifo_add" where
  "picture_piece fnum pic i = fifo_piece (slice pic i)
     ((if i = 0 then (if fnum = 0 then FRAME_FLAG_NEWFRAME OR FRAME_FLAG_FIRSTFRAME else FRAME_FLAG_NEWFRAME) else 0)
      OR (if Suc i = num_pkts (length pic) then FRAME_FLAG_FRAMEEND else 0)) 0"

lemma picture_piece_simps [simp]:
  "(fa_flags (picture_piece fnum pic i) AND FRAME_FLAG_NEWFRAME = 0) = (i \<noteq> 0)"
  "(fa_flags (picture_piece fnum pic i) AND FRAME_FLAG_FRAMEEND = 0) = (Suc i \<noteq> num_pkts (length pic))"
  "fa_data (picture_piece fnum pic i) = slice pic i" "fa_timestamp (picture_piece fnum pic i) = 0"
  by (simp_all add: picture_piece_def fifo_piece_def)

lemma picture_one_frame:
  assumes "pic \<noteq> []"
  shows "one_frame (map (picture_piece fnum pic) [0 ..< num_pkts (length pic)])"
    and "frame_data (map (picture_piece fnum pic) [0 ..< num_pkts (length pic)]) = pic"
proof -
  obtain k where k: "num_pkts (length pic) = Suc k"
    using assms num_pkts_covers [of pic] by (cases "num_pkts (length pic)") auto
  let ?f = "picture_piece fnum pic"
  have up: "map ?f [0 ..< Suc k] = ?f 0 # map ?f [1 ..< Suc k]" by (simp only: upt_conv_Cons [OF zero_less_Suc] list.map One_nat_def)
  have dn: "map ?f [0 ..< Suc k] = map ?f [0 ..< k] @ [?f k]" by simp
  have "\<forall>x\<in>set (tl (map ?f [0 ..< Suc k])). \<not> opens x" unfolding up by (auto simp del: upt_Suc)
  moreover have "\<forall>x\<in>set (butlast (map ?f [0 ..< Suc k])). \<not> ends x" unfolding dn using k by auto
  moreover have "ends (last (map ?f [0 ..< Suc k]))" unfolding dn using k by simp
  moreover have "opens (hd (map ?f [0 ..< Suc k]))" unfolding up by simp
  ultimately show "one_frame (map ?f [0 ..< num_pkts (length pic)])"
    unfolding one_frame_def k by (simp del: upt_Suc)
  show "frame_data (map (picture_piece fnum pic) [0 ..< num_pkts (length pic)]) = pic"
    using num_pkts_covers [of pic] by (simp add: frame_data_def comp_def concat_slices)
qed

lemma picture_flags:
  "pic \<noteq> [] \<Longrightarrow> new_flags (fa_flags (hd (map (picture_piece fnum pic) [0 ..< num_pkts (length pic)]))) =
     (if fnum = 0 then FRAME_FLAG_FIRSTFRAME else 0)"
  "pic \<noteq> [] \<Longrightarrow> fa_timestamp (hd (map (picture_piece fnum pic) [0 ..< num_pkts (length pic)])) = 0"
proof -
  assume "pic \<noteq> []"
  then have "0 < num_pkts (length pic)" using num_pkts_covers [of pic] by (cases "num_pkts (length pic)") auto
  then have h: "hd (map (picture_piece fnum pic) [0 ..< num_pkts (length pic)]) = picture_piece fnum pic 0"
    by (simp only: upt_conv_Cons list.map list.sel)
  show "new_flags (fa_flags (hd (map (picture_piece fnum pic) [0 ..< num_pkts (length pic)]))) =
     (if fnum = 0 then FRAME_FLAG_FIRSTFRAME else 0)"
    unfolding h by (simp add: picture_piece_def fifo_piece_def new_flags_def)
  show "fa_timestamp (hd (map (picture_piece fnum pic) [0 ..< num_pkts (length pic)])) = 0"
    unfolding h by simp
qed

text \<open>What board A makes of the messages of a picture.\<close>

lemma coreA_picture:
  assumes "length sid < 1000" and "length pic < 2147483648"
  shows "fold_res (board_rx DevAMsgHandle coreA_fifo) s (picture_msgs sid fr fnum ts pic) =
    add_pieces (if sid_channel sid = 0 then F_ImgV_producer_fifo else F_ImgM_producer_fifo)
      (map (picture_piece fnum pic) [0 ..< num_pkts (length pic)]) s"
proof -
  let ?df = "if sid_channel sid = 0 then ImgV_producer_fifo else ImgM_producer_fifo"
  let ?m = "\<lambda>i. make_msg COMMAND_EVENT_UCI
      (packet_attrs sid (packet_info fr (int (length pic)) fnum ts (of_nat i)) (slice pic i))"
  have "DevAMsgHandle (?m i) = Inr [(?df, picture_piece fnum pic i)]" if "i \<in> set [0 ..< num_pkts (length pic)]" for i
    using handler_packet(1) [OF assms(1) length_slice_le refl refl, of _ pic i "[]"]
      pkt_flags_packet_info [OF assms(2), of i fr fnum ts] that
    by (simp add: picture_piece_def)
  moreover have "coreA_fifo ?df = Some (if sid_channel sid = 0 then 13 else 12)" by (simp add: coreA_fifo_def)
  ultimately show ?thesis unfolding picture_msgs_def by (blast intro: board_rx_pieces)
qed

text \<open>
  A picture of at most 72 KiB that board A sends packet by packet arrives whole: after its last
  message exactly one frame, the picture, has been appended to the queue of the image thread
  (consumer 45), marked as the first frame when it is number 0; no other queue changes.
\<close>

lemma picture_in_queue:
  assumes "fifos_ok main_P main_C s" and "links s p = (\<lambda>c. if c = F_Img_consumer_fifo then 1 else 0)"
    and "p = (if sid_channel sid = 0 then F_ImgV_producer_fifo else F_ImgM_producer_fifo)"
    and "pending s p = None" and "data_maxlen (s p) = IMGBUF_SIZE" and "in_use s p < capacity s p"
    and "in_use s F_Img_consumer_fifo < capacity s F_Img_consumer_fifo"
    and "length sid < 1000" and "pic \<noteq> []" and "length pic \<le> 73728"
  shows "\<exists>s'. fold_res (board_rx DevAMsgHandle coreA_fifo) s (picture_msgs sid fr fnum ts pic) = Inr s' \<and>
    fifos_ok main_P main_C s' \<and> pending s' p = None \<and>
    frames s' F_Img_consumer_fifo = frames s F_Img_consumer_fifo @ [(pic, if fnum = 0 then FRAME_FLAG_FIRSTFRAME else 0, 0)] \<and>
    (\<forall>c\<in>main_C. c \<noteq> F_Img_consumer_fifo \<longrightarrow> frames s' c = frames s c)"
proof -
  let ?xs = "map (picture_piece fnum pic) [0 ..< num_pkts (length pic)]"
  note one = picture_one_frame [OF assms(9), of fnum]
  have p: "p \<in> main_P" using assms(3) by (simp add: main_sets)
  have room: "\<forall>c\<in>main_C. in_use s c + links s p c \<le> capacity s c"
    using assms(2,7) fifos_ok_basic(3) [OF assms(1)] by auto
  have len: "length (frame_data ?xs) \<le> unat (data_maxlen (s p))" "data_maxlen (s p) < 0x80000000"
    using one(2) assms(5,10) by simp_all
  obtain s' where s': "add_pieces p ?xs s = Inr s'" "fifos_ok main_P main_C s'" "pending s' p = None"
    "\<forall>c\<in>main_C. frames s' c = frames s c @
       replicate (links s p c) (frame_data ?xs, new_flags (fa_flags (hd ?xs)), fa_timestamp (hd ?xs))"
    using frame_delivered [OF assms(1) p assms(4) one(1) len assms(6) room] by blast
  have "fold_res (board_rx DevAMsgHandle coreA_fifo) s (picture_msgs sid fr fnum ts pic) = Inr s'"
    using coreA_picture [OF assms(8), of pic s fr fnum ts] assms(3,10) s'(1) by simp
  moreover have "45 \<in> main_C" by (simp add: main_sets)
  ultimately show ?thesis
    using s'(2-4) one(2) picture_flags [OF assms(9), of fnum] assms(2) by auto
qed

lemma main_imgv:
  obtains s where "fifos_ok main_P main_C s" "links s 13 = (\<lambda>c. if c = 45 then 1 else 0)"
    "pending s 13 = None" "data_maxlen (s 13) = IMGBUF_SIZE" "in_use s 13 < capacity s 13"
    "in_use s 45 < capacity s 45" "frames s 45 = []"
proof -
  obtain s :: fifos where i: "idle main_P main_C main_shape s" using main_idle by blast
  note D = idleD [OF i]
  have "consumers (s 13) = [45]" using D(6) [of 13] main_shape_image(2) by (simp add: main_sets)
  then have "links s 13 = (\<lambda>c. if c = 45 then 1 else 0)" by (simp add: links_def fun_eq_iff)
  then show thesis
    using that [of s] D main_shape_image(2) main_shape_facts(2) by (simp add: main_sets)
qed

end
