(* ===== verification/Yuv_Picture.thy ===== *)
theory Yuv_Picture
  imports Rec_Prelude
begin

text \<open>
  The pictures of the image thread (\<^verbatim>\<open>recbcsrv/recbc_srv.c\<close>): the three conversions of a packed
  YUYV picture (\<^verbatim>\<open>yuv422_to_planner\<close>, \<^verbatim>\<open>yuv422_to_yuv420\<close>, \<^verbatim>\<open>yuv422_to_y\<close>) and the raw strips
  that \<^verbatim>\<open>yuv422_to_jpeg\<close> hands to the JPEG library. The conversions are loops over checked memory;
  the lemmas state what they compute on a picture given by its pixel pairs.
\<close>

section \<open>Loops that copy bytes\<close>

text \<open>\<open>for(i=0;i<n;i++) dest[d i] = src[s i];\<close>\<close>

definition copy_step :: "byte list \<Rightarrow> (nat \<Rightarrow> nat) \<Rightarrow> (nat \<Rightarrow> nat) \<Rightarrow> byte list \<Rightarrow> nat \<Rightarrow> byte list res" where
  "copy_step src d s dest i = bind_res (mem_read src (s i) 1) (mem_write dest (d i))"

definition copy_loop :: "byte list \<Rightarrow> (nat \<Rightarrow> nat) \<Rightarrow> (nat \<Rightarrow> nat) \<Rightarrow> nat \<Rightarrow> byte list \<Rightarrow> byte list res" where
  "copy_loop src d s n dest = fold_res (copy_step src d s) dest [0 ..< n]"

text \<open>A loop that fills a contiguous piece of the destination.\<close>

lemma copy_step_fill:
  assumes "length out = off + i" and "rest \<noteq> []" and "s i < length src"
  shows "copy_step src (\<lambda>i. off + i) s (out @ rest) i = Inr (out @ src ! s i # tl rest)"
proof -
  have "take 1 (drop (s i) src) = [src ! s i]"
    using assms(3) by (simp add: take_Suc_conv_app_nth [of 0, simplified] Cons_nth_drop_Suc [symmetric])
  moreover have "drop (Suc (off + i)) (out @ rest) = tl rest"
    using assms(1) by (simp add: drop_Suc)
  ultimately show ?thesis
    using assms by (cases rest) (simp_all add: copy_step_def mem_read_def mem_write_def)
qed

lemma copy_loop_fill:
  assumes "length out = off" and "n \<le> length rest" and "\<And>i. i < n \<Longrightarrow> s i < length src"
  shows "copy_loop src (\<lambda>i. off + i) s n (out @ rest) = Inr (out @ map (\<lambda>i. src ! s i) [0 ..< n] @ drop n rest)"
  using assms(2,3)
proof (induction n)
  case 0
  then show ?case by (simp add: copy_loop_def)
next
  case (Suc n)
  have "drop n rest \<noteq> []" "tl (drop n rest) = drop (Suc n) rest" using Suc.prems(1) by (simp_all add: drop_Suc tl_drop)
  then show ?case
    using Suc copy_step_fill [of "out @ map (\<lambda>i. src ! s i) [0 ..< n]" off n "drop n rest" s src] assms(1)
    by (simp add: copy_loop_def fold_res_append)
qed

section \<open>The conversions\<close>

text \<open>
  The dimensions are C \<open>int\<close>s; the only caller passes 256 and 144, so that the products do not wrap
  and the model has them as naturals. Each returns the number of bytes of the result, and here the
  destination after it as well.
\<close>

definition yuv422_to_planner :: "byte list \<Rightarrow> byte list \<Rightarrow> nat \<Rightarrow> nat \<Rightarrow> (nat \<times> byte list) res" where
  "yuv422_to_planner src dest image_width image_height =
     (let y1 = image_width * image_height; y2 = y1 + image_width * image_height div 2
      in bind_res (copy_loop src (\<lambda>i. i) (\<lambda>i. 2 * i) (image_height * image_width) dest) (\<lambda>d0.
         bind_res (copy_loop src (\<lambda>i. y1 + i) (\<lambda>i. 4 * i + 1) (image_height * image_width div 2) d0) (\<lambda>d1.
         bind_res (copy_loop src (\<lambda>i. y2 + i) (\<lambda>i. 4 * i + 3) (image_height * image_width div 2) d1) (\<lambda>d2.
         Inr (image_height * image_width * 2, d2)))))"

text \<open>The chroma of every second line; after line \<open>j\<close> of them the pointers have moved on.\<close>

definition yuv422_to_yuv420 :: "byte list \<Rightarrow> byte list \<Rightarrow> nat \<Rightarrow> nat \<Rightarrow> (nat \<times> byte list) res" where
  "yuv422_to_yuv420 src dest image_width image_height =
     bind_res (copy_loop src (\<lambda>i. i) (\<lambda>i. i * 2) (image_height * image_width) dest) (\<lambda>d0.
     bind_res (fold_res (\<lambda>d j. copy_loop src (\<lambda>i. image_height * image_width + image_width * j + i)
                                  (\<lambda>i. image_width * 4 * j + (i * 2 + 1)) image_width d)
                 d0 [0 ..< image_height div 2]) (\<lambda>d1.
     Inr (image_height * image_width * 3 div 2, d1)))"

definition yuv422_to_y :: "byte list \<Rightarrow> byte list \<Rightarrow> nat \<Rightarrow> nat \<Rightarrow> (nat \<times> byte list) res" where
  "yuv422_to_y src dest image_width image_height =
     bind_res (copy_loop src (\<lambda>i. i) (\<lambda>i. i * 2) (image_height * image_width) dest) (\<lambda>d.
     Inr (image_height * image_width, d))"

section \<open>The strips of a JPEG picture\<close>

text \<open>
  \<^verbatim>\<open>yuv422_to_jpeg\<close> without the library: each turn of the loop copies eight lines of each band of
  the planar picture into the rows of \<open>buffer\<close> and calls \<^verbatim>\<open>jpeg_write_raw_data\<close>, which takes
  \<open>max_line\<close> lines, until \<open>next_scanline\<close> reaches the height. The widths of the bands are those the
  library computes for the sampling factors 2x1, 1x1, 1x1 that are set.
\<close>

abbreviation (input) DCTSIZE :: nat where "DCTSIZE \<equiv> 8"

definition width_in_blocks :: "nat \<Rightarrow> nat list" where
  "width_in_blocks w = [(w + 7) div 8, (w + 15) div 16, (w + 15) div 16]"

definition jpeg_band :: "byte list \<Rightarrow> nat \<Rightarrow> nat \<Rightarrow> nat \<Rightarrow> byte list res" where
  "jpeg_band src yuv buf_width counter =
     fold_res (\<lambda>out i. bind_res (mem_read src (yuv + counter * DCTSIZE * buf_width + i * buf_width) buf_width)
                 (\<lambda>row. Inr (out @ row))) [] [0 ..< DCTSIZE]"

definition jpeg_strip :: "byte list \<Rightarrow> nat \<Rightarrow> nat \<Rightarrow> nat \<Rightarrow> (byte list \<times> byte list \<times> byte list) res" where
  "jpeg_strip src w h counter =
     (let bw = map (\<lambda>b. b * DCTSIZE) (width_in_blocks w)
      in bind_res (jpeg_band src 0 (bw ! 0) counter) (\<lambda>y.
         bind_res (jpeg_band src (w * h) (bw ! 1) counter) (\<lambda>u.
         bind_res (jpeg_band src (w * h + w * h div 2) (bw ! 2) counter) (\<lambda>v.
         Inr (y, u, v)))))"

definition jpeg_strips :: "byte list \<Rightarrow> nat \<Rightarrow> nat \<Rightarrow> (byte list \<times> byte list \<times> byte list) list res" where
  "jpeg_strips src w h =
     fold_res (\<lambda>out counter. bind_res (jpeg_strip src w h counter) (\<lambda>s. Inr (out @ [s])))
       [] [0 ..< (h + 7) div 8]"

text \<open>
  The compressed picture, read back from the temporary file into \<open>dst\<close>: \<open>jpeg\<close> is what the library
  writes for these strips.
\<close>

definition yuv422_to_jpeg ::
    "((byte list \<times> byte list \<times> byte list) list \<Rightarrow> byte list) \<Rightarrow> byte list \<Rightarrow> byte list \<Rightarrow> nat \<Rightarrow> nat \<Rightarrow>
     (nat \<times> byte list) res" where
  "yuv422_to_jpeg jpeg src dst image_width image_height =
     bind_res (jpeg_strips src image_width image_height) (\<lambda>strips.
     bind_res (mem_write dst 0 (jpeg strips)) (\<lambda>d. Inr (length (jpeg strips), d)))"

section \<open>What the conversions compute\<close>

text \<open>A packed picture is a list of pixel pairs, two luma values that share their chroma.\<close>

type_synonym pixel_pair = "byte \<times> byte \<times> byte \<times> byte"

definition yuyv :: "pixel_pair list \<Rightarrow> byte list" where
  "yuyv px = concat (map (\<lambda>(y0, u, y1, v). [y0, u, y1, v]) px)"

definition luma :: "pixel_pair list \<Rightarrow> byte list" where
  "luma px = concat (map (\<lambda>(y0, u, y1, v). [y0, y1]) px)"

definition cb :: "pixel_pair list \<Rightarrow> byte list" where
  "cb px = map (\<lambda>(y0, u, y1, v). u) px"

definition cr :: "pixel_pair list \<Rightarrow> byte list" where
  "cr px = map (\<lambda>(y0, u, y1, v). v) px"

definition chroma :: "pixel_pair list \<Rightarrow> byte list" where
  "chroma px = concat (map (\<lambda>(y0, u, y1, v). [u, v]) px)"

definition even_chroma :: "nat \<Rightarrow> nat \<Rightarrow> pixel_pair list \<Rightarrow> byte list" where
  "even_chroma w h px = concat (map (\<lambda>j. chroma (take (w div 2) (drop (w * j) px))) [0 ..< h div 2])"

lemma yuv_simps [simp]:
  "yuyv [] = []" "yuyv ((y0, u, y1, v) # px) = y0 # u # y1 # v # yuyv px"
  "luma [] = []" "luma ((y0, u, y1, v) # px) = y0 # y1 # luma px"
  "cb [] = []" "cb ((y0, u, y1, v) # px) = u # cb px"
  "cr [] = []" "cr ((y0, u, y1, v) # px) = v # cr px"
  "chroma [] = []" "chroma ((y0, u, y1, v) # px) = u # v # chroma px"
  by (simp_all add: yuyv_def luma_def cb_def cr_def chroma_def)

lemma yuv_lengths [simp]:
  "length (yuyv px) = 4 * length px" "length (luma px) = 2 * length px" "length (cb px) = length px"
  "length (cr px) = length px" "length (chroma px) = 2 * length px"
  by (induction px) auto

lemma map_upt_pairs: "map f [0 ..< 2 * Suc n] = f 0 # f 1 # map (\<lambda>i. f (i + 2)) [0 ..< 2 * n]"
proof -
  have "[0 ..< 2 * Suc n] = 0 # 1 # map (\<lambda>i. i + 2) [0 ..< 2 * n]"
    unfolding map_add_upt by (simp add: upt_conv_Cons numeral_2_eq_2 del: upt_Suc)
  then show ?thesis by (simp only: list.map map_map comp_def)
qed

lemma map_upt_single: "map f [0 ..< Suc n] = f 0 # map (\<lambda>i. f (i + 1)) [0 ..< n]"
proof -
  have "[0 ..< Suc n] = 0 # map (\<lambda>i. i + 1) [0 ..< n]"
    unfolding map_add_upt by (simp add: upt_conv_Cons del: upt_Suc)
  then show ?thesis by (simp only: list.map map_map comp_def)
qed

lemma yuyv_bytes:
  "map (\<lambda>i. (yuyv px @ rest) ! (2 * i)) [0 ..< 2 * length px] = luma px"
  "map (\<lambda>i. (yuyv px @ rest) ! (2 * i + 1)) [0 ..< 2 * length px] = chroma px"
  "map (\<lambda>i. (yuyv px @ rest) ! (4 * i + 1)) [0 ..< length px] = cb px"
  "map (\<lambda>i. (yuyv px @ rest) ! (4 * i + 3)) [0 ..< length px] = cr px"
proof (induction px)
  case (Cons p px)
  obtain y0 u y1 v where p: "p = (y0, u, y1, v)" by (metis prod_cases4)
  have st: "(yuyv (p # px) @ rest) ! (i + 4) = (yuyv px @ rest) ! i" for i by (simp add: p)
  have ix: "2 * (i + 2) = 2 * i + 4" "2 * (i + 2) + 1 = 2 * i + 1 + 4" "4 * (i + 1) + 1 = 4 * i + 1 + 4"
    "4 * (i + 1) + 3 = 4 * i + 3 + 4" for i :: nat by simp_all
  {
    case 1
    show ?case unfolding length_Cons map_upt_pairs ix st Cons(1) by (simp add: p)
  next
    case 2
    show ?case unfolding length_Cons map_upt_pairs ix st using Cons(2) by (simp add: p)
  next
    case 3
    show ?case unfolding length_Cons map_upt_single ix st Cons(3) by (simp add: p)
  next
    case 4
    show ?case unfolding length_Cons map_upt_single ix st Cons(4) by (simp add: p)
  }
qed simp_all

lemma yuyv_drop: "drop (4 * k) (yuyv px @ rest) = yuyv (drop k px) @ drop (4 * (k - length px)) rest"
proof (induction px arbitrary: k)
  case (Cons p px)
  show ?case
  proof (cases k)
    case (Suc j)
    have "drop (4 * k) (yuyv (p # px) @ rest) = drop (4 * j) (drop 4 (yuyv (p # px) @ rest))"
      unfolding drop_drop by (simp only: Suc mult_Suc_right add.commute)
    also have "drop 4 (yuyv (p # px) @ rest) = yuyv px @ rest" by (cases p) simp
    finally show ?thesis unfolding Cons [of j] by (simp add: Suc)
  qed (cases p; simp)
qed simp

text \<open>Eight rows of a band are one piece of its plane.\<close>

lemma jpeg_band_rows:
  assumes "length pre = yuv" and "length plane = m * 8 * bw" and "counter < m"
  shows "jpeg_band (pre @ plane @ post) yuv bw counter = Inr (take (8 * bw) (drop (counter * 8 * bw) plane))"
proof -
  let ?strip = "drop (counter * 8 * bw) plane"
  have "(counter + 1) * (8 * bw) \<le> m * (8 * bw)" using assms(3) by (intro mult_le_mono1) simp
  then have fits: "counter * 8 * bw + 8 * bw \<le> length plane" using assms(2) by (simp add: mult.assoc add_mult_distrib)
  then have strip: "8 * bw \<le> length ?strip" by simp
  have row: "mem_read (pre @ plane @ post) (yuv + counter * DCTSIZE * bw + i * bw) bw = Inr (take bw (drop (i * bw) ?strip))"
    if "i < 8" for i
  proof -
    have "(i + 1) * bw \<le> 8 * bw" using that by (intro mult_le_mono1) simp
    then have "i * bw + bw \<le> 8 * bw" by (simp only: add_mult_distrib mult_1)
    then have "i * bw + bw \<le> length ?strip" using strip by (rule order_trans)
    then show ?thesis using assms(1) fits by (simp add: mem_read_def add.commute add.left_commute)
  qed
  have "fold_res (\<lambda>out i. bind_res (mem_read (pre @ plane @ post) (yuv + counter * DCTSIZE * bw + i * bw) bw)
      (\<lambda>row. Inr (out @ row))) [] [0 ..< k] = Inr (take (k * bw) ?strip)" if "k \<le> 8" for k
    using that
  proof (induction k)
    case (Suc k)
    then show ?case using row [of k] by (simp add: fold_res_append take_add add.commute [of bw])
  qed simp
  from this [of 8] show ?thesis by (simp add: jpeg_band_def)
qed

text \<open>The strips of a plane, put together, are the plane.\<close>

lemma concat_chunks: "concat (map (\<lambda>i. take n (drop (i * n) xs)) [0 ..< k]) = take (k * n) xs"
  by (induction k) (simp_all add: take_add add.commute [of n])

section \<open>The conversions of a whole picture\<close>

lemma yuv422_to_y_luma:
  assumes "2 * length px = w * h" and "w * h \<le> length dest"
  shows "yuv422_to_y (yuyv px @ rest) dest w h = Inr (w * h, luma px @ drop (w * h) dest)"
proof -
  have n: "h * w = 2 * length px" using assms(1) by (simp add: mult.commute)
  have "copy_loop (yuyv px @ rest) (\<lambda>i. i) (\<lambda>i. i * 2) (2 * length px) dest = Inr (luma px @ drop (2 * length px) dest)"
    using copy_loop_fill [of "[]" 0 "2 * length px" dest "\<lambda>i. i * 2" "yuyv px @ rest"] yuyv_bytes(1) [of px rest] assms
    by (simp add: mult.commute)
  then show ?thesis using assms(1) unfolding yuv422_to_y_def n by simp
qed

lemma planner_planes:
  assumes "2 * length px = w * h" and "2 * (w * h) \<le> length dest"
  shows "yuv422_to_planner (yuyv px @ rest) dest w h
       = Inr (2 * (w * h), luma px @ cb px @ cr px @ drop (2 * (w * h)) dest)"
proof -
  let ?src = "yuyv px @ rest" and ?n = "length px"
  have n: "w * h = 2 * ?n" "h * w = 2 * ?n" using assms(1) by (simp_all add: mult.commute)
  have l: "4 * ?n \<le> length dest" using assms by simp
  have 1: "copy_loop ?src (\<lambda>i. i) (\<lambda>i. 2 * i) (2 * ?n) dest = Inr (luma px @ drop (2 * ?n) dest)"
    using copy_loop_fill [of "[]" 0 "2 * ?n" dest "\<lambda>i. 2 * i" ?src] yuyv_bytes(1) [of px rest] l by simp
  have 2: "copy_loop ?src (\<lambda>i. 2 * ?n + i) (\<lambda>i. 4 * i + 1) ?n (luma px @ drop (2 * ?n) dest)
      = Inr (luma px @ cb px @ drop (3 * ?n) dest)"
    using copy_loop_fill [of "luma px" "2 * ?n" ?n "drop (2 * ?n) dest" "\<lambda>i. 4 * i + 1" ?src] yuyv_bytes(3) [of px rest] l by simp
  have 3: "copy_loop ?src (\<lambda>i. 2 * ?n + ?n + i) (\<lambda>i. 4 * i + 3) ?n ((luma px @ cb px) @ drop (3 * ?n) dest)
      = Inr (luma px @ cb px @ cr px @ drop (4 * ?n) dest)"
    using copy_loop_fill [of "luma px @ cb px" "2 * ?n + ?n" ?n "drop (3 * ?n) dest" "\<lambda>i. 4 * i + 3" ?src] yuyv_bytes(4) [of px rest] l by simp
  show ?thesis
    unfolding yuv422_to_planner_def Let_def n using 1 2 3 by (simp add: add.assoc)
qed

lemma yuyv_append: "yuyv (xs @ ys) = yuyv xs @ yuyv ys"
  by (simp add: yuyv_def)

lemma row_chroma:
  assumes "k + m \<le> length px"
  shows "map (\<lambda>i. (yuyv px @ rest) ! (4 * k + (2 * i + 1))) [0 ..< 2 * m] = chroma (take m (drop k px))"
proof -
  have len: "4 * k \<le> length (yuyv px @ rest)" using assms by simp
  have sp: "drop (4 * k) (yuyv px @ rest) = yuyv (take m (drop k px)) @ (yuyv (drop m (drop k px)) @ rest)"
    using yuyv_drop [of k px rest] yuyv_append [of "take m (drop k px)" "drop m (drop k px)"] assms
    unfolding append_take_drop_id by simp
  have "(yuyv px @ rest) ! (4 * k + (2 * i + 1)) = drop (4 * k) (yuyv px @ rest) ! (2 * i + 1)" for i
    by (rule nth_drop [symmetric, OF len])
  then show ?thesis
    using yuyv_bytes(2) [of "take m (drop k px)" "yuyv (drop m (drop k px)) @ rest"] assms unfolding sp by (simp add: min_absorb2)
qed

lemma length_even_chroma:
  assumes "2 * length px = w * h" and "even w"
  shows "length (concat (map (\<lambda>j. chroma (take (w div 2) (drop (w * j) px))) [0 ..< k])) = w * k \<or> h div 2 < k"
proof (induction k)
  case (Suc k)
  show ?case
  proof (cases "Suc k \<le> h div 2")
    case True
    obtain m where m: "w = 2 * m" using assms(2) by blast
    have "length px = m * h" using assms(1) m by simp
    moreover have "m * (2 * Suc k) \<le> m * h" using True by (intro mult_le_mono2) (simp add: less_eq_div_iff_mult_less_eq)
    ultimately show ?thesis using Suc True m by simp
  qed simp
qed simp

lemma yuv420_planes:
  assumes "2 * length px = w * h" and "even w" and "even h" and "w * h * 3 div 2 \<le> length dest"
  shows "yuv422_to_yuv420 (yuyv px @ rest) dest w h
       = Inr (w * h * 3 div 2, luma px @ even_chroma w h px @ drop (w * h * 3 div 2) dest)"
proof -
  let ?src = "yuyv px @ rest"
  obtain m k where mk: "w = 2 * m" "h = 2 * k" using assms(2,3) by blast
  have len: "length px = 2 * m * k" using assms(1) mk by simp
  have l: "6 * m * k \<le> length dest" using assms(4) mk by (simp add: mult.commute mult.left_commute)
  have 1: "copy_loop ?src (\<lambda>i. i) (\<lambda>i. i * 2) (h * w) dest = Inr (luma px @ drop (4 * m * k) dest)"
    using copy_loop_fill [of "[]" 0 "2 * length px" dest "\<lambda>i. i * 2" ?src] yuyv_bytes(1) [of px rest] len l mk
    by (simp add: mult.commute mult.left_commute)
  let ?ch = "\<lambda>j. concat (map (\<lambda>j. chroma (take m (drop (w * j) px))) [0 ..< j])"
  have 2: "fold_res (\<lambda>d j. copy_loop ?src (\<lambda>i. h * w + w * j + i) (\<lambda>i. w * 4 * j + (i * 2 + 1)) w d)
      (luma px @ drop (4 * m * k) dest) [0 ..< j] = Inr (luma px @ ?ch j @ drop (4 * m * k + w * j) dest)"
    if "j \<le> k" for j
    using that
  proof (induction j)
    case (Suc j)
    have "m * Suc j \<le> m * k" using Suc.prems by (intro mult_le_mono2)
    then have fit: "w * j + m \<le> length px" "w * Suc j \<le> length (drop (4 * m * k) dest)" using len l mk by simp_all
    have "length (?ch j) = w * j" using length_even_chroma [OF assms(1,2), of j] Suc.prems mk by auto
    then have out: "length (luma px @ ?ch j) = h * w + w * j" using len mk by simp
    have "copy_loop ?src (\<lambda>i. h * w + w * j + i) (\<lambda>i. w * 4 * j + (i * 2 + 1)) w ((luma px @ ?ch j) @ drop (4 * m * k + w * j) dest)
      = Inr ((luma px @ ?ch j) @ map (\<lambda>i. ?src ! (w * 4 * j + (i * 2 + 1))) [0 ..< w] @ drop w (drop (4 * m * k + w * j) dest))"
    proof (rule copy_loop_fill [OF out])
      show "w \<le> length (drop (4 * m * k + w * j) dest)" using fit(2) by simp
      show "w * 4 * j + (i * 2 + 1) < length ?src" if "i < w" for i using fit(1) that mk by simp
    qed
    also have "map (\<lambda>i. ?src ! (w * 4 * j + (i * 2 + 1))) [0 ..< w] = chroma (take m (drop (w * j) px))"
      using row_chroma [OF fit(1), of rest] mk by (simp add: mult.commute mult.left_commute)
    finally show ?case using Suc by (simp add: fold_res_append ac_simps)
  qed simp
  show ?thesis
    unfolding yuv422_to_yuv420_def 1 bind_res.simps using 2 [of k] mk
    by (simp add: even_chroma_def mult.commute mult.left_commute)
qed

lemma fold_res_collect:
  assumes "\<And>i. i < n \<Longrightarrow> f i = Inr (g i)"
  shows "fold_res (\<lambda>out i. bind_res (f i) (\<lambda>s. Inr (out @ [s]))) [] [0 ..< n] = Inr (map g [0 ..< n])"
  using assms by (induction n) (simp_all add: fold_res_append)

definition strips_of :: "nat \<Rightarrow> nat \<Rightarrow> byte list \<Rightarrow> byte list \<Rightarrow> byte list \<Rightarrow> (byte list \<times> byte list \<times> byte list) list" where
  "strips_of w h y u v = map (\<lambda>i. (take (8 * w) (drop (i * (8 * w)) y), take (4 * w) (drop (i * (4 * w)) u),
     take (4 * w) (drop (i * (4 * w)) v))) [0 ..< h div 8]"

lemma strips_of_planes:
  assumes "8 dvd h" and "length y = w * h" and "2 * length u = w * h" and "2 * length v = w * h"
  shows "concat (map fst (strips_of w h y u v)) = y" and "concat (map (\<lambda>s. fst (snd s)) (strips_of w h y u v)) = u"
    and "concat (map (\<lambda>s. snd (snd s)) (strips_of w h y u v)) = v"
proof -
  obtain m where m: "h = 8 * m" using assms(1) by blast
  then show "concat (map fst (strips_of w h y u v)) = y" "concat (map (\<lambda>s. fst (snd s)) (strips_of w h y u v)) = u"
    "concat (map (\<lambda>s. snd (snd s)) (strips_of w h y u v)) = v"
    using assms(2-4) by (simp_all add: strips_of_def comp_def concat_chunks mult.commute mult.left_commute)
qed

lemma jpeg_strips_planes:
  assumes "16 dvd w" and "8 dvd h" and "length y = w * h" and "2 * length u = w * h" and "2 * length v = w * h"
  shows "jpeg_strips (y @ u @ v @ rest) w h = Inr (strips_of w h y u v)"
proof -
  obtain a where a: "w = 16 * a" using assms(1) by blast
  obtain m where m: "h = 8 * m" using assms(2) by blast
  have blocks: "map (\<lambda>b. b * 8) (width_in_blocks w) = [w, 8 * a, 8 * a]" by (simp add: width_in_blocks_def a)
  have n: "(h + 7) div 8 = h div 8" "h div 8 = m" "w * h div 2 = length u" using m assms(4) by simp_all
  have strip: "jpeg_strip (y @ u @ v @ rest) w h i = Inr (take (8 * w) (drop (i * (8 * w)) y),
      take (4 * w) (drop (i * (4 * w)) u), take (4 * w) (drop (i * (4 * w)) v))" if "i < m" for i
  proof -
    have "jpeg_band (y @ u @ v @ rest) 0 w i = Inr (take (8 * w) (drop (i * 8 * w) y))"
      using jpeg_band_rows [of "[]" 0 y m w i "u @ v @ rest"] assms(3) m that by simp
    moreover have "jpeg_band (y @ u @ v @ rest) (w * h) (8 * a) i = Inr (take (8 * (8 * a)) (drop (i * 8 * (8 * a)) u))"
      using jpeg_band_rows [of y "w * h" u m "8 * a" i "v @ rest"] assms(3,4) a m that by simp
    moreover have "jpeg_band (y @ u @ v @ rest) (w * h + length u) (8 * a) i = Inr (take (8 * (8 * a)) (drop (i * 8 * (8 * a)) v))"
      using jpeg_band_rows [of "y @ u" "w * h + length u" v m "8 * a" i rest] assms(3,5) a m that by simp
    ultimately show ?thesis
      unfolding jpeg_strip_def blocks Let_def n(3) by (simp add: a mult.assoc)
  qed
  show ?thesis
    unfolding jpeg_strips_def n strips_of_def by (rule fold_res_collect [OF strip])
qed

section \<open>Properties\<close>

text \<open>
  C20. The planar picture of a YUYV picture holds the luma of the pixels, then the two chroma planes, and
  the strips made from it for the JPEG library, put together, are exactly these planes: the library
  gets every byte of the picture once, and no strip reaches beyond the picture.
\<close>

theorem jpeg_gets_picture:
  assumes "16 dvd w" and "8 dvd h" and "2 * length px = w * h" and "2 * (w * h) \<le> length dest"
  shows "\<exists>d strips. yuv422_to_planner (yuyv px @ rest) dest w h = Inr (2 * (w * h), d) \<and>
    take (2 * (w * h)) d = luma px @ cb px @ cr px \<and> drop (2 * (w * h)) d = drop (2 * (w * h)) dest \<and>
    jpeg_strips d w h = Inr strips \<and> length strips = h div 8 \<and>
    concat (map fst strips) = luma px \<and> concat (map (\<lambda>s. fst (snd s)) strips) = cb px \<and>
    concat (map (\<lambda>s. snd (snd s)) strips) = cr px"
proof -
  let ?d = "luma px @ cb px @ cr px @ drop (2 * (w * h)) dest"
  have l: "length (luma px) = w * h" "2 * length (cb px) = w * h" "2 * length (cr px) = w * h"
    using assms(3) by (simp_all only: yuv_lengths)
  have n: "length (luma px @ cb px @ cr px) = 2 * (w * h)" using l by (simp only: length_append)
  have "take (2 * (w * h)) ?d = luma px @ cb px @ cr px" "drop (2 * (w * h)) ?d = drop (2 * (w * h)) dest"
    unfolding n [symmetric] by simp_all
  then show ?thesis
    using planner_planes [OF assms(3,4), of rest] jpeg_strips_planes [OF assms(1,2) l, of "drop (2 * (w * h)) dest"]
      strips_of_planes [OF assms(2) l]
    by (intro exI [of _ ?d] exI [of _ "strips_of w h (luma px) (cb px) (cr px)"]) (simp add: strips_of_def)
qed

theorem jpeg_gets_picture_witness:
  "\<exists>d strips. yuv422_to_planner (yuyv (replicate 64 (CHR ''a'', CHR ''b'', CHR ''c'', CHR ''d''))) (replicate 256 NUL) 16 8
      = Inr (256, d) \<and> jpeg_strips d 16 8 = Inr strips \<and> length strips = 1 \<and>
     concat (map (\<lambda>s. snd (snd s)) strips) = replicate 64 (CHR ''d'')"
proof -
  let ?px = "replicate 64 (CHR ''a'', CHR ''b'', CHR ''c'', CHR ''d'')"
  have "(16 :: nat) dvd 16" "(8 :: nat) dvd 8" "2 * length ?px = 16 * 8" "2 * (16 * 8) \<le> length (replicate 256 NUL)"
    by simp_all
  note J = jpeg_gets_picture [OF this, of "[]"]
  have "cr ?px = replicate 64 (CHR ''d'')" "2 * (16 * 8) = (256 :: nat)" "8 div 8 = (1 :: nat)" by (simp_all add: cr_def)
  with J show ?thesis unfolding append_Nil2 by metis
qed

text \<open>
  The picture in picture is the luma followed by the chroma of every second line, in as many bytes
  as the function returns, and the picture for the analysis is the luma alone; both, and the planar
  picture, start with the same bytes.
\<close>

theorem pip_and_analysis_pictures:
  assumes "even w" and "even h" and "2 * length px = w * h" and "w * h * 3 div 2 \<le> length dest"
  shows "yuv422_to_yuv420 (yuyv px @ rest) dest w h
      = Inr (w * h * 3 div 2, luma px @ even_chroma w h px @ drop (w * h * 3 div 2) dest) \<and>
    yuv422_to_y (yuyv px @ rest) dest w h = Inr (w * h, luma px @ drop (w * h) dest)"
proof -
  have "w * h \<le> length dest" using assms(4) by linarith
  then have "yuv422_to_y (yuyv px @ rest) dest w h = Inr (w * h, luma px @ drop (w * h) dest)"
    by (rule yuv422_to_y_luma [OF assms(3)])
  then show ?thesis using yuv420_planes [OF assms(3,1,2,4)] by blast
qed

theorem pip_and_analysis_pictures_witness:
  "yuv422_to_yuv420 ''aubvcxdy'' (replicate 6 NUL) 2 2 = Inr (6, ''abcduv'') \<and>
   yuv422_to_y ''aubvcxdy'' (replicate 6 NUL) 2 2 = Inr (4, ''abcd'' @ [NUL, NUL])"
proof -
  let ?px = "[(CHR ''a'', CHR ''u'', CHR ''b'', CHR ''v''), (CHR ''c'', CHR ''x'', CHR ''d'', CHR ''y'')]"
  have "even (2 :: nat)" "2 * length ?px = 2 * 2" "2 * 2 * 3 div 2 \<le> length (replicate 6 NUL)" by simp_all
  moreover have "yuyv ?px @ [] = ''aubvcxdy''" "even_chroma 2 2 ?px = ''uv''" "luma ?px = ''abcd''"
    "2 * 2 * 3 div 2 = (6 :: nat)"
    by (simp_all add: even_chroma_def)
  moreover have "replicate 2 NUL = [NUL, NUL]" by (simp add: numeral_2_eq_2)
  ultimately show ?thesis
    using pip_and_analysis_pictures [of 2 2 ?px "replicate 6 NUL" "[]"] by simp
qed

end
