(* ===== verification/Image_Thread.thy ===== *)
theory Image_Thread
  imports Board_Threads Yuv_Picture Director_Thread
begin

text \<open>
  The image thread (\<^verbatim>\<open>thread_img\<close> in \<^verbatim>\<open>recbcsrv/recbc_srv.c\<close>): every picture of the boards goes to the
  instructor as a JPEG, the picture of the marked video goes to board A as picture in picture, and every
  fifth picture of the teacher's close-up, as long as the camera does not move, goes to the analysis
  with its number since the last move. The thread runs on the network of fifos that \<^verbatim>\<open>main\<close> builds.
\<close>

section \<open>The state of the thread\<close>

text \<open>The fifos of the thread; \<open>img1\<close> to \<open>img6\<close> are the pictures of the six videos of \<open>g_vmap_table\<close>.\<close>

record t_img_thread_param =
  PIP_producer_fifo :: fifo_id
  JPEG_producer_fifo :: fifo_id
  filtered_img_producer_fifo :: fifo_id
  img_consumer_fifo :: fifo_id
  imgM :: fifo_id
  imgV :: fifo_id
  img1 :: fifo_id
  img2 :: fifo_id
  img3 :: fifo_id
  img4 :: fifo_id
  img5 :: fifo_id
  img6 :: fifo_id

definition imgs :: "t_img_thread_param \<Rightarrow> fifo_id list" where
  "imgs P = [img1 P, img2 P, img3 P, img4 P, img5 P, img6 P]"

definition main_img_param :: t_img_thread_param where
  "main_img_param = \<lparr>PIP_producer_fifo = F_PIP_producer_fifo, JPEG_producer_fifo = F_JPEG_producer_fifo,
     filtered_img_producer_fifo = F_Filtered_img_producer_fifo, img_consumer_fifo = F_Img_consumer_fifo,
     imgM = F_ImgM_producer_fifo, imgV = F_ImgV_producer_fifo, img1 = F_Img1_producer_fifo,
     img2 = F_Img2_producer_fifo, img3 = F_Img3_producer_fifo, img4 = F_Img4_producer_fifo,
     img5 = F_Img5_producer_fifo, img6 = F_Img6_producer_fifo\<rparr>"

text \<open>
  \<open>jpeg\<close>: the JPEG library on the strips of a picture. \<open>im_msg\<close> and \<open>im_rate\<close>: the stack memory of the
  packetisers (\<open>Msg\<close>, and the field of \<open>frm_info\<close> that is not assigned).
\<close>

record img_env =
  jpeg :: "(byte list \<times> byte list \<times> byte list) list \<Rightarrow> byte list"
  im_msg :: "byte list"
  im_rate :: u32

text \<open>The two buffers, the globals under \<^verbatim>\<open>g_capture_sync_mutex\<close>, and what has been added to fifos.\<close>

record img_state =
  buffer1 :: "byte list"
  buffer2 :: "byte list"
  im_sync :: capture_sync
  im_adds :: "(fifo_id \<times> fifo_add) list"

section \<open>One picture\<close>

text \<open>To JPEG, and to the instructor.\<close>

definition img_to_jpeg :: "img_env \<Rightarrow> t_img_thread_param \<Rightarrow> byte list \<Rightarrow> u32 \<Rightarrow> u32 \<Rightarrow> img_state \<Rightarrow> img_state res" where
  "img_to_jpeg e P src ts channel st =
     bind_res (yuv422_to_planner src (buffer1 st) 256 144) (\<lambda>(_, b1).
     bind_res (yuv422_to_jpeg (jpeg e) b1 (buffer2 st) 256 144) (\<lambda>(len, b2).
     bind_res (JPEGPacknSend2df (im_msg e) (im_rate e) b2 (int len) ts ts channel) (\<lambda>adds.
     Inr (st\<lparr>buffer1 := b1, buffer2 := b2, im_adds := im_adds st @ map (Pair (JPEG_producer_fifo P)) adds\<rparr>))))"

text \<open>To the picture in picture.\<close>

definition img_to_pip :: "img_env \<Rightarrow> t_img_thread_param \<Rightarrow> byte list \<Rightarrow> u32 \<Rightarrow> img_state \<Rightarrow> img_state res" where
  "img_to_pip e P src ts st =
     bind_res (yuv422_to_yuv420 src (buffer1 st) 256 144) (\<lambda>(len, b1).
     bind_res (PIPPacknSend2df (im_msg e) (im_rate e) b1 (int len) ts ts 0) (\<lambda>adds.
     Inr (st\<lparr>buffer1 := b1, im_adds := im_adds st @ map (Pair (PIP_producer_fifo P)) adds\<rparr>)))"

text \<open>
  The critical section: the number of the picture in the group when it is to be analysed, and the
  globals after it. The code tests the copies it has taken; they are the values before the update.
\<close>

abbreviation (input) "SKIP_STEP \<equiv> 5 :: int"

definition capture_tick :: "capture_sync \<Rightarrow> u32 option \<times> capture_sync" where
  "capture_tick cs =
     (let camholder_still = g_camholder_still cs; analyze_frame_num = g_analyze_frame_num cs;
          num_in_group = g_num_in_group cs;
          cs' = (if g_camholder_still cs then
                   (let cs1 = cs\<lparr>g_analyze_frame_num := g_analyze_frame_num cs + 1\<rparr>
                    in if sint (g_analyze_frame_num cs1) smod SKIP_STEP = 0
                       then cs1\<lparr>g_num_in_group := g_num_in_group cs1 + 1\<rparr> else cs1)
                 else cs)
      in (if camholder_still \<and> sint (analyze_frame_num + 1) smod SKIP_STEP = 0 then Some num_in_group else None, cs'))"

definition img_to_analysis :: "t_img_thread_param \<Rightarrow> byte list \<Rightarrow> img_state \<Rightarrow> img_state res" where
  "img_to_analysis P src st =
     (case capture_tick (im_sync st) of
        (None, cs) \<Rightarrow> Inr (st\<lparr>im_sync := cs\<rparr>)
      | (Some num, cs) \<Rightarrow>
          bind_res (yuv422_to_y src (buffer1 st) 256 144) (\<lambda>(len, b1).
          bind_res (mem_read b1 0 len) (\<lambda>data.
          Inr (st\<lparr>im_sync := cs, buffer1 := b1, im_adds := im_adds st @
            [(filtered_img_producer_fifo P, \<lparr>fa_data = data, fa_flags = WHOLE_FRAME, fa_timestamp = num\<rparr>)]\<rparr>))))"

text \<open>The block of video \<open>k\<close>; the six blocks of the code differ in \<open>k\<close> only.\<close>

definition img_channel :: "img_env \<Rightarrow> t_img_thread_param \<Rightarrow> vmap_table \<Rightarrow> nat \<Rightarrow> byte list \<Rightarrow> u32 \<Rightarrow> img_state \<Rightarrow> img_state res" where
  "img_channel e P vm k src ts st =
     bind_res (img_to_jpeg e P src ts (word_of_int (vm_function (vm ! k))) st) (\<lambda>st1.
     bind_res (if vm_pip (vm ! k) \<noteq> 0 then img_to_pip e P src ts st1 else Inr st1) (\<lambda>st2.
     if vm_function (vm ! k) = 1 then img_to_analysis P src st2 else Inr st2))"

text \<open>
  The tests on the producer of the picture, one after the other. \<open>imgM\<close>, the main video, is compared
  too, but nothing is done with its pictures.
\<close>

definition img_frame :: "img_env \<Rightarrow> t_img_thread_param \<Rightarrow> vmap_table \<Rightarrow> fifo_id \<Rightarrow> byte list \<Rightarrow> u32 \<Rightarrow> img_state \<Rightarrow> img_state res" where
  "img_frame e P vm p src ts st =
     bind_res (if p = imgV P then img_to_jpeg e P src ts 0 st else Inr st) (\<lambda>st1.
     fold_res (\<lambda>st k. if p = imgs P ! k then img_channel e P vm k src ts st else Inr st) st1 [0 ..< 6])"

section \<open>A turn of the loop\<close>

text \<open>\<^verbatim>\<open>datafifo_head(df)->ref->datafifo\<close>, and the memory behind \<^verbatim>\<open>datafifo_head(df)->arg.data\<close>.\<close>

definition head_producer :: "fifos \<Rightarrow> fifo_id \<Rightarrow> fifo_id option" where
  "head_producer s c =
     (case listhead (s c) of None \<Rightarrow> None | Some h \<Rightarrow> map_option fst (it_ref (itm s c h)))"

definition head_memory :: "fifos \<Rightarrow> fifo_id \<Rightarrow> byte list" where
  "head_memory s c =
     (case listhead (s c) of None \<Rightarrow> []
      | Some h \<Rightarrow> (case arg_data (itm s c h) of None \<Rightarrow> [] | Some (f, i) \<Rightarrow> bufs (s f) ! i))"

definition add_each :: "(fifo_id \<times> fifo_add) list \<Rightarrow> fifos \<Rightarrow> fifos res" where
  "add_each adds s = fold_res (\<lambda>s (p, x). bind_res (add_piece p x s) (\<lambda>(ret, s'). Inr s')) s adds"

text \<open>
  One turn, without another thread in between; the picture thread is the only one that adds to the three
  fifos and that takes from the queue of pictures.
\<close>

definition img_turn :: "img_env \<Rightarrow> t_img_thread_param \<Rightarrow> vmap_table \<Rightarrow> img_state \<times> fifos \<Rightarrow> (img_state \<times> fifos) res" where
  "img_turn e P vm = (\<lambda>(st, s).
     case listhead (s (img_consumer_fifo P)) of
       None \<Rightarrow> Inr (st, s)
     | Some h \<Rightarrow>
         (case head_producer s (img_consumer_fifo P) of
            None \<Rightarrow> Inl Null_Deref
          | Some p \<Rightarrow>
              bind_res (img_frame e P vm p (head_memory s (img_consumer_fifo P))
                (arg_timestamp (itm s (img_consumer_fifo P) h)) (st\<lparr>im_adds := []\<rparr>)) (\<lambda>st'.
              bind_res (add_each (im_adds st') s) (\<lambda>s1.
              bind_res (datafifo_consumer_remove_head (img_consumer_fifo P) s1) (\<lambda>(ret, s2).
              Inr (st', s2))))))"

definition img_start :: "byte list \<Rightarrow> byte list \<Rightarrow> capture_sync \<Rightarrow> img_state" where
  "img_start b1 b2 cs = \<lparr>buffer1 = b1, buffer2 = b2, im_sync = cs, im_adds = []\<rparr>"

section \<open>Buffers longer than their content\<close>

lemma fold_res_mono:
  assumes "\<And>s x s'. f s x = Inr s' \<Longrightarrow> f' s x = Inr s'"
  shows "fold_res f s xs = Inr t \<Longrightarrow> fold_res f' s xs = Inr t"
  using assms by (induction xs arbitrary: s) (auto simp: res_simps)

lemma mem_read_extend: "mem_read pic off n = Inr d \<Longrightarrow> mem_read (pic @ rest) off n = Inr d"
  by (auto simp: mem_read_def split: if_splits)

lemma pack_step_extend:
  "pack_step g c ch pic info s i = Inr s' \<Longrightarrow> pack_step g c ch (pic @ rest) info s i = Inr s'"
proof (cases s)
  case (fields ptr residual out)
  assume s': "pack_step g c ch pic info s i = Inr s'"
  let ?n = "unat (if of_nat 1024 < residual then of_nat 1024 else residual)"
  obtain d where d: "mem_read pic ptr ?n = Inr d"
    using s' unfolding fields pack_step_def prod.case Let_def bind_res_Inr by blast
  show ?thesis
    using s' unfolding fields pack_step_def prod.case Let_def d mem_read_extend [OF d] by simp
qed

definition packet_msgs :: "string \<Rightarrow> u32 \<Rightarrow> u32 \<Rightarrow> u32 \<Rightarrow> byte list \<Rightarrow> fifo_add list" where
  "packet_msgs c fr ts channel pic =
     map (\<lambda>i. msg_of (c, packet_calls channel (\<lambda>i. packet_info fr (int (length pic)) ts ts (of_nat i)) pic i))
       [0 ..< num_pkts (length pic)]"

lemma packn_buffer:
  assumes "length g = CMD_BUFSIZE" and "length pic < 2147483648"
  shows "JPEGPacknSend2df g fr (pic @ rest) (int (length pic)) ts ts channel = Inr (packet_msgs COMMAND_EVENT_JPEG fr ts channel pic)"
    and "PIPPacknSend2df g fr (pic @ rest) (int (length pic)) ts ts channel = Inr (packet_msgs COMMAND_EVENT_PIP fr ts channel pic)"
proof -
  note P = packn_correct [OF assms refl, of fr ts ts channel, folded packet_msgs_def]
  have ext: "fold_res (pack_step g c channel (pic @ rest) info) s xs = Inr t"
    if "fold_res (pack_step g c channel pic info) s xs = Inr t" for c info s xs t
    by (rule fold_res_mono [OF pack_step_extend that])
  show "JPEGPacknSend2df g fr (pic @ rest) (int (length pic)) ts ts channel = Inr (packet_msgs COMMAND_EVENT_JPEG fr ts channel pic)"
    using P(1) unfolding JPEGPacknSend2df_def Let_def by (auto simp: res_simps dest!: ext)
  show "PIPPacknSend2df g fr (pic @ rest) (int (length pic)) ts ts channel = Inr (packet_msgs COMMAND_EVENT_PIP fr ts channel pic)"
    using P(2) unfolding PIPPacknSend2df_def Let_def by (auto simp: res_simps dest!: ext)
qed

section \<open>What becomes of a whole picture\<close>

text \<open>The buffers have the sizes that are allocated; they keep them.\<close>

definition img_ok :: "img_state \<Rightarrow> bool" where
  "img_ok st \<longleftrightarrow> length (buffer1 st) = 256 * 144 * 2 \<and> length (buffer2 st) = 256 * 144 * 2 * 2"

text \<open>The JPEG library gets whole pictures and its output fits into the second buffer.\<close>

definition jpeg_of :: "img_env \<Rightarrow> pixel_pair list \<Rightarrow> byte list" where
  "jpeg_of e px = jpeg e (strips_of 256 144 (luma px) (cb px) (cr px))"

definition env_ok :: "img_env \<Rightarrow> pixel_pair list \<Rightarrow> bool" where
  "env_ok e px \<longleftrightarrow> length (im_msg e) = CMD_BUFSIZE \<and> length (jpeg_of e px) \<le> 256 * 144 * 2 * 2"

definition pip_of :: "pixel_pair list \<Rightarrow> byte list" where
  "pip_of px = luma px @ even_chroma 256 144 px"

text \<open>What is added: the specification of the blocks.\<close>

definition jpeg_adds :: "img_env \<Rightarrow> pixel_pair list \<Rightarrow> u32 \<Rightarrow> u32 \<Rightarrow> fifo_add list" where
  "jpeg_adds e px ts channel = packet_msgs COMMAND_EVENT_JPEG (im_rate e) ts channel (jpeg_of e px)"

definition pip_adds :: "img_env \<Rightarrow> pixel_pair list \<Rightarrow> u32 \<Rightarrow> fifo_add list" where
  "pip_adds e px ts = packet_msgs COMMAND_EVENT_PIP (im_rate e) ts 0 (pip_of px)"

definition y_adds :: "pixel_pair list \<Rightarrow> u32 option \<Rightarrow> fifo_add list" where
  "y_adds px num = (case num of None \<Rightarrow> [] | Some n \<Rightarrow> [\<lparr>fa_data = luma px, fa_flags = WHOLE_FRAME, fa_timestamp = n\<rparr>])"

lemma img_to_jpeg_adds:
  assumes "img_ok st" and "env_ok e px" and "length px = 18432"
  shows "\<exists>b1 b2. img_to_jpeg e P (yuyv px @ rest) ts channel st =
      Inr (st\<lparr>buffer1 := b1, buffer2 := b2, im_adds := im_adds st @ map (Pair (JPEG_producer_fifo P)) (jpeg_adds e px ts channel)\<rparr>) \<and>
    length b1 = 256 * 144 * 2 \<and> length b2 = 256 * 144 * 2 * 2"
proof -
  let ?b1 = "luma px @ cb px @ cr px @ drop (2 * (256 * 144)) (buffer1 st)"
  let ?b2 = "jpeg_of e px @ drop (length (jpeg_of e px)) (buffer2 st)"
  have L: "length (buffer1 st) = 73728" "length (buffer2 st) = 147456" "length (jpeg_of e px) \<le> 147456"
    "length (im_msg e) = CMD_BUFSIZE"
    using assms by (simp_all add: img_ok_def env_ok_def)
  have p: "yuv422_to_planner (yuyv px @ rest) (buffer1 st) 256 144 = Inr (2 * (256 * 144), ?b1)"
    by (rule planner_planes) (use assms(3) L in simp_all)
  have "jpeg_strips ?b1 256 144 = Inr (strips_of 256 144 (luma px) (cb px) (cr px))"
    by (rule jpeg_strips_planes) (use assms(3) in simp_all)
  then have j: "yuv422_to_jpeg (jpeg e) ?b1 (buffer2 st) 256 144 = Inr (length (jpeg_of e px), ?b2)"
    using L by (simp add: yuv422_to_jpeg_def jpeg_of_def mem_write_def)
  have k: "JPEGPacknSend2df (im_msg e) (im_rate e) ?b2 (int (length (jpeg_of e px))) ts ts channel = Inr (jpeg_adds e px ts channel)"
    unfolding jpeg_adds_def using L by (intro packn_buffer(1)) simp_all
  show ?thesis
    unfolding img_to_jpeg_def p bind_res.simps prod.case j k using assms(3) L
    by (intro exI [of _ ?b1] exI [of _ ?b2]) simp
qed

lemma length_pip_of: "length px = 18432 \<Longrightarrow> length (pip_of px) = 256 * 144 * 3 div 2"
  using length_even_chroma [of px 256 144 72] by (simp add: pip_of_def even_chroma_def)

lemma img_to_pip_adds:
  assumes "img_ok st" and "env_ok e px" and "length px = 18432"
  shows "\<exists>b1. img_to_pip e P (yuyv px @ rest) ts st =
      Inr (st\<lparr>buffer1 := b1, im_adds := im_adds st @ map (Pair (PIP_producer_fifo P)) (pip_adds e px ts)\<rparr>) \<and>
    length b1 = 256 * 144 * 2"
proof -
  let ?n = "256 * 144 * 3 div 2 :: nat"
  let ?b1 = "luma px @ even_chroma 256 144 px @ drop ?n (buffer1 st)"
  have L: "length (buffer1 st) = 73728" "length (im_msg e) = CMD_BUFSIZE" "length (pip_of px) = ?n"
    using assms length_pip_of by (simp_all add: img_ok_def env_ok_def)
  have p: "yuv422_to_yuv420 (yuyv px @ rest) (buffer1 st) 256 144 = Inr (?n, ?b1)"
    by (rule yuv420_planes) (use assms(3) L in simp_all)
  have "PIPPacknSend2df (im_msg e) (im_rate e) (pip_of px @ drop ?n (buffer1 st)) (int (length (pip_of px))) ts ts 0
      = Inr (pip_adds e px ts)"
    unfolding pip_adds_def using L by (intro packn_buffer(2)) simp_all
  then have k: "PIPPacknSend2df (im_msg e) (im_rate e) ?b1 (int ?n) ts ts 0 = Inr (pip_adds e px ts)"
    unfolding L(3) by (simp add: pip_of_def)
  have "length ?b1 = length (pip_of px) + (73728 - ?n)" using L(1) by (simp add: pip_of_def)
  then have "length ?b1 = 73728" unfolding L(3) by simp
  then show ?thesis
    unfolding img_to_pip_def p bind_res.simps prod.case k by (intro exI [of _ ?b1]) simp
qed

lemma img_to_analysis_adds:
  assumes "img_ok st" and "length px = 18432" and "capture_tick (im_sync st) = (num, cs)"
  shows "\<exists>b1. img_to_analysis P (yuyv px @ rest) st =
      Inr (st\<lparr>im_sync := cs, buffer1 := b1, im_adds := im_adds st @ map (Pair (filtered_img_producer_fifo P)) (y_adds px num)\<rparr>) \<and>
    length b1 = 256 * 144 * 2"
proof (cases num)
  case None
  then show ?thesis using assms by (intro exI [of _ "buffer1 st"]) (simp add: img_to_analysis_def y_adds_def img_ok_def)
next
  case (Some n)
  let ?b1 = "luma px @ drop (256 * 144) (buffer1 st)"
  have L: "length (buffer1 st) = 73728" using assms(1) by (simp add: img_ok_def)
  have p: "yuv422_to_y (yuyv px @ rest) (buffer1 st) 256 144 = Inr (256 * 144, ?b1)"
    by (rule yuv422_to_y_luma) (use assms(2) L in simp_all)
  have m: "mem_read ?b1 0 (256 * 144) = Inr (luma px)" using assms(2) by (simp add: mem_read_def)
  show ?thesis
    unfolding img_to_analysis_def assms(3) Some prod.case option.case p bind_res.simps m y_adds_def
    using assms(2) L by (intro exI [of _ ?b1]) simp
qed

text \<open>The three parts of a block, and the critical section when it is the teacher's close-up.\<close>

definition sync_after :: "vmap_table \<Rightarrow> nat \<Rightarrow> capture_sync \<Rightarrow> u32 option \<times> capture_sync" where
  "sync_after vm k cs = (if vm_function (vm ! k) = 1 then capture_tick cs else (None, cs))"

definition channel_adds :: "img_env \<Rightarrow> t_img_thread_param \<Rightarrow> vmap_table \<Rightarrow> nat \<Rightarrow> pixel_pair list \<Rightarrow> u32 \<Rightarrow> u32 option \<Rightarrow> (fifo_id \<times> fifo_add) list" where
  "channel_adds e P vm k px ts num =
     map (Pair (JPEG_producer_fifo P)) (jpeg_adds e px ts (word_of_int (vm_function (vm ! k)))) @
     map (Pair (PIP_producer_fifo P)) (if vm_pip (vm ! k) \<noteq> 0 then pip_adds e px ts else []) @
     map (Pair (filtered_img_producer_fifo P)) (y_adds px num)"

lemma img_channel_adds:
  assumes "img_ok st" and "env_ok e px" and "length px = 18432" and "sync_after vm k (im_sync st) = (num, cs)"
  shows "\<exists>st'. img_channel e P vm k (yuyv px @ rest) ts st = Inr st' \<and> img_ok st' \<and> im_sync st' = cs \<and>
    im_adds st' = im_adds st @ channel_adds e P vm k px ts num"
proof -
  obtain b1 b2 where j: "img_to_jpeg e P (yuyv px @ rest) ts (word_of_int (vm_function (vm ! k))) st =
      Inr (st\<lparr>buffer1 := b1, buffer2 := b2, im_adds := im_adds st @
        map (Pair (JPEG_producer_fifo P)) (jpeg_adds e px ts (word_of_int (vm_function (vm ! k))))\<rparr>)"
    "length b1 = 256 * 144 * 2" "length b2 = 256 * 144 * 2 * 2"
    using img_to_jpeg_adds [OF assms(1-3)] by blast
  define st1 where "st1 = st\<lparr>buffer1 := b1, buffer2 := b2, im_adds := im_adds st @
    map (Pair (JPEG_producer_fifo P)) (jpeg_adds e px ts (word_of_int (vm_function (vm ! k))))\<rparr>"
  have ok1: "img_ok st1" using j by (simp add: st1_def img_ok_def)
  obtain st2 where st2: "(if vm_pip (vm ! k) \<noteq> 0 then img_to_pip e P (yuyv px @ rest) ts st1 else Inr st1) = Inr st2"
    "img_ok st2" "im_sync st2 = im_sync st"
    "im_adds st2 = im_adds st1 @ map (Pair (PIP_producer_fifo P)) (if vm_pip (vm ! k) \<noteq> 0 then pip_adds e px ts else [])"
  proof (cases "vm_pip (vm ! k) = 0")
    case True
    then show thesis using that [of st1] ok1 by (simp add: st1_def)
  next
    case False
    then show thesis using that img_to_pip_adds [OF ok1 assms(2,3), of P rest ts] ok1 by (auto simp: st1_def img_ok_def)
  qed
  obtain st3 where st3: "(if vm_function (vm ! k) = 1 then img_to_analysis P (yuyv px @ rest) st2 else Inr st2) = Inr st3"
    "img_ok st3" "im_sync st3 = cs" "im_adds st3 = im_adds st2 @ map (Pair (filtered_img_producer_fifo P)) (y_adds px num)"
  proof (cases "vm_function (vm ! k) = 1")
    case True
    then have "capture_tick (im_sync st2) = (num, cs)" using assms(4) st2(3) by (simp add: sync_after_def)
    then show thesis using that img_to_analysis_adds [OF st2(2) assms(3), of num cs P rest] st2(2) True by (auto simp: img_ok_def)
  next
    case False
    then show thesis using that [of st2] st2 assms(4) by (simp add: sync_after_def y_adds_def)
  qed
  show ?thesis
    unfolding img_channel_def j(1) bind_res.simps st1_def [symmetric] st2(1) st3(1)
    using st3 st2(4) by (simp add: channel_adds_def st1_def)
qed

section \<open>The producer of the picture\<close>

lemma fold_res_select:
  assumes "k < n"
  shows "fold_res (\<lambda>s i. if i = k then f i s else Inr s) s [0 ..< n] = f k s"
proof -
  have none: "fold_res (\<lambda>s i. if i = k then f i s else Inr s) s xs = Inr s" if "k \<notin> set xs" for s xs
    using that by (induction xs) auto
  have "[0 ..< n] = [0 ..< k] @ k # [Suc k ..< n]"
    using assms by (metis less_imp_le_nat upt_add_eq_append upt_conv_Cons le_add_diff_inverse zero_le)
  then show ?thesis using none by (cases "f k s") (simp_all add: fold_res_append)
qed

lemma img_frame_channel:
  assumes "distinct (imgV P # imgs P)" and "k < 6"
  shows "img_frame e P vm (imgs P ! k) src ts st = img_channel e P vm k src ts st"
proof -
  have l: "length (imgs P) = 6" by (simp add: imgs_def)
  have "(\<lambda>st i. if imgs P ! k = imgs P ! i then img_channel e P vm i src ts st else Inr st) st i
      = (\<lambda>st i. if i = k then img_channel e P vm i src ts st else Inr st) st i" if "i \<in> set [0 ..< 6]" for st i
    using that assms l nth_eq_iff_index_eq [of "imgs P" k i] by auto
  then have "fold_res (\<lambda>st i. if imgs P ! k = imgs P ! i then img_channel e P vm i src ts st else Inr st) st [0 ..< 6]
      = fold_res (\<lambda>st i. if i = k then img_channel e P vm i src ts st else Inr st) st [0 ..< 6]"
    by (intro fold_res_cong) auto
  moreover have "imgs P ! k \<in> set (imgs P)" using assms(2) l by simp
  then have "imgs P ! k \<noteq> imgV P" using assms(1) by auto
  ultimately show ?thesis
    using fold_res_select [OF assms(2), of "\<lambda>i. img_channel e P vm i src ts"] by (simp add: img_frame_def)
qed

lemma img_frame_main_video:
  "p \<noteq> imgV P \<Longrightarrow> p \<notin> set (imgs P) \<Longrightarrow> img_frame e P vm p src ts st = Inr st"
proof -
  assume p: "p \<noteq> imgV P" "p \<notin> set (imgs P)"
  have "fold_res (\<lambda>st i. if p = imgs P ! i then img_channel e P vm i src ts st else Inr st) st xs = Inr st"
    if "set xs \<subseteq> {..< 6}" for xs
  proof -
    have l: "length (imgs P) = 6" by (simp add: imgs_def)
    have "p \<noteq> imgs P ! i" if "i < 6" for i using p(2) l that nth_mem [of i "imgs P"] by auto
    then show ?thesis using that by (induction xs) auto
  qed
  then show ?thesis using p(1) by (simp add: img_frame_def lessThan_atLeast0)
qed

section \<open>Whole frames on the network\<close>

lemma producer_post_trans:
  assumes "producer_post P C p m s s1 None o1" and "producer_post P C p n s1 s2 pe o2" and "p \<in> P"
  shows "producer_post P C p (m + n) s s2 pe (o1 @ o2)"
proof -
  have l: "links s1 p c = links s p c" for c using assms(1,3) by (simp add: producer_post_def links_def)
  have b: "broadcast k (o1 @ o2) = broadcast k o1 @ broadcast k o2" for k by (simp add: broadcast_def)
  show ?thesis using assms(1,2,3) l b unfolding producer_post_def by (auto simp: add_mult_distrib2)
qed

lemma add_whole_frames:
  assumes "fifos_ok P C s" and "p \<in> P" and "pending s p = None" and "unat (data_maxlen (s p)) < 2 ^ 31"
    and "\<forall>x\<in>set xs. fa_flags x = WHOLE_FRAME \<and> length (fa_data x) \<le> unat (data_maxlen (s p))"
    and "in_use s p + length xs \<le> capacity s p"
    and "\<forall>c\<in>C. in_use s c + links s p c * length xs \<le> capacity s c"
  shows "\<exists>s'. add_pieces p xs s = Inr s' \<and>
    producer_post P C p (length xs) s s' None (map (\<lambda>x. (fa_data x, 0, fa_timestamp x)) xs)"
  using assms
proof (induction xs arbitrary: s)
  case Nil
  then show ?case by (simp add: add_pieces_def producer_post_def)
next
  case (Cons x xs)
  let ?m = "unat (data_maxlen (s p))"
  have x: "fa_flags x = WHOLE_FRAME" "length (fa_data x) \<le> ?m" using Cons.prems(5) by simp_all
  have l: "unat (of_nat (length (fa_data x)) :: u32) = length (fa_data x)"
    using x(2) Cons.prems(4) by (simp add: unat_of_nat take_bit_nat_eq_self)
  have fra: "framer ?m (pending s p) (fa_data x, fa_flags x, fa_timestamp x) = (0, None, [(fa_data x, 0, fa_timestamp x)])"
    using x Cons.prems(3) by (simp add: framer_def open_frame_def new_flags_def)
  have room: "\<forall>c\<in>C. in_use s c + links s p c * length [(fa_data x, 0 :: u32, fa_timestamp x)] \<le> capacity s c"
    using Cons.prems(7) by auto
  obtain s1 where s1: "add_piece p x s = Inr (0, s1)"
    "producer_post P C p (if fa_flags x AND FRAME_FLAG_NEWFRAME \<noteq> 0 then 1 else 0) s s1 None [(fa_data x, 0, fa_timestamp x)]"
    using data_add_framer [OF Cons.prems(1,2) l _ _ _ fra room] x Cons.prems(4,6) unfolding add_piece_def by auto
  then have post: "producer_post P C p 1 s s1 None [(fa_data x, 0, fa_timestamp x)]" using x(1) by simp
  have lk: "links s1 p c = links s p c" for c using post Cons.prems(2) by (simp add: producer_post_def links_def)
  have "\<exists>s'. add_pieces p xs s1 = Inr s' \<and>
      producer_post P C p (length xs) s1 s' None (map (\<lambda>x. (fa_data x, 0, fa_timestamp x)) xs)"
    by (rule Cons.IH) (use Cons.prems post lk in \<open>auto simp: producer_post_def\<close>)
  then obtain s' where s': "add_pieces p xs s1 = Inr s'"
    "producer_post P C p (length xs) s1 s' None (map (\<lambda>x. (fa_data x, 0, fa_timestamp x)) xs)" by blast
  show ?case
    using s1(1) s'(1) producer_post_trans [OF post s'(2) Cons.prems(2)] by (simp add: add_pieces_def)
qed

section \<open>The network of main\<close>

text \<open>The invariant of the fifos, and the sizes and connections with which \<^verbatim>\<open>main\<close> has set them up.\<close>

definition wired :: "fifos \<Rightarrow> bool" where
  "wired s \<longleftrightarrow> fifos_ok main_P main_C s \<and>
     (\<forall>p\<in>main_P. (data_maxlen (s p), capacity s p, consumers (s p)) = main_shape p) \<and>
     (\<forall>c\<in>main_C. capacity s c = fst (snd (main_shape c)))"

definition whole_frame :: "fifo_add \<Rightarrow> frame" where
  "whole_frame x = (fa_data x, 0, fa_timestamp x)"

lemma wiredD:
  assumes "wired s"
  shows "fifos_ok main_P main_C s"
    and "p < 38 \<Longrightarrow> main_shape p = (m, n, cs) \<Longrightarrow> data_maxlen (s p) = m \<and> capacity s p = n \<and> consumers (s p) = cs"
    and "38 \<le> c \<Longrightarrow> c < 58 \<Longrightarrow> main_shape c = (m, n, cs) \<Longrightarrow> capacity s c = n"
proof -
  show "fifos_ok main_P main_C s" using assms by (simp add: wired_def)
  assume "p < 38" "main_shape p = (m, n, cs)"
  then have "(data_maxlen (s p), capacity s p, consumers (s p)) = (m, n, cs)"
    using assms main_sets [of p] unfolding wired_def by metis
  then show "data_maxlen (s p) = m \<and> capacity s p = n \<and> consumers (s p) = cs" by simp
next
  assume "38 \<le> c" "c < 58" "main_shape c = (m, n, cs)"
  then show "capacity s c = n" using assms main_sets [of c] by (simp add: wired_def)
qed

lemma wired_post:
  assumes "wired s" and "producer_post main_P main_C p n s s' pe out"
  shows "wired s'"
  using assms unfolding wired_def producer_post_def by simp

lemma wired_consume:
  assumes "wired s" and "consumer_post main_P main_C c s s'"
  shows "wired s'"
  using assms unfolding wired_def consumer_post_def by simp

lemma wired_idle: "idle main_P main_C main_shape s \<Longrightarrow> wired s"
proof -
  assume i: "idle main_P main_C main_shape s"
  then have a: "(data_maxlen (s f), capacity s f, consumers (s f)) = main_shape f" if "f \<in> main_P \<union> main_C" for f
    using that unfolding idle_def by blast
  have "capacity s f = fst (snd (main_shape f))" if "f \<in> main_C" for f
    using a [of f, symmetric] that by simp
  then show "wired s" using i a unfolding idle_def wired_def by blast
qed

lemma wired_add:
  assumes "wired s" and "p < 38" and "main_shape p = (m, n, [c])" and "main_shape c = (0, k, [])" and "38 \<le> c" and "c < 58"
    and "pending s p = None" and "unat m < 2 ^ 31"
    and "\<forall>x\<in>set xs. fa_flags x = WHOLE_FRAME \<and> length (fa_data x) \<le> unat m"
    and "in_use s p + length xs \<le> n" and "in_use s c + length xs \<le> k"
  shows "\<exists>s'. add_pieces p xs s = Inr s' \<and> wired s' \<and> frames s' c = frames s c @ map whole_frame xs \<and>
    (\<forall>d\<in>main_C. d \<noteq> c \<longrightarrow> frames s' d = frames s d) \<and>
    (\<forall>q\<in>main_P. q \<noteq> p \<longrightarrow> pending s' q = pending s q \<and> in_use s' q = in_use s q) \<and> pending s' p = None"
proof -
  have P: "p \<in> main_P" "c \<in> main_C" using assms(2,5,6) main_sets by auto
  have S: "data_maxlen (s p) = m" "capacity s p = n" "consumers (s p) = [c]" "capacity s c = k"
    using wiredD(2) [OF assms(1,2,3)] wiredD(3) [OF assms(1,5,6,4)] by simp_all
  have lk: "links s p d = (if d = c then 1 else 0)" for d using S(3) by (simp add: links_def)
  have ok: "fifos_ok main_P main_C s" by (rule wiredD(1) [OF assms(1)])
  have room: "\<forall>d\<in>main_C. in_use s d + links s p d * length xs \<le> capacity s d"
    using fifos_ok_basic(3) [OF ok] lk assms(11) S(4) by auto
  obtain s' where s': "add_pieces p xs s = Inr s'"
    "producer_post main_P main_C p (length xs) s s' None (map whole_frame xs)"
    using add_whole_frames [OF ok P(1) assms(7) _ _ _ room] assms(8-10) S(1,2) unfolding whole_frame_def by auto
  have "frames s' d = (if d = c then frames s d @ map whole_frame xs else frames s d)" if "d \<in> main_C" for d
    using s'(2) that lk [of d] broadcast_1 length_broadcast [of 0 "map whole_frame xs"] by (auto simp: producer_post_def)
  then show ?thesis
    using s' wired_post [OF assms(1) s'(2)] P by (auto simp: producer_post_def)
qed

section \<open>The head of the queue\<close>

lemma head_ref:
  assumes "fifos_ok P C s" and "c \<in> C" and "frames s c = (d, f, t) # fs"
  obtains h p rest where "listhead (s c) = Some h" "head_producer s c = Some p" "p \<in> P" "0 < in_use s p"
    "head_memory s c = d @ rest" "arg_timestamp (itm s c h) = t"
proof -
  obtain \<alpha> where rel: "rels (P \<union> C) s \<alpha>" and net: "net_ok P C \<alpha> (\<lambda>_. {})"
    using assms(1) by (auto simp: fifos_ok_def)
  have R: "fifo_rel (s c) (\<alpha> c)" using relsD [OF rel] assms(2) by simp
  have "datafifo_head s c = Some (d, f, t)" using head_frames [OF assms(1,2)] assms(3) by simp
  then obtain h where h: "listhead (s c) = Some h" "frame_of s (itm s c h) = (d, f, t)"
    by (auto simp: datafifo_head_def split: option.splits if_splits)
  have hq: "h \<in> set (a_queue (\<alpha> c))"
    using fifo_relD(10) [OF R] h(1) hd_in_set [of "a_queue (\<alpha> c)"] by (cases "a_queue (\<alpha> c) = []") auto
  have it: "a_itm \<alpha> c h = core (itm s c h)" by (rule fifo_relD(9) [OF R fifo_relD(8) [OF R hq]])
  obtain p i where p: "it_ref (itm s c h) = Some (p, i)" "p \<in> P" "i \<in> set (a_queue (\<alpha> p))"
      "same_args (itm s c h) (a_itm \<alpha> p i)"
    using net_okD(5) [OF net assms(2) hq] unfolding it by (auto simp: ref_ok_def same_args_def)
  have i: "i < length (a_items (\<alpha> p))"
    by (rule pool_okD(2) [OF producer_okD(1) [OF net_okD(3) [OF net p(2)]] p(3)])
  have ad: "arg_data (itm s c h) = Some (p, i)"
    using producer_okD(3) [OF net_okD(3) [OF net p(2)] i] p(4) by (simp add: same_args_def)
  have d: "d = take (unat (arg_len (itm s c h))) (bufs (s p) ! i)" "t = arg_timestamp (itm s c h)"
    using h(2) ad by (simp_all add: frame_of_def)
  then have "head_memory s c = d @ drop (unat (arg_len (itm s c h))) (bufs (s p) ! i)"
    using h(1) ad by (simp add: head_memory_def)
  moreover have "0 < in_use s p" using abs_measures(1) [OF rel, of p] p(2,3) by (auto intro: length_pos_if_in_set)
  moreover have "head_producer s c = Some p" using h(1) p(1) by (simp add: head_producer_def)
  ultimately show thesis using that h(1) p(2) d(2) by blast
qed

section \<open>A turn on the network\<close>

lemma add_each_append: "add_each (xs @ ys) s = bind_res (add_each xs s) (add_each ys)"
  unfolding add_each_def [abs_def] by (simp add: fold_res_append)

lemma add_each_pieces: "add_each (map (Pair p) xs) s = add_pieces p xs s"
  by (induction xs arbitrary: s) (simp_all add: add_each_def add_pieces_def)

lemma packet_msgs_whole:
  assumes "length c = 4" and "x \<in> set (packet_msgs c fr ts channel pic)"
  shows "fa_flags x = WHOLE_FRAME" and "length (fa_data x) \<le> 1536"
proof -
  obtain i where x: "x = msg_of (c, packet_calls channel (\<lambda>i. packet_info fr (int (length pic)) ts ts (of_nat i)) pic i)"
    using assms(2) by (auto simp: packet_msgs_def)
  then show "fa_flags x = WHOLE_FRAME" by (simp add: msg_of_def msg_add_def)
  show "length (fa_data x) \<le> 1536"
    using packet_short [OF assms(1), of channel "\<lambda>i. packet_info fr (int (length pic)) ts ts (of_nat i)" pic i] assms(1)
    unfolding x short_msg_def by (simp add: msg_of_def msg_add_def make_msg_def cstr_simps)
qed

lemma length_packet_msgs [simp]: "length (packet_msgs c fr ts channel pic) = num_pkts (length pic)"
  by (simp add: packet_msgs_def)

lemma main_shape_img_out:
  "main_shape 35 = (1536, 640, [46])" "main_shape 46 = (0, 640, [])" "main_shape 36 = (1536, 640, [38])"
  "main_shape 38 = (0, 640, [])" "main_shape 37 = (73728, 3, [47])" "main_shape 47 = (0, 3, [])"
  by (simp_all add: main_shape_at main_setup_def)

text \<open>Room for what one picture adds; a thread without room waits.\<close>

definition img_room :: "nat \<Rightarrow> fifos \<Rightarrow> bool" where
  "img_room n s \<longleftrightarrow> in_use s 35 + n \<le> 640 \<and> in_use s 46 + n \<le> 640 \<and> in_use s 36 + 54 \<le> 640 \<and>
     in_use s 38 + 54 \<le> 640 \<and> in_use s 37 + 1 \<le> 3 \<and> in_use s 47 + 1 \<le> 3"

lemma add_channel:
  assumes "wired s" and "\<forall>p\<in>{35, 36, 37}. pending s p = None" and "length px = 18432"
    and "img_room (num_pkts (length (jpeg_of e px))) s"
  shows "\<exists>s'. add_each (channel_adds e main_img_param vm k px ts num) s = Inr s' \<and> wired s' \<and>
    (\<forall>c\<in>main_C. frames s' c = frames s c @ map whole_frame
       (if c = 46 then jpeg_adds e px ts (word_of_int (vm_function (vm ! k)))
        else if c = 38 then (if vm_pip (vm ! k) \<noteq> 0 then pip_adds e px ts else [])
        else if c = 47 then y_adds px num else []))"
proof -
  let ?j = "jpeg_adds e px ts (word_of_int (vm_function (vm ! k)))"
  let ?p = "if vm_pip (vm ! k) \<noteq> 0 then pip_adds e px ts else []"
  have R: "in_use s 35 + length ?j \<le> 640" "in_use s 46 + length ?j \<le> 640" "in_use s 36 + length ?p \<le> 640"
    "in_use s 38 + length ?p \<le> 640" "in_use s 37 + length (y_adds px num) \<le> 3" "in_use s 47 + length (y_adds px num) \<le> 3"
    using assms(3,4) length_pip_of [OF assms(3)]
    by (auto simp: img_room_def jpeg_adds_def pip_adds_def y_adds_def num_pkts_def split: option.split)
  have J: "\<forall>x\<in>set ?j. fa_flags x = WHOLE_FRAME \<and> length (fa_data x) \<le> unat (1536 :: u32)"
    using packet_msgs_whole [of COMMAND_EVENT_JPEG] by (auto simp: jpeg_adds_def)
  have Q: "\<forall>x\<in>set ?p. fa_flags x = WHOLE_FRAME \<and> length (fa_data x) \<le> unat (1536 :: u32)"
    using packet_msgs_whole [of COMMAND_EVENT_PIP] by (auto simp: pip_adds_def)
  have Y: "\<forall>x\<in>set (y_adds px num). fa_flags x = WHOLE_FRAME \<and> length (fa_data x) \<le> unat (73728 :: u32)"
    using assms(3) by (auto simp: y_adds_def split: option.splits)
  have pend: "pending s 35 = None" "pending s 36 = None" "pending s 37 = None" using assms(2) by simp_all
  have mem: "35 \<in> main_P" "36 \<in> main_P" "37 \<in> main_P" "38 \<in> main_C" "46 \<in> main_C" "47 \<in> main_C" by (simp_all add: main_sets)
  obtain s1 where s1: "add_pieces 35 ?j s = Inr s1" "wired s1" "frames s1 46 = frames s 46 @ map whole_frame ?j"
    "\<forall>d\<in>main_C. d \<noteq> 46 \<longrightarrow> frames s1 d = frames s d"
    "\<forall>q\<in>main_P. q \<noteq> 35 \<longrightarrow> pending s1 q = pending s q \<and> in_use s1 q = in_use s q"
    using wired_add [OF assms(1) _ main_shape_img_out(1,2) _ _ pend(1) _ J R(1,2)] by auto
  have u1: "in_use s1 36 + length ?p \<le> 640" "in_use s1 38 + length ?p \<le> 640" "pending s1 36 = None"
    using s1(4,5) R pend mem in_use_frames [of s1 38] in_use_frames [of s 38] by simp_all
  obtain s2 where s2: "add_pieces 36 ?p s1 = Inr s2" "wired s2" "frames s2 38 = frames s1 38 @ map whole_frame ?p"
    "\<forall>d\<in>main_C. d \<noteq> 38 \<longrightarrow> frames s2 d = frames s1 d"
    "\<forall>q\<in>main_P. q \<noteq> 36 \<longrightarrow> pending s2 q = pending s1 q \<and> in_use s2 q = in_use s1 q"
    using wired_add [OF s1(2) _ main_shape_img_out(3,4) _ _ u1(3) _ Q u1(1,2)] by auto
  have u2: "in_use s2 37 + length (y_adds px num) \<le> 3" "in_use s2 47 + length (y_adds px num) \<le> 3" "pending s2 37 = None"
    using s1(4,5) s2(4,5) R pend mem in_use_frames [of s2 47] in_use_frames [of s 47] by simp_all
  obtain s3 where s3: "add_pieces 37 (y_adds px num) s2 = Inr s3" "wired s3"
    "frames s3 47 = frames s2 47 @ map whole_frame (y_adds px num)" "\<forall>d\<in>main_C. d \<noteq> 47 \<longrightarrow> frames s3 d = frames s2 d"
    using wired_add [OF s2(2) _ main_shape_img_out(5,6) _ _ u2(3) _ Y u2(1,2)] by auto
  have "add_each (channel_adds e main_img_param vm k px ts num) s = Inr s3"
    unfolding channel_adds_def add_each_append add_each_pieces using s1(1) s2(1) s3(1) by (simp add: main_img_param_def)
  then show ?thesis using s1(3,4) s2(3,4) s3(2-4) mem by (intro exI [of _ s3]) auto
qed

lemma img_turn_adds:
  assumes "wired s" and "\<forall>p\<in>{35, 36, 37}. pending s p = None" and "frames s 45 = (yuyv px, f, t) # fs"
    and "head_producer s 45 = Some (imgs main_img_param ! k)" and "k < 6" and "length px = 18432"
    and "img_ok st" and "env_ok e px" and "img_room (num_pkts (length (jpeg_of e px))) s"
    and "sync_after vm k (im_sync st) = (num, cs)"
  shows "\<exists>st' s'. img_turn e main_img_param vm (st, s) = Inr (st', s') \<and> wired s' \<and> img_ok st' \<and> im_sync st' = cs \<and>
    frames s' 45 = fs \<and>
    (\<forall>c\<in>main_C - {45}. frames s' c = frames s c @ map whole_frame
       (if c = 46 then jpeg_adds e px t (word_of_int (vm_function (vm ! k)))
        else if c = 38 then (if vm_pip (vm ! k) \<noteq> 0 then pip_adds e px t else [])
        else if c = 47 then y_adds px num else []))"
proof -
  have c: "45 \<in> main_C" by (simp add: main_sets)
  obtain h p rest where h: "listhead (s 45) = Some h" "head_producer s 45 = Some p" "head_memory s 45 = yuyv px @ rest"
    "arg_timestamp (itm s 45 h) = t"
    using head_ref [OF wiredD(1) [OF assms(1)] c assms(3)] by metis
  have p: "p = imgs main_img_param ! k" using h(2) assms(4) by simp
  have dist: "distinct (imgV main_img_param # imgs main_img_param)" by (simp add: main_img_param_def imgs_def)
  have st: "img_ok (st\<lparr>im_adds := []\<rparr>)" "sync_after vm k (im_sync (st\<lparr>im_adds := []\<rparr>)) = (num, cs)"
    using assms(7,10) by (simp_all add: img_ok_def)
  obtain st' where st': "img_channel e main_img_param vm k (yuyv px @ rest) t (st\<lparr>im_adds := []\<rparr>) = Inr st'" "img_ok st'"
    "im_sync st' = cs" "im_adds st' = channel_adds e main_img_param vm k px t num"
    using img_channel_adds [OF st(1) assms(8,6) st(2), of main_img_param rest t] by auto
  obtain s1 where s1: "add_each (im_adds st') s = Inr s1" "wired s1"
    "\<forall>c\<in>main_C. frames s1 c = frames s c @ map whole_frame
       (if c = 46 then jpeg_adds e px t (word_of_int (vm_function (vm ! k)))
        else if c = 38 then (if vm_pip (vm ! k) \<noteq> 0 then pip_adds e px t else [])
        else if c = 47 then y_adds px num else [])"
    using add_channel [OF assms(1,2,6,9), of vm k t num] unfolding st'(4) by blast
  have f1: "frames s1 45 = (yuyv px, f, t) # fs" using bspec [OF s1(3) c] assms(3) by simp
  obtain s2 where s2: "datafifo_consumer_remove_head 45 s1 = Inr (0, s2)" "consumer_post main_P main_C 45 s1 s2"
    using consumer_remove_step [OF wiredD(1) [OF s1(2)] c] f1 by auto
  have "img_turn e main_img_param vm (st, s) = Inr (st', s2)"
    unfolding img_turn_def using h p st'(1) s1(1) s2(1) img_frame_channel [OF dist assms(5)]
    by (simp add: main_img_param_def)
  moreover have "frames s2 45 = fs" "\<forall>d\<in>main_C. d \<noteq> 45 \<longrightarrow> frames s2 d = frames s1 d"
    using s2(2) f1 by (simp_all add: consumer_post_def)
  ultimately show ?thesis
    using wired_consume [OF s1(2) s2(2)] st'(2,3) s1(3) by (intro exI [of _ st'] exI [of _ s2]) auto
qed

end
