(* ===== verification/Analyze_Thread.thy ===== *)
theory Analyze_Thread
  imports Detect_Frame Image_Thread
begin

text \<open>
  The analysis thread (\<^verbatim>\<open>thread_analyze\<close> in \<^verbatim>\<open>recbcsrv/recbc_srv.c\<close>) on the network of fifos: the pictures
  that the image thread has filtered are analysed one by one, and every result is sent to the director as
  an event. The files \<^verbatim>\<open>sample.raw\<close> and \<^verbatim>\<open>sample.seq\<close> it also writes are not modelled.
\<close>

section \<open>A turn of the loop\<close>

record analyze_thread_param =
  an_consumer_fifo :: fifo_id
  an_producer_fifo :: fifo_id

definition main_analyze_param :: analyze_thread_param where
  "main_analyze_param = \<lparr>an_consumer_fifo = F_Filtered_img_consumer_fifo, an_producer_fifo = F_Event_producer_fifo_Analyze\<rparr>"

text \<open>The number of the picture in its group travels as the time stamp. \<open>g\<close> is the stack memory of the packetiser.\<close>

definition analyze_turn :: "'f fp \<Rightarrow> feature_range \<Rightarrow> 'f svm_model \<Rightarrow> byte list \<Rightarrow> analyze_thread_param \<Rightarrow> IMAGE \<times> fifos \<Rightarrow> (IMAGE \<times> fifos) res" where
  "analyze_turn F fr m g P = (\<lambda>(ob, s).
     case listhead (s (an_consumer_fifo P)) of
       None \<Rightarrow> Inr (ob, s)
     | Some h \<Rightarrow>
         bind_res (DetectFrame F fr m (head_memory s (an_consumer_fifo P)) (arg_timestamp (itm s (an_consumer_fifo P) h)) ob) (\<lambda>(ob', pPtr).
         bind_res (EventVID2df g pPtr) (\<lambda>x.
         bind_res (add_piece (an_producer_fifo P) x s) (\<lambda>(ret, s1).
         bind_res (datafifo_consumer_remove_head (an_consumer_fifo P) s1) (\<lambda>(ret, s2). Inr (ob', s2))))))"

section \<open>Only the picture is read\<close>

text \<open>The buffer of the fifo is larger than the picture; what lies behind the picture does not matter.\<close>

lemma pixel_extend: "pixel p k = Inr v \<Longrightarrow> pixel (p @ rest) k = Inr v"
  by (auto simp: pixel_def nth_append split: if_splits)

lemma ComputeSobel_extend:
  assumes "ComputeSobel F p a h w = Inr s"
  shows "ComputeSobel F (p @ rest) a h w = Inr s"
proof -
  have "sobel_at F (p @ rest) w i j = Inr v" if "sobel_at F p w i j = Inr v" for i j v
    using that unfolding sobel_at_def bind_res_Inr Let_def by (blast intro: pixel_extend)
  then have "fold_res (\<lambda>pr j. bind_res (sobel_at F (p @ rest) w i j) (\<lambda>v. arr_put pr (i * w + j) (Some v))) pr js = Inr pr'"
    if "fold_res (\<lambda>pr j. bind_res (sobel_at F p w i j) (\<lambda>v. arr_put pr (i * w + j) (Some v))) pr js = Inr pr'" for i pr js pr'
    by (intro fold_res_mono [OF _ that]) (auto simp: res_simps)
  then show ?thesis
    using assms unfolding ComputeSobel_def by (rule fold_res_mono)
qed

lemma FrameCentrist_extend:
  "FrameCentrist F fr m p ob = Inr ob' \<Longrightarrow> FrameCentrist F fr m (p @ rest) ob = Inr ob'"
  unfolding FrameCentrist_def Let_def by (auto simp: bind_res_Inr dest: ComputeSobel_extend)

lemma diff_loop_extend: "diff_loop w h p lst d = Inr d' \<Longrightarrow> diff_loop w h (p @ rest) lst d = Inr d'"
proof -
  have "diff_at (p @ rest) lst d k = Inr d'" if "diff_at p lst d k = Inr d'" for d k d'
    using that unfolding diff_at_def bind_res_Inr by (blast intro: pixel_extend)
  then have "fold_res (\<lambda>d j. diff_at (p @ rest) lst d (i * w + j)) d js = Inr d'"
    if "fold_res (\<lambda>d j. diff_at p lst d (i * w + j)) d js = Inr d'" for i d js d'
    by (rule fold_res_mono [OF _ that])
  then show "diff_loop w h p lst d = Inr d' \<Longrightarrow> diff_loop w h (p @ rest) lst d = Inr d'"
    unfolding diff_loop_def by (rule fold_res_mono)
qed

lemma FrameDiff_extend:
  assumes "FrameDiff p ob = Inr ob'"
  shows "FrameDiff (p @ rest) ob = Inr ob'"
proof -
  obtain pic where pic: "mem_read p 0 (FRAME_WIDTH * FRAME_HEIGHT) = Inr pic" using assms unfolding FrameDiff_def bind_res_Inr by blast
  note pic' = mem_read_extend [OF pic, of rest]
  show ?thesis
    using assms unfolding FrameDiff_def pic pic' bind_res.simps Let_def
    by (simp split: if_splits) (auto simp: bind_res_Inr dest: diff_loop_extend)
qed

lemma DetectFrame_extend:
  "DetectFrame F fr m p n ob = Inr r \<Longrightarrow> DetectFrame F fr m (p @ rest) n ob = Inr r"
  unfolding DetectFrame_def bind_res_Inr by (blast intro: FrameCentrist_extend FrameDiff_extend)

section \<open>The turn on the network\<close>

lemma event_vid_frame:
  "fa_flags (msg_add COMMAND_EVENT_VID (map call_attr (event_vid_calls xs))) = WHOLE_FRAME"
  "length (fa_data (msg_add COMMAND_EVENT_VID (map call_attr (event_vid_calls xs)))) \<le> 1536"
  using event_vid_short [of xs] by (simp_all add: msg_add_def make_msg_def cstr_simps)

lemma main_shape_analyze: "main_shape 24 = (1536, 10, [57])" "main_shape 57 = (0, 10, [])"
  by (simp_all add: main_shape_at main_setup_def)

lemma length_verdict: "length (verdict ps mv) = 9"
  by (simp add: verdict_def Let_def)

definition analysis_event :: "int list \<Rightarrow> fifo_add" where
  "analysis_event xs = msg_add COMMAND_EVENT_VID (map call_attr (event_vid_calls (map word_of_int xs)))"

lemma analyze_turn_event:
  assumes "wired s" and "pending s 24 = None" and "in_use s 24 < 10" and "in_use s 57 < 10"
    and "frames s 47 = (d, f, t) # fs" and "length d = FRAME_WIDTH * FRAME_HEIGHT"
    and "image_ok ob" and "range_ok fr" and "model_ok m" and "length g = CMD_BUFSIZE"
  shows "\<exists>ob' s'. analyze_turn F fr m g main_analyze_param (ob, s) = Inr (ob', s') \<and> wired s' \<and> image_ok ob' \<and> pending s' 24 = None \<and>
    lastImage ob' = d \<and> IMAGE.frame_num ob' = IMAGE.frame_num (if t = 0 then InitImage ob else ob) + 1 \<and>
    frames s' 47 = fs \<and>
    frames s' 57 = frames s 57 @ [whole_frame (analysis_event
      (verdict (found F fr m (picture_census F d)) (moving_objects d (if t = 0 then InitImage ob else ob))))] \<and>
    (\<forall>c\<in>main_C - {47, 57}. frames s' c = frames s c)"
proof -
  let ?v = "verdict (found F fr m (picture_census F d)) (moving_objects d (if t = 0 then InitImage ob else ob))"
  have mem: "24 \<in> main_P" "47 \<in> main_C" "57 \<in> main_C" by (simp_all add: main_sets)
  obtain h p rest where h: "listhead (s 47) = Some h" "head_memory s 47 = d @ rest" "arg_timestamp (itm s 47 h) = t"
    using head_ref [OF wiredD(1) [OF assms(1)] mem(2) assms(5)] by metis
  obtain ob' where ob': "DetectFrame F fr m d t ob = Inr (ob', map word_of_int ?v)" "image_ok ob'" "lastImage ob' = d"
    "IMAGE.frame_num ob' = IMAGE.frame_num (if t = 0 then InitImage ob else ob) + 1"
    using DetectFrame_ok [OF assms(7) _ assms(8,9), of d F t] assms(6) by auto
  have ev: "EventVID2df g (map word_of_int ?v) = Inr (analysis_event ?v)"
    unfolding analysis_event_def by (intro EventVID2df_correct) (simp_all add: assms(10) length_verdict)
  define x where "x = analysis_event ?v"
  have x: "\<forall>y\<in>set [x]. fa_flags y = WHOLE_FRAME \<and> length (fa_data y) \<le> unat (1536 :: u32)"
    using event_vid_frame by (simp add: x_def analysis_event_def)
  obtain s1 where s1: "add_pieces 24 [x] s = Inr s1" "wired s1" "frames s1 57 = frames s 57 @ [whole_frame x]"
    "\<forall>c\<in>main_C. c \<noteq> 57 \<longrightarrow> frames s1 c = frames s c" "pending s1 24 = None"
    using wired_add [OF assms(1) _ main_shape_analyze _ _ assms(2) _ x] assms(3,4) by auto
  obtain ret where a: "add_piece 24 x s = Inr (ret, s1)"
    using s1(1) by (auto simp: add_pieces_def bind_res_Inr)
  have f1: "frames s1 47 = (d, f, t) # fs" using bspec [OF s1(4) mem(2)] assms(5) by simp
  obtain s2 where s2: "datafifo_consumer_remove_head 47 s1 = Inr (0, s2)" "consumer_post main_P main_C 47 s1 s2"
    using consumer_remove_step [OF wiredD(1) [OF s1(2)] mem(2)] f1 by auto
  have "analyze_turn F fr m g main_analyze_param (ob, s) = Inr (ob', s2)"
    using h DetectFrame_extend [OF ob'(1), of rest] ev a s2(1)
    by (simp add: analyze_turn_def main_analyze_param_def x_def)
  moreover have "frames s2 47 = fs" "\<forall>c\<in>main_C. c \<noteq> 47 \<longrightarrow> frames s2 c = frames s1 c" "pending s2 24 = None"
    using s2(2) f1 s1(5) mem by (simp_all add: consumer_post_def)
  ultimately show ?thesis
    using wired_consume [OF s1(2) s2(2)] ob'(2-4) s1(3,4) mem(3) unfolding x_def by (intro exI [of _ ob'] exI [of _ s2]) auto
qed

end
