(* ===== verification/Image_Properties.thy ===== *)
theory Image_Properties
  imports Image_Thread Thread_Properties
begin

text \<open>
  The properties of the image thread: what one picture makes it add to the fifos, and the numbers of the
  analysed pictures when the pictures interleave with the tracking, which resets them at every move of
  the camera.
\<close>

section \<open>The critical section\<close>

lemma sint_5:
  assumes "n < 2147483648"
  shows "sint (of_nat n :: u32) smod 5 = 0 \<longleftrightarrow> n mod 5 = 0"
proof -
  have "sint (of_nat n :: u32) = int n" using assms by (simp add: signed_of_nat signed_take_bit_int_eq_self)
  then show ?thesis by (simp add: signed_modulo_int_def sgn_if flip: of_nat_mod zmod_int) presburger
qed

text \<open>\<open>n\<close> pictures of the still camera have been counted, and numbers given to every fifth.\<close>

definition counted :: "nat \<Rightarrow> capture_sync \<Rightarrow> bool" where
  "counted n cs \<longleftrightarrow> g_analyze_frame_num cs = of_nat n \<and> g_num_in_group cs = of_nat (n div 5) \<and>
     (\<not> g_camholder_still cs \<longrightarrow> n = 0)"

lemma capture_tick_counted:
  assumes "counted n cs" and "Suc n < 2147483648" and "g_camholder_still cs"
  shows "capture_tick cs = (if Suc n mod 5 = 0 then Some (of_nat (n div 5)) else None,
      cs\<lparr>g_analyze_frame_num := of_nat (Suc n), g_num_in_group := of_nat (Suc n div 5)\<rparr>)"
proof -
  have s: "sint (g_analyze_frame_num cs + 1) smod 5 = 0 \<longleftrightarrow> Suc n mod 5 = 0"
    using sint_5 [OF assms(2)] assms(1) by (simp add: counted_def add.commute)
  have d: "Suc n div 5 = (if Suc n mod 5 = 0 then Suc (n div 5) else n div 5)" by (simp add: div_Suc)
  show ?thesis using assms s d by (simp add: capture_tick_def Let_def counted_def add.commute)
qed

lemma capture_tick_moving: "\<not> g_camholder_still cs \<Longrightarrow> capture_tick cs = (None, cs)"
  by (simp add: capture_tick_def)

section \<open>The tracking and the critical section\<close>

abbreviation (input) moving_sync :: capture_sync where
  "moving_sync \<equiv> \<lparr>g_camholder_still = False, g_analyze_frame_num = 0, g_num_in_group = 0\<rparr>"

abbreviation (input) start_sync :: capture_sync where
  "start_sync \<equiv> \<lparr>g_camholder_still = True, g_analyze_frame_num = 0, g_num_in_group = 0\<rparr>"

lemma move_to_sync: "move_to g now dest cs = Inr cs' \<Longrightarrow> fst cs' = fst cs \<or> fst cs' = moving_sync"
  by (auto simp: move_to_def res_simps split: if_splits)

lemma follow_sync: "follow F g now ex d (tr, cs) = Inr (tr', cs') \<Longrightarrow> fst cs' = fst cs \<or> fst cs' = moving_sync"
  by (cases cs) (auto simp: follow_def Let_def res_simps dest!: move_to_sync split: bool.splits prod.splits)

lemma search_sync: "search F g now ex (tr, cs) = Inr (tr', cs') \<Longrightarrow> fst cs' = fst cs \<or> fst cs' = moving_sync"
  by (cases cs) (auto simp: search_def Let_def res_simps dest!: move_to_sync split: if_splits prod.splits)

lemma teacher_tracking_sync:
  assumes "teacher_tracking F g now scr ex Msg (tr, cs) = Inr (tr', cs')"
  shows "fst cs' = fst cs \<or> fst cs' = moving_sync"
proof (cases cs)
  case (Pair c s)
  show ?thesis
  proof (cases "ctl_status s = 17 \<and> \<not> get_camholder_pending_state (ctl_ch s)")
    case True
    obtain d0 where d0: "GetDetectResult Msg = Inr d0"
      using assms Pair True by (cases "GetDetectResult Msg") (simp_all add: teacher_tracking_def)
    obtain d tr1 where d: "capture F scr (ctl_ch s) d0 tr = (d, tr1)" by (cases "capture F scr (ctl_ch s) d0 tr")
    obtain st1 where st1: "(if detected d \<noteq> 0 \<and> acc_of_lost tr1 = 0 then follow F g now ex d (tr1, c, s)
        else Inr (tr1, c, s)) = Inr st1" "search F g now ex st1 = Inr (tr', cs')"
      using assms unfolding Pair teacher_tracking_def prod.case if_P [OF True] d0 bind_res.simps d bind_res_Inr by blast
    obtain tr2 cs2 where e: "st1 = (tr2, cs2)" by (cases st1)
    have "fst cs2 = c \<or> fst cs2 = moving_sync"
      using st1(1) follow_sync [of F g now ex d tr1 "(c, s)" tr2 cs2] unfolding e by (auto split: if_splits)
    then show ?thesis using search_sync [of F g now ex tr2 cs2 tr' cs'] st1(2) unfolding e Pair by auto
  qed (use assms Pair in \<open>auto simp: teacher_tracking_def\<close>)
qed

lemma event_message_sync:
  assumes "event_message cf st ev = Inr st'"
  shows "sw_sync st' = sw_sync st \<or> sw_sync st' = moving_sync"
proof -
  have c: "sw_sync s' = sw_sync s" if "event_conditions cf ev cmd s = Inr s'" for cmd s s'
    using that by (auto simp: event_conditions_def Let_def res_simps split: if_splits prod.splits)
  have t: "sw_sync s' = sw_sync s \<or> sw_sync s' = moving_sync" if "event_tracking cf ev cmd s = Inr s'" for cmd s s'
    using that by (auto simp: event_tracking_def res_simps dest!: teacher_tracking_sync split: if_splits prod.splits)
  show ?thesis using assms c t by (auto simp: event_message_def res_simps split: if_splits) metis+
qed

section \<open>Pictures and moves interleaved\<close>

text \<open>
  The director thread with the counters of the pictures: \<open>cr_pics\<close> pictures of the still camera since
  the last move, \<open>cr_out\<close> the numbers under which pictures have gone to the analysis since then. A step
  is a picture of the teacher's close-up in the image thread, or one of the steps of the director
  thread's loop: an event, which may move the camera, the test for an unanswered command, or
  anything that leaves the globals alone.
\<close>

record 'f capture_run =
  cr_state :: "'f switch_state"
  cr_pics :: nat
  cr_out :: "u32 list"

inductive capture_step :: "'f switch_config \<Rightarrow> 'f capture_run \<Rightarrow> 'f capture_run \<Rightarrow> bool" for cf where
  picture: "capture_tick (sw_sync (cr_state t)) = (num, cs) \<Longrightarrow>
    capture_step cf t \<lparr>cr_state = (cr_state t)\<lparr>sw_sync := cs\<rparr>,
      cr_pics = (if g_camholder_still (sw_sync (cr_state t)) then Suc (cr_pics t) else cr_pics t),
      cr_out = cr_out t @ (case num of None \<Rightarrow> [] | Some n \<Rightarrow> [n])\<rparr>"
| event: "event_message cf (cr_state t) ev = Inr st' \<Longrightarrow>
    capture_step cf t (if sw_sync st' = sw_sync (cr_state t) then t\<lparr>cr_state := st'\<rparr>
      else \<lparr>cr_state = st', cr_pics = 0, cr_out = []\<rparr>)"
| still: "capture_step cf t (t\<lparr>cr_state := camera_still (cr_state t)\<rparr>)"
| other: "sw_sync st' = sw_sync (cr_state t) \<Longrightarrow> capture_step cf t (t\<lparr>cr_state := st'\<rparr>)"

definition numbered :: "'f capture_run \<Rightarrow> bool" where
  "numbered t \<longleftrightarrow> (cr_pics t < 2147483648 \<longrightarrow>
     counted (cr_pics t) (sw_sync (cr_state t)) \<and> cr_out t = map of_nat [0 ..< cr_pics t div 5])"

lemma numbered_still: "numbered t \<Longrightarrow> numbered (t\<lparr>cr_state := camera_still (cr_state t)\<rparr>)"
  by (auto simp: numbered_def counted_def camera_still_def)

lemma numbered_picture:
  assumes "numbered t" and "capture_tick (sw_sync (cr_state t)) = (num, cs)"
  shows "numbered \<lparr>cr_state = (cr_state t)\<lparr>sw_sync := cs\<rparr>,
      cr_pics = (if g_camholder_still (sw_sync (cr_state t)) then Suc (cr_pics t) else cr_pics t),
      cr_out = cr_out t @ (case num of None \<Rightarrow> [] | Some n \<Rightarrow> [n])\<rparr>"
proof (cases "g_camholder_still (sw_sync (cr_state t))")
  case True
  let ?n = "cr_pics t"
  show ?thesis
  proof (cases "Suc ?n < 2147483648")
    case lt: True
    then have c: "counted ?n (sw_sync (cr_state t))" "cr_out t = map of_nat [0 ..< ?n div 5]"
      using assms(1) by (simp_all add: numbered_def)
    note tick = capture_tick_counted [OF c(1) lt True]
    have d: "Suc ?n div 5 = (if Suc ?n mod 5 = 0 then Suc (?n div 5) else ?n div 5)" by (simp add: div_Suc)
    show ?thesis
      using assms(2) tick c True lt d by (auto simp: numbered_def counted_def)
  qed (use True in \<open>simp add: numbered_def\<close>)
next
  case False
  then show ?thesis using assms capture_tick_moving [OF False] by (auto simp: numbered_def)
qed

lemma capture_step_numbered:
  assumes "capture_step cf t t'" and "numbered t"
  shows "numbered t'"
  using assms(1)
proof (cases rule: capture_step.cases)
  case (picture num cs)
  then show ?thesis using numbered_picture [OF assms(2)] by simp
next
  case (event ev st')
  show ?thesis
  proof (cases "sw_sync st' = sw_sync (cr_state t)")
    case False
    then have "sw_sync st' = moving_sync" using event_message_sync [OF event(2)] by blast
    then show ?thesis using event(1) False by (simp add: numbered_def counted_def)
  qed (use event assms(2) in \<open>simp add: numbered_def\<close>)
next
  case still
  then show ?thesis using numbered_still [OF assms(2)] by simp
next
  case (other st')
  then show ?thesis using assms(2) by (simp add: numbered_def)
qed

lemma capture_run_numbered:
  assumes "(capture_step cf)\<^sup>*\<^sup>* t t'" and "numbered t"
  shows "numbered t'"
  using assms by (induction rule: rtranclp_induct) (auto intro: capture_step_numbered)

section \<open>Properties\<close>

text \<open>
  C17. The pictures that go to the analysis since the last move of the camera are every fifth picture of
  the still camera, with the numbers 0, 1, 2, ..., whatever the interleaving of the image thread with the
  events, the control messages and the turns of the director thread; while the camera moves, none does.
\<close>

theorem every_fifth_picture:
  assumes "(capture_step cf)\<^sup>*\<^sup>* t t'" and "sw_sync (cr_state t) = start_sync" and "cr_pics t = 0" and "cr_out t = []"
    and "cr_pics t' < 2147483648"
  shows "cr_out t' = map of_nat [0 ..< cr_pics t' div 5] \<and>
    (\<not> g_camholder_still (sw_sync (cr_state t')) \<longrightarrow> cr_pics t' = 0)"
proof -
  have "numbered t" using assms(2-4) by (simp add: numbered_def counted_def)
  then have "numbered t'" by (rule capture_run_numbered [OF assms(1)])
  then show ?thesis using assms(5) by (simp add: numbered_def counted_def)
qed

lemma still_pictures:
  assumes "counted k (sw_sync (cr_state t))" and "cr_pics t = k" and "k + n < 2147483648" and "g_camholder_still (sw_sync (cr_state t))"
  shows "\<exists>t'. (capture_step cf)\<^sup>*\<^sup>* t t' \<and> cr_pics t' = k + n"
  using assms
proof (induction n arbitrary: t k)
  case 0
  then show ?case by auto
next
  case (Suc n)
  obtain num cs where tick: "capture_tick (sw_sync (cr_state t)) = (num, cs)" by (cases "capture_tick (sw_sync (cr_state t))")
  have lt: "Suc k < 2147483648" using Suc.prems(3) by simp
  have cs: "counted (Suc k) cs" "g_camholder_still cs"
    using tick capture_tick_counted [OF Suc.prems(1) lt Suc.prems(4)] Suc.prems(4) by (auto simp: counted_def)
  obtain t1 where t1: "capture_step cf t t1" "sw_sync (cr_state t1) = cs" "cr_pics t1 = Suc k"
    using capture_step.picture [OF tick, of cf] Suc.prems(2,4) by auto
  obtain t' where "(capture_step cf)\<^sup>*\<^sup>* t1 t'" "cr_pics t' = Suc k + n"
    using Suc.IH [of "Suc k" t1] cs t1 Suc.prems(3) by auto
  then show ?case using t1(1) by (auto intro: converse_rtranclp_into_rtranclp)
qed

theorem every_fifth_picture_witness:
  "\<exists>t t'. (capture_step demo_config)\<^sup>*\<^sup>* t t' \<and> cr_state t = demo_state 2 \<and> cr_out t = [] \<and> cr_out t' = [0, 1]"
proof -
  define t where "t = \<lparr>cr_state = demo_state 2, cr_pics = 0, cr_out = []\<rparr>"
  have s: "sw_sync (cr_state t) = start_sync" "cr_pics t = 0" "cr_out t = []" by (simp_all add: t_def demo_state_def)
  obtain t' where t': "(capture_step demo_config)\<^sup>*\<^sup>* t t'" "cr_pics t' = 11"
    using still_pictures [of 0 t 11 demo_config] s by (auto simp: counted_def)
  have "cr_out t' = map of_nat [0 ..< 11 div 5]"
    using every_fifth_picture [OF t'(1) s] t'(2) by simp
  then have "cr_out t' = [0, 1]" by (simp add: upt_rec)
  then show ?thesis using t'(1) s(3) by (intro exI [of _ t] exI [of _ t']) (simp add: t_def)
qed

text \<open>
  C7. A turn of the image thread on the network of \<^verbatim>\<open>main\<close>: a picture of video \<open>k\<close> at the head of its queue
  is taken off; it reaches the instructor as one JPEG in packets under the function of the video,
  board A in packets when the video is marked as picture in picture, and the analysis as one frame of
  luma with its number when it is the teacher's close-up and due; no other queue changes, nothing is read
  or written out of bounds, and the invariant of the network is kept. The JPEG must fit into its buffer,
  and the fifos must have room.
\<close>

theorem picture_turn:
  assumes "wired s" and "\<forall>p\<in>{35, 36, 37}. pending s p = None" and "frames s F_Img_consumer_fifo = (yuyv px, f, t) # fs"
    and "head_producer s F_Img_consumer_fifo = Some (imgs main_img_param ! k)" and "k < 6" and "length px = 18432"
    and "img_ok st" and "env_ok e px" and "img_room (num_pkts (length (jpeg_of e px))) s"
    and "sync_after vm k (im_sync st) = (num, cs)"
  shows "\<exists>st' s'. img_turn e main_img_param vm (st, s) = Inr (st', s') \<and> wired s' \<and> img_ok st' \<and> im_sync st' = cs \<and>
    frames s' F_Img_consumer_fifo = fs \<and>
    (\<forall>c\<in>main_C - {F_Img_consumer_fifo}. frames s' c = frames s c @ map whole_frame
       (if c = F_Instructor_consumer_fifo then jpeg_adds e px t (word_of_int (vm_function (vm ! k)))
        else if c = F_Ctrl_consumer_fifo_A then (if vm_pip (vm ! k) \<noteq> 0 then pip_adds e px t else [])
        else if c = F_Filtered_img_consumer_fifo then y_adds px num else []))"
  by (rule img_turn_adds [OF assms])

lemma idle_wired:
  obtains s where "wired s" "\<forall>p\<in>main_P. pending s p = None" "\<forall>f\<in>main_P \<union> main_C. in_use s f = 0"
proof -
  obtain s :: fifos where i: "idle main_P main_C main_shape s" using main_idle by blast
  then show thesis using that wired_idle [OF i] unfolding idle_def by blast
qed

text \<open>A picture of the first video in the queue of an idle network.\<close>

lemma queued_picture:
  assumes "length px = 18432"
  obtains s where "wired s" "\<forall>p\<in>{35, 36, 37}. pending s p = None" "frames s 45 = [(yuyv px, 0, 0)]"
    "head_producer s 45 = Some (imgs main_img_param ! 0)" "img_room 1 s" "frames s 47 = []"
proof -
  obtain s0 where s0: "wired s0" "\<forall>p\<in>main_P. pending s0 p = None" "\<forall>f\<in>main_P \<union> main_C. in_use s0 f = 0"
    by (rule idle_wired)
  have mem: "14 \<in> main_P" "45 \<in> main_C" "47 \<in> main_C" "46 \<in> main_C" "38 \<in> main_C" "35 \<in> main_P" "36 \<in> main_P" "37 \<in> main_P"
    by (simp_all add: main_sets)
  have S: "data_maxlen (s0 14) = 73728" "capacity s0 14 = 3" "consumers (s0 14) = [45]" "capacity s0 45 = 24"
    using wiredD(2) [OF s0(1) _ main_shape_facts(1)] wiredD(3) [OF s0(1) _ _ main_shape_facts(2)] by simp_all
  have lk: "links s0 14 c = (if c = 45 then 1 else 0)" for c using S(3) by (simp add: links_def)
  let ?x = "fifo_piece (yuyv px) WHOLE_FRAME 0"
  have room: "\<forall>c\<in>main_C. in_use s0 c + links s0 14 c * length [?x] \<le> capacity s0 c" using s0(3) lk S(4) by auto
  have pn: "pending s0 14 = None" "in_use s0 14 = 0" using s0(2,3) mem by auto
  have x: "\<forall>x\<in>set [?x]. fa_flags x = WHOLE_FRAME \<and> length (fa_data x) \<le> unat (data_maxlen (s0 14))"
    using assms S(1) by (simp add: fifo_piece_def)
  obtain s where s: "add_pieces 14 [?x] s0 = Inr s"
    "producer_post main_P main_C 14 (length [?x]) s0 s None (map (\<lambda>x. (fa_data x, 0, fa_timestamp x)) [?x])"
    using add_whole_frames [OF wiredD(1) [OF s0(1)] mem(1) pn(1) _ x _ room] S pn(2) by auto
  note W = wired_post [OF s0(1) s(2)]
  have P: "\<forall>q\<in>main_P. q \<noteq> 14 \<longrightarrow> pending s q = None \<and> in_use s q = 0"
    using s(2) s0(2,3) by (simp add: producer_post_def)
  have C: "frames s c = frames s0 c @ (if c = 45 then [(yuyv px, 0, 0)] else [])" if "c \<in> main_C" for c
    using s(2) that lk [of c] by (simp add: producer_post_def fifo_piece_def)
  have F: "frames s 45 = [(yuyv px, 0, 0)]" "frames s 47 = []" "frames s 46 = []" "frames s 38 = []"
    using C s0(3) mem in_use_frames [of s0] by auto
  obtain p where p: "head_producer s 45 = Some p" "p \<in> main_P" "0 < in_use s p"
    using head_ref [OF wiredD(1) [OF W] mem(2) F(1)] by metis
  have "p = 14" using p(2,3) P by (metis less_numeral_extra(3))
  then have "head_producer s 45 = Some (imgs main_img_param ! 0)" using p(1) by (simp add: imgs_def main_img_param_def)
  moreover have "img_room 1 s" using P F mem in_use_frames [of s 46] in_use_frames [of s 38] in_use_frames [of s 47]
    by (simp add: img_room_def)
  ultimately show thesis using that [OF W _ F(1) _ _ F(2)] P mem by auto
qed

theorem picture_turn_witness:
  "\<exists>e st s st' s'. wired s \<and> frames s 45 = [(yuyv (replicate 18432 (CHR ''a'', CHR ''b'', CHR ''c'', CHR ''d'')), 0, 0)] \<and>
     img_turn e main_img_param vmap_table_init (st, s) = Inr (st', s') \<and> frames s' 45 = [] \<and>
     frames s' 47 = [(luma (replicate 18432 (CHR ''a'', CHR ''b'', CHR ''c'', CHR ''d'')), 0, 0)]"
proof -
  define px where "px = replicate 18432 (CHR ''a'', CHR ''b'', CHR ''c'', CHR ''d'')"
  have l: "length px = 18432" by (simp add: px_def)
  obtain s where s: "wired s" "\<forall>p\<in>{35, 36, 37}. pending s p = None" "frames s 45 = [(yuyv px, 0, 0)]"
    "head_producer s 45 = Some (imgs main_img_param ! 0)" "img_room 1 s" "frames s 47 = []"
    by (rule queued_picture [OF l])
  define e where "e = \<lparr>jpeg = \<lambda>_. ''jpeg'', im_msg = replicate CMD_BUFSIZE NUL, im_rate = 25\<rparr>"
  define st where "st = img_start (replicate (256 * 144 * 2) NUL) (replicate (256 * 144 * 2 * 2) NUL)
    \<lparr>g_camholder_still = True, g_analyze_frame_num = 4, g_num_in_group = 0\<rparr>"
  have e: "env_ok e px" "num_pkts (length (jpeg_of e px)) = 1" by (simp_all add: env_ok_def jpeg_of_def e_def num_pkts_def)
  have st: "img_ok st" by (simp add: img_ok_def st_def img_start_def)
  have "capture_tick (im_sync st) = (Some 0, \<lparr>g_camholder_still = True, g_analyze_frame_num = 5, g_num_in_group = 1\<rparr>)"
    by (simp add: st_def img_start_def capture_tick_def)
  moreover have "vm_function (vmap_table_init ! 0) = 1" by (simp add: vmap_table_init_def vmap_entry_def upt_rec)
  ultimately have tick: "sync_after vmap_table_init 0 (im_sync st) =
      (Some 0, \<lparr>g_camholder_still = True, g_analyze_frame_num = 5, g_num_in_group = 1\<rparr>)" by (simp add: sync_after_def)
  have "47 \<in> main_C" by (simp add: main_sets)
  then obtain st' s' where "img_turn e main_img_param vmap_table_init (st, s) = Inr (st', s')" "frames s' 45 = []"
    "frames s' 47 = frames s 47 @ map whole_frame (y_adds px (Some 0))"
    using picture_turn [OF s(1-4) _ l st e(1) s(5) [folded e(2)] tick] by auto
  then show ?thesis
    using s(1,3,6) unfolding px_def [symmetric]
    by (intro exI [of _ e] exI [of _ st] exI [of _ s] exI [of _ st'] exI [of _ s']) (simp add: y_adds_def whole_frame_def)
qed

end
