(* ===== verification/Analyze_Properties.thy ===== *)
theory Analyze_Properties
  imports Analyze_Thread Image_Properties
begin

text \<open>
  The properties of the image analysis: the moving objects, the persons, the vote of the classifier, the
  box that is reported, and the way of a picture through the thread to the director.
\<close>

section \<open>Maximal runs\<close>

lemma moving_object_iff:
  assumes "IMAGE.frame_num ob \<noteq> 0"
  shows "(a, b) \<in> set (moving_objects Y ob) \<longleftrightarrow>
    a + 5 < b \<and> b \<le> FRAME_WIDTH - 1 \<and> (\<forall>c. a \<le> c \<and> c < b \<longrightarrow> moves Y (lastImage ob) c) \<and>
    (a = 0 \<or> \<not> moves Y (lastImage ob) (a - 1)) \<and> (b = FRAME_WIDTH - 1 \<or> \<not> moves Y (lastImage ob) b)"
    (is "?L \<longleftrightarrow> ?R")
proof -
  let ?P = "moves Y (lastImage ob)"
  have L: "?L \<longleftrightarrow> a < FRAME_WIDTH \<and> run_start ?P a \<and> b = run_end ?P FRAME_WIDTH a \<and> 5 < b - a"
    using assms by (auto simp: moving_objects_def objects_before_def)
  show ?thesis
  proof
    assume ?L
    then have l: "a < FRAME_WIDTH" "run_start ?P a" "b = run_end ?P FRAME_WIDTH a" "5 < b - a" unfolding L by blast+
    have "b \<le> FRAME_WIDTH - 1" using run_end_bounds [of a FRAME_WIDTH ?P] l(1,3) by simp
    then show ?R
      using l run_end_in [of a _ ?P FRAME_WIDTH] run_end_stop [of a FRAME_WIDTH ?P] by (auto simp: run_start_def)
  next
    assume r: ?R
    have w: "a < FRAME_WIDTH" "b < FRAME_WIDTH" using r by (auto simp: FRAME_WIDTH_def)
    have s: "run_start ?P a" using r by (auto simp: run_start_def)
    have "b \<le> run_end ?P FRAME_WIDTH a" using r w by (intro run_end_reaches) auto
    then have "run_end ?P FRAME_WIDTH a = b"
      using run_end_eq [of a b FRAME_WIDTH ?P] r w(2) by auto
    then show ?L using L w s r by auto
  qed
qed

section \<open>A classifier for the examples\<close>

text \<open>Two classes without support vectors: the threshold alone decides.\<close>

definition demo_model :: "rat \<Rightarrow> rat svm_model" where
  "demo_model r = \<lparr>gamma = 1, nr_class = 2, total_sv = 0, rho = [r], label = [1, 0], nSV = [0, 0], x_space = [], SV = [], sv_coef = [[]]\<rparr>"

definition demo_range :: feature_range where
  "demo_range = \<lparr>Feature_Min = replicate DIM 0, Feature_Max = replicate DIM 1\<rparr>"

definition blank :: "byte list" where
  "blank = replicate (FRAME_WIDTH * FRAME_HEIGHT) NUL"

lemma demo_ok: "model_ok (demo_model r)" "range_ok demo_range" "length blank = FRAME_WIDTH * FRAME_HEIGHT"
  by (simp_all add: model_ok_def demo_model_def range_ok_def demo_range_def blank_def)

lemma winners_demo: "winners rat_fp (demo_model r) x = [if r < 0 then 0 else 1]"
proof -
  have "class_pairs 2 = [(0, 1)]" by (simp add: class_pairs_def numeral_2_eq_2)
  then show ?thesis
    by (simp add: winners_def decision_def class_sum_def demo_model_def rat_fp_def)
qed

lemma accepts_demo: "accepts rat_fp fr (demo_model r) C k \<longleftrightarrow> r < 0"
  by (cases k) (simp add: accepts_def winners_demo, simp add: demo_model_def first_max_def numeral_2_eq_2)

lemma found_demo: "found rat_fp fr (demo_model r) C = (if r < 0 then windows else [])"
  unfolding found_def accepts_demo by simp

section \<open>The reported box\<close>

lemma mean_bounds:
  assumes "ns \<noteq> []"
  shows "Min (set ns) \<le> mean ns" and "mean ns \<le> Max (set ns)"
proof -
  have "length ns * Min (set ns) \<le> sum_list ns \<and> sum_list ns \<le> length ns * Max (set ns)"
  proof -
    have "(\<Sum>n\<leftarrow>ns. Min (set ns)) \<le> (\<Sum>n\<leftarrow>ns. n)" "(\<Sum>n\<leftarrow>ns. n) \<le> (\<Sum>n\<leftarrow>ns. Max (set ns))"
      by (rule sum_list_mono; simp)+
    then show ?thesis by (simp add: sum_list_triv)
  qed
  moreover have "0 < length ns" using assms by simp
  ultimately show "Min (set ns) \<le> mean ns" "mean ns \<le> Max (set ns)"
    using div_le_mono [of "length ns * Min (set ns)" "sum_list ns" "length ns"]
      div_le_mono [of "sum_list ns" "length ns * Max (set ns)" "length ns"] by (simp_all add: mean_def)
qed

text \<open>What a result of the analyser says: the flag, and top, left, bottom and right of the box and of the range.\<close>

definition sound_result :: "int list \<Rightarrow> bool" where
  "sound_result v \<longleftrightarrow> (case v of [flag, ta, la, ba, ra, tm, lm, bm, rm] \<Rightarrow>
     tm = 0 \<and> bm = 144 \<and>
     (if flag = 1 \<or> flag = 3 then
        ba = ta + 72 \<and> ra = la + 52 \<and> 2 \<le> ta \<and> ba \<le> 134 \<and>
        2 \<le> lm \<and> lm \<le> la \<and> ra \<le> rm \<and> rm \<le> 243
      else if flag = 2 then
        ta = 0 \<and> ba = 144 \<and> 0 \<le> la \<and> la + 5 < ra \<and> ra \<le> 255 \<and>
        lm = la \<and> rm = ra
      else flag = 0 \<and> ta = 0 \<and> la = 0 \<and> ba = 0 \<and> ra = 0)
   | _ \<Rightarrow> False)"

lemma sound_persons:
  assumes "qs \<noteq> []" and "\<forall>k\<in>set qs. 2 \<le> fst k \<and> fst k \<le> 62 \<and> 2 \<le> snd k \<and> snd k \<le> 191" and "flag = 1 \<or> flag = 3"
  shows "sound_result [flag, int (mean (map fst qs)), int (mean (map snd qs)), int (mean (map fst qs) + PHEIGHT), int (mean (map snd qs) + PWIDTH),
    0, int (Min (set (map snd qs))), int FRAME_HEIGHT, int (Max (set (map snd qs)) + PWIDTH)]"
proof -
  have ne: "map fst qs \<noteq> []" "map snd qs \<noteq> []" "set (map fst qs) \<noteq> {}" "set (map snd qs) \<noteq> {}" using assms(1) by simp_all
  have "2 \<le> Min (set (map fst qs))" "Max (set (map fst qs)) \<le> 62" "2 \<le> Min (set (map snd qs))" "Max (set (map snd qs)) \<le> 191"
    using ne assms(2) by (simp_all add: Min_ge_iff)
  then show ?thesis
    using mean_bounds [OF ne(1)] mean_bounds [OF ne(2)] assms(3) by (auto simp: sound_result_def window_sizes FRAME_HEIGHT_def simp del: set_map)
qed

lemma sound_moving:
  "a + 5 < b \<Longrightarrow> b \<le> 255 \<Longrightarrow> sound_result [2, 0, int a, int FRAME_HEIGHT, int b, 0, int a, int FRAME_HEIGHT, int b]"
  by (simp add: sound_result_def FRAME_HEIGHT_def)

lemma sorted_objects:
  assumes "(a, b) \<in> set (moving_objects Y ob)" and "(a', b') \<in> set (moving_objects Y ob)" and "a \<le> a'"
  shows "b \<le> b'"
proof (cases "a = a'")
  case True
  then show ?thesis using assms by (auto simp: moving_objects_def objects_before_def split: if_splits)
next
  case False
  then have "b < a'"
    using assms run_end_before_start [of "moves Y (lastImage ob)" a' a FRAME_WIDTH]
    by (auto simp: moving_objects_def objects_before_def split: if_splits)
  then show ?thesis using object_bounds [OF assms(2)] by simp
qed

lemma hull_of_objects:
  assumes "moving_objects Y ob \<noteq> []"
  shows "fst (hd (moving_objects Y ob)) + 5 < snd (List.last (moving_objects Y ob))" and "snd (List.last (moving_objects Y ob)) \<le> 255"
proof -
  let ?os = "moving_objects Y ob"
  obtain a b c d where e: "hd ?os = (a, b)" "List.last ?os = (c, d)" by (metis surj_pair)
  have m: "(a, b) \<in> set ?os" "(c, d) \<in> set ?os" using hd_in_set [OF assms] last_in_set [OF assms] e by auto
  have "sorted (map fst ?os)"
    by (auto simp: moving_objects_def objects_before_def sorted_map sorted_wrt_filter sorted_wrt_map simp del: upt_Suc intro: sorted_wrt_filter)
  then have "a \<le> c"
    using e m(2) assms by (cases ?os) auto
  then have "b \<le> d" using sorted_objects m by blast
  then show "fst (hd ?os) + 5 < snd (List.last ?os)" "snd (List.last ?os) \<le> 255"
    using object_bounds [OF m(1)] object_bounds [OF m(2)] e by (simp_all add: FRAME_WIDTH_def)
qed

lemma sound_verdict: "sound_result (verdict (found F fr m C) (moving_objects Y ob))"
proof -
  let ?mv = "moving_objects Y ob"
  define qs where "qs = relevant (found F fr m C) ?mv"
  have b: "\<forall>k\<in>set qs. 2 \<le> fst k \<and> fst k \<le> 62 \<and> 2 \<le> snd k \<and> snd k \<le> 191"
    using found_window [of _ F fr m C] by (auto simp: qs_def relevant_def)
  show ?thesis
  proof (cases "qs = []")
    case False
    then show ?thesis
      using sound_persons [OF False b, of "if ?mv = [] then 1 else 3"] by (simp add: verdict_def Let_def flip: qs_def)
  next
    case True
    show ?thesis
    proof (cases "?mv = []")
      case True
      then show ?thesis using \<open>qs = []\<close> unfolding verdict_def Let_def qs_def [symmetric] by (simp add: sound_result_def FRAME_HEIGHT_def)
    next
      case False
      from sound_moving [OF hull_of_objects [OF this]] show ?thesis
        using \<open>qs = []\<close> False by (simp add: verdict_def Let_def flip: qs_def)
    qed
  qed
qed

section \<open>The event\<close>

text \<open>What the director reads from the event.\<close>

definition reported :: "int list \<Rightarrow> t_DetectResult" where
  "reported v = (if 0 < v ! 0 then
     \<lparr>detected = 1, avg_top = word_of_int (v ! 1), avg_left = word_of_int (v ! 2), avg_bottom = word_of_int (v ! 3),
      avg_right = word_of_int (v ! 4), max_top = word_of_int (v ! 5), max_left = word_of_int (v ! 6),
      max_bottom = word_of_int (v ! 7), max_right = word_of_int (v ! 8)\<rparr> else detect_zero)"

lemma analysis_event_decoded:
  assumes "sound_result v"
  shows "GetDetectResult (fa_data (analysis_event v) @ rest) = Inr (reported v)"
proof -
  obtain f a1 a2 a3 a4 a5 a6 a7 a8 where v: "v = [f, a1, a2, a3, a4, a5, a6, a7, a8]"
    using assms by (auto simp: sound_result_def split: list.splits)
  have f: "f = 0 \<or> f = 1 \<or> f = 2 \<or> f = 3" using assms by (auto simp: sound_result_def v split: if_splits)
  have "EventVID2df (replicate CMD_BUFSIZE NUL) (map word_of_int v) = Inr (analysis_event v)"
    unfolding analysis_event_def by (rule EventVID2df_correct) (simp_all add: v)
  then have "GetDetectResult (fa_data (analysis_event v) @ rest)
      = bind_res (EventVID2df (replicate CMD_BUFSIZE NUL) (map word_of_int v)) (\<lambda>f. GetDetectResult (fa_data f @ rest))" by simp
  also have "\<dots> = Inr (reported v)"
    using f event_vid_decoded [of "replicate CMD_BUFSIZE NUL" "word_of_int f" "word_of_int a1" "word_of_int a2" "word_of_int a3"
      "word_of_int a4" "word_of_int a5" "word_of_int a6" "word_of_int a7" "word_of_int a8" rest]
    by (auto simp: v reported_def word_sless_alt)
  finally show ?thesis .
qed

lemma queued_luma:
  assumes "length d = 36864"
  obtains s where "wired s" "pending s 24 = None" "in_use s 24 = 0" "in_use s 57 = 0" "frames s 57 = []" "frames s 47 = [(d, 0, 0)]"
proof -
  obtain s0 where s0: "wired s0" "\<forall>p\<in>main_P. pending s0 p = None" "\<forall>f\<in>main_P \<union> main_C. in_use s0 f = 0"
    by (rule idle_wired)
  have mem: "37 \<in> main_P" "24 \<in> main_P" "47 \<in> main_C" "57 \<in> main_C" by (simp_all add: main_sets)
  define x where "x = \<lparr>fa_data = d, fa_flags = WHOLE_FRAME, fa_timestamp = 0 :: u32\<rparr>"
  have x: "\<forall>y\<in>set [x]. fa_flags y = WHOLE_FRAME \<and> length (fa_data y) \<le> unat (73728 :: u32)" using assms by (simp add: x_def)
  have z: "pending s0 37 = None" "in_use s0 37 + length [x] \<le> 3" "in_use s0 47 + length [x] \<le> 3" using s0(2,3) mem by auto
  obtain s where s: "wired s" "frames s 47 = frames s0 47 @ map whole_frame [x]"
    "\<forall>c\<in>main_C. c \<noteq> 47 \<longrightarrow> frames s c = frames s0 c"
    "\<forall>q\<in>main_P. q \<noteq> 37 \<longrightarrow> pending s q = pending s0 q \<and> in_use s q = in_use s0 q"
    using wired_add [OF s0(1) _ main_shape_img_out(5,6) _ _ z(1) _ x z(2,3)] by auto
  have "frames s0 47 = []" "frames s0 57 = []" using s0(3) mem in_use_frames [of s0 47] in_use_frames [of s0 57] by auto
  then show thesis
    using that [OF s(1)] s s0(2,3) mem in_use_frames [of s 57] by (auto simp: x_def whole_frame_def)
qed

section \<open>Properties\<close>

text \<open>
  C24. The moving objects. A picture of at least the expected size is compared with the previous one without any
  access out of bounds; the rectangles that are stored are, from left to right, exactly the maximal runs of
  more than five moving columns (the last column excepted), each over the whole height, and the picture is
  kept for the next comparison. After the start there is nothing to compare with, and no object is found.
\<close>

theorem moving_objects_found:
  assumes "image_ok ob" and "FRAME_WIDTH * FRAME_HEIGHT \<le> length Y"
  shows "\<exists>ob' os. FrameDiff Y ob = Inr ob' \<and> image_ok ob' \<and> recNum ob' = length os \<and>
    take (recNum ob') (coordinate ob') = map (object_rect FRAME_HEIGHT) os \<and>
    lastImage ob' = take (FRAME_WIDTH * FRAME_HEIGHT) Y \<and> sorted (map fst os) \<and> distinct os \<and>
    (IMAGE.frame_num ob = 0 \<longrightarrow> os = []) \<and>
    (IMAGE.frame_num ob \<noteq> 0 \<longrightarrow> (\<forall>a b. (a, b) \<in> set os \<longleftrightarrow>
      a + 5 < b \<and> b \<le> FRAME_WIDTH - 1 \<and> (\<forall>c. a \<le> c \<and> c < b \<longrightarrow> moves Y (lastImage ob) c) \<and>
      (a = 0 \<or> \<not> moves Y (lastImage ob) (a - 1)) \<and> (b = FRAME_WIDTH - 1 \<or> \<not> moves Y (lastImage ob) b)))"
proof -
  obtain ob' where o: "FrameDiff Y ob = Inr ob'" "image_ok ob'" "recNum ob' = length (moving_objects Y ob)"
    "take (recNum ob') (coordinate ob') = map (object_rect FRAME_HEIGHT) (moving_objects Y ob)"
    "lastImage ob' = take (FRAME_WIDTH * FRAME_HEIGHT) Y"
    using FrameDiff_ok [OF assms] by metis
  let ?as = "filter (run_start (moves Y (lastImage ob))) [0 ..< FRAME_WIDTH]"
  let ?f = "\<lambda>a. (a, run_end (moves Y (lastImage ob)) FRAME_WIDTH a)"
  let ?os = "filter (\<lambda>(a, b). b - a > 5) (map ?f ?as)"
  have s: "sorted (map fst (map ?f ?as))" "distinct (map ?f ?as)"
    by (simp_all add: comp_def sorted_wrt_filter distinct_map inj_on_def del: upt_Suc)
  have "sorted (map fst ?os)" "distinct ?os"
    using sorted_wrt_filter [OF s(1) [unfolded sorted_map]] distinct_filter [OF s(2)] unfolding sorted_map by blast+
  then have "sorted (map fst (moving_objects Y ob))" "distinct (moving_objects Y ob)"
    by (simp_all add: moving_objects_def objects_before_def)
  moreover have "IMAGE.frame_num ob = 0 \<Longrightarrow> moving_objects Y ob = []" by (simp add: moving_objects_def)
  ultimately show ?thesis using o moving_object_iff [of ob _ _ Y] by (intro exI [of _ ob'] exI [of _ "moving_objects Y ob"]) simp
qed

theorem moving_objects_found_witness:
  "\<exists>ob'. FrameDiff blank global_IMAGE = Inr ob' \<and> recNum ob' = 0 \<and> lastImage ob' = blank"
proof -
  have f: "IMAGE.frame_num global_IMAGE = 0" by (simp add: global_IMAGE_def)
  have "FRAME_WIDTH * FRAME_HEIGHT \<le> length blank" using demo_ok(3) by simp
  from moving_objects_found [OF global_IMAGE_ok this]
  obtain ob' and os :: "(nat \<times> nat) list" where o: "FrameDiff blank global_IMAGE = Inr ob'" "recNum ob' = length os" "IMAGE.frame_num global_IMAGE = 0 \<longrightarrow> os = []"
    "lastImage ob' = take (FRAME_WIDTH * FRAME_HEIGHT) blank" by (elim exE conjE) (rule that)
  then show ?thesis using f demo_ok(3) by (intro exI [of _ ob']) simp
qed

text \<open>
  C25. The vote of the classifier. With a consistent model and a complete feature vector nothing is read out of
  bounds or before it is written, and the result is the label of a class that wins at least as many of the
  decisions between two classes as any other, and more than all classes before it.
\<close>

theorem svm_vote:
  assumes "model_ok m" and "DIM \<le> length x"
  shows "\<exists>c < nr_class m. svm_predict F m x = Inr (label m ! c) \<and>
    (\<forall>i < nr_class m. count_list (winners F m x) i \<le> count_list (winners F m x) c) \<and>
    (\<forall>i < c. count_list (winners F m x) i < count_list (winners F m x) c)"
proof -
  have "0 < nr_class m" using assms(1) by (simp add: model_ok_def)
  from first_max_max [OF this, of "count_list (winners F m x)"] svm_predict_ok [OF assms, of F] show ?thesis by blast
qed

theorem svm_vote_witness: "svm_predict rat_fp (demo_model (-1)) (replicate DIM 3) = Inr 1"
proof -
  obtain c where c: "c < 2" "svm_predict rat_fp (demo_model (-1)) (replicate DIM 3) = Inr (label (demo_model (-1)) ! c)"
    "\<forall>i < 2. count_list [0 :: nat] i \<le> count_list [0] c"
    using svm_vote [OF demo_ok(1) [of "-1"], of "replicate DIM 3" rat_fp] winners_demo [of "-1" "replicate DIM 3"]
    by (auto simp: demo_model_def)
  then have "c = 0" by (cases c) (auto dest: spec [of _ 0])
  then show ?thesis using c(2) by (simp add: demo_model_def)
qed

text \<open>
  C23. The detected persons. Whatever the picture, the edges, the census transform, the histograms and the
  classification of its sixty windows read no cell that has not been written, leave no array, and store
  exactly the windows that the classifier accepts, in the order of the loops, of the size of a window and
  inside the picture.
\<close>

theorem persons_found:
  assumes "FRAME_WIDTH * FRAME_HEIGHT \<le> length Y" and "range_ok fr" and "model_ok m" and "image_ok ob"
  shows "\<exists>ob'. FrameCentrist F fr m Y ob = Inr ob' \<and> image_ok ob' \<and> lastImage ob' = lastImage ob \<and> cenRecNum ob' \<le> 60 \<and>
    take (cenRecNum ob') (cenCoord ob') = map window_rect (filter (accepts F fr m (picture_census F Y)) windows) \<and>
    (\<forall>r \<in> set (take (cenRecNum ob') (cenCoord ob')). x2 r = x1 r + 52 \<and> y2 r = y1 r + 72 \<and>
       0 \<le> x1 r \<and> x2 r < int FRAME_WIDTH \<and> 0 \<le> y1 r \<and> y2 r < int FRAME_HEIGHT)"
proof -
  have l: "length (cenCoord ob) = COOR_SIZE" using assms(4) by (simp add: image_ok_def)
  obtain cs where c: "FrameCentrist F fr m Y ob = Inr (ob\<lparr>cenCoord := cs, cenRecNum := length (found F fr m (picture_census F Y))\<rparr>)"
    "length cs = COOR_SIZE" "take (length (found F fr m (picture_census F Y))) cs = map window_rect (found F fr m (picture_census F Y))"
    by (rule FrameCentrist_ok [OF assms(1-3) l])
  have "x2 r = x1 r + 52 \<and> y2 r = y1 r + 72 \<and> 0 \<le> x1 r \<and> x2 r < int FRAME_WIDTH \<and> 0 \<le> y1 r \<and> y2 r < int FRAME_HEIGHT"
    if "r \<in> set (map window_rect (found F fr m (picture_census F Y)))" for r
    using that found_window [of _ F fr m "picture_census F Y"]
    by (force simp: window_rect_def window_sizes frame_sizes split: prod.splits)
  moreover define ob' where "ob' = ob\<lparr>cenCoord := cs, cenRecNum := length (found F fr m (picture_census F Y))\<rparr>"
  moreover have "image_ok ob'" "lastImage ob' = lastImage ob" "cenRecNum ob' \<le> 60"
    "take (cenRecNum ob') (cenCoord ob') = map window_rect (found F fr m (picture_census F Y))"
    using c length_found [of F fr m "picture_census F Y"] assms(4) by (simp_all add: image_ok_def ob'_def)
  ultimately show ?thesis using c(1) unfolding found_def [symmetric] by metis
qed

theorem persons_found_witness:
  "\<exists>ob'. FrameCentrist rat_fp demo_range (demo_model (-1)) blank global_IMAGE = Inr ob' \<and>
     take (cenRecNum ob') (cenCoord ob') = map window_rect windows"
proof -
  have "FRAME_WIDTH * FRAME_HEIGHT \<le> length blank" using demo_ok(3) by simp
  from persons_found [OF this demo_ok(2) demo_ok(1) [of "-1"] global_IMAGE_ok, of rat_fp]
  show ?thesis by (auto simp: accepts_demo)
qed

text \<open>
  C21. The way of a picture through the analysis. A turn of the thread on the network of \<^verbatim>\<open>main\<close> takes the picture off
  its queue, keeps it for the next comparison, and adds one event to the queue of the director, from
  which \<^verbatim>\<open>GetDetectResult\<close> reads the result of the reference, whatever lies behind it in the buffer; nothing is
  accessed out of bounds, no other queue changes, and the invariant of the network is kept. The queue of events
  must have room.
\<close>

theorem picture_analysed:
  assumes "wired s" and "pending s F_Event_producer_fifo_Analyze = None"
    and "in_use s F_Event_producer_fifo_Analyze < EINBUF_CNT" and "in_use s F_Event_consumer_fifo < EINBUF_CNT"
    and "frames s F_Filtered_img_consumer_fifo = (d, f, t) # fs" and "length d = FRAME_WIDTH * FRAME_HEIGHT"
    and "image_ok ob" and "range_ok fr" and "model_ok m" and "length g = CMD_BUFSIZE"
  shows "\<exists>ob' s' x. analyze_turn F fr m g main_analyze_param (ob, s) = Inr (ob', s') \<and> wired s' \<and> image_ok ob' \<and>
    pending s' F_Event_producer_fifo_Analyze = None \<and> lastImage ob' = d \<and>
    frames s' F_Filtered_img_consumer_fifo = fs \<and> frames s' F_Event_consumer_fifo = frames s F_Event_consumer_fifo @ [(x, 0, 0)] \<and>
    (\<forall>rest. GetDetectResult (x @ rest) = Inr (reported (verdict (found F fr m (picture_census F d))
       (moving_objects d (if t = 0 then InitImage ob else ob))))) \<and>
    (\<forall>c\<in>main_C - {F_Filtered_img_consumer_fifo, F_Event_consumer_fifo}. frames s' c = frames s c)"
proof -
  let ?v = "verdict (found F fr m (picture_census F d)) (moving_objects d (if t = 0 then InitImage ob else ob))"
  have "\<forall>rest. GetDetectResult (fa_data (analysis_event ?v) @ rest) = Inr (reported ?v)"
    using analysis_event_decoded [OF sound_verdict] by blast
  moreover have "whole_frame (analysis_event ?v) = (fa_data (analysis_event ?v), 0, 0)"
    by (simp add: whole_frame_def analysis_event_def msg_add_def)
  ultimately show ?thesis using analyze_turn_event [OF assms, of F] by metis
qed

theorem picture_analysed_witness:
  "\<exists>s ob' s' x. wired s \<and> frames s 47 = [(blank, 0, 0)] \<and>
     analyze_turn rat_fp demo_range (demo_model 1) (replicate CMD_BUFSIZE NUL) main_analyze_param (global_IMAGE, s) = Inr (ob', s') \<and>
     frames s' 47 = [] \<and> frames s' 57 = [(x, 0, 0)] \<and> GetDetectResult (x @ ''next'') = Inr detect_zero"
proof -
  have "length blank = 36864" using demo_ok(3) by (simp add: frame_sizes)
  then obtain s where s: "wired s" "pending s 24 = None" "in_use s 24 = 0" "in_use s 57 = 0" "frames s 57 = []" "frames s 47 = [(blank, 0, 0)]"
    by (rule queued_luma)
  have u: "in_use s 24 < 10" "in_use s 57 < 10" "length (replicate CMD_BUFSIZE NUL) = CMD_BUFSIZE" using s by simp_all
  have "reported (verdict [] (moving_objects blank (InitImage global_IMAGE))) = detect_zero"
    by (simp add: moving_objects_def InitImage_def verdict_def relevant_def reported_def)
  then show ?thesis
    using picture_analysed [OF s(1,2) u(1,2) s(6) demo_ok(3) global_IMAGE_ok demo_ok(2) demo_ok(1) [of 1] u(3), of rat_fp] s(1,5,6)
    by (auto simp: found_demo)
qed

text \<open>
  C22. The result of the analysis is the reference: the average window of the persons near the movement
  and the hull of their columns, or the columns of the movement when there is nobody near it. A person is
  always reported by a box of the size of a window inside the picture and inside the reported range, a mere
  movement by the full height, and only flag 0 comes with an empty box.
\<close>

theorem detected_box:
  fixes ob num
  defines "ob0 \<equiv> (if num = 0 then InitImage ob else ob)"
  assumes "image_ok ob" and "FRAME_WIDTH * FRAME_HEIGHT \<le> length Y" and "range_ok fr" and "model_ok m"
  shows "\<exists>ob' v. DetectFrame F fr m Y num ob = Inr (ob', map word_of_int v) \<and> image_ok ob' \<and>
    lastImage ob' = take (FRAME_WIDTH * FRAME_HEIGHT) Y \<and>
    v = verdict (found F fr m (picture_census F Y)) (moving_objects Y ob0) \<and> sound_result v"
  using DetectFrame_ok [OF assms(2-5), of F num] sound_verdict unfolding ob0_def by blast

theorem detected_box_witness:
  "\<exists>ob'. DetectFrame rat_fp demo_range (demo_model 1) blank 0 global_IMAGE
     = Inr (ob', [0, 0, 0, 0, 0, 0, 2147483647, 144, - 2147483648]) \<and> lastImage ob' = blank"
proof -
  have "FRAME_WIDTH * FRAME_HEIGHT \<le> length blank" using demo_ok(3) by simp
  from detected_box [OF global_IMAGE_ok this demo_ok(2) demo_ok(1) [of 1], of rat_fp 0]
  have "\<exists>ob'. DetectFrame rat_fp demo_range (demo_model 1) blank 0 global_IMAGE
      = Inr (ob', map word_of_int (verdict [] (moving_objects blank (InitImage global_IMAGE)))) \<and> lastImage ob' = blank"
    using demo_ok(3) by (auto simp: found_demo)
  moreover have "moving_objects blank (InitImage global_IMAGE) = []" by (simp add: moving_objects_def InitImage_def)
  ultimately show ?thesis by (simp add: verdict_def relevant_def FRAME_HEIGHT_def)
qed

end
