(* ===== verification/Local_Save.thy ===== *)
theory Local_Save
  imports Msg_Properties Video_Map C_Float
begin

text \<open>
  The local storage (\<^verbatim>\<open>thread_localsave\<close>, \<^verbatim>\<open>streamframe\<close> and \<^verbatim>\<open>thread_mp4format\<close> in
  \<^verbatim>\<open>recbcsrv/recbc_srv.c\<close>): nine channels, each with a status, that start, pause, resume and stop on
  control messages, open and close files, write the frames of the media queue from the first key frame
  on, and forward live video and audio to the streaming server. The files are a map from paths to
  contents; a stream that is used while it is closed is an error of the model.
\<close>

section \<open>Channels and streams\<close>

datatype e_localsave_status =
    LOCALSAVE_IDLE | LOCALSAVE_START | LOCALSAVE_WORKING | LOCALSAVE_PAUSE | LOCALSAVE_RESUME | LOCALSAVE_STOP

datatype channel = Vstore | Vlive | VGA | V1 | V2 | V3 | V4 | V5 | V6

definition channels :: "channel list" where
  "channels = [Vstore, Vlive, VGA, V1, V2, V3, V4, V5, V6]"

text \<open>The channels with a single file of their own, in the order of the code.\<close>

definition resource_channels :: "channel list" where
  "resource_channels = [VGA, V1, V2, V3, V4, V5, V6]"

text \<open>\<open>vfd\<close>, \<open>afd\<close>, \<open>pfd\<close>, and \<open>VGA_fd\<close> to \<open>V6_fd\<close>.\<close>

datatype stream = Vfd | Afd | Pfd | Fd channel

text \<open>What a frame of the media queue belongs to: the producer it comes from.\<close>

datatype av_source = Video channel | Audio

record av_frame =
  av_source :: av_source
  av_data :: "byte list"
  av_flags :: u32

record t_forward_table =
  teacherspecial :: bool
  studentspecial :: bool
  teacherfull :: bool
  studentfull :: bool
  blackboard :: bool

text \<open>The header of a packet to the streaming server, followed by the data.\<close>

datatype packet_type = PACKET_TYPE_VIDEO | PACKET_TYPE_AUDIO

record t_streaming_packet_header =
  pk_flag :: int
  pk_size :: u32
  pk_type :: packet_type
  pk_timestamp :: u32

record t_mp4format =
  mp4_filename :: string
  mp4_fps :: string
  has_audio :: bool

section \<open>The state of the thread\<close>

text \<open>
  \<open>disk\<close>: the files; \<open>fds\<close>: the open streams, each with the path it was opened with. \<open>live_vframes\<close> and
  \<open>live_aframes\<close> are not initialised. \<open>sends\<close>: the values that the following calls of \<^verbatim>\<open>send\<close> return, \<open>net\<close>:
  what has been sent completely; \<open>jobs\<close>: the conversions that have been started.
\<close>

record save_state =
  status :: "channel \<Rightarrow> e_localsave_status"
  fds :: "stream \<Rightarrow> string option"
  disk :: "string \<Rightarrow> byte list option"
  filename :: string
  frame_count :: u32
  aframe_count :: u32
  v_frames :: "channel \<Rightarrow> u32"
  live_vframes :: "u32 option"
  live_aframes :: "u32 option"
  sock :: bool
  sends :: "int list"
  net :: "(t_streaming_packet_header \<times> byte list) list"
  jobs :: "t_mp4format list"

text \<open>
  What does not change: the mode, the directory \<open>CfgDir\<close>, the video map, the forwarding table, the text of the
  frame rate, and the two floating point expressions of the time stamps
  (\<open>n*1000/g_cfg.frame_rate\<close> and \<open>n*1024/44.100\<close>, of an unsigned product).
\<close>

record save_config =
  IsResouceMode :: bool
  CfgDir :: string
  save_vmap :: vmap_table
  forward :: t_forward_table
  fps_text :: string
  video_ts :: "u32 \<Rightarrow> u32"
  audio_ts :: "u32 \<Rightarrow> u32"

text \<open>What a turn of the loop reads from outside: the time (\<^verbatim>\<open>gmtime\<close>) and which paths can be opened.\<close>

record t_tm =
  tm_year :: int
  tm_mon :: int
  tm_mday :: int
  tm_hour :: int
  tm_min :: int
  tm_sec :: int

record save_env =
  env_tm :: t_tm
  can_open :: "string \<Rightarrow> bool"
  can_malloc :: bool

section \<open>Names of files\<close>

fun dec_string :: "nat \<Rightarrow> string" where
  "dec_string n = (if n < 10 then [hex_char n] else dec_string (n div 10) @ [hex_char (n mod 10)])"

declare dec_string.simps [simp del]

text \<open>\<open>sprintf("%0wd", n)\<close>; the sign counts as one of the characters.\<close>

definition sprintf_d :: "nat \<Rightarrow> int \<Rightarrow> string" where
  "sprintf_d w n =
     (if n < 0 then (let s = dec_string (nat (- n)) in ''-'' @ replicate (w - 1 - length s) (CHR ''0'') @ s)
      else (let s = dec_string (nat n) in replicate (w - length s) (CHR ''0'') @ s))"

text \<open>The hour is shifted to the local time without a carry into the day.\<close>

definition base_filename :: "t_tm \<Rightarrow> string" where
  "base_filename tm =
     sprintf_d 4 (tm_year tm + 1900) @ sprintf_d 2 (tm_mon tm + 1) @ sprintf_d 2 (tm_mday tm) @
     sprintf_d 2 (tm_hour tm + 8) @ sprintf_d 2 (tm_min tm) @ sprintf_d 2 (tm_sec tm)"

fun channel_name :: "channel \<Rightarrow> string" where
  "channel_name Vstore = ''MUX''"
| "channel_name Vlive = ''''"
| "channel_name VGA = ''VGA''"
| "channel_name V1 = ''V1''"
| "channel_name V2 = ''V2''"
| "channel_name V3 = ''V3''"
| "channel_name V4 = ''V4''"
| "channel_name V5 = ''V5''"
| "channel_name V6 = ''V6''"

definition channel_dir :: "save_config \<Rightarrow> channel \<Rightarrow> string" where
  "channel_dir cf c = ''./'' @ CfgDir cf @ channel_name c @ ''/''"

section \<open>Streams\<close>

definition f_open :: "save_env \<Rightarrow> stream \<Rightarrow> string \<Rightarrow> save_state \<Rightarrow> save_state" where
  "f_open ev f path st =
     (if can_open ev path then st\<lparr>fds := (fds st)(f := Some path), disk := (disk st)(path := Some [])\<rparr>
      else st\<lparr>fds := (fds st)(f := None)\<rparr>)"

definition f_write :: "stream \<Rightarrow> byte list \<Rightarrow> save_state \<Rightarrow> save_state res" where
  "f_write f data st =
     (case fds st f of
        None \<Rightarrow> Inl Null_Deref
      | Some path \<Rightarrow>
          Inr (st\<lparr>disk := (disk st)(path := Some ((case disk st path of None \<Rightarrow> [] | Some d \<Rightarrow> d) @ data))\<rparr>))"

definition f_close :: "stream \<Rightarrow> save_state \<Rightarrow> save_state res" where
  "f_close f st = (case fds st f of None \<Rightarrow> Inl Null_Deref | Some path \<Rightarrow> Inr (st\<lparr>fds := (fds st)(f := None)\<rparr>))"

text \<open>\<open>fprintf(pfd, "...: %d\n", frame_count)\<close>\<close>

definition log_frame :: "string \<Rightarrow> save_state \<Rightarrow> save_state res" where
  "log_frame what st = f_write Pfd (what @ '': '' @ sprintf_d 1 (sint (frame_count st)) @ [CHR 0x0A]) st"

section \<open>Control messages\<close>

definition set_status :: "save_config \<Rightarrow> e_localsave_status \<Rightarrow> save_state \<Rightarrow> save_state" where
  "set_status cf v st =
     st\<lparr>status := (\<lambda>c. if c = Vstore \<or> c = Vlive \<or> IsResouceMode cf then v else status st c)\<rparr>"

definition getdata_attr :: "save_config \<Rightarrow> save_state \<Rightarrow> byte list \<Rightarrow> byte list \<Rightarrow> save_state res" where
  "getdata_attr cf st name value = Inr
     (if c_str name = ''Type'' then
        (if c_str value = ''All'' then (set_status cf LOCALSAVE_START st)\<lparr>live_vframes := Some 0, live_aframes := Some 0\<rparr>
         else set_status cf LOCALSAVE_STOP st)
      else st)"

definition internal_attr :: "save_config \<Rightarrow> save_state \<Rightarrow> byte list \<Rightarrow> byte list \<Rightarrow> save_state res" where
  "internal_attr cf st name value =
     bind_res (if c_str name = ''Pause'' then
         bind_res (log_frame ''PAUSE'' st) (\<lambda>st'. Inr (set_status cf LOCALSAVE_PAUSE st'))
       else Inr st) (\<lambda>st1.
     Inr (if c_str name = ''Resume'' then set_status cf LOCALSAVE_RESUME st1 else st1))"

definition save_message :: "save_config \<Rightarrow> byte list \<Rightarrow> save_state \<Rightarrow> save_state res" where
  "save_message cf Msg st =
     bind_res (msg_command Msg) (\<lambda>cmd.
     bind_res (if cmd = COMMAND_GETDATA then scan_msg 16 1536 Msg (getdata_attr cf) st else Inr st) (\<lambda>st1.
     if cmd = COMMAND_INTERNAL then scan_msg 16 1536 Msg (internal_attr cf) st1 else Inr st1))"

section \<open>Starting and stopping\<close>

definition start_store :: "save_config \<Rightarrow> save_env \<Rightarrow> save_state \<Rightarrow> save_state" where
  "start_store cf ev st =
     (if status st Vstore = LOCALSAVE_START then
        (let base = base_filename (env_tm ev); path = channel_dir cf Vstore @ base;
             st1 = f_open ev Pfd (path @ ''.pro'') (f_open ev Afd (path @ ''.aac'') (f_open ev Vfd (path @ ''.264'')
                     (st\<lparr>filename := base\<rparr>)))
         in st1\<lparr>frame_count := 0, aframe_count := 0,
                v_frames := (\<lambda>c. if c \<in> {V1, V2, V3, V4, V5} then 0 else v_frames st c),
                status := (status st)(Vstore := LOCALSAVE_RESUME)\<rparr>)
      else st)"

definition start_live :: "save_state \<Rightarrow> save_state" where
  "start_live st =
     (if status st Vlive = LOCALSAVE_START then st\<lparr>status := (status st)(Vlive := LOCALSAVE_RESUME)\<rparr> else st)"

definition start_channel :: "save_config \<Rightarrow> save_env \<Rightarrow> save_state \<Rightarrow> channel \<Rightarrow> save_state" where
  "start_channel cf ev st c =
     (if status st c = LOCALSAVE_START then
        (f_open ev (Fd c) (channel_dir cf c @ filename st @ ''.264'') st)\<lparr>status := (status st)(c := LOCALSAVE_RESUME)\<rparr>
      else st)"

text \<open>The conversion is started unless the parameter block cannot be allocated.\<close>

definition start_job :: "save_config \<Rightarrow> save_env \<Rightarrow> channel \<Rightarrow> bool \<Rightarrow> save_state \<Rightarrow> save_state" where
  "start_job cf ev c audio st =
     (if can_malloc ev then st\<lparr>jobs := jobs st @
        [\<lparr>mp4_filename = channel_dir cf c @ filename st, mp4_fps = fps_text cf, has_audio = audio\<rparr>]\<rparr> else st)"

definition stop_store :: "save_config \<Rightarrow> save_env \<Rightarrow> save_state \<Rightarrow> save_state res" where
  "stop_store cf ev st =
     (if status st Vstore = LOCALSAVE_STOP then
        bind_res (f_close Afd st) (\<lambda>st1.
        bind_res (f_close Vfd st1) (\<lambda>st2.
        bind_res (log_frame ''STOP'' st2) (\<lambda>st3.
        bind_res (f_close Pfd st3) (\<lambda>st4.
        let st5 = start_job cf ev Vstore True st4
        in Inr (st5\<lparr>status := (status st5)(Vstore := LOCALSAVE_IDLE)\<rparr>)))))
      else Inr st)"

definition stop_live :: "save_state \<Rightarrow> save_state" where
  "stop_live st =
     (if status st Vlive = LOCALSAVE_STOP then st\<lparr>status := (status st)(Vlive := LOCALSAVE_IDLE)\<rparr> else st)"

definition stop_channel :: "save_config \<Rightarrow> save_env \<Rightarrow> save_state \<Rightarrow> channel \<Rightarrow> save_state res" where
  "stop_channel cf ev st c =
     (if status st c = LOCALSAVE_STOP then
        bind_res (f_close (Fd c) st) (\<lambda>st1.
        let st2 = start_job cf ev c False st1
        in Inr (st2\<lparr>status := (status st2)(c := LOCALSAVE_IDLE)\<rparr>))
      else Inr st)"

text \<open>The state changes of a turn, in the order of the code.\<close>

definition change_states :: "save_config \<Rightarrow> save_env \<Rightarrow> save_state \<Rightarrow> save_state res" where
  "change_states cf ev st =
     (let st1 = foldl (start_channel cf ev) (start_live (start_store cf ev st)) resource_channels
      in bind_res (stop_store cf ev st1) (\<lambda>st2.
         fold_res (stop_channel cf ev) (stop_live st2) resource_channels))"

section \<open>Sending to the streaming server\<close>

text \<open>
  A packet goes out in two calls of \<^verbatim>\<open>send\<close>, the header and the data; a short count closes the socket.
  The counter of the frames advances when the header has been sent, even if the data has not.
\<close>

definition do_send :: "nat \<Rightarrow> save_state \<Rightarrow> save_state" where
  "do_send n st =
     (case sends st of
        [] \<Rightarrow> st\<lparr>sock := False\<rparr>
      | r # rs \<Rightarrow> st\<lparr>sends := rs, sock := \<not> r < int n\<rparr>)"

abbreviation (input) "STREAMING_PACKET_HEADER_LENGTH \<equiv> 16 :: nat"

text \<open>One packet; the result tells whether the header was sent.\<close>

definition send_packet :: "t_streaming_packet_header \<Rightarrow> byte list \<Rightarrow> save_state \<Rightarrow> bool \<times> save_state" where
  "send_packet hdr data st =
     (if sock st then
        (let st1 = do_send STREAMING_PACKET_HEADER_LENGTH st
         in if sock st1 then
              (let st2 = do_send (length data) st1
               in (True, if sock st2 then st2\<lparr>net := net st2 @ [(hdr, data)]\<rparr> else st2))
            else (False, st1))
      else (False, st))"

definition packet_header :: "int \<Rightarrow> byte list \<Rightarrow> packet_type \<Rightarrow> u32 \<Rightarrow> t_streaming_packet_header" where
  "packet_header flag data ty ts =
     \<lparr>pk_flag = flag, pk_size = of_nat (length data), pk_type = ty, pk_timestamp = ts\<rparr>"

definition streamframe :: "save_config \<Rightarrow> int \<Rightarrow> channel \<Rightarrow> byte list \<Rightarrow> save_state \<Rightarrow> save_state" where
  "streamframe cf flag c data st =
     (case send_packet (packet_header flag data PACKET_TYPE_VIDEO (video_ts cf (v_frames st c * 1000))) data st of
        (ok, st1) \<Rightarrow> if ok then st1\<lparr>v_frames := (v_frames st1)(c := v_frames st1 c + 1)\<rparr> else st1)"

section \<open>The frames of the media queue\<close>

definition key_frame :: "av_frame \<Rightarrow> bool" where
  "key_frame fr \<longleftrightarrow> av_flags fr AND FRAME_FLAG_FIRSTFRAME \<noteq> 0 \<or> av_flags fr AND FRAME_FLAG_KEYFRAME \<noteq> 0"

text \<open>A channel that is resumed starts working at a key frame.\<close>

definition wake :: "channel \<Rightarrow> av_frame \<Rightarrow> save_state \<Rightarrow> save_state" where
  "wake c fr st =
     (if status st c = LOCALSAVE_RESUME \<and> key_frame fr then st\<lparr>status := (status st)(c := LOCALSAVE_WORKING)\<rparr> else st)"

definition store_frame :: "av_frame \<Rightarrow> save_state \<Rightarrow> save_state res" where
  "store_frame fr st =
     bind_res (if status st Vstore = LOCALSAVE_RESUME \<and> key_frame fr
               then log_frame ''RESUME'' (st\<lparr>status := (status st)(Vstore := LOCALSAVE_WORKING)\<rparr>) else Inr st) (\<lambda>st1.
     bind_res (if status st1 Vstore = LOCALSAVE_WORKING then f_write Vfd (av_data fr) st1 else Inr st1) (\<lambda>st2.
     Inr (st2\<lparr>frame_count := frame_count st2 + 1\<rparr>)))"

definition live_frame :: "save_config \<Rightarrow> av_frame \<Rightarrow> save_state \<Rightarrow> save_state res" where
  "live_frame cf fr st =
     (let st1 = wake Vlive fr st
      in if status st1 Vlive = LOCALSAVE_WORKING \<and> sock st1 then
           (case live_vframes st1 of
              None \<Rightarrow> Inl Uninitialised
            | Some n \<Rightarrow>
                (case send_packet (packet_header 0 (av_data fr) PACKET_TYPE_VIDEO (video_ts cf (n * 1000))) (av_data fr) st1 of
                   (ok, st2) \<Rightarrow> Inr (if ok then st2\<lparr>live_vframes := Some (n + 1)\<rparr> else st2)))
         else Inr st1)"

text \<open>The channels of the videos 0 to 4 are forwarded when the function of the video is.\<close>

definition forwarded :: "save_config \<Rightarrow> int \<Rightarrow> bool" where
  "forwarded cf f \<longleftrightarrow>
     f = VIDEO_FUNCTION_TEACHER_CLOSEUP \<and> teacherspecial (forward cf) \<or>
     f = VIDEO_FUNCTION_STUDENT_CLOSEUP \<and> studentspecial (forward cf) \<or>
     f = VIDEO_FUNCTION_TEACHER_PANORAMA \<and> teacherfull (forward cf) \<or>
     f = VIDEO_FUNCTION_STUDENT_PANORAMA \<and> studentfull (forward cf) \<or>
     f = VIDEO_FUNCTION_BOARD_CLOSEUP \<and> blackboard (forward cf)"

fun video_index :: "channel \<Rightarrow> nat option" where
  "video_index V1 = Some 0"
| "video_index V2 = Some 1"
| "video_index V3 = Some 2"
| "video_index V4 = Some 3"
| "video_index V5 = Some 4"
| "video_index _ = None"

definition channel_frame :: "save_config \<Rightarrow> channel \<Rightarrow> av_frame \<Rightarrow> save_state \<Rightarrow> save_state res" where
  "channel_frame cf c fr st =
     (let st1 = wake c fr st
      in if status st1 c = LOCALSAVE_WORKING then
           bind_res (f_write (Fd c) (av_data fr) st1) (\<lambda>st2.
           Inr (case video_index c of
                  None \<Rightarrow> st2
                | Some k \<Rightarrow>
                    (let f = vm_function (save_vmap cf ! k)
                     in if forwarded cf f then streamframe cf f c (av_data fr) st2 else st2)))
         else Inr st1)"

definition audio_frame :: "save_config \<Rightarrow> av_frame \<Rightarrow> save_state \<Rightarrow> save_state res" where
  "audio_frame cf fr st =
     bind_res (if status st Vstore = LOCALSAVE_WORKING then f_write Afd (av_data fr) st else Inr st) (\<lambda>st1.
     if status st1 Vlive = LOCALSAVE_WORKING \<and> sock st1 then
       (case live_aframes st1 of
          None \<Rightarrow> Inl Uninitialised
        | Some n \<Rightarrow>
            (case send_packet (packet_header 0 (av_data fr) PACKET_TYPE_AUDIO (audio_ts cf (n * 1024))) (av_data fr) st1 of
               (ok, st2) \<Rightarrow> Inr (if ok then st2\<lparr>live_aframes := Some (n + 1)\<rparr> else st2)))
     else Inr st1)"

definition save_frame :: "save_config \<Rightarrow> av_frame \<Rightarrow> save_state \<Rightarrow> save_state res" where
  "save_frame cf fr st =
     (case av_source fr of
        Video Vstore \<Rightarrow> store_frame fr st
      | Video Vlive \<Rightarrow> live_frame cf fr st
      | Video c \<Rightarrow> channel_frame cf c fr st
      | Audio \<Rightarrow> audio_frame cf fr st)"

section \<open>A turn of the loop\<close>

text \<open>
  What a turn meets: the request to exit, whether \<^verbatim>\<open>thread_connect_liveserver\<close>, which tries every second
  while there is no connection, has succeeded since the last turn, and what is in the two queues.
\<close>

record save_input =
  in_canceled :: bool
  in_connected :: bool
  in_ctrl :: "byte list option"
  in_env :: save_env
  in_av :: "av_frame option"

definition all_idle :: "save_state \<Rightarrow> bool" where
  "all_idle st \<longleftrightarrow> (\<forall>c\<in>set channels. status st c = LOCALSAVE_IDLE)"

definition connect_liveserver :: "bool \<Rightarrow> save_state \<Rightarrow> save_state" where
  "connect_liveserver ok st = (if sock st then st else st\<lparr>sock := ok\<rparr>)"

text \<open>The turn; \<open>None\<close> when the loop is left.\<close>

definition save_turn :: "save_config \<Rightarrow> save_input \<Rightarrow> save_state \<Rightarrow> save_state option res" where
  "save_turn cf i st =
     (if in_canceled i \<and> all_idle st then Inr None
      else
        (let st' = connect_liveserver (in_connected i) st;
             st0 = if in_canceled i then st'\<lparr>status := (\<lambda>_. LOCALSAVE_STOP)\<rparr> else st'
         in bind_res (case in_ctrl i of None \<Rightarrow> Inr st0 | Some Msg \<Rightarrow> save_message cf Msg st0) (\<lambda>st1.
            bind_res (change_states cf (in_env i) st1) (\<lambda>st2.
            bind_res (case in_av i of None \<Rightarrow> Inr st2 | Some fr \<Rightarrow> save_frame cf fr st2) (\<lambda>st3.
            Inr (Some st3))))))"

text \<open>Before the loop: \<open>d\<close> are the files, \<open>online\<close> and \<open>rs\<close> the socket and the results of its calls.\<close>

definition save_init :: "(string \<Rightarrow> byte list option) \<Rightarrow> bool \<Rightarrow> int list \<Rightarrow> save_state" where
  "save_init d online rs =
     \<lparr>status = (\<lambda>_. LOCALSAVE_IDLE), fds = (\<lambda>_. None), disk = d, filename = '''', frame_count = 0, aframe_count = 0,
      v_frames = (\<lambda>_. 0), live_vframes = None, live_aframes = None, sock = online, sends = rs, net = [], jobs = []\<rparr>"

section \<open>The conversion\<close>

text \<open>The command line of \<^verbatim>\<open>thread_mp4format\<close>, built in \<open>cmdstr[256]\<close>.\<close>

definition mp4_command :: "t_mp4format \<Rightarrow> string" where
  "mp4_command j = ''MP4Box -add '' @ mp4_filename j @ ''.264 -fps '' @ mp4_fps j @
     (if has_audio j then '' -add '' @ mp4_filename j @ ''.aac'' else '''') @
     '' -new '' @ mp4_filename j @ ''.mp4''"

definition thread_mp4format :: "t_mp4format \<Rightarrow> string res" where
  "thread_mp4format j = (if length (mp4_command j) < 256 then Inr (mp4_command j) else Inl Buffer_Overflow)"

end
