(* ===== verification/Save_Recording.thy ===== *)
theory Save_Recording
  imports Local_Save Instructor
begin

text \<open>
  The local storage at work: what the control messages of the instructor connection do, the
  well-formedness of the state (which streams are open for which status) and its preservation by every
  turn, and what ends up in the files.
\<close>

section \<open>Control messages\<close>

lemma short_msg_fits:
  assumes "short_msg m" and "a \<in> set (map call_attr (snd m))"
  shows "fits 16 1536 a"
proof -
  have sh: "short_attr a" and len: "length (encode_attrs (map call_attr (snd m))) < 1526"
    using assms by (auto simp: short_msg_def)
  have "length (encode_attr a) = 5 + length (fst a) + length (snd a)" using sh by (rule length_encode_attr)
  then show ?thesis using encode_attr_le [OF assms(2)] len sh by (simp add: fits_def short_attr_def)
qed

lemma save_message_short:
  assumes "short_msg m"
  shows "save_message cf (fa_data (msg_of m)) st =
    (if c_str (fst m) = COMMAND_GETDATA then fold_res (\<lambda>st (n, v). getdata_attr cf st n v) st (map call_attr (snd m))
     else if c_str (fst m) = COMMAND_INTERNAL then fold_res (\<lambda>st (n, v). internal_attr cf st n v) st (map call_attr (snd m))
     else Inr st)"
proof -
  let ?as = "map call_attr (snd m)"
  have c: "length (fst m) = 4" and l: "length (encode_attrs ?as) < 65536" using assms by (auto simp: short_msg_def)
  have f: "\<forall>a\<in>set ?as. fits 16 1536 a" using short_msg_fits [OF assms] by blast
  have d: "fa_data (msg_of m) = make_msg (fst m) ?as" by (simp add: msg_of_def msg_add_def)
  have cmd: "msg_command (make_msg (fst m) ?as) = Inr (c_str (fst m))"
    using msg_command_make_msg [OF c, of ?as "[]"] by simp
  have scan: "scan_msg 16 1536 (make_msg (fst m) ?as) body st = fold_res (\<lambda>s (n, v). body s n v) st ?as" for body
    using scan_make_msg [OF c f l, of "[]"] by simp
  have "bind_res x Inr = x" for x :: "save_state res" by (cases x) simp_all
  then show ?thesis by (simp add: save_message_def d cmd scan)
qed

text \<open>The messages that concern the storage, as an observer of the session.\<close>

definition save_mon :: "bool \<Rightarrow> string \<times> attr_call list \<Rightarrow> bool option" where
  "save_mon w m =
     (if c_str (fst m) = COMMAND_GETDATA then
        (case snd m of
           [a] \<Rightarrow> if c_str (fst (call_attr a)) \<noteq> ''Type'' then Some w
                  else if c_str (snd (call_attr a)) = ''All'' then (if w then None else Some True)
                  else if w then Some False else None
         | _ \<Rightarrow> None)
      else if c_str (fst m) = COMMAND_INTERNAL then
        (case snd m of
           [a] \<Rightarrow> if c_str (fst (call_attr a)) \<in> {''Pause'', ''Resume''} then (if w then Some True else None) else Some w
         | _ \<Rightarrow> None)
      else Some w)"

interpretation sm: session_monitor save_mon
proof unfold_locales
  show "monitor save_mon False (start_msgs env) = Some True" for env
    by (simp add: start_msgs_def save_mon_def c_str_def)
  show "monitor save_mon True stop_msgs = Some False"
    by (simp add: stop_msgs_def save_mon_def c_str_def)
qed (auto simp: save_mon_def c_str_def)

section \<open>Well-formed states\<close>

text \<open>A channel takes part in a recording; a stream belongs to it, with its path.\<close>

definition opened :: "save_config \<Rightarrow> channel \<Rightarrow> bool" where
  "opened cf c \<longleftrightarrow> c = Vstore \<or> c = Vlive \<or> IsResouceMode cf"

fun used :: "save_config \<Rightarrow> stream \<Rightarrow> bool" where
  "used cf (Fd c) \<longleftrightarrow> IsResouceMode cf \<and> c \<in> set resource_channels"
| "used cf f \<longleftrightarrow> True"

fun path :: "save_config \<Rightarrow> string \<Rightarrow> stream \<Rightarrow> string" where
  "path cf base Vfd = channel_dir cf Vstore @ base @ ''.264''"
| "path cf base Afd = channel_dir cf Vstore @ base @ ''.aac''"
| "path cf base Pfd = channel_dir cf Vstore @ base @ ''.pro''"
| "path cf base (Fd c) = channel_dir cf c @ base @ ''.264''"

definition open_files :: "save_config \<Rightarrow> string \<Rightarrow> stream \<Rightarrow> string option" where
  "open_files cf base f = (if used cf f then Some (path cf base f) else None)"

text \<open>
  Between two turns: without a recording every channel is idle and no stream open; during one every channel that
  takes part is waiting for a key frame, working or paused, and exactly its streams are open.
\<close>

definition taking_part :: "save_config \<Rightarrow> (channel \<Rightarrow> e_localsave_status) \<Rightarrow> bool" where
  "taking_part cf sf \<longleftrightarrow> (\<forall>c. (opened cf c \<longrightarrow> sf c \<in> {LOCALSAVE_RESUME, LOCALSAVE_WORKING, LOCALSAVE_PAUSE}) \<and>
     (\<not> opened cf c \<longrightarrow> sf c = LOCALSAVE_IDLE))"

definition save_ok :: "save_config \<Rightarrow> bool \<Rightarrow> save_state \<Rightarrow> bool" where
  "save_ok cf w st \<longleftrightarrow>
     (if w then
        taking_part cf (status st) \<and>
        fds st = open_files cf (filename st) \<and> live_vframes st \<noteq> None \<and> live_aframes st \<noteq> None
      else (\<forall>c. status st c = LOCALSAVE_IDLE) \<and> fds st = (\<lambda>_. None))"

text \<open>The same in the middle of a turn, when \<open>START\<close> or \<open>STOP\<close> has been set and nothing done yet.\<close>

definition save_pending :: "save_config \<Rightarrow> bool \<Rightarrow> save_state \<Rightarrow> bool" where
  "save_pending cf w st \<longleftrightarrow> save_ok cf w st \<or>
     (w \<and> (\<forall>c. status st c = (if opened cf c then LOCALSAVE_START else LOCALSAVE_IDLE)) \<and> fds st = (\<lambda>_. None) \<and>
       live_vframes st \<noteq> None \<and> live_aframes st \<noteq> None) \<or>
     (\<not> w \<and> (\<forall>c. status st c = (if opened cf c then LOCALSAVE_STOP else LOCALSAVE_IDLE)) \<and>
       fds st = open_files cf (filename st))"

lemma channel_cases: "c \<in> set resource_channels \<or> c = Vstore \<or> c = Vlive"
  by (cases c) (simp_all add: resource_channels_def)

lemma resource_not_main [simp]: "Vstore \<notin> set resource_channels" "Vlive \<notin> set resource_channels"
  by (simp_all add: resource_channels_def)

lemma opened_simps [simp]: "opened cf Vstore" "opened cf Vlive"
  by (simp_all add: opened_def)

lemma opened_resource: "c \<in> set resource_channels \<Longrightarrow> opened cf c = IsResouceMode cf"
  by (auto simp: opened_def)

lemma log_frame_open: "fds st Pfd = Some p \<Longrightarrow> \<exists>d. log_frame what st = Inr (st\<lparr>disk := d\<rparr>)"
  by (auto simp: log_frame_def f_write_def)

lemma getdata_pending:
  assumes "save_ok cf w st" and "c_str n = ''Type''" and "(c_str v = ''All'') = (\<not> w)"
  shows "\<exists>st'. getdata_attr cf st n v = Inr st' \<and> save_pending cf (\<not> w) st'"
  using assms by (cases w) (auto simp: getdata_attr_def save_ok_def save_pending_def set_status_def taking_part_def opened_def)

lemma internal_pending:
  assumes "save_ok cf w st" and "c_str n \<in> {''Pause'', ''Resume''} \<longrightarrow> w"
  shows "\<exists>st'. internal_attr cf st n v = Inr st' \<and> save_ok cf w st'"
proof (cases "c_str n \<in> {''Pause'', ''Resume''}")
  case True
  then have "fds st Pfd = Some (path cf (filename st) Pfd)" using assms by (simp add: save_ok_def open_files_def)
  from log_frame_open [OF this, of "''PAUSE''"] obtain d where "log_frame ''PAUSE'' st = Inr (st\<lparr>disk := d\<rparr>)" ..
  then show ?thesis
    using True assms by (auto simp: internal_attr_def save_ok_def set_status_def taking_part_def opened_def)
qed (use assms(1) in \<open>simp add: internal_attr_def\<close>)

lemma save_message_pending:
  assumes "save_ok cf w st" and "short_msg m" and "save_mon w m = Some v"
  shows "\<exists>st'. save_message cf (fa_data (msg_of m)) st = Inr st' \<and> save_pending cf v st'"
proof -
  consider (getdata) a where "c_str (fst m) = COMMAND_GETDATA" "snd m = [a]"
    | (internal) a where "c_str (fst m) = COMMAND_INTERNAL" "snd m = [a]"
    | (other) "c_str (fst m) \<noteq> COMMAND_GETDATA" "c_str (fst m) \<noteq> COMMAND_INTERNAL"
    using assms(3) by (auto simp: save_mon_def split: list.splits if_splits)
  then show ?thesis
  proof cases
    case getdata
    obtain n x where a: "call_attr a = (n, x)" by (cases "call_attr a")
    show ?thesis
    proof (cases "c_str n = ''Type''")
      case True
      then have "(c_str x = ''All'') = (\<not> w)" "v = (\<not> w)"
        using assms(3) getdata a by (auto simp: save_mon_def split: if_splits)
      then show ?thesis
        using getdata_pending [OF assms(1) True, of x] save_message_short [OF assms(2), of cf st] getdata a by auto
    next
      case False
      then have "v = w" using assms(3) getdata a by (simp add: save_mon_def)
      then show ?thesis
        using False assms(1) save_message_short [OF assms(2), of cf st] getdata a by (simp add: getdata_attr_def save_pending_def)
    qed
  next
    case internal
    obtain n x where a: "call_attr a = (n, x)" by (cases "call_attr a")
    have "c_str n \<in> {''Pause'', ''Resume''} \<longrightarrow> w" "v = w"
      using assms(3) internal a by (auto simp: save_mon_def split: if_splits)
    then show ?thesis
      using internal_pending [OF assms(1), of n x] save_message_short [OF assms(2), of cf st] internal a
      by (auto simp: save_pending_def)
  next
    case other
    then show ?thesis
      using assms(1,3) save_message_short [OF assms(2), of cf st] by (simp add: save_mon_def save_pending_def)
  qed
qed

section \<open>Opening and closing\<close>

definition same_live :: "save_state \<Rightarrow> save_state \<Rightarrow> bool" where
  "same_live st st' \<longleftrightarrow> live_vframes st' = live_vframes st \<and> live_aframes st' = live_aframes st \<and> filename st' = filename st"

lemma same_live_simps [simp]: "same_live st st" "same_live st s \<Longrightarrow> same_live s t \<Longrightarrow> same_live st t"
  by (simp_all add: same_live_def)

definition started :: "save_config \<Rightarrow> channel set \<Rightarrow> save_state \<Rightarrow> save_state \<Rightarrow> bool" where
  "started cf cs st st' \<longleftrightarrow>
     status st' = (\<lambda>c. if c \<in> cs \<and> status st c = LOCALSAVE_START then LOCALSAVE_RESUME else status st c) \<and>
     fds st' = (\<lambda>f. case f of
         Fd c \<Rightarrow> if c \<in> cs \<and> status st c = LOCALSAVE_START then Some (path cf (filename st) f) else fds st f
       | _ \<Rightarrow> fds st f) \<and>
     same_live st st' \<and> jobs st' = jobs st"

lemma start_channels:
  assumes "distinct cs" and "\<forall>p. can_open ev p"
  shows "started cf (set cs) st (foldl (start_channel cf ev) st cs)"
  using assms
proof (induction cs arbitrary: st)
  case Nil
  then show ?case by (auto simp: started_def fun_eq_iff split: stream.split)
next
  case (Cons c cs)
  let ?s = "start_channel cf ev st c"
  have s: "status ?s = (\<lambda>d. if d = c \<and> status st d = LOCALSAVE_START then LOCALSAVE_RESUME else status st d)"
    "fds ?s = (\<lambda>f. if f = Fd c \<and> status st c = LOCALSAVE_START then Some (path cf (filename st) (Fd c)) else fds st f)"
    "same_live st ?s" "filename ?s = filename st" "jobs ?s = jobs st"
    using Cons.prems(2) by (auto simp: start_channel_def f_open_def same_live_def fun_eq_iff)
  have d: "distinct cs" "c \<notin> set cs" using Cons.prems(1) by simp_all
  have IH: "started cf (set cs) ?s (foldl (start_channel cf ev) ?s cs)" by (rule Cons.IH [OF d(1) Cons.prems(2)])
  show ?case using IH s d unfolding started_def foldl.simps
    by (auto simp: fun_eq_iff same_live_def split: stream.split)
qed

definition job_of :: "save_config \<Rightarrow> save_state \<Rightarrow> channel \<Rightarrow> t_mp4format" where
  "job_of cf st c = \<lparr>mp4_filename = channel_dir cf c @ filename st, mp4_fps = fps_text cf, has_audio = (c = Vstore)\<rparr>"

lemma stop_channels:
  assumes "distinct cs" and "Vstore \<notin> set cs" and "\<forall>c\<in>set cs. status st c = LOCALSAVE_STOP \<longrightarrow> fds st (Fd c) \<noteq> None"
  shows "\<exists>st'. fold_res (stop_channel cf ev) st cs = Inr st' \<and>
    status st' = (\<lambda>c. if c \<in> set cs \<and> status st c = LOCALSAVE_STOP then LOCALSAVE_IDLE else status st c) \<and>
    fds st' = (\<lambda>f. case f of Fd c \<Rightarrow> if c \<in> set cs \<and> status st c = LOCALSAVE_STOP then None else fds st f | _ \<Rightarrow> fds st f) \<and>
    same_live st st' \<and> disk st' = disk st \<and>
    jobs st' = jobs st @ (if can_malloc ev then map (job_of cf st) (filter (\<lambda>c. status st c = LOCALSAVE_STOP) cs) else [])"
  using assms
proof (induction cs arbitrary: st)
  case Nil
  then show ?case by (auto simp: fun_eq_iff split: stream.split)
next
  case (Cons c cs)
  obtain s where s: "stop_channel cf ev st c = Inr s"
    "status s = (\<lambda>d. if d = c \<and> status st d = LOCALSAVE_STOP then LOCALSAVE_IDLE else status st d)"
    "fds s = (\<lambda>f. if f = Fd c \<and> status st c = LOCALSAVE_STOP then None else fds st f)"
    "same_live st s" "disk s = disk st"
    "jobs s = jobs st @ (if can_malloc ev \<and> status st c = LOCALSAVE_STOP then [job_of cf st c] else [])"
  proof (cases "status st c = LOCALSAVE_STOP")
    case True
    define s where "s = (start_job cf ev c False (st\<lparr>fds := (fds st)(Fd c := None)\<rparr>))\<lparr>status := (status st)(c := LOCALSAVE_IDLE)\<rparr>"
    have "stop_channel cf ev st c = Inr s"
      using True Cons.prems(3) by (auto simp: stop_channel_def f_close_def s_def start_job_def)
    then show thesis
      using that [of s] True Cons.prems(2) by (auto simp: s_def start_job_def same_live_def job_of_def fun_eq_iff)
  qed (use that [of st] in \<open>auto simp: stop_channel_def fun_eq_iff\<close>)
  have d: "distinct cs" "c \<notin> set cs" "Vstore \<notin> set cs" using Cons.prems(1,2) by simp_all
  have o: "\<forall>e\<in>set cs. status s e = LOCALSAVE_STOP \<longrightarrow> fds s (Fd e) \<noteq> None" using Cons.prems(3) s(2,3) d(2) by auto
  have j: "job_of cf s = job_of cf st" using s(4) by (simp add: job_of_def same_live_def fun_eq_iff)
  have fl: "filter (\<lambda>e. status s e = LOCALSAVE_STOP) cs = filter (\<lambda>e. status st e = LOCALSAVE_STOP) cs"
    using s(2) d(2) by (intro filter_cong) auto
  obtain t where t: "fold_res (stop_channel cf ev) s cs = Inr t"
    "status t = (\<lambda>e. if e \<in> set cs \<and> status s e = LOCALSAVE_STOP then LOCALSAVE_IDLE else status s e)"
    "fds t = (\<lambda>f. case f of Fd e \<Rightarrow> if e \<in> set cs \<and> status s e = LOCALSAVE_STOP then None else fds s f | _ \<Rightarrow> fds s f)"
    "same_live s t" "disk t = disk s"
    "jobs t = jobs s @ (if can_malloc ev then map (job_of cf s) (filter (\<lambda>c. status s c = LOCALSAVE_STOP) cs) else [])"
    using Cons.IH [OF d(1,3) o] by blast
  have "status t = (\<lambda>e. if e \<in> set (c # cs) \<and> status st e = LOCALSAVE_STOP then LOCALSAVE_IDLE else status st e)"
    using t(2) s(2) d(2) by (auto simp: fun_eq_iff)
  moreover have "fds t = (\<lambda>f. case f of Fd e \<Rightarrow> if e \<in> set (c # cs) \<and> status st e = LOCALSAVE_STOP then None else fds st f | _ \<Rightarrow> fds st f)"
    using t(3) s(2,3) d(2) by (auto simp: fun_eq_iff split: stream.split)
  ultimately show ?case
    using s(1,4,5,6) t(1,4,5,6) j fl by (auto intro: same_live_simps(2))
qed

lemma distinct_resource: "distinct resource_channels"
  by (simp add: resource_channels_def)

lemma no_start:
  assumes "\<forall>c. status st c \<noteq> LOCALSAVE_START"
  shows "foldl (start_channel cf ev) (start_live (start_store cf ev st)) resource_channels = st"
proof -
  have "foldl (start_channel cf ev) st cs = st" for cs
    by (induction cs) (use assms in \<open>simp_all add: start_channel_def\<close>)
  then show ?thesis using assms by (simp add: start_live_def start_store_def)
qed

lemma no_stop:
  assumes "\<forall>c. status st c \<noteq> LOCALSAVE_STOP"
  shows "bind_res (stop_store cf ev st) (\<lambda>st2. fold_res (stop_channel cf ev) (stop_live st2) resource_channels) = Inr st"
proof -
  have "fold_res (stop_channel cf ev) st cs = Inr st" for cs
    by (induction cs) (use assms in \<open>simp_all add: stop_channel_def\<close>)
  then show ?thesis using assms by (simp add: stop_live_def stop_store_def)
qed

lemma change_states_quiet:
  assumes "\<forall>c. status st c \<notin> {LOCALSAVE_START, LOCALSAVE_STOP}"
  shows "change_states cf ev st = Inr st"
  unfolding change_states_def Let_def using assms by (simp add: no_start no_stop)

text \<open>A recording starts: every stream that is used is opened under the new name.\<close>

lemma change_states_start:
  assumes st: "\<forall>c. status st c = (if opened cf c then LOCALSAVE_START else LOCALSAVE_IDLE)" and fd: "fds st = (\<lambda>_. None)"
    and live: "live_vframes st \<noteq> None" "live_aframes st \<noteq> None" and can: "\<forall>p. can_open ev p"
  shows "\<exists>st'. change_states cf ev st = Inr st' \<and> save_ok cf True st' \<and> filename st' = base_filename (env_tm ev) \<and>
    (\<forall>c. status st' c = (if opened cf c then LOCALSAVE_RESUME else LOCALSAVE_IDLE)) \<and> jobs st' = jobs st"
proof -
  let ?base = "base_filename (env_tm ev)"
  define s1 where "s1 = start_live (start_store cf ev st)"
  have s1: "status s1 = (\<lambda>c. if c \<in> {Vstore, Vlive} then LOCALSAVE_RESUME else status st c)" "filename s1 = ?base"
    "fds s1 = (\<lambda>f. case f of Fd c \<Rightarrow> None | _ \<Rightarrow> Some (path cf ?base f))"
    "live_vframes s1 = live_vframes st" "live_aframes s1 = live_aframes st" "jobs s1 = jobs st"
    using st fd can by (auto simp: s1_def start_live_def start_store_def Let_def f_open_def fun_eq_iff split: stream.split)
  define s2 where "s2 = foldl (start_channel cf ev) s1 resource_channels"
  have S: "started cf (set resource_channels) s1 s2" unfolding s2_def by (rule start_channels [OF distinct_resource can])
  have stat: "status s2 c = (if opened cf c then LOCALSAVE_RESUME else LOCALSAVE_IDLE)" for c
    using S s1(1) st channel_cases [of c] by (auto simp: started_def opened_def)
  have fds: "fds s2 = open_files cf (filename s2)"
  proof
    fix f
    show "fds s2 f = open_files cf (filename s2) f"
    proof (cases f)
      case (Fd c)
      have "fds s2 (Fd c) = (if c \<in> set resource_channels \<and> status s1 c = LOCALSAVE_START then Some (path cf ?base (Fd c)) else None)"
        using S s1(2,3) by (simp add: started_def)
      moreover have "(c \<in> set resource_channels \<and> status s1 c = LOCALSAVE_START) = used cf (Fd c)"
        using s1(1) st opened_resource [of c cf] by auto
      ultimately show ?thesis using S s1(2) Fd by (simp add: open_files_def started_def same_live_def)
    qed (use S s1(2,3) in \<open>simp_all add: open_files_def started_def same_live_def\<close>)
  qed
  have "\<forall>c. status s2 c \<noteq> LOCALSAVE_STOP" using stat by simp
  then have "change_states cf ev st = Inr s2"
    unfolding change_states_def Let_def s1_def [symmetric] s2_def [symmetric] by (rule no_stop)
  moreover have "save_ok cf True s2"
    using stat fds S s1(4,5) live by (auto simp: save_ok_def taking_part_def started_def same_live_def)
  ultimately show ?thesis using stat S s1(2,6) by (auto simp: started_def same_live_def)
qed

text \<open>A recording ends: every stream is closed, and every file is converted once.\<close>

definition stop_jobs :: "save_config \<Rightarrow> save_env \<Rightarrow> save_state \<Rightarrow> t_mp4format list" where
  "stop_jobs cf ev st = (if can_malloc ev then map (job_of cf st) (filter (opened cf) (Vstore # resource_channels)) else [])"

lemma change_states_stop:
  assumes st: "\<forall>c. status st c = (if opened cf c then LOCALSAVE_STOP else LOCALSAVE_IDLE)"
    and fd: "fds st = open_files cf (filename st)"
  shows "\<exists>st'. change_states cf ev st = Inr st' \<and> save_ok cf False st' \<and> jobs st' = jobs st @ stop_jobs cf ev st \<and>
    (\<forall>p. p \<noteq> path cf (filename st) Pfd \<longrightarrow> disk st' p = disk st p)"
proof -
  have nostart: "foldl (start_channel cf ev) (start_live (start_store cf ev st)) resource_channels = st"
    using st by (intro no_start) simp
  have o: "fds st Vfd \<noteq> None" "fds st Afd \<noteq> None" "fds st Pfd = Some (path cf (filename st) Pfd)"
    using fd by (simp_all add: open_files_def)
  obtain s1 where s1: "stop_store cf ev st = Inr s1" "status s1 = (status st)(Vstore := LOCALSAVE_IDLE)"
    "fds s1 = (fds st)(Vfd := None, Afd := None, Pfd := None)" "filename s1 = filename st"
    "\<forall>p. p \<noteq> path cf (filename st) Pfd \<longrightarrow> disk s1 p = disk st p"
    "jobs s1 = jobs st @ (if can_malloc ev then [job_of cf st Vstore] else [])"
    using o st by (auto simp: stop_store_def f_close_def log_frame_def f_write_def start_job_def Let_def job_of_def fun_upd_twist)
  define s2 where "s2 = stop_live s1"
  have s2: "status s2 = (\<lambda>c. if c \<in> {Vstore, Vlive} then LOCALSAVE_IDLE else status st c)" "fds s2 = fds s1"
    "filename s2 = filename st" "disk s2 = disk s1" "jobs s2 = jobs s1"
    using s1(2,4) st by (auto simp: s2_def stop_live_def fun_eq_iff)
  have stop: "status s2 c = LOCALSAVE_STOP \<longleftrightarrow> opened cf c" if "c \<in> set resource_channels" for c
    using s2(1) st that opened_resource [OF that, of cf] by auto
  have op: "\<forall>c\<in>set resource_channels. status s2 c = LOCALSAVE_STOP \<longrightarrow> fds s2 (Fd c) \<noteq> None"
    using stop s2(2) s1(3) fd by (auto simp: open_files_def opened_resource)
  obtain s3 where s3: "fold_res (stop_channel cf ev) s2 resource_channels = Inr s3"
    "status s3 = (\<lambda>c. if c \<in> set resource_channels \<and> status s2 c = LOCALSAVE_STOP then LOCALSAVE_IDLE else status s2 c)"
    "fds s3 = (\<lambda>f. case f of Fd c \<Rightarrow> if c \<in> set resource_channels \<and> status s2 c = LOCALSAVE_STOP then None else fds s2 f | _ \<Rightarrow> fds s2 f)"
    "same_live s2 s3" "disk s3 = disk s2"
    "jobs s3 = jobs s2 @ (if can_malloc ev then map (job_of cf s2) (filter (\<lambda>c. status s2 c = LOCALSAVE_STOP) resource_channels) else [])"
    using stop_channels [OF distinct_resource resource_not_main(1) op, of cf ev] by blast
  have fl: "filter (\<lambda>c. status s2 c = LOCALSAVE_STOP) resource_channels = filter (opened cf) resource_channels"
    using stop by (intro filter_cong) auto
  have j: "job_of cf s2 = job_of cf st" using s2(3) by (simp add: job_of_def fun_eq_iff)
  have "status s3 c = LOCALSAVE_IDLE" for c
    using s3(2) s2(1) st channel_cases [of c] stop [of c] by auto
  moreover have "fds s3 f = None" for f
  proof (cases f)
    case (Fd c)
    then show ?thesis using s3(3) stop [of c] s2(2) s1(3) fd by (auto simp: open_files_def opened_resource)
  qed (use s3(3) s2(2) s1(3) in simp_all)
  ultimately have "save_ok cf False s3" by (auto simp: save_ok_def)
  moreover have "change_states cf ev st = Inr s3"
    unfolding change_states_def Let_def nostart s1(1) bind_res.simps s2_def [symmetric] by (rule s3(1))
  ultimately show ?thesis
    using s3(5,6) s2(4,5) s1(5,6) fl j by (auto simp: stop_jobs_def)
qed

section \<open>Frames\<close>

text \<open>Sending concerns the socket only.\<close>

definition same_files :: "save_state \<Rightarrow> save_state \<Rightarrow> bool" where
  "same_files st st' \<longleftrightarrow> status st' = status st \<and> fds st' = fds st \<and> disk st' = disk st \<and> filename st' = filename st \<and>
     frame_count st' = frame_count st \<and> jobs st' = jobs st \<and>
     (live_vframes st' = None) = (live_vframes st = None) \<and> (live_aframes st' = None) = (live_aframes st = None)"

lemma send_packet_same:
  "send_packet hdr data st = (ok, st') \<Longrightarrow> same_files st st' \<and> live_vframes st' = live_vframes st \<and> live_aframes st' = live_aframes st"
  by (auto simp: send_packet_def do_send_def Let_def same_files_def split: if_splits list.splits)

lemma streamframe_same: "same_files st (streamframe cf flag c data st)"
proof -
  obtain ok st1 where p: "send_packet (packet_header flag data PACKET_TYPE_VIDEO (video_ts cf (v_frames st c * 1000))) data st = (ok, st1)"
    by (cases "send_packet (packet_header flag data PACKET_TYPE_VIDEO (video_ts cf (v_frames st c * 1000))) data st")
  show ?thesis using send_packet_same [OF p] by (simp add: streamframe_def p same_files_def)
qed

lemma same_files_ok: "same_files st st' \<Longrightarrow> save_ok cf w st \<Longrightarrow> save_ok cf w st'"
  by (auto simp: same_files_def save_ok_def)

text \<open>A frame of a channel that works is appended to its file; the other files stay.\<close>

definition appended :: "save_state \<Rightarrow> string \<Rightarrow> byte list \<Rightarrow> string \<Rightarrow> byte list option" where
  "appended st p data = (disk st)(p := Some ((case disk st p of None \<Rightarrow> [] | Some d \<Rightarrow> d) @ data))"

lemma f_write_open: "fds st f = Some p \<Longrightarrow> f_write f data st = Inr (st\<lparr>disk := appended st p data\<rparr>)"
  by (simp add: f_write_def appended_def)

definition awake :: "channel \<Rightarrow> av_frame \<Rightarrow> save_state \<Rightarrow> channel \<Rightarrow> e_localsave_status" where
  "awake c fr st = (if status st c = LOCALSAVE_RESUME \<and> key_frame fr then (status st)(c := LOCALSAVE_WORKING) else status st)"

lemma wake_awake: "wake c fr st = st\<lparr>status := awake c fr st\<rparr>"
  by (simp add: wake_def awake_def)

lemma taking_part_awake: "taking_part cf (status st) \<Longrightarrow> taking_part cf (awake c fr st)"
proof -
  assume t: "taking_part cf (status st)"
  have "opened cf c" if "status st c = LOCALSAVE_RESUME"
    using t that unfolding taking_part_def by (metis e_localsave_status.distinct(7))
  then show ?thesis using t by (auto simp: taking_part_def awake_def)
qed

lemma awake_ok: "save_ok cf w st \<Longrightarrow> save_ok cf w (st\<lparr>status := awake c fr st\<rparr>)"
  using taking_part_awake by (auto simp: save_ok_def) (auto simp: awake_def)

lemma working_opened: "save_ok cf w st \<Longrightarrow> status st c = LOCALSAVE_WORKING \<Longrightarrow> w \<and> opened cf c"
proof (cases w)
  case True
  assume "save_ok cf w st" "status st c = LOCALSAVE_WORKING"
  then show ?thesis using True by (cases "opened cf c") (auto simp: save_ok_def taking_part_def)
qed (auto simp: save_ok_def)

lemma channel_frame_ok:
  assumes "save_ok cf w st" and "c \<in> set resource_channels"
  shows "\<exists>st'. channel_frame cf c fr st = Inr st' \<and> save_ok cf w st' \<and> status st' = awake c fr st \<and>
    filename st' = filename st \<and> jobs st' = jobs st \<and> frame_count st' = frame_count st \<and>
    disk st' = (if awake c fr st c = LOCALSAVE_WORKING then appended st (path cf (filename st) (Fd c)) (av_data fr) else disk st)"
proof -
  define st1 where "st1 = st\<lparr>status := awake c fr st\<rparr>"
  have ok: "save_ok cf w st1" unfolding st1_def by (rule awake_ok [OF assms(1)])
  show ?thesis
  proof (cases "status st1 c = LOCALSAVE_WORKING")
    case True
    then have w: "w" "opened cf c" using working_opened [OF ok] by simp_all
    then have "fds st1 (Fd c) = Some (path cf (filename st) (Fd c))"
      using ok assms(2) by (simp add: save_ok_def open_files_def opened_resource st1_def)
    note W = f_write_open [OF this, of "av_data fr"]
    define st2 where "st2 = st1\<lparr>disk := appended st1 (path cf (filename st) (Fd c)) (av_data fr)\<rparr>"
    have ok2: "save_ok cf w st2" using ok by (auto simp: st2_def save_ok_def)
    define st3 where "st3 = (case video_index c of None \<Rightarrow> st2 | Some k \<Rightarrow>
      (let f = vm_function (save_vmap cf ! k) in if forwarded cf f then streamframe cf f c (av_data fr) st2 else st2))"
    have "same_files st2 st3"
      unfolding st3_def using streamframe_same by (simp add: Let_def same_files_def split: option.split)
    moreover have "channel_frame cf c fr st = Inr st3"
      unfolding channel_frame_def Let_def wake_awake st1_def [symmetric] if_P [OF True] W bind_res.simps
        st2_def [symmetric] st3_def ..
    ultimately have "channel_frame cf c fr st = Inr st3" "same_files st2 st3" by simp_all
    then show ?thesis
      using same_files_ok [of st2 st3, OF _ ok2] True by (auto simp: same_files_def st2_def st1_def appended_def)
  qed (use ok in \<open>auto simp: channel_frame_def Let_def wake_awake st1_def\<close>)
qed

lemma store_frame_ok:
  assumes "save_ok cf w st"
  shows "\<exists>st'. store_frame fr st = Inr st' \<and> save_ok cf w st' \<and> status st' = awake Vstore fr st \<and>
    filename st' = filename st \<and> jobs st' = jobs st \<and> frame_count st' = frame_count st + 1 \<and>
    (\<forall>p. p \<noteq> path cf (filename st) Pfd \<longrightarrow> disk st' p =
       (if awake Vstore fr st Vstore = LOCALSAVE_WORKING then appended st (path cf (filename st) Vfd) (av_data fr) p else disk st p))"
proof (cases w)
  case True
  then have fd: "fds st Vfd = Some (path cf (filename st) Vfd)" "fds st Pfd = Some (path cf (filename st) Pfd)"
    using assms by (simp_all add: save_ok_def open_files_def)
  have ne: "path cf (filename st) Vfd \<noteq> path cf (filename st) Pfd" by simp
  show ?thesis
  proof (cases "status st Vstore = LOCALSAVE_RESUME \<and> key_frame fr")
    case key: True
    have "taking_part cf ((status st)(Vstore := LOCALSAVE_WORKING))"
      using taking_part_awake [of cf st Vstore fr] assms True key by (simp add: save_ok_def awake_def)
    then show ?thesis using key assms True fd ne
      by (auto simp: store_frame_def log_frame_def f_write_def awake_def appended_def save_ok_def)
  next
    case False
    then show ?thesis using assms True fd
      by (auto simp: store_frame_def f_write_def awake_def appended_def save_ok_def)
  qed
next
  case False
  then have "status st Vstore = LOCALSAVE_IDLE" using assms by (simp add: save_ok_def)
  then show ?thesis using assms by (auto simp: store_frame_def awake_def save_ok_def)
qed

lemma live_frame_ok:
  assumes "save_ok cf w st"
  shows "\<exists>st'. live_frame cf fr st = Inr st' \<and> save_ok cf w st' \<and> same_files (st\<lparr>status := awake Vlive fr st\<rparr>) st'"
proof -
  define st1 where "st1 = st\<lparr>status := awake Vlive fr st\<rparr>"
  have ok: "save_ok cf w st1" unfolding st1_def by (rule awake_ok [OF assms])
  have "\<exists>st'. live_frame cf fr st = Inr st' \<and> same_files st1 st'"
  proof (cases "status st1 Vlive = LOCALSAVE_WORKING \<and> sock st1")
    case True
    then have "w" using working_opened [OF ok, of Vlive] by simp
    then obtain n where n: "live_vframes st1 = Some n" using ok by (auto simp: save_ok_def)
    obtain b st2 where p: "send_packet (packet_header 0 (av_data fr) PACKET_TYPE_VIDEO (video_ts cf (n * 1000))) (av_data fr) st1 = (b, st2)"
      by (cases "send_packet (packet_header 0 (av_data fr) PACKET_TYPE_VIDEO (video_ts cf (n * 1000))) (av_data fr) st1")
    then show ?thesis using True n send_packet_same [OF p]
      by (auto simp: live_frame_def Let_def wake_awake st1_def [symmetric] same_files_def)
  qed (auto simp: live_frame_def Let_def wake_awake st1_def [symmetric] same_files_def)
  then show ?thesis using same_files_ok [OF _ ok] unfolding st1_def by blast
qed

lemma audio_frame_ok:
  assumes "save_ok cf w st"
  shows "\<exists>st'. audio_frame cf fr st = Inr st' \<and> save_ok cf w st' \<and> status st' = status st \<and>
    filename st' = filename st \<and> jobs st' = jobs st \<and> frame_count st' = frame_count st \<and>
    disk st' = (if status st Vstore = LOCALSAVE_WORKING then appended st (path cf (filename st) Afd) (av_data fr) else disk st)"
proof -
  define st1 where "st1 = (if status st Vstore = LOCALSAVE_WORKING
    then st\<lparr>disk := appended st (path cf (filename st) Afd) (av_data fr)\<rparr> else st)"
  have ok: "save_ok cf w st1" using assms by (auto simp: st1_def save_ok_def)
  have run: "(if status st Vstore = LOCALSAVE_WORKING then f_write Afd (av_data fr) st else Inr st) = Inr st1"
  proof (cases "status st Vstore = LOCALSAVE_WORKING")
    case True
    then have "fds st Afd = Some (path cf (filename st) Afd)"
      using working_opened [OF assms True] assms by (simp add: save_ok_def open_files_def)
    then show ?thesis using True f_write_open by (simp add: st1_def)
  qed (simp add: st1_def)
  have "\<exists>st'. audio_frame cf fr st = Inr st' \<and> same_files st1 st'"
  proof (cases "status st1 Vlive = LOCALSAVE_WORKING \<and> sock st1")
    case True
    then obtain n where n: "live_aframes st1 = Some n" using working_opened [OF ok, of Vlive] ok by (auto simp: save_ok_def)
    obtain b st2 where p: "send_packet (packet_header 0 (av_data fr) PACKET_TYPE_AUDIO (audio_ts cf (n * 1024))) (av_data fr) st1 = (b, st2)"
      by (cases "send_packet (packet_header 0 (av_data fr) PACKET_TYPE_AUDIO (audio_ts cf (n * 1024))) (av_data fr) st1")
    show ?thesis unfolding audio_frame_def run bind_res.simps if_P [OF True] n option.case p prod.case
      using send_packet_same [OF p] n by (auto simp: same_files_def)
  next
    case False
    show ?thesis unfolding audio_frame_def run bind_res.simps if_not_P [OF False] by (simp add: same_files_def)
  qed
  then show ?thesis using same_files_ok [OF _ ok] by (auto simp: same_files_def st1_def)
qed

text \<open>A frame, whatever it is, keeps the well-formedness; the name of the recording stays.\<close>

lemma save_frame_ok:
  assumes "save_ok cf w st"
  shows "\<exists>st'. save_frame cf fr st = Inr st' \<and> save_ok cf w st' \<and> filename st' = filename st \<and> jobs st' = jobs st"
proof (cases "av_source fr")
  case (Video c)
  consider "c = Vstore" | "c = Vlive" | "c \<in> set resource_channels" using channel_cases [of c] by blast
  then show ?thesis
  proof cases
    case 1
    then show ?thesis using store_frame_ok [OF assms, of fr] Video by (auto simp: save_frame_def)
  next
    case 2
    then show ?thesis using live_frame_ok [OF assms, of fr] Video by (auto simp: save_frame_def same_files_def)
  next
    case 3
    have "save_frame cf fr st = channel_frame cf c fr st"
      by (rule channel.exhaust [of c]) (use Video 3 in \<open>simp_all add: save_frame_def\<close>)
    then show ?thesis using channel_frame_ok [OF assms 3, of fr] by auto
  qed
next
  case Audio
  then show ?thesis using audio_frame_ok [OF assms, of fr] by (auto simp: save_frame_def)
qed

section \<open>The turn\<close>

lemma change_states_ok:
  assumes "save_pending cf w st" and "\<forall>p. can_open ev p"
  shows "\<exists>st'. change_states cf ev st = Inr st' \<and> save_ok cf w st'"
proof -
  consider (quiet) "save_ok cf w st"
    | (start) "w" "\<forall>c. status st c = (if opened cf c then LOCALSAVE_START else LOCALSAVE_IDLE)" "fds st = (\<lambda>_. None)"
        "live_vframes st \<noteq> None" "live_aframes st \<noteq> None"
    | (stop) "\<not> w" "\<forall>c. status st c = (if opened cf c then LOCALSAVE_STOP else LOCALSAVE_IDLE)"
        "fds st = open_files cf (filename st)"
    using assms(1) unfolding save_pending_def by blast
  then show ?thesis
  proof cases
    case quiet
    then have "status st c \<notin> {LOCALSAVE_START, LOCALSAVE_STOP}" for c
      by (cases w; cases "opened cf c") (auto simp: save_ok_def taking_part_def)
    then show ?thesis using change_states_quiet [of st cf ev] quiet by blast
  next
    case start
    then show ?thesis using change_states_start [OF start(2-5) assms(2)] by auto
  next
    case stop
    then show ?thesis using change_states_stop [OF stop(2,3), of ev] by auto
  qed
qed

text \<open>Preservation and progress: a turn with an expected message keeps the state well formed and hits no closed stream.\<close>

definition ctrl_mon :: "bool \<Rightarrow> (string \<times> attr_call list) option \<Rightarrow> bool option" where
  "ctrl_mon w m = (case m of None \<Rightarrow> Some w | Some m \<Rightarrow> if short_msg m then save_mon w m else None)"

lemma connect_simps [simp]:
  "status (connect_liveserver b st) = status st" "fds (connect_liveserver b st) = fds st"
  "disk (connect_liveserver b st) = disk st" "filename (connect_liveserver b st) = filename st"
  "jobs (connect_liveserver b st) = jobs st" "save_ok cf w (connect_liveserver b st) = save_ok cf w st"
  by (simp_all add: connect_liveserver_def save_ok_def)

lemma save_turn_ok:
  assumes "save_ok cf w st" and "ctrl_mon w m = Some v" and "\<forall>p. can_open (in_env i) p" and "\<not> in_canceled i"
    and "in_ctrl i = map_option (\<lambda>m. fa_data (msg_of m)) m"
  shows "\<exists>st'. save_turn cf i st = Inr (Some st') \<and> save_ok cf v st'"
proof -
  define st0 where "st0 = connect_liveserver (in_connected i) st"
  have ok: "save_ok cf w st0" using assms(1) by (simp add: st0_def)
  obtain s1 where s1: "(case in_ctrl i of None \<Rightarrow> Inr st0 | Some Msg \<Rightarrow> save_message cf Msg st0) = Inr s1" "save_pending cf v s1"
  proof (cases m)
    case None
    then show thesis using that [of st0] ok assms by (simp add: ctrl_mon_def save_pending_def)
  next
    case (Some x)
    then have x: "short_msg x" "save_mon w x = Some v" using assms(2) by (auto simp: ctrl_mon_def split: if_splits)
    then show thesis using that save_message_pending [OF ok x] Some assms(5) by auto
  qed
  obtain s2 where s2: "change_states cf (in_env i) s1 = Inr s2" "save_ok cf v s2"
    using change_states_ok [OF s1(2) assms(3)] by blast
  obtain s3 where "(case in_av i of None \<Rightarrow> Inr s2 | Some fr \<Rightarrow> save_frame cf fr s2) = Inr s3" "save_ok cf v s3"
  proof (cases "in_av i")
    case None
    then show thesis using that [of s2] s2(2) by simp
  next
    case (Some fr)
    then show thesis using that save_frame_ok [OF s2(2), of fr] by auto
  qed
  then show ?thesis using s1(1) s2(1) assms(4) by (intro exI [of _ s3]) (simp add: save_turn_def Let_def st0_def [symmetric])
qed

end
