(* ===== verification/Save_Properties.thy ===== *)
theory Save_Properties
  imports Save_Recording
begin

text \<open>
  The properties of the local storage: no session of the platform server makes it use a closed stream,
  what a file contains, what a stop leaves behind, and how the thread ends.
\<close>

section \<open>Runs\<close>

text \<open>The loop on a sequence of inputs; nothing changes after it has been left.\<close>

definition save_run :: "save_config \<Rightarrow> save_state \<Rightarrow> save_input list \<Rightarrow> save_state res" where
  "save_run cf = fold_res (\<lambda>st i. bind_res (save_turn cf i st) (\<lambda>r. Inr (case r of None \<Rightarrow> st | Some st' \<Rightarrow> st')))"

lemma save_init_ok: "save_ok cf False (save_init d online rs)"
  by (simp add: save_ok_def save_init_def)

text \<open>Nothing cancels the thread and every file can be opened.\<close>

definition calm :: "save_input \<Rightarrow> bool" where
  "calm i \<longleftrightarrow> \<not> in_canceled i \<and> (\<forall>p. can_open (in_env i) p)"

lemma save_run_monitored:
  assumes "save_ok cf w st" and "\<forall>i\<in>set ins. calm i" and "List.map_filter in_ctrl ins = map (\<lambda>m. fa_data (msg_of m)) ms"
    and "\<forall>m\<in>set ms. short_msg m" and "monitor save_mon w ms = Some v"
  shows "\<exists>st'. save_run cf st ins = Inr st' \<and> save_ok cf v st'"
  using assms
proof (induction ins arbitrary: st w ms)
  case Nil
  then show ?case by (simp add: save_run_def List.map_filter_simps)
next
  case (Cons i ins)
  have i: "\<forall>p. can_open (in_env i) p" "\<not> in_canceled i" using Cons.prems(2) by (simp_all add: calm_def)
  obtain u ns m where m: "ctrl_mon w m = Some u" "in_ctrl i = map_option (\<lambda>m. fa_data (msg_of m)) m"
    "List.map_filter in_ctrl ins = map (\<lambda>m. fa_data (msg_of m)) ns" "\<forall>n\<in>set ns. short_msg n" "monitor save_mon u ns = Some v"
  proof (cases "in_ctrl i")
    case None
    then show thesis
      using that [of None w ms] Cons.prems(3-5) by (simp add: ctrl_mon_def List.map_filter_simps)
  next
    case (Some d)
    then obtain x ns where x: "ms = x # ns" "d = fa_data (msg_of x)" "List.map_filter in_ctrl ins = map (\<lambda>m. fa_data (msg_of m)) ns"
      using Cons.prems(3) by (cases ms) (simp_all add: List.map_filter_simps)
    then obtain u where "save_mon w x = Some u" "monitor save_mon u ns = Some v"
      using Cons.prems(5) by (auto split: option.splits)
    then show thesis using that [of "Some x" u ns] Some x Cons.prems(4) by (simp add: ctrl_mon_def)
  qed
  obtain st1 where st1: "save_turn cf i st = Inr (Some st1)" "save_ok cf u st1"
    using save_turn_ok [OF Cons.prems(1) m(1) i m(2)] by blast
  show ?case
    using Cons.IH [OF st1(2) _ m(3-5)] Cons.prems(2) st1(1) by (simp add: save_run_def)
qed

section \<open>The files\<close>

lemma path_inj: "used cf f \<Longrightarrow> used cf f' \<Longrightarrow> path cf b f = path cf b f' \<longleftrightarrow> f = f'"
proof -
  assume u: "used cf f" "used cf f'"
  have names: "channel_name c @ ''/'' @ xs = channel_name d @ ''/'' @ ys \<Longrightarrow> c = d"
    if "c \<in> insert Vstore (set resource_channels)" "d \<in> insert Vstore (set resource_channels)" for c d xs ys
    using that unfolding resource_channels_def by (cases c; cases d; simp)
  have dirs: "channel_dir cf c @ xs = channel_dir cf d @ ys \<longleftrightarrow> c = d \<and> xs = ys"
    if "c \<in> insert Vstore (set resource_channels)" "d \<in> insert Vstore (set resource_channels)" for c d xs ys
    using names [OF that, of xs ys] by (auto simp: channel_dir_def)
  have "channel_dir cf c = channel_dir cf d \<longleftrightarrow> c = d"
    if "c \<in> insert Vstore (set resource_channels)" "d \<in> insert Vstore (set resource_channels)" for c d
    using dirs [OF that, of "[]" "[]"] by simp
  then show ?thesis using u by (cases f; cases f') (auto simp: dirs)
qed

text \<open>The stream of the video of a channel.\<close>

definition video_stream :: "channel \<Rightarrow> stream" where
  "video_stream c = (if c = Vstore then Vfd else Fd c)"

text \<open>The reference: what a resumed channel records of a sequence of frames.\<close>

definition recorded :: "channel \<Rightarrow> av_frame list \<Rightarrow> byte list" where
  "recorded c frs = concat (map av_data (dropWhile (\<lambda>fr. \<not> key_frame fr) (filter (\<lambda>fr. av_source fr = Video c) frs)))"

definition content :: "save_config \<Rightarrow> save_state \<Rightarrow> stream \<Rightarrow> byte list" where
  "content cf st f = (case disk st (path cf (filename st) f) of None \<Rightarrow> [] | Some d \<Rightarrow> d)"

text \<open>A frame of another source leaves a channel and its file alone.\<close>

lemma save_frame_other:
  assumes "save_ok cf w st" and "used cf (video_stream c)" and "c \<noteq> Vlive" and "av_source fr \<noteq> Video c"
    and "save_frame cf fr st = Inr st'"
  shows "status st' c = status st c" and "content cf st' (video_stream c) = content cf st (video_stream c)"
proof -
  have P: "path cf (filename st) (video_stream c) = path cf (filename st) f \<longleftrightarrow> video_stream c = f" if "used cf f" for f
    by (rule path_inj [OF assms(2) that])
  have "status st' c = status st c \<and> content cf st' (video_stream c) = content cf st (video_stream c)"
  proof (cases "av_source fr")
    case (Video d)
    have cd: "d \<noteq> c" using Video assms(4) by simp
    consider "d = Vstore" | "d = Vlive" | "d \<in> set resource_channels" using channel_cases [of d] by blast
    then show ?thesis
    proof cases
      case 1
      then have st': "store_frame fr st = Inr st'" using assms(5) Video by (simp add: save_frame_def)
      have "video_stream c = Fd c" using cd 1 by (simp add: video_stream_def)
      then show ?thesis
        using store_frame_ok [OF assms(1), of fr] st' P [of Vfd] P [of Pfd] cd 1
        by (auto simp: content_def appended_def awake_def)
    next
      case 2
      then show ?thesis
        using live_frame_ok [OF assms(1), of fr] assms(5) Video cd by (auto simp: save_frame_def same_files_def content_def awake_def)
    next
      case 3
      have st': "channel_frame cf d fr st = Inr st'"
        using assms(5) by - (rule channel.exhaust [of d], use Video 3 in \<open>simp_all add: save_frame_def\<close>)
      show ?thesis
      proof (cases "awake d fr st d = LOCALSAVE_WORKING")
        case True
        obtain s where s: "channel_frame cf d fr st = Inr s" "save_ok cf w s" "status s = awake d fr st" "filename s = filename st"
          "disk s = appended st (path cf (filename st) (Fd d)) (av_data fr)"
          using channel_frame_ok [OF assms(1) 3, of fr] True by auto
        have "status s d = LOCALSAVE_WORKING" using s(3) True by simp
        then have "used cf (Fd d)" using working_opened [OF s(2)] opened_resource [OF 3, of cf] 3 by simp
        moreover have "video_stream c \<noteq> Fd d" using cd by (simp add: video_stream_def)
        ultimately show ?thesis using P [of "Fd d"] s st' cd by (auto simp: content_def appended_def awake_def)
      next
        case False
        then show ?thesis using channel_frame_ok [OF assms(1) 3, of fr] st' cd by (auto simp: content_def awake_def)
      qed
    qed
  next
    case Audio
    then show ?thesis
      using audio_frame_ok [OF assms(1), of fr] assms(5) P [of Afd]
      by (auto simp: save_frame_def content_def appended_def video_stream_def split: if_splits)
  qed
  then show "status st' c = status st c" "content cf st' (video_stream c) = content cf st (video_stream c)" by simp_all
qed

lemma save_frame_own:
  assumes "save_ok cf w st" and "c = Vstore \<or> c \<in> set resource_channels" and "av_source fr = Video c"
    and "save_frame cf fr st = Inr st'"
  shows "status st' c = awake c fr st c"
    and "content cf st' (video_stream c) = content cf st (video_stream c) @ (if awake c fr st c = LOCALSAVE_WORKING then av_data fr else [])"
proof -
  have "status st' c = awake c fr st c \<and> content cf st' (video_stream c) = content cf st (video_stream c) @
      (if awake c fr st c = LOCALSAVE_WORKING then av_data fr else [])"
  proof (cases "c = Vstore")
    case True
    have "path cf (filename st) Vfd \<noteq> path cf (filename st) Pfd" by simp
    moreover have "store_frame fr st = Inr st'" using assms(3,4) True by (simp add: save_frame_def)
    ultimately show ?thesis
      using store_frame_ok [OF assms(1), of fr] True by (auto simp: content_def appended_def video_stream_def)
  next
    case False
    then have c: "c \<in> set resource_channels" using assms(2) by simp
    have "channel_frame cf c fr st = Inr st'"
      using assms(4) by - (rule channel.exhaust [of c], use assms(3) c in \<open>simp_all add: save_frame_def\<close>)
    then show ?thesis
      using channel_frame_ok [OF assms(1) c, of fr] False by (auto simp: content_def appended_def video_stream_def)
  qed
  then show "status st' c = awake c fr st c" "content cf st' (video_stream c) = content cf st (video_stream c) @
      (if awake c fr st c = LOCALSAVE_WORKING then av_data fr else [])" by simp_all
qed

text \<open>From the first key frame on a channel records everything, before it nothing.\<close>

definition wants :: "e_localsave_status \<Rightarrow> channel \<Rightarrow> av_frame list \<Rightarrow> byte list" where
  "wants v c frs =
     (if v = LOCALSAVE_WORKING then concat (map av_data (filter (\<lambda>fr. av_source fr = Video c) frs))
      else if v = LOCALSAVE_RESUME then recorded c frs else [])"

lemma save_frame_recorded:
  assumes "save_ok cf w st" and "c = Vstore \<or> c \<in> set resource_channels" and "used cf (video_stream c)"
  shows "\<exists>s. save_frame cf fr st = Inr s \<and> save_ok cf w s \<and> content cf s (video_stream c) @ wants (status s c) c frs
    = content cf st (video_stream c) @ wants (status st c) c (fr # frs)"
proof -
  obtain s where s: "save_frame cf fr st = Inr s" "save_ok cf w s"
    using save_frame_ok [OF assms(1), of fr] by blast
  have "content cf s (video_stream c) @ wants (status s c) c frs = content cf st (video_stream c) @ wants (status st c) c (fr # frs)"
  proof (cases "av_source fr = Video c")
    case True
    show ?thesis
      using save_frame_own [OF assms(1,2) True s(1)] True
      by (auto simp: wants_def recorded_def awake_def)
  next
    case False
    have "c \<noteq> Vlive" using assms(2) by auto
    then show ?thesis
      using save_frame_other [OF assms(1,3) _ False s(1)] False by (simp add: wants_def recorded_def)
  qed
  then show ?thesis using s by blast
qed

text \<open>Turns without a control message do nothing but connect and take frames.\<close>

lemma quiet_run:
  assumes "save_ok cf w st" and "\<forall>i\<in>set ins. calm i \<and> in_ctrl i = None"
    and "c = Vstore \<or> c \<in> set resource_channels" and "used cf (video_stream c)"
  shows "\<exists>st'. save_run cf st ins = Inr st' \<and> save_ok cf w st' \<and>
    content cf st' (video_stream c) = content cf st (video_stream c) @ wants (status st c) c (List.map_filter in_av ins)"
  using assms(1,2)
proof (induction ins arbitrary: st)
  case Nil
  then show ?case by (simp add: save_run_def List.map_filter_simps wants_def recorded_def)
next
  case (Cons i ins)
  have i: "\<not> in_canceled i" "in_ctrl i = None" using Cons.prems(2) by (simp_all add: calm_def)
  define st0 where "st0 = connect_liveserver (in_connected i) st"
  have ok: "save_ok cf w st0" "status st0 = status st" "content cf st0 f = content cf st f" for f
    using Cons.prems(1) by (simp_all add: st0_def content_def)
  have "status st0 c \<notin> {LOCALSAVE_START, LOCALSAVE_STOP}" for c
    using ok(1) by (cases w; cases "opened cf c") (auto simp: save_ok_def taking_part_def)
  then have q: "change_states cf (in_env i) st0 = Inr st0" by (simp add: change_states_quiet)
  have rest: "\<forall>i\<in>set ins. calm i \<and> in_ctrl i = None" using Cons.prems(2) by simp
  show ?case
  proof (cases "in_av i")
    case None
    then have "save_turn cf i st = Inr (Some st0)" using i q by (simp add: save_turn_def st0_def)
    then show ?thesis using Cons.IH [OF ok(1) rest] None ok(2,3) by (simp add: save_run_def List.map_filter_simps)
  next
    case (Some fr)
    obtain s where s: "save_frame cf fr st0 = Inr s" "save_ok cf w s" "content cf s (video_stream c) @ wants (status s c) c
        (List.map_filter in_av ins) = content cf st0 (video_stream c) @ wants (status st0 c) c (fr # List.map_filter in_av ins)"
      using save_frame_recorded [OF ok(1) assms(3,4)] by blast
    then have "save_turn cf i st = Inr (Some s)" using i q Some by (simp add: save_turn_def st0_def)
    then show ?thesis using Cons.IH [OF s(2) rest] Some s(3) ok(2,3) by (simp add: save_run_def List.map_filter_simps)
  qed
qed

section \<open>An example\<close>

definition demo_save :: "bool \<Rightarrow> save_config" where
  "demo_save resource = \<lparr>IsResouceMode = resource, CfgDir = '''', save_vmap = vmap_table_init,
     forward = \<lparr>teacherspecial = True, studentspecial = False, teacherfull = False, studentfull = False, blackboard = False\<rparr>,
     fps_text = ''30.000'', video_ts = (\<lambda>n. n div 30), audio_ts = (\<lambda>n. n div 44)\<rparr>"

definition demo_env :: save_env where
  "demo_env = \<lparr>env_tm = \<lparr>tm_year = 114, tm_mon = 11, tm_mday = 2, tm_hour = 1, tm_min = 30, tm_sec = 5\<rparr>,
     can_open = (\<lambda>_. True), can_malloc = True\<rparr>"

definition demo_input :: "bool \<Rightarrow> byte list option \<Rightarrow> av_frame option \<Rightarrow> save_input" where
  "demo_input cancel m fr = \<lparr>in_canceled = cancel, in_connected = False, in_ctrl = m, in_env = demo_env, in_av = fr\<rparr>"

lemma demo_calm [simp]: "calm (demo_input False m fr)"
  by (simp add: calm_def demo_input_def demo_env_def)

text \<open>A state in which a recording has just been started.\<close>

lemma just_started:
  obtains st where "save_ok cf True st" "\<forall>c. opened cf c \<longrightarrow> status st c = LOCALSAVE_RESUME" "jobs st = []"
proof -
  define s0 where "s0 = (set_status cf LOCALSAVE_START (save_init (\<lambda>_. None) False []))\<lparr>live_vframes := Some 0, live_aframes := Some 0\<rparr>"
  have "\<forall>c. status s0 c = (if opened cf c then LOCALSAVE_START else LOCALSAVE_IDLE)" "fds s0 = (\<lambda>_. None)"
    "live_vframes s0 \<noteq> None" "live_aframes s0 \<noteq> None" "\<forall>p. can_open demo_env p" "jobs s0 = []"
    by (auto simp: s0_def set_status_def save_init_def opened_def demo_env_def)
  then show thesis using change_states_start [of s0 cf demo_env] that by auto
qed

section \<open>Properties\<close>

text \<open>
  C5. Whatever the platform server sends: when the local storage takes the messages of the instructor
  connection in order, mixed with any frames, no turn uses a closed stream or a counter that has not
  been set, every channel that takes part in the recording has exactly its streams open, and when all messages have
  been taken a recording is open exactly when the instructor connection thinks so. (Every file can be
  opened, and nothing cancels the thread.)
\<close>

theorem session_records:
  assumes "fold_res (InstructorMsgHandle env g) \<lparr>recbc_status = RECBC_IDLE, sent = []\<rparr> Msgs = Inr s"
    and "length g = CMD_BUFSIZE" and "\<forall>i\<in>set ins. calm i"
    and "List.map_filter in_ctrl ins = map fa_data (take k (sent s))"
  shows "\<exists>st w. save_run cf (save_init d online rs) ins = Inr st \<and> save_ok cf w st \<and>
    (length (sent s) \<le> k \<longrightarrow> w = (recbc_status s = RECBC_WORKING))"
proof -
  obtain ms where ms: "sent s = map msg_of ms" "\<forall>m\<in>set ms. short_msg m"
    "monitor save_mon False ms = Some (recbc_status s = RECBC_WORKING)"
    using sm.mon_session [OF assms(1,2)] by blast
  have tk: "List.map_filter in_ctrl ins = map (\<lambda>m. fa_data (msg_of m)) (take k ms)" using assms(4) ms(1) by (simp add: take_map)
  have "monitor save_mon False (take k ms @ drop k ms) = Some (recbc_status s = RECBC_WORKING)" using ms(3) by simp
  then obtain w where w: "monitor save_mon False (take k ms) = Some w"
    unfolding monitor_append by (auto split: option.splits)
  have "\<forall>m\<in>set (take k ms). short_msg m" using ms(2) by (auto dest: in_set_takeD)
  then obtain st where st: "save_run cf (save_init d online rs) ins = Inr st" "save_ok cf w st"
    using save_run_monitored [OF save_init_ok assms(3) tk _ w] by blast
  moreover have "length (sent s) \<le> k \<longrightarrow> w = (recbc_status s = RECBC_WORKING)" using w ms(1,3) by auto
  ultimately show ?thesis by blast
qed

theorem session_records_witness:
  "\<forall>env. \<exists>st. save_run (demo_save True) (save_init (\<lambda>_. None) False [])
     (map (\<lambda>m. demo_input False (Some (fa_data (msg_of m))) None) (start_msgs env)) = Inr st \<and> save_ok (demo_save True) True st"
proof
  fix env
  let ?s = "\<lparr>recbc_status = RECBC_WORKING, sent = map msg_of (start_msgs env)\<rparr>"
  have run: "fold_res (InstructorMsgHandle env (replicate CMD_BUFSIZE NUL)) \<lparr>recbc_status = RECBC_IDLE, sent = []\<rparr>
      [make_msg COMMAND_SERVER [(''Start'', ''1'')]] = Inr ?s"
    by (simp add: start_handled)
  have mf: "List.map_filter in_ctrl (map (\<lambda>m. demo_input False (Some (fa_data (msg_of m))) None) ms) = map fa_data (map msg_of ms)" for ms
    by (induction ms) (simp_all add: List.map_filter_simps demo_input_def)
  have ctrl: "List.map_filter in_ctrl (map (\<lambda>m. demo_input False (Some (fa_data (msg_of m))) None) (start_msgs env)) =
      map fa_data (take (length (start_msgs env)) (sent ?s))"
    unfolding mf by simp
  have calm: "\<forall>i\<in>set (map (\<lambda>m. demo_input False (Some (fa_data (msg_of m))) None) (start_msgs env)). calm i" by simp
  have g: "length (replicate CMD_BUFSIZE NUL) = CMD_BUFSIZE" by simp
  show "\<exists>st. save_run (demo_save True) (save_init (\<lambda>_. None) False [])
     (map (\<lambda>m. demo_input False (Some (fa_data (msg_of m))) None) (start_msgs env)) = Inr st \<and> save_ok (demo_save True) True st"
    using session_records [OF run g calm ctrl, of "demo_save True" "\<lambda>_. None" False "[]"] by auto
qed

text \<open>
  C6. While no control message arrives, a channel that has been started or resumed appends to its file exactly the
  frames of its video from the first key frame on, in order and unchanged, whatever the other channels,
  the audio and the streaming server do in between.
\<close>

theorem recording_content:
  assumes "save_ok cf w st" and "c = Vstore \<or> c \<in> set resource_channels" and "used cf (video_stream c)"
    and "status st c = LOCALSAVE_RESUME" and "\<forall>i\<in>set ins. calm i \<and> in_ctrl i = None"
  shows "\<exists>st'. save_run cf st ins = Inr st' \<and> save_ok cf w st' \<and>
    content cf st' (video_stream c) = content cf st (video_stream c) @ recorded c (List.map_filter in_av ins)"
  using quiet_run [OF assms(1,5,2,3)] assms(4) by (auto simp: wants_def)

theorem recording_content_witness:
  "\<exists>st st'. save_run (demo_save True) st (map (\<lambda>fr. demo_input False None (Some fr))
       [\<lparr>av_source = Video V1, av_data = ''p'', av_flags = 0\<rparr>, \<lparr>av_source = Video V1, av_data = ''K'', av_flags = FRAME_FLAG_KEYFRAME\<rparr>,
        \<lparr>av_source = Video V2, av_data = ''x'', av_flags = 0\<rparr>, \<lparr>av_source = Video V1, av_data = ''q'', av_flags = 0\<rparr>]) = Inr st' \<and>
     content (demo_save True) st' (Fd V1) = content (demo_save True) st (Fd V1) @ ''Kq''"
proof -
  let ?frs = "[\<lparr>av_source = Video V1, av_data = ''p'', av_flags = 0\<rparr>, \<lparr>av_source = Video V1, av_data = ''K'', av_flags = FRAME_FLAG_KEYFRAME\<rparr>,
    \<lparr>av_source = Video V2, av_data = ''x'', av_flags = 0\<rparr>, \<lparr>av_source = Video V1, av_data = ''q'', av_flags = 0\<rparr>]"
  obtain st where st: "save_ok (demo_save True) True st" "\<forall>c. opened (demo_save True) c \<longrightarrow> status st c = LOCALSAVE_RESUME"
    by (rule just_started)
  have c: "V1 = Vstore \<or> V1 \<in> set resource_channels" "used (demo_save True) (video_stream V1)" "status st V1 = LOCALSAVE_RESUME"
    using st(2) by (simp_all add: resource_channels_def video_stream_def demo_save_def opened_def)
  have i: "\<forall>i\<in>set (map (\<lambda>fr. demo_input False None (Some fr)) ?frs). calm i \<and> in_ctrl i = None" by (simp add: demo_input_def calm_def demo_env_def)
  have mf: "List.map_filter in_av (map (\<lambda>fr. demo_input False None (Some fr)) xs) = xs" for xs
    by (induction xs) (simp_all add: List.map_filter_simps demo_input_def)
  have "recorded V1 ?frs = ''Kq''" by (simp add: recorded_def key_frame_def)
  then show ?thesis
    using recording_content [OF st(1) c i] unfolding mf by (auto simp: video_stream_def)
qed

text \<open>
  C18. When the server stops the recording, the turn that takes the message closes every stream, leaves the
  recorded files as they are (the log gets a last line) and starts one conversion for every file of
  the recording, under the name with which it was opened; the recording with audio is that of the main video.
\<close>

theorem stop_converts:
  assumes "save_ok cf True st" and "calm i" and "in_av i = None"
    and "in_ctrl i = Some (fa_data (msg_of (COMMAND_GETDATA, [Attr_Char ''Type'' ''None''])))"
  shows "\<exists>st'. save_turn cf i st = Inr (Some st') \<and> save_ok cf False st' \<and>
    jobs st' = jobs st @ stop_jobs cf (in_env i) st \<and>
    (\<forall>p. p \<noteq> path cf (filename st) Pfd \<longrightarrow> disk st' p = disk st p)"
proof -
  let ?conn = "connect_liveserver (in_connected i) st"
  let ?st = "set_status cf LOCALSAVE_STOP ?conn"
  have sm: "short_msg (COMMAND_GETDATA, [Attr_Char ''Type'' ''None''])" by (intro short_msgs) auto
  have m: "save_message cf (fa_data (msg_of (COMMAND_GETDATA, [Attr_Char ''Type'' ''None'']))) ?conn = Inr ?st"
    using save_message_short [OF sm, of cf ?conn] by (simp add: getdata_attr_def c_str_def)
  have "\<forall>c. status ?st c = (if opened cf c then LOCALSAVE_STOP else LOCALSAVE_IDLE)" "fds ?st = open_files cf (filename ?st)"
    using assms(1) by (auto simp: set_status_def save_ok_def taking_part_def opened_def)
  from change_states_stop [OF this, of "in_env i"] obtain st' where
    "change_states cf (in_env i) ?st = Inr st'" "save_ok cf False st'" "jobs st' = jobs ?st @ stop_jobs cf (in_env i) ?st"
    "\<forall>p. p \<noteq> path cf (filename ?st) Pfd \<longrightarrow> disk st' p = disk ?st p" by blast
  moreover have "stop_jobs cf (in_env i) ?st = stop_jobs cf (in_env i) st" "jobs ?st = jobs st" "filename ?st = filename st" "disk ?st = disk st"
    by (auto simp: stop_jobs_def job_of_def set_status_def)
  ultimately show ?thesis
    using assms(2-4) m by (auto simp: save_turn_def calm_def)
qed

theorem stop_converts_witness:
  "\<exists>st st'. save_turn (demo_save False) (demo_input False (Some (fa_data (msg_of (COMMAND_GETDATA, [Attr_Char ''Type'' ''None'']))))
       None) st = Inr (Some st') \<and> length (jobs st') = 1"
proof -
  obtain st where st: "save_ok (demo_save False) True st" "jobs st = []" by (rule just_started)
  let ?i = "demo_input False (Some (fa_data (msg_of (COMMAND_GETDATA, [Attr_Char ''Type'' ''None''])))) None"
  have i: "calm ?i" "in_av ?i = None" "in_ctrl ?i = Some (fa_data (msg_of (COMMAND_GETDATA, [Attr_Char ''Type'' ''None''])))"
    by (simp_all add: demo_input_def calm_def demo_env_def)
  have "length (stop_jobs (demo_save False) (in_env ?i) st) = 1"
    by (simp add: stop_jobs_def demo_input_def demo_env_def demo_save_def opened_def resource_channels_def)
  moreover obtain st' where "save_turn (demo_save False) ?i st = Inr (Some st')"
    "jobs st' = jobs st @ stop_jobs (demo_save False) (in_env ?i) st"
    using stop_converts [OF st(1) i] by blast
  ultimately show ?thesis using st(2) by (intro exI [of _ st] exI [of _ st']) simp
qed

text \<open>
  C19. A thread that is asked to exit leaves its loop at once when nothing is recorded, and otherwise after one
  more turn, in which it closes every stream and starts the conversions. That holds in resource mode; in
  the other mode all nine channels are stopped although seven have no stream, so that a recording in progress
  ends with \<^verbatim>\<open>fclose(NULL)\<close>.
\<close>

theorem cancel_exits:
  assumes "save_ok cf w st" and "in_canceled i" and "in_ctrl i = None" and "in_canceled i'"
  shows "if \<not> w then save_turn cf i st = Inr None
    else if IsResouceMode cf then \<exists>st'. save_turn cf i st = Inr (Some st') \<and> (\<forall>f. fds st' f = None) \<and>
      jobs st' = jobs st @ stop_jobs cf (in_env i) st \<and> save_turn cf i' st' = Inr None
    else save_turn cf i st = Inl Null_Deref"
proof (cases w)
  case False
  then show ?thesis using assms by (auto simp: save_turn_def all_idle_def save_ok_def)
next
  case True
  let ?st = "(connect_liveserver (in_connected i) st)\<lparr>status := (\<lambda>_. LOCALSAVE_STOP)\<rparr>"
  have t: "taking_part cf (status st)" using assms(1) True by (simp add: save_ok_def)
  have "status st Vstore \<in> {LOCALSAVE_RESUME, LOCALSAVE_WORKING, LOCALSAVE_PAUSE}"
    using t [unfolded taking_part_def, THEN spec [of _ Vstore]] by simp
  then have "status st Vstore \<noteq> LOCALSAVE_IDLE" by auto
  then have busy: "\<not> all_idle st" by (auto simp: all_idle_def channels_def)
  have fd: "fds ?st = open_files cf (filename ?st)" using assms(1) True by (simp add: save_ok_def)
  show ?thesis
  proof (cases "IsResouceMode cf")
    case res: True
    have "\<forall>c. status ?st c = (if opened cf c then LOCALSAVE_STOP else LOCALSAVE_IDLE)" using res by (simp add: opened_def)
    from change_states_stop [OF this fd, of "in_env i"] obtain s1 where s1:
      "change_states cf (in_env i) ?st = Inr s1" "save_ok cf False s1" "jobs s1 = jobs ?st @ stop_jobs cf (in_env i) ?st" by blast
    obtain s2 where s2: "(case in_av i of None \<Rightarrow> Inr s1 | Some fr \<Rightarrow> save_frame cf fr s1) = Inr s2" "save_ok cf False s2" "jobs s2 = jobs s1"
      using save_frame_ok [OF s1(2)] s1(2) by (cases "in_av i") (simp, force)
    have "save_turn cf i st = Inr (Some s2)" using busy assms(2,3) s1(1) s2(1) by (simp add: save_turn_def)
    moreover have "save_turn cf i' s2 = Inr None" "\<forall>f. fds s2 f = None"
      using s2(2) assms(4) by (auto simp: save_turn_def all_idle_def save_ok_def)
    moreover have "jobs s2 = jobs st @ stop_jobs cf (in_env i) st" using s1(3) s2(3) by (simp add: stop_jobs_def job_of_def)
    ultimately show ?thesis using True res by auto
  next
    case False
    have ns: "foldl (start_channel cf (in_env i)) (start_live (start_store cf (in_env i) ?st)) resource_channels = ?st"
      by (rule no_start) simp
    obtain s1 where s1: "stop_store cf (in_env i) ?st = Inr s1" "fds s1 (Fd VGA) = None" "status s1 VGA = LOCALSAVE_STOP"
      using fd False by (auto simp: stop_store_def f_close_def log_frame_def f_write_def start_job_def Let_def open_files_def)
    have "fds (stop_live s1) (Fd VGA) = None" "status (stop_live s1) VGA = LOCALSAVE_STOP" using s1(2,3) by (simp_all add: stop_live_def)
    then have "change_states cf (in_env i) ?st = Inl Null_Deref"
      unfolding change_states_def Let_def ns s1(1) bind_res.simps by (simp add: resource_channels_def stop_channel_def f_close_def)
    then show ?thesis using True False busy assms(2,3) by (simp add: save_turn_def)
  qed
qed

theorem cancel_exits_witness:
  "(\<exists>st st'. save_turn (demo_save True) (demo_input True None None) st = Inr (Some st') \<and> length (jobs st') = 8 \<and>
      save_turn (demo_save True) (demo_input True None None) st' = Inr None) \<and>
   (\<exists>st. save_ok (demo_save False) True st \<and> save_turn (demo_save False) (demo_input True None None) st = Inl Null_Deref)"
proof
  have i: "in_canceled (demo_input True None None)" "in_ctrl (demo_input True None None) = None" by (simp_all add: demo_input_def)
  obtain st where st: "save_ok (demo_save True) True st" "jobs st = []" by (rule just_started)
  have "length (stop_jobs (demo_save True) (in_env (demo_input True None None)) st) = 8"
    by (simp add: stop_jobs_def demo_input_def demo_env_def demo_save_def opened_def resource_channels_def)
  moreover have "IsResouceMode (demo_save True)" by (simp add: demo_save_def)
  then obtain st' where "save_turn (demo_save True) (demo_input True None None) st = Inr (Some st')"
    "jobs st' = jobs st @ stop_jobs (demo_save True) (in_env (demo_input True None None)) st"
    "save_turn (demo_save True) (demo_input True None None) st' = Inr None"
    using cancel_exits [OF st(1) i i(1)] by auto
  ultimately show "\<exists>st st'. save_turn (demo_save True) (demo_input True None None) st = Inr (Some st') \<and> length (jobs st') = 8 \<and>
      save_turn (demo_save True) (demo_input True None None) st' = Inr None"
    using st(2) by (intro exI [of _ st] exI [of _ st']) simp
  obtain st2 where "save_ok (demo_save False) True st2" by (rule just_started)
  moreover have "\<not> IsResouceMode (demo_save False)" by (simp add: demo_save_def)
  ultimately show "\<exists>st. save_ok (demo_save False) True st \<and> save_turn (demo_save False) (demo_input True None None) st = Inl Null_Deref"
    using cancel_exits [OF _ i i(1), of "demo_save False" True st2] by auto
qed

text \<open>
  A file that cannot be opened is reported and no more: the first key frame writes to its closed stream.
\<close>

lemma unopened_file_crashes:
  assumes "status st c = LOCALSAVE_START" and "c \<in> set resource_channels" and "\<not> can_open ev (channel_dir cf c @ filename st @ ''.264'')"
    and "av_source fr = Video c" and "key_frame fr"
  shows "save_frame cf fr (start_channel cf ev st c) = Inl Null_Deref"
proof -
  have "save_frame cf fr s = channel_frame cf c fr s" for s
    by (rule channel.exhaust [of c]) (use assms(2,4) in \<open>simp_all add: save_frame_def\<close>)
  then show ?thesis using assms by (simp add: start_channel_def f_open_def channel_frame_def Let_def wake_def f_write_def)
qed

text \<open>A recording that starts at 22:30 local time is named after hour 22, one that starts two hours later after hour 24.\<close>

lemma late_filename:
  "base_filename \<lparr>tm_year = 114, tm_mon = 11, tm_mday = 2, tm_hour = 16, tm_min = 30, tm_sec = 5\<rparr> = ''20141202243005''"
  by (simp add: base_filename_def sprintf_d_def Let_def dec_string.simps hex_char_def)

end
