(* ===== verification/Xml_Reader.thy ===== *)
theory Xml_Reader
  imports Rec_Prelude
begin

text \<open>
  Reading the configuration files (\<^verbatim>\<open>recbcsrv/xmlparser.c\<close>). All loaders walk over the modules, groups and
  entries of a document in the same way and differ in the names they look for and in what they do with an
  entry, so the walk is modelled once. The library mxml, of which only the header and a binary are in the
  repository, is a parameter: the accessors of a node. A document is the tree that these accessors describe,
  and the walk is proved to be a fold over its entries.
\<close>

section \<open>The library\<close>

text \<open>
  \<open>mxmlFindElement\<close> stands for the call with the arguments of the loaders (the first \<open>module\<close> after the
  node in the document), \<open>is_element\<close> for \<^verbatim>\<open>mxmlGetType(node) == MXML_ELEMENT\<close>. A missing name, attribute or text is a
  null pointer.
\<close>

record 'n mxml =
  mxmlFindElement :: "'n \<Rightarrow> 'n option"
  mxmlGetFirstChild :: "'n \<Rightarrow> 'n option"
  mxmlGetNextSibling :: "'n \<Rightarrow> 'n option"
  is_element :: "'n \<Rightarrow> bool"
  mxmlGetElement :: "'n \<Rightarrow> string option"
  mxmlElementGetAttr :: "'n \<Rightarrow> string \<Rightarrow> string option"
  mxmlGetText :: "'n \<Rightarrow> string option"

text \<open>\<open>None\<close>: the file cannot be opened, \<open>Some None\<close>: it cannot be parsed.\<close>

type_synonym 'n files = "string \<Rightarrow> 'n option option"

section \<open>Strings\<close>

definition deref :: "string option \<Rightarrow> string res" where
  "deref p = (case p of None \<Rightarrow> Inl Null_Deref | Some s \<Rightarrow> Inr s)"

text \<open>\<open>!strcmp(p, s)\<close>\<close>

definition str_eq :: "string option \<Rightarrow> string \<Rightarrow> bool res" where
  "str_eq p s = bind_res (deref p) (\<lambda>t. Inr (t = s))"

lemma deref_Some [simp]: "deref (Some t) = Inr t"
  by (simp add: deref_def)

lemma str_eq_Some [simp]: "str_eq (Some t) s = Inr (t = s)"
  by (simp add: str_eq_def)

text \<open>\<open>atoi\<close>: the value of the digits after blanks and a sign; values out of range are limited, as \<open>strtol\<close> does.\<close>

definition is_blank :: "char \<Rightarrow> bool" where
  "is_blank c \<longleftrightarrow> c = CHR '' '' \<or> (9 \<le> (of_char c :: nat) \<and> (of_char c :: nat) \<le> 13)"

definition digit :: "char \<Rightarrow> int option" where
  "digit c = (let n = of_char c :: int in if 48 \<le> n \<and> n \<le> 57 then Some (n - 48) else None)"

fun digits :: "int \<Rightarrow> string \<Rightarrow> int" where
  "digits n [] = n"
| "digits n (c # s) = (case digit c of None \<Rightarrow> n | Some d \<Rightarrow> digits (10 * n + d) s)"

definition atoi :: "string \<Rightarrow> u32" where
  "atoi s =
     (let t = dropWhile is_blank s;
          v = (case t of
                 [] \<Rightarrow> 0
               | c # r \<Rightarrow> if c = CHR ''-'' then - digits 0 r else if c = CHR ''+'' then digits 0 r else digits 0 t)
      in word_of_int (max (-2147483648) (min 2147483647 v)))"

text \<open>\<open>strcpy\<close> into an array of \<open>n\<close> bytes.\<close>

definition strcpy_into :: "nat \<Rightarrow> string \<Rightarrow> string res" where
  "strcpy_into n s = (if length s < n then Inr s else Inl Buffer_Overflow)"

section \<open>The walk\<close>

text \<open>
  \<open>while(n)\<close> over the siblings from \<open>n\<close> on. The library could return a cyclic list, then the loop does not
  end, and the result is \<open>Diverged\<close>.
\<close>

partial_function (option) siblings :: "'n mxml \<Rightarrow> ('n \<Rightarrow> 's \<Rightarrow> 's res) \<Rightarrow> 'n option \<Rightarrow> 's \<Rightarrow> 's res option" where
  "siblings mx f n s =
     (case n of
        None \<Rightarrow> Some (Inr s)
      | Some k \<Rightarrow> (case f k s of Inl e \<Rightarrow> Some (Inl e) | Inr s' \<Rightarrow> siblings mx f (mxmlGetNextSibling mx k) s'))"

definition each_sibling :: "'n mxml \<Rightarrow> ('n \<Rightarrow> 's \<Rightarrow> 's res) \<Rightarrow> 'n option \<Rightarrow> 's \<Rightarrow> 's res" where
  "each_sibling mx f n s = (case siblings mx f n s of None \<Rightarrow> Inl Diverged | Some r \<Rightarrow> r)"

text \<open>The body of the loops: what is done for the elements of a name.\<close>

definition for_element :: "'n mxml \<Rightarrow> string \<Rightarrow> 'n \<Rightarrow> ('s \<Rightarrow> 's res) \<Rightarrow> 's \<Rightarrow> 's res" where
  "for_element mx name n body s =
     (if is_element mx n then bind_res (str_eq (mxmlGetElement mx n) name) (\<lambda>b. if b then body s else Inr s)
      else Inr s)"

text \<open>
  The state of a loader is what it fills and the variable \<open>nodeAttr\<close>, which the inner loops overwrite: after
  a group has been read, the tests for the following names see the attribute that was read last.
\<close>

type_synonym 's walk = "'s \<times> string option"

definition when_attr :: "string \<Rightarrow> ('s walk \<Rightarrow> 's walk res) \<Rightarrow> 's walk \<Rightarrow> 's walk res" where
  "when_attr name body = (\<lambda>(s, nodeAttr). bind_res (str_eq nodeAttr name) (\<lambda>b. if b then body (s, nodeAttr) else Inr (s, nodeAttr)))"

text \<open>What to do with the text of an entry, for every key; the entries of every group; the groups of every module.\<close>

type_synonym 's action = "string option \<Rightarrow> 's \<Rightarrow> 's res"
type_synonym 's entry_table = "(string \<times> 's action) list"
type_synonym 's group_table = "(string \<times> 's entry_table) list"
type_synonym 's module_table = "(string \<times> 's group_table) list"

definition entry_node :: "'n mxml \<Rightarrow> 's entry_table \<Rightarrow> 'n \<Rightarrow> 's walk \<Rightarrow> 's walk res" where
  "entry_node mx entries n = for_element mx ''configValue'' n (\<lambda>(s, nodeAttr).
     fold_res (\<lambda>st (key, act). when_attr key (\<lambda>(s, a). bind_res (act (mxmlGetText mx n) s) (\<lambda>s'. Inr (s', a))) st)
       (s, mxmlElementGetAttr mx n ''key'') entries)"

definition group_node :: "'n mxml \<Rightarrow> 's group_table \<Rightarrow> 'n \<Rightarrow> 's walk \<Rightarrow> 's walk res" where
  "group_node mx groups n = for_element mx ''group'' n (\<lambda>(s, nodeAttr).
     fold_res (\<lambda>st (name, entries). when_attr name (each_sibling mx (entry_node mx entries) (mxmlGetFirstChild mx n)) st)
       (s, mxmlElementGetAttr mx n ''name'') groups)"

definition module_node :: "'n mxml \<Rightarrow> 's module_table \<Rightarrow> 'n \<Rightarrow> 's walk \<Rightarrow> 's walk res" where
  "module_node mx modules n = for_element mx ''module'' n (\<lambda>(s, nodeAttr).
     fold_res (\<lambda>st (name, groups). when_attr name (each_sibling mx (group_node mx groups) (mxmlGetFirstChild mx n)) st)
       (s, mxmlElementGetAttr mx n ''name'') modules)"

text \<open>
  A loader; \<open>opened\<close> and \<open>parsed\<close> are what it resets after it has opened and after it has parsed the file. The
  result is 0, or -1 when there is no document.
\<close>

definition load_file :: "'n mxml \<Rightarrow> 'n files \<Rightarrow> string \<Rightarrow> ('s \<Rightarrow> 's) \<Rightarrow> ('s \<Rightarrow> 's) \<Rightarrow> 's module_table \<Rightarrow> 's \<Rightarrow> (int \<times> 's) res" where
  "load_file mx files fname opened parsed modules s =
     (case files fname of
        None \<Rightarrow> Inr (-1, s)
      | Some None \<Rightarrow> Inr (-1, opened s)
      | Some (Some tree) \<Rightarrow>
          bind_res (each_sibling mx (module_node mx modules) (mxmlFindElement mx tree) (parsed (opened s), None))
            (\<lambda>(s', nodeAttr). Inr (0, s')))"

section \<open>Documents\<close>

datatype xml = Element string "(string \<times> string) list" "xml list" | Text string

text \<open>The text of an element is its first child, when that is a text.\<close>

definition text_of :: "xml list \<Rightarrow> string option" where
  "text_of cs = (case cs of Text t # r \<Rightarrow> Some t | _ \<Rightarrow> None)"

text \<open>The nodes of the library describe the tree: the documented behaviour of the accessors.\<close>

fun represents :: "'n mxml \<Rightarrow> 'n \<Rightarrow> xml \<Rightarrow> bool" and represents_list :: "'n mxml \<Rightarrow> 'n option \<Rightarrow> xml list \<Rightarrow> bool" where
  "represents mx n (Text t) \<longleftrightarrow> \<not> is_element mx n"
| "represents mx n (Element name as cs) \<longleftrightarrow>
     is_element mx n \<and> mxmlGetElement mx n = Some name \<and> mxmlElementGetAttr mx n = map_of as \<and>
     mxmlGetText mx n = text_of cs \<and> represents_list mx (mxmlGetFirstChild mx n) cs"
| "represents_list mx None xs \<longleftrightarrow> xs = []"
| "represents_list mx (Some n) [] \<longleftrightarrow> False"
| "represents_list mx (Some n) (x # xs) \<longleftrightarrow> represents mx n x \<and> represents_list mx (mxmlGetNextSibling mx n) xs"

lemma represents_listD:
  "represents_list mx (Some n) xs \<Longrightarrow> \<exists>x ys. xs = x # ys \<and> represents mx n x \<and> represents_list mx (mxmlGetNextSibling mx n) ys"
  by (cases xs) auto

text \<open>The loop over the siblings is a fold over the subtrees.\<close>

lemma each_sibling_fold:
  assumes "represents_list mx n xs"
    and "\<And>k x s. x \<in> set xs \<Longrightarrow> represents mx k x \<Longrightarrow> f k s = g s x"
  shows "each_sibling mx f n s = fold_res g s xs"
  using assms
proof (induction xs arbitrary: n s)
  case Nil
  then show ?case by (cases n) (simp_all add: each_sibling_def siblings.simps)
next
  case (Cons x xs)
  then obtain k where k: "n = Some k" "represents mx k x" "represents_list mx (mxmlGetNextSibling mx k) xs"
    by (cases n) auto
  have "f k s = g s x" using Cons.prems(2) k(2) by simp
  moreover have "each_sibling mx f (mxmlGetNextSibling mx k) s' = fold_res g s' xs" for s'
    using Cons.IH [OF k(3)] Cons.prems(2) by simp
  ultimately show ?case
    unfolding k(1) by (cases "g s x") (simp_all add: each_sibling_def siblings.simps [of mx f "Some k"])
qed

section \<open>The walk over a document\<close>

definition on_element :: "string \<Rightarrow> xml \<Rightarrow> ((string \<Rightarrow> string option) \<Rightarrow> xml list \<Rightarrow> 's \<Rightarrow> 's res) \<Rightarrow> 's \<Rightarrow> 's res" where
  "on_element name x body s =
     (case x of Text t \<Rightarrow> Inr s | Element e as cs \<Rightarrow> if e = name then body (map_of as) cs s else Inr s)"

lemma for_element_represents:
  assumes "represents mx n x"
    and "\<And>e as cs s. x = Element e as cs \<Longrightarrow> e = name \<Longrightarrow> body s = body' (map_of as) cs s"
  shows "for_element mx name n body s = on_element name x body' s"
  using assms by (cases x) (auto simp: for_element_def on_element_def)

definition walk_entry :: "'s entry_table \<Rightarrow> 's walk \<Rightarrow> xml \<Rightarrow> 's walk res" where
  "walk_entry entries st x = on_element ''configValue'' x (\<lambda>as cs (s, nodeAttr).
     fold_res (\<lambda>st (key, act). when_attr key (\<lambda>(s, a). bind_res (act (text_of cs) s) (\<lambda>s'. Inr (s', a))) st)
       (s, as ''key'') entries) st"

definition walk_group :: "'s group_table \<Rightarrow> 's walk \<Rightarrow> xml \<Rightarrow> 's walk res" where
  "walk_group groups st x = on_element ''group'' x (\<lambda>as cs (s, nodeAttr).
     fold_res (\<lambda>st (name, entries). when_attr name (\<lambda>st. fold_res (walk_entry entries) st cs) st) (s, as ''name'') groups) st"

definition walk_module :: "'s module_table \<Rightarrow> 's walk \<Rightarrow> xml \<Rightarrow> 's walk res" where
  "walk_module modules st x = on_element ''module'' x (\<lambda>as cs (s, nodeAttr).
     fold_res (\<lambda>st (name, groups). when_attr name (\<lambda>st. fold_res (walk_group groups) st cs) st) (s, as ''name'') modules) st"

lemma entry_node_walk: "represents mx n x \<Longrightarrow> entry_node mx entries n st = walk_entry entries st x"
  unfolding entry_node_def walk_entry_def by (rule for_element_represents) (auto split: prod.splits)

lemma group_node_walk:
  fixes st :: "'a walk"
  assumes r: "represents mx n x"
  shows "group_node mx groups n st = walk_group groups st x"
proof -
  show ?thesis
    unfolding group_node_def walk_group_def
  proof (rule for_element_represents [OF r])
    fix e as cs and s :: "'a walk" assume x: "x = Element e as cs"
    have "each_sibling mx (entry_node mx es) (mxmlGetFirstChild mx n) = (\<lambda>st. fold_res (walk_entry es) st cs)" for es :: "'a entry_table"
      by (rule ext, rule each_sibling_fold) (use r x entry_node_walk in auto)
    then show "(case s of (s, nodeAttr) \<Rightarrow> fold_res (\<lambda>st (name, entries).
        when_attr name (each_sibling mx (entry_node mx entries) (mxmlGetFirstChild mx n)) st) (s, mxmlElementGetAttr mx n ''name'') groups) =
      (case s of (s, nodeAttr) \<Rightarrow> fold_res (\<lambda>st (name, entries).
        when_attr name (\<lambda>st. fold_res (walk_entry entries) st cs) st) (s, map_of as ''name'') groups)"
      using r x by simp
  qed
qed

lemma module_node_walk:
  fixes st :: "'a walk"
  assumes r: "represents mx n x"
  shows "module_node mx modules n st = walk_module modules st x"
proof -
  show ?thesis
    unfolding module_node_def walk_module_def
  proof (rule for_element_represents [OF r])
    fix e as cs and s :: "'a walk" assume x: "x = Element e as cs"
    have "each_sibling mx (group_node mx gs) (mxmlGetFirstChild mx n) = (\<lambda>st. fold_res (walk_group gs) st cs)" for gs :: "'a group_table"
      by (rule ext, rule each_sibling_fold) (use r x group_node_walk in auto)
    then show "(case s of (s, nodeAttr) \<Rightarrow> fold_res (\<lambda>st (name, groups).
        when_attr name (each_sibling mx (group_node mx groups) (mxmlGetFirstChild mx n)) st) (s, mxmlElementGetAttr mx n ''name'') modules) =
      (case s of (s, nodeAttr) \<Rightarrow> fold_res (\<lambda>st (name, groups).
        when_attr name (\<lambda>st. fold_res (walk_group groups) st cs) st) (s, map_of as ''name'') modules)"
      using r x by simp
  qed
qed

lemma load_file_walk:
  assumes "files fname = Some (Some tree)" and "represents_list mx (mxmlFindElement mx tree) xs"
  shows "load_file mx files fname opened parsed modules s =
    bind_res (fold_res (walk_module modules) (parsed (opened s), None) xs) (\<lambda>(s', nodeAttr). Inr (0, s'))"
  unfolding load_file_def
  using each_sibling_fold [OF assms(2), of "module_node mx modules" "walk_module modules"] module_node_walk [of mx _ _ modules] assms(1)
  by simp

section \<open>Invariants\<close>

text \<open>What every action keeps, every loader keeps, whatever the library returns.\<close>

lemma siblings_invariant:
  fixes mx :: "'n mxml" and s :: 's
  assumes "siblings mx f n s = Some (Inr s')" and "\<And>k s s'. I s \<Longrightarrow> f k s = Inr s' \<Longrightarrow> I s'" and "I s"
  shows "I s'"
proof -
  let ?P = "\<lambda>(mx :: 'n mxml) f (n :: 'n option) (s :: 's) (r :: 's res). (\<forall>k s s'. I s \<longrightarrow> f k s = Inr s' \<longrightarrow> I s') \<longrightarrow> I s \<longrightarrow> (\<forall>s'. r = Inr s' \<longrightarrow> I s')"
  have "?P mx f n s (Inr s')"
  proof (rule siblings.raw_induct [of ?P])
    fix loop mx f n s r
    assume ih: "\<And>mx f n s r. loop mx f n s = Some r \<Longrightarrow> ?P mx f n s r"
      and body: "(case n of None \<Rightarrow> Some (Inr s)
        | Some k \<Rightarrow> (case f k s of Inl e \<Rightarrow> Some (Inl e) | Inr s' \<Rightarrow> loop mx f (mxmlGetNextSibling mx k) s')) = Some r"
    show "?P mx f n s r"
    proof (intro impI allI)
      fix s' assume f: "\<forall>k s s'. I s \<longrightarrow> f k s = Inr s' \<longrightarrow> I s'" and s: "I s" and r: "r = Inr s'"
      show "I s'"
      proof (cases n)
        case None
        then show ?thesis using body s r by simp
      next
        case (Some k)
        then obtain t where t: "f k s = Inr t" "loop mx f (mxmlGetNextSibling mx k) t = Some r" using body r by (auto split: sum.splits)
        then show ?thesis using ih [OF t(2)] f s r by blast
      qed
    qed
  qed (rule assms(1))
  then show ?thesis using assms(2,3) by blast
qed

lemma each_sibling_invariant:
  "each_sibling mx f n s = Inr s' \<Longrightarrow> (\<And>k s s'. I s \<Longrightarrow> f k s = Inr s' \<Longrightarrow> I s') \<Longrightarrow> I s \<Longrightarrow> I s'"
  using siblings_invariant [of mx f n s s' I] by (auto simp: each_sibling_def split: option.splits)

definition actions :: "'s module_table \<Rightarrow> 's action set" where
  "actions modules = {act. \<exists>m gs g es k. (m, gs) \<in> set modules \<and> (g, es) \<in> set gs \<and> (k, act) \<in> set es}"

lemma when_attr_fold_invariant:
  assumes "fold_res (\<lambda>st (name, b). when_attr name (B b) st) st tbl = Inr st'" and "I (fst st)"
    and "\<And>name b st st'. (name, b) \<in> set tbl \<Longrightarrow> I (fst st) \<Longrightarrow> B b st = Inr st' \<Longrightarrow> I (fst st')"
  shows "I (fst st')"
  using assms(1,2)
proof (rule fold_res_invariant [where I = "\<lambda>st. I (fst st)"])
  fix st p st' assume p: "p \<in> set tbl" "I (fst st)" "(case p of (name, b) \<Rightarrow> when_attr name (B b) st) = Inr st'"
  obtain name b s a where "p = (name, b)" "st = (s, a)" by (metis surj_pair)
  then show "I (fst st')" using p assms(3) [of name b "(s, a)" st'] by (auto simp: when_attr_def bind_res_Inr split: if_splits)
qed

lemma for_element_invariant:
  "for_element mx name n body st = Inr st' \<Longrightarrow> I st \<Longrightarrow> (\<And>st st'. I st \<Longrightarrow> body st = Inr st' \<Longrightarrow> I st') \<Longrightarrow> I st'"
  by (auto simp: for_element_def bind_res_Inr split: if_splits)

lemma entry_node_invariant:
  assumes "entry_node mx es n st = Inr st'" and "I (fst st)"
    and acts: "\<And>k act txt s s'. (k, act) \<in> set es \<Longrightarrow> I s \<Longrightarrow> act txt s = Inr s' \<Longrightarrow> I s'"
  shows "I (fst st')"
  using assms(1,2) unfolding entry_node_def
proof (rule for_element_invariant [where I = "\<lambda>st. I (fst st)"])
  fix st st' :: "'a walk"
  assume s: "I (fst st)" and run: "(case st of (s, nodeAttr) \<Rightarrow>
    fold_res (\<lambda>st (key, act). when_attr key (\<lambda>(s, a). bind_res (act (mxmlGetText mx n) s) (\<lambda>s'. Inr (s', a))) st)
      (s, mxmlElementGetAttr mx n ''key'') es) = Inr st'"
  obtain a b where st: "st = (a, b)" by (cases st)
  have "fold_res (\<lambda>st (key, act). when_attr key ((\<lambda>act (s, a). bind_res (act (mxmlGetText mx n) s) (\<lambda>s'. Inr (s', a))) act) st)
      (a, mxmlElementGetAttr mx n ''key'') es = Inr st'" using run st by simp
  then show "I (fst st')"
    by (rule when_attr_fold_invariant) (use s st acts in \<open>auto simp: bind_res_Inr\<close>)
qed

lemma group_node_invariant:
  assumes "group_node mx gs n st = Inr st'" and "I (fst st)"
    and acts: "\<And>g es k act txt s s'. (g, es) \<in> set gs \<Longrightarrow> (k, act) \<in> set es \<Longrightarrow> I s \<Longrightarrow> act txt s = Inr s' \<Longrightarrow> I s'"
  shows "I (fst st')"
  using assms(1,2) unfolding group_node_def
proof (rule for_element_invariant [where I = "\<lambda>st. I (fst st)"])
  fix st st' :: "'a walk"
  assume s: "I (fst st)" and run: "(case st of (s, nodeAttr) \<Rightarrow>
    fold_res (\<lambda>st (name, es). when_attr name (each_sibling mx (entry_node mx es) (mxmlGetFirstChild mx n)) st)
      (s, mxmlElementGetAttr mx n ''name'') gs) = Inr st'"
  obtain a b where st: "st = (a, b)" by (cases st)
  have "fold_res (\<lambda>st (name, es). when_attr name (each_sibling mx (entry_node mx es) (mxmlGetFirstChild mx n)) st)
      (a, mxmlElementGetAttr mx n ''name'') gs = Inr st'" using run st by simp
  then show "I (fst st')"
  proof (rule when_attr_fold_invariant)
    fix name es st st' assume m: "(name, es) \<in> set gs" "I (fst st)" "each_sibling mx (entry_node mx es) (mxmlGetFirstChild mx n) st = Inr st'"
    show "I (fst st')"
      by (rule each_sibling_invariant [OF m(3), of "\<lambda>st. I (fst st)"]) (use m acts entry_node_invariant [of mx es _ _ _ I] in blast)+
  qed (use s st in simp)
qed

lemma module_node_invariant:
  assumes "module_node mx ms n st = Inr st'" and "I (fst st)"
    and acts: "\<And>act txt s s'. act \<in> actions ms \<Longrightarrow> I s \<Longrightarrow> act txt s = Inr s' \<Longrightarrow> I s'"
  shows "I (fst st')"
  using assms(1,2) unfolding module_node_def
proof (rule for_element_invariant [where I = "\<lambda>st. I (fst st)"])
  fix st st' :: "'a walk"
  assume s: "I (fst st)" and run: "(case st of (s, nodeAttr) \<Rightarrow>
    fold_res (\<lambda>st (name, gs). when_attr name (each_sibling mx (group_node mx gs) (mxmlGetFirstChild mx n)) st)
      (s, mxmlElementGetAttr mx n ''name'') ms) = Inr st'"
  obtain a b where st: "st = (a, b)" by (cases st)
  have "fold_res (\<lambda>st (name, gs). when_attr name (each_sibling mx (group_node mx gs) (mxmlGetFirstChild mx n)) st)
      (a, mxmlElementGetAttr mx n ''name'') ms = Inr st'" using run st by simp
  then show "I (fst st')"
  proof (rule when_attr_fold_invariant)
    fix name gs st st' assume m: "(name, gs) \<in> set ms" "I (fst st)" "each_sibling mx (group_node mx gs) (mxmlGetFirstChild mx n) st = Inr st'"
    have a: "act \<in> actions ms" if "(g, es) \<in> set gs" "(k, act) \<in> set es" for g es k act
      using that m(1) unfolding actions_def by blast
    show "I (fst st')"
      by (rule each_sibling_invariant [OF m(3), of "\<lambda>st. I (fst st)"]) (use m(2) a acts group_node_invariant [of mx gs _ _ _ I] in blast)+
  qed (use s st in simp)
qed

lemma load_file_invariant:
  assumes "load_file mx files fname opened parsed ms s = Inr (ret, s')"
    and "I s" and "I (opened s)" and "I (parsed (opened s))"
    and "\<And>act txt s s'. act \<in> actions ms \<Longrightarrow> I s \<Longrightarrow> act txt s = Inr s' \<Longrightarrow> I s'"
  shows "I s'"
proof -
  have "I (fst st)" if "each_sibling mx (module_node mx ms) n (parsed (opened s), None) = Inr st" for n st
    by (rule each_sibling_invariant [OF that, of "\<lambda>st. I (fst st)"]) (use assms(4,5) module_node_invariant [of mx ms _ _ _ I] in auto)
  then show ?thesis
    using assms(1-3) by (auto simp: load_file_def bind_res_Inr split: option.splits)
qed

end
