(* ===== verification/Xml_Entries.thy ===== *)
theory Xml_Entries
  imports Xml_Reader
begin

text \<open>
  The entries of a configuration document. When the names in the document cannot be confused, the walk of a
  loader with its overwritten \<open>nodeAttr\<close> does the action of every entry that the tables know, in the order
  of the document.
\<close>

section \<open>The reference\<close>

definition entry_of :: "xml \<Rightarrow> (string \<times> string option) list" where
  "entry_of x = (case x of Text t \<Rightarrow> []
     | Element e as cs \<Rightarrow> if e = ''configValue'' then [(the (map_of as ''key''), text_of cs)] else [])"

definition group_entries :: "xml \<Rightarrow> (string \<times> string \<times> string option) list" where
  "group_entries x = (case x of Text t \<Rightarrow> []
     | Element e as cs \<Rightarrow> if e = ''group'' then map (Pair (the (map_of as ''name''))) (concat (map entry_of cs)) else [])"

definition module_entries :: "xml \<Rightarrow> (string \<times> string \<times> string \<times> string option) list" where
  "module_entries x = (case x of Text t \<Rightarrow> []
     | Element e as cs \<Rightarrow> if e = ''module'' then map (Pair (the (map_of as ''name''))) (concat (map group_entries cs)) else [])"

definition doc_entries :: "xml list \<Rightarrow> (string \<times> string \<times> string \<times> string option) list" where
  "doc_entries xs = concat (map module_entries xs)"

definition act_entry :: "'s entry_table \<Rightarrow> 's \<Rightarrow> string \<times> string option \<Rightarrow> 's res" where
  "act_entry es s = (\<lambda>(k, t). case map_of es k of None \<Rightarrow> Inr s | Some act \<Rightarrow> act t s)"

definition act_group :: "'s group_table \<Rightarrow> 's \<Rightarrow> string \<times> string \<times> string option \<Rightarrow> 's res" where
  "act_group gs s = (\<lambda>(g, e). case map_of gs g of None \<Rightarrow> Inr s | Some es \<Rightarrow> act_entry es s e)"

definition act_module :: "'s module_table \<Rightarrow> 's \<Rightarrow> string \<times> string \<times> string \<times> string option \<Rightarrow> 's res" where
  "act_module ms s = (\<lambda>(m, e). case map_of ms m of None \<Rightarrow> Inr s | Some gs \<Rightarrow> act_group gs s e)"

text \<open>
  Every element has its attribute, no key is the name of a group or module that the loader looks for, and no
  group has the name of such a module.
\<close>

definition table_groups :: "'s module_table \<Rightarrow> string list" where
  "table_groups ms = concat (map (\<lambda>(m, gs). map fst gs) ms)"

definition named_entry :: "'s module_table \<Rightarrow> xml \<Rightarrow> bool" where
  "named_entry ms x = (case x of Text t \<Rightarrow> True
     | Element e as cs \<Rightarrow> e = ''configValue'' \<longrightarrow>
         (case map_of as ''key'' of None \<Rightarrow> False | Some k \<Rightarrow> k \<notin> set (table_groups ms) \<and> k \<notin> set (map fst ms)))"

definition named_group :: "'s module_table \<Rightarrow> xml \<Rightarrow> bool" where
  "named_group ms x = (case x of Text t \<Rightarrow> True
     | Element e as cs \<Rightarrow> e = ''group'' \<longrightarrow>
         (case map_of as ''name'' of None \<Rightarrow> False | Some g \<Rightarrow> g \<notin> set (map fst ms)) \<and> list_all (named_entry ms) cs)"

definition named_module :: "'s module_table \<Rightarrow> xml \<Rightarrow> bool" where
  "named_module ms x = (case x of Text t \<Rightarrow> True
     | Element e as cs \<Rightarrow> e = ''module'' \<longrightarrow> map_of as ''name'' \<noteq> None \<and> list_all (named_group ms) cs)"

definition well_named :: "'s module_table \<Rightarrow> xml list \<Rightarrow> bool" where
  "well_named ms xs = list_all (named_module ms) xs"

definition tables_ok :: "'s module_table \<Rightarrow> bool" where
  "tables_ok ms \<longleftrightarrow> distinct (map fst ms) \<and>
     (\<forall>(m, gs) \<in> set ms. distinct (map fst gs) \<and> (\<forall>(g, es) \<in> set gs. distinct (map fst es)))"

section \<open>The walk without \<open>nodeAttr\<close>\<close>

text \<open>A walk does what \<open>q\<close> does, and ends with \<open>nodeAttr\<close> in \<open>S\<close>.\<close>

definition agrees :: "string option set \<Rightarrow> 's walk res \<Rightarrow> 's res \<Rightarrow> bool" where
  "agrees S r q \<longleftrightarrow> bind_res r (\<lambda>(s, a). Inr s) = q \<and> (\<forall>s a. r = Inr (s, a) \<longrightarrow> a \<in> S)"

lemma agrees_fold:
  assumes "\<And>x s a. x \<in> set xs \<Longrightarrow> a \<in> S \<Longrightarrow> agrees S (f (s, a) x) (g s x)" and "a \<in> S"
  shows "agrees S (fold_res f (s, a) xs) (fold_res g s xs)"
  using assms
proof (induction xs arbitrary: s a)
  case (Cons x xs)
  have x: "agrees S (f (s, a) x) (g s x)" using Cons.prems by simp
  show ?case
  proof (cases "f (s, a) x")
    case (Inr st)
    obtain s' a' where st: "st = (s', a')" by (cases st)
    have "g s x = Inr s'" "a' \<in> S" using x Inr st by (auto simp: agrees_def)
    then show ?thesis using Cons Inr st by simp
  next
    case (Inl e)
    then have "g s x = Inl e" using x by (simp add: agrees_def)
    then show ?thesis using Inl by (simp add: agrees_def)
  qed
qed (simp add: agrees_def)

lemma fold_res_concat: "fold_res f s (concat xss) = fold_res (fold_res f) s xss"
  by (induction xss arbitrary: s) (simp_all add: fold_res_append)

lemma fold_res_map: "fold_res f s (map h xs) = fold_res (\<lambda>s x. f s (h x)) s xs"
  by (induction xs arbitrary: s) simp_all

lemma fold_res_skip: "fold_res (\<lambda>s x. Inr s) s xs = Inr s"
  by (induction xs) simp_all

text \<open>The tests for the names one after the other select the row of the attribute.\<close>

lemma when_attr_skip:
  "a \<notin> set (map fst tbl) \<Longrightarrow> fold_res (\<lambda>st (name, b). when_attr name (B b) st) (s, Some a) tbl = Inr (s, Some a)"
  by (induction tbl) (auto simp: when_attr_def)

lemma when_attr_select:
  assumes "distinct (map fst tbl)"
    and "\<And>b s' a'. map_of tbl a = Some b \<Longrightarrow> B b (s, Some a) = Inr (s', a') \<Longrightarrow> \<exists>k. a' = Some k \<and> (k = a \<or> k \<notin> set (map fst tbl))"
  shows "fold_res (\<lambda>st (name, b). when_attr name (B b) st) (s, Some a) tbl
    = (case map_of tbl a of None \<Rightarrow> Inr (s, Some a) | Some b \<Rightarrow> B b (s, Some a))"
  using assms
proof (induction tbl)
  case (Cons p tbl)
  obtain name b where p: "p = (name, b)" by (cases p)
  show ?case
  proof (cases "name = a")
    case True
    show ?thesis
    proof (cases "B b (s, Some a)")
      case (Inr st)
      obtain s' a' where st: "st = (s', a')" by (cases st)
      obtain k where k: "a' = Some k" "k = a \<or> k \<notin> set (map fst (p # tbl))"
        using Cons.prems(2) [of b s' a'] Inr st True p by auto
      then have "k \<notin> set (map fst tbl)" using Cons.prems(1) True p by auto
      then show ?thesis using True Inr st k(1) p when_attr_skip [of k tbl B s'] by (simp add: when_attr_def)
    qed (use True p in \<open>simp add: when_attr_def\<close>)
  next
    case False
    have "fold_res (\<lambda>st (name, b). when_attr name (B b) st) (s, Some a) tbl
      = (case map_of tbl a of None \<Rightarrow> Inr (s, Some a) | Some b \<Rightarrow> B b (s, Some a))"
    proof (rule Cons.IH)
      fix c s' a' assume c: "map_of tbl a = Some c" "B c (s, Some a) = Inr (s', a')"
      then have "map_of (p # tbl) a = Some c" using False p by simp
      then show "\<exists>k. a' = Some k \<and> (k = a \<or> k \<notin> set (map fst tbl))" using Cons.prems(2) [OF _ c(2)] by auto
    qed (use Cons.prems(1) in simp)
    then show ?thesis using False p by (simp add: when_attr_def)
  qed
qed simp

section \<open>The three levels\<close>

lemma walk_entry_agrees:
  assumes "distinct (map fst es)" and "named_entry ms x"
    and "\<And>k. k \<notin> set (table_groups ms) \<Longrightarrow> k \<notin> set (map fst ms) \<Longrightarrow> Some k \<in> S" and "a \<in> S"
  shows "agrees S (walk_entry es (s, a) x) (fold_res (act_entry es) s (entry_of x))"
proof (cases x)
  case (Element e as cs)
  show ?thesis
  proof (cases "e = ''configValue''")
    case True
    obtain k where k: "map_of as ''key'' = Some k" "k \<notin> set (table_groups ms)" "k \<notin> set (map fst ms)"
      using assms(2) Element True by (auto simp: named_entry_def split: option.splits)
    have "fold_res (\<lambda>st (key, act). when_attr key (\<lambda>(s, a). bind_res (act (text_of cs) s) (\<lambda>s'. Inr (s', a))) st) (s, Some k) es
      = (case map_of es k of None \<Rightarrow> Inr (s, Some k) | Some act \<Rightarrow> bind_res (act (text_of cs) s) (\<lambda>s'. Inr (s', Some k)))"
      using when_attr_select [OF assms(1), of k "\<lambda>act (s, a). bind_res (act (text_of cs) s) (\<lambda>s'. Inr (s', a))" s]
      by (cases "map_of es k") (simp_all add: bind_res_Inr)
    then show ?thesis
      using Element True k assms(3) [OF k(2,3)]
      by (auto simp: walk_entry_def on_element_def entry_of_def act_entry_def agrees_def bind_res_assoc bind_res_Inr split: option.split)
  qed (use Element assms(4) in \<open>simp add: walk_entry_def on_element_def entry_of_def agrees_def\<close>)
qed (use assms(4) in \<open>simp add: walk_entry_def on_element_def entry_of_def agrees_def\<close>)

lemma agrees_mono: "agrees S r q \<Longrightarrow> S \<subseteq> S' \<Longrightarrow> agrees S' r q"
  by (auto simp: agrees_def)

lemma walk_group_agrees:
  assumes "distinct (map fst gs)" and "\<forall>(g, es) \<in> set gs. distinct (map fst es)" and "set (map fst gs) \<subseteq> set (table_groups ms)"
    and "named_group ms x" and "\<And>k. k \<notin> set (map fst ms) \<Longrightarrow> Some k \<in> S" and "a \<in> S"
  shows "agrees S (walk_group gs (s, a) x) (fold_res (act_group gs) s (group_entries x))"
proof (cases x)
  case (Element e as cs)
  show ?thesis
  proof (cases "e = ''group''")
    case True
    obtain g where g: "map_of as ''name'' = Some g" "g \<notin> set (map fst ms)" "\<forall>c\<in>set cs. named_entry ms c"
      using assms(4) Element True by (auto simp: named_group_def list_all_iff split: option.splits)
    let ?S = "insert (Some g) (Some ` {k. k \<notin> set (table_groups ms) \<and> k \<notin> set (map fst ms)})"
    let ?B = "\<lambda>es st. fold_res (walk_entry es) st cs"
    have inner: "agrees ?S (?B es (s, Some g)) (fold_res (\<lambda>s x. fold_res (act_entry es) s (entry_of x)) s cs)"
      if "map_of gs g = Some es" for es s
    proof -
      have "distinct (map fst es)" using assms(2) map_of_SomeD [OF that] by auto
      then show ?thesis by (intro agrees_fold walk_entry_agrees [of _ ms]) (use g(3) in auto)
    qed
    have sel: "fold_res (\<lambda>st (name, es). when_attr name (?B es) st) (s, Some g) gs
      = (case map_of gs g of None \<Rightarrow> Inr (s, Some g) | Some es \<Rightarrow> ?B es (s, Some g))"
    proof (rule when_attr_select [OF assms(1)])
      fix es s' a' assume "map_of gs g = Some es" "?B es (s, Some g) = Inr (s', a')"
      then have "a' \<in> ?S" using inner [of es s] unfolding agrees_def by blast
      then show "\<exists>k. a' = Some k \<and> (k = g \<or> k \<notin> set (map fst gs))" using assms(3) by blast
    qed
    have ent: "group_entries x = map (Pair g) (concat (map entry_of cs))" using Element True g(1) by (simp add: group_entries_def)
    have "agrees S (fold_res (\<lambda>st (name, es). when_attr name (?B es) st) (s, Some g) gs) (fold_res (act_group gs) s (group_entries x))"
    proof (cases "map_of gs g")
      case None
      then show ?thesis
        using assms(5) [OF g(2)] unfolding sel ent by (simp add: fold_res_map act_group_def fold_res_skip agrees_def)
    next
      case (Some es)
      have "agrees S (?B es (s, Some g)) (fold_res (\<lambda>s x. fold_res (act_entry es) s (entry_of x)) s cs)"
        by (rule agrees_mono [OF inner [OF Some]]) (use assms(5) g(2) in auto)
      then show ?thesis unfolding sel ent using Some by (simp add: fold_res_map act_group_def fold_res_concat)
    qed
    then show ?thesis using Element True g(1) by (simp add: walk_group_def on_element_def)
  qed (use Element assms(6) in \<open>simp add: walk_group_def on_element_def group_entries_def agrees_def\<close>)
qed (use assms(6) in \<open>simp add: walk_group_def on_element_def group_entries_def agrees_def\<close>)

lemma walk_module_agrees:
  assumes "tables_ok ms" and "named_module ms x"
  shows "agrees UNIV (walk_module ms (s, a) x) (fold_res (act_module ms) s (module_entries x))"
proof (cases x)
  case (Element e as cs)
  show ?thesis
  proof (cases "e = ''module''")
    case True
    obtain m where m: "map_of as ''name'' = Some m" "\<forall>c\<in>set cs. named_group ms c"
      using assms(2) Element True by (auto simp: named_module_def list_all_iff)
    let ?S = "insert (Some m) (Some ` {k. k \<notin> set (map fst ms)})"
    let ?B = "\<lambda>gs st. fold_res (walk_group gs) st cs"
    have inner: "agrees ?S (?B gs (s, Some m)) (fold_res (\<lambda>s x. fold_res (act_group gs) s (group_entries x)) s cs)"
      if "map_of ms m = Some gs" for gs s
    proof -
      have gs: "(m, gs) \<in> set ms" by (rule map_of_SomeD [OF that])
      then have "distinct (map fst gs)" "\<forall>(g, es) \<in> set gs. distinct (map fst es)" "set (map fst gs) \<subseteq> set (table_groups ms)"
        using assms(1) by (auto simp: tables_ok_def table_groups_def)
      then show ?thesis by (intro agrees_fold walk_group_agrees [of _ ms]) (use m(2) in auto)
    qed
    have sel: "fold_res (\<lambda>st (name, gs). when_attr name (?B gs) st) (s, Some m) ms
      = (case map_of ms m of None \<Rightarrow> Inr (s, Some m) | Some gs \<Rightarrow> ?B gs (s, Some m))"
    proof (rule when_attr_select)
      show "distinct (map fst ms)" using assms(1) by (simp add: tables_ok_def)
    next
      fix gs s' a' assume "map_of ms m = Some gs" "?B gs (s, Some m) = Inr (s', a')"
      then have "a' \<in> ?S" using inner [of gs s] unfolding agrees_def by blast
      then show "\<exists>k. a' = Some k \<and> (k = m \<or> k \<notin> set (map fst ms))" by blast
    qed
    have ent: "module_entries x = map (Pair m) (concat (map group_entries cs))" using Element True m(1) by (simp add: module_entries_def)
    have "agrees UNIV (fold_res (\<lambda>st (name, gs). when_attr name (?B gs) st) (s, Some m) ms) (fold_res (act_module ms) s (module_entries x))"
    proof (cases "map_of ms m")
      case None
      then show ?thesis unfolding sel ent by (simp add: fold_res_map act_module_def fold_res_skip agrees_def)
    next
      case (Some gs)
      then show ?thesis
        unfolding sel ent using agrees_mono [OF inner [OF Some]]
        by (simp add: fold_res_map act_module_def fold_res_concat)
    qed
    then show ?thesis using Element True m(1) by (simp add: walk_module_def on_element_def)
  qed (use Element in \<open>simp add: walk_module_def on_element_def module_entries_def agrees_def\<close>)
qed (simp add: walk_module_def on_element_def module_entries_def agrees_def)

lemma load_file_entries:
  assumes "files filename = Some (Some tree)" and "represents_list mx (mxmlFindElement mx tree) xs"
    and "tables_ok ms" and "well_named ms xs"
  shows "load_file mx files filename opened parsed ms s =
    bind_res (fold_res (act_module ms) (parsed (opened s)) (doc_entries xs)) (\<lambda>s'. Inr (0, s'))"
proof -
  have "agrees UNIV (fold_res (walk_module ms) (parsed (opened s), None) xs)
      (fold_res (\<lambda>s x. fold_res (act_module ms) s (module_entries x)) (parsed (opened s)) xs)"
    by (rule agrees_fold) (use walk_module_agrees [OF assms(3)] assms(4) in \<open>auto simp: well_named_def list_all_iff\<close>)
  then have e: "fold_res (act_module ms) (parsed (opened s)) (doc_entries xs)
      = bind_res (fold_res (walk_module ms) (parsed (opened s), None) xs) (\<lambda>(s', a). Inr s')"
    by (simp add: agrees_def doc_entries_def fold_res_concat fold_res_map)
  show ?thesis
    unfolding load_file_walk [where files = files, OF assms(1,2)] e
    by (cases "fold_res (walk_module ms) (parsed (opened s), None) xs") (auto split: prod.split)
qed

end
