(* ===== verification/Config_Load.thy ===== *)
theory Config_Load
  imports Xml_Entries Video_Map Student_Tracking Switch_Fsm Local_Save
begin

text \<open>
  The loaders of \<^verbatim>\<open>recbcsrv/xmlparser.c\<close>. Each is given by the names it looks for and what it does with the
  entries; the walk over the document is \<open>load_file\<close>. \<open>atof\<close> is a parameter like the other floating point
  operations.
\<close>

section \<open>Entries\<close>

definition use_text :: "(string \<Rightarrow> 's \<Rightarrow> 's res) \<Rightarrow> 's action" where
  "use_text f = (\<lambda>txt s. bind_res (deref txt) (\<lambda>t. f t s))"

definition set_text :: "(string \<Rightarrow> 's \<Rightarrow> 's) \<Rightarrow> 's action" where
  "set_text f = use_text (\<lambda>t s. Inr (f t s))"

definition set_int :: "(u32 \<Rightarrow> 's \<Rightarrow> 's) \<Rightarrow> 's action" where
  "set_int f = set_text (\<lambda>t. f (atoi t))"

text \<open>An \<open>int\<close> or a \<open>double\<close> stored in a \<open>float\<close>.\<close>

definition set_float_int :: "'f fp \<Rightarrow> ('f \<Rightarrow> 's \<Rightarrow> 's) \<Rightarrow> 's action" where
  "set_float_int F f = set_text (\<lambda>t. f (f_float F (f_int F (atoi t))))"

definition set_float :: "'f fp \<Rightarrow> (string \<Rightarrow> 'f) \<Rightarrow> ('f \<Rightarrow> 's \<Rightarrow> 's) \<Rightarrow> 's action" where
  "set_float F atof f = set_text (\<lambda>t. f (f_float F (atof t)))"

section \<open>The map of the videos\<close>

definition on_video :: "nat \<Rightarrow> (t_video_map \<Rightarrow> t_video_map res) \<Rightarrow> vmap_table \<Rightarrow> vmap_table res" where
  "on_video capbrd f vm = bind_res (arr_get vm capbrd) (\<lambda>v. bind_res (f v) (arr_put vm capbrd))"

definition bind_interface :: "nat \<Rightarrow> string \<Rightarrow> t_video_map \<Rightarrow> t_video_map" where
  "bind_interface capbrd t v =
     (let v = (if t = ''HDSDI'' then v\<lparr>vm_cap_id := int capbrd + 1\<rparr> else v)
      in if t = ''HDMI'' then v\<lparr>vm_cap_id := int capbrd + 16 + 1\<rparr> else v)"

text \<open>The first group also sets the serial channel of the camera.\<close>

definition bind_function :: "nat \<Rightarrow> string \<Rightarrow> t_video_map \<Rightarrow> t_video_map" where
  "bind_function capbrd t v =
     (let v = (if t = ''Teacher_Special'' then (if capbrd = 0 then v\<lparr>vm_function := 1, vm_uart_channel := 1\<rparr> else v\<lparr>vm_function := 1\<rparr>) else v);
          v = (if t = ''Student_Special'' then (if capbrd = 0 then v\<lparr>vm_function := 2, vm_uart_channel := 3\<rparr> else v\<lparr>vm_function := 2\<rparr>) else v);
          v = (if t = ''Teacher_Full'' then v\<lparr>vm_function := 3\<rparr> else v);
          v = (if t = ''Student_Full'' then v\<lparr>vm_function := 4\<rparr> else v)
      in if t = ''Blackboard'' then v\<lparr>vm_function := 5\<rparr> else v)"

definition board_entries :: "nat \<Rightarrow> vmap_table entry_table" where
  "board_entries capbrd =
     [(''Interface'', use_text (\<lambda>t. on_video capbrd (\<lambda>v. Inr (bind_interface capbrd t v)))),
      (''Bind'', use_text (\<lambda>t. on_video capbrd (\<lambda>v. Inr (bind_function capbrd t v)))),
      (''Vendor'', use_text (\<lambda>t. on_video capbrd (\<lambda>v. bind_res (strcpy_into 32 t) (\<lambda>n. Inr (v\<lparr>cam_vendor := n\<rparr>))))),
      (''CamModel'', use_text (\<lambda>t. on_video capbrd (\<lambda>v. bind_res (strcpy_into 32 t) (\<lambda>n. Inr (v\<lparr>cam_model := n\<rparr>)))))]"

definition vmap_modules :: "vmap_table module_table" where
  "vmap_modules =
     [(''CaptureBoard'',
       [(''CaptureBoard1'', board_entries 0),
        (''CaptureBoard2'', board_entries 1),
        (''CaptureBoard3'', board_entries 2),
        (''CaptureBoard4'', board_entries 3),
        (''CaptureBoard5'', board_entries 4)])]"

definition reset_functions :: "vmap_table \<Rightarrow> vmap_table" where
  "reset_functions vm = map (\<lambda>v. v\<lparr>vm_function := -1\<rparr>) vm"

definition vmap_table_load :: "'n mxml \<Rightarrow> 'n files \<Rightarrow> string \<Rightarrow> vmap_table \<Rightarrow> (int \<times> vmap_table) res" where
  "vmap_table_load mx files fname = load_file mx files fname id reset_functions vmap_modules"

section \<open>The configuration of the server\<close>

record 'f t_recbc_cfg =
  rc_frame_width :: u32
  rc_frame_height :: u32
  rc_frame_rate :: 'f
  rc_bitrate :: u32
  rc_live_bitrate :: u32
  rc_IsResouceMode :: u32
  rc_num_of_CoreBoard :: u32
  rc_IsAutoInstuct :: u32
  rc_PolicyFileName :: string
  rc_VGADuration :: u32

definition config_init :: "'f fp \<Rightarrow> 'f t_recbc_cfg \<Rightarrow> 'f t_recbc_cfg" where
  "config_init F c = c\<lparr>rc_frame_width := 1920, rc_frame_height := 1080, rc_frame_rate := f_float F (f_lit F 30), rc_bitrate := 1024,
     rc_live_bitrate := 1024, rc_IsResouceMode := 1, rc_IsAutoInstuct := 0, rc_num_of_CoreBoard := 4, rc_VGADuration := 6\<rparr>"

definition set_resolution :: "string \<Rightarrow> 'f t_recbc_cfg \<Rightarrow> 'f t_recbc_cfg" where
  "set_resolution t c =
     (let c = (if t = ''1080p'' then c\<lparr>rc_frame_height := 1080, rc_frame_width := 1920\<rparr> else c)
      in if t = ''720p'' then c\<lparr>rc_frame_height := 720, rc_frame_width := 1280\<rparr> else c)"

definition set_mode :: "string \<Rightarrow> 'f t_recbc_cfg \<Rightarrow> 'f t_recbc_cfg" where
  "set_mode t c =
     (let c = (if t = ''Manual'' then c\<lparr>rc_IsAutoInstuct := 0\<rparr> else c);
          c = (if t = ''HalfAuto'' then c\<lparr>rc_IsAutoInstuct := 1\<rparr> else c)
      in if t = ''Auto'' then c\<lparr>rc_IsAutoInstuct := 2\<rparr> else c)"

definition codec_entries :: "'f fp \<Rightarrow> 'f t_recbc_cfg entry_table" where
  "codec_entries F =
     [(''LiveBitRate'', set_int (\<lambda>v c. c\<lparr>rc_live_bitrate := v\<rparr>)),
      (''FrameRate'', set_float_int F (\<lambda>v c. c\<lparr>rc_frame_rate := v\<rparr>)),
      (''resolutions'', set_text set_resolution),
      (''RecordMode'', set_text (\<lambda>t c. c\<lparr>rc_IsResouceMode := if t = ''SingleStream'' then 0 else 1\<rparr>))]"

definition default_entries :: "'f t_recbc_cfg entry_table" where
  "default_entries =
     [(''PolicyFile'', use_text (\<lambda>t c. bind_res (strcpy_into 64 t) (\<lambda>n. Inr (c\<lparr>rc_PolicyFileName := n\<rparr>)))),
      (''SetRecordMode'', set_text set_mode),
      (''VGADuration'', set_int (\<lambda>v c. c\<lparr>rc_VGADuration := v\<rparr>))]"

definition config_modules :: "'f fp \<Rightarrow> 'f t_recbc_cfg module_table" where
  "config_modules F = [(''Codec'', [(''BitRate'', codec_entries F)]), (''System'', [(''Default'', default_entries)])]"

definition config_load :: "'f fp \<Rightarrow> 'n mxml \<Rightarrow> 'n files \<Rightarrow> string \<Rightarrow> 'f t_recbc_cfg \<Rightarrow> (int \<times> 'f t_recbc_cfg) res" where
  "config_load F mx files fname = load_file mx files fname id id (config_modules F)"

section \<open>The videos that are forwarded\<close>

definition stream_numbers :: "string \<Rightarrow> t_forward_table \<Rightarrow> t_forward_table" where
  "stream_numbers t f =
     (let f = (if CHR ''1'' \<in> set t then f\<lparr>teacherspecial := True\<rparr> else f);
          f = (if CHR ''2'' \<in> set t then f\<lparr>studentspecial := True\<rparr> else f);
          f = (if CHR ''3'' \<in> set t then f\<lparr>teacherfull := True\<rparr> else f);
          f = (if CHR ''4'' \<in> set t then f\<lparr>studentfull := True\<rparr> else f)
      in if CHR ''5'' \<in> set t then f\<lparr>blackboard := True\<rparr> else f)"

definition forward_modules :: "t_forward_table module_table" where
  "forward_modules = [(''Codec'', [(''BitRate'', [(''VideoStreamToSend'', set_text stream_numbers)])])]"

definition forward_table_load :: "'n mxml \<Rightarrow> 'n files \<Rightarrow> string \<Rightarrow> t_forward_table \<Rightarrow> (int \<times> t_forward_table) res" where
  "forward_table_load mx files fname = load_file mx files fname id id forward_modules"

section \<open>The cameras\<close>

definition cam_entries :: "'f fp \<Rightarrow> (string \<Rightarrow> 'f) \<Rightarrow> 'f t_camera_holder entry_table" where
  "cam_entries F atof =
     [(''PanMinAngle'', set_float_int F (\<lambda>v ch. ch\<lparr>pan_angle_left := v\<rparr>)),
      (''PanMaxAngle'', set_float_int F (\<lambda>v ch. ch\<lparr>pan_angle_right := v\<rparr>)),
      (''TiltMinAngle'', set_float_int F (\<lambda>v ch. ch\<lparr>tilt_angle_down := v\<rparr>)),
      (''TiltMaxAngle'', set_float_int F (\<lambda>v ch. ch\<lparr>tilt_angle_up := v\<rparr>)),
      (''PanLeftPos'', set_int (\<lambda>v ch. ch\<lparr>pan_min := v\<rparr>)),
      (''PanRightPos'', set_int (\<lambda>v ch. ch\<lparr>pan_max := v\<rparr>)),
      (''TiltLeftPos'', set_int (\<lambda>v ch. ch\<lparr>tilt_min := v\<rparr>)),
      (''TiltRightPos'', set_int (\<lambda>v ch. ch\<lparr>tilt_max := v\<rparr>)),
      (''WidePos'', set_int (\<lambda>v ch. ch\<lparr>zoom_min := v\<rparr>)),
      (''TelePos'', set_int (\<lambda>v ch. ch\<lparr>zoom_max := v\<rparr>)),
      (''WideView'', set_float F atof (\<lambda>v ch. ch\<lparr>view_angle_max := v\<rparr>)),
      (''TeleView'', set_float F atof (\<lambda>v ch. ch\<lparr>view_angle_min := v\<rparr>))]"

definition cam_param_load :: "'f fp \<Rightarrow> (string \<Rightarrow> 'f) \<Rightarrow> 'n mxml \<Rightarrow> 'n files \<Rightarrow> string \<Rightarrow> string \<Rightarrow> string \<Rightarrow> 'f t_camera_holder \<Rightarrow>
    (int \<times> 'f t_camera_holder) res" where
  "cam_param_load F atof mx files fname vendor model = load_file mx files fname id id [(vendor, [(model, cam_entries F atof)])]"

definition speed_entries :: "'f t_camera_holder entry_table" where
  "speed_entries = [(''PTZSpeedLevel'', set_int (\<lambda>v ch. ch\<lparr>panspeed_use := v, tiltspeed_use := v\<rparr>))]"

definition teacher_pt_speed_load :: "'n mxml \<Rightarrow> 'n files \<Rightarrow> string \<Rightarrow> 'f t_camera_holder \<Rightarrow> (int \<times> 'f t_camera_holder) res" where
  "teacher_pt_speed_load mx files fname = load_file mx files fname id id [(''Analyze'', [(''TeacherTrace'', speed_entries)])]"

definition student_pt_speed_load :: "'n mxml \<Rightarrow> 'n files \<Rightarrow> string \<Rightarrow> 'f t_camera_holder \<Rightarrow> (int \<times> 'f t_camera_holder) res" where
  "student_pt_speed_load mx files fname = load_file mx files fname id id [(''Analyze'', [(''StudentTrace'', speed_entries)])]"

text \<open>\<open>IsExclude\<close> is a local variable of the caller, \<open>None\<close> as long as nothing has been assigned to it.\<close>

definition teacher_exclude_load :: "'n mxml \<Rightarrow> 'n files \<Rightarrow> string \<Rightarrow> u32 option \<Rightarrow> (int \<times> u32 option) res" where
  "teacher_exclude_load mx files fname =
     load_file mx files fname id id [(''Analyze'', [(''TeacherTrace'', [(''IsExclude'', set_int (\<lambda>v x. Some v))])])]"

section \<open>The geometry\<close>

definition on_camera :: "nat \<Rightarrow> ('f t_camera_geometry \<Rightarrow> 'f t_camera_geometry) \<Rightarrow> 'f t_student_tracking_geometry \<Rightarrow> 'f t_student_tracking_geometry" where
  "on_camera k f geo = geo\<lparr>camera_geometry := (camera_geometry geo)[k := f (camera_geometry geo ! k)]\<rparr>"

definition geometry_entries :: "'f fp \<Rightarrow> (string \<Rightarrow> 'f) \<Rightarrow> 'f t_student_tracking_geometry entry_table" where
  "geometry_entries F atof =
     [(''Camera1PosX'', set_int (\<lambda>v. on_camera 0 (\<lambda>g. g\<lparr>cam_x := v\<rparr>))),
      (''Camera1PosY'', set_int (\<lambda>v. on_camera 0 (\<lambda>g. g\<lparr>cam_y := v\<rparr>))),
      (''Camera1PosZ'', set_int (\<lambda>v. on_camera 0 (\<lambda>g. g\<lparr>cam_z := v\<rparr>))),
      (''Camera1PitchAngle'', set_float F atof (\<lambda>v. on_camera 0 (\<lambda>g. g\<lparr>angle_v := v\<rparr>))),
      (''Camera1AzimuthalAngle'', set_float F atof (\<lambda>v. on_camera 0 (\<lambda>g. g\<lparr>angle_h := v\<rparr>))),
      (''Camera1ViewAngle'', set_float F atof (\<lambda>v. on_camera 0 (\<lambda>g. g\<lparr>cam_view_angle := v\<rparr>))),
      (''Camera2PosX'', set_int (\<lambda>v. on_camera 1 (\<lambda>g. g\<lparr>cam_x := v\<rparr>))),
      (''Camera2PosY'', set_int (\<lambda>v. on_camera 1 (\<lambda>g. g\<lparr>cam_y := v\<rparr>))),
      (''Camera2PosZ'', set_int (\<lambda>v. on_camera 1 (\<lambda>g. g\<lparr>cam_z := v\<rparr>))),
      (''Camera2PitchAngle'', set_float F atof (\<lambda>v. on_camera 1 (\<lambda>g. g\<lparr>angle_v := v\<rparr>))),
      (''Camera2AzimuthalAngle'', set_float F atof (\<lambda>v. on_camera 1 (\<lambda>g. g\<lparr>angle_h := v\<rparr>))),
      (''Camera2ViewAngle'', set_float F atof (\<lambda>v. on_camera 1 (\<lambda>g. g\<lparr>cam_view_angle := v\<rparr>))),
      (''StudentSpecialPosX'', set_int (\<lambda>v. on_camera 2 (\<lambda>g. g\<lparr>cam_x := v\<rparr>))),
      (''StudentSpecialPosY'', set_int (\<lambda>v. on_camera 2 (\<lambda>g. g\<lparr>cam_y := v\<rparr>))),
      (''StudentSpecialPosZ'', set_int (\<lambda>v. on_camera 2 (\<lambda>g. g\<lparr>cam_z := v\<rparr>))),
      (''StudentSpecPitchAngle'', set_float F atof (\<lambda>v. on_camera 2 (\<lambda>g. g\<lparr>angle_v := v\<rparr>))),
      (''StudentSpecAzimuthalAngle'', set_float F atof (\<lambda>v. on_camera 2 (\<lambda>g. g\<lparr>angle_h := v\<rparr>)))]"

definition student_tracking_geometry_load :: "'f fp \<Rightarrow> (string \<Rightarrow> 'f) \<Rightarrow> 'n mxml \<Rightarrow> 'n files \<Rightarrow> string \<Rightarrow>
    'f t_student_tracking_geometry \<Rightarrow> (int \<times> 'f t_student_tracking_geometry) res" where
  "student_tracking_geometry_load F atof mx files fname =
     load_file mx files fname id id [(''Analyze'', [(''StudentTrace'', geometry_entries F atof)])]"

definition screen_entries :: "'f fp \<Rightarrow> (string \<Rightarrow> 'f) \<Rightarrow> 'f t_screen_geometry entry_table" where
  "screen_entries F atof =
     [(''IsExcludeFeatureDetect'', set_int (\<lambda>v g. g\<lparr>has_screen := v \<noteq> 0\<rparr>)),
      (''ExcludeFDLeftX'', set_int (\<lambda>v g. g\<lparr>x_left := v\<rparr>)),
      (''ExcludeFDRightX'', set_int (\<lambda>v g. g\<lparr>x_right := v\<rparr>)),
      (''ExcludeFDY'', set_int (\<lambda>v g. g\<lparr>y_screen := v\<rparr>)),
      (''TeacherSpecAzimuthalAngle'', set_float F atof (\<lambda>v g. g\<lparr>camera_initial_angle := v\<rparr>))]"

definition screen_geometry_load :: "'f fp \<Rightarrow> (string \<Rightarrow> 'f) \<Rightarrow> 'n mxml \<Rightarrow> 'n files \<Rightarrow> string \<Rightarrow>
    'f t_screen_geometry \<Rightarrow> (int \<times> 'f t_screen_geometry) res" where
  "screen_geometry_load F atof mx files fname =
     load_file mx files fname id id [(''Analyze'', [(''TeacherTrace'', screen_entries F atof)])]"

section \<open>The policy of the director\<close>

definition str2state :: "string \<Rightarrow> e_fsm_state" where
  "str2state s =
     (let ret = FSM_TEACHER_PANORAMA;
          ret = (if s = ''VGA'' then FSM_VGA else ret);
          ret = (if s = ''TeacherSpecial'' then FSM_TEACHER_CLOSEUP else ret);
          ret = (if s = ''StudentSpecial'' then FSM_STUDENT_CLOSEUP else ret);
          ret = (if s = ''TeacherFull'' then FSM_TEACHER_PANORAMA else ret);
          ret = (if s = ''StudentFull'' then FSM_STUDENT_PANORAMA else ret);
          ret = (if s = ''Blackboard'' then FSM_BOARD_CLOSEUP else ret);
          ret = (if s = ''VGAWithTeacherSpecial'' then FSM_VGA_PIP_TEACHER_CLOSEUP else ret);
          ret = (if s = ''TeacherSpecialWithStudentSpecial'' then FSM_TEACHER_CLOSEUP_PIP_STUDENT_CLOSEUP else ret)
      in if s = ''BlackboardWithStudentSpecial'' then FSM_BLACKBOARD_PIP_STUDENT_CLOSEUP else ret)"

definition set_transition :: "e_fsm_state \<Rightarrow> nat \<Rightarrow> e_fsm_state \<Rightarrow> t_finite_state_machine \<Rightarrow> t_finite_state_machine" where
  "set_transition st c new m =
     m\<lparr>fsm_transition_table := (fsm_transition_table m)(st := (fsm_transition_table m st)[c := new])\<rparr>"

definition combinations :: "(string \<times> nat) list" where
  "combinations =
     [(''COND_COMBINATION_1'', COND_COMBINATION_1),
      (''COND_COMBINATION_2'', COND_COMBINATION_2),
      (''COND_COMBINATION_3'', COND_COMBINATION_3),
      (''COND_COMBINATION_4'', COND_COMBINATION_4),
      (''COND_COMBINATION_5'', COND_COMBINATION_5),
      (''COND_COMBINATION_6'', COND_COMBINATION_6),
      (''COND_COMBINATION_7'', COND_COMBINATION_7),
      (''COND_COMBINATION_8'', COND_COMBINATION_8),
      (''COND_COMBINATION_9'', COND_COMBINATION_9),
      (''COND_COMBINATION_10'', COND_COMBINATION_10),
      (''COND_COMBINATION_11'', COND_COMBINATION_11),
      (''COND_COMBINATION_12'', COND_COMBINATION_12),
      (''COND_COMBINATION_13'', COND_COMBINATION_13),
      (''COND_COMBINATION_14'', COND_COMBINATION_14),
      (''COND_COMBINATION_15'', COND_COMBINATION_15),
      (''COND_COMBINATION_16'', COND_COMBINATION_16),
      (''COND_COMBINATION_17'', COND_COMBINATION_17),
      (''COND_COMBINATION_18'', COND_COMBINATION_18),
      (''COND_COMBINATION_19'', COND_COMBINATION_19),
      (''COND_COMBINATION_20'', COND_COMBINATION_20),
      (''COND_COMBINATION_21'', COND_COMBINATION_21),
      (''COND_COMBINATION_22'', COND_COMBINATION_22),
      (''COND_COMBINATION_23'', COND_COMBINATION_23),
      (''COND_COMBINATION_24'', COND_COMBINATION_24),
      (''COND_COMBINATION_25'', COND_COMBINATION_25),
      (''COND_COMBINATION_26'', COND_COMBINATION_26),
      (''COND_COMBINATION_27'', COND_COMBINATION_27),
      (''COND_COMBINATION_28'', COND_COMBINATION_28),
      (''COND_COMBINATION_29'', COND_COMBINATION_29),
      (''COND_COMBINATION_30'', COND_COMBINATION_30),
      (''COND_COMBINATION_31'', COND_COMBINATION_31),
      (''COND_COMBINATION_32'', COND_COMBINATION_32),
      (''COND_COMBINATION_33'', COND_COMBINATION_33),
      (''COND_COMBINATION_34'', COND_COMBINATION_34),
      (''COND_COMBINATION_35'', COND_COMBINATION_35),
      (''COND_COMBINATION_36'', COND_COMBINATION_36)]"

definition fill_transition_table :: "e_fsm_state \<Rightarrow> t_finite_state_machine entry_table" where
  "fill_transition_table st = map (\<lambda>(name, c). (name, set_text (\<lambda>t. set_transition st c (str2state t)))) combinations"

definition policy_groups :: "t_finite_state_machine group_table" where
  "policy_groups =
     [(''INITIAL'', [(''NOCOND'', set_text (\<lambda>t m. m\<lparr>initial_state := str2state t\<rparr>))]),
      (''VGA'', fill_transition_table FSM_VGA),
      (''TeacherSpecial'', fill_transition_table FSM_TEACHER_CLOSEUP),
      (''StudentSpecial'', fill_transition_table FSM_STUDENT_CLOSEUP),
      (''TeacherFull'', fill_transition_table FSM_TEACHER_PANORAMA),
      (''StudentFull'', fill_transition_table FSM_STUDENT_PANORAMA),
      (''Blackboard'', fill_transition_table FSM_BOARD_CLOSEUP),
      (''VGAWithTeacherSpecial'', fill_transition_table FSM_VGA_PIP_TEACHER_CLOSEUP),
      (''TeacherSpecialWithStudentSpecial'', fill_transition_table FSM_TEACHER_CLOSEUP_PIP_STUDENT_CLOSEUP),
      (''BlackboardWithStudentSpecial'', fill_transition_table FSM_BLACKBOARD_PIP_STUDENT_CLOSEUP)]"

definition policy_modules :: "t_finite_state_machine module_table" where
  "policy_modules = [(''FSM'', policy_groups)]"

text \<open>\<open>memset(transition_table, -1, ...)\<close>: before the file is parsed.\<close>

definition clear_table :: "t_finite_state_machine \<Rightarrow> t_finite_state_machine" where
  "clear_table m = m\<lparr>fsm_transition_table := \<lambda>st. if st = FSM_NOTRANSITION then [] else replicate COND_MAX FSM_NOTRANSITION\<rparr>"

definition switch_policy_load :: "'n mxml \<Rightarrow> 'n files \<Rightarrow> string \<Rightarrow> t_finite_state_machine \<Rightarrow> (int \<times> t_finite_state_machine) res" where
  "switch_policy_load mx files fname = load_file mx files fname clear_table id policy_modules"

end
