(* ===== verification/Config_Policy.thy ===== *)
theory Config_Policy
  imports Config_Load Switch_Director
begin

text \<open>
  The policy of the director as a document: what a policy file can express, and how a director decides that
  has loaded one.
\<close>

section \<open>Writing a policy\<close>

fun state_name :: "e_fsm_state \<Rightarrow> string" where
  "state_name FSM_NOTRANSITION = ''''"
| "state_name FSM_VGA = ''VGA''"
| "state_name FSM_TEACHER_CLOSEUP = ''TeacherSpecial''"
| "state_name FSM_STUDENT_CLOSEUP = ''StudentSpecial''"
| "state_name FSM_TEACHER_PANORAMA = ''TeacherFull''"
| "state_name FSM_STUDENT_PANORAMA = ''StudentFull''"
| "state_name FSM_BOARD_CLOSEUP = ''Blackboard''"
| "state_name FSM_VGA_PIP_TEACHER_CLOSEUP = ''VGAWithTeacherSpecial''"
| "state_name FSM_TEACHER_CLOSEUP_PIP_STUDENT_CLOSEUP = ''TeacherSpecialWithStudentSpecial''"
| "state_name FSM_BLACKBOARD_PIP_STUDENT_CLOSEUP = ''BlackboardWithStudentSpecial''"

definition all_states :: "e_fsm_state list" where
  "all_states = [FSM_VGA, FSM_TEACHER_CLOSEUP, FSM_STUDENT_CLOSEUP, FSM_TEACHER_PANORAMA, FSM_STUDENT_PANORAMA,
     FSM_BOARD_CLOSEUP, FSM_VGA_PIP_TEACHER_CLOSEUP, FSM_TEACHER_CLOSEUP_PIP_STUDENT_CLOSEUP, FSM_BLACKBOARD_PIP_STUDENT_CLOSEUP]"

lemma in_all_states: "st \<noteq> FSM_NOTRANSITION \<longleftrightarrow> st \<in> set all_states"
  by (cases st) (simp_all add: all_states_def)

text \<open>A row without the transitions that are not set.\<close>

definition row_transitions :: "e_fsm_state list \<Rightarrow> (string \<times> nat) list" where
  "row_transitions row = filter (\<lambda>(name, c). row ! c \<noteq> FSM_NOTRANSITION) combinations"

definition value_node :: "string \<Rightarrow> string \<Rightarrow> xml" where
  "value_node key t = Element ''configValue'' [(''key'', key)] [Text t]"

definition group_of :: "string \<Rightarrow> xml list \<Rightarrow> xml" where
  "group_of name cs = Element ''group'' [(''name'', name)] cs"

definition policy_group :: "t_transition_table \<Rightarrow> e_fsm_state \<Rightarrow> xml" where
  "policy_group T st = group_of (state_name st) (map (\<lambda>(name, c). value_node name (state_name (T st ! c))) (row_transitions (T st)))"

definition policy_doc :: "e_fsm_state \<Rightarrow> t_transition_table \<Rightarrow> xml" where
  "policy_doc i T = Element ''module'' [(''name'', ''FSM'')]
     (group_of ''INITIAL'' [value_node ''NOCOND'' (state_name i)] # map (policy_group T) all_states)"

text \<open>A table that a policy can express: only the combinations have transitions.\<close>

definition policy_row :: "e_fsm_state list \<Rightarrow> bool" where
  "policy_row row \<longleftrightarrow> length row = COND_MAX \<and> (\<forall>c<10. row ! c = FSM_NOTRANSITION)"

definition policy_table :: "t_transition_table \<Rightarrow> bool" where
  "policy_table T \<longleftrightarrow> T FSM_NOTRANSITION = [] \<and> (\<forall>st. st \<noteq> FSM_NOTRANSITION \<longrightarrow> policy_row (T st))"

section \<open>The names\<close>

lemma str2state_name: "st \<noteq> FSM_NOTRANSITION \<Longrightarrow> str2state (state_name st) = st"
  by (cases st) (simp_all add: str2state_def)

lemma combinations_names: "distinct (map fst combinations)" and combinations_conds: "map snd combinations = [10 ..< 46]"
  by code_simp+

lemma policy_tables_ok: "tables_ok policy_modules"
proof -
  have "map fst (fill_transition_table st) = map fst combinations" for st
    by (simp add: fill_transition_table_def split_def)
  then have "distinct (map fst (fill_transition_table st))" for st using combinations_names by simp
  then show ?thesis by (simp add: tables_ok_def policy_modules_def policy_groups_def)
qed

lemma policy_names: "table_groups policy_modules = ''INITIAL'' # map state_name all_states" "map fst policy_modules = [''FSM'']"
  by (simp_all add: table_groups_def policy_modules_def policy_groups_def all_states_def)

lemma combination_not_group:
  "\<forall>p\<in>set combinations. fst p \<notin> set (''INITIAL'' # map state_name all_states) \<and> fst p \<noteq> ''FSM''"
  by code_simp

lemma combination_key: "(name, c) \<in> set combinations \<Longrightarrow>
    name \<notin> set (table_groups policy_modules) \<and> name \<notin> set (map fst policy_modules)"
  unfolding policy_names using bspec [OF combination_not_group, of "(name, c)"] by simp

lemma state_name_not_FSM: "state_name st \<noteq> ''FSM''"
  by (cases st) simp_all

lemma map_of_policy_groups: "st \<noteq> FSM_NOTRANSITION \<Longrightarrow> map_of policy_groups (state_name st) = Some (fill_transition_table st)"
  by (cases st) (simp_all add: policy_groups_def)

lemma map_of_fill:
  assumes "(name, c) \<in> set combinations"
  shows "map_of (fill_transition_table st) name = Some (set_text (\<lambda>t. set_transition st c (str2state t)))"
proof -
  have "map_of combinations name = Some c" using combinations_names assms by (rule map_of_is_SomeI)
  then show ?thesis unfolding fill_transition_table_def by (simp add: map_of_map)
qed

section \<open>Reading it back\<close>

lemma row_transitions_in: "(name, c) \<in> set (row_transitions row) \<Longrightarrow> (name, c) \<in> set combinations \<and> row ! c \<noteq> FSM_NOTRANSITION"
  by (simp add: row_transitions_def)

definition row_entries :: "t_transition_table \<Rightarrow> e_fsm_state \<Rightarrow> (string \<times> string \<times> string \<times> string option) list" where
  "row_entries T st = map (\<lambda>(name, c). (''FSM'', state_name st, name, Some (state_name (T st ! c)))) (row_transitions (T st))"

lemma policy_entries:
  "doc_entries [policy_doc i T] = (''FSM'', ''INITIAL'', ''NOCOND'', Some (state_name i)) # concat (map (row_entries T) all_states)"
proof -
  have v: "entry_of (value_node k t) = [(k, Some t)]" for k t by (simp add: entry_of_def value_node_def text_of_def)
  have g: "map (Pair ''FSM'') (group_entries (policy_group T st)) = row_entries T st" for st
    by (simp add: policy_group_def group_of_def group_entries_def row_entries_def split_def v comp_def)
  then show ?thesis
    by (simp add: doc_entries_def policy_doc_def module_entries_def map_concat comp_def)
      (simp add: group_of_def group_entries_def v)
qed

lemma policy_well_named: "well_named policy_modules [policy_doc i T]"
proof -
  have "named_entry policy_modules (value_node name t)" if "(name, c) \<in> set combinations" for name c t
    using combination_key [OF that] by (simp add: named_entry_def value_node_def)
  then have g: "named_group policy_modules (policy_group T st)" for st
    using state_name_not_FSM row_transitions_in
    by (fastforce simp: named_group_def policy_group_def group_of_def policy_names list_all_iff)
  have "named_entry policy_modules (value_node ''NOCOND'' t)" for t
    unfolding named_entry_def value_node_def policy_names by (simp add: all_states_def)
  then have "named_group policy_modules (group_of ''INITIAL'' [value_node ''NOCOND'' t])" for t
    by (simp add: named_group_def group_of_def policy_names)
  then show ?thesis using g by (simp add: well_named_def named_module_def policy_doc_def list_all_iff)
qed

lemma act_row:
  assumes "st \<noteq> FSM_NOTRANSITION"
  shows "fold_res (act_module policy_modules) m (row_entries T st)
    = Inr (m\<lparr>fsm_transition_table := (fsm_transition_table m)(st := foldl (\<lambda>row (name, c). row[c := T st ! c]) (fsm_transition_table m st) (row_transitions (T st)))\<rparr>)"
proof -
  have "fold_res (act_module policy_modules) m (map (\<lambda>(name, c). (''FSM'', state_name st, name, Some (state_name (T st ! c)))) ts)
    = Inr (m\<lparr>fsm_transition_table := (fsm_transition_table m)(st := foldl (\<lambda>row (name, c). row[c := T st ! c]) (fsm_transition_table m st) ts)\<rparr>)"
    if "\<forall>(name, c)\<in>set ts. (name, c) \<in> set combinations \<and> T st ! c \<noteq> FSM_NOTRANSITION" for ts
    using that
  proof (induction ts arbitrary: m)
    case (Cons p ts)
    obtain name c where p: "p = (name, c)" "(name, c) \<in> set combinations" "T st ! c \<noteq> FSM_NOTRANSITION" using Cons.prems by (cases p) auto
    have "act_module policy_modules m (''FSM'', state_name st, name, Some (state_name (T st ! c))) = Inr (set_transition st c (T st ! c) m)"
      using map_of_policy_groups [OF assms] map_of_fill [OF p(2), of st] str2state_name [OF p(3)]
      by (simp add: act_module_def policy_modules_def act_group_def act_entry_def set_text_def use_text_def)
    then show ?case using Cons by (simp add: p(1) set_transition_def cong: if_cong)
  qed simp
  from this [of "row_transitions (T st)"] show ?thesis
    unfolding row_entries_def by (auto dest: row_transitions_in)
qed

lemma foldl_updates_nth:
  "c < length row \<Longrightarrow> foldl (\<lambda>row (name, c). row[c := v c]) row ts ! c = (if c \<in> set (map snd ts) then v c else row ! c)"
proof (induction ts arbitrary: row)
  case (Cons p ts)
  then show ?case by (cases p) (simp add: nth_list_update)
qed simp

lemma length_foldl_updates: "length (foldl (\<lambda>row (name, c). row[c := v c]) row ts) = length row"
  by (induction ts arbitrary: row) auto

lemma row_restored:
  assumes "policy_row row"
  shows "foldl (\<lambda>r (name, c). r[c := row ! c]) (replicate COND_MAX FSM_NOTRANSITION) (row_transitions row) = row"
proof (rule nth_equalityI)
  fix c assume "c < length (foldl (\<lambda>r (name, c). r[c := row ! c]) (replicate COND_MAX FSM_NOTRANSITION) (row_transitions row))"
  then have c: "c < 46" by (simp add: length_foldl_updates)
  have "set (map snd combinations) = {10..<46}" unfolding combinations_conds by (rule set_upt)
  then have "c \<in> set (map snd (row_transitions row)) \<longleftrightarrow> 10 \<le> c \<and> row ! c \<noteq> FSM_NOTRANSITION"
    using c by (force simp: row_transitions_def image_iff)
  then show "foldl (\<lambda>r (name, c). r[c := row ! c]) (replicate COND_MAX FSM_NOTRANSITION) (row_transitions row) ! c = row ! c"
    using c assms by (cases "c < 10") (auto simp: foldl_updates_nth policy_row_def)
qed (use assms in \<open>simp add: length_foldl_updates policy_row_def\<close>)

lemma act_rows:
  assumes "\<forall>st\<in>set sts. st \<noteq> FSM_NOTRANSITION" and "distinct sts"
  shows "fold_res (act_module policy_modules) m (concat (map (row_entries T) sts))
    = Inr (m\<lparr>fsm_transition_table := \<lambda>st. if st \<in> set sts
        then foldl (\<lambda>row (name, c). row[c := T st ! c]) (fsm_transition_table m st) (row_transitions (T st)) else fsm_transition_table m st\<rparr>)"
  using assms
proof (induction sts arbitrary: m)
  case (Cons st sts)
  then have a: "fold_res (act_module policy_modules) m (row_entries T st)
    = Inr (m\<lparr>fsm_transition_table := (fsm_transition_table m)(st := foldl (\<lambda>row (name, c). row[c := T st ! c]) (fsm_transition_table m st) (row_transitions (T st)))\<rparr>)"
    by (intro act_row) simp
  have "fold_res (act_module policy_modules) m (concat (map (row_entries T) (st # sts)))
    = bind_res (fold_res (act_module policy_modules) m (row_entries T st)) (\<lambda>m. fold_res (act_module policy_modules) m (concat (map (row_entries T) sts)))"
    by (simp add: fold_res_append)
  then show ?case
    unfolding a using Cons by (simp add: Cons.IH cong: if_cong) (auto intro!: arg_cong [where f = "\<lambda>t. m\<lparr>fsm_transition_table := t\<rparr>"])
qed (simp add: fun_eq_iff)

lemma policy_read_back:
  assumes "files fname = Some (Some tree)" and "represents_list mx (mxmlFindElement mx tree) [policy_doc i T]"
    and "policy_table T" and "i \<noteq> FSM_NOTRANSITION"
  shows "switch_policy_load mx files fname m = Inr (0, m\<lparr>initial_state := i, fsm_transition_table := T\<rparr>)"
proof -
  let ?m = "(clear_table m)\<lparr>initial_state := i\<rparr>"
  have first: "act_module policy_modules (clear_table m) (''FSM'', ''INITIAL'', ''NOCOND'', Some (state_name i)) = Inr ?m"
    using str2state_name [OF assms(4)]
    by (simp add: act_module_def policy_modules_def act_group_def act_entry_def policy_groups_def set_text_def use_text_def)
  have "foldl (\<lambda>row (name, c). row[c := T st ! c]) (fsm_transition_table ?m st) (row_transitions (T st)) = T st" if "st \<noteq> FSM_NOTRANSITION" for st
    using row_restored [of "T st"] assms(3) that by (simp add: clear_table_def policy_table_def)
  then have "fold_res (act_module policy_modules) ?m (concat (map (row_entries T) all_states)) = Inr (?m\<lparr>fsm_transition_table := T\<rparr>)"
    using act_rows [of all_states ?m T] assms(3)
    by (auto simp: in_all_states [symmetric] all_states_def [of, THEN arg_cong [where f = distinct]] clear_table_def policy_table_def fun_eq_iff)
  then show ?thesis
    unfolding switch_policy_load_def load_file_entries [where files = files, OF assms(1,2) policy_tables_ok policy_well_named] policy_entries
    by (simp add: first, simp add: clear_table_def)
qed

end
