(* ===== verification/Config_Setup.thy ===== *)
theory Config_Setup
  imports Config_Policy
begin

text \<open>
  How \<^verbatim>\<open>main\<close> and \<^verbatim>\<open>thread_SwitchTracking\<close> set themselves up: the defaults, then the files over them; and
  the director that starts with what has been loaded.
\<close>

section \<open>The start of the program\<close>

text \<open>The results of the loaders are not looked at. The paths are the constants of \<^verbatim>\<open>recbc_srv.c\<close>.\<close>

definition SYS_CONFIG_FILE_NAME :: string where
  "SYS_CONFIG_FILE_NAME = ''../tomcat/apache-tomcat-6.0.39/webapps/ROOT/conf/sys-config.xml''"

definition PTZ_CONFIG_FILE_NAME :: string where
  "PTZ_CONFIG_FILE_NAME = ''../tomcat/apache-tomcat-6.0.39/webapps/ROOT/conf/ptz-config.xml''"

definition POLICY_FILE_NAME :: string where
  "POLICY_FILE_NAME = ''../tomcat/apache-tomcat-6.0.39/webapps/ROOT/conf/policy/policy.xml''"

definition no_forward :: t_forward_table where
  "no_forward = \<lparr>teacherspecial = False, studentspecial = False, teacherfull = False, studentfull = False, blackboard = False\<rparr>"

record 'f main_globals =
  mg_vmap :: vmap_table
  mg_reg_09 :: u32
  mg_cfg :: "'f t_recbc_cfg"
  mg_forward :: t_forward_table

definition main_config :: "'f fp \<Rightarrow> 'n mxml \<Rightarrow> 'n files \<Rightarrow> 'f t_recbc_cfg \<Rightarrow> 'f main_globals res" where
  "main_config F mx files g_cfg =
     bind_res (vmap_table_load mx files SYS_CONFIG_FILE_NAME vmap_table_init) (\<lambda>(ret, vm).
     bind_res (config_load F mx files SYS_CONFIG_FILE_NAME (config_init F g_cfg)) (\<lambda>(ret, c).
     bind_res (forward_table_load mx files SYS_CONFIG_FILE_NAME no_forward) (\<lambda>(ret, f).
     Inr \<lparr>mg_vmap = vm, mg_reg_09 = make_reg09_int vm, mg_cfg = c, mg_forward = f\<rparr>)))"

section \<open>The start of the tracking thread\<close>

text \<open>The local variables of the thread that are read from files; \<open>dirty\<close> ones hold what the stack held.\<close>

record 'f switch_locals =
  sl_teacher :: "'f t_camera_holder"
  sl_IsExclude :: "u32 option"
  sl_student :: "'f t_camera_holder"
  sl_geo :: "'f t_student_tracking_geometry"
  sl_screen :: "'f t_screen_geometry"
  sl_fsm :: t_finite_state_machine

text \<open>The camera of a function of the video map; -1 when no video has it.\<close>

definition load_camera :: "'f fp \<Rightarrow> (string \<Rightarrow> 'f) \<Rightarrow> 'n mxml \<Rightarrow> 'n files \<Rightarrow> vmap_table \<Rightarrow> int \<Rightarrow> 'f t_camera_holder \<Rightarrow> 'f t_camera_holder res" where
  "load_camera F atof mx files vm f ch =
     (let idx = vmap_table_get_index_by_function vm f
      in if idx \<noteq> -1 then
           bind_res (cam_param_load F atof mx files PTZ_CONFIG_FILE_NAME (cam_vendor (vm ! nat idx)) (cam_model (vm ! nat idx)) ch)
             (\<lambda>(ret, ch'). Inr ch')
         else Inr ch)"

definition switch_load :: "'f fp \<Rightarrow> (string \<Rightarrow> 'f) \<Rightarrow> 'n mxml \<Rightarrow> 'n files \<Rightarrow> vmap_table \<Rightarrow> 'f switch_locals \<Rightarrow> 'f switch_locals res" where
  "switch_load F atof mx files vm dirty =
     bind_res (load_camera F atof mx files vm 1 (camera_holder_init F (sl_teacher dirty))) (\<lambda>t.
     bind_res (teacher_pt_speed_load mx files SYS_CONFIG_FILE_NAME t) (\<lambda>(ret, teacher).
     bind_res (teacher_exclude_load mx files SYS_CONFIG_FILE_NAME None) (\<lambda>(ret, IsExclude).
     bind_res (load_camera F atof mx files vm 2 (camera_holder_init F (sl_student dirty))) (\<lambda>s.
     bind_res (student_pt_speed_load mx files SYS_CONFIG_FILE_NAME s) (\<lambda>(ret, student).
     bind_res (student_tracking_geometry_load F atof mx files SYS_CONFIG_FILE_NAME (student_tracking_geometry_init F (sl_geo dirty))) (\<lambda>(ret, geo).
     bind_res (screen_geometry_load F atof mx files SYS_CONFIG_FILE_NAME ((sl_screen dirty)\<lparr>has_screen := False\<rparr>)) (\<lambda>(ret, screen).
     bind_res (switch_policy_load mx files POLICY_FILE_NAME (fsm_init setup_truth_table transition_table_init)) (\<lambda>(ret, m).
     Inr \<lparr>sl_teacher = teacher, sl_IsExclude = IsExclude, sl_student = student, sl_geo = geo, sl_screen = screen, sl_fsm = m\<rparr>))))))))"

section \<open>A director with a loaded policy\<close>

definition loaded_director :: "t_finite_state_machine \<Rightarrow> director" where
  "loaded_director m = \<lparr>fsm = m, acc_student_lost = 0, acc_of_unchange = 0\<rparr>"

definition loaded_runs :: "t_finite_state_machine \<Rightarrow> director \<Rightarrow> bool" where
  "loaded_runs m d \<longleftrightarrow> director_step\<^sup>*\<^sup>* (loaded_director m) d"

text \<open>What a loader makes of a machine, whatever the document.\<close>

definition loaded_ok :: "t_finite_state_machine \<Rightarrow> t_finite_state_machine \<Rightarrow> bool" where
  "loaded_ok m0 m \<longleftrightarrow> fsm_truth_table m = fsm_truth_table m0 \<and> current_state m = current_state m0 \<and>
     initial_state m \<noteq> FSM_NOTRANSITION \<and> (\<forall>st. st \<noteq> FSM_NOTRANSITION \<longrightarrow> policy_row (fsm_transition_table m st))"

lemma str2state_state: "str2state s \<noteq> FSM_NOTRANSITION"
  by (simp add: str2state_def Let_def)

lemma combinations_range: "(name, c) \<in> set combinations \<Longrightarrow> 10 \<le> c \<and> c < 46"
  using arg_cong [OF combinations_conds, of set] by (metis atLeastLessThan_iff image_eqI list.set_map set_upt snd_conv)

lemma set_transition_ok:
  assumes "loaded_ok m0 m" and "10 \<le> c" and "c < 46"
  shows "loaded_ok m0 (set_transition st c new m)"
  using assms by (auto simp: loaded_ok_def set_transition_def policy_row_def)

lemma clear_table_ok: "initial_state m \<noteq> FSM_NOTRANSITION \<Longrightarrow> loaded_ok m (clear_table m)"
  by (simp add: loaded_ok_def clear_table_def policy_row_def)

lemma policy_actions:
  assumes "act \<in> actions policy_modules"
  shows "act = set_text (\<lambda>t m. m\<lparr>initial_state := str2state t\<rparr>) \<or>
    (\<exists>st name c. (name, c) \<in> set combinations \<and> act = set_text (\<lambda>t. set_transition st c (str2state t)))"
proof -
  obtain g es k where e: "(g, es) \<in> set policy_groups" "(k, act) \<in> set es"
    using assms by (auto simp: actions_def policy_modules_def)
  have "es = [(''NOCOND'', set_text (\<lambda>t m. m\<lparr>initial_state := str2state t\<rparr>))] \<or> (\<exists>st. es = fill_transition_table st)"
    using e(1) unfolding policy_groups_def by auto
  then show ?thesis
  proof (elim disjE exE)
    fix st assume "es = fill_transition_table st"
    then obtain c where "(k, c) \<in> set combinations" "act = set_text (\<lambda>t. set_transition st c (str2state t))"
      using e(2) unfolding fill_transition_table_def by auto
    then show ?thesis by blast
  qed (use e(2) in simp)
qed

lemma policy_action_ok:
  assumes "act \<in> actions policy_modules" and "loaded_ok m0 m" and run: "act p m = Inr m'"
  shows "loaded_ok m0 m'"
proof (cases p)
  case None
  then show ?thesis
    using policy_actions [OF assms(1)] run by (auto simp: set_text_def use_text_def deref_def)
next
  case (Some t)
  show ?thesis
    using policy_actions [OF assms(1)]
  proof (elim disjE exE conjE)
    assume "act = set_text (\<lambda>t m. m\<lparr>initial_state := str2state t\<rparr>)"
    then show ?thesis using Some run assms(2) str2state_state [of t] by (auto simp: set_text_def use_text_def loaded_ok_def)
  next
    fix st name c assume c: "(name, c) \<in> set combinations" and a: "act = set_text (\<lambda>t. set_transition st c (str2state t))"
    have "m' = set_transition st c (str2state t) m" using Some run a by (simp add: set_text_def use_text_def)
    then show ?thesis using set_transition_ok [OF assms(2)] combinations_range [OF c] by simp
  qed
qed

lemma policy_loaded_ok:
  assumes "switch_policy_load mx files fname m0 = Inr (ret, m)" and "files fname \<noteq> None" and "initial_state m0 \<noteq> FSM_NOTRANSITION"
  shows "loaded_ok m0 m"
proof -
  have c: "loaded_ok m0 (clear_table m0)" by (rule clear_table_ok [OF assms(3)])
  have "load_file mx files fname (\<lambda>m. m) id policy_modules (clear_table m0) = Inr (ret, m)"
    using assms(1,2) by (auto simp: switch_policy_load_def load_file_def split: option.splits)
  then show ?thesis
    by (rule load_file_invariant) (use c policy_action_ok [of _ m0] in auto)
qed

text \<open>Every run keeps the invariant of the director, so a tick is the decision on the combination.\<close>

lemma policy_row_decide:
  assumes "policy_row row" and "v < 2" and "t < 3" and "s < 3"
  shows "decide row v t s 0 = row ! comb_index v t s 0"
  using assms by (simp add: decide_def policy_row_def)

lemma loaded_runs_inv:
  assumes "loaded_ok (fsm_init setup_truth_table T) m" and "loaded_runs m d"
  shows "director_inv (initial_state m) (fsm_transition_table m) d"
  using assms(2) unfolding loaded_runs_def
proof (induction rule: rtranclp_induct)
  case base
  have "in_situation 0 0 0 (loaded_director m)"
    using assms(1) by (simp add: in_situation_def loaded_director_def loaded_ok_def fsm_init_def setup_canon)
  then show ?case
    by (rule director_invI) (use assms(1) in \<open>simp_all add: loaded_director_def loaded_ok_def fsm_init_def\<close>)
qed (rule director_step_inv)

lemma loaded_tick:
  assumes "loaded_ok (fsm_init setup_truth_table T) m" and "loaded_runs m d"
  shows "\<exists>v t s. v < 2 \<and> t < 3 \<and> s < 3 \<and> current_state (fsm d) \<noteq> FSM_NOTRANSITION \<and>
    (\<forall>c<COND_MAX. truth_table_condition_test c (fsm_truth_table (fsm d)) \<longleftrightarrow>
       c \<in> {v, 2 + t, 5 + s, COND_BOARD_NOTWRITE, comb_index v t s 0}) \<and>
    director_tick d = Inr (let ret = fsm_transition_table m (current_state (fsm d)) ! comb_index v t s 0
      in (ret, if ret = FSM_NOTRANSITION then d else d\<lparr>fsm := (fsm d)\<lparr>current_state := ret\<rparr>\<rparr>))"
proof -
  obtain v t s where S: "in_situation v t s d" "current_state (fsm d) \<noteq> FSM_NOTRANSITION" "fsm_transition_table (fsm d) = fsm_transition_table m"
    using loaded_runs_inv [OF assms] unfolding director_inv_def by blast
  then have b: "v < 2" "t < 3" "s < 3" "fsm_truth_table (fsm d) = canon (situation v t s 0)"
    by (simp_all add: in_situation_def)
  have r: "policy_row (fsm_transition_table m (current_state (fsm d)))" using assms(1) S(2) by (simp add: loaded_ok_def)
  have "\<forall>c<46. truth_table_condition_test c (fsm_truth_table (fsm d)) \<longleftrightarrow> c \<in> {v, 2 + t, 5 + s, 8, comb_index v t s 0}"
    using b test_situation [of v t s 0] by (auto simp: situation_def comb_index_def)
  then show ?thesis
    using b S(2) tick_situation [OF S(1,2)] policy_row_decide [OF r b(1-3)] S(3)
    by (intro exI [of _ v] exI [of _ t] exI [of _ s]) simp
qed

end
