(* ===== verification/Config_Properties.thy ===== *)
theory Config_Properties
  imports Config_Setup
begin

text \<open>
  The properties of the configuration: every loader ends and does what the entries of the document say, a
  policy that has been written is read back, a director with a loaded policy decides on the combination of
  the conditions alone, and what remains without files.
\<close>

section \<open>A library for the examples\<close>

text \<open>A node is the list of the siblings that begins with it.\<close>

fun element_name :: "xml \<Rightarrow> string option" where
  "element_name (Element name as cs) = Some name"
| "element_name (Text t) = None"

fun child_nodes :: "xml \<Rightarrow> xml list" where
  "child_nodes (Element name as cs) = cs"
| "child_nodes (Text t) = []"

fun attributes :: "xml \<Rightarrow> (string \<times> string) list" where
  "attributes (Element name as cs) = as"
| "attributes (Text t) = []"

definition node_list :: "xml list \<Rightarrow> xml list option" where
  "node_list xs = (if xs = [] then None else Some xs)"

definition list_mxml :: "xml list mxml" where
  "list_mxml = \<lparr>mxmlFindElement = (\<lambda>n. node_list (dropWhile (\<lambda>x. element_name x \<noteq> Some ''module'') (child_nodes (hd n)))),
     mxmlGetFirstChild = (\<lambda>n. node_list (child_nodes (hd n))), mxmlGetNextSibling = (\<lambda>n. node_list (tl n)),
     is_element = (\<lambda>n. element_name (hd n) \<noteq> None), mxmlGetElement = (\<lambda>n. element_name (hd n)),
     mxmlElementGetAttr = (\<lambda>n. map_of (attributes (hd n))), mxmlGetText = (\<lambda>n. text_of (child_nodes (hd n)))\<rparr>"

lemma next_sibling: "mxmlGetNextSibling list_mxml (x # xs) = (if xs = [] then None else Some xs)"
  by (simp add: list_mxml_def node_list_def)

lemma list_represents: "represents list_mxml (x # r) x" "represents_list list_mxml (node_list xs) xs"
proof -
  have L: "\<forall>x\<in>set xs. \<forall>r. represents list_mxml (x # r) x \<Longrightarrow> represents_list list_mxml (node_list xs) xs" for xs
    by (induction xs) (auto simp: node_list_def next_sibling)
  have R: "\<forall>r. represents list_mxml (x # r) x" for x
  proof (induction x)
    case (Element name as cs)
    then show ?case using L [of cs] by (simp add: list_mxml_def)
  next
    case (Text t)
    then show ?case by (simp add: list_mxml_def)
  qed
  show "represents list_mxml (x # r) x" using R by blast
  show "represents_list list_mxml (node_list xs) xs" using L [of xs] R by blast
qed

definition one_file :: "string \<Rightarrow> xml list \<Rightarrow> xml list files" where
  "one_file name ms = (\<lambda>f. if f = name then Some (Some [Element ''application'' [] ms]) else None)"

lemma find_modules: "element_name x = Some ''module'' \<Longrightarrow> mxmlFindElement list_mxml [Element ''application'' [] (x # xs)] = node_list (x # xs)"
  by (simp add: list_mxml_def)

section \<open>Properties\<close>

text \<open>
  C26. On every document the walk of the loaders through modules, groups and entries ends, and it is the fold
  of the actions over the entries of the document in their order, when every element has its attribute and
  no key or group has a name that the loader looks for further out: the variable \<open>nodeAttr\<close> that the inner
  loops overwrite does no harm then. The nodes of the library must describe the document.
\<close>

theorem loader_reads_entries:
  assumes "files fname = Some (Some tree)" and "represents_list mx (mxmlFindElement mx tree) xs"
    and "tables_ok modules" and "well_named modules xs"
  shows "load_file mx files fname at_open parsed modules s =
    bind_res (fold_res (act_module modules) (parsed (at_open s)) (doc_entries xs)) (\<lambda>s'. Inr (0, s'))"
  by (rule load_file_entries [where files = files, OF assms])

definition sample_config :: "xml list" where
  "sample_config =
     [Element ''module'' [(''name'', ''System'')]
        [group_of ''Default'' [value_node ''SetRecordMode'' ''Auto'', value_node ''VGADuration'' ''20''],
         Element ''listen'' [(''port'', ''7777'')] []],
      Element ''module'' [(''name'', ''Codec'')]
        [group_of ''BitRate'' [value_node ''LiveBitRate'' ''1536'', value_node ''resolutions'' ''720p''],
         group_of ''VideoTitle'' [value_node ''FileName'' ''title'']]]"

theorem loader_reads_entries_witness:
  "\<forall>c. config_load rat_fp list_mxml (one_file ''sys'' sample_config) ''sys'' (config_init rat_fp c)
     = Inr (0, (config_init rat_fp c)\<lparr>rc_IsAutoInstuct := 2, rc_VGADuration := 20, rc_live_bitrate := 1536,
         rc_frame_height := 720, rc_frame_width := 1280\<rparr>)"
proof
  fix c
  have f: "one_file ''sys'' sample_config ''sys'' = Some (Some [Element ''application'' [] sample_config])" by (simp add: one_file_def)
  have r: "represents_list list_mxml (mxmlFindElement list_mxml [Element ''application'' [] sample_config]) sample_config"
    using list_represents(2) [of sample_config] find_modules [of "hd sample_config" "tl sample_config"] by (simp add: sample_config_def)
  have t: "tables_ok (config_modules rat_fp)"
    by (simp add: tables_ok_def config_modules_def codec_entries_def default_entries_def)
  have w: "well_named (config_modules rat_fp) sample_config"
    by (simp add: well_named_def sample_config_def named_module_def named_group_def named_entry_def group_of_def value_node_def
        table_groups_def config_modules_def)
  have e: "doc_entries sample_config =
    [(''System'', ''Default'', ''SetRecordMode'', Some ''Auto''), (''System'', ''Default'', ''VGADuration'', Some ''20''),
     (''Codec'', ''BitRate'', ''LiveBitRate'', Some ''1536''), (''Codec'', ''BitRate'', ''resolutions'', Some ''720p''),
     (''Codec'', ''VideoTitle'', ''FileName'', Some ''title'')]"
    by (simp add: doc_entries_def sample_config_def module_entries_def group_entries_def entry_of_def group_of_def value_node_def text_of_def)
  have a: "atoi ''20'' = 20" "atoi ''1536'' = 1536" by code_simp+
  show "config_load rat_fp list_mxml (one_file ''sys'' sample_config) ''sys'' (config_init rat_fp c)
     = Inr (0, (config_init rat_fp c)\<lparr>rc_IsAutoInstuct := 2, rc_VGADuration := 20, rc_live_bitrate := 1536,
         rc_frame_height := 720, rc_frame_width := 1280\<rparr>)"
    unfolding config_load_def loader_reads_entries [where files = "one_file ''sys'' sample_config", OF f r t w] e
    by (simp add: act_module_def act_group_def act_entry_def config_modules_def codec_entries_def default_entries_def
        set_int_def set_text_def use_text_def set_mode_def set_resolution_def a)
qed

text \<open>
  C27. A policy is read back: a table of which only the combinations have transitions, and an initial state,
  written as a document under the names of the states, are what the loader makes of that document, whatever
  table the machine had before.
\<close>

theorem policy_roundtrip:
  assumes "files fname = Some (Some tree)" and "represents_list mx (mxmlFindElement mx tree) [policy_doc i T]"
    and "policy_table T" and "i \<noteq> FSM_NOTRANSITION"
  shows "switch_policy_load mx files fname m = Inr (0, m\<lparr>initial_state := i, fsm_transition_table := T\<rparr>)"
  by (rule policy_read_back [where files = files, OF assms])

definition sample_policy :: t_transition_table where
  "sample_policy st = (if st = FSM_NOTRANSITION then []
     else (replicate COND_MAX FSM_NOTRANSITION)[COND_COMBINATION_3 := FSM_TEACHER_CLOSEUP])"

lemma sample_policy_ok: "policy_table sample_policy"
  by (simp add: policy_table_def sample_policy_def policy_row_def)

theorem policy_roundtrip_witness:
  "switch_policy_load list_mxml (one_file ''policy'' [policy_doc FSM_VGA sample_policy]) ''policy'' (fsm_init setup_truth_table transition_table_init)
     = Inr (0, \<lparr>initial_state = FSM_VGA, current_state = FSM_TEACHER_PANORAMA, fsm_truth_table = setup_truth_table, fsm_transition_table = sample_policy\<rparr>)"
proof -
  let ?d = "policy_doc FSM_VGA sample_policy"
  have f: "one_file ''policy'' [?d] ''policy'' = Some (Some [Element ''application'' [] [?d]])" by (simp add: one_file_def)
  have r: "represents_list list_mxml (mxmlFindElement list_mxml [Element ''application'' [] [?d]]) [?d]"
    using list_represents(2) [of "[?d]"] find_modules [of ?d "[]"] by (simp add: policy_doc_def)
  show ?thesis
    using policy_roundtrip [where files = "one_file ''policy'' [?d]", OF f r sample_policy_ok, of "fsm_init setup_truth_table transition_table_init"]
    by (simp add: fsm_init_def)
qed

text \<open>
  C28. The director with a loaded policy. Whatever the file holds and whatever the library makes of it, when
  the loader returns, every row has a transition for combinations only, so in every run of events, starts and
  ticks a tick is the entry of the row of the current state for the one combination that holds, and no state
  outside the table is entered.
\<close>

theorem loaded_policy_decides:
  assumes "switch_policy_load mx files fname (fsm_init setup_truth_table T) = Inr (ret, m)" and "files fname \<noteq> None"
    and "loaded_runs m d"
  shows "\<exists>v t s. v < 2 \<and> t < 3 \<and> s < 3 \<and> current_state (fsm d) \<noteq> FSM_NOTRANSITION \<and>
    (\<forall>c<COND_MAX. truth_table_condition_test c (fsm_truth_table (fsm d)) \<longleftrightarrow>
       c \<in> {v, 2 + t, 5 + s, COND_BOARD_NOTWRITE, comb_index v t s 0}) \<and>
    director_tick d = Inr (let ret = fsm_transition_table m (current_state (fsm d)) ! comb_index v t s 0
      in (ret, if ret = FSM_NOTRANSITION then d else d\<lparr>fsm := (fsm d)\<lparr>current_state := ret\<rparr>\<rparr>))"
proof -
  have "initial_state (fsm_init setup_truth_table T) \<noteq> FSM_NOTRANSITION" by (simp add: fsm_init_def)
  then show ?thesis using loaded_tick policy_loaded_ok [OF assms(1,2)] assms(3) by blast
qed

theorem loaded_policy_decides_witness:
  "\<exists>m v t s. switch_policy_load list_mxml (one_file ''policy'' [policy_doc FSM_VGA sample_policy]) ''policy''
       (fsm_init setup_truth_table transition_table_init) = Inr (0, m) \<and> v < 2 \<and> t < 3 \<and> s < 3 \<and>
     director_tick (loaded_director m) = Inr (let ret = sample_policy FSM_TEACHER_PANORAMA ! comb_index v t s 0
       in (ret, if ret = FSM_NOTRANSITION then loaded_director m else (loaded_director m)\<lparr>fsm := m\<lparr>current_state := ret\<rparr>\<rparr>))"
proof -
  let ?d = "policy_doc FSM_VGA sample_policy"
  let ?m0 = "fsm_init setup_truth_table transition_table_init"
  define m where "m = ?m0\<lparr>initial_state := FSM_VGA, fsm_transition_table := sample_policy\<rparr>"
  have f: "one_file ''policy'' [?d] ''policy'' = Some (Some [Element ''application'' [] [?d]])" by (simp add: one_file_def)
  have "represents_list list_mxml (mxmlFindElement list_mxml [Element ''application'' [] [?d]]) [?d]"
    using list_represents(2) [of "[?d]"] find_modules [of ?d "[]"] by (simp add: policy_doc_def)
  from policy_read_back [where files = "one_file ''policy'' [?d]", OF f this sample_policy_ok]
  have l: "switch_policy_load list_mxml (one_file ''policy'' [?d]) ''policy'' ?m0 = Inr (0, m)" unfolding m_def by simp
  have "one_file ''policy'' [?d] ''policy'' \<noteq> None" "loaded_runs m (loaded_director m)" by (simp_all add: f loaded_runs_def)
  from loaded_policy_decides [OF l this] obtain v t s where "v < 2" "t < 3" "s < 3"
    "director_tick (loaded_director m) = Inr (let ret = fsm_transition_table m (current_state (fsm (loaded_director m))) ! comb_index v t s 0
      in (ret, if ret = FSM_NOTRANSITION then loaded_director m
        else (loaded_director m)\<lparr>fsm := (fsm (loaded_director m))\<lparr>current_state := ret\<rparr>\<rparr>))" by (elim exE conjE) (rule that)
  moreover have "fsm_transition_table m = sample_policy" "current_state m = FSM_TEACHER_PANORAMA"
    by (simp_all add: m_def loaded_director_def fsm_init_def)
  ultimately have "switch_policy_load list_mxml (one_file ''policy'' [?d]) ''policy'' ?m0 = Inr (0, m) \<and> v < 2 \<and> t < 3 \<and> s < 3 \<and>
     director_tick (loaded_director m) = Inr (let ret = sample_policy FSM_TEACHER_PANORAMA ! comb_index v t s 0
       in (ret, if ret = FSM_NOTRANSITION then loaded_director m else (loaded_director m)\<lparr>fsm := m\<lparr>current_state := ret\<rparr>\<rparr>))"
    using l by (simp add: loaded_director_def Let_def cong: if_cong)
  then show ?thesis by blast
qed

text \<open>
  C29. A policy file that can be opened but not parsed makes the loader return -1 after it has cleared the table,
  and nothing puts the built-in policy back: in every run the director stays where it is at every tick.
\<close>

theorem unparsable_policy_freezes:
  assumes "files fname = Some None"
  shows "\<exists>m. switch_policy_load mx files fname (fsm_init setup_truth_table transition_table_init) = Inr (-1, m) \<and>
    (\<forall>d. loaded_runs m d \<longrightarrow> director_tick d = Inr (FSM_NOTRANSITION, d))"
proof -
  let ?m = "clear_table (fsm_init setup_truth_table transition_table_init)"
  have ok: "loaded_ok (fsm_init setup_truth_table transition_table_init) ?m" by (rule clear_table_ok) (simp add: fsm_init_def)
  have "director_tick d = Inr (FSM_NOTRANSITION, d)" if run: "loaded_runs ?m d" for d
  proof -
    obtain v t s :: nat where v: "v < 2" "t < 3" "s < 3" "current_state (fsm d) \<noteq> FSM_NOTRANSITION"
      "director_tick d = Inr (let ret = fsm_transition_table ?m (current_state (fsm d)) ! comb_index v t s 0
        in (ret, if ret = FSM_NOTRANSITION then d else d\<lparr>fsm := (fsm d)\<lparr>current_state := ret\<rparr>\<rparr>))"
      using loaded_tick [OF ok run] by (elim exE conjE) (rule that)
    have "comb_index v t s 0 < 46" using v(1-3) by (simp add: comb_index_def)
    then have "fsm_transition_table ?m (current_state (fsm d)) ! comb_index v t s 0 = FSM_NOTRANSITION"
      using v(4) nth_replicate [of "comb_index v t s 0" 46 FSM_NOTRANSITION] by (simp add: clear_table_def)
    then show ?thesis using v(5) by (simp add: Let_def)
  qed
  moreover have "switch_policy_load mx files fname (fsm_init setup_truth_table transition_table_init) = Inr (-1, ?m)"
    using assms by (simp add: switch_policy_load_def load_file_def)
  ultimately show ?thesis by blast
qed

theorem unparsable_policy_freezes_witness:
  "\<exists>m. switch_policy_load list_mxml (\<lambda>f. Some None) ''policy'' (fsm_init setup_truth_table transition_table_init) = Inr (-1, m) \<and>
     director_tick (loaded_director m) = Inr (FSM_NOTRANSITION, loaded_director m)"
proof -
  obtain m where m: "switch_policy_load list_mxml (\<lambda>f. Some None) ''policy'' (fsm_init setup_truth_table transition_table_init) = Inr (-1, m)"
    "\<forall>d. loaded_runs m d \<longrightarrow> director_tick d = Inr (FSM_NOTRANSITION, d)"
    using unparsable_policy_freezes [of "\<lambda>f. Some None" "''policy''" list_mxml] by auto
  moreover have "loaded_runs m (loaded_director m)" by (simp add: loaded_runs_def)
  ultimately show ?thesis by blast
qed

text \<open>
  Without files the program starts with its defaults: the video map of \<^verbatim>\<open>vmap_table_init\<close>, the
  configuration of \<^verbatim>\<open>config_init\<close>, nothing forwarded, the cameras and the geometry of their initial
  functions, the built-in policy, and no screen. One variable has no default: whether there is an excluded
  zone is never assigned.
\<close>

theorem default_configuration:
  assumes "\<forall>f. files f = None"
  shows "main_config F mx files c = Inr \<lparr>mg_vmap = vmap_table_init, mg_reg_09 = make_reg09_int vmap_table_init,
      mg_cfg = config_init F c, mg_forward = no_forward\<rparr> \<and>
    switch_load F atof mx files vm dirty = Inr \<lparr>sl_teacher = camera_holder_init F (sl_teacher dirty), sl_IsExclude = None,
      sl_student = camera_holder_init F (sl_student dirty), sl_geo = student_tracking_geometry_init F (sl_geo dirty),
      sl_screen = (sl_screen dirty)\<lparr>has_screen := False\<rparr>, sl_fsm = fsm_init setup_truth_table transition_table_init\<rparr>"
proof (rule conjI)
  have n: "load_file mx files fname at_open parsed ms s = Inr (-1, s)" for fname at_open parsed ms s
    using assms by (simp add: load_file_def)
  show "main_config F mx files c = Inr \<lparr>mg_vmap = vmap_table_init, mg_reg_09 = make_reg09_int vmap_table_init,
      mg_cfg = config_init F c, mg_forward = no_forward\<rparr>"
    by (simp add: main_config_def vmap_table_load_def config_load_def forward_table_load_def n)
  show "switch_load F atof mx files vm dirty = Inr \<lparr>sl_teacher = camera_holder_init F (sl_teacher dirty), sl_IsExclude = None,
      sl_student = camera_holder_init F (sl_student dirty), sl_geo = student_tracking_geometry_init F (sl_geo dirty),
      sl_screen = (sl_screen dirty)\<lparr>has_screen := False\<rparr>, sl_fsm = fsm_init setup_truth_table transition_table_init\<rparr>"
    unfolding switch_load_def load_camera_def cam_param_load_def teacher_pt_speed_load_def teacher_exclude_load_def
      student_pt_speed_load_def student_tracking_geometry_load_def screen_geometry_load_def switch_policy_load_def n by simp
qed

theorem default_configuration_witness:
  "\<forall>dirty. \<exists>l. switch_load rat_fp (\<lambda>t. 0) list_mxml (\<lambda>f. None) vmap_table_init dirty = Inr l \<and> sl_IsExclude l = None \<and>
     \<not> has_screen (sl_screen l) \<and> sl_fsm l = fsm_init setup_truth_table transition_table_init"
proof
  fix dirty
  show "\<exists>l. switch_load rat_fp (\<lambda>t. 0) list_mxml (\<lambda>f. None) vmap_table_init dirty = Inr l \<and> sl_IsExclude l = None \<and>
     \<not> has_screen (sl_screen l) \<and> sl_fsm l = fsm_init setup_truth_table transition_table_init"
    using default_configuration [of "\<lambda>f. None" rat_fp list_mxml undefined "\<lambda>t. 0" vmap_table_init dirty] by simp
qed

end
