(* ===== verification/Board_Loops.thy ===== *)
theory Board_Loops
  imports Board_Threads Image_Thread Instructor
begin

text \<open>
  The loops of the board threads (\<^verbatim>\<open>thread_coreA\<close> with \<^verbatim>\<open>thread_coreA_send\<close>, \<^verbatim>\<open>thread_coreB\<close>,
  \<^verbatim>\<open>thread_coreC\<close>, \<^verbatim>\<open>thread_coreD\<close>) and of the instructor connection (\<^verbatim>\<open>main\<close>): a turn receives at most one
  message and hands it to the handler of the board, and sends at most one message of each of its queues.
  The results of \<open>select\<close> and \<open>send\<close> and the bytes on the socket are inputs; the calls on the socket are
  recorded.
\<close>

section \<open>A connection\<close>

record t_listen_thread_param =
  l_socket :: int
  l_port :: nat
  l_thread_canceled :: int
  l_senderr :: int
  l_recverr :: int

datatype sock_op = Sock_Send int "byte list" | Sock_Close int

record conn =
  cn_listen :: t_listen_thread_param
  cn_fifos :: fifos
  cn_ops :: "sock_op list"

abbreviation (input) cn_socket :: "'z conn_scheme \<Rightarrow> int" where
  "cn_socket st \<equiv> l_socket (cn_listen st)"

definition thread_listen_askexit :: "t_listen_thread_param \<Rightarrow> t_listen_thread_param" where
  "thread_listen_askexit l = (if l_thread_canceled l = 0 then l\<lparr>l_thread_canceled := 1\<rparr> else l)"

definition thread_listen_exited :: "t_listen_thread_param \<Rightarrow> bool" where
  "thread_listen_exited l \<longleftrightarrow> l_thread_canceled l = 2"

text \<open>\<^verbatim>\<open>close(socket); socket = -1;\<close>\<close>

definition close_link :: "'z conn_scheme \<Rightarrow> 'z conn_scheme" where
  "close_link st = st\<lparr>cn_listen := (cn_listen st)\<lparr>l_socket := -1\<rparr>, cn_ops := cn_ops st @ [Sock_Close (cn_socket st)]\<rparr>"

definition send_link :: "int \<Rightarrow> byte list \<Rightarrow> 'z conn_scheme \<Rightarrow> 'z conn_scheme" where
  "send_link ret bytes st =
     (if 0 \<le> cn_socket st then
        let st = st\<lparr>cn_ops := cn_ops st @ [Sock_Send (cn_socket st) bytes]\<rparr>
        in if ret < 0 then close_link st else st
      else st)"

section \<open>Sending\<close>

text \<open>The \<open>arg.len\<close> bytes at \<open>arg.data\<close>; the command in the message; \<^verbatim>\<open>datafifo_consumer_remove_head\<close>.\<close>

definition head_data :: "fifos \<Rightarrow> fifo_id \<Rightarrow> byte list" where
  "head_data s c = (case listhead (s c) of None \<Rightarrow> [] | Some h \<Rightarrow> take (unat (arg_len (itm s c h))) (head_memory s c))"

definition head_internal :: "fifos \<Rightarrow> fifo_id \<Rightarrow> bool res" where
  "head_internal s c =
     (case listhead (s c) of
        None \<Rightarrow> Inl Null_Deref
      | Some h \<Rightarrow> bind_res (mem_read (head_memory s c) VERSION_SIZE CMD_SIZE) (\<lambda>cmd. Inr (c_str cmd = COMMAND_INTERNAL)))"

definition remove_head :: "fifo_id \<Rightarrow> 'z conn_scheme \<Rightarrow> 'z conn_scheme res" where
  "remove_head c st = bind_res (datafifo_consumer_remove_head c (cn_fifos st)) (\<lambda>(ret, s). Inr (st\<lparr>cn_fifos := s\<rparr>))"

text \<open>The block that keeps internal messages back, and the block that sends everything.\<close>

definition send_external :: "fifo_id \<Rightarrow> int \<Rightarrow> 'z conn_scheme \<Rightarrow> 'z conn_scheme res" where
  "send_external c ret st =
     (if listhead (cn_fifos st c) = None then Inr st
      else bind_res (head_internal (cn_fifos st) c) (\<lambda>internal.
        remove_head c (if internal then st else send_link ret (head_data (cn_fifos st) c) st)))"

definition send_all :: "fifo_id \<Rightarrow> int \<Rightarrow> 'z conn_scheme \<Rightarrow> 'z conn_scheme res" where
  "send_all c ret st =
     (if listhead (cn_fifos st c) = None then Inr st
      else remove_head c (send_link ret (head_data (cn_fifos st) c) st))"

text \<open>
  Board C: for a message of the camera queue it looks at the head of the control queue, and sends that. (Its
  blocks for the two queues are exchanged except for the tests and the removals.)
\<close>

definition send_camera_C :: "fifo_id \<Rightarrow> fifo_id \<Rightarrow> int \<Rightarrow> 'z conn_scheme \<Rightarrow> 'z conn_scheme res" where
  "send_camera_C uart ctrl ret st =
     (if listhead (cn_fifos st uart) = None then Inr st
      else bind_res (head_internal (cn_fifos st) ctrl) (\<lambda>internal.
        remove_head uart (if internal then st else send_link ret (head_data (cn_fifos st) ctrl) st)))"

section \<open>Receiving\<close>

text \<open>
  \<open>in_select\<close> is the result of \<open>select\<close>, \<open>in_isset\<close> what the set holds after it has failed, \<open>in_buf\<close> the stack
  memory of the message buffer.
\<close>

record recv_in =
  in_select :: int
  in_isset :: bool
  in_sock :: sock_rx
  in_buf :: "byte list"

type_synonym 'z handler = "byte list \<Rightarrow> 'z conn_scheme \<Rightarrow> 'z conn_scheme res"

definition got_message :: "'z handler \<Rightarrow> ('z conn_scheme \<Rightarrow> 'z conn_scheme) \<Rightarrow> recv_in \<Rightarrow> 'z conn_scheme \<Rightarrow> (sock_rx \<times> 'z conn_scheme) res" where
  "got_message handle failed r st =
     bind_res (getMsg (in_sock r) (in_buf r)) (\<lambda>(MsgGot, buf, sock).
     if MsgGot < 0 then Inr (sock, failed st)
     else if MsgGot = 0 then Inr (sock, st)
     else bind_res (handle buf st) (\<lambda>st'. Inr (sock, st')))"

text \<open>
  Boards B, C, D and the instructor: an error closes the connection. After a failed \<open>select\<close> the socket is -1,
  and \<^verbatim>\<open>FD_ISSET(-1, &fdsr)\<close> reads outside the set.
\<close>

definition receive :: "'z handler \<Rightarrow> recv_in \<Rightarrow> 'z conn_scheme \<Rightarrow> (sock_rx \<times> 'z conn_scheme) res" where
  "receive handle r st =
     (if cn_socket st < 0 then Inr (in_sock r, st)
      else if in_select r < 0 then Inl Out_Of_Bounds
      else if in_select r = 0 then Inr (in_sock r, st)
      else got_message handle close_link r st)"

definition board_handler :: "(byte list \<Rightarrow> (core_fifo \<times> fifo_add) list res) \<Rightarrow> (core_fifo \<Rightarrow> fifo_id option) \<Rightarrow> 'z handler" where
  "board_handler h fifo Msg st = bind_res (board_rx h fifo (cn_fifos st) Msg) (\<lambda>s. Inr (st\<lparr>cn_fifos := s\<rparr>))"

section \<open>The turns\<close>

definition coreB_turn :: "recv_in \<Rightarrow> int \<Rightarrow> int \<Rightarrow> conn \<Rightarrow> (sock_rx \<times> conn) res" where
  "coreB_turn r ret_ctrl ret_uart st =
     bind_res (receive (board_handler DevBCMsgHandle coreB_fifo) r st) (\<lambda>(sock, st1).
     bind_res (send_external F_Ctrl_consumer_fifo_B ret_ctrl st1) (\<lambda>st2.
     bind_res (send_all F_UART_TX_consumer_fifo_B ret_uart st2) (\<lambda>st3. Inr (sock, st3))))"

definition coreC_turn :: "recv_in \<Rightarrow> int \<Rightarrow> int \<Rightarrow> conn \<Rightarrow> (sock_rx \<times> conn) res" where
  "coreC_turn r ret_ctrl ret_uart st =
     bind_res (receive (board_handler DevBCMsgHandle coreC_fifo) r st) (\<lambda>(sock, st1).
     bind_res (send_all F_Ctrl_consumer_fifo_C ret_ctrl st1) (\<lambda>st2.
     bind_res (send_camera_C F_UART_TX_consumer_fifo_C F_Ctrl_consumer_fifo_C ret_uart st2) (\<lambda>st3. Inr (sock, st3))))"

definition coreD_turn :: "recv_in \<Rightarrow> int \<Rightarrow> conn \<Rightarrow> (sock_rx \<times> conn) res" where
  "coreD_turn r ret_ctrl st =
     bind_res (receive (board_handler DevDMsgHandle coreD_fifo) r st) (\<lambda>(sock, st1).
     bind_res (send_external F_Ctrl_consumer_fifo_D ret_ctrl st1) (\<lambda>st2. Inr (sock, st2)))"

text \<open>
  Board A has a thread for each direction. An error of either is noted in a flag, the sender takes over the
  flag of the receiver, and the receiver closes the connection when both are set; it does so at every turn
  until the listening thread resets the flags.
\<close>

definition set_recverr :: "'z conn_scheme \<Rightarrow> 'z conn_scheme" where
  "set_recverr st = st\<lparr>cn_listen := (cn_listen st)\<lparr>l_recverr := 1\<rparr>\<rparr>"

definition set_senderr :: "'z conn_scheme \<Rightarrow> 'z conn_scheme" where
  "set_senderr st = st\<lparr>cn_listen := (cn_listen st)\<lparr>l_senderr := 1\<rparr>\<rparr>"

definition coreA_turn :: "recv_in \<Rightarrow> conn \<Rightarrow> (sock_rx \<times> conn) res" where
  "coreA_turn r st =
     bind_res
       (if 0 \<le> cn_socket st \<and> l_recverr (cn_listen st) = 0 then
          (let st = (if in_select r < 0 then set_recverr st else st)
           in if (if in_select r < 0 then in_isset r else in_select r \<noteq> 0)
              then got_message (board_handler DevAMsgHandle coreA_fifo) set_recverr r st else Inr (in_sock r, st))
        else Inr (in_sock r, st))
       (\<lambda>(sock, st1).
          Inr (sock, if l_senderr (cn_listen st1) \<noteq> 0 \<and> l_recverr (cn_listen st1) \<noteq> 0 then close_link st1 else st1))"

definition send_flagged :: "int \<Rightarrow> byte list \<Rightarrow> 'z conn_scheme \<Rightarrow> 'z conn_scheme" where
  "send_flagged ret bytes st =
     (if 0 \<le> cn_socket st \<and> l_senderr (cn_listen st) = 0 then
        let st = st\<lparr>cn_ops := cn_ops st @ [Sock_Send (cn_socket st) bytes]\<rparr>
        in if ret < 0 then set_senderr st else st
      else st)"

definition coreA_send_turn :: "int \<Rightarrow> int \<Rightarrow> conn \<Rightarrow> conn res" where
  "coreA_send_turn ret_ctrl ret_uart st =
     (let ctrl = F_Ctrl_consumer_fifo_A; uart = F_UART_TX_consumer_fifo_A
      in bind_res
           (if listhead (cn_fifos st ctrl) = None then Inr st
            else bind_res (head_internal (cn_fifos st) ctrl) (\<lambda>internal.
              remove_head ctrl (if internal then st else send_flagged ret_ctrl (head_data (cn_fifos st) ctrl) st)))
           (\<lambda>st1. bind_res
             (if listhead (cn_fifos st1 uart) = None then Inr st1
              else remove_head uart (send_flagged ret_uart (head_data (cn_fifos st1) uart) st1))
             (\<lambda>st2. Inr (if l_recverr (cn_listen st2) \<noteq> 0 then set_senderr st2 else st2))))"

text \<open>The instructor connection: it sends before it receives, and its handler adds to the control fifo.\<close>

record instr_conn = conn +
  ic_status :: e_recbc_status

definition instr_handler :: "instr_env \<Rightarrow> byte list \<Rightarrow> byte list \<Rightarrow> instr_conn \<Rightarrow> instr_conn res" where
  "instr_handler env g Msg st =
     bind_res (InstructorMsgHandle env g (instructor.make (ic_status st) []) Msg) (\<lambda>i.
     bind_res (add_each (map (Pair F_Ctrl_producer_fifo) (instructor.sent i)) (cn_fifos st)) (\<lambda>s.
     Inr (st\<lparr>cn_fifos := s, ic_status := recbc_status i\<rparr>)))"

definition main_turn :: "instr_env \<Rightarrow> byte list \<Rightarrow> recv_in \<Rightarrow> int \<Rightarrow> instr_conn \<Rightarrow> (sock_rx \<times> instr_conn) res" where
  "main_turn env g r ret st =
     bind_res (send_all F_Instructor_consumer_fifo ret st) (\<lambda>st1. receive (instr_handler env g) r st1)"

section \<open>What a turn sends\<close>

lemma head_none: "fifos_ok P C s \<Longrightarrow> c \<in> C \<Longrightarrow> listhead (s c) = None \<longleftrightarrow> frames s c = []"
proof
  assume ok: "fifos_ok P C s" "c \<in> C"
  obtain \<alpha> where rel: "rels (P \<union> C) s \<alpha>" using ok(1) by (auto simp: fifos_ok_def)
  have R: "fifo_rel (s c) (\<alpha> c)" using relsD [OF rel] ok(2) by simp
  have q: "frames s c = [] \<longleftrightarrow> a_queue (\<alpha> c) = []" using frames_Nil_iff [OF rel, of c] ok(2) by simp
  show "frames s c = []" if "listhead (s c) = None"
    using q fifo_relD(10) [OF R] that by (auto split: if_splits)
  show "listhead (s c) = None" if "frames s c = []"
    using q fifo_relD(10) [OF R] that by (auto split: if_splits)
qed

lemma head_some:
  assumes "fifos_ok P C s" and "c \<in> C" and "frames s c = (d, f, t) # fs"
  shows "listhead (s c) \<noteq> None" and "head_data s c = d"
    and "6 \<le> length d \<Longrightarrow> head_internal s c = Inr (c_str (take 4 (drop 2 d)) = COMMAND_INTERNAL)"
proof -
  obtain h rest where h: "listhead (s c) = Some h" "head_memory s c = d @ rest"
    using head_ref [OF assms] by metis
  have "datafifo_head s c = Some (d, f, t)" using head_frames [OF assms(1,2)] assms(3) by simp
  then have "frame_of s (itm s c h) = (d, f, t)" using h(1) by (simp add: datafifo_head_def split: if_splits)
  then show "head_data s c = d"
    using h(1) by (auto simp: head_data_def head_memory_def frame_of_def split: option.splits)
  show "listhead (s c) \<noteq> None" using h(1) by simp
  show "head_internal s c = Inr (c_str (take 4 (drop 2 d)) = COMMAND_INTERNAL)" if "6 \<le> length d"
    using h that by (simp add: head_internal_def mem_read_def take_append drop_append)
qed

text \<open>
  The reference: messages are sent in order, with the results of \<open>send\<close>, until one fails; then the
  connection is closed.
\<close>

fun sends :: "int \<Rightarrow> (int \<times> byte list) list \<Rightarrow> int \<times> sock_op list" where
  "sends k [] = (k, [])"
| "sends k ((ret, d) # ms) =
     (if k < 0 then (k, [])
      else if ret < 0 then (-1, [Sock_Send k d, Sock_Close k])
      else (case sends k ms of (k', ops) \<Rightarrow> (k', Sock_Send k d # ops)))"

lemma sends_dead: "k < 0 \<Longrightarrow> sends k ms = (k, [])"
  by (cases ms) auto

lemma sends_append: "sends k (ms @ ns) = (case sends k ms of (k1, o1) \<Rightarrow> case sends k1 ns of (k2, o2) \<Rightarrow> (k2, o1 @ o2))"
  by (induction k ms rule: sends.induct) (auto simp: sends_dead split: prod.splits)

definition after_sends :: "(int \<times> byte list) list \<Rightarrow> 'z conn_scheme \<Rightarrow> 'z conn_scheme" where
  "after_sends ms st = (case sends (cn_socket st) ms of (k, ops) \<Rightarrow>
     st\<lparr>cn_listen := (cn_listen st)\<lparr>l_socket := k\<rparr>, cn_ops := cn_ops st @ ops\<rparr>)"

lemma after_sends_nil [simp]: "after_sends [] st = st"
  by (simp add: after_sends_def)

lemma after_sends_append: "after_sends ns (after_sends ms st) = after_sends (ms @ ns) st"
  by (simp add: after_sends_def sends_append split: prod.splits)

lemma send_link_after: "send_link ret d st = after_sends [(ret, d)] st"
  by (simp add: send_link_def after_sends_def close_link_def Let_def)

lemma after_sends_fifos [simp]:
  "cn_fifos (after_sends ms st) = cn_fifos st"
  "(after_sends ms st)\<lparr>cn_fifos := s\<rparr> = after_sends ms (st\<lparr>cn_fifos := s\<rparr>)"
  by (simp_all add: after_sends_def split: prod.split)

text \<open>The queue of a consumer without its first frame, when it has one.\<close>

definition popped :: "fifo_id set \<Rightarrow> fifo_id set \<Rightarrow> fifo_id \<Rightarrow> fifos \<Rightarrow> fifos \<Rightarrow> bool" where
  "popped P C c s s' \<longleftrightarrow> (if frames s c = [] then s' = s else consumer_post P C c s s')"

lemma popped_ok: "popped P C c s s' \<Longrightarrow> fifos_ok P C s \<Longrightarrow> c \<in> C \<Longrightarrow>
    fifos_ok P C s' \<and> frames s' c = tl (frames s c) \<and> (\<forall>d\<in>C. d \<noteq> c \<longrightarrow> frames s' d = frames s d)"
  by (auto simp: popped_def consumer_post_def split: if_splits)

lemma remove_head_popped:
  assumes "fifos_ok P C (cn_fifos st)" and "c \<in> C" and "frames (cn_fifos st) c \<noteq> []"
  obtains s' where "popped P C c (cn_fifos st) s'" "\<And>ms. remove_head c (after_sends ms st) = Inr (after_sends ms (st\<lparr>cn_fifos := s'\<rparr>))"
proof -
  obtain s' where "datafifo_consumer_remove_head c (cn_fifos st) = Inr (0, s')" "consumer_post P C c (cn_fifos st) s'"
    using consumer_remove_step [OF assms] by blast
  then show thesis using that [of s'] assms(3) by (simp add: remove_head_def popped_def)
qed

definition heads :: "int \<Rightarrow> frame list \<Rightarrow> (int \<times> byte list) list" where
  "heads ret fs = map (\<lambda>(d, f, t). (ret, d)) (take 1 fs)"

definition is_internal :: "byte list \<Rightarrow> bool" where
  "is_internal d \<longleftrightarrow> c_str (take 4 (drop 2 d)) = COMMAND_INTERNAL"

lemma send_all_heads:
  assumes "fifos_ok P C (cn_fifos st)" and "c \<in> C"
  obtains s' where "popped P C c (cn_fifos st) s'"
    "send_all c ret st = Inr (after_sends (heads ret (frames (cn_fifos st) c)) (st\<lparr>cn_fifos := s'\<rparr>))"
proof (cases "frames (cn_fifos st) c")
  case Nil
  then show thesis using that [of "cn_fifos st"] head_none [OF assms] by (simp add: send_all_def heads_def popped_def)
next
  case (Cons x fs)
  obtain d f t where x: "frames (cn_fifos st) c = (d, f, t) # fs" using Cons by (cases x) auto
  obtain s' where "popped P C c (cn_fifos st) s'" "\<And>ms. remove_head c (after_sends ms st) = Inr (after_sends ms (st\<lparr>cn_fifos := s'\<rparr>))"
    by (rule remove_head_popped [OF assms]) (simp_all add: x)
  then show thesis
    using that [of s'] head_some [OF assms x] by (simp add: send_all_def send_link_after heads_def x)
qed

lemma send_external_heads:
  assumes "fifos_ok P C (cn_fifos st)" and "c \<in> C" and "\<forall>(d, f, t)\<in>set (frames (cn_fifos st) c). 6 \<le> length d"
  obtains s' where "popped P C c (cn_fifos st) s'"
    "send_external c ret st = Inr (after_sends (filter (\<lambda>(ret, d). \<not> is_internal d) (heads ret (frames (cn_fifos st) c))) (st\<lparr>cn_fifos := s'\<rparr>))"
proof (cases "frames (cn_fifos st) c")
  case Nil
  then show thesis using that [of "cn_fifos st"] head_none [OF assms(1,2)] by (simp add: send_external_def heads_def popped_def)
next
  case (Cons x fs)
  obtain d f t where x: "frames (cn_fifos st) c = (d, f, t) # fs" using Cons by (cases x) auto
  have d: "6 \<le> length d" using assms(3) x by simp
  obtain s' where "popped P C c (cn_fifos st) s'" and R: "\<And>ms. remove_head c (after_sends ms st) = Inr (after_sends ms (st\<lparr>cn_fifos := s'\<rparr>))"
    by (rule remove_head_popped [OF assms(1,2)]) (simp_all add: x)
  then show thesis
    using that [of s'] head_some(1,2) [OF assms(1,2) x] head_some(3) [OF assms(1,2) x d] R [of "[]"]
    by (simp add: send_external_def send_link_after heads_def x is_internal_def)
qed

section \<open>Turns without a message\<close>

definition no_message :: "recv_in \<Rightarrow> 'z conn_scheme \<Rightarrow> bool" where
  "no_message r st \<longleftrightarrow> cn_socket st < 0 \<or> in_select r = 0"

lemma receive_quiet: "no_message r st \<Longrightarrow> receive h r st = Inr (in_sock r, st)"
  by (auto simp: no_message_def receive_def)

definition external :: "(int \<times> byte list) list \<Rightarrow> (int \<times> byte list) list" where
  "external ms = filter (\<lambda>(ret, d). \<not> is_internal d) ms"

definition whole_messages :: "fifo_id \<Rightarrow> fifos \<Rightarrow> bool" where
  "whole_messages c s \<longleftrightarrow> (\<forall>(d, f, t)\<in>set (frames s c). 6 \<le> length d)"

text \<open>Taking the first frames of two different queues.\<close>

lemma popped_two:
  assumes "fifos_ok P C s" and "c \<in> C" and "d \<in> C" and "c \<noteq> d" and "popped P C c s s1" and "popped P C d s1 s2"
  shows "fifos_ok P C s2" and "frames s2 c = tl (frames s c)" and "frames s2 d = tl (frames s d)"
    and "\<forall>e\<in>C - {c, d}. frames s2 e = frames s e"
  using popped_ok [OF assms(5,1,2)] popped_ok [OF assms(6) _ assms(3)] assms(2-4) by auto

lemma coreB_quiet:
  assumes "fifos_ok main_P main_C (cn_fifos st)" and "whole_messages F_Ctrl_consumer_fifo_B (cn_fifos st)" and "no_message r st"
  obtains s' where "coreB_turn r ret_ctrl ret_uart st =
      Inr (in_sock r, after_sends (external (heads ret_ctrl (frames (cn_fifos st) F_Ctrl_consumer_fifo_B))
        @ heads ret_uart (frames (cn_fifos st) F_UART_TX_consumer_fifo_B)) (st\<lparr>cn_fifos := s'\<rparr>))"
    and "fifos_ok main_P main_C s'" "frames s' F_Ctrl_consumer_fifo_B = tl (frames (cn_fifos st) F_Ctrl_consumer_fifo_B)"
    and "frames s' F_UART_TX_consumer_fifo_B = tl (frames (cn_fifos st) F_UART_TX_consumer_fifo_B)"
    and "\<forall>e\<in>main_C - {F_Ctrl_consumer_fifo_B, F_UART_TX_consumer_fifo_B}. frames s' e = frames (cn_fifos st) e"
proof -
  have C: "39 \<in> main_C" "55 \<in> main_C" by (simp_all add: main_sets)
  obtain s1 where s1: "popped main_P main_C 39 (cn_fifos st) s1"
    "send_external 39 ret_ctrl st = Inr (after_sends (external (heads ret_ctrl (frames (cn_fifos st) 39))) (st\<lparr>cn_fifos := s1\<rparr>))"
    using send_external_heads [OF assms(1) C(1)] assms(2) unfolding whole_messages_def external_def by blast
  let ?st = "after_sends (external (heads ret_ctrl (frames (cn_fifos st) 39))) (st\<lparr>cn_fifos := s1\<rparr>)"
  have ok: "fifos_ok main_P main_C (cn_fifos ?st)" using popped_ok [OF s1(1) assms(1) C(1)] by simp
  obtain s2 where s2: "popped main_P main_C 55 (cn_fifos ?st) s2"
    "send_all 55 ret_uart ?st = Inr (after_sends (heads ret_uart (frames (cn_fifos ?st) 55)) (?st\<lparr>cn_fifos := s2\<rparr>))"
    by (rule send_all_heads [OF ok C(2)])
  have "frames (cn_fifos ?st) 55 = frames (cn_fifos st) 55" using popped_ok [OF s1(1) assms(1) C(1)] C(2) by simp
  then have "coreB_turn r ret_ctrl ret_uart st =
      Inr (in_sock r, after_sends (external (heads ret_ctrl (frames (cn_fifos st) 39)) @ heads ret_uart (frames (cn_fifos st) 55)) (st\<lparr>cn_fifos := s2\<rparr>))"
    by (simp add: coreB_turn_def receive_quiet [OF assms(3)] s1(2) s2(2) after_sends_append)
  moreover have "popped main_P main_C 55 s1 s2" using s2(1) by simp
  ultimately show thesis using popped_two [OF assms(1) C _ s1(1)] that by simp
qed

lemma coreC_quiet:
  assumes "fifos_ok main_P main_C (cn_fifos st)" and "whole_messages F_Ctrl_consumer_fifo_C (cn_fifos st)" and "no_message r st"
    and "frames (cn_fifos st) F_UART_TX_consumer_fifo_C \<noteq> []"
  shows "tl (frames (cn_fifos st) F_Ctrl_consumer_fifo_C) = [] \<Longrightarrow> coreC_turn r ret_ctrl ret_uart st = Inl Null_Deref"
    and "tl (frames (cn_fifos st) F_Ctrl_consumer_fifo_C) \<noteq> [] \<Longrightarrow> \<exists>s'. coreC_turn r ret_ctrl ret_uart st =
      Inr (in_sock r, after_sends (heads ret_ctrl (frames (cn_fifos st) F_Ctrl_consumer_fifo_C)
        @ external (heads ret_uart (tl (frames (cn_fifos st) F_Ctrl_consumer_fifo_C)))) (st\<lparr>cn_fifos := s'\<rparr>)) \<and>
      fifos_ok main_P main_C s' \<and> frames s' F_Ctrl_consumer_fifo_C = tl (frames (cn_fifos st) F_Ctrl_consumer_fifo_C) \<and>
      frames s' F_UART_TX_consumer_fifo_C = tl (frames (cn_fifos st) F_UART_TX_consumer_fifo_C)"
proof -
  have C: "40 \<in> main_C" "56 \<in> main_C" by (simp_all add: main_sets)
  obtain s1 where s1: "popped main_P main_C 40 (cn_fifos st) s1"
    "send_all 40 ret_ctrl st = Inr (after_sends (heads ret_ctrl (frames (cn_fifos st) 40)) (st\<lparr>cn_fifos := s1\<rparr>))"
    by (rule send_all_heads [OF assms(1) C(1)])
  let ?st = "after_sends (heads ret_ctrl (frames (cn_fifos st) 40)) (st\<lparr>cn_fifos := s1\<rparr>)"
  have p1: "fifos_ok main_P main_C s1" "frames s1 40 = tl (frames (cn_fifos st) 40)" "frames s1 56 = frames (cn_fifos st) 56"
    using popped_ok [OF s1(1) assms(1) C(1)] C(2) by auto
  obtain h where u: "listhead (s1 56) = Some h" using head_none [OF p1(1) C(2)] p1(3) assms(4) by (cases "listhead (s1 56)") auto
  have turn: "coreC_turn r ret_ctrl ret_uart st = bind_res (send_camera_C 56 40 ret_uart ?st) (\<lambda>st3. Inr (in_sock r, st3))"
    by (simp add: coreC_turn_def receive_quiet [OF assms(3)] s1(2))
  show "coreC_turn r ret_ctrl ret_uart st = Inl Null_Deref" if "tl (frames (cn_fifos st) 40) = []"
    using head_none [OF p1(1) C(1)] p1(2) that u by (auto simp: turn send_camera_C_def head_internal_def)
  assume "tl (frames (cn_fifos st) 40) \<noteq> []"
  then obtain d f t fs where x: "frames s1 40 = (d, f, t) # fs" using p1(2) by (cases "tl (frames (cn_fifos st) 40)") auto
  then have "(d, f, t) \<in> set (frames (cn_fifos st) 40)" using p1(2) by (metis list.set_intros(1) list.set_sel(2) list.sel(2) list.distinct(1))
  then have d: "6 \<le> length d" using assms(2) by (auto simp: whole_messages_def)
  note H = head_some [OF p1(1) C(1) x]
  obtain s2 where s2: "popped main_P main_C 56 (cn_fifos ?st) s2"
    "\<And>ms. remove_head 56 (after_sends ms ?st) = Inr (after_sends ms (?st\<lparr>cn_fifos := s2\<rparr>))"
    by (rule remove_head_popped [of main_P main_C ?st 56]) (use p1 C assms(4) in simp_all)
  have "send_camera_C 56 40 ret_uart ?st = Inr (after_sends (external (heads ret_uart (frames s1 40))) (?st\<lparr>cn_fifos := s2\<rparr>))"
    using u H(1,2) H(3) [OF d] s2(2) [of "[]"] s2(2) [of "[(ret_uart, d)]"]
    by (simp add: send_camera_C_def send_link_after external_def heads_def x is_internal_def)
  moreover have "popped main_P main_C 56 s1 s2" using s2(1) by simp
  ultimately show "\<exists>s'. coreC_turn r ret_ctrl ret_uart st =
      Inr (in_sock r, after_sends (heads ret_ctrl (frames (cn_fifos st) 40) @ external (heads ret_uart (tl (frames (cn_fifos st) 40)))) (st\<lparr>cn_fifos := s'\<rparr>)) \<and>
      fifos_ok main_P main_C s' \<and> frames s' 40 = tl (frames (cn_fifos st) 40) \<and> frames s' 56 = tl (frames (cn_fifos st) 56)"
    using popped_two [OF assms(1) C _ s1(1)] p1(2) by (intro exI [of _ s2]) (simp add: turn after_sends_append)
qed

section \<open>Turns with a message\<close>

fun coreA_turns :: "byte list list \<Rightarrow> sock_rx \<Rightarrow> conn \<Rightarrow> (sock_rx \<times> conn) res" where
  "coreA_turns [] sock st = Inr (sock, st)"
| "coreA_turns (buf # stacks) sock st =
     bind_res (coreA_turn \<lparr>in_select = 1, in_isset = True, in_sock = sock, in_buf = buf\<rparr> st) (\<lambda>(sock', st'). coreA_turns stacks sock' st')"

lemma coreA_turn_message:
  assumes "0 \<le> cn_socket st" and "l_recverr (cn_listen st) = 0" and "length c = 4" and "length (encode_attrs as) < 65536"
    and "rx sock = make_msg c as @ rest" and "length (make_msg c as) \<le> length buf"
    and "\<And>junk. board_rx DevAMsgHandle coreA_fifo (cn_fifos st) (make_msg c as @ junk) = Inr s'"
  shows "coreA_turn \<lparr>in_select = 1, in_isset = True, in_sock = sock, in_buf = buf\<rparr> st = Inr (sock\<lparr>rx := rest\<rparr>, st\<lparr>cn_fifos := s'\<rparr>)"
proof -
  have "0 < length (make_msg c as)" using assms(3) by (simp add: make_msg_def)
  then show ?thesis
    using getMsg_frame [OF assms(3-6)] assms(1,2,7)
    by (simp add: coreA_turn_def got_message_def board_handler_def)
qed

lemma coreA_turns_messages:
  assumes "\<And>i. i \<in> set ks \<Longrightarrow> m i = make_msg (c i) (as i) \<and> length (c i) = 4 \<and> length (encode_attrs (as i)) < 65536 \<and> length (m i) \<le> 1536"
    and "\<And>i s junk. i \<in> set ks \<Longrightarrow> board_rx DevAMsgHandle coreA_fifo s (m i @ junk) = board_rx DevAMsgHandle coreA_fifo s (m i)"
    and "fold_res (board_rx DevAMsgHandle coreA_fifo) (cn_fifos st) (map m ks) = Inr s'"
    and "length stacks = length ks" and "\<forall>b\<in>set stacks. length b = CMD_BUFSIZE"
    and "0 \<le> cn_socket st" and "l_recverr (cn_listen st) = 0" and "rx sock = concat (map m ks) @ rest"
  shows "coreA_turns stacks sock st = Inr (sock\<lparr>rx := rest\<rparr>, st\<lparr>cn_fifos := s'\<rparr>)"
  using assms
proof (induction ks arbitrary: stacks sock st)
  case (Cons i ks)
  obtain b bs where b: "stacks = b # bs" using Cons.prems(4) by (cases stacks) auto
  obtain s1 where s1: "board_rx DevAMsgHandle coreA_fifo (cn_fifos st) (m i) = Inr s1"
    "fold_res (board_rx DevAMsgHandle coreA_fifo) s1 (map m ks) = Inr s'"
    using Cons.prems(3) by (auto simp: bind_res_Inr)
  have mi: "m i = make_msg (c i) (as i)" "length (c i) = 4" "length (encode_attrs (as i)) < 65536" "length (m i) \<le> 1536"
    using Cons.prems(1) [of i] by auto
  have len: "length (make_msg (c i) (as i)) \<le> length b" using Cons.prems(5) mi(1,4) b by simp
  have rx: "rx sock = make_msg (c i) (as i) @ (concat (map m ks) @ rest)" using Cons.prems(8) mi(1) by simp
  have han: "board_rx DevAMsgHandle coreA_fifo (cn_fifos st) (make_msg (c i) (as i) @ junk) = Inr s1" for junk
    unfolding mi(1) [symmetric] using Cons.prems(2) [of i "cn_fifos st" junk] s1(1) by simp
  note turn = coreA_turn_message [OF Cons.prems(6,7) mi(2,3) rx len han]
  have "coreA_turns bs (sock\<lparr>rx := concat (map m ks) @ rest\<rparr>) (st\<lparr>cn_fifos := s1\<rparr>)
      = Inr ((sock\<lparr>rx := concat (map m ks) @ rest\<rparr>)\<lparr>rx := rest\<rparr>, (st\<lparr>cn_fifos := s1\<rparr>)\<lparr>cn_fifos := s'\<rparr>)"
  proof (rule Cons.IH)
    show "fold_res (board_rx DevAMsgHandle coreA_fifo) (cn_fifos (st\<lparr>cn_fifos := s1\<rparr>)) (map m ks) = Inr s'" using s1(2) by simp
    show "m j = make_msg (c j) (as j) \<and> length (c j) = 4 \<and> length (encode_attrs (as j)) < 65536 \<and> length (m j) \<le> 1536"
      if "j \<in> set ks" for j by (rule Cons.prems(1)) (simp add: that)
    show "board_rx DevAMsgHandle coreA_fifo s (m j @ junk) = board_rx DevAMsgHandle coreA_fifo s (m j)" if "j \<in> set ks" for j s junk
      by (rule Cons.prems(2)) (simp add: that)
  qed (use Cons.prems(4-7) b in simp_all)
  then show ?case by (simp add: b turn)
qed simp

section \<open>A picture over the connection\<close>

lemma length_packet_msg:
  assumes "length sid \<le> 400" and "length data \<le> 1024"
  shows "length (make_msg COMMAND_EVENT_UCI (packet_attrs sid fi data)) \<le> 1536"
proof -
  have l: "length sid < 1000" "length data \<le> MAX_AVPKT_SIZE" using assms by simp_all
  have "\<forall>a\<in>set (packet_attrs sid fi data). length (encode_attr a) = 5 + length (fst a) + length (snd a)"
    using packet_attrs_fits(1) [OF l] length_encode_attr by (auto simp: fits_def)
  then have "length (encode_attrs (packet_attrs sid fi data)) = 15 + 16 + 28 + length sid + length data"
    unfolding packet_attrs_def by (simp del: encode_attr.simps)
  then show ?thesis
    using length_encode_attrs_msg [of COMMAND_EVENT_UCI "packet_attrs sid fi data"] packet_attrs_fits(2) [OF l] assms by simp
qed

lemma coreA_packet_tail:
  assumes "length sid < 1000" and "length data \<le> 1024"
  shows "board_rx DevAMsgHandle coreA_fifo s (make_msg COMMAND_EVENT_UCI (packet_attrs sid fi data) @ junk)
    = board_rx DevAMsgHandle coreA_fifo s (make_msg COMMAND_EVENT_UCI (packet_attrs sid fi data))"
  using handler_packet(1) [OF assms refl refl, of fi junk] handler_packet(1) [OF assms refl refl, of fi "[]"]
  by (simp add: board_rx_def)

text \<open>
  C4. A picture of at most 72 KiB on the connection of board A: as many turns of its loop as the picture has
  packets take exactly its bytes off the stream, whatever is on the stack and follows on the stream, and
  append one frame, the picture, to the queue of the image thread, marked as the first one when it is number
  0; no other queue changes and the connection stays open.
\<close>

theorem picture_over_connection:
  assumes "fifos_ok main_P main_C (cn_fifos st)" and "links (cn_fifos st) p = (\<lambda>c. if c = F_Img_consumer_fifo then 1 else 0)"
    and "p = (if sid_channel sid = 0 then F_ImgV_producer_fifo else F_ImgM_producer_fifo)"
    and "pending (cn_fifos st) p = None" and "data_maxlen (cn_fifos st p) = IMGBUF_SIZE" and "in_use (cn_fifos st) p < capacity (cn_fifos st) p"
    and "in_use (cn_fifos st) F_Img_consumer_fifo < capacity (cn_fifos st) F_Img_consumer_fifo"
    and "length sid \<le> 400" and "pic \<noteq> []" and "length pic \<le> 73728"
    and "0 \<le> cn_socket st" and "l_recverr (cn_listen st) = 0"
    and "length stacks = num_pkts (length pic)" and "\<forall>b\<in>set stacks. length b = CMD_BUFSIZE"
    and "rx sock = concat (picture_msgs sid fr fnum ts pic) @ rest"
  shows "\<exists>s'. coreA_turns stacks sock st = Inr (sock\<lparr>rx := rest\<rparr>, st\<lparr>cn_fifos := s'\<rparr>) \<and>
    fifos_ok main_P main_C s' \<and>
    frames s' F_Img_consumer_fifo = frames (cn_fifos st) F_Img_consumer_fifo @ [(pic, if fnum = 0 then FRAME_FLAG_FIRSTFRAME else 0, 0)] \<and>
    (\<forall>c\<in>main_C. c \<noteq> F_Img_consumer_fifo \<longrightarrow> frames s' c = frames (cn_fifos st) c)"
proof -
  have sid: "length sid < 1000" using assms(8) by simp
  obtain s' where s': "fold_res (board_rx DevAMsgHandle coreA_fifo) (cn_fifos st) (picture_msgs sid fr fnum ts pic) = Inr s'"
    "fifos_ok main_P main_C s'"
    "frames s' 45 = frames (cn_fifos st) 45 @ [(pic, if fnum = 0 then FRAME_FLAG_FIRSTFRAME else 0, 0)]"
    "\<forall>c\<in>main_C. c \<noteq> 45 \<longrightarrow> frames s' c = frames (cn_fifos st) c"
    using picture_in_queue [OF assms(1-7) sid assms(9,10), of fr fnum ts] by blast
  let ?as = "\<lambda>i. packet_attrs sid (packet_info fr (int (length pic)) fnum ts (of_nat i)) (slice pic i)"
  have "coreA_turns stacks sock st = Inr (sock\<lparr>rx := rest\<rparr>, st\<lparr>cn_fifos := s'\<rparr>)"
    by (rule coreA_turns_messages [where m = "\<lambda>i. make_msg COMMAND_EVENT_UCI (?as i)" and c = "\<lambda>i. COMMAND_EVENT_UCI" and as = ?as
          and ks = "[0 ..< num_pkts (length pic)]"])
      (use length_packet_msg [OF assms(8) length_slice_le] packet_attrs_fits(2) [OF sid length_slice_le]
        coreA_packet_tail [OF sid length_slice_le] s'(1) assms(11-15) in \<open>simp_all add: picture_msgs_def\<close>)
  then show ?thesis using s'(2-4) by blast
qed

theorem picture_over_connection_witness:
  "\<exists>st stacks s'. frames (cn_fifos st) 45 = [] \<and>
     coreA_turns stacks \<lparr>rx = concat (picture_msgs ''00'' 25 0 77 (replicate 2000 (CHR ''p''))) @ ''01'', rx_closed = False\<rparr> st
       = Inr (\<lparr>rx = ''01'', rx_closed = False\<rparr>, st\<lparr>cn_fifos := s'\<rparr>) \<and>
     frames s' 45 = [(replicate 2000 (CHR ''p''), FRAME_FLAG_FIRSTFRAME, 0)]"
proof -
  obtain s where S: "fifos_ok main_P main_C s" "links s 13 = (\<lambda>c. if c = 45 then 1 else 0)"
    "pending s 13 = None" "data_maxlen (s 13) = IMGBUF_SIZE" "in_use s 13 < capacity s 13"
    "in_use s 45 < capacity s 45" "frames s 45 = []"
    by (rule main_imgv)
  define st :: conn where "st = \<lparr>cn_listen = \<lparr>l_socket = 5, l_port = 2000, l_thread_canceled = 0, l_senderr = 0, l_recverr = 0\<rparr>,
    cn_fifos = s, cn_ops = []\<rparr>"
  define pic where "pic = replicate 2000 (CHR ''p'')"
  define sock where "sock = \<lparr>rx = concat (picture_msgs ''00'' 25 0 77 pic) @ ''01'', rx_closed = False\<rparr>"
  have n: "13 = (if sid_channel ''00'' = 0 then 13 else 12 :: nat)" "length ''00'' \<le> 400" "pic \<noteq> []" "length pic \<le> 73728"
    by (simp_all add: sid_channel_def c_str_def pic_def)
  have c: "cn_fifos st = s" "0 \<le> cn_socket st" "l_recverr (cn_listen st) = 0" by (simp_all add: st_def)
  have b: "length (replicate (num_pkts (length pic)) (replicate CMD_BUFSIZE NUL)) = num_pkts (length pic)"
    "\<forall>b\<in>set (replicate (num_pkts (length pic)) (replicate CMD_BUFSIZE NUL)). length b = CMD_BUFSIZE" by simp_all
  have x: "rx sock = concat (picture_msgs ''00'' 25 0 77 pic) @ ''01''" by (simp add: sock_def)
  obtain s' where s': "coreA_turns (replicate (num_pkts (length pic)) (replicate CMD_BUFSIZE NUL)) sock st = Inr (sock\<lparr>rx := ''01''\<rparr>, st\<lparr>cn_fifos := s'\<rparr>)"
    "frames s' 45 = frames s 45 @ [(pic, if (0 :: u32) = 0 then FRAME_FLAG_FIRSTFRAME else 0, 0)]"
    using picture_over_connection [of st, unfolded c(1), OF S(1,2) n(1) S(3-6) n(2-4) c(2,3) b x] by blast
  show ?thesis
    using s' S(7) c(1)
    by (intro exI [of _ st] exI [of _ "replicate (num_pkts (length pic)) (replicate CMD_BUFSIZE NUL)"] exI [of _ s'])
      (simp add: sock_def flip: pic_def)
qed

end
