(* ===== verification/Board_Link.thy ===== *)
theory Board_Link
  imports Rec_Prelude
begin

text \<open>
  The connection of board A, shared by three threads without a lock: the sender (\<^verbatim>\<open>thread_coreA_send\<close>), the
  receiver (\<^verbatim>\<open>thread_coreA\<close>) and the listener (\<^verbatim>\<open>thread_listen\<close>). Here every access to the shared variables
  is a step of its own, in every interleaving (of a sequentially consistent memory).
\<close>

section \<open>The threads\<close>

text \<open>Where a thread stands; an argument is a descriptor that has been read and is about to be used.\<close>

datatype sender_pc = S_Top | S_Socket | S_Clear | S_Send int | S_Failed | S_Take
datatype receiver_pc = R_Top | R_Socket | R_Use int | R_Failed | R_Check | R_Both | R_Go | R_Close int | R_Reset
datatype listener_pc = L_Top | L_Senderr | L_Recverr | L_Accept | L_Set int

record link =
  lk_socket :: int
  lk_senderr :: bool
  lk_recverr :: bool
  lk_open :: "int set"
  lk_sender :: sender_pc
  lk_receiver :: receiver_pc
  lk_listener :: listener_pc

text \<open>
  The sender: \<open>b\<close> is whether a queue has a message to send or the flag of the receiver is looked at next, and
  whether \<open>send\<close> succeeds.
\<close>

definition sender_step :: "bool \<Rightarrow> link \<Rightarrow> link" where
  "sender_step b s =
     (case lk_sender s of
        S_Top \<Rightarrow> s\<lparr>lk_sender := if b then (if 0 \<le> lk_socket s then S_Socket else S_Top) else if lk_recverr s then S_Take else S_Top\<rparr>
      | S_Socket \<Rightarrow> s\<lparr>lk_sender := if lk_senderr s then S_Top else S_Clear\<rparr>
      | S_Clear \<Rightarrow> s\<lparr>lk_sender := S_Send (lk_socket s)\<rparr>
      | S_Send k \<Rightarrow> s\<lparr>lk_sender := if b then S_Top else S_Failed\<rparr>
      | S_Failed \<Rightarrow> s\<lparr>lk_senderr := True, lk_sender := S_Top\<rparr>
      | S_Take \<Rightarrow> s\<lparr>lk_senderr := True, lk_sender := S_Top\<rparr>)"

text \<open>The receiver: \<open>b\<close> is whether \<open>select\<close> and \<^verbatim>\<open>getMsg\<close> succeed.\<close>

definition receiver_step :: "bool \<Rightarrow> link \<Rightarrow> link" where
  "receiver_step b s =
     (case lk_receiver s of
        R_Top \<Rightarrow> s\<lparr>lk_receiver := if 0 \<le> lk_socket s then R_Socket else R_Check\<rparr>
      | R_Socket \<Rightarrow> s\<lparr>lk_receiver := if lk_recverr s then R_Check else R_Use (lk_socket s)\<rparr>
      | R_Use k \<Rightarrow> s\<lparr>lk_receiver := if b then R_Check else R_Failed\<rparr>
      | R_Failed \<Rightarrow> s\<lparr>lk_recverr := True, lk_receiver := R_Check\<rparr>
      | R_Check \<Rightarrow> s\<lparr>lk_receiver := if lk_senderr s then R_Both else R_Top\<rparr>
      | R_Both \<Rightarrow> s\<lparr>lk_receiver := if lk_recverr s then R_Go else R_Top\<rparr>
      | R_Go \<Rightarrow> s\<lparr>lk_receiver := R_Close (lk_socket s)\<rparr>
      | R_Close k \<Rightarrow> s\<lparr>lk_open := lk_open s - {k}, lk_receiver := R_Reset\<rparr>
      | R_Reset \<Rightarrow> s\<lparr>lk_socket := -1, lk_receiver := R_Top\<rparr>)"

text \<open>The listener, and \<open>accept\<close>, which returns a descriptor that is not in use.\<close>

definition listener_step :: "link \<Rightarrow> link" where
  "listener_step s =
     (case lk_listener s of
        L_Top \<Rightarrow> s\<lparr>lk_listener := if lk_socket s < 0 then L_Senderr else L_Top\<rparr>
      | L_Senderr \<Rightarrow> s\<lparr>lk_senderr := False, lk_listener := L_Recverr\<rparr>
      | L_Recverr \<Rightarrow> s\<lparr>lk_recverr := False, lk_listener := L_Accept\<rparr>
      | L_Accept \<Rightarrow> s
      | L_Set k \<Rightarrow> s\<lparr>lk_socket := k, lk_listener := L_Top\<rparr>)"

definition accept_step :: "int \<Rightarrow> link \<Rightarrow> link option" where
  "accept_step k s =
     (if lk_listener s = L_Accept \<and> 0 \<le> k \<and> k \<notin> lk_open s
      then Some (s\<lparr>lk_open := insert k (lk_open s), lk_listener := L_Set k\<rparr>) else None)"

datatype link_act = Sender bool | Receiver bool | Listener | Accept int

fun link_step :: "link_act \<Rightarrow> link \<Rightarrow> link option" where
  "link_step (Sender b) s = Some (sender_step b s)"
| "link_step (Receiver b) s = Some (receiver_step b s)"
| "link_step Listener s = Some (listener_step s)"
| "link_step (Accept k) s = accept_step k s"

fun link_run :: "link_act list \<Rightarrow> link \<Rightarrow> link option" where
  "link_run [] s = Some s"
| "link_run (a # as) s = (case link_step a s of None \<Rightarrow> None | Some s' \<Rightarrow> link_run as s')"

lemma link_run_invariant:
  assumes "link_run as s = Some t" and "I s" and "\<forall>a\<in>set as. ok a"
    and "\<And>a s s'. ok a \<Longrightarrow> I s \<Longrightarrow> link_step a s = Some s' \<Longrightarrow> I s'"
  shows "I t"
  using assms(1-3)
proof (induction as arbitrary: s)
  case (Cons a as)
  then obtain s' where "link_step a s = Some s'" "link_run as s' = Some t" by (auto split: option.splits)
  then show ?case using Cons assms(4) [of a s s'] by auto
qed simp

text \<open>A connection without errors, all threads at the tops of their loops.\<close>

definition connected :: "int \<Rightarrow> link" where
  "connected k = \<lparr>lk_socket = k, lk_senderr = False, lk_recverr = False, lk_open = {k},
     lk_sender = S_Top, lk_receiver = R_Top, lk_listener = L_Top\<rparr>"

section \<open>The life of a connection\<close>

text \<open>
  Until the next connection is accepted: the descriptor is open as long as it is in \<open>socket\<close>, up to the moment
  between \<open>close\<close> and \<open>socket = -1\<close>; the sender only sends while its flag is not set, and the receiver only
  closes when it is.
\<close>

definition life_inv :: "int \<Rightarrow> link \<Rightarrow> bool" where
  "life_inv k s \<longleftrightarrow>
     (lk_socket s = k \<or> lk_socket s = -1) \<and>
     lk_open s = (if lk_socket s = k \<and> lk_receiver s \<noteq> R_Reset then {k} else {}) \<and>
     (lk_socket s = k \<longrightarrow> lk_listener s = L_Top) \<and> (\<forall>j. lk_listener s \<noteq> L_Set j) \<and>
     (lk_sender s = S_Clear \<longrightarrow> lk_socket s = k \<longrightarrow> \<not> lk_senderr s) \<and>
     (\<forall>j. lk_sender s = S_Send j \<longrightarrow> j = -1 \<or> j = k \<and> lk_socket s = k \<and> \<not> lk_senderr s) \<and>
     (lk_receiver s \<in> {R_Both, R_Go, R_Reset} \<union> range R_Close \<longrightarrow> lk_socket s = k \<longrightarrow> lk_senderr s) \<and>
     (lk_receiver s = R_Socket \<longrightarrow> lk_socket s = k) \<and>
     (\<forall>j. lk_receiver s = R_Use j \<longrightarrow> j = k \<and> lk_socket s = k) \<and>
     (\<forall>j. lk_receiver s = R_Close j \<longrightarrow> j = lk_socket s)"

lemma life_connected: "0 \<le> k \<Longrightarrow> life_inv k (connected k)"
  by (auto simp: life_inv_def connected_def)

lemma life_sender:
  assumes "life_inv k s" and "0 \<le> k"
  shows "life_inv k (sender_step b s)"
  using assms by (cases "lk_sender s") (auto simp: life_inv_def sender_step_def)

lemma life_receiver:
  assumes "life_inv k s" and "0 \<le> k"
  shows "life_inv k (receiver_step b s)"
  using assms by (cases "lk_receiver s") (auto simp: life_inv_def receiver_step_def)

lemma life_listener:
  assumes "life_inv k s" and "0 \<le> k"
  shows "life_inv k (listener_step s)"
  using assms by (cases "lk_listener s") (auto simp: life_inv_def listener_step_def)

lemma life_runs:
  assumes "link_run as (connected k) = Some s" and "0 \<le> k" and "\<forall>j. Accept j \<notin> set as"
  shows "life_inv k s"
proof (rule link_run_invariant [where I = "life_inv k" and ok = "\<lambda>a. \<forall>j. a \<noteq> Accept j", OF assms(1) life_connected [OF assms(2)]])
  show "\<forall>a\<in>set as. \<forall>j. a \<noteq> Accept j" using assms(3) by auto
  show "life_inv k s'" if "\<forall>j. a \<noteq> Accept j" "life_inv k s" "link_step a s = Some s'" for a s s'
    using that life_sender life_receiver life_listener assms(2) by (cases a) auto
qed

text \<open>
  C31. From a connection without errors until the next one is accepted, in every interleaving of the three
  threads: the sender and the receiver use the descriptor only while it is open (a late sender may use -1),
  and the receiver closes it only when it is open and the sender is neither using it nor going to.
\<close>

theorem connection_safe:
  assumes "link_run as (connected k) = Some s" and "0 \<le> k" and "\<forall>j. Accept j \<notin> set as"
  shows "(\<forall>j. lk_sender s = S_Send j \<longrightarrow> j = -1 \<or> j \<in> lk_open s) \<and>
    (\<forall>j. lk_receiver s = R_Use j \<longrightarrow> j \<in> lk_open s) \<and>
    (\<forall>j. lk_receiver s = R_Close j \<longrightarrow> j = -1 \<or> j \<in> lk_open s \<and> lk_sender s \<noteq> S_Send j \<and> lk_sender s \<noteq> S_Clear)"
proof -
  have I: "life_inv k s" by (rule life_runs [OF assms])
  have "j = -1 \<or> j \<in> lk_open s" if "lk_sender s = S_Send j" for j
    using I that unfolding life_inv_def by (cases "lk_receiver s") auto
  moreover have "j \<in> lk_open s" if "lk_receiver s = R_Use j" for j
    using I that unfolding life_inv_def by auto
  moreover have "j = -1 \<or> j \<in> lk_open s \<and> lk_sender s \<noteq> S_Send j \<and> lk_sender s \<noteq> S_Clear" if "lk_receiver s = R_Close j" for j
    using I that unfolding life_inv_def by (cases "lk_sender s") auto
  ultimately show ?thesis by blast
qed

text \<open>The receiver fails, the sender takes that over, the receiver is about to close.\<close>

definition closing :: "link_act list" where
  "closing = [Receiver True, Receiver True, Receiver False, Receiver True, Sender False, Sender True,
     Receiver True, Receiver True, Receiver True]"

theorem connection_safe_witness:
  "\<exists>s. link_run closing (connected 5) = Some s \<and> lk_receiver s = R_Close 5 \<and> 5 \<in> lk_open s \<and> lk_sender s \<noteq> S_Send 5"
proof -
  obtain s where s: "link_run closing (connected 5) = Some s" "lk_receiver s = R_Close 5"
    by (simp add: closing_def connected_def receiver_step_def sender_step_def)
  moreover have "\<forall>j. Accept j \<notin> set closing" by (simp add: closing_def)
  ultimately show ?thesis using connection_safe [of closing 5 s] by auto
qed

section \<open>The next connection\<close>

text \<open>
  The listener resets the flags one after the other; in between the sender takes over the old flag of the
  receiver.
\<close>

definition reconnecting :: "int \<Rightarrow> link_act list" where
  "reconnecting k = closing @ [Receiver True, Receiver True, Listener, Listener, Sender False, Sender True, Listener, Accept k, Listener]"

definition deaf :: "int \<Rightarrow> link \<Rightarrow> bool" where
  "deaf k s \<longleftrightarrow> lk_socket s = k \<and> lk_senderr s \<and> \<not> lk_recverr s \<and> lk_listener s = L_Top \<and>
     lk_sender s \<in> {S_Top, S_Socket} \<and> lk_receiver s \<in> {R_Top, R_Socket, R_Use k, R_Check, R_Both}"

lemma deaf_stays:
  assumes "deaf k s" and "0 \<le> k" and "a \<noteq> Receiver False" and "link_step a s = Some s'"
  shows "deaf k s'"
  using assms
  by (cases a) (auto simp: deaf_def sender_step_def receiver_step_def listener_step_def accept_step_def split: if_splits)

text \<open>
  C34. The next connection can be deaf: from a connection without errors there is an interleaving after which a
  new connection stands with the flag of the sender set and all threads at the tops of their loops; and as
  long as the receiver sees no error, the sender never sends on it again.
\<close>

theorem reconnect_deaf:
  assumes "0 \<le> k" and "0 \<le> k'"
  shows "\<exists>as s. link_run as (connected k) = Some s \<and> s = (connected k')\<lparr>lk_senderr := True\<rparr> \<and>
    (\<forall>bs t. link_run bs s = Some t \<longrightarrow> Receiver False \<notin> set bs \<longrightarrow> lk_socket t = k' \<and> (\<forall>j. lk_sender t \<noteq> S_Send j))"
proof -
  let ?s = "(connected k')\<lparr>lk_senderr := True\<rparr>"
  have "link_run (reconnecting k') (connected k) = Some ?s"
    using assms unfolding reconnecting_def closing_def by (simp add: reconnecting_def closing_def connected_def receiver_step_def sender_step_def listener_step_def accept_step_def)
  moreover have "lk_socket t = k' \<and> (\<forall>j. lk_sender t \<noteq> S_Send j)"
    if run: "link_run bs ?s = Some t" "Receiver False \<notin> set bs" for bs t
  proof -
    have "deaf k' t"
    proof (rule link_run_invariant [where I = "deaf k'" and ok = "\<lambda>a. a \<noteq> Receiver False", OF run(1)])
      show "deaf k' ?s" by (simp add: deaf_def connected_def)
      show "\<forall>a\<in>set bs. a \<noteq> Receiver False" using run(2) by blast
    qed (rule deaf_stays [OF _ assms(2)])
    then show ?thesis by (auto simp: deaf_def)
  qed
  ultimately show ?thesis by blast
qed

theorem reconnect_deaf_witness:
  "\<exists>as s t. link_run as (connected 5) = Some s \<and> s = (connected 6)\<lparr>lk_senderr := True\<rparr> \<and>
     link_run [Sender True, Sender True, Receiver True] s = Some t \<and> lk_socket t = 6 \<and> (\<forall>j. lk_sender t \<noteq> S_Send j)"
proof -
  obtain as s where s: "link_run as (connected 5) = Some s" "s = (connected 6)\<lparr>lk_senderr := True\<rparr>"
    "\<And>bs t. link_run bs s = Some t \<Longrightarrow> Receiver False \<notin> set bs \<Longrightarrow> lk_socket t = 6 \<and> (\<forall>j. lk_sender t \<noteq> S_Send j)"
    using reconnect_deaf [of 5 6] by auto
  obtain t where "link_run [Sender True, Sender True, Receiver True] s = Some t" by simp
  then show ?thesis using s(1,2) s(3) [of "[Sender True, Sender True, Receiver True]" t] by auto
qed

text \<open>
  And the receiver can close the next connection while the sender uses it, when it is delayed between the
  test of the flags, which are still set after the last connection, and \<open>close\<close>.
\<close>

lemma stale_close:
  assumes "0 \<le> k" and "0 \<le> k'"
  shows "\<exists>as s. link_run as (connected k) = Some s \<and> lk_sender s = S_Send k' \<and> lk_socket s = k' \<and> k' \<notin> lk_open s"
proof -
  let ?as = "closing @ [Receiver True, Receiver True, Receiver True, Receiver True, Receiver True,
    Listener, Listener, Listener, Accept k', Listener, Sender True, Sender True, Sender True, Receiver True, Receiver True]"
  have "\<exists>s. link_run ?as (connected k) = Some s \<and> lk_sender s = S_Send k' \<and> lk_socket s = k' \<and> k' \<notin> lk_open s"
    using assms by (simp add: closing_def connected_def receiver_step_def sender_step_def listener_step_def accept_step_def)
  then show ?thesis by blast
qed

end
