(* ===== verification/Link_Properties.thy ===== *)
theory Link_Properties
  imports Board_Loops Board_Link Image_Properties
begin

text \<open>
  What the threads of boards B and C send. The two loops have the same queues; in the one of board C the
  blocks for them are exchanged.
\<close>

section \<open>Queued camera commands\<close>

lemma main_shape_cameras:
  "main_shape 26 = (1536, 10, [55])" "main_shape 55 = (0, 10, [])" "main_shape 27 = (1536, 10, [56])" "main_shape 56 = (0, 10, [])"
  by (simp_all add: main_shape_at main_setup_def)

lemma queued_camera:
  assumes "(p, c) \<in> {(26 :: nat, 55 :: nat), (27, 56)}" and "length d \<le> 1536"
  obtains s where "wired s" "frames s c = [(d, 0, 0)]" "\<forall>e\<in>main_C. e \<noteq> c \<longrightarrow> frames s e = []"
proof -
  obtain s0 where s0: "wired s0" "\<forall>p\<in>main_P. pending s0 p = None" "\<forall>f\<in>main_P \<union> main_C. in_use s0 f = 0"
    by (rule idle_wired)
  let ?x = "\<lparr>fa_data = d, fa_flags = WHOLE_FRAME, fa_timestamp = 0\<rparr>"
  have e: "frames s0 e = []" if "e \<in> main_C" for e
    using s0(3) that by (simp add: in_use_def frames_def)
  have pc: "p < 38" "38 \<le> c" "c < 58" "main_shape p = (1536, 10, [c])" "main_shape c = (0, 10, [])" "p \<in> main_P" "c \<in> main_C"
    using assms(1) main_shape_cameras by (auto simp: main_sets)
  have x: "\<forall>y\<in>set [?x]. fa_flags y = WHOLE_FRAME \<and> length (fa_data y) \<le> unat (1536 :: u32)" using assms(2) by simp
  obtain s where "wired s" "frames s c = frames s0 c @ map whole_frame [?x]" "\<forall>d\<in>main_C. d \<noteq> c \<longrightarrow> frames s d = frames s0 d"
    using wired_add [OF s0(1) pc(1,4,5,2,3) _ _ x] s0(2,3) pc(6,7) by auto
  then show thesis using that [of s] e pc(7) by (simp add: whole_frame_def)
qed

definition linked :: "fifos \<Rightarrow> conn" where
  "linked s = \<lparr>cn_listen = \<lparr>l_socket = 5, l_port = 2001, l_thread_canceled = 0, l_senderr = 0, l_recverr = 0\<rparr>, cn_fifos = s, cn_ops = []\<rparr>"

definition silent :: recv_in where
  "silent = \<lparr>in_select = 0, in_isset = False, in_sock = \<lparr>rx = [], rx_closed = False\<rparr>, in_buf = []\<rparr>"

section \<open>Properties\<close>

text \<open>
  C33. A turn of board B without a message from it takes the first message off each of its two queues and
  leaves all other queues alone. Over the connection go the control message, unless it is an internal one, and
  then the camera command, each unchanged; after a failure of \<open>send\<close> the connection is closed and nothing
  more is sent.
\<close>

theorem coreB_sends:
  assumes "fifos_ok main_P main_C (cn_fifos st)" and "whole_messages F_Ctrl_consumer_fifo_B (cn_fifos st)" and "no_message r st"
  shows "\<exists>s'. coreB_turn r ret_ctrl ret_uart st =
      Inr (in_sock r, after_sends (external (heads ret_ctrl (frames (cn_fifos st) F_Ctrl_consumer_fifo_B))
        @ heads ret_uart (frames (cn_fifos st) F_UART_TX_consumer_fifo_B)) (st\<lparr>cn_fifos := s'\<rparr>)) \<and>
    fifos_ok main_P main_C s' \<and>
    frames s' F_Ctrl_consumer_fifo_B = tl (frames (cn_fifos st) F_Ctrl_consumer_fifo_B) \<and>
    frames s' F_UART_TX_consumer_fifo_B = tl (frames (cn_fifos st) F_UART_TX_consumer_fifo_B) \<and>
    (\<forall>e\<in>main_C - {F_Ctrl_consumer_fifo_B, F_UART_TX_consumer_fifo_B}. frames s' e = frames (cn_fifos st) e)"
  using coreB_quiet [OF assms, of ret_ctrl ret_uart] by metis

theorem coreB_sends_witness:
  "\<exists>s s'. frames s 55 = [(''move'', 0, 0)] \<and>
     coreB_turn silent 0 4 (linked s) = Inr (in_sock silent, (linked s')\<lparr>cn_ops := [Sock_Send 5 ''move'']\<rparr>) \<and> frames s' 55 = []"
proof -
  obtain s where s: "wired s" "frames s 55 = [(''move'', 0, 0)]" "\<forall>e\<in>main_C. e \<noteq> 55 \<longrightarrow> frames s e = []"
    by (rule queued_camera [of 26 55 "''move''"]) auto
  have e: "frames s 39 = []" using s(3) by (simp add: main_sets)
  have h: "fifos_ok main_P main_C (cn_fifos (linked s))" "whole_messages 39 (cn_fifos (linked s))" "no_message silent (linked s)"
    using wiredD(1) [OF s(1)] e by (simp_all add: linked_def whole_messages_def no_message_def silent_def)
  show ?thesis
    using coreB_sends [OF h, of 0 4] s(2) e by (auto simp: linked_def after_sends_def heads_def external_def)
qed

text \<open>
  C32. The thread of board C looks at the wrong queue. When a camera command waits, a turn without a message
  from the board dereferences a null pointer unless a second control message waits; then it sends the first
  control message even when it is an internal one, then the second one in the place of the camera command
  when it is external, and drops the camera command: what goes over the connection does not depend on it.
\<close>

theorem coreC_swaps:
  assumes "fifos_ok main_P main_C (cn_fifos st)" and "whole_messages F_Ctrl_consumer_fifo_C (cn_fifos st)" and "no_message r st"
    and "frames (cn_fifos st) F_UART_TX_consumer_fifo_C \<noteq> []"
  shows "if tl (frames (cn_fifos st) F_Ctrl_consumer_fifo_C) = [] then coreC_turn r ret_ctrl ret_uart st = Inl Null_Deref
    else \<exists>s'. coreC_turn r ret_ctrl ret_uart st =
      Inr (in_sock r, after_sends (heads ret_ctrl (frames (cn_fifos st) F_Ctrl_consumer_fifo_C)
        @ external (heads ret_uart (tl (frames (cn_fifos st) F_Ctrl_consumer_fifo_C)))) (st\<lparr>cn_fifos := s'\<rparr>)) \<and>
      fifos_ok main_P main_C s' \<and> frames s' F_Ctrl_consumer_fifo_C = tl (frames (cn_fifos st) F_Ctrl_consumer_fifo_C) \<and>
      frames s' F_UART_TX_consumer_fifo_C = tl (frames (cn_fifos st) F_UART_TX_consumer_fifo_C)"
  using coreC_quiet [OF assms, of ret_ctrl ret_uart] by simp

theorem coreC_swaps_witness:
  "\<exists>s. frames s 56 = [(''move'', 0, 0)] \<and> coreC_turn silent 0 4 (linked s) = Inl Null_Deref"
proof -
  obtain s where s: "wired s" "frames s 56 = [(''move'', 0, 0)]" "\<forall>e\<in>main_C. e \<noteq> 56 \<longrightarrow> frames s e = []"
    by (rule queued_camera [of 27 56 "''move''"]) auto
  have e: "frames s 40 = []" using s(3) by (simp add: main_sets)
  have h: "fifos_ok main_P main_C (cn_fifos (linked s))" "whole_messages 40 (cn_fifos (linked s))" "no_message silent (linked s)"
    "frames (cn_fifos (linked s)) 56 \<noteq> []"
    using wiredD(1) [OF s(1)] e s(2) by (simp_all add: linked_def whole_messages_def no_message_def silent_def)
  show ?thesis using coreC_swaps [OF h, of 0 4] s(2) e by (auto simp: linked_def)
qed

end
