(* ===== verification/Spec2Isabelle.thy ===== *)
theory Spec2Isabelle
  imports Msg_Properties Thread_Properties Tracking_Properties Analyze_Properties Save_Properties
    Config_Properties Link_Properties
begin

text \<open>
  A verification library for the lecture recorder server \<^verbatim>\<open>recbcsrv\<close> (\<^verbatim>\<open>src/recbcsrv\<close>).

  The program. \<^verbatim>\<open>recbc_srv.c\<close> is one process of many threads. Four core boards A to D deliver
  encoded audio and video, pictures for analysis, detection events and the bytes of the serial camera
  holders as messages over TCP; a platform server (the instructor connection) starts and stops
  recordings and moves cameras; the tracking thread steers the cameras and acts as director: it chooses
  the video that is shown. The threads are connected by frame fifos (\<^verbatim>\<open>datafifo.c\<close>): a producer owns
  a pool of buffers, a frame is put together from pieces in one of them, and announced by reference to
  every connected consumer fifo.

  The theories, in the order of the code:
  \<^item> \<open>Rec_Prelude\<close>: bytes, words, C strings, memory accesses with bounds, the result type of code that
    can go wrong, the flags of a piece.
  \<^item> \<open>Msg_Codec\<close>, \<open>Msg_Properties\<close>: the messages (\<^verbatim>\<open>char2hex\<close>, \<^verbatim>\<open>add_attr_*\<close>,
    \<^verbatim>\<open>fill_cmd_header\<close>, \<^verbatim>\<open>getMsg\<close>, \<^verbatim>\<open>MsgDump\<close> and the attribute loop that every handler
    contains). Shown: building and scanning are inverse, \<^verbatim>\<open>getMsg\<close> takes exactly one frame off the
    stream and leaves an incomplete one there, and where it overruns the buffer of its caller.
  \<^item> \<open>Detect_Result\<close>: the decoders of the detection events and the encoder of the analysis event;
    round trips, and the unchecked channel index.
  \<^item> \<open>Instructor\<close>: \<^verbatim>\<open>InstructorMsgHandle\<close> and the four translators of camera commands; an invariant
    over every session, and what \<open>Start\<close> and a pan/tilt command emit.
  \<^item> \<open>Av_Packets\<close>: \<^verbatim>\<open>JPEGPacknSend2df\<close> and \<^verbatim>\<open>PIPPacknSend2df\<close>.
  \<^item> \<open>Core_Devices\<close>: \<^verbatim>\<open>DevAMsgHandle\<close>, \<^verbatim>\<open>DevBCMsgHandle\<close>, \<^verbatim>\<open>DevDMsgHandle\<close>: which pieces a
    message adds to which fifo.
  \<^item> \<open>Datafifo\<close>: the fifos with their pools, linked lists (pointers as indices into the pool),
    reference counts and buffers. \<open>Datafifo_Lists\<close> abstracts the linked lists to lists,
    \<open>Datafifo_Delivery\<close> has the invariant of the whole network (reference counts, ownership of buffers)
    and what each operation does on the abstract level, \<open>Datafifo_Framing\<close> the frame assembler
    \<open>framer\<close> which \<^verbatim>\<open>datafifo_producer_data_add\<close> refines, \<open>Datafifo_Channel\<close> the interfaces of a
    consumer and of a producer as locales with the lemmas of their clients, \<open>Datafifo_Setup\<close> their
    interpretations and the runs of a network, \<open>Topology\<close> the 101 calls with which \<^verbatim>\<open>main\<close> builds the
    network, \<open>Fifo_Properties\<close> the properties.
  \<^item> \<open>Board_Threads\<close>: the messages of the boards added to the network of \<^verbatim>\<open>main\<close>.
    \<open>Board_Loops\<close>, \<open>Link_Properties\<close>: turns of the loops of the board threads and of the instructor
    connection, from the bytes on the socket to the fifos and back. \<open>Board_Link\<close>: the three threads that share
    the connection of board A, access by access, in every interleaving: a connection is closed only when
    nobody uses it, but its successor can be deaf.
  \<^item> \<open>Switch_Fsm\<close>: the truth table, the transition table and the machine of the director.
    \<open>Switch_Decision\<close>: its canonical form and the decision as a function. \<open>Video_Map\<close>: the table of
    the videos. \<open>Switch_Events\<close>: the events of the thread, the switch messages. \<open>Switch_Director\<close>,
    \<open>Switch_Properties\<close>: the runs of the director as a step relation, its invariant and properties.
  \<^item> \<open>C_Float\<close>: floating point arithmetic as a parameter. \<open>Camera_Holder\<close>: the serial protocol of
    the cameras. \<open>Camera_Setup\<close>, \<open>Camera_Properties\<close>: their set-up as a machine of seventeen states,
    what it learns, how it recovers from lost answers, and that one command is in flight.
    \<open>Camera_Commands\<close>: the operator's commands.
  \<^item> \<open>Tracking\<close>, \<open>Tracking_Properties\<close>: the judgement of a detection, following and searching for
    the teacher; where a move can end, given the limits and the excluded zone of the set-up, and that
    the search sweeps the range.
    \<open>Student_Tracking\<close>: the geometry of the standing student and the moves of the third camera.
  \<^item> \<open>Director_Thread\<close>, \<open>Thread_Properties\<close>: a turn of the loop of \<^verbatim>\<open>thread_SwitchTracking\<close>,
    composed of these parts; it runs the director and, while the operator sends nothing, sends at most one
    switch command in a turn and none within three seconds of the one before.
  \<^item> \<open>Yuv_Picture\<close>: the conversions of the pictures. \<open>Image_Thread\<close>, \<open>Image_Properties\<close>: a turn of
    \<^verbatim>\<open>thread_img\<close> on the network of fifos, and the numbers of the analysed pictures, which the
    tracking resets.
  \<^item> \<open>Frame_Diff\<close>, \<open>Svm\<close>, \<open>Centrist\<close>, \<open>Detect_Frame\<close>: the image analysis (\<^verbatim>\<open>PC_CENTRIST\<close>): the
    moving objects are the maximal runs of moving columns, the classifier is the vote of its pairwise
    decisions, the persons are the windows whose census histograms it accepts, and the reported box is their
    average. \<open>Analyze_Thread\<close>, \<open>Analyze_Properties\<close>: a turn of \<^verbatim>\<open>thread_analyze\<close> on the network.
  \<^item> \<open>Local_Save\<close>: \<^verbatim>\<open>thread_localsave\<close>, \<^verbatim>\<open>streamframe\<close> and \<^verbatim>\<open>thread_mp4format\<close>.
    \<open>Save_Recording\<close>, \<open>Save_Properties\<close>: its invariant against every session of the instructor
    connection (through the locale \<open>session_monitor\<close> of \<open>Instructor\<close>), the contents of the files,
    and how a recording and the thread end.
  \<^item> \<open>Xml_Reader\<close>, \<open>Xml_Entries\<close>: the walk of the loaders of \<^verbatim>\<open>xmlparser.c\<close> over the modules, groups and
    entries of a configuration file, with the variable \<^verbatim>\<open>nodeAttr\<close> that its nested loops share; it is the
    fold over the entries. \<open>Config_Load\<close>: the ten loaders as tables of names and actions. \<open>Config_Policy\<close>:
    a policy as a document, and reading it back. \<open>Config_Setup\<close>, \<open>Config_Properties\<close>: what \<^verbatim>\<open>main\<close> and
    \<^verbatim>\<open>thread_SwitchTracking\<close> load at their start, and the director with a loaded policy.

  Conventions. \<open>int\<close> and \<open>unsigned\<close> are 32 bit words where they can wrap, bytes are characters. A C
  function that can fail, or read or write out of bounds, returns \<open>c_error + result\<close>: out of bounds
  accesses, null dereferences, uninitialised reads, blocking for ever and loops that do not end are
  errors of the model, so a theorem that says \<open>Inr\<close> also says that none of them happens. Each fifo
  operation is one atomic step, as its mutex makes it; interleavings are sequences of such steps
  (\<open>Board_Link\<close> has no lock, and every access is a step).
  The contents of fresh stack and heap memory and the success of \<^verbatim>\<open>malloc\<close> are parameters. The one
  loop with fuel, \<^verbatim>\<open>datafifo_consumer_clear\<close>, gets one turn more than the consumer has items, and it is
  proved that this is enough; the attribute loops terminate because they are bounded by the length
  of the memory they read. Floating point operations and the functions of \<^verbatim>\<open>math.h\<close> are the fields of
  the record \<open>fp\<close>, about which the theorems assume nothing, or say what they assume. The times at which
  the code reads the clock are inputs; all commands of one control message get the same time.

  libjpeg is a parameter: the encoded picture is a function of the strips it is handed. Files are a map
  from paths to contents, in which every write succeeds; which paths can be opened, and what
  \<^verbatim>\<open>send\<close> returns, are inputs.

  mxml is a parameter: a record of the accessors of a node, which may even form a cycle, where the walk does
  not end. What the library is relied on for is the hypothesis \<open>represents_list\<close>: the accessors describe a tree.

  Not modelled: how \<^verbatim>\<open>thread_listen\<close> opens its socket and how threads are created and ended, the files
  of the classifier (\<^verbatim>\<open>svm_load_model\<close>, \<^verbatim>\<open>loadFeature\<close>: a loaded model is an argument),
  \<^verbatim>\<open>audio_equalizer_load\<close>, which does not compile, the emulators and the time clients;
  \<^verbatim>\<open>ntp-4.2.6p5\<close> is a vendored distribution.
\<close>

end
